(* ===== verification/Prelude.thy ===== *)
theory Prelude
  imports Main "HOL-Library.AList" "HOL-Library.Sublist"
begin

text \<open>
  The vocabulary the component theories share.

  \<^item> Timestamps. The code keeps ISO-8601 texts and reads them back with \<open>Date.parse\<close>, which
    answers \<open>NaN\<close> on a text it cannot read.  A text is modelled by what it denotes: an instant in
    milliseconds, or an unreadable text.  Every comparison the code makes goes through the parsed
    number, so two spellings of one instant behave alike.
  \<^item> Errors. An operation that may throw returns \<open>error + 'a\<close> with the thrown error on the left.
  \<^item> JavaScript collection idioms: \<open>??\<close>, \<open>Array.find\<close>, \<open>Array.findIndex\<close>, and insertion-ordered
    \<open>Map\<close> objects as association lists.
  \<^item> A locale for state machines, which lifts a one-step invariant to every run.
\<close>

named_theorems invariants "one-step preservation facts"

subsection \<open>Timestamps\<close>

datatype stamp = Instant int | Unreadable string

fun date_parse :: "stamp \<Rightarrow> int option" where
  "date_parse (Instant t) = Some t"
| "date_parse (Unreadable _) = None"

text \<open>\<open>Math.ceil(a / b)\<close> for a positive divisor.\<close>

definition ceil_div :: "int \<Rightarrow> int \<Rightarrow> int" where
  "ceil_div a b = - ((- a) div b)"

subsection \<open>Nullish coalescing and optional reads\<close>

definition nullish :: "'a option \<Rightarrow> 'a \<Rightarrow> 'a" where
  "nullish x d = (case x of None \<Rightarrow> d | Some v \<Rightarrow> v)"

definition or_else :: "'a option \<Rightarrow> 'a option \<Rightarrow> 'a option" where
  "or_else x y = (case x of None \<Rightarrow> y | Some v \<Rightarrow> Some v)"

lemma nullish_simps [simp]: "nullish None d = d" "nullish (Some v) d = v"
  by (simp_all add: nullish_def)

lemma or_else_simps [simp]: "or_else None y = y" "or_else (Some v) y = Some v" "or_else x None = x"
  by (simp_all add: or_else_def split: option.splits)

subsection \<open>Results\<close>

definition bind_result :: "'e + 'a \<Rightarrow> ('a \<Rightarrow> 'e + 'b) \<Rightarrow> 'e + 'b" where
  "bind_result r f = (case r of Inl e \<Rightarrow> Inl e | Inr a \<Rightarrow> f a)"

lemma bind_result_simps [simp]:
  "bind_result (Inl e) f = Inl e" "bind_result (Inr a) f = f a"
  by (simp_all add: bind_result_def)

lemma bind_result_Inr_iff:
  "bind_result r f = Inr b \<longleftrightarrow> (\<exists>a. r = Inr a \<and> f a = Inr b)"
  by (cases r) auto

lemma bind_result_cong [fundef_cong]:
  "r = r' \<Longrightarrow> (\<And>a. r' = Inr a \<Longrightarrow> f a = g a) \<Longrightarrow> bind_result r f = bind_result r' g"
  by (cases r') auto

subsection \<open>Array searches\<close>

text \<open>\<open>List.find\<close> is \<open>Array.prototype.find\<close>; \<open>find_index\<close> is \<open>Array.prototype.findIndex\<close>
  with \<open>None\<close> for -1.\<close>

fun find_index :: "('a \<Rightarrow> bool) \<Rightarrow> 'a list \<Rightarrow> nat option" where
  "find_index p [] = None"
| "find_index p (x # xs) = (if p x then Some 0 else map_option Suc (find_index p xs))"

lemma find_index_Some:
  "find_index p xs = Some i \<Longrightarrow> i < length xs \<and> p (xs ! i) \<and> (\<forall>j<i. \<not> p (xs ! j))"
proof (induction xs arbitrary: i)
  case Nil
  then show ?case by simp
next
  case (Cons x xs)
  show ?case
  proof (cases "p x")
    case True
    with Cons.prems show ?thesis by simp
  next
    case False
    with Cons.prems obtain k where k: "find_index p xs = Some k" "i = Suc k" by auto
    from Cons.IH [OF k(1)] k(2) False show ?thesis
      by (auto simp: less_Suc_eq_0_disj nth_Cons')
  qed
qed

lemma find_index_None_iff: "find_index p xs = None \<longleftrightarrow> (\<forall>x\<in>set xs. \<not> p x)"
  by (induction xs) auto

lemma find_SomeD: "List.find p xs = Some x \<Longrightarrow> p x \<and> x \<in> set xs"
  by (auto simp: find_Some_iff)

lemma nth_eq_mem: "xs ! i = x \<Longrightarrow> i < length xs \<Longrightarrow> x \<in> set xs"
  by auto

lemma find_map_key:
  "(\<And>x. x \<in> set xs \<Longrightarrow> p (f x) = p x) \<Longrightarrow> List.find p (map f xs) = map_option f (List.find p xs)"
  by (induction xs) auto

subsection \<open>Removing one element by position\<close>

definition remove_nth :: "nat \<Rightarrow> 'a list \<Rightarrow> 'a list" where
  "remove_nth i xs = take i xs @ drop (Suc i) xs"

lemma set_remove_nth: "set (remove_nth i xs) \<subseteq> set xs"
  by (auto simp: remove_nth_def dest: in_set_takeD in_set_dropD)

lemma length_remove_nth: "i < length xs \<Longrightarrow> length (remove_nth i xs) = length xs - 1"
  by (simp add: remove_nth_def)

lemma distinct_remove_nth: "distinct xs \<Longrightarrow> distinct (remove_nth i xs)"
  using set_drop_subset_set_drop [of i "Suc i" xs] set_take_disj_set_drop_if_distinct [of xs i "Suc i"]
  by (simp add: remove_nth_def)

lemma distinct_map_remove_nth: "distinct (map f xs) \<Longrightarrow> distinct (map f (remove_nth i xs))"
  using distinct_remove_nth [of "map f xs" i] by (simp add: remove_nth_def take_map drop_map)

lemma distinct_map_keyD:
  "distinct (map f xs) \<Longrightarrow> x \<in> set xs \<Longrightarrow> y \<in> set xs \<Longrightarrow> f x = f y \<Longrightarrow> x = y"
  by (metis distinct_map inj_onD)

lemma find_append: "List.find p (xs @ ys) = (case List.find p xs of None \<Rightarrow> List.find p ys | Some x \<Rightarrow> Some x)"
  by (induction xs) auto

subsection \<open>Splitting at a separator\<close>

lemma sep_inject:
  assumes "c \<notin> set a" "c \<notin> set a'"
  shows "a @ c # b = a' @ c # b' \<longleftrightarrow> a = a' \<and> b = b'"
proof
  assume eq: "a @ c # b = a' @ c # b'"
  have tw: "takeWhile (\<lambda>x. x \<noteq> c) (u @ c # v) = u" if "c \<notin> set u" for u v
  proof -
    have "\<forall>x\<in>set u. x \<noteq> c" using that by auto
    then show ?thesis by simp
  qed
  from eq tw [OF assms(1), of b] tw [OF assms(2), of b'] have "a = a'" by simp
  with eq show "a = a' \<and> b = b'" by simp
qed simp

subsection \<open>Texts\<close>

text \<open>\<open>String(n)\<close> on a natural number, and the punctuation outside ASCII as its UTF-8 bytes.\<close>

fun string_of_nat :: "nat \<Rightarrow> string" where
  "string_of_nat n =
     (if n < 10 then [char_of (48 + n)] else string_of_nat (n div 10) @ [char_of (48 + n mod 10)])"

declare string_of_nat.simps [simp del]

definition string_of_int :: "int \<Rightarrow> string" where
  "string_of_int i = (if i < 0 then CHR ''-'' # string_of_nat (nat (- i)) else string_of_nat (nat i))"

definition em_dash :: string where "em_dash = [CHR 0xE2, CHR 0x80, CHR 0x94]"
definition mid_dot :: string where "mid_dot = [CHR 0xC2, CHR 0xB7]"

text \<open>\<open>xs.join(sep)\<close>.\<close>

fun join :: "string \<Rightarrow> string list \<Rightarrow> string" where
  "join sep [] = []"
| "join sep [x] = x"
| "join sep (x # xs) = x @ sep @ join sep xs"

subsection \<open>State machines\<close>

text \<open>
  A component whose operations all keep an invariant keeps it over every sequence of operations.
  The components' operation types instantiate \<open>step\<close>; a step that throws leaves the stored state
  as it was, which is how each instance is written.
\<close>

locale state_machine =
  fixes step :: "'op \<Rightarrow> 's \<Rightarrow> 's"
    and inv :: "'s \<Rightarrow> bool"
  assumes step_inv: "inv s \<Longrightarrow> inv (step e s)"
begin

lemma run_inv: "inv s \<Longrightarrow> inv (fold step es s)"
  by (induction es arbitrary: s) (simp_all add: step_inv)

lemma run_inv_prefix: "inv s \<Longrightarrow> es = es1 @ es2 \<Longrightarrow> inv (fold step es1 s)"
  by (rule run_inv)

end

text \<open>Operations that never move a measured quantity backwards.\<close>

locale monotone_machine =
  fixes step :: "'op \<Rightarrow> 's \<Rightarrow> 's"
    and le :: "'s \<Rightarrow> 's \<Rightarrow> bool"
  assumes le_refl: "le s s"
    and le_trans: "le s t \<Longrightarrow> le t u \<Longrightarrow> le s u"
    and step_le: "le s (step e s)"
begin

lemma run_le: "le s (fold step es s)"
proof (induction es arbitrary: s)
  case Nil
  show ?case by (simp add: le_refl)
next
  case (Cons e es)
  from Cons.IH [of "step e s"] step_le [of s e] show ?case
    by (auto intro: le_trans)
qed

end

subsection \<open>First-in first-out queues\<close>

text \<open>What a client that repeatedly serves the head of a queue sees.\<close>

fun drain :: "('q \<Rightarrow> 'a option) \<Rightarrow> ('q \<Rightarrow> 'q) \<Rightarrow> nat \<Rightarrow> 'q \<Rightarrow> 'a list" where
  "drain peek serve 0 q = []"
| "drain peek serve (Suc n) q =
     (case peek q of None \<Rightarrow> [] | Some x \<Rightarrow> x # drain peek serve n (serve q))"

locale fifo_queue =
  fixes contents :: "'q \<Rightarrow> 'a list"
    and peek :: "'q \<Rightarrow> 'a option"
    and serve :: "'q \<Rightarrow> 'q"
  assumes peek_Nil: "contents q = [] \<Longrightarrow> peek q = None"
    and peek_Cons: "contents q = x # xs \<Longrightarrow> peek q = Some x"
    and serve_Cons: "contents q = x # xs \<Longrightarrow> contents (serve q) = xs"
begin

lemma drain_take: "drain peek serve n q = take n (contents q)"
proof (induction n arbitrary: q)
  case 0
  show ?case by simp
next
  case (Suc n)
  show ?case
    by (cases "contents q") (simp_all add: peek_Nil peek_Cons serve_Cons Suc)
qed

lemma drain_all: "length (contents q) \<le> n \<Longrightarrow> drain peek serve n q = contents q"
  by (simp add: drain_take)

end

end
