(* ===== verification/Identity.thy ===== *)
theory Identity
  imports Prelude
begin

text \<open>
  Chat identities, from \<open>src/chat/identity.ts\<close> and the schemas of \<open>src/chat/identitySchema.ts\<close>:
  who may send, who may be addressed, and the durable keys the delivery cursors, the ack log and
  every equality test are built on.  The \<open>kind\<close> and \<open>source\<close> literals of the source objects are the
  constructors here; the remaining fields are the constructors' arguments.
\<close>

datatype agent_kind = Claude | Codex | Opencode | Custom

fun agent_name :: "agent_kind \<Rightarrow> string" where
  "agent_name Claude = ''claude''"
| "agent_name Codex = ''codex''"
| "agent_name Opencode = ''opencode''"
| "agent_name Custom = ''custom''"

record managed_peer =
  mp_machine :: string
  mp_agent :: agent_kind
  mp_session :: string
  mp_thread :: string

record codex_app_peer =
  ap_machine :: string
  ap_thread :: string
  ap_name :: "string option"

datatype transport = TransportLocal | TransportDeclaredService

datatype principal =
  FromManaged managed_peer
| FromCodexApp codex_app_peer
| FromCli string
| FromService string transport

datatype target =
  ToManaged managed_peer
| ToCodexApp codex_app_peer
| ToOwner
| ToExternal string

subsection \<open>Durable keys\<close>

definition managedPeerKey :: "managed_peer \<Rightarrow> string" where
  "managedPeerKey p =
     ''ccmux:'' @ mp_machine p @ '':'' @ agent_name (mp_agent p) @ '':'' @ mp_session p @ '':'' @ mp_thread p"

fun chatPrincipalKey :: "principal \<Rightarrow> string" where
  "chatPrincipalKey (FromManaged p) = managedPeerKey p"
| "chatPrincipalKey (FromCodexApp p) = ''codex-app:'' @ ap_machine p @ ''#'' @ ap_thread p"
| "chatPrincipalKey (FromCli m) = ''ccmux:'' @ m @ '':cli''"
| "chatPrincipalKey (FromService m _) = ''ccmux:'' @ m @ '':cli''"

fun chatTargetKey :: "target \<Rightarrow> string" where
  "chatTargetKey (ToManaged p) = managedPeerKey p"
| "chatTargetKey (ToCodexApp p) = ''codex-app:'' @ ap_machine p @ ''#'' @ ap_thread p"
| "chatTargetKey ToOwner = ''owner''"
| "chatTargetKey (ToExternal n) = ''external:'' @ n"

definition samePrincipal :: "principal \<Rightarrow> principal \<Rightarrow> bool" where
  "samePrincipal l r = (chatPrincipalKey l = chatPrincipalKey r)"

text \<open>The sender as a named session rather than one of its lives: the thread is left out.\<close>

definition senderKey :: "principal \<Rightarrow> string" where
  "senderKey p = (case p of
      FromManaged q \<Rightarrow> ''ccmux:'' @ mp_machine q @ '':'' @ agent_name (mp_agent q) @ '':'' @ mp_session q
    | _ \<Rightarrow> chatPrincipalKey p)"

definition sameSender :: "principal \<Rightarrow> principal \<Rightarrow> bool" where
  "sameSender l r = (senderKey l = senderKey r)"

definition sameTarget :: "target \<Rightarrow> target \<Rightarrow> bool" where
  "sameTarget l r = (chatTargetKey l = chatTargetKey r)"

subsection \<open>Labels and address tokens\<close>

definition CODEX_APP_PREFIX :: string where "CODEX_APP_PREFIX = ''app/''"

definition isCodexAppToken :: "string \<Rightarrow> bool" where
  "isCodexAppToken t = (prefix CODEX_APP_PREFIX t \<and> length t > length CODEX_APP_PREFIX)"

definition codexAppThreadId :: "string \<Rightarrow> string" where
  "codexAppThreadId t = drop (length CODEX_APP_PREFIX) t"

definition codexAppAddress :: "string \<Rightarrow> string" where
  "codexAppAddress thread = CODEX_APP_PREFIX @ thread"

definition externalAddress :: "string \<Rightarrow> string" where
  "externalAddress n = ''owner/'' @ n"

fun principalLabel :: "principal \<Rightarrow> string" where
  "principalLabel (FromCli m) = ''ccmux/cli@'' @ m"
| "principalLabel (FromService m _) = ''ccmux/service@'' @ m"
| "principalLabel (FromCodexApp p) =
     ''codex-app@'' @ ap_machine p @ '':'' @ nullish (ap_name p) ''thread'' @ ''#'' @ ap_thread p"
| "principalLabel (FromManaged p) =
     ''ccmux/'' @ agent_name (mp_agent p) @ ''@'' @ mp_machine p @ '':'' @ mp_session p @ ''#'' @ mp_thread p"

fun targetLabel :: "target \<Rightarrow> string" where
  "targetLabel ToOwner = ''owner''"
| "targetLabel (ToExternal n) = externalAddress n"
| "targetLabel (ToManaged p) = principalLabel (FromManaged p)"
| "targetLabel (ToCodexApp p) = principalLabel (FromCodexApp p)"

fun humanLabel :: "principal \<Rightarrow> string" where
  "humanLabel (FromCli m) = m @ '':cli''"
| "humanLabel (FromService m _) = m @ '':service''"
| "humanLabel (FromCodexApp p) =
     ap_machine p @ '':'' @ nullish (ap_name p) (codexAppAddress (ap_thread p))"
| "humanLabel (FromManaged p) = mp_machine p @ '':'' @ mp_session p"

subsection \<open>Well-formed identities\<close>

text \<open>
  What the schemas enforce on the components: a session name has no \<open>|\<close>, whitespace, \<open>#\<close> or \<open>:\<close>
  (\<open>SESSION_NAME_RE\<close>), and a machine name is a lowercase slug (\<open>RC_PREFIX_RE\<close>).
\<close>

definition is_space :: "char \<Rightarrow> bool" where
  "is_space c = (c \<in> {CHR '' '', CHR 0x09, CHR 0x0A, CHR 0x0B, CHR 0x0C, CHR 0x0D})"

definition session_name_char :: "char \<Rightarrow> bool" where
  "session_name_char c = (c \<noteq> CHR ''|'' \<and> \<not> is_space c \<and> c \<noteq> CHR ''#'' \<and> c \<noteq> CHR '':'')"

definition SESSION_NAME_RE :: "string \<Rightarrow> bool" where
  "SESSION_NAME_RE s = (s \<noteq> [] \<and> list_all session_name_char s)"

definition slug_lower :: "char \<Rightarrow> bool" where
  "slug_lower c = (97 \<le> (of_char c :: nat) \<and> (of_char c :: nat) \<le> 122)"

definition slug_tail :: "char \<Rightarrow> bool" where
  "slug_tail c = (slug_lower c \<or> (48 \<le> (of_char c :: nat) \<and> (of_char c :: nat) \<le> 57) \<or> c = CHR ''-'')"

fun RC_PREFIX_RE :: "string \<Rightarrow> bool" where
  "RC_PREFIX_RE [] = False"
| "RC_PREFIX_RE (c # cs) =
     (slug_lower c \<and> list_all slug_tail cs)"

definition wf_managed :: "managed_peer \<Rightarrow> bool" where
  "wf_managed p = (RC_PREFIX_RE (mp_machine p) \<and> SESSION_NAME_RE (mp_session p))"

fun wf_target :: "target \<Rightarrow> bool" where
  "wf_target (ToManaged p) = wf_managed p"
| "wf_target (ToCodexApp p) = RC_PREFIX_RE (ap_machine p)"
| "wf_target ToOwner = True"
| "wf_target (ToExternal n) = SESSION_NAME_RE n"

lemma slug_chars [simp]:
  "\<not> slug_lower (CHR '':'')" "\<not> slug_lower (CHR ''#'')"
  "\<not> slug_tail (CHR '':'')" "\<not> slug_tail (CHR ''#'')"
  by (simp_all add: slug_lower_def slug_tail_def)

lemma slug_no_sep: "RC_PREFIX_RE s \<Longrightarrow> CHR '':'' \<notin> set s \<and> CHR ''#'' \<notin> set s"
  by (cases s) (auto simp: list_all_iff)

lemma name_no_sep: "SESSION_NAME_RE s \<Longrightarrow> CHR '':'' \<notin> set s \<and> CHR ''#'' \<notin> set s"
  by (auto simp: SESSION_NAME_RE_def session_name_char_def list_all_iff)

lemma agent_name_no_sep [simp]: "CHR '':'' \<notin> set (agent_name a)"
  by (cases a) simp_all

lemma agent_name_inject [simp]: "agent_name a = agent_name b \<longleftrightarrow> a = b"
  by (cases a; cases b) simp_all

lemma managedPeerKey_inject:
  assumes "wf_managed p" "wf_managed q"
  shows "managedPeerKey p = managedPeerKey q \<longleftrightarrow> p = q"
proof
  assume key: "managedPeerKey p = managedPeerKey q"
  have sep: "CHR '':'' \<notin> set (mp_machine p)" "CHR '':'' \<notin> set (mp_machine q)"
    "CHR '':'' \<notin> set (mp_session p)" "CHR '':'' \<notin> set (mp_session q)"
    using assms by (auto simp: wf_managed_def dest: slug_no_sep name_no_sep)
  from key have "mp_machine p = mp_machine q \<and> mp_agent p = mp_agent q
      \<and> mp_session p = mp_session q \<and> mp_thread p = mp_thread q"
    by (simp add: managedPeerKey_def sep_inject sep)
  then show "p = q" by (cases p; cases q) simp
qed simp

text \<open>
  The key of an App thread names only its machine and thread, so the display name does not take
  part: two records of one thread share the key.
\<close>

fun same_address :: "target \<Rightarrow> target \<Rightarrow> bool" where
  "same_address (ToManaged p) (ToManaged q) = (p = q)"
| "same_address (ToCodexApp p) (ToCodexApp q) = (ap_machine p = ap_machine q \<and> ap_thread p = ap_thread q)"
| "same_address ToOwner ToOwner = True"
| "same_address (ToExternal m) (ToExternal n) = (m = n)"
| "same_address _ _ = False"

lemma key_head_distinct:
  "managedPeerKey p \<noteq> ''codex-app:'' @ s" "managedPeerKey p \<noteq> ''owner''"
  "managedPeerKey p \<noteq> ''external:'' @ s"
  by (simp_all add: managedPeerKey_def)

text \<open>
  Distinct addresses never share a delivery cursor, whatever their kinds: the target key is
  injective on the addresses the schemas admit.
\<close>

lemma chatTargetKey_inject:
  assumes "wf_target s" "wf_target t"
  shows "chatTargetKey s = chatTargetKey t \<longleftrightarrow> same_address s t"
proof (cases s)
  case (ToManaged p)
  with assms show ?thesis
    by (cases t) (simp_all add: managedPeerKey_inject key_head_distinct [simplified])
next
  case (ToCodexApp p)
  with assms show ?thesis
    by (cases t) (simp_all add: sep_inject slug_no_sep managedPeerKey_def)
next
  case ToOwner
  with assms show ?thesis by (cases t) (simp_all add: managedPeerKey_def)
next
  case (ToExternal n)
  with assms show ?thesis by (cases t) (simp_all add: managedPeerKey_def)
qed

lemma codexApp_token_roundtrip:
  "thread \<noteq> [] \<Longrightarrow> isCodexAppToken (codexAppAddress thread) \<and> codexAppThreadId (codexAppAddress thread) = thread"
  by (simp add: isCodexAppToken_def codexAppThreadId_def codexAppAddress_def CODEX_APP_PREFIX_def)

text \<open>A session keeps its sender identity over every life of the same name and runtime.\<close>

lemma senderKey_ignores_thread:
  "sameSender (FromManaged p) (FromManaged (p\<lparr>mp_thread := u\<rparr>))"
  by (simp add: sameSender_def senderKey_def)

lemma samePrincipal_imp_sameSender:
  assumes "wf_managed p" "wf_managed q"
  shows "samePrincipal (FromManaged p) (FromManaged q) \<Longrightarrow> sameSender (FromManaged p) (FromManaged q)"
  using assms by (simp add: samePrincipal_def sameSender_def managedPeerKey_inject)

text \<open>The keys are opaque to the delivery rules: they are compared, never taken apart.\<close>

declare chatTargetKey.simps [simp del] chatPrincipalKey.simps [simp del]

end
