(* ===== verification/MessageOps.thy ===== *)
theory MessageOps
  imports Identity
begin

text \<open>
  The per-session journal of message receipts (\<open>src/chat/messageOperationStore.ts\<close>,
  \<open>messageOperationSchema.ts\<close>): which native turn carries a message, how far it got, and until when
  the evidence is kept.  The digest of a principal is a parameter, and so is whether a journal fits
  the byte limit of its file.  Instants are milliseconds.
\<close>

datatype op_phase = Preparing | Queued | Uncertain | Admitted | Completed | Interrupted | Failed

datatype continuation_decision = DecideAccept | DecideDecline

record continuation =
  ct_requestId :: string
  ct_parentTurnId :: string
  ct_responseOperationId :: string
  ct_responseFingerprint :: string
  ct_turnId :: string
  ct_decision :: continuation_decision

record pending_approval =
  pa_requestId :: string
  pa_turnId :: string
  pa_callId :: string

record op_record =
  mr_messageId :: string
  mr_principal :: string
  mr_fingerprint :: string
  mr_phase :: op_phase
  mr_turnId :: "string option"
  mr_continuations :: "continuation list"
  mr_approvals :: "pending_approval list"
  mr_observedAt :: int
  mr_expiresAt :: "int option"

record op_journal =
  mj_registrationGeneration :: string
  mj_runtime :: agent_kind
  mj_nativeId :: string
  mj_records :: "op_record list"

datatype op_error = EvidenceUnavailable | JournalCapacity | JournalInvalid

definition MAX_RECORDS :: nat where "MAX_RECORDS = 256"
definition terminalTtlMs :: int where "terminalTtlMs = 7 * 24 * 60 * 60 * 1000"

definition terminal_phase :: "op_phase \<Rightarrow> bool" where
  "terminal_phase ph = (ph = Completed \<or> ph = Interrupted \<or> ph = Failed)"

text \<open>The schemas' refinements.\<close>

definition record_ok :: "op_record \<Rightarrow> bool" where
  "record_ok r =
     ((mr_phase r \<in> {Preparing, Queued, Uncertain}) = (mr_turnId r = None)
      \<and> terminal_phase (mr_phase r) = (mr_expiresAt r \<noteq> None)
      \<and> length (mr_continuations r) \<le> 32 \<and> length (mr_approvals r) \<le> 16)"

definition turn_ids :: "op_record list \<Rightarrow> string list" where
  "turn_ids rs = List.map_filter mr_turnId rs"

definition journal_ok :: "op_journal \<Rightarrow> bool" where
  "journal_ok j =
     (length (mj_records j) \<le> MAX_RECORDS \<and> (\<forall>r\<in>set (mj_records j). record_ok r)
      \<and> distinct (map mr_messageId (mj_records j)) \<and> distinct (turn_ids (mj_records j)))"

text \<open>The identity a journal is read under: the session's registration and native conversation.\<close>

record op_session =
  os_registrationGeneration :: string
  os_runtime :: agent_kind
  os_nativeId :: string

definition readMessageJournal :: "op_session \<Rightarrow> op_journal option \<Rightarrow> op_error + op_journal option" where
  "readMessageJournal s stored = (case stored of
      None \<Rightarrow> Inr None
    | Some j \<Rightarrow>
        (if \<not> journal_ok j then Inl JournalInvalid
         else if mj_registrationGeneration j \<noteq> os_registrationGeneration s \<or> mj_runtime j \<noteq> os_runtime s
            \<or> mj_nativeId j \<noteq> os_nativeId s then Inl EvidenceUnavailable
         else Inr (Some j)))"

definition write_journal :: "(op_journal \<Rightarrow> bool) \<Rightarrow> op_journal \<Rightarrow> op_error + op_journal option" where
  "write_journal fits j =
     (if \<not> journal_ok j then Inl JournalInvalid
      else if \<not> fits j then Inl EvidenceUnavailable else Inr (Some j))"

definition messagePrincipal :: "(string \<Rightarrow> string) \<Rightarrow> principal \<Rightarrow> string" where
  "messagePrincipal hash p = hash (chatPrincipalKey p)"

definition unexpired :: "int \<Rightarrow> op_record \<Rightarrow> bool" where
  "unexpired now r = (case mr_expiresAt r of None \<Rightarrow> True | Some t \<Rightarrow> t > now)"

definition fresh_record :: "string \<Rightarrow> string \<Rightarrow> string \<Rightarrow> int \<Rightarrow> op_record" where
  "fresh_record messageId who fingerprint now =
     \<lparr>mr_messageId = messageId, mr_principal = who, mr_fingerprint = fingerprint,
      mr_phase = Preparing, mr_turnId = None, mr_continuations = [], mr_approvals = [],
      mr_observedAt = now, mr_expiresAt = None\<rparr>"

definition empty_journal :: "op_session \<Rightarrow> op_journal" where
  "empty_journal s = \<lparr>mj_registrationGeneration = os_registrationGeneration s,
     mj_runtime = os_runtime s, mj_nativeId = os_nativeId s, mj_records = []\<rparr>"

definition prepareMessageOperation ::
  "(string \<Rightarrow> string) \<Rightarrow> (op_journal \<Rightarrow> bool) \<Rightarrow> op_session \<Rightarrow> principal \<Rightarrow> string \<Rightarrow> string \<Rightarrow> int
     \<Rightarrow> op_journal option \<Rightarrow> op_error + op_journal option" where
  "prepareMessageOperation hash fits s from messageId fingerprint now stored =
     bind_result (readMessageJournal s stored) (\<lambda>found.
       let journal = nullish found (empty_journal s)
       in case List.find (\<lambda>r. mr_messageId r = messageId) (mj_records journal) of
            Some prior \<Rightarrow>
              (if mr_principal prior \<noteq> messagePrincipal hash from \<or> mr_fingerprint prior \<noteq> fingerprint
               then Inl EvidenceUnavailable else Inr stored)
          | None \<Rightarrow>
              (let kept = filter (unexpired now) (mj_records journal);
                   fresh = fresh_record messageId (messagePrincipal hash from) fingerprint now
               in if length kept \<ge> MAX_RECORDS
                  then (case find_index (\<lambda>r. mr_expiresAt r \<noteq> None) kept of
                      None \<Rightarrow> Inl JournalCapacity
                    | Some i \<Rightarrow> write_journal fits (journal\<lparr>mj_records := remove_nth i kept @ [fresh]\<rparr>))
                  else write_journal fits (journal\<lparr>mj_records := kept @ [fresh]\<rparr>)))"

definition update_record :: "string \<Rightarrow> (op_record \<Rightarrow> op_record) \<Rightarrow> op_journal \<Rightarrow> op_journal" where
  "update_record messageId f j =
     j\<lparr>mj_records := map (\<lambda>r. if mr_messageId r = messageId then f r else r) (mj_records j)\<rparr>"

definition advanced :: "op_phase \<Rightarrow> string option \<Rightarrow> int \<Rightarrow> op_record \<Rightarrow> op_record" where
  "advanced ph turnId now r = r\<lparr>mr_phase := ph, mr_turnId := or_else turnId (mr_turnId r), mr_observedAt := now,
     mr_expiresAt := (if terminal_phase ph then Some (now + terminalTtlMs) else None)\<rparr>"

definition advanceMessageOperation ::
  "(op_journal \<Rightarrow> bool) \<Rightarrow> op_session \<Rightarrow> string \<Rightarrow> op_phase \<Rightarrow> string option \<Rightarrow> int
     \<Rightarrow> op_journal option \<Rightarrow> op_error + op_journal option" where
  "advanceMessageOperation fits s messageId ph turnId now stored =
     bind_result (readMessageJournal s stored) (\<lambda>found.
       case found of
         None \<Rightarrow> Inr stored
       | Some journal \<Rightarrow>
           (case List.find (\<lambda>r. mr_messageId r = messageId) (mj_records journal) of
              None \<Rightarrow> Inr stored
            | Some r \<Rightarrow>
                (if mr_turnId r \<noteq> None \<and> turnId \<noteq> None \<and> mr_turnId r \<noteq> turnId then Inl EvidenceUnavailable
                 else if turnId \<noteq> None \<and> (\<exists>i\<in>set (mj_records journal). mr_messageId i \<noteq> messageId \<and> mr_turnId i = turnId)
                 then Inl EvidenceUnavailable
                 else if mr_expiresAt r \<noteq> None then Inr stored
                 else if ph = Queued \<and> mr_phase r \<noteq> Preparing then Inr stored
                 else if ph = Uncertain \<and> mr_turnId r \<noteq> None then Inr stored
                 else if ph = Admitted \<and> turnId = None then Inl EvidenceUnavailable
                 else if terminal_phase ph \<and> turnId = None then Inl EvidenceUnavailable
                 else if mr_phase r = ph \<and> (turnId = None \<or> mr_turnId r = turnId) then Inr stored
                 else write_journal fits (update_record messageId (advanced ph turnId now) journal))))"

text \<open>The turns reachable from the first one, or \<open>None\<close> for a continuation that does not extend them.\<close>

fun grow_parents :: "string set \<Rightarrow> continuation list \<Rightarrow> string set option" where
  "grow_parents parents [] = Some parents"
| "grow_parents parents (c # cs) =
     (if ct_parentTurnId c \<notin> parents \<or> ct_turnId c \<in> parents then None
      else grow_parents (insert (ct_turnId c) parents) cs)"

definition projectMessageContinuation ::
  "(op_journal \<Rightarrow> bool) \<Rightarrow> op_session \<Rightarrow> string \<Rightarrow> continuation list \<Rightarrow> pending_approval list \<Rightarrow> int
     \<Rightarrow> op_journal option \<Rightarrow> op_error + op_journal option" where
  "projectMessageContinuation fits s messageId continuations approvals now stored =
     bind_result (readMessageJournal s stored) (\<lambda>found.
       case found of
         None \<Rightarrow> Inr stored
       | Some journal \<Rightarrow>
           (case List.find (\<lambda>r. mr_messageId r = messageId) (mj_records journal) of
              None \<Rightarrow> Inr stored
            | Some r \<Rightarrow>
                (if mr_expiresAt r \<noteq> None then Inr stored
                 else case mr_turnId r of
                     None \<Rightarrow> Inl EvidenceUnavailable
                   | Some t \<Rightarrow>
                       (case grow_parents {t} continuations of
                          None \<Rightarrow> Inl EvidenceUnavailable
                        | Some parents \<Rightarrow>
                            (if take (length (mr_continuations r)) continuations \<noteq> mr_continuations r
                             then Inl EvidenceUnavailable
                             else if \<exists>a\<in>set approvals. pa_turnId a \<notin> parents then Inl EvidenceUnavailable
                             else write_journal fits (update_record messageId (\<lambda>r.
                                r\<lparr>mr_continuations := continuations, mr_approvals := approvals,
                                  mr_observedAt := now\<rparr>) journal))))))"

subsection \<open>Reading and writing\<close>

lemma readMessageJournal_SomeD:
  "readMessageJournal s stored = Inr (Some j) \<Longrightarrow> stored = Some j \<and> journal_ok j"
  by (auto simp: readMessageJournal_def split: option.splits if_splits)

lemma write_journal_InrD: "write_journal fits j = Inr st \<Longrightarrow> st = Some j \<and> journal_ok j"
  by (auto simp: write_journal_def split: if_splits)

lemma find_unique:
  assumes "distinct (map f xs)" "x \<in> set xs"
  shows "List.find (\<lambda>y. f y = f x) xs = Some x"
  using assms by (induction xs) auto

text \<open>What an advance that succeeds did to a record: nothing, or the one step of \<open>advanced\<close>.\<close>

lemma advance_records:
  assumes ok: "advanceMessageOperation fits s messageId ph turnId now (Some j) = Inr (Some j')"
  shows "j' = j \<or> (\<exists>r\<in>set (mj_records j). mr_messageId r = messageId \<and> mr_expiresAt r = None
      \<and> (mr_turnId r = None \<or> turnId = None \<or> mr_turnId r = turnId)
      \<and> (ph = Queued \<longrightarrow> mr_phase r = Preparing) \<and> (ph = Uncertain \<longrightarrow> mr_turnId r = None)
      \<and> j' = update_record messageId (advanced ph turnId now) j \<and> journal_ok j')"
proof -
  have read: "readMessageJournal s (Some j) = Inr (Some j)"
    using ok by (auto simp: advanceMessageOperation_def readMessageJournal_def split: if_splits)
  show ?thesis
  proof (cases "List.find (\<lambda>r. mr_messageId r = messageId) (mj_records j)")
    case None
    with ok read show ?thesis by (simp add: advanceMessageOperation_def)
  next
    case (Some q)
    with find_SomeD [OF Some] ok read show ?thesis
      by (auto simp: advanceMessageOperation_def dest!: write_journal_InrD split: if_splits)
  qed
qed

definition phase_rank :: "op_phase \<Rightarrow> nat" where
  "phase_rank ph = (case ph of Preparing \<Rightarrow> 0 | Queued \<Rightarrow> 1 | Uncertain \<Rightarrow> 2 | Admitted \<Rightarrow> 3
     | Completed \<Rightarrow> 4 | Interrupted \<Rightarrow> 4 | Failed \<Rightarrow> 4)"

text \<open>Evidence only grows: a later record of a message keeps its turn and never falls back.\<close>

definition later :: "op_record \<Rightarrow> op_record \<Rightarrow> bool" where
  "later r r' = (mr_messageId r' = mr_messageId r \<and> mr_principal r' = mr_principal r
     \<and> mr_fingerprint r' = mr_fingerprint r
     \<and> (\<forall>t. mr_turnId r = Some t \<longrightarrow> mr_turnId r' = Some t)
     \<and> phase_rank (mr_phase r) \<le> phase_rank (mr_phase r')
     \<and> prefix (mr_continuations r) (mr_continuations r')
     \<and> (mr_expiresAt r \<noteq> None \<longrightarrow> r' = r))"

lemma later_refl [simp]: "later r r" by (simp add: later_def)

lemma journal_record_ok: "journal_ok j \<Longrightarrow> r \<in> set (mj_records j) \<Longrightarrow> record_ok r"
  by (simp add: journal_ok_def)

lemma advance_later:
  assumes j: "journal_ok j" and ph: "ph \<noteq> Preparing"
    and ok: "advanceMessageOperation fits s messageId ph turnId now (Some j) = Inr (Some j')"
    and r: "r \<in> set (mj_records j)"
  shows "\<exists>r'\<in>set (mj_records j'). later r r'"
proof (cases "j' = j")
  case True
  with r show ?thesis by (intro bexI [of _ r]) simp_all
next
  case False
  with advance_records [OF ok] obtain q where q: "q \<in> set (mj_records j)" "mr_messageId q = messageId"
    "mr_expiresAt q = None" "mr_turnId q = None \<or> turnId = None \<or> mr_turnId q = turnId"
    "ph = Queued \<longrightarrow> mr_phase q = Preparing" "ph = Uncertain \<longrightarrow> mr_turnId q = None"
    and j': "j' = update_record messageId (advanced ph turnId now) j" "journal_ok j'"
    by blast
  show ?thesis
  proof (cases "mr_messageId r = messageId")
    case True
    then have "r = q" using j q(1,2) r by (auto simp: journal_ok_def dest: distinct_map_keyD)
    let ?r = "advanced ph turnId now q"
    have mem: "?r \<in> set (mj_records j')" using q(1,2) by (auto simp: j'(1) update_record_def)
    have "record_ok q" "record_ok ?r" using j j'(2) q(1) mem by (auto intro: journal_record_ok)
    then have "phase_rank (mr_phase q) \<le> phase_rank (mr_phase ?r)"
      using q(3,5,6) ph
      by (cases ph; cases "mr_phase q")
        (auto simp: phase_rank_def advanced_def record_ok_def terminal_phase_def)
    then have "later q ?r" using q by (auto simp: later_def advanced_def)
    with mem \<open>r = q\<close> show ?thesis by blast
  next
    case False
    with r have "r \<in> set (mj_records j')" by (force simp: j'(1) update_record_def)
    then show ?thesis by (intro bexI [of _ r]) simp_all
  qed
qed

lemma project_records:
  assumes ok: "projectMessageContinuation fits s messageId cs approvals now (Some j) = Inr (Some j')"
  shows "j' = j \<or> (\<exists>q\<in>set (mj_records j). mr_messageId q = messageId \<and> mr_expiresAt q = None
      \<and> take (length (mr_continuations q)) cs = mr_continuations q
      \<and> (\<exists>t parents. mr_turnId q = Some t \<and> grow_parents {t} cs = Some parents
           \<and> (\<forall>a\<in>set approvals. pa_turnId a \<in> parents))
      \<and> j' = update_record messageId (\<lambda>r.
          r\<lparr>mr_continuations := cs, mr_approvals := approvals, mr_observedAt := now\<rparr>) j \<and> journal_ok j')"
proof -
  have read: "readMessageJournal s (Some j) = Inr (Some j)"
    using ok by (auto simp: projectMessageContinuation_def readMessageJournal_def split: if_splits)
  show ?thesis
  proof (cases "List.find (\<lambda>r. mr_messageId r = messageId) (mj_records j)")
    case None
    with ok read show ?thesis by (simp add: projectMessageContinuation_def)
  next
    case (Some q)
    with find_SomeD [OF Some] ok read show ?thesis
      by (auto simp: projectMessageContinuation_def dest!: write_journal_InrD split: option.splits if_splits)
  qed
qed

lemma project_later:
  assumes j: "journal_ok j"
    and ok: "projectMessageContinuation fits s messageId cs approvals now (Some j) = Inr (Some j')"
    and r: "r \<in> set (mj_records j)"
  shows "\<exists>r'\<in>set (mj_records j'). later r r'"
proof (cases "j' = j")
  case True
  with r show ?thesis by (intro bexI [of _ r]) simp_all
next
  case False
  let ?f = "\<lambda>r. r\<lparr>mr_continuations := cs, mr_approvals := approvals, mr_observedAt := now\<rparr>"
  from False project_records [OF ok] obtain q where q: "q \<in> set (mj_records j)" "mr_messageId q = messageId"
    "mr_expiresAt q = None" "take (length (mr_continuations q)) cs = mr_continuations q"
    and j': "j' = update_record messageId ?f j"
    by blast
  show ?thesis
  proof (cases "mr_messageId r = messageId")
    case True
    then have "r = q" using j q(1,2) r by (auto simp: journal_ok_def dest: distinct_map_keyD)
    have "?f q \<in> set (mj_records j')" using q(1,2) by (auto simp: j' update_record_def)
    moreover have "later q (?f q)" using q(3,4) by (auto simp: later_def) (metis take_is_prefix)
    ultimately show ?thesis using \<open>r = q\<close> by blast
  next
    case False
    with r have "r \<in> set (mj_records j')" by (force simp: j' update_record_def)
    then show ?thesis by (intro bexI [of _ r]) simp_all
  qed
qed

text \<open>A prepare drops finished records only.\<close>

lemma find_index_remove:
  "find_index P xs = Some i \<Longrightarrow> x \<in> set xs \<Longrightarrow> \<not> P x \<Longrightarrow> x \<in> set (remove_nth i xs)"
proof (induction xs arbitrary: i)
  case (Cons y ys)
  then show ?case by (auto simp: remove_nth_def split: if_splits)
qed simp

lemma prepare_keeps:
  assumes ok: "prepareMessageOperation hash fits s from messageId fp now (Some j) = Inr (Some j')"
    and r: "r \<in> set (mj_records j)" "mr_expiresAt r = None"
  shows "r \<in> set (mj_records j')"
proof -
  let ?kept = "filter (unexpired now) (mj_records j)"
  have kept: "r \<in> set ?kept" using r by (simp add: unexpired_def)
  have "readMessageJournal s (Some j) = Inr (Some j)"
    using ok by (auto simp: prepareMessageOperation_def readMessageJournal_def split: if_splits)
  with ok have "j' = j \<or> (\<exists>x. j' = j\<lparr>mj_records := ?kept @ [x]\<rparr>)
      \<or> (\<exists>x i. find_index (\<lambda>r. mr_expiresAt r \<noteq> None) ?kept = Some i \<and> j' = j\<lparr>mj_records := remove_nth i ?kept @ [x]\<rparr>)"
    by (auto simp: prepareMessageOperation_def Let_def dest!: write_journal_InrD
        split: option.splits if_splits)
  with kept r show ?thesis
    by (auto dest!: find_index_remove)
qed

lemma prepare_present:
  assumes ok: "prepareMessageOperation hash fits s from messageId fp now stored = Inr st"
  shows "\<exists>j r. st = Some j \<and> r \<in> set (mj_records j) \<and> mr_messageId r = messageId
    \<and> mr_principal r = messagePrincipal hash from \<and> mr_fingerprint r = fp"
proof -
  obtain found where found: "readMessageJournal s stored = Inr found"
    using ok by (auto simp: prepareMessageOperation_def bind_result_Inr_iff)
  let ?j = "nullish found (empty_journal s)"
  let ?fresh = "fresh_record messageId (messagePrincipal hash from) fp now"
  show ?thesis
  proof (cases "List.find (\<lambda>r. mr_messageId r = messageId) (mj_records ?j)")
    case (Some prior)
    then obtain j where "found = Some j"
      by (cases found) (auto simp: empty_journal_def)
    moreover have "st = stored" "mr_principal prior = messagePrincipal hash from" "mr_fingerprint prior = fp"
      using ok found Some by (auto simp: prepareMessageOperation_def Let_def split: if_splits)
    ultimately show ?thesis
      using Some found readMessageJournal_SomeD find_SomeD [OF Some] by fastforce
  next
    case None
    with ok found obtain rs where "st = Some (?j\<lparr>mj_records := rs @ [?fresh]\<rparr>)"
      by (auto simp: prepareMessageOperation_def Let_def dest!: write_journal_InrD split: option.splits if_splits)
    then show ?thesis by (intro exI conjI, assumption) (auto simp: fresh_record_def)
  qed
qed

subsection \<open>A well-formed call is never refused as malformed\<close>

lemma turn_ids_update:
  assumes "distinct (map mr_messageId rs)" "distinct (turn_ids rs)" "r \<in> set rs" "mr_messageId r = i"
    "\<forall>x\<in>set rs. mr_messageId x \<noteq> i \<longrightarrow> mr_turnId (f r) = None \<or> mr_turnId x \<noteq> mr_turnId (f r)"
  shows "distinct (turn_ids (map (\<lambda>x. if mr_messageId x = i then f x else x) rs))"
  using assms
proof (induction rs)
  case (Cons x xs)
  let ?g = "\<lambda>x. if mr_messageId x = i then f x else x"
  have mem: "set (turn_ids ys) = {t. \<exists>y\<in>set ys. mr_turnId y = Some t}" for ys
    by (auto simp: turn_ids_def List.map_filter_def) (metis (mono_tags) image_eqI mem_Collect_eq option.sel)
  show ?case
  proof (cases "mr_messageId x = i")
    case True
    then have "i \<notin> mr_messageId ` set xs" "x = r" using Cons.prems(1,3,4) by (auto simp: image_iff)
    then have "map ?g xs = xs" by (auto intro!: map_idI)
    moreover have "t \<notin> set (turn_ids xs)" if "mr_turnId (f x) = Some t" for t
    proof
      assume "t \<in> set (turn_ids xs)"
      then obtain y where y: "y \<in> set xs" "mr_turnId y = Some t" by (auto simp: mem)
      with \<open>i \<notin> _\<close> have "mr_messageId y \<noteq> i" by auto
      with y that Cons.prems(5) \<open>x = r\<close> show False by auto
    qed
    moreover have "distinct (turn_ids xs)"
      using Cons.prems(2) by (auto simp: turn_ids_def map_filter_simps split: option.splits)
    ultimately show ?thesis
      using True by (cases "mr_turnId (f x)") (simp_all add: turn_ids_def map_filter_simps)
  next
    case False
    then have "r \<in> set xs" using Cons.prems by auto
    moreover have "distinct (turn_ids xs)"
      using Cons.prems(2) by (auto simp: turn_ids_def map_filter_simps split: option.splits)
    ultimately have ih: "distinct (turn_ids (map ?g xs))" using Cons by auto
    show ?thesis
    proof (cases "mr_turnId x")
      case None
      with False ih show ?thesis by (simp add: turn_ids_def map_filter_simps)
    next
      case (Some t)
      have "t \<notin> set (turn_ids (map ?g xs))"
      proof
        assume "t \<in> set (turn_ids (map ?g xs))"
        then obtain y where y: "y \<in> set xs" "mr_turnId (?g y) = Some t" by (auto simp: mem)
        show False
        proof (cases "mr_messageId y = i")
          case True
          then have "y = r" using y(1) \<open>r \<in> set xs\<close> Cons.prems(1,4) by (auto dest: distinct_map_keyD)
          with y True False Some Cons.prems(5) show False by auto
        next
          case False
          with y Some Cons.prems(2) mem [of xs] show False
            by (auto simp: turn_ids_def map_filter_simps)
        qed
      qed
      with False Some ih show ?thesis by (simp add: turn_ids_def map_filter_simps)
    qed
  qed
qed simp

lemma distinct_turns:
  "distinct (turn_ids rs) \<Longrightarrow> x \<in> set rs \<Longrightarrow> y \<in> set rs \<Longrightarrow> mr_turnId x = Some t \<Longrightarrow> mr_turnId y = Some t \<Longrightarrow> x = y"
proof (induction rs)
  case (Cons a rs)
  have mem: "t \<in> set (turn_ids rs)" if "z \<in> set rs" "mr_turnId z = Some t" for z
    using that by (force simp: turn_ids_def List.map_filter_def)
  from Cons show ?case
    by (auto simp: turn_ids_def [of "a # rs"] map_filter_simps turn_ids_def [symmetric] dest: mem
        split: option.splits)
qed simp

lemma journal_ok_update:
  assumes j: "journal_ok j" and r: "r \<in> set (mj_records j)" "mr_messageId r = i"
    and f: "mr_messageId (f r) = i" "record_ok (f r)"
      "\<forall>x\<in>set (mj_records j). mr_messageId x \<noteq> i \<longrightarrow> mr_turnId (f r) = None \<or> mr_turnId x \<noteq> mr_turnId (f r)"
  shows "journal_ok (update_record i f j)"
proof -
  have only: "x = r" if "x \<in> set (mj_records j)" "mr_messageId x = i" for x
    using that j r by (auto simp: journal_ok_def dest: distinct_map_keyD)
  let ?g = "\<lambda>x. if mr_messageId x = i then f x else x"
  have "map (mr_messageId \<circ> ?g) (mj_records j) = map mr_messageId (mj_records j)"
    using only f(1) by (auto simp: map_eq_conv)
  then have "distinct (map (mr_messageId \<circ> ?g) (mj_records j))"
    using j by (simp only: journal_ok_def)
  moreover have "distinct (turn_ids (map ?g (mj_records j)))"
    using j r f(3) by (intro turn_ids_update) (auto simp: journal_ok_def)
  ultimately show ?thesis
    using j only f(2) by (auto simp: journal_ok_def update_record_def)
qed

text \<open>
  The calls the delivery code makes: a bound phase comes with its turn, an unbound one without.  None
  of them is refused as malformed; what remains is the byte limit and a conflicting turn.
\<close>

definition well_called :: "op_phase \<Rightarrow> string option \<Rightarrow> bool" where
  "well_called ph turnId = ((ph = Queued \<or> ph = Uncertain) \<and> turnId = None
     \<or> (ph = Admitted \<or> terminal_phase ph) \<and> turnId \<noteq> None)"

lemma advance_not_malformed:
  assumes j: "journal_ok j" and c: "well_called ph turnId"
  shows "advanceMessageOperation fits s messageId ph turnId now (Some j) \<noteq> Inl JournalInvalid"
proof (cases "readMessageJournal s (Some j)")
  case (Inl e)
  with j show ?thesis
    by (auto simp: advanceMessageOperation_def readMessageJournal_def split: if_splits)
next
  case (Inr found)
  then have found: "found = Some j" by (auto simp: readMessageJournal_def split: if_splits)
  show ?thesis
  proof (cases "List.find (\<lambda>r. mr_messageId r = messageId) (mj_records j)")
    case None
    with Inr found show ?thesis by (simp add: advanceMessageOperation_def)
  next
    case (Some r)
    with find_SomeD [OF Some] have r: "r \<in> set (mj_records j)" "mr_messageId r = messageId" by simp_all
    have "record_ok r" using j r(1) by (rule journal_record_ok)
    then have ok: "record_ok (advanced ph turnId now r)"
      if "mr_turnId r = None \<or> turnId = None \<or> mr_turnId r = turnId" "mr_expiresAt r = None"
        "ph = Queued \<longrightarrow> mr_phase r = Preparing" "ph = Uncertain \<longrightarrow> mr_turnId r = None"
      using that c
      by (cases ph; cases turnId) (auto simp: record_ok_def advanced_def well_called_def terminal_phase_def)
    have "journal_ok (update_record messageId (advanced ph turnId now) j)"
      if "mr_turnId r = None \<or> turnId = None \<or> mr_turnId r = turnId" "mr_expiresAt r = None"
        "ph = Queued \<longrightarrow> mr_phase r = Preparing" "ph = Uncertain \<longrightarrow> mr_turnId r = None"
        "turnId = None \<or> (\<forall>i\<in>set (mj_records j). mr_messageId i = messageId \<or> mr_turnId i \<noteq> turnId)"
    proof (rule journal_ok_update [OF j r])
      show "mr_messageId (advanced ph turnId now r) = messageId" by (simp add: advanced_def r(2))
      show "record_ok (advanced ph turnId now r)" using that by (intro ok) auto
      show "\<forall>x\<in>set (mj_records j). mr_messageId x \<noteq> messageId \<longrightarrow>
          mr_turnId (advanced ph turnId now r) = None \<or> mr_turnId x \<noteq> mr_turnId (advanced ph turnId now r)"
      proof (intro ballI impI)
        fix x
        assume x: "x \<in> set (mj_records j)" "mr_messageId x \<noteq> messageId"
        have "mr_turnId x \<noteq> mr_turnId r \<or> mr_turnId r = None"
        proof (rule ccontr)
          assume "\<not> ?thesis"
          then obtain t where t: "mr_turnId x = Some t" "mr_turnId r = Some t" by auto
          have "x = r"
            using distinct_turns [OF _ x(1) r(1) t] j by (simp add: journal_ok_def)
          with x(2) r(2) show False by simp
        qed
        with that(1,5) x show "mr_turnId (advanced ph turnId now r) = None
            \<or> mr_turnId x \<noteq> mr_turnId (advanced ph turnId now r)"
          by (cases turnId) (auto simp: advanced_def)
      qed
    qed
    note upd = this
    show ?thesis
    proof
      assume "advanceMessageOperation fits s messageId ph turnId now (Some j) = Inl JournalInvalid"
      then have "\<not> journal_ok (update_record messageId (advanced ph turnId now) j)"
        "\<not> (mr_turnId r \<noteq> None \<and> turnId \<noteq> None \<and> mr_turnId r \<noteq> turnId)"
        "\<not> (turnId \<noteq> None \<and> (\<exists>i\<in>set (mj_records j). mr_messageId i \<noteq> messageId \<and> mr_turnId i = turnId))"
        "mr_expiresAt r = None" "\<not> (ph = Queued \<and> mr_phase r \<noteq> Preparing)"
        "\<not> (ph = Uncertain \<and> mr_turnId r \<noteq> None)"
        using Inr found Some
        by (simp_all only: advanceMessageOperation_def write_journal_def bind_result_simps option.simps
            split: if_splits) simp_all
      with upd show False by blast
    qed
  qed
qed

subsection \<open>Every sequence of projections\<close>

text \<open>
  The two operations by which a receipt follows its native turn; one that fails leaves the journal.  The
  type of the phase an advance may name leaves \<open>Preparing\<close> out.
\<close>

datatype journal_op =
  AdvanceOp string op_phase "string option" int
| ProjectOp string "continuation list" "pending_approval list" int

definition stored_or :: "op_journal \<Rightarrow> op_error + op_journal option \<Rightarrow> op_journal" where
  "stored_or j r = (case r of Inr (Some j') \<Rightarrow> j' | _ \<Rightarrow> j)"

fun journal_step :: "(op_journal \<Rightarrow> bool) \<Rightarrow> op_session \<Rightarrow> journal_op \<Rightarrow> op_journal \<Rightarrow> op_journal" where
  "journal_step fits s (AdvanceOp i ph turnId now) j =
     (if ph = Preparing then j else stored_or j (advanceMessageOperation fits s i ph turnId now (Some j)))"
| "journal_step fits s (ProjectOp i cs approvals now) j =
     stored_or j (projectMessageContinuation fits s i cs approvals now (Some j))"

definition journal_le :: "op_journal \<Rightarrow> op_journal \<Rightarrow> bool" where
  "journal_le j j' = (journal_ok j \<longrightarrow> journal_ok j' \<and> (\<forall>r\<in>set (mj_records j). \<exists>r'\<in>set (mj_records j'). later r r'))"

lemma later_trans: "later a b \<Longrightarrow> later b c \<Longrightarrow> later a c"
  unfolding later_def by (auto intro: order_trans prefix_order.trans)

lemma stored_or_le:
  assumes "\<And>j'. journal_ok j \<Longrightarrow> r = Inr (Some j') \<Longrightarrow> journal_ok j' \<and> (\<forall>x\<in>set (mj_records j). \<exists>y\<in>set (mj_records j'). later x y)"
  shows "journal_le j (stored_or j r)"
proof (cases "\<exists>j'. r = Inr (Some j')")
  case True
  with assms show ?thesis by (auto simp: journal_le_def stored_or_def)
next
  case False
  then have "stored_or j r = j" by (auto simp: stored_or_def split: sum.split option.split)
  then show ?thesis by (auto simp: journal_le_def intro: later_refl)
qed

lemma journal_step_le: "journal_le j (journal_step fits s e j)"
proof (cases e)
  case (AdvanceOp i ph turnId now)
  show ?thesis
  proof (cases "ph = Preparing")
    case True
    then show ?thesis unfolding AdvanceOp by (auto simp: journal_le_def intro: later_refl)
  next
    case False
    have "journal_le j (stored_or j (advanceMessageOperation fits s i ph turnId now (Some j)))"
      using advance_later [OF _ False] by (intro stored_or_le) (auto dest: advance_records)
    with False show ?thesis unfolding AdvanceOp by simp
  qed
next
  case (ProjectOp i cs approvals now)
  have "journal_le j (stored_or j (projectMessageContinuation fits s i cs approvals now (Some j)))"
    using project_later by (intro stored_or_le) (auto dest: project_records)
  then show ?thesis unfolding ProjectOp by simp
qed

interpretation journal_machine: monotone_machine "journal_step fits s" journal_le
proof
  show "journal_le j j" for j by (auto simp: journal_le_def intro: later_refl)
  show "journal_le a b \<Longrightarrow> journal_le b c \<Longrightarrow> journal_le a c" for a b c
    unfolding journal_le_def using later_trans by blast
  show "journal_le j (journal_step fits s e j)" for e j by (rule journal_step_le)
qed

end
