(* ===== verification/Mailbox.thy ===== *)
theory Mailbox
  imports Prelude
begin

text \<open>
  The durable request mailboxes between a caller and the process that owns a runtime
  (\<open>src/runtime/mailbox.ts\<close>) and their four instances: interrupt (\<open>interrupt.ts\<close>), permission mode
  (\<open>sessionMode.ts\<close>), MCP control (\<open>mcpControl.ts\<close>) and rewind (\<open>rewind.ts\<close>).

  A request writes at most one receipt and then reads the file again and again.  What it reads is up
  to the other processes, so the polls it makes before its deadline are an input: each one is an
  abort, or the receipt and the snapshot that were published at that moment.
\<close>

datatype app_error = AppError string string nat

datatype native_state = NsWorking | NsIdle | NsWaitingApproval | NsWaitingInput | NsUnknown
datatype turn_status = TsInProgress | TsCompleted | TsInterrupted | TsFailed

record native_turn =
  nt_id :: string
  nt_status :: turn_status

record rt_snapshot =
  sn_generation :: string
  sn_state :: native_state
  sn_turn :: "native_turn option"
  sn_permissionMode :: "string option"
  sn_mcpServers :: "(string \<times> string) list option"
  sn_fileCheckpoints :: "bool option"

datatype 'x settle_result = Refused app_error | Pending | Settled 'x

record ('r, 'x) mailbox_def =
  md_identity :: "'r \<Rightarrow> string"
  md_generation :: "'r \<Rightarrow> string"
  md_precondition :: "rt_snapshot \<Rightarrow> app_error option"
  md_settle :: "'r \<Rightarrow> rt_snapshot option \<Rightarrow> 'x settle_result"
  md_mismatch :: app_error

datatype 'r poll = PollAborted | Poll "'r option" "rt_snapshot option"

definition unavailable_runtime :: app_error where
  "unavailable_runtime = AppError ''UNAVAILABLE'' ''The native runtime is unavailable'' 503"
definition no_answer :: app_error where
  "no_answer = AppError ''UNAVAILABLE'' ''The runtime did not answer the request'' 503"
definition aborted :: app_error where
  "aborted = AppError ''ABORTED'' ''The caller aborted'' 0"

definition is_mine :: "('r, 'x) mailbox_def \<Rightarrow> string \<Rightarrow> string \<Rightarrow> 'r \<Rightarrow> bool" where
  "is_mine md operation generation r = (md_identity md r = operation \<and> md_generation md r = generation)"

fun poll_loop :: "('r, 'x) mailbox_def \<Rightarrow> string \<Rightarrow> string \<Rightarrow> 'r poll list \<Rightarrow> app_error + 'x" where
  "poll_loop md operation generation [] = Inl no_answer"
| "poll_loop md operation generation (PollAborted # rest) = Inl aborted"
| "poll_loop md operation generation (Poll current snapshot # rest) =
     (case current of
        None \<Rightarrow> Inl (md_mismatch md)
      | Some r \<Rightarrow>
          (if \<not> is_mine md operation generation r then Inl (md_mismatch md)
           else case md_settle md r snapshot of
               Refused e \<Rightarrow> Inl e
             | Settled x \<Rightarrow> Inr x
             | Pending \<Rightarrow> poll_loop md operation generation rest))"

text \<open>The result of a request and the receipt it wrote, if any.\<close>

definition request ::
  "('r, 'x) mailbox_def \<Rightarrow> string \<Rightarrow> (string \<Rightarrow> rt_snapshot \<Rightarrow> app_error + 'r) \<Rightarrow> rt_snapshot option
     \<Rightarrow> 'r option \<Rightarrow> rt_snapshot option \<Rightarrow> 'r poll list \<Rightarrow> (app_error + 'x) \<times> 'r option" where
  "request md operation compose live prior republished polls =
     (case live of
        None \<Rightarrow> (Inl unavailable_runtime, None)
      | Some snapshot \<Rightarrow>
          (case md_precondition md snapshot of
             Some e \<Rightarrow> (Inl e, None)
           | None \<Rightarrow>
               (let generation = sn_generation snapshot;
                    wait = poll_loop md operation generation polls;
                    ask = (case compose generation snapshot of
                        Inl e \<Rightarrow> (Inl e, None) | Inr r \<Rightarrow> (wait, Some r))
                in case prior of
                    None \<Rightarrow> ask
                  | Some p \<Rightarrow>
                      (if \<not> is_mine md operation generation p then ask
                       else case md_settle md p republished of
                           Refused e \<Rightarrow> (Inl e, None)
                         | Settled x \<Rightarrow> (Inr x, None)
                         | Pending \<Rightarrow> (wait, None)))))"

subsection \<open>What every mailbox guarantees\<close>

lemma poll_loop_Inr:
  "poll_loop md operation g polls = Inr x \<Longrightarrow>
     \<exists>r snapshot. Poll (Some r) snapshot \<in> set polls \<and> is_mine md operation g r \<and> md_settle md r snapshot = Settled x"
  by (induction md operation g polls rule: poll_loop.induct)
    (auto split: option.splits if_splits settle_result.splits)

lemma request_Inr:
  assumes "request md operation compose live prior republished polls = (Inr x, written)"
  shows "\<exists>snapshot r seen. live = Some snapshot \<and> is_mine md operation (sn_generation snapshot) r
    \<and> md_settle md r seen = Settled x
    \<and> (prior = Some r \<and> seen = republished \<or> Poll (Some r) seen \<in> set polls)"
  using assms
  by (auto simp: request_def Let_def dest!: poll_loop_Inr
      split: option.splits sum.splits if_splits settle_result.splits)

lemma request_retry:
  assumes "live = Some snapshot" "md_precondition md snapshot = None"
    "is_mine md operation (sn_generation snapshot) p"
  shows "request md operation compose live (Some p) republished polls =
    (case md_settle md p republished of
       Refused e \<Rightarrow> Inl e | Settled x \<Rightarrow> Inr x
     | Pending \<Rightarrow> poll_loop md operation (sn_generation snapshot) polls, None)"
  using assms by (simp add: request_def Let_def split: settle_result.splits)

lemma request_written:
  assumes "request md operation compose live prior republished polls = (result, Some r)"
  shows "\<exists>snapshot. live = Some snapshot \<and> compose (sn_generation snapshot) snapshot = Inr r
    \<and> (\<forall>p. prior = Some p \<longrightarrow> \<not> is_mine md operation (sn_generation snapshot) p)"
  using assms
  by (auto simp: request_def Let_def split: option.splits sum.splits if_splits settle_result.splits)

definition still_waiting :: "('r, 'x) mailbox_def \<Rightarrow> string \<Rightarrow> string \<Rightarrow> 'r poll \<Rightarrow> bool" where
  "still_waiting md operation g p = (case p of
      Poll (Some r) snapshot \<Rightarrow> is_mine md operation g r \<and> md_settle md r snapshot = Pending | _ \<Rightarrow> False)"

lemma poll_loop_waits:
  "\<forall>p\<in>set before. still_waiting md operation g p \<Longrightarrow>
     poll_loop md operation g (before @ rest) = poll_loop md operation g rest"
proof (induction before)
  case (Cons p ps)
  then show ?case
    by (cases p) (auto simp: still_waiting_def split: option.splits)
qed simp

text \<open>
  The contract of a mailbox: the receipt a caller queues is its own and is not an answer yet.
\<close>

locale mailbox_contract =
  fixes md :: "('r, 'x) mailbox_def"
    and queued :: "string \<Rightarrow> string \<Rightarrow> 'r"
  assumes queued_mine: "is_mine md operation g (queued operation g)"
    and queued_waits: "md_settle md (queued operation g) snapshot = Pending"
begin

lemma unanswered:
  assumes "\<forall>p\<in>set polls. \<exists>snapshot. p = Poll (Some (queued operation g)) snapshot"
  shows "poll_loop md operation g polls = Inl no_answer"
  using poll_loop_waits [of polls md operation g "[]"] assms
  by (fastforce simp: still_waiting_def queued_mine queued_waits)

lemma answered:
  assumes "\<forall>p\<in>set before. \<exists>snapshot. p = Poll (Some (queued operation g)) snapshot"
    "is_mine md operation g r" "md_settle md r snapshot = Settled x"
  shows "poll_loop md operation g (before @ Poll (Some r) snapshot # rest) = Inr x"
proof -
  have "\<forall>p\<in>set before. still_waiting md operation g p"
    using assms(1) by (fastforce simp: still_waiting_def queued_mine queued_waits)
  with assms(2,3) show ?thesis by (simp add: poll_loop_waits)
qed

lemma replaced:
  assumes "\<forall>p\<in>set before. \<exists>snapshot. p = Poll (Some (queued operation g)) snapshot"
    "\<not> is_mine md operation g r"
  shows "poll_loop md operation g (before @ Poll (Some r) snapshot # rest) = Inl (md_mismatch md)"
proof -
  have "\<forall>p\<in>set before. still_waiting md operation g p"
    using assms(1) by (fastforce simp: still_waiting_def queued_mine queued_waits)
  with assms(2) show ?thesis by (simp add: poll_loop_waits)
qed

end

subsection \<open>Interrupt\<close>

datatype interrupt_phase = IpQueued | IpUncertain | IpAccepted | IpRejected

record interrupt =
  in_turnId :: string
  in_generation :: string
  in_phase :: interrupt_phase

definition isCancellableTurn :: "rt_snapshot \<Rightarrow> string \<Rightarrow> string \<Rightarrow> bool" where
  "isCancellableTurn s generation turnId =
     (sn_generation s = generation
      \<and> (case sn_turn s of None \<Rightarrow> False | Some t \<Rightarrow> nt_id t = turnId \<and> nt_status t = TsInProgress)
      \<and> sn_state s \<in> {NsWorking, NsWaitingApproval, NsWaitingInput})"

definition interrupt_mailbox :: "(interrupt, unit) mailbox_def" where
  "interrupt_mailbox = \<lparr>md_identity = in_turnId, md_generation = in_generation,
     md_precondition = (\<lambda>_. None),
     md_settle = (\<lambda>r _. case in_phase r of
         IpRejected \<Rightarrow> Refused (AppError ''TURN_MISMATCH'' ''Native turn changed'' 409)
       | IpAccepted \<Rightarrow> Settled () | _ \<Rightarrow> Pending),
     md_mismatch = AppError ''TURN_MISMATCH'' ''Interrupt identity changed'' 409\<rparr>"

definition requestRuntimeInterrupt ::
  "string \<Rightarrow> string \<Rightarrow> rt_snapshot option \<Rightarrow> interrupt option \<Rightarrow> interrupt poll list
     \<Rightarrow> (app_error + unit) \<times> interrupt option" where
  "requestRuntimeInterrupt generation turnId live prior polls =
     (if (case (live, prior) of
            (Some s, Some p) \<Rightarrow> sn_generation s = generation \<and> in_generation p = generation
               \<and> in_turnId p = turnId \<and> in_phase p = IpAccepted
          | _ \<Rightarrow> False)
      then (Inr (), None)
      else if (case live of None \<Rightarrow> True | Some s \<Rightarrow> \<not> isCancellableTurn s generation turnId)
      then (Inl (AppError ''TURN_MISMATCH'' ''The exact active turn is unavailable'' 409), None)
      else request interrupt_mailbox turnId
             (\<lambda>_ _. Inr \<lparr>in_turnId = turnId, in_generation = generation, in_phase = IpQueued\<rparr>)
             live prior live polls)"

interpretation interrupt_box: mailbox_contract interrupt_mailbox
  "\<lambda>turnId generation. \<lparr>in_turnId = turnId, in_generation = generation, in_phase = IpQueued\<rparr>"
  by unfold_locales (simp_all add: is_mine_def interrupt_mailbox_def)

text \<open>A turn is reported stopped only on an accepted receipt for exactly that turn.\<close>

lemma interrupt_accepted:
  assumes "requestRuntimeInterrupt generation turnId live prior polls = (Inr (), written)"
  shows "\<exists>r s. live = Some s \<and> sn_generation s = generation \<and> in_turnId r = turnId \<and> in_generation r = generation
    \<and> in_phase r = IpAccepted \<and> (prior = Some r \<or> (\<exists>sn. Poll (Some r) sn \<in> set polls))"
proof (cases "\<exists>s p. live = Some s \<and> prior = Some p \<and> sn_generation s = generation
    \<and> in_generation p = generation \<and> in_turnId p = turnId \<and> in_phase p = IpAccepted")
  case True
  then show ?thesis by blast
next
  case False
  with assms have req: "request interrupt_mailbox turnId
      (\<lambda>_ _. Inr \<lparr>in_turnId = turnId, in_generation = generation, in_phase = IpQueued\<rparr>)
      live prior live polls = (Inr (), written)"
    and live: "\<exists>s. live = Some s \<and> isCancellableTurn s generation turnId"
    by (auto simp: requestRuntimeInterrupt_def split: if_splits option.splits)
  from request_Inr [OF req] live show ?thesis
    by (fastforce simp: is_mine_def interrupt_mailbox_def isCancellableTurn_def
        split: interrupt_phase.splits)
qed

subsection \<open>Permission mode\<close>

datatype request_phase = RpQueued | RpComplete | RpFailed

record mode_request =
  mo_operationId :: string
  mo_generation :: string
  mo_mode :: string
  mo_phase :: request_phase
  mo_reason :: "string option"

definition mode_mailbox :: "(mode_request, string) mailbox_def" where
  "mode_mailbox = \<lparr>md_identity = mo_operationId, md_generation = mo_generation,
     md_precondition = (\<lambda>_. None),
     md_settle = (\<lambda>r snapshot. case mo_phase r of
         RpFailed \<Rightarrow> Refused (AppError ''UNSUPPORTED'' (nullish (mo_reason r) ''The runtime refused this mode'') 409)
       | RpQueued \<Rightarrow> Pending
       | RpComplete \<Rightarrow> (if Option.bind snapshot sn_permissionMode = Some (mo_mode r) then Settled (mo_mode r) else Pending)),
     md_mismatch = AppError ''IDENTITY_MISMATCH'' ''The conversation changed while setting its mode'' 409\<rparr>"

definition queued_mode :: "string \<Rightarrow> string \<Rightarrow> string \<Rightarrow> mode_request" where
  "queued_mode mode operation generation = \<lparr>mo_operationId = operation, mo_generation = generation,
     mo_mode = mode, mo_phase = RpQueued, mo_reason = None\<rparr>"

definition requestRuntimeMode ::
  "string \<Rightarrow> string \<Rightarrow> rt_snapshot option \<Rightarrow> mode_request option \<Rightarrow> rt_snapshot option \<Rightarrow> mode_request poll list
     \<Rightarrow> (app_error + string) \<times> mode_request option" where
  "requestRuntimeMode operationId mode live prior republished polls =
     (if Option.bind live sn_permissionMode = Some mode then (Inr mode, None)
      else request mode_mailbox operationId (\<lambda>generation _. Inr (queued_mode mode operationId generation))
             live prior republished polls)"

interpretation mode_box: mailbox_contract mode_mailbox "queued_mode mode"
  by unfold_locales (simp_all add: is_mine_def mode_mailbox_def queued_mode_def)

definition shouldRestoreMode :: "mode_request option \<Rightarrow> string option \<Rightarrow> bool" where
  "shouldRestoreMode req generation =
     (case (req, generation) of
        (Some r, Some g) \<Rightarrow> mo_phase r = RpComplete \<and> mo_generation r = g \<and> mo_mode r \<noteq> ''default''
      | _ \<Rightarrow> False)"

text \<open>A mode is reported in force only when the session itself published it.\<close>

lemma mode_published:
  assumes "requestRuntimeMode operationId mode live prior republished polls = (Inr x, written)"
  shows "x = mode \<and> Option.bind live sn_permissionMode = Some mode
    \<or> (\<exists>r seen. mo_operationId r = operationId \<and> mo_phase r = RpComplete \<and> x = mo_mode r
         \<and> Option.bind seen sn_permissionMode = Some x
         \<and> (prior = Some r \<and> seen = republished \<or> Poll (Some r) seen \<in> set polls))"
proof (cases "Option.bind live sn_permissionMode = Some mode")
  case True
  with assms show ?thesis by (simp add: requestRuntimeMode_def)
next
  case False
  with assms have "request mode_mailbox operationId (\<lambda>generation _. Inr (queued_mode mode operationId generation))
      live prior republished polls = (Inr x, written)"
    by (simp add: requestRuntimeMode_def)
  from request_Inr [OF this] show ?thesis
    by (fastforce simp: is_mine_def mode_mailbox_def split: request_phase.splits if_splits)
qed

subsection \<open>MCP control\<close>

datatype mcp_action = McpEnable | McpDisable | McpReconnect

record mcp_request =
  mc_operationId :: string
  mc_generation :: string
  mc_server :: string
  mc_action :: mcp_action
  mc_phase :: request_phase
  mc_reason :: "string option"

definition server_status :: "rt_snapshot option \<Rightarrow> string \<Rightarrow> string" where
  "server_status snapshot server =
     nullish (Option.bind (Option.bind snapshot sn_mcpServers) (\<lambda>servers. map_of servers server)) ''unknown''"

definition mcp_mailbox :: "(mcp_request, string \<times> string) mailbox_def" where
  "mcp_mailbox = \<lparr>md_identity = mc_operationId, md_generation = mc_generation,
     md_precondition = (\<lambda>s. if sn_mcpServers s = None
       then Some (AppError ''UNSUPPORTED'' ''This runtime does not report its MCP servers'' 409) else None),
     md_settle = (\<lambda>r snapshot. case mc_phase r of
         RpFailed \<Rightarrow> Refused (AppError ''UNAVAILABLE'' (nullish (mc_reason r) ''The runtime refused'') 503)
       | RpQueued \<Rightarrow> Pending
       | RpComplete \<Rightarrow> Settled (mc_server r, server_status snapshot (mc_server r))),
     md_mismatch = AppError ''IDENTITY_MISMATCH'' ''The MCP request was replaced'' 409\<rparr>"

definition queued_mcp :: "string \<Rightarrow> mcp_action \<Rightarrow> string \<Rightarrow> string \<Rightarrow> mcp_request" where
  "queued_mcp server action operation generation = \<lparr>mc_operationId = operation, mc_generation = generation,
     mc_server = server, mc_action = action, mc_phase = RpQueued, mc_reason = None\<rparr>"

definition requestRuntimeMcp ::
  "string \<Rightarrow> string \<Rightarrow> mcp_action \<Rightarrow> rt_snapshot option \<Rightarrow> mcp_request option \<Rightarrow> rt_snapshot option
     \<Rightarrow> mcp_request poll list \<Rightarrow> (app_error + (string \<times> string)) \<times> mcp_request option" where
  "requestRuntimeMcp operationId server action live prior republished polls =
     request mcp_mailbox operationId (\<lambda>generation snapshot.
       if (case sn_mcpServers snapshot of None \<Rightarrow> True | Some servers \<Rightarrow> server \<notin> fst ` set servers)
       then Inl (AppError ''UNSUPPORTED'' ''This session has no such MCP server'' 409)
       else Inr (queued_mcp server action operationId generation)) live prior republished polls"

interpretation mcp_box: mailbox_contract mcp_mailbox "queued_mcp server action"
  by unfold_locales (simp_all add: is_mine_def mcp_mailbox_def queued_mcp_def)

lemma mcp_written:
  assumes "requestRuntimeMcp operationId server action live prior republished polls = (result, Some r)"
  shows "\<exists>snapshot servers. live = Some snapshot \<and> sn_mcpServers snapshot = Some servers \<and> server \<in> fst ` set servers
    \<and> r = queued_mcp server action operationId (sn_generation snapshot)"
  using request_written [OF assms [unfolded requestRuntimeMcp_def]]
  by (auto split: if_splits option.splits)

subsection \<open>Rewind\<close>

record rewind_result =
  rr_canRewind :: bool
  rr_error :: "string option"
  rr_filesChanged :: "string list"
  rr_insertions :: "nat option"
  rr_deletions :: "nat option"
  rr_skippedLinks :: "nat option"

record rewind_request =
  rw_operationId :: string
  rw_generation :: string
  rw_messageId :: string
  rw_dryRun :: bool
  rw_phase :: request_phase
  rw_result :: "rewind_result option"
  rw_reason :: "string option"

definition rewind_mailbox :: "(rewind_request, rewind_result) mailbox_def" where
  "rewind_mailbox = \<lparr>md_identity = rw_operationId, md_generation = rw_generation,
     md_precondition = (\<lambda>s. if sn_fileCheckpoints s \<noteq> Some True
       then Some (AppError ''UNSUPPORTED'' ''This session does not keep file checkpoints'' 409) else None),
     md_settle = (\<lambda>r _. case rw_phase r of
         RpFailed \<Rightarrow> Refused (AppError ''UNAVAILABLE'' (nullish (rw_reason r) ''The rewind failed'') 503)
       | RpQueued \<Rightarrow> Pending
       | RpComplete \<Rightarrow> (case rw_result r of None \<Rightarrow> Pending | Some x \<Rightarrow> Settled x)),
     md_mismatch = AppError ''IDENTITY_MISMATCH'' ''The rewind request was replaced'' 409\<rparr>"

definition queued_rewind :: "string \<Rightarrow> bool \<Rightarrow> string \<Rightarrow> string \<Rightarrow> rewind_request" where
  "queued_rewind messageId dryRun operation generation = \<lparr>rw_operationId = operation,
     rw_generation = generation, rw_messageId = messageId, rw_dryRun = dryRun, rw_phase = RpQueued,
     rw_result = None, rw_reason = None\<rparr>"

definition requestRuntimeRewind ::
  "string \<Rightarrow> string \<Rightarrow> bool \<Rightarrow> rt_snapshot option \<Rightarrow> rewind_request option \<Rightarrow> rt_snapshot option
     \<Rightarrow> rewind_request poll list \<Rightarrow> (app_error + rewind_result) \<times> rewind_request option" where
  "requestRuntimeRewind operationId messageId dryRun live prior republished polls =
     request rewind_mailbox operationId (\<lambda>generation _. Inr (queued_rewind messageId dryRun operationId generation))
       live prior republished polls"

interpretation rewind_box: mailbox_contract rewind_mailbox "queued_rewind messageId dryRun"
  by unfold_locales (simp_all add: is_mine_def rewind_mailbox_def queued_rewind_def)

text \<open>A retried rewind is not performed a second time.\<close>

lemma rewind_retry:
  assumes "live = Some snapshot" "sn_fileCheckpoints snapshot = Some True" "rw_operationId p = operationId"
    "rw_generation p = sn_generation snapshot"
  shows "snd (requestRuntimeRewind operationId messageId dryRun live (Some p) republished polls) = None"
    and "rw_phase p = RpComplete \<Longrightarrow> rw_result p = Some x \<Longrightarrow>
      fst (requestRuntimeRewind operationId messageId dryRun live (Some p) republished polls) = Inr x"
proof -
  have "md_precondition rewind_mailbox snapshot = None" using assms(2) by (simp add: rewind_mailbox_def)
  moreover have "is_mine rewind_mailbox operationId (sn_generation snapshot) p"
    using assms(3,4) by (simp add: is_mine_def rewind_mailbox_def)
  ultimately show "snd (requestRuntimeRewind operationId messageId dryRun live (Some p) republished polls) = None"
    "rw_phase p = RpComplete \<Longrightarrow> rw_result p = Some x \<Longrightarrow>
      fst (requestRuntimeRewind operationId messageId dryRun live (Some p) republished polls) = Inr x"
    unfolding requestRuntimeRewind_def
    by (simp_all add: request_retry [OF assms(1)]) (simp add: rewind_mailbox_def)
qed

end
