(* ===== verification/RuntimeInput.thy ===== *)
theory RuntimeInput
  imports MessageOps Mailbox
begin

text \<open>
  The single input slot of a native session (\<open>src/runtime/input.ts\<close>): the record the daemon queues a
  turn in, the native id it is submitted under and the turn an accepted input started.  SHA-256 is a
  parameter: \<open>digest\<close> gives the bytes of a text's hash.
\<close>

datatype input_phase = PhQueued | PhDispatching | PhAccepted | PhUncertain
datatype input_kind = KindLetter | KindCommand

record runtime_input =
  ri_messageId :: string
  ri_nativeId :: string
  ri_text :: string
  ri_phase :: input_phase
  ri_turnId :: "string option"
  ri_dispatchedAt :: "string option"
  ri_kind :: input_kind
  ri_images :: "string option"
  ri_turnOptions :: "string option"
  ri_continuations :: "continuation list"
  ri_terminal :: "turn_status option"

definition inputTurnId :: "runtime_input \<Rightarrow> string" where
  "inputTurnId i = nullish (ri_turnId i) (ri_nativeId i)"

text \<open>The file is absent, holds a readable record, or cannot be trusted.\<close>

datatype input_file = InputAbsent | InputStored runtime_input | InputBroken

definition readRuntimeInput :: "input_file \<Rightarrow> string + runtime_input option" where
  "readRuntimeInput f = (case f of
      InputStored i \<Rightarrow> Inr (Some i)
    | InputAbsent \<Rightarrow> Inr None
    | InputBroken \<Rightarrow> Inl ''Native dispatch journal is invalid'')"

subsection \<open>Native ids\<close>

definition hex_digit :: "nat \<Rightarrow> char" where
  "hex_digit d = (if d < 10 then char_of (48 + d) else char_of (87 + d))"

fun hex_of_nat :: "nat \<Rightarrow> string" where
  "hex_of_nat n = (if n < 16 then [hex_digit n] else hex_of_nat (n div 16) @ [hex_digit (n mod 16)])"

declare hex_of_nat.simps [simp del]

definition padStart :: "nat \<Rightarrow> char \<Rightarrow> string \<Rightarrow> string" where
  "padStart w c s = replicate (w - length s) c @ s"

definition slice_last :: "nat \<Rightarrow> string \<Rightarrow> string" where
  "slice_last w s = drop (length s - w) s"

definition alphabet :: string where
  "alphabet = ''0123456789ABCDEFGHIJKLMNOPQRSTUVWXYZabcdefghijklmnopqrstuvwxyz''"

definition openCodeMessageId :: "(string \<Rightarrow> nat list) \<Rightarrow> string \<Rightarrow> nat \<Rightarrow> string" where
  "openCodeMessageId digest messageId timestamp =
     (let time = slice_last 12 (padStart 12 (CHR ''0'') (hex_of_nat (timestamp * 4096)));
          suffix = map (\<lambda>b. alphabet ! (b mod length alphabet)) (take 14 (digest messageId))
      in ''msg_'' @ time @ suffix)"

definition runtimeInputId :: "(string \<Rightarrow> nat list) \<Rightarrow> agent_kind \<Rightarrow> string \<Rightarrow> nat \<Rightarrow> string" where
  "runtimeInputId digest agent messageId timestamp =
     (if agent = Custom \<or> agent = Codex then messageId else openCodeMessageId digest messageId timestamp)"

subsection \<open>The order of native ids\<close>

text \<open>The time part is the last twelve hexadecimal digits of the scaled instant.\<close>

fun digits :: "nat \<Rightarrow> nat \<Rightarrow> string" where
  "digits 0 n = []"
| "digits (Suc k) n = digits k (n div 16) @ [hex_digit (n mod 16)]"

lemma length_digits [simp]: "length (digits k n) = k"
  by (induction k arbitrary: n) simp_all

lemma hex_ne: "hex_of_nat n \<noteq> []"
  by (subst hex_of_nat.simps) simp

lemma digits_zero: "digits k 0 = replicate k (CHR ''0'')"
proof (induction k)
  case (Suc k)
  have "hex_digit 0 = CHR ''0''" by code_simp
  with Suc show ?case by (simp add: replicate_append_same)
qed simp

lemma slice_digits: "slice_last k (replicate (k - length (hex_of_nat n)) (CHR ''0'') @ hex_of_nat n) = digits k n"
proof (induction k arbitrary: n)
  case 0
  then show ?case by (simp add: slice_last_def)
next
  case (Suc k)
  show ?case
  proof (cases "n < 16")
    case True
    then have h: "hex_of_nat n = [hex_digit n]" by (simp add: hex_of_nat.simps)
    have "digits k (n div 16) = replicate k (CHR ''0'')" using True by (simp add: digits_zero)
    with h True show ?thesis by (simp add: slice_last_def)
  next
    case False
    then have h: "hex_of_nat n = hex_of_nat (n div 16) @ [hex_digit (n mod 16)]" by (subst hex_of_nat.simps) simp
    have s: "slice_last (Suc k) (xs @ [x]) = slice_last k xs @ [x]" for xs :: string and x
      by (auto simp: slice_last_def)
    show ?thesis using Suc.IH [of "n div 16"] s [of "replicate (k - length (hex_of_nat (n div 16))) (CHR ''0'') @ hex_of_nat (n div 16)"]
      by (simp add: h)
  qed
qed

lemma time_digits: "slice_last 12 (padStart 12 (CHR ''0'') (hex_of_nat n)) = digits 12 n"
  unfolding padStart_def by (rule slice_digits)

text \<open>Texts compare by character code.\<close>

definition text_before :: "string \<Rightarrow> string \<Rightarrow> bool" where
  "text_before a b = ((a, b) \<in> lexord {(x, y). (of_char x :: nat) < of_char y})"

lemma hex_digit_code: "d < 16 \<Longrightarrow> (of_char (hex_digit d) :: nat) = (if d < 10 then 48 + d else 87 + d)"
  by (simp add: hex_digit_def)

lemma hex_digit_less: "c < d \<Longrightarrow> d < 16 \<Longrightarrow> (of_char (hex_digit c) :: nat) < of_char (hex_digit d)"
  by (simp add: hex_digit_code)

lemma before_append_same: "text_before (a @ b) (a @ b') \<longleftrightarrow> text_before b b'"
  unfolding text_before_def by (induction a) (auto simp: lexord_cons_cons)

lemma before_append: "text_before a b \<Longrightarrow> length a = length b \<Longrightarrow> text_before (a @ x) (b @ y)"
  unfolding text_before_def by (rule lexord_sufI) auto

lemma digits_less: "a < b \<Longrightarrow> b < 16 ^ k \<Longrightarrow> text_before (digits k a) (digits k b)"
proof (induction k arbitrary: a b)
  case (Suc k)
  show ?case
  proof (cases "a div 16 = b div 16")
    case True
    then have "a mod 16 < b mod 16" using Suc.prems(1) by (metis div_mult_mod_eq nat_add_left_cancel_less)
    then have "text_before [hex_digit (a mod 16)] [hex_digit (b mod 16)]"
      by (simp add: text_before_def hex_digit_less)
    with True show ?thesis by (simp add: before_append_same)
  next
    case False
    then have "a div 16 < b div 16" using Suc.prems(1) by (meson div_le_mono le_neq_implies_less less_imp_le_nat)
    moreover have "b div 16 < 16 ^ k" using Suc.prems(2) by (simp add: less_mult_imp_div_less mult.commute)
    ultimately show ?thesis using Suc.IH by (simp add: before_append)
  qed
qed simp

lemma digits_mod: "digits k (n mod 16 ^ k) = digits k n"
proof (induction k arbitrary: n)
  case (Suc k)
  have n: "n mod 16 ^ Suc k = 16 * (n div 16 mod 16 ^ k) + n mod 16"
    by (simp add: mod_mult2_eq)
  have "(n mod 16 ^ Suc k) div 16 = n div 16 mod 16 ^ k" "(n mod 16 ^ Suc k) mod 16 = n mod 16"
    unfolding n by simp_all
  with Suc show ?case by simp
qed simp

definition id_window :: nat where "id_window = 68719476736"

lemma scaled_mod: "(x * 4096) mod 16 ^ 12 = (x mod id_window) * 4096"
proof -
  have "(16::nat) ^ 12 = id_window * 4096" by (simp add: id_window_def)
  then show ?thesis by (simp only: mod_mult_mult2)
qed

lemma scaled_digits: "digits 12 (x * 4096) = digits 12 ((x mod id_window) * 4096)"
  using digits_mod [of 12 "x * 4096"] unfolding scaled_mod by (rule sym)

text \<open>
  Two ids follow their instants when both instants lie in one window of 2^36 ms, which is about
  two years and two months.
\<close>

lemma openCodeMessageId_order:
  assumes "t < t'" "t div id_window = t' div id_window"
  shows "text_before (openCodeMessageId digest i t) (openCodeMessageId digest i' t')"
proof -
  have "t mod id_window < t' mod id_window" using assms by (metis div_mult_mod_eq nat_add_left_cancel_less)
  moreover have "t' mod id_window < id_window" by (simp add: id_window_def)
  ultimately have "(t mod id_window) * 4096 < (t' mod id_window) * 4096" "(t' mod id_window) * 4096 < 16 ^ 12"
    by (simp_all add: id_window_def)
  then have "text_before (digits 12 ((t mod id_window) * 4096)) (digits 12 ((t' mod id_window) * 4096))"
    by (rule digits_less)
  then have d: "text_before (digits 12 (t * 4096)) (digits 12 (t' * 4096))"
    by (subst scaled_digits [of t], subst scaled_digits [of t'])
  show ?thesis
    unfolding openCodeMessageId_def Let_def time_digits before_append_same
    by (rule before_append [OF d]) simp
qed

text \<open>Across the edge of a window the order is reversed: the later id comes first.\<close>

lemma openCodeMessageId_wraps:
  assumes "0 < k"
  shows "text_before (openCodeMessageId digest i' (k * id_window)) (openCodeMessageId digest i (k * id_window - 1))"
proof -
  have "k * id_window - 1 = (k - 1) * id_window + (id_window - 1)"
    using assms by (cases k) (simp_all add: id_window_def)
  then have m: "(k * id_window - 1) mod id_window = id_window - 1"
    by (simp add: id_window_def mod_mult_self3)
  have "(k * id_window) mod id_window * 4096 < (k * id_window - 1) mod id_window * 4096"
    "(k * id_window - 1) mod id_window * 4096 < 16 ^ 12"
    unfolding m by (simp_all add: id_window_def)
  then have "text_before (digits 12 ((k * id_window) mod id_window * 4096)) (digits 12 ((k * id_window - 1) mod id_window * 4096))"
    by (rule digits_less)
  then have d: "text_before (digits 12 (k * id_window * 4096)) (digits 12 ((k * id_window - 1) * 4096))"
    by (subst scaled_digits [of "k * id_window"], subst scaled_digits [of "k * id_window - 1"])
  show ?thesis
    unfolding openCodeMessageId_def Let_def time_digits before_append_same
    by (rule before_append [OF d]) simp
qed

end
