(* ===== verification/Version.thy ===== *)
theory Version
  imports Prelude
begin

text \<open>
  Version comparison (\<open>src/util/version.ts\<close>): \<open>compareSemver\<close> with JavaScript's \<open>parseInt\<close>, whose
  unreadable parts are \<open>NaN\<close> (here \<open>None\<close>, which differs from every number, itself included, and
  is below none).
\<close>

subsection \<open>Reading a decimal number\<close>

fun split_on :: "char \<Rightarrow> string \<Rightarrow> string list" where
  "split_on c [] = [[]]"
| "split_on c (x # xs) =
     (if x = c then [] # split_on c xs
      else (case split_on c xs of [] \<Rightarrow> [[x]] | y # ys \<Rightarrow> (x # y) # ys))"

definition is_digit :: "char \<Rightarrow> bool" where
  "is_digit c = (48 \<le> (of_char c :: nat) \<and> (of_char c :: nat) \<le> 57)"

definition digits_value :: "string \<Rightarrow> nat" where
  "digits_value ds = foldl (\<lambda>acc c. acc * 10 + (of_char c - 48)) 0 ds"

definition is_js_blank :: "char \<Rightarrow> bool" where
  "is_js_blank c = ((of_char c :: nat) = 32 \<or> 9 \<le> (of_char c :: nat) \<and> (of_char c :: nat) \<le> 13)"

text \<open>\<open>Number.parseInt(text, 10)\<close>: leading blanks, one sign, the longest run of digits.\<close>

definition parse_int :: "string \<Rightarrow> int option" where
  "parse_int s =
     (let t = dropWhile is_js_blank s;
          (neg, body) = (case t of
             [] \<Rightarrow> (False, [])
           | c # r \<Rightarrow> if c = CHR ''-'' then (True, r) else if c = CHR ''+'' then (False, r) else (False, t));
          ds = takeWhile is_digit body
      in if ds = [] then None
         else Some (if neg then - int (digits_value ds) else int (digits_value ds)))"

definition semver_part :: "int option list \<Rightarrow> nat \<Rightarrow> int option" where
  "semver_part ps i = (if i < length ps then ps ! i else Some 0)"

fun semver_loop :: "int option list \<Rightarrow> int option list \<Rightarrow> nat list \<Rightarrow> int" where
  "semver_loop pa pb [] = 0"
| "semver_loop pa pb (i # is) =
     (case (semver_part pa i, semver_part pb i) of
        (Some da, Some db) \<Rightarrow> if da \<noteq> db then (if da < db then - 1 else 1) else semver_loop pa pb is
      | _ \<Rightarrow> 1)"

definition compareSemver :: "string \<Rightarrow> string \<Rightarrow> int" where
  "compareSemver a b =
     semver_loop (map parse_int (split_on (CHR ''.'') a)) (map parse_int (split_on (CHR ''.'') b)) [0, 1, 2]"

subsection \<open>Printed versions compare as triples of numbers\<close>

lemma of_char_digit: "n < 10 \<Longrightarrow> (of_char (char_of (48 + n) :: char) :: nat) = 48 + n"
  by simp

lemma digits_string_of_nat: "\<forall>c\<in>set (string_of_nat n). is_digit c"
proof (induction n rule: string_of_nat.induct)
  case (1 n)
  then show ?case by (subst string_of_nat.simps) (auto simp: is_digit_def)
qed

lemma string_of_nat_Nil [simp]: "string_of_nat n \<noteq> []"
  by (subst string_of_nat.simps) simp

lemma digits_value_string_of_nat: "digits_value (string_of_nat n) = n"
proof (induction n rule: string_of_nat.induct)
  case (1 n)
  show ?case
  proof (cases "n < 10")
    case True
    then show ?thesis by (subst string_of_nat.simps) (simp add: digits_value_def)
  next
    case False
    then show ?thesis
      using 1 by (subst string_of_nat.simps) (simp add: digits_value_def)
  qed
qed

lemma digit_not:
  "is_digit c \<Longrightarrow> \<not> is_js_blank c" "is_digit c \<Longrightarrow> c \<noteq> CHR ''-''" "is_digit c \<Longrightarrow> c \<noteq> CHR ''+''"
  "is_digit c \<Longrightarrow> c \<noteq> CHR ''.''"
  by (auto simp: is_digit_def is_js_blank_def)

lemma parse_int_string_of_nat: "parse_int (string_of_nat n) = Some (int n)"
proof -
  obtain c r where cr: "string_of_nat n = c # r" by (cases "string_of_nat n") auto
  with digits_string_of_nat [of n] have d: "is_digit c" "\<forall>x\<in>set r. is_digit x" by auto
  note all = takeWhile_eq_all_conv [THEN iffD2, OF d(2)]
  have "dropWhile is_js_blank (c # r) = c # r" using d digit_not by simp
  then show ?thesis
    using d digit_not(1) [of c] digit_not(2,3) [of c] digits_value_string_of_nat [of n]
    by (simp add: parse_int_def cr all)
qed

lemma split_on_absent: "c \<notin> set s \<Longrightarrow> split_on c s = [s]"
  by (induction s) auto

lemma split_on_sep: "c \<notin> set s \<Longrightarrow> split_on c (s @ c # t) = s # split_on c t"
  by (induction s) auto

definition version_text :: "nat \<Rightarrow> nat \<Rightarrow> nat \<Rightarrow> string" where
  "version_text x y z = string_of_nat x @ ''.'' @ string_of_nat y @ ''.'' @ string_of_nat z"

lemma no_dot: "CHR ''.'' \<notin> set (string_of_nat n)"
  using digits_string_of_nat [of n] digit_not(4) by blast

lemma version_parts:
  "map parse_int (split_on (CHR ''.'') (version_text x y z)) = [Some (int x), Some (int y), Some (int z)]"
  by (simp add: version_text_def split_on_sep split_on_absent no_dot parse_int_string_of_nat)

lemma compareSemver_text:
  "compareSemver (version_text x y z) (version_text x' y' z')
     = (if (x, y, z) = (x', y', z') then 0
        else if x < x' \<or> x = x' \<and> (y < y' \<or> y = y' \<and> z < z') then - 1 else 1)"
  by (simp add: compareSemver_def version_parts semver_part_def)

text \<open>A version that does not read as three numbers compares as the newer one.\<close>

lemma compareSemver_unreadable:
  "parse_int (hd (split_on (CHR ''.'') b)) = None \<Longrightarrow> compareSemver a b = 1"
proof -
  have "split_on (CHR ''.'') b \<noteq> []" by (cases b) (auto split: list.splits)
  moreover assume "parse_int (hd (split_on (CHR ''.'') b)) = None"
  ultimately show ?thesis
    by (cases "split_on (CHR ''.'') b") (auto simp: compareSemver_def semver_part_def split: option.splits)
qed

end
