(* ===== verification/JsText.thy ===== *)
theory JsText
  imports Version
begin

text \<open>
  JavaScript's text operations on the model's strings, which hold the UTF-8 bytes of a text: the
  length in UTF-16 units, \<open>trim\<close>, \<open>slice\<close> with a limit, and the search for a separator.
\<close>

text \<open>\<open>s.length\<close>: a lead byte counts one unit, that of a four-byte character two.\<close>

definition byte_units :: "char \<Rightarrow> nat" where
  "byte_units c = (let n = (of_char c :: nat) in if n < 0x80 then 1 else if n < 0xC0 then 0 else if n < 0xF0 then 1 else 2)"

definition js_length :: "string \<Rightarrow> nat" where
  "js_length s = sum_list (map byte_units s)"

lemma js_length_simps [simp]:
  "js_length [] = 0" "js_length (c # s) = byte_units c + js_length s" "js_length (s @ t) = js_length s + js_length t"
  by (simp_all add: js_length_def)

subsection \<open>White space\<close>

text \<open>What \<open>trim\<close> removes: the white space and line ends of ECMAScript, as their bytes.\<close>

definition js_spaces :: "string list" where
  "js_spaces = [[CHR 0x09], [CHR 0x0A], [CHR 0x0B], [CHR 0x0C], [CHR 0x0D], '' '', [CHR 0xC2, CHR 0xA0],
     [CHR 0xE1, CHR 0x9A, CHR 0x80], [CHR 0xE2, CHR 0x80, CHR 0xA8], [CHR 0xE2, CHR 0x80, CHR 0xA9],
     [CHR 0xE2, CHR 0x80, CHR 0xAF], [CHR 0xE2, CHR 0x81, CHR 0x9F], [CHR 0xE3, CHR 0x80, CHR 0x80],
     [CHR 0xEF, CHR 0xBB, CHR 0xBF]]
     @ map (\<lambda>c. [CHR 0xE2, CHR 0x80, c]) [CHR 0x80, CHR 0x81, CHR 0x82, CHR 0x83, CHR 0x84, CHR 0x85, CHR 0x86,
          CHR 0x87, CHR 0x88, CHR 0x89, CHR 0x8A]"

text \<open>The bytes that occur in white space.\<close>

definition space_byte :: "char \<Rightarrow> bool" where
  "space_byte c = (c \<in> set (concat js_spaces))"

function strip_front :: "string list \<Rightarrow> string \<Rightarrow> string" where
  "strip_front ws s = (case List.find (\<lambda>w. w \<noteq> [] \<and> prefix w s) ws of
      None \<Rightarrow> s | Some w \<Rightarrow> strip_front ws (drop (length w) s))"
  by pat_completeness auto

termination strip_front
  by (relation "measure (length \<circ> snd)") (auto dest!: find_SomeD simp: prefix_def)

declare strip_front.simps [simp del]

definition trim_start :: "string \<Rightarrow> string" where
  "trim_start s = strip_front js_spaces s"

definition trim_end :: "string \<Rightarrow> string" where
  "trim_end s = rev (strip_front (map rev js_spaces) (rev s))"

definition trim :: "string \<Rightarrow> string" where
  "trim s = trim_end (trim_start s)"

lemma strip_front_stop: "(\<And>w. w \<in> set ws \<Longrightarrow> w \<noteq> [] \<Longrightarrow> \<not> prefix w s) \<Longrightarrow> strip_front ws s = s"
  by (subst strip_front.simps) (auto dest!: find_SomeD split: option.split)

lemma strip_front_suffix: "suffix (strip_front ws s) s"
proof (induction ws s rule: strip_front.induct)
  case (1 ws s)
  show ?case
  proof (cases "List.find (\<lambda>w. w \<noteq> [] \<and> prefix w s) ws")
    case None
    then show ?thesis by (subst strip_front.simps) simp
  next
    case (Some w)
    from 1 [OF Some] have "suffix (strip_front ws (drop (length w) s)) s"
      using suffix_drop suffix_order.trans by blast
    then show ?thesis by (subst strip_front.simps) (simp add: Some)
  qed
qed

text \<open>A text that neither starts nor ends with white space is kept; so is every text without any.\<close>

lemma trim_id:
  assumes "\<forall>c\<in>set s. \<not> space_byte c"
  shows "trim s = s"
proof -
  note assms = assms [unfolded space_byte_def]
  have a: "strip_front js_spaces s = s"
    using assms by (intro strip_front_stop) (auto dest!: set_mono_prefix, metis list.set_intros(1) neq_Nil_conv subsetD)
  have b: "strip_front (map rev js_spaces) (rev s) = rev s"
    using assms by (intro strip_front_stop) (auto dest!: set_mono_prefix, metis list.set_intros(1) neq_Nil_conv set_rev subsetD)
  show ?thesis by (simp add: trim_def trim_start_def trim_end_def a b)
qed

subsection \<open>Positions\<close>

text \<open>\<open>s.indexOf(c)\<close>, and what stands before and after the first occurrence.\<close>

definition before_char :: "char \<Rightarrow> string \<Rightarrow> string" where "before_char c s = takeWhile (\<lambda>x. x \<noteq> c) s"
definition after_char :: "char \<Rightarrow> string \<Rightarrow> string" where "after_char c s = drop 1 (dropWhile (\<lambda>x. x \<noteq> c) s)"

lemma at_char [simp]:
  assumes "c \<notin> set a"
  shows "before_char c (a @ c # b) = a" "after_char c (a @ c # b) = b"
  using assms by (induction a) (auto simp: before_char_def after_char_def)

text \<open>\<open>new Set(xs)\<close> in insertion order.\<close>

fun once :: "'a list \<Rightarrow> 'a list" where
  "once [] = []"
| "once (x # xs) = x # filter (\<lambda>y. y \<noteq> x) (once xs)"

lemma set_once [simp]: "set (once xs) = set xs"
  by (induction xs) auto

lemma distinct_once [simp]: "distinct (once xs)"
  by (induction xs) auto

end
