(* ===== verification/Authorization.thy ===== *)
theory Authorization
  imports Identity JsText
begin

text \<open>
  On what a letter to a peer stands (\<open>src/chat/communicationAuthorizationSchema.ts\<close>,
  \<open>communicationReceiptSchema.ts\<close>): the evidence a sender supplies, the reference to an earlier letter,
  and the receipt that snapshots an opening basis.  \<open>z.uuid()\<close> is the argument \<open>uuid\<close>; what is used of it
  is that an id has no \<open>#\<close> and no white space.
\<close>

datatype comm_basis = UserInstruction | PeerLetter | ThreadContinuation

record authorization =
  au_basis :: "comm_basis option"
  au_why :: "string option"
  au_quote :: "string option"
  au_ref :: string

record source_letter =
  so_id :: string
  so_ts :: stamp
  so_from :: principal
  so_to :: target
  so_task :: "string option"
  so_body :: string

text \<open>What a basis resolves to; the root is absent until the opening letter has an id.\<close>

record basis_result =
  og_root :: "string option"
  og_authorization :: authorization
  og_letter :: "source_letter option"

record receipt =
  ro_root :: string
  ro_authorization :: authorization
  ro_letter :: "source_letter option"

subsection \<open>References\<close>

definition formatLedgerMessageRef :: "string \<Rightarrow> string \<Rightarrow> string" where
  "formatLedgerMessageRef thread msg = thread @ ''#'' @ msg"

definition parseLedgerMessageRef :: "(string \<Rightarrow> bool) \<Rightarrow> string \<Rightarrow> (string \<times> string) option" where
  "parseLedgerMessageRef uuid ref = (case split_on (CHR ''#'') (trim ref) of
      [thread, msg] \<Rightarrow> if uuid thread \<and> uuid msg then Some (thread, msg) else None
    | _ \<Rightarrow> None)"

definition continuationRef :: "string \<Rightarrow> target \<Rightarrow> string option" where
  "continuationRef i to = map_option (\<lambda>thread. formatLedgerMessageRef thread i)
     (case to of ToManaged p \<Rightarrow> Some (mp_thread p) | ToCodexApp p \<Rightarrow> Some (ap_thread p) | _ \<Rightarrow> None)"

definition plain_ids :: "(string \<Rightarrow> bool) \<Rightarrow> bool" where
  "plain_ids uuid = (\<forall>u. uuid u \<longrightarrow> (\<forall>c\<in>set u. c \<noteq> CHR ''#'' \<and> \<not> space_byte c))"

lemma parse_format_ref:
  assumes "plain_ids uuid" "uuid thread" "uuid msg"
  shows "parseLedgerMessageRef uuid (formatLedgerMessageRef thread msg) = Some (thread, msg)"
proof -
  have c: "\<forall>c\<in>set thread \<union> set msg. c \<noteq> CHR ''#'' \<and> \<not> space_byte c"
    using assms unfolding plain_ids_def by blast
  moreover have "\<not> space_byte (CHR ''#'')" by (simp add: space_byte_def js_spaces_def)
  ultimately have "trim (thread @ CHR ''#'' # msg) = thread @ CHR ''#'' # msg"
    by (intro trim_id) auto
  moreover have "split_on (CHR ''#'') (thread @ CHR ''#'' # msg) = [thread, msg]"
  proof -
    have "CHR ''#'' \<notin> set thread" "CHR ''#'' \<notin> set msg" using c by blast+
    then show ?thesis by (simp add: split_on_sep split_on_absent)
  qed
  ultimately show ?thesis
    using assms(2,3) by (simp add: parseLedgerMessageRef_def formatLedgerMessageRef_def)
qed

lemma parse_ref_uuids: "parseLedgerMessageRef uuid ref = Some (thread, msg) \<Longrightarrow> uuid thread \<and> uuid msg"
  by (auto simp: parseLedgerMessageRef_def split: list.splits if_splits)

subsection \<open>The schemas\<close>

definition why_ok :: "string \<Rightarrow> bool" where
  "why_ok s = (40 \<le> js_length (trim s) \<and> js_length (trim s) \<le> 4000)"

definition quote_ok :: "string \<Rightarrow> bool" where
  "quote_ok s = (1 \<le> js_length s \<and> js_length s \<le> 4000 \<and> 0 < js_length (trim s))"

definition ref_ok :: "string \<Rightarrow> bool" where
  "ref_ok s = (1 \<le> js_length (trim s) \<and> js_length (trim s) \<le> 1000)"

definition CommunicationAuthorizationSchema :: "(string \<Rightarrow> bool) \<Rightarrow> authorization \<Rightarrow> bool" where
  "CommunicationAuthorizationSchema uuid a =
     ((case au_why a of None \<Rightarrow> True | Some s \<Rightarrow> why_ok s) \<and> (case au_quote a of None \<Rightarrow> True | Some s \<Rightarrow> quote_ok s)
      \<and> ref_ok (au_ref a)
      \<and> (if au_basis a = Some ThreadContinuation then au_why a = None \<and> au_quote a = None
         else au_why a \<noteq> None \<and> au_quote a \<noteq> None)
      \<and> (au_basis a \<in> {Some PeerLetter, Some ThreadContinuation}
           \<longrightarrow> parseLedgerMessageRef uuid (trim (au_ref a)) \<noteq> None))"

definition SOURCE_BODY_MAX :: nat where "SOURCE_BODY_MAX = 16384"

definition CommunicationReceiptSchema :: "(string \<Rightarrow> bool) \<Rightarrow> receipt \<Rightarrow> bool" where
  "CommunicationReceiptSchema uuid r =
     (uuid (ro_root r) \<and> CommunicationAuthorizationSchema uuid (ro_authorization r)
      \<and> au_basis (ro_authorization r) \<in> {Some UserInstruction, Some PeerLetter}
      \<and> (case ro_letter r of None \<Rightarrow> True | Some l \<Rightarrow> uuid (so_id l) \<and> js_length (so_body l) \<le> SOURCE_BODY_MAX))"

end
