(* ===== verification/Settlement.thy ===== *)
theory Settlement
  imports Authorization
begin

text \<open>
  The chat envelope and the delivery bookkeeping (\<open>src/chat/messageSchema.ts\<close>), and the rules that
  decide where a letter stands and which one is next (\<open>src/chat/settlement.ts\<close>).

  A ledger slot is \<open>None\<close> for a record this build cannot read: the position is kept, because the
  cursors are positions.  Fields the model never looks into (images, turn options) are kept as their
  canonical JSON text.  The JavaScript objects used as dictionaries
  (\<open>read\<close>, \<open>delivered\<close>, \<open>pickups\<close>) are maps.
\<close>

datatype ingress = InCli | InLocalControl | InService | InManaged | InCodexApp | InUnknown
datatype actor = Human | Agent | Application | UnknownActor
datatype assurance = RuntimeIdentity | ApplicationAttested | UnknownAssurance

record attribution =
  at_application :: string
  at_channel :: string
  at_actor :: actor

record attested =
  as_attribution :: attribution
  as_revision :: string
  as_digest :: string

record message_origin =
  o_ingress :: ingress
  o_actor :: actor
  o_assurance :: assurance
  o_application :: "attested option"

definition unknownMessageOrigin :: message_origin where
  "unknownMessageOrigin =
     \<lparr>o_ingress = InUnknown, o_actor = UnknownActor, o_assurance = UnknownAssurance, o_application = None\<rparr>"

datatype audience = Conversation | OwnerAudience

record chat_message =
  m_id :: string
  m_ts :: stamp
  m_from :: principal
  m_to :: target
  m_origin :: "message_origin option"
  m_authorization :: "authorization option"
  m_receipt :: "receipt option"
  m_notification :: "audience option"
  m_registration :: "string option"
  m_body :: string
  m_task :: "string option"
  m_defer :: bool
  m_onBehalfOf :: "string option"
  m_notBefore :: "stamp option"
  m_turnOptions :: "string option"
  m_images :: "string option"
  m_fingerprint :: "string option"

type_synonym ledger_slot = "chat_message option"

datatype native_phase = Intent | Accepted

record native_binding =
  nb_phase :: native_phase
  nb_turn :: "string option"

record pickup =
  pk_message :: string
  pk_injectedAt :: stamp
  pk_index :: "nat option"
  pk_conditional :: bool
  pk_line :: "nat option"
  pk_native :: "native_binding option"

record cursors =
  c_read :: "string \<rightharpoonup> nat"
  c_delivered :: "string \<rightharpoonup> nat"
  c_pickups :: "string \<rightharpoonup> pickup"
  c_telegram :: "nat option"

datatype ack_outcome = AckDelivered | AckCancelled | AckUndeliverable

subsection \<open>Conditional and due letters\<close>

definition isConditional :: "chat_message \<Rightarrow> bool" where
  "isConditional msg = (m_defer msg \<or> m_notBefore msg \<noteq> None)"

definition isDue :: "chat_message \<Rightarrow> int \<Rightarrow> bool" where
  "isDue msg now = (case m_notBefore msg of
      None \<Rightarrow> True
    | Some s \<Rightarrow> (case date_parse s of None \<Rightarrow> True | Some at \<Rightarrow> now \<ge> at))"

subsection \<open>Where one letter stands\<close>

datatype letter_state = Pending | Settled ack_outcome

definition letterState ::
  "chat_message \<Rightarrow> nat \<Rightarrow> (string \<rightharpoonup> ack_outcome) \<Rightarrow> cursors \<Rightarrow> letter_state" where
  "letterState msg index acks cs =
     (if isConditional msg
      then (case acks (m_id msg) of None \<Rightarrow> Pending | Some o' \<Rightarrow> Settled o')
      else if (case m_to msg of
                 ToOwner \<Rightarrow> nullish (c_telegram cs) 0 > index
               | _ \<Rightarrow> nullish (c_delivered cs (chatTargetKey (m_to msg))) 0 > index)
           then Settled AckDelivered else Pending)"

subsection \<open>Choosing the next letter\<close>

text \<open>\<open>scan_slots p i slots\<close> is a \<open>for\<close> loop over \<open>slots\<close>, the first of which has index \<open>i\<close>.\<close>

fun scan_slots :: "(chat_message \<Rightarrow> bool) \<Rightarrow> nat \<Rightarrow> ledger_slot list \<Rightarrow> (chat_message \<times> nat) option" where
  "scan_slots p idx [] = None"
| "scan_slots p idx (None # rest) = scan_slots p (Suc idx) rest"
| "scan_slots p idx (Some msg # rest) =
     (if p msg then Some (msg, idx) else scan_slots p (Suc idx) rest)"

definition immediate_for :: "string \<Rightarrow> chat_message \<Rightarrow> bool" where
  "immediate_for key msg = (chatTargetKey (m_to msg) = key \<and> \<not> isConditional msg)"

definition conditional_for :: "string \<Rightarrow> string set \<Rightarrow> int \<Rightarrow> chat_message \<Rightarrow> bool" where
  "conditional_for key acked now msg =
     (chatTargetKey (m_to msg) = key \<and> isConditional msg \<and> m_id msg \<notin> acked \<and> isDue msg now)"

definition pickPendingDelivery ::
  "ledger_slot list \<Rightarrow> string \<Rightarrow> nat \<Rightarrow> string set \<Rightarrow> int \<Rightarrow> (chat_message \<times> nat) option \<times> nat" where
  "pickPendingDelivery ledger key delivered acked now =
     (case scan_slots (immediate_for key) delivered (drop delivered ledger) of
        Some (msg, idx) \<Rightarrow> (Some (msg, idx), idx)
      | None \<Rightarrow>
          (case scan_slots (conditional_for key acked now) 0 ledger of
             Some pick \<Rightarrow> (Some pick, length ledger)
           | None \<Rightarrow> (None, length ledger)))"

definition nextDelivery ::
  "ledger_slot list \<Rightarrow> string \<Rightarrow> cursors \<Rightarrow> string set \<Rightarrow> int
     \<Rightarrow> (chat_message \<times> nat) option \<times> bool \<times> cursors" where
  "nextDelivery ledger key cs acked now =
     (let (pick, cursor) = pickPendingDelivery ledger key (nullish (c_delivered cs key) 0) acked now;
          moved = (c_delivered cs key \<noteq> Some cursor)
      in (pick, moved, if moved then cs\<lparr>c_delivered := (c_delivered cs)(key \<mapsto> cursor)\<rparr> else cs))"

definition pendingMessageId ::
  "ledger_slot list \<Rightarrow> string \<Rightarrow> cursors \<Rightarrow> string set \<Rightarrow> int \<Rightarrow> string option" where
  "pendingMessageId ledger key cs acked now =
     (case c_pickups cs key of
        Some p \<Rightarrow> Some (pk_message p)
      | None \<Rightarrow> map_option (m_id \<circ> fst)
                 (fst (pickPendingDelivery ledger key (nullish (c_delivered cs key) 0) acked now)))"

definition find_letter :: "ledger_slot list \<Rightarrow> string \<Rightarrow> chat_message option" where
  "find_letter ledger i =
     (case List.find (\<lambda>slot. map_option m_id slot = Some i) ledger of None \<Rightarrow> None | Some slot \<Rightarrow> slot)"

definition pendingMessage ::
  "ledger_slot list \<Rightarrow> string \<Rightarrow> cursors \<Rightarrow> string set \<Rightarrow> int \<Rightarrow> chat_message option" where
  "pendingMessage ledger key cs acked now =
     (case pendingMessageId ledger key cs acked now of
        None \<Rightarrow> None | Some i \<Rightarrow> find_letter ledger i)"

subsection \<open>The scan loop\<close>

lemma scan_slots_SomeD:
  "scan_slots p i slots = Some (msg, idx) \<Longrightarrow>
     i \<le> idx \<and> idx < i + length slots \<and> slots ! (idx - i) = Some msg \<and> p msg
     \<and> (\<forall>j m. j < idx - i \<and> slots ! j = Some m \<longrightarrow> \<not> p m)"
proof (induction p i slots rule: scan_slots.induct)
  case (1 p i)
  then show ?case by simp
next
  case (2 p i rest)
  then have "scan_slots p (Suc i) rest = Some (msg, idx)" by simp
  from "2.IH" [OF this] show ?case
    by (auto simp: nth_Cons' Suc_diff_le less_Suc_eq_0_disj Suc_diff_Suc)
next
  case (3 p i m0 rest)
  show ?case
  proof (cases "p m0")
    case True
    with "3.prems" show ?thesis by auto
  next
    case False
    with "3.prems" have "scan_slots p (Suc i) rest = Some (msg, idx)" by simp
    from "3.IH" [OF False this] False show ?thesis
      by (auto simp: nth_Cons' Suc_diff_le less_Suc_eq_0_disj Suc_diff_Suc)
  qed
qed

lemma scan_slots_None_iff:
  "scan_slots p i slots = None \<longleftrightarrow> (\<forall>m. Some m \<in> set slots \<longrightarrow> \<not> p m)"
  by (induction p i slots rule: scan_slots.induct) auto

text \<open>The loop started at an absolute index of a ledger.\<close>

lemma scan_from_SomeD:
  assumes "scan_slots p d (drop d ledger) = Some (msg, idx)"
  shows "d \<le> idx" "idx < length ledger" "ledger ! idx = Some msg" "p msg"
    "\<And>j m. d \<le> j \<Longrightarrow> j < idx \<Longrightarrow> ledger ! j = Some m \<Longrightarrow> \<not> p m"
proof -
  note S = scan_slots_SomeD [OF assms]
  show le: "d \<le> idx" and p: "p msg" using S by auto
  show lt: "idx < length ledger" using S by auto
  show "ledger ! idx = Some msg" using S le lt by simp
  fix j m assume j: "d \<le> j" "j < idx" "ledger ! j = Some m"
  then have "j - d < idx - d" "drop d ledger ! (j - d) = Some m" using lt by simp_all
  with S show "\<not> p m" by blast
qed

lemma scan_from_NoneD:
  assumes "scan_slots p d (drop d ledger) = None" "d \<le> j" "j < length ledger" "ledger ! j = Some m"
  shows "\<not> p m"
proof -
  have "drop d ledger ! (j - d) = Some m" "j - d < length (drop d ledger)"
    using assms by simp_all
  then have "Some m \<in> set (drop d ledger)" by (metis nth_mem)
  with assms(1) show ?thesis by (simp add: scan_slots_None_iff)
qed

subsection \<open>What a pick is\<close>

lemma pick_immediate:
  assumes "d \<le> j" "j < length ledger" "ledger ! j = Some m" "immediate_for key m"
  shows "\<exists>msg idx. pickPendingDelivery ledger key d acked now = (Some (msg, idx), idx)
           \<and> d \<le> idx \<and> idx \<le> j \<and> ledger ! idx = Some msg \<and> immediate_for key msg"
proof (cases "scan_slots (immediate_for key) d (drop d ledger)")
  case None
  from scan_from_NoneD [OF None assms(1-3)] assms(4) show ?thesis by simp
next
  case (Some pr)
  then obtain msg idx where s: "scan_slots (immediate_for key) d (drop d ledger) = Some (msg, idx)"
    by (cases pr) auto
  note F = scan_from_SomeD [OF s]
  have "idx \<le> j" using F(5) [of j m] assms by (meson not_le_imp_less)
  then show ?thesis using s F by (auto simp: pickPendingDelivery_def)
qed

lemma pick_SomeD:
  assumes "pickPendingDelivery ledger key d acked now = (Some (msg, idx), cur)"
  shows "idx < length ledger \<and> ledger ! idx = Some msg \<and> chatTargetKey (m_to msg) = key \<and>
    (if isConditional msg
     then cur = length ledger \<and> m_id msg \<notin> acked \<and> isDue msg now
     else cur = idx \<and> d \<le> idx)"
proof (cases "scan_slots (immediate_for key) d (drop d ledger)")
  case None
  with assms have "scan_slots (conditional_for key acked now) 0 (drop 0 ledger) = Some (msg, idx)"
    "cur = length ledger"
    by (auto simp: pickPendingDelivery_def split: option.splits)
  with scan_from_SomeD [OF this(1)] show ?thesis by (auto simp: conditional_for_def)
next
  case (Some pr)
  with assms have "scan_slots (immediate_for key) d (drop d ledger) = Some (msg, idx)" "cur = idx"
    by (auto simp: pickPendingDelivery_def split: prod.splits)
  with scan_from_SomeD [OF this(1)] show ?thesis by (auto simp: immediate_for_def)
qed

lemma pick_NoneD:
  assumes "pickPendingDelivery ledger key d acked now = (None, cur)"
    and "j < length ledger" "ledger ! j = Some m" "chatTargetKey (m_to m) = key"
  shows "cur = length ledger" "isConditional m \<Longrightarrow> m_id m \<in> acked \<or> \<not> isDue m now"
    "\<not> isConditional m \<Longrightarrow> j < d"
proof -
  from assms(1) have N: "scan_slots (immediate_for key) d (drop d ledger) = None"
      "scan_slots (conditional_for key acked now) 0 (drop 0 ledger) = None"
    and cur: "cur = length ledger"
    by (auto simp: pickPendingDelivery_def split: option.splits)
  show "cur = length ledger" by (fact cur)
  show "isConditional m \<Longrightarrow> m_id m \<in> acked \<or> \<not> isDue m now"
    using scan_from_NoneD [OF N(2) _ assms(2,3)] assms(4) by (auto simp: conditional_for_def)
  show "\<not> isConditional m \<Longrightarrow> j < d"
    using scan_from_NoneD [OF N(1) _ assms(2,3)] assms(4)
    by (simp add: immediate_for_def not_le [symmetric]) blast
qed

text \<open>The cursor a pick leaves behind steps over no immediate letter of the recipient.\<close>

lemma pick_cursor_skips_nothing:
  assumes "pickPendingDelivery ledger key d acked now = (pick, cur)"
    and "d \<le> j" "j < length ledger" "ledger ! j = Some m" "immediate_for key m"
  shows "cur \<le> j"
  using pick_immediate [OF assms(2-5), of acked now] assms(1) by auto

subsection \<open>Catching the cursor up\<close>

lemma nextDelivery_frame:
  assumes "nextDelivery ledger key cs acked now = (pick, moved, cs')"
  shows "c_read cs' = c_read cs" "c_pickups cs' = c_pickups cs" "c_telegram cs' = c_telegram cs"
    "k \<noteq> key \<Longrightarrow> c_delivered cs' k = c_delivered cs k"
    "moved = (cs' \<noteq> cs)"
proof -
  show "c_read cs' = c_read cs" "c_pickups cs' = c_pickups cs" "c_telegram cs' = c_telegram cs"
    "k \<noteq> key \<Longrightarrow> c_delivered cs' k = c_delivered cs k"
    using assms by (auto simp: nextDelivery_def Let_def split: prod.splits if_splits)
  show "moved = (cs' \<noteq> cs)"
    using assms by (cases cs)
      (auto simp: nextDelivery_def Let_def fun_upd_idem_iff split: prod.splits if_splits)
qed

lemma nextDelivery_cursor:
  assumes "nextDelivery ledger key cs acked now = (pick, moved, cs')"
  shows "(pick, nullish (c_delivered cs' key) 0)
       = pickPendingDelivery ledger key (nullish (c_delivered cs key) 0) acked now"
  using assms by (auto simp: nextDelivery_def Let_def split: prod.splits if_splits)

text \<open>Catching up settles nothing: every letter of the ledger stands where it stood.\<close>

lemma letterState_cursor_cong:
  assumes "c_telegram cs' = c_telegram cs"
    and "\<not> isConditional msg \<Longrightarrow>
      (nullish (c_delivered cs' (chatTargetKey (m_to msg))) 0 > index
       \<longleftrightarrow> nullish (c_delivered cs (chatTargetKey (m_to msg))) 0 > index)"
  shows "letterState msg index acks cs' = letterState msg index acks cs"
proof (cases "isConditional msg")
  case False
  with assms show ?thesis by (cases "m_to msg") (simp_all add: letterState_def)
qed (simp add: letterState_def)

lemma nextDelivery_letterState:
  assumes nd: "nextDelivery ledger key cs acked now = (pick, moved, cs')"
    and bound: "nullish (c_delivered cs key) 0 \<le> length ledger"
    and m: "j < length ledger" "ledger ! j = Some msg"
  shows "letterState msg j acks cs' = letterState msg j acks cs"
proof (rule letterState_cursor_cong)
  show "c_telegram cs' = c_telegram cs" using nextDelivery_frame(3) [OF nd] .
next
  assume imm: "\<not> isConditional msg"
  let ?k = "chatTargetKey (m_to msg)"
  let ?d = "nullish (c_delivered cs key) 0" and ?d' = "nullish (c_delivered cs' key) 0"
  note pick = nextDelivery_cursor [OF nd, symmetric]
  show "j < nullish (c_delivered cs' ?k) 0 \<longleftrightarrow> j < nullish (c_delivered cs ?k) 0"
  proof (cases "?k = key")
    case False
    with nextDelivery_frame(4) [OF nd] show ?thesis by simp
  next
    case True
    with imm have f: "immediate_for key msg" by (simp add: immediate_for_def)
    have "?d \<le> j \<Longrightarrow> ?d' \<le> j"
      by (rule pick_cursor_skips_nothing [OF pick _ m f])
    moreover have "?d \<le> ?d'"
    proof (cases pick)
      case None
      with pick bound show ?thesis
        by (auto simp: pickPendingDelivery_def split: option.splits)
    next
      case (Some pr)
      then obtain pm idx where "pick = Some (pm, idx)" by (cases pr) auto
      with pick_SomeD [of ledger key ?d acked now pm idx ?d'] pick bound show ?thesis
        by (auto split: if_splits)
    qed
    ultimately have "j < ?d' \<longleftrightarrow> j < ?d" by linarith
    with True show ?thesis by simp
  qed
qed

end
