(* ===== verification/ChatStore.thy ===== *)
theory ChatStore
  imports Settlement
begin

text \<open>
  The append-only ack log (\<open>src/chat/ackLog.ts\<close>) and the questions answered from ledger, acks and
  cursors (\<open>src/chat/store.ts\<close>): what a sender may still cancel, what its recipients have not been
  handed, what a recipient has not read.  The immediate track of a recipient is shown to be a
  first-in first-out queue served through the delivery cursor.
\<close>

subsection \<open>The ack log\<close>

datatype ack_by = ByHook | ByDaemon | ByCancel | ByUndeliverable | ByOther

text \<open>A line of the log: one with a readable string id, or one the decoder skips.\<close>

datatype ack_line = AckRow string ack_by | BadLine

fun ack_decode :: "ack_line \<Rightarrow> (string \<times> ack_outcome) option" where
  "ack_decode (AckRow i ByCancel) = Some (i, AckCancelled)"
| "ack_decode (AckRow i ByUndeliverable) = Some (i, AckUndeliverable)"
| "ack_decode (AckRow i _) = Some (i, AckDelivered)"
| "ack_decode BadLine = None"

text \<open>\<open>new Map(entries)\<close>: a later entry for the same id replaces the earlier one.\<close>

definition loadAcks :: "ack_line list \<Rightarrow> (string \<rightharpoonup> ack_outcome)" where
  "loadAcks rows = map_of (rev (List.map_filter ack_decode rows))"

definition loadAckedIds :: "ack_line list \<Rightarrow> string set" where
  "loadAckedIds rows = dom (loadAcks rows)"

definition appendAck :: "ack_line list \<Rightarrow> string \<Rightarrow> ack_by \<Rightarrow> ack_line list" where
  "appendAck rows i by' = rows @ [AckRow i by']"

fun by_outcome :: "ack_by \<Rightarrow> ack_outcome" where
  "by_outcome ByCancel = AckCancelled"
| "by_outcome ByUndeliverable = AckUndeliverable"
| "by_outcome _ = AckDelivered"

lemma ack_decode_row [simp]: "ack_decode (AckRow i b) = Some (i, by_outcome b)"
  by (cases b) simp_all

lemma loadAcks_append [simp]: "loadAcks (appendAck rows i b) = (loadAcks rows)(i \<mapsto> by_outcome b)"
  by (simp add: loadAcks_def appendAck_def List.map_filter_def)

lemma loadAckedIds_append [simp]: "loadAckedIds (appendAck rows i b) = insert i (loadAckedIds rows)"
  by (simp add: loadAckedIds_def)

subsection \<open>Live recipients and outstanding letters\<close>

definition undeliverable :: "chat_message \<Rightarrow> string set option \<Rightarrow> bool" where
  "undeliverable msg live =
     (case live of None \<Rightarrow> False
      | Some ks \<Rightarrow> (case m_to msg of ToManaged p \<Rightarrow> chatTargetKey (m_to msg) \<notin> ks | _ \<Rightarrow> False))"

record letter_filter =
  lf_from :: "principal option"
  lf_to :: "target option"
  lf_task :: "string option"
  lf_live :: "string set option"

definition filter_from :: "letter_filter \<Rightarrow> chat_message \<Rightarrow> bool" where
  "filter_from f msg = (case lf_from f of None \<Rightarrow> True | Some p \<Rightarrow> sameSender (m_from msg) p)"

definition filter_to :: "letter_filter \<Rightarrow> chat_message \<Rightarrow> bool" where
  "filter_to f msg = (case lf_to f of None \<Rightarrow> True | Some t \<Rightarrow> sameTarget (m_to msg) t)"

definition filter_task :: "letter_filter \<Rightarrow> chat_message \<Rightarrow> bool" where
  "filter_task f msg = (case lf_task f of None \<Rightarrow> True | Some t \<Rightarrow> m_task msg = Some t)"

definition no_cursors :: cursors where
  "no_cursors = \<lparr>c_read = Map.empty, c_delivered = Map.empty, c_pickups = Map.empty, c_telegram = None\<rparr>"

text \<open>\<open>Array.filter\<close> with the index, over the slots.\<close>

fun filter_slots :: "(chat_message \<Rightarrow> nat \<Rightarrow> bool) \<Rightarrow> nat \<Rightarrow> ledger_slot list \<Rightarrow> chat_message list" where
  "filter_slots p idx [] = []"
| "filter_slots p idx (None # rest) = filter_slots p (Suc idx) rest"
| "filter_slots p idx (Some msg # rest) =
     (if p msg idx then msg # filter_slots p (Suc idx) rest else filter_slots p (Suc idx) rest)"

definition pendingConditional ::
  "ledger_slot list \<Rightarrow> (string \<rightharpoonup> ack_outcome) \<Rightarrow> letter_filter \<Rightarrow> chat_message list" where
  "pendingConditional ledger acks f = filter_slots (\<lambda>msg index.
     if undeliverable msg (lf_live f) then False
     else if \<not> isConditional msg then False
     else if letterState msg index acks no_cursors \<noteq> Pending then False
     else if \<not> filter_from f msg then False
     else if \<not> filter_to f msg then False
     else filter_task f msg) 0 ledger"

definition pendingImmediate ::
  "ledger_slot list \<Rightarrow> cursors \<Rightarrow> letter_filter \<Rightarrow> chat_message list" where
  "pendingImmediate ledger cs f = filter_slots (\<lambda>msg index.
     if undeliverable msg (lf_live f) then False
     else if isConditional msg then False
     else if \<not> filter_from f msg then False
     else if \<not> filter_task f msg then False
     else letterState msg index Map.empty cs = Pending) 0 ledger"

fun index_slots :: "(chat_message \<Rightarrow> nat \<Rightarrow> bool) \<Rightarrow> nat \<Rightarrow> ledger_slot list \<Rightarrow> (chat_message \<times> nat) list" where
  "index_slots p idx [] = []"
| "index_slots p idx (None # rest) = index_slots p (Suc idx) rest"
| "index_slots p idx (Some msg # rest) =
     (if p msg idx then (msg, idx) # index_slots p (Suc idx) rest else index_slots p (Suc idx) rest)"

definition unreadFor ::
  "managed_peer \<Rightarrow> ledger_slot list \<Rightarrow> cursors \<Rightarrow> string set option \<Rightarrow> (chat_message \<times> nat) list" where
  "unreadFor recipient ledger cs acked =
     (let key = managedPeerKey recipient;
          since = nullish (c_read cs key) 0;
          activePickupId = map_option pk_message (c_pickups cs key)
      in index_slots (\<lambda>msg idx.
           (case m_to msg of ToManaged p \<Rightarrow> managedPeerKey p = key | _ \<Rightarrow> False)
           \<and> Some (m_id msg) \<noteq> activePickupId
           \<and> (case acked of None \<Rightarrow> True | Some ids \<Rightarrow> m_id msg \<notin> ids)
           \<and> (isConditional msg \<or> idx \<ge> since)) 0 ledger)"

lemma set_filter_slots:
  "m \<in> set (filter_slots p i slots) \<longleftrightarrow>
     (\<exists>j. j < length slots \<and> slots ! j = Some m \<and> p m (i + j))"
proof (induction p i slots rule: filter_slots.induct)
  case (2 p idx rest)
  then show ?case by (simp add: nth_Cons' Ex_less_Suc2 )
next
  case (3 p idx msg rest)
  then show ?case by (auto simp: nth_Cons' Ex_less_Suc2)
qed simp

lemma set_index_slots:
  "(m, j) \<in> set (index_slots p i slots) \<longleftrightarrow>
     i \<le> j \<and> j - i < length slots \<and> slots ! (j - i) = Some m \<and> p m j"
proof (induction p i slots rule: index_slots.induct)
  case (2 p idx rest)
  then show ?case by (auto simp: nth_Cons' Suc_le_eq less_diff_conv not_less le_less)
next
  case (3 p idx msg rest)
  then show ?case by (auto simp: nth_Cons' Suc_le_eq less_diff_conv not_less le_less)
qed simp

text \<open>
  Cancelling and its explanation cover the outstanding mail exactly: with no filter but the sender's
  and task's, a letter that is pending and not undeliverable is listed by exactly one of the two.
\<close>

lemma pending_listed_once:
  assumes "ledger ! j = Some m" "j < length ledger" "lf_to f = None"
    and "\<not> undeliverable m (lf_live f)" "filter_from f m" "filter_task f m"
    and "letterState m j acks cs = Pending"
  shows "isConditional m \<Longrightarrow> m \<in> set (pendingConditional ledger acks f)"
    and "\<not> isConditional m \<Longrightarrow> m \<in> set (pendingImmediate ledger cs f)"
  using assms
  by (auto simp: pendingConditional_def pendingImmediate_def set_filter_slots filter_to_def
        letterState_def intro!: exI [of _ j])

lemma pendingConditional_sound:
  "m \<in> set (pendingConditional ledger acks f) \<Longrightarrow>
     isConditional m \<and> acks (m_id m) = None \<and> Some m \<in> set ledger
     \<and> filter_from f m \<and> filter_to f m \<and> filter_task f m"
  by (auto simp: pendingConditional_def set_filter_slots letterState_def
        intro: nth_eq_mem split: if_splits option.splits)

subsection \<open>The immediate track is a queue\<close>

text \<open>
  The immediate letters of one recipient at or after its cursor, in ledger order.  Serving the head
  is what the delivery pass does after a successful injection: the cursor moves to the index after
  the letter.
\<close>

definition immediate_queue :: "string \<Rightarrow> ledger_slot list \<times> nat \<Rightarrow> (chat_message \<times> nat) list" where
  "immediate_queue key q = (case q of (ledger, d) \<Rightarrow>
     index_slots (\<lambda>msg idx. immediate_for key msg) d (drop d ledger))"

definition immediate_peek :: "string \<Rightarrow> ledger_slot list \<times> nat \<Rightarrow> (chat_message \<times> nat) option" where
  "immediate_peek key q = (case q of (ledger, d) \<Rightarrow>
     (case fst (pickPendingDelivery ledger key d {} 0) of
        Some (msg, idx) \<Rightarrow> if isConditional msg then None else Some (msg, idx)
      | None \<Rightarrow> None))"

definition immediate_serve :: "string \<Rightarrow> ledger_slot list \<times> nat \<Rightarrow> ledger_slot list \<times> nat" where
  "immediate_serve key q = (case immediate_peek key q of
     None \<Rightarrow> q | Some (msg, idx) \<Rightarrow> (fst q, idx + 1))"

lemma scan_index_slots:
  "scan_slots p i slots = (case index_slots (\<lambda>m _. p m) i slots of [] \<Rightarrow> None | x # _ \<Rightarrow> Some x)"
  by (induction p i slots rule: scan_slots.induct) auto

lemma index_slots_tl:
  "index_slots (\<lambda>m _. p m) i slots = (msg, idx) # rest \<Longrightarrow>
     index_slots (\<lambda>m _. p m) (Suc idx) (drop (Suc idx - i) slots) = rest \<and> i \<le> idx"
proof (induction p i slots rule: scan_slots.induct)
  case (1 p i)
  then show ?case by simp
next
  case (2 p i slots)
  then have "index_slots (\<lambda>m _. p m) (Suc i) slots = (msg, idx) # rest" by simp
  from "2.IH" [OF this] show ?case by (auto simp: Suc_diff_le)
next
  case (3 p i m slots)
  show ?case
  proof (cases "p m")
    case True
    with "3.prems" show ?thesis by auto
  next
    case False
    with "3.prems" have "index_slots (\<lambda>m _. p m) (Suc i) slots = (msg, idx) # rest" by simp
    from "3.IH" [OF False this] show ?thesis by (auto simp: Suc_diff_le)
  qed
qed

lemma immediate_peek_scan:
  "immediate_peek key (ledger, d) = scan_slots (immediate_for key) d (drop d ledger)"
proof (cases "scan_slots (immediate_for key) d (drop d ledger)")
  case None
  show ?thesis
  proof (cases "scan_slots (conditional_for key {} 0) 0 ledger")
    case None
    with \<open>scan_slots (immediate_for key) d (drop d ledger) = None\<close> show ?thesis
      by (simp add: immediate_peek_def pickPendingDelivery_def)
  next
    case (Some pr)
    then obtain m idx where "scan_slots (conditional_for key {} 0) 0 (drop 0 ledger) = Some (m, idx)"
      by (cases pr) auto
    with scan_from_SomeD(4) [OF this] \<open>scan_slots (immediate_for key) d (drop d ledger) = None\<close>
    show ?thesis
      by (simp add: immediate_peek_def pickPendingDelivery_def conditional_for_def)
  qed
next
  case (Some pr)
  then obtain m idx where s: "scan_slots (immediate_for key) d (drop d ledger) = Some (m, idx)"
    by (cases pr) auto
  with scan_from_SomeD(4) [OF s] show ?thesis
    by (simp add: immediate_peek_def pickPendingDelivery_def immediate_for_def)
qed

interpretation inbox: fifo_queue "immediate_queue key" "immediate_peek key" "immediate_serve key" for key
proof
  fix q :: "ledger_slot list \<times> nat" and x xs
  obtain ledger d where q: "q = (ledger, d)" by (cases q)
  show "immediate_queue key q = [] \<Longrightarrow> immediate_peek key q = None"
    by (simp add: q immediate_peek_scan immediate_queue_def scan_index_slots)
  assume C: "immediate_queue key q = x # xs"
  show P: "immediate_peek key q = Some x"
    using C by (simp add: q immediate_peek_scan immediate_queue_def scan_index_slots)
  obtain m idx where x: "x = (m, idx)" by (cases x)
  from C have "index_slots (\<lambda>msg _. immediate_for key msg) d (drop d ledger) = (m, idx) # xs"
    by (simp add: q x immediate_queue_def)
  from index_slots_tl [OF this]
  show "immediate_queue key (immediate_serve key q) = xs"
    using P by (auto simp: q x immediate_serve_def immediate_queue_def)
qed

end
