(* ===== verification/Cursors.thy ===== *)
theory Cursors
  imports ChatStore
begin

text \<open>
  The cursors file (\<open>src/chat/cursors.ts\<close>): arming at the present when it is missing, refusing to
  guess when it is unreadable, and the one write path that lets the daemon and \<open>ccmux inbox\<close> share
  it.  Each operation here is one critical section of \<open>withLock\<close>: it reads the file as it is now,
  changes it and writes it back.
\<close>

datatype cursor_file = FileMissing | FileUnreadable string | FileStored cursors

datatype cursors_error = CursorsUnreadable string

definition armed_at :: "ledger_slot list \<Rightarrow> string \<rightharpoonup> nat" where
  "armed_at ledger = fold (\<lambda>slot at. case slot of
       None \<Rightarrow> at
     | Some msg \<Rightarrow> (case m_to msg of
          ToManaged p \<Rightarrow> at(managedPeerKey p \<mapsto> length ledger) | _ \<Rightarrow> at)) ledger Map.empty"

definition armedCursors :: "ledger_slot list \<Rightarrow> cursors" where
  "armedCursors ledger =
     \<lparr>c_read = armed_at ledger, c_delivered = armed_at ledger, c_pickups = Map.empty, c_telegram = None\<rparr>"

text \<open>The result of reading and the file as the read leaves it.\<close>

definition loadCursors :: "ledger_slot list \<Rightarrow> cursor_file \<Rightarrow> (cursors_error + cursors) \<times> cursor_file" where
  "loadCursors ledger file = (case file of
      FileMissing \<Rightarrow> (Inr (armedCursors ledger), FileStored (armedCursors ledger))
    | FileUnreadable reason \<Rightarrow> (Inl (CursorsUnreadable reason), file)
    | FileStored cs \<Rightarrow> (Inr cs, file))"

definition furthest :: "(string \<rightharpoonup> nat) \<Rightarrow> (string \<rightharpoonup> nat) \<Rightarrow> (string \<rightharpoonup> nat)" where
  "furthest a b = (\<lambda>k. case b k of None \<Rightarrow> a k | Some at \<Rightarrow> Some (max (nullish (a k) 0) at))"

definition commitCursors ::
  "ledger_slot list \<Rightarrow> (cursors \<Rightarrow> cursors) \<Rightarrow> cursor_file \<Rightarrow> (cursors_error + unit) \<times> cursor_file" where
  "commitCursors ledger change file = (case loadCursors ledger file of
      (Inl e, file') \<Rightarrow> (Inl e, file')
    | (Inr fresh, file') \<Rightarrow> (Inr (), FileStored (change fresh)))"

definition saveCursors ::
  "ledger_slot list \<Rightarrow> cursors \<Rightarrow> cursor_file \<Rightarrow> (cursors_error + unit) \<times> cursor_file" where
  "saveCursors ledger c = commitCursors ledger (\<lambda>fresh. c\<lparr>c_read := furthest (c_read fresh) (c_read c)\<rparr>)"

definition markRead ::
  "ledger_slot list \<Rightarrow> managed_peer \<Rightarrow> nat \<Rightarrow> cursor_file \<Rightarrow> (cursors_error + unit) \<times> cursor_file" where
  "markRead ledger recipient ledgerLen = commitCursors ledger (\<lambda>fresh.
     fresh\<lparr>c_read := furthest (c_read fresh) [managedPeerKey recipient \<mapsto> ledgerLen]\<rparr>)"

subsection \<open>Arming at the present\<close>

lemma armed_fold:
  "fold (\<lambda>slot at. case slot of
       None \<Rightarrow> at
     | Some msg \<Rightarrow> (case m_to msg of
          ToManaged p \<Rightarrow> at(managedPeerKey p \<mapsto> (n::nat)) | _ \<Rightarrow> at)) slots at0 k =
   (if \<exists>msg p. Some msg \<in> set slots \<and> m_to msg = ToManaged p \<and> managedPeerKey p = k
    then Some n else at0 k)"
proof (induction slots arbitrary: at0)
  case Nil
  then show ?case by simp
next
  case (Cons slot slots)
  show ?case
  proof (cases slot)
    case None
    with Cons.IH [of at0] show ?thesis by simp
  next
    case (Some msg)
    show ?thesis
      by (cases "m_to msg") (use Some Cons.IH in \<open>auto\<close>)
  qed
qed

lemma armed_at_eq:
  "armed_at ledger k =
     (if \<exists>msg p. Some msg \<in> set ledger \<and> m_to msg = ToManaged p \<and> managedPeerKey p = k
      then Some (length ledger) else None)"
  by (simp add: armed_at_def armed_fold)

text \<open>A letter already in the ledger when the cursors are armed is never injected again.\<close>

lemma armed_nothing_pending:
  assumes "ledger ! j = Some m" "j < length ledger" "m_to m = ToManaged p" "\<not> isConditional m"
  shows "letterState m j acks (armedCursors ledger) = Settled AckDelivered"
proof -
  have "Some m \<in> set ledger" using assms(1,2) by (metis nth_mem)
  then have "armed_at ledger (managedPeerKey p) = Some (length ledger)"
    using assms(3) by (auto simp: armed_at_eq)
  then show ?thesis using assms by (simp add: letterState_def armedCursors_def chatTargetKey.simps)
qed

subsection \<open>Read positions only move forward\<close>

definition at_most :: "(string \<rightharpoonup> nat) \<Rightarrow> (string \<rightharpoonup> nat) \<Rightarrow> bool" where
  "at_most a b = (\<forall>k. nullish (a k) 0 \<le> nullish (b k) 0)"

lemma furthest_upper: "at_most a (furthest a b)" "at_most b (furthest a b)"
  by (auto simp: at_most_def furthest_def split: option.splits)

lemma furthest_least: "at_most a c \<Longrightarrow> at_most b c \<Longrightarrow> at_most (furthest a b) c"
  by (auto simp: at_most_def furthest_def split: option.splits) (metis nullish_simps(2))

lemma furthest_lookup:
  "nullish (furthest a b k) 0 = max (nullish (a k) 0) (nullish (b k) 0)"
  by (simp add: furthest_def split: option.splits)

text \<open>
  The file as the two writers move it.  An unreadable file stays as it is, and the read position of
  every recipient is at least what it was.
\<close>

fun file_le :: "cursor_file \<Rightarrow> cursor_file \<Rightarrow> bool" where
  "file_le FileMissing _ = True"
| "file_le (FileUnreadable r) f = (f = FileUnreadable r)"
| "file_le (FileStored a) (FileStored b) = at_most (c_read a) (c_read b)"
| "file_le (FileStored a) _ = False"

text \<open>
  Every process that writes the file: the daemon saving the cursors it has held for a pass, however
  old they are, and an \<open>inbox\<close> marking its recipient's mail as read.
\<close>

datatype cursor_op = DaemonSave "ledger_slot list" cursors | InboxMarkRead "ledger_slot list" managed_peer nat
  | ReadCursors "ledger_slot list"

fun cursor_step :: "cursor_op \<Rightarrow> cursor_file \<Rightarrow> cursor_file" where
  "cursor_step (DaemonSave ledger c) f = snd (saveCursors ledger c f)"
| "cursor_step (InboxMarkRead ledger p n) f = snd (markRead ledger p n f)"
| "cursor_step (ReadCursors ledger) f = snd (loadCursors ledger f)"

lemma commit_cases:
  "snd (commitCursors ledger change f) = (case f of
      FileMissing \<Rightarrow> FileStored (change (armedCursors ledger))
    | FileUnreadable r \<Rightarrow> f | FileStored cs \<Rightarrow> FileStored (change cs))"
  by (simp add: commitCursors_def loadCursors_def split: cursor_file.splits)

interpretation cursor_file: monotone_machine cursor_step file_le
proof
  show "file_le s s" for s by (cases s) (simp_all add: at_most_def)
  show "file_le s t \<Longrightarrow> file_le t u \<Longrightarrow> file_le s u" for s t u
    by (cases s; cases t; cases u) (auto simp: at_most_def intro: le_trans)
  show "file_le s (cursor_step e s)" for s e
    by (cases e; cases s)
      (simp_all add: saveCursors_def markRead_def commit_cases furthest_lookup loadCursors_def
        at_most_def)
qed

lemma markRead_position:
  assumes "f = FileStored cs"
  shows "\<exists>cs'. snd (markRead ledger p n f) = FileStored cs'
     \<and> n \<le> nullish (c_read cs' (managedPeerKey p)) 0
     \<and> c_delivered cs' = c_delivered cs \<and> c_pickups cs' = c_pickups cs"
  using assms by (simp add: markRead_def commit_cases furthest_lookup)

end
