(* ===== verification/TurnState.thy ===== *)
theory TurnState
  imports Prelude
begin

text \<open>
  Whether a session is between turns (\<open>src/chat/turnState.ts\<close>), and the live state every snapshot
  consumer shows (\<open>resolveLiveState\<close> of \<open>src/session/status.ts\<close>).  Pure decisions over facts the
  caller has gathered; durations are milliseconds.
\<close>

definition SETTLE_MS :: int where "SETTLE_MS = 6000"
definition INTERRUPTED_MS :: int where "INTERRUPTED_MS = 60000"

datatype turn_why =
  Working | NotDrawn | AtMenu | InputOccupied | UnknownPane | AwaitingPickup | Settling
| QuietUnproven | TurnEnded | IdleAfterInterrupt | NeverSpoke

datatype pane_block = BlockInputOccupied | BlockUnknownPane

fun block_why :: "pane_block \<Rightarrow> turn_why" where
  "block_why BlockInputOccupied = InputOccupied"
| "block_why BlockUnknownPane = UnknownPane"

record turn_facts =
  paneWorking :: bool
  paneReady :: bool
  atMenu :: bool
  paneBlock :: "pane_block option"
  endedOnAssistantText :: bool
  msSinceActivity :: "int option"

record turn_state =
  settled :: bool
  why :: turn_why

definition turn :: "bool \<Rightarrow> turn_why \<Rightarrow> turn_state" where
  "turn b w = \<lparr>settled = b, why = w\<rparr>"

definition turnState :: "turn_facts \<Rightarrow> turn_state" where
  "turnState f =
     (if paneWorking f then turn False Working
      else if \<not> paneReady f then turn False NotDrawn
      else if atMenu f then turn False AtMenu
      else case paneBlock f of Some b \<Rightarrow> turn False (block_why b)
      | None \<Rightarrow>
        (case msSinceActivity f of
           None \<Rightarrow> turn True NeverSpoke
         | Some ms \<Rightarrow>
             (if endedOnAssistantText f
              then (if ms \<ge> SETTLE_MS then turn True TurnEnded else turn False Settling)
              else if ms \<ge> INTERRUPTED_MS then turn True IdleAfterInterrupt
              else turn False QuietUnproven)))"

subsection \<open>Transcript messages\<close>

datatype role = RoleUser | RoleAssistant | RoleSystem | RoleTool
datatype record_kind = KindMessage | KindToolCall | KindToolResult | KindThinking

record transcript_message =
  tm_role :: role
  tm_kind :: record_kind
  tm_text :: "string option"

definition assistantEndedCurrentTurn ::
  "transcript_message option \<Rightarrow> int option \<Rightarrow> int option \<Rightarrow> bool" where
  "assistantEndedCurrentTurn message transcriptMs turnStartedMs =
     (case message of None \<Rightarrow> False
      | Some t \<Rightarrow> tm_role t = RoleAssistant \<and> tm_kind t = KindMessage \<and>
          (case turnStartedMs of None \<Rightarrow> True
           | Some started \<Rightarrow> (case transcriptMs of None \<Rightarrow> False | Some at \<Rightarrow> at \<ge> started)))"

subsection \<open>Live state\<close>

datatype live_state = LiveWorking | LiveIdle

datatype pane_state = PaneWorking | PaneIdle | PaneUnknown

record lifecycle =
  lc_state :: live_state
  lc_ts :: int
  lc_event :: string

definition resolveLiveState :: "pane_state \<Rightarrow> lifecycle option \<Rightarrow> turn_state option \<Rightarrow> live_state" where
  "resolveLiveState paneState lc evidence =
     (if paneState = PaneWorking then LiveWorking
      else if paneState = PaneIdle then LiveIdle
      else case lc of
        Some l \<Rightarrow>
          (if lc_state l = LiveWorking
           then (if map_option settled evidence = Some True then LiveIdle else LiveWorking)
           else if lc_event l = ''Stop'' then LiveIdle
           else if map_option why evidence \<in> {Some Working, Some Settling, Some QuietUnproven}
           then LiveWorking else LiveIdle)
      | None \<Rightarrow>
          (if map_option why evidence \<in> {Some Working, Some Settling, Some QuietUnproven}
           then LiveWorking else LiveIdle))"

subsection \<open>Facts about the decision\<close>

text \<open>A turn is settled for one of three reasons, and none of the pane's gates may be closed.\<close>

lemma turnState_settled_iff:
  "settled (turnState f) \<longleftrightarrow>
     \<not> paneWorking f \<and> paneReady f \<and> \<not> atMenu f \<and> paneBlock f = None \<and>
     (case msSinceActivity f of None \<Rightarrow> True
      | Some ms \<Rightarrow> ms \<ge> (if endedOnAssistantText f then SETTLE_MS else INTERRUPTED_MS))"
  by (auto simp: turnState_def turn_def split: option.splits)

lemma turnState_why:
  "settled (turnState f) \<longleftrightarrow> why (turnState f) \<in> {TurnEnded, IdleAfterInterrupt, NeverSpoke}"
  by (auto simp: turnState_def turn_def split: option.splits pane_block.splits
        elim!: block_why.elims)

text \<open>Silence is evidence: more of it never unsettles a turn.\<close>

lemma turnState_mono:
  assumes "settled (turnState (f\<lparr>msSinceActivity := Some ms\<rparr>))" "ms \<le> ms'"
  shows "settled (turnState (f\<lparr>msSinceActivity := Some ms'\<rparr>))"
  using assms by (auto simp: turnState_settled_iff split: if_splits)

text \<open>
  Every turn ends for the readers: with the pane quiet, one minute of silence settles it however
  the transcript ended.
\<close>

lemma turnState_eventually:
  assumes "\<not> paneWorking f" "paneReady f" "\<not> atMenu f" "paneBlock f = None"
    and "msSinceActivity f = Some ms" "ms \<ge> INTERRUPTED_MS"
  shows "settled (turnState f)"
  using assms by (auto simp: turnState_settled_iff SETTLE_MS_def INTERRUPTED_MS_def)

end
