(* ===== verification/TurnProgress.thy ===== *)
theory TurnProgress
  imports Cursors TurnState
begin

text \<open>
  Whether a recipient has picked up an injected letter and answered it (\<open>src/chat/turnProgress.ts\<close>),
  and the two halves of the pickup protocol: \<open>armPickup\<close>, stored before anything is typed, and
  \<open>finishPickup\<close>, which settles the letter once the transcript has proved it.
\<close>

datatype turn_progress = ProgAwaitingPickup | ProgRunning | ProgAnswered | ProgInterrupted

definition pickup_marker :: "string \<Rightarrow> string" where
  "pickup_marker messageId = ''id: '' @ messageId"

definition text_includes :: "transcript_message \<Rightarrow> string \<Rightarrow> bool" where
  "text_includes t s = (case tm_text t of None \<Rightarrow> False | Some txt \<Rightarrow> sublist s txt)"

definition carries_marker :: "string \<Rightarrow> transcript_message \<Rightarrow> bool" where
  "carries_marker marker t = (tm_role t = RoleUser \<and> tm_kind t = KindMessage \<and> text_includes t marker)"

fun progress_loop ::
  "string \<Rightarrow> bool \<Rightarrow> transcript_message option \<Rightarrow> transcript_message list \<Rightarrow> bool \<times> transcript_message option" where
  "progress_loop marker pickedUp lastAfter [] = (pickedUp, lastAfter)"
| "progress_loop marker pickedUp lastAfter (t # ts) =
     (if \<not> pickedUp \<and> carries_marker marker t then progress_loop marker True lastAfter ts
      else if pickedUp then progress_loop marker pickedUp (Some t) ts
      else progress_loop marker pickedUp lastAfter ts)"

definition chatTurnProgressFromMessages :: "transcript_message list \<Rightarrow> string \<Rightarrow> turn_progress" where
  "chatTurnProgressFromMessages messages messageId =
     (case progress_loop (pickup_marker messageId) False None messages of
        (pickedUp, lastAfter) \<Rightarrow>
          (if \<not> pickedUp then ProgAwaitingPickup
           else case lastAfter of
             None \<Rightarrow> ProgRunning
           | Some t \<Rightarrow>
               (if tm_role t = RoleSystem \<and> text_includes t ''<turn_aborted>'' then ProgInterrupted
                else if tm_role t = RoleAssistant \<and> tm_kind t = KindMessage then ProgAnswered
                else ProgRunning)))"

text \<open>A read from a line: the transcript's line count and the messages from that line on.\<close>

definition pickupProgressFrom ::
  "(nat \<Rightarrow> nat \<times> transcript_message list) \<Rightarrow> string \<Rightarrow> nat option \<Rightarrow> turn_progress" where
  "pickupProgressFrom readFrom messageId transcriptLine =
     (let from = nullish transcriptLine 0;
          first = readFrom from;
          final = (if fst first < from then readFrom 0 else first)
      in chatTurnProgressFromMessages (snd final) messageId)"

definition armPickup ::
  "cursors \<Rightarrow> string \<Rightarrow> chat_message \<Rightarrow> nat \<Rightarrow> stamp \<Rightarrow> nat option \<Rightarrow> native_binding option \<Rightarrow> cursors" where
  "armPickup cs key msg idx injectedAt line native =
     (let conditional = isConditional msg;
          cs1 = cs\<lparr>c_pickups := (c_pickups cs)(key \<mapsto>
            \<lparr>pk_message = m_id msg, pk_injectedAt = injectedAt, pk_index = Some idx,
             pk_conditional = conditional, pk_line = line, pk_native = native\<rparr>)\<rparr>
      in if conditional then cs1
         else cs1\<lparr>c_delivered := (c_delivered cs1)(key \<mapsto> idx + 1),
                  c_read := (c_read cs1)(key \<mapsto> max (nullish (c_read cs1 key) 0) (idx + 1))\<rparr>)"

text \<open>The acks as appended, and the cursors as saved by the final \<open>saveCursors\<close>.\<close>

definition finishPickup ::
  "ack_line list \<Rightarrow> cursors \<Rightarrow> string \<Rightarrow> ack_line list \<times> cursors" where
  "finishPickup acks cs key =
     (case c_pickups cs key of
        None \<Rightarrow> (acks, cs)
      | Some p \<Rightarrow>
          (let (acks', cs1) =
             (if pk_conditional p then (appendAck acks (pk_message p) ByDaemon, cs)
              else case pk_index p of
                None \<Rightarrow> (acks, cs)
              | Some i \<Rightarrow> (acks,
                  cs\<lparr>c_delivered := (c_delivered cs)(key \<mapsto> max (nullish (c_delivered cs key) 0) (i + 1)),
                     c_read := (c_read cs)(key \<mapsto> max (nullish (c_read cs key) 0) (i + 1))\<rparr>))
           in (acks', cs1\<lparr>c_pickups := (c_pickups cs1)(key := None)\<rparr>)))"

subsection \<open>Reading from the injection line loses nothing\<close>

lemma progress_loop_skip:
  "\<forall>t\<in>set before. \<not> carries_marker marker t \<Longrightarrow>
     progress_loop marker False lastAfter (before @ rest) = progress_loop marker False lastAfter rest"
  by (induction before) auto

lemma progress_loop_picked:
  "progress_loop marker True lastAfter ts = (True, if ts = [] then lastAfter else Some (last ts))"
  by (induction ts arbitrary: lastAfter) auto

text \<open>
  A transcript is a list of lines, each with its messages.  Reading from line \<open>from\<close> instead of the
  whole history gives the same answer whenever no earlier line carries the letter's id, and a
  transcript that was rewritten shorter than that line is searched whole.
\<close>

definition lines_read :: "transcript_message list list \<Rightarrow> nat \<Rightarrow> nat \<times> transcript_message list" where
  "lines_read lines from = (length lines, concat (drop from lines))"

lemma pickupProgressFrom_eq_full:
  assumes "from \<le> length lines \<Longrightarrow>
      \<forall>t\<in>set (concat (take from lines)). \<not> carries_marker (pickup_marker i) t"
  shows "pickupProgressFrom (lines_read lines) i (Some from)
       = chatTurnProgressFromMessages (concat lines) i"
proof (cases "length lines < from")
  case True
  then show ?thesis by (simp add: pickupProgressFrom_def lines_read_def Let_def)
next
  case False
  then have le: "from \<le> length lines" by simp
  have split: "concat lines = concat (take from lines) @ concat (drop from lines)"
    by (metis append_take_drop_id concat_append)
  have "progress_loop (pickup_marker i) False None (concat lines)
      = progress_loop (pickup_marker i) False None (concat (drop from lines))"
    by (subst split) (rule progress_loop_skip [OF assms [OF le]])
  with False show ?thesis
    by (simp add: pickupProgressFrom_def lines_read_def Let_def chatTurnProgressFromMessages_def)
qed

text \<open>What an answer is: the letter was picked up and the last record after it is assistant text.\<close>

lemma progress_answered_iff:
  assumes "\<forall>t\<in>set before. \<not> carries_marker (pickup_marker i) t" "carries_marker (pickup_marker i) t0"
  shows "chatTurnProgressFromMessages (before @ t0 # after) i = ProgAnswered
     \<longleftrightarrow> after \<noteq> [] \<and> tm_role (last after) = RoleAssistant \<and> tm_kind (last after) = KindMessage"
proof -
  have "progress_loop (pickup_marker i) False None (before @ t0 # after)
      = (True, if after = [] then None else Some (last after))"
    using assms by (simp add: progress_loop_skip progress_loop_picked)
  then show ?thesis by (auto simp: chatTurnProgressFromMessages_def)
qed

subsection \<open>The pickup protocol\<close>

lemma armPickup_frame:
  "k \<noteq> key \<Longrightarrow> c_delivered (armPickup cs key msg idx at line nb) k = c_delivered cs k
     \<and> c_read (armPickup cs key msg idx at line nb) k = c_read cs k
     \<and> c_pickups (armPickup cs key msg idx at line nb) k = c_pickups cs k"
  "c_telegram (armPickup cs key msg idx at line nb) = c_telegram cs"
  by (simp_all add: armPickup_def Let_def)

lemma armPickup_pickup:
  "c_pickups (armPickup cs key msg idx at line nb) key = Some
     \<lparr>pk_message = m_id msg, pk_injectedAt = at, pk_index = Some idx,
      pk_conditional = isConditional msg, pk_line = line, pk_native = nb\<rparr>"
  by (simp add: armPickup_def Let_def)

lemma finishPickup_clears: "c_pickups (snd (finishPickup acks cs key)) key = None"
  by (auto simp: finishPickup_def Let_def split: option.splits)

text \<open>
  Arming and then finishing settles exactly the letter that was armed: an immediate one by its
  recipient's cursor standing just past it, a conditional one by its id in the ack log.
\<close>

lemma arm_finish_immediate:
  assumes "\<not> isConditional msg" "finishPickup acks (armPickup cs key msg idx at line nb) key = (acks', cs')"
  shows "acks' = acks" "c_delivered cs' = (c_delivered cs)(key \<mapsto> idx + 1)"
    "nullish (c_read cs' key) 0 = max (nullish (c_read cs key) 0) (idx + 1)"
  using assms by (auto simp: finishPickup_def armPickup_def Let_def)

lemma arm_finish_conditional:
  assumes "isConditional msg" "finishPickup acks (armPickup cs key msg idx at line nb) key = (acks', cs')"
  shows "loadAcks acks' = (loadAcks acks)(m_id msg \<mapsto> AckDelivered)" "c_delivered cs' = c_delivered cs"
    "c_read cs' = c_read cs"
  using assms by (auto simp: finishPickup_def armPickup_def Let_def)

end
