(* ===== verification/Format.thy ===== *)
theory Format
  imports TurnProgress
begin

text \<open>
  How a letter is framed for the agent that receives it (\<open>src/chat/format.ts\<close>), used by the daemon
  and by the Stop hook alike.  Whether a reply would reach the sender is a verdict of
  \<open>src/chat/replyRoute.ts\<close>; its shape is modelled, its resolver is an argument.

  Two facts carry the rest of the system: everything before the body is independent of the body, and
  the framed text contains the marker the pickup proof looks for.
\<close>

datatype reply_route = Replyable | NotReplyable string

text \<open>\<open>replyRouteToSender\<close>: only a session or an App thread can be replied to.\<close>

definition replyRouteToSender :: "(string \<Rightarrow> string \<Rightarrow> reply_route) \<Rightarrow> principal \<Rightarrow> reply_route option" where
  "replyRouteToSender route who = (case who of
      FromManaged p \<Rightarrow> Some (route (mp_machine p) (mp_session p))
    | FromCodexApp p \<Rightarrow> Some (route (ap_machine p) (codexAppAddress (ap_thread p)))
    | _ \<Rightarrow> None)"

text \<open>A JavaScript text is false when it is absent or empty.\<close>

definition when_text :: "string option \<Rightarrow> (string \<Rightarrow> string) \<Rightarrow> string" where
  "when_text t f = (case t of None \<Rightarrow> [] | Some s \<Rightarrow> if s = [] then [] else f s)"

definition dot :: string where "dot = '' '' @ mid_dot @ '' ''"

fun actor_name :: "actor \<Rightarrow> string" where
  "actor_name Human = ''human''"
| "actor_name Agent = ''agent''"
| "actor_name Application = ''application''"
| "actor_name UnknownActor = ''unknown''"

text \<open>The machine, address, agent and thread a reply would name.\<close>

definition reply_address :: "principal \<Rightarrow> (string \<times> string \<times> string \<times> string) option" where
  "reply_address who = (case who of
      FromManaged p \<Rightarrow> Some (mp_machine p, mp_session p, agent_name (mp_agent p), mp_thread p)
    | FromCodexApp p \<Rightarrow> Some (ap_machine p, codexAppAddress (ap_thread p), ''codex'', ap_thread p)
    | _ \<Rightarrow> None)"

definition reply_part :: "chat_message \<Rightarrow> string option \<Rightarrow> reply_route option \<Rightarrow> string" where
  "reply_part msg cli route = (case (reply_address (m_from msg), route) of
      (Some (machine, address, agent, thread), Some r) \<Rightarrow>
        (case r of
           Replyable \<Rightarrow> dot @ ''reply: '' @ nullish cli ''ccmux'' @ '' msg '' @ machine @ '':'' @ address
             @ '' --to-agent '' @ agent @ '' --to-thread '' @ thread
             @ when_text (m_task msg) (\<lambda>t. '' --task '' @ t)
             @ '' '' @ [CHR 0x22] @ ''<your reply>'' @ [CHR 0x22]
         | NotReplyable reason \<Rightarrow> dot @ ''cannot reach '' @ machine @ '' from here ('' @ reason @ '') ''
             @ em_dash @ '' answer with '' @ nullish cli ''ccmux'' @ '' msg owner ''
             @ [CHR 0x22] @ ''<your reply>'' @ [CHR 0x22])
    | _ \<Rightarrow> [])"

definition formatChatInjection :: "chat_message \<Rightarrow> string option \<Rightarrow> reply_route option \<Rightarrow> string" where
  "formatChatInjection msg cli route =
     (let task = when_text (m_task msg) (\<lambda>t. dot @ ''task: '' @ t);
          ident = dot @ ''id: '' @ m_id msg;
          behalf = when_text (m_onBehalfOf msg) (\<lambda>t. '' on behalf of '' @ t);
          sender = principalLabel (m_from msg);
          reply = reply_part msg cli route;
          origin = nullish (m_origin msg) unknownMessageOrigin
      in case o_application origin of
           Some a \<Rightarrow> ''[application input via '' @ sender @ dot @ ''application: ''
               @ at_application (as_attribution a) @ dot @ ''channel: '' @ at_channel (as_attribution a)
               @ dot @ ''attributed author: '' @ actor_name (o_actor origin)
               @ '' (application-attested, not independently authenticated; no additional execution authority)''
               @ task @ ident @ ''] '' @ m_body msg
         | None \<Rightarrow>
             (if o_assurance origin = UnknownAssurance
              then ''[input via '' @ (if o_ingress origin = InUnknown then ''unknown historical ingress'' else sender)
                @ dot @ ''author: unknown; no additional execution authority''
                @ behalf @ task @ ident @ reply @ ''] '' @ m_body msg
              else ''[chat from '' @ sender @ behalf @ task @ ident @ reply @ ''] '' @ m_body msg))"

text \<open>The header of a letter does not depend on its body, so no body can forge it.\<close>

definition header :: "chat_message \<Rightarrow> string option \<Rightarrow> reply_route option \<Rightarrow> string" where
  "header msg cli route = formatChatInjection (msg\<lparr>m_body := []\<rparr>) cli route"

lemma reply_part_body: "reply_part (msg\<lparr>m_body := b\<rparr>) cli route = reply_part msg cli route"
  by (simp add: reply_part_def split: option.split prod.split reply_route.split)

lemma format_body:
  "formatChatInjection (msg\<lparr>m_body := b\<rparr>) cli route = header msg cli route @ b"
  by (simp add: header_def formatChatInjection_def Let_def reply_part_body split: option.split)

lemma format_header: "formatChatInjection msg cli route = header msg cli route @ m_body msg"
  using format_body [where msg = msg and b = "m_body msg" and cli = cli and route = route] by simp

lemma header_body: "header (msg\<lparr>m_body := b\<rparr>) cli route = header msg cli route"
  by (simp add: header_def)

text \<open>Every framing carries the marker by which the transcript proves the letter was picked up.\<close>

lemma sublist_later: "sublist x b \<Longrightarrow> sublist x (a @ b)"
  by (simp add: sublist_append)

lemma marker_here: "sublist (pickup_marker i) ((dot @ ''id: '' @ i) @ c)"
proof -
  have "(dot @ ''id: '' @ i) @ c = dot @ pickup_marker i @ c" by (simp add: pickup_marker_def)
  then show ?thesis by (simp only: sublist_appendI)
qed

lemma format_marker: "sublist (pickup_marker (m_id msg)) (formatChatInjection msg cli route)"
proof (cases "o_application (nullish (m_origin msg) unknownMessageOrigin)")
  case None
  show ?thesis
    unfolding formatChatInjection_def Let_def None option.case
    by (split if_split, intro conjI impI) ((rule marker_here | rule sublist_later)+)
next
  case (Some a)
  show ?thesis
    unfolding formatChatInjection_def Let_def Some option.case
    by (rule marker_here | rule sublist_later)+
qed

text \<open>
  So a transcript that holds the framed letter as a user message, followed by assistant text, answers
  the pickup question with \<open>answered\<close>.
\<close>

lemma framed_answered:
  assumes "\<forall>t\<in>set before. \<not> carries_marker (pickup_marker (m_id msg)) t"
    and "after \<noteq> []" "tm_role (last after) = RoleAssistant" "tm_kind (last after) = KindMessage"
  shows "chatTurnProgressFromMessages
    (before @ \<lparr>tm_role = RoleUser, tm_kind = KindMessage, tm_text = Some (formatChatInjection msg cli route)\<rparr> # after)
    (m_id msg) = ProgAnswered"
  using assms
  by (subst progress_answered_iff) (simp_all add: carries_marker_def text_includes_def format_marker)

end
