(* ===== verification/Registry.thy ===== *)
theory Registry
  imports Identity
begin

text \<open>
  The session registry of one machine: the ready rows (\<open>src/session/readyStore.ts\<close>), the pending
  create transactions that double as a promotion journal (\<open>pendingStore.ts\<close>, \<open>promotion.ts\<close>,
  \<open>pending.ts\<close>), and every locked operation over them (\<open>registry.ts\<close>).

  The lock \<open>withSessionRegistryLock\<close> makes an operation atomic for other operations, so each is a
  function of the stored registry.  A process may still die between two file writes: operations that
  write more than one file are given as the list of their writes, so that every prefix of it is a
  state the next reader can find.  The rows are values the schemas admit; a field no registry rule
  reads is kept as its JSON text.
\<close>

datatype runtime_mode = Tui | AppServer | Native

record native_session =
  ns_runtime :: agent_kind
  ns_id :: string

record session_body =
  sb_name :: string
  sb_dir :: string
  sb_generation :: "string option"
  sb_flags :: "string list"
  sb_archived :: bool
  sb_resumeText :: string
  sb_agent :: agent_kind
  sb_runtime :: "runtime_mode option"
  sb_native :: "native_session option"
  sb_permissionMode :: "string option"
  sb_chatEnabled :: "bool option"
  sb_promptModules :: "string list"
  sb_envFile :: "string option"
  sb_launchRecipe :: "string option"
  sb_modelSelection :: "string option"
  sb_noInference :: bool
  sb_policy :: "string option"
  sb_delegation :: "string option"
  sb_eventsEnabled :: "bool option"
  sb_fileCheckpoints :: "bool option"
  sb_role :: "string option"

record session =
  s_uuid :: string
  s_body :: session_body

abbreviation s_name :: "session \<Rightarrow> string" where "s_name s \<equiv> sb_name (s_body s)"
abbreviation s_generation :: "session \<Rightarrow> string option" where "s_generation s \<equiv> sb_generation (s_body s)"
abbreviation s_agent :: "session \<Rightarrow> agent_kind" where "s_agent s \<equiv> sb_agent (s_body s)"
abbreviation s_archived :: "session \<Rightarrow> bool" where "s_archived s \<equiv> sb_archived (s_body s)"
abbreviation s_native :: "session \<Rightarrow> native_session option" where "s_native s \<equiv> sb_native (s_body s)"

datatype pending_operation = OpCreate | OpAdopt string | OpFork string
datatype pending_status = StPending | StBlocked | StPromoted

record pending =
  p_generation :: string
  p_marker :: string
  p_operation :: pending_operation
  p_session :: session_body
  p_createdAt :: stamp
  p_status :: pending_status
  p_error :: "string option"
  p_uuid :: "string option"

abbreviation p_name :: "pending \<Rightarrow> string" where "p_name p \<equiv> sb_name (p_session p)"

record registry =
  r_ready :: "session list"
  r_pending :: "pending list"

datatype registry_error =
  NameConflict string | UuidConflict string | AlreadyInRegistry string | PendingTransaction string
| UuidManaged string | NameExists string | PromotionGone | NameClaimed | ThreadClaimed
| ConversationRegistered | InvalidRow

datatype reg_write = WriteReady "session list" | WritePending "pending list"

fun apply_write :: "reg_write \<Rightarrow> registry \<Rightarrow> registry" where
  "apply_write (WriteReady rows) r = r\<lparr>r_ready := rows\<rparr>"
| "apply_write (WritePending rows) r = r\<lparr>r_pending := rows\<rparr>"

definition apply_writes :: "reg_write list \<Rightarrow> registry \<Rightarrow> registry" where
  "apply_writes ws r = fold apply_write ws r"

subsection \<open>Promotion: the journal and its recovery\<close>

definition promotedSession :: "pending \<Rightarrow> session option" where
  "promotedSession p =
     (if p_status p \<noteq> StPromoted then None
      else case p_uuid p of None \<Rightarrow> None
        | Some u \<Rightarrow> Some \<lparr>s_uuid = u, s_body = (p_session p)\<lparr>sb_generation := Some (p_generation p)\<rparr>\<rparr>)"

definition find_session :: "session list \<Rightarrow> string \<Rightarrow> session option" where
  "find_session rows n = List.find (\<lambda>s. s_name s = n) rows"

text \<open>The read view: promoted journal rows already count as ready.\<close>

fun load_loop :: "pending list \<Rightarrow> session list \<Rightarrow> registry_error + session list" where
  "load_loop [] ready = Inr ready"
| "load_loop (row # rest) ready =
     (case promotedSession row of
        None \<Rightarrow> load_loop rest ready
      | Some promoted \<Rightarrow>
          (case find_session ready (s_name promoted) of
             Some byName \<Rightarrow>
               (if s_uuid byName \<noteq> s_uuid promoted \<or> s_generation byName \<noteq> s_generation promoted
                then Inl (NameConflict (s_name promoted))
                else load_loop rest ready)
           | None \<Rightarrow>
               (if s_uuid promoted \<in> s_uuid ` set ready then Inl (UuidConflict (s_uuid promoted))
                else load_loop rest (ready @ [promoted]))))"

definition loadRegistrySessions :: "registry \<Rightarrow> registry_error + session list" where
  "loadRegistrySessions r = load_loop (r_pending r) (r_ready r)"

text \<open>Recovery: the same merge over the promoted sessions, remembering whether a row was added.\<close>

fun recover_loop ::
  "session list \<Rightarrow> session list \<Rightarrow> bool \<Rightarrow> registry_error + (session list \<times> bool)" where
  "recover_loop [] ready changed = Inr (ready, changed)"
| "recover_loop (s # rest) ready changed =
     (case find_session ready (s_name s) of
        Some byName \<Rightarrow>
          (if s_uuid byName \<noteq> s_uuid s \<or> s_generation byName \<noteq> s_generation s
           then Inl (NameConflict (s_name s)) else recover_loop rest ready changed)
      | None \<Rightarrow>
          (if s_uuid s \<in> s_uuid ` set ready then Inl (UuidConflict (s_uuid s))
           else recover_loop rest (ready @ [s]) True))"

definition recover_plan :: "registry \<Rightarrow> registry_error + reg_write list" where
  "recover_plan r =
     (let promoted = List.map_filter promotedSession (r_pending r)
      in if promoted = [] then Inr []
         else bind_result (recover_loop promoted (r_ready r) False) (\<lambda>(ready, changed).
           Inr ((if changed then [WriteReady ready] else [])
                @ [WritePending (filter (\<lambda>p. p_status p \<noteq> StPromoted) (r_pending r))])))"

definition recoverPromotionsUnlocked :: "registry \<Rightarrow> registry_error + registry" where
  "recoverPromotionsUnlocked r = bind_result (recover_plan r) (\<lambda>ws. Inr (apply_writes ws r))"

definition promotedPending :: "pending \<Rightarrow> string \<Rightarrow> pending" where
  "promotedPending p u = p\<lparr>p_status := StPromoted, p_uuid := Some u\<rparr>"

subsection \<open>Locked operations on ready rows\<close>

text \<open>
  Every operation recovers first and then works on the read view.  \<open>locked r f\<close> is that prologue:
  \<open>f\<close> gets the recovered registry and its sessions, and an error leaves what recovery wrote.
\<close>

definition locked ::
  "registry \<Rightarrow> (registry \<Rightarrow> session list \<Rightarrow> registry_error + ('a \<times> registry))
     \<Rightarrow> (registry_error + 'a) \<times> registry" where
  "locked r f = (case recoverPromotionsUnlocked r of
      Inl e \<Rightarrow> (Inl e, r)
    | Inr r' \<Rightarrow> (case bind_result (loadRegistrySessions r') (f r') of
        Inl e \<Rightarrow> (Inl e, r')
      | Inr (a, r'') \<Rightarrow> (Inr a, r'')))"

definition appendSession :: "session \<Rightarrow> registry \<Rightarrow> (registry_error + unit) \<times> registry" where
  "appendSession s r = locked r (\<lambda>r' current.
     if find_session current (s_name s) \<noteq> None then Inl (AlreadyInRegistry (s_name s))
     else if s_name s \<in> p_name ` set (r_pending r') then Inl (PendingTransaction (s_name s))
     else if s_uuid s \<in> s_uuid ` set current then Inl (UuidManaged (s_uuid s))
     else Inr ((), r'\<lparr>r_ready := current @ [s]\<rparr>))"

definition map_named :: "string \<Rightarrow> (session \<Rightarrow> session) \<Rightarrow> session list \<Rightarrow> session list" where
  "map_named n change rows = map (\<lambda>s. if s_name s = n then change s else s) rows"

definition updateSessionUuid :: "string \<Rightarrow> string \<Rightarrow> registry \<Rightarrow> (registry_error + bool) \<times> registry" where
  "updateSessionUuid n u r = locked r (\<lambda>r' current.
     if find_session current n = None then Inr (False, r')
     else if \<exists>s\<in>set current. s_name s \<noteq> n \<and> s_uuid s = u then Inl (UuidManaged u)
     else Inr (True, r'\<lparr>r_ready := map_named n (\<lambda>s. s\<lparr>s_uuid := u\<rparr>) current\<rparr>))"

definition updateSession ::
  "string \<Rightarrow> (session_body \<Rightarrow> session_body) \<Rightarrow> registry \<Rightarrow> (registry_error + bool) \<times> registry" where
  "updateSession n change r = locked r (\<lambda>r' current.
     if find_session current n = None then Inr (False, r')
     else Inr (True, r'\<lparr>r_ready := map_named n (\<lambda>s. s\<lparr>s_body := change (s_body s)\<rparr>) current\<rparr>))"

definition setSessionPermissionMode where
  "setSessionPermissionMode n (mode :: string option) = updateSession n (\<lambda>b. b\<lparr>sb_permissionMode := mode\<rparr>)"

definition setSessionDir where
  "setSessionDir n dir = updateSession n (\<lambda>b. b\<lparr>sb_dir := dir\<rparr>)"

definition setSessionChatEnabled where
  "setSessionChatEnabled n (enabled :: bool option) = updateSession n (\<lambda>b. b\<lparr>sb_chatEnabled := enabled\<rparr>)"

definition setSessionEnvFile where
  "setSessionEnvFile n (envFile :: string option) = updateSession n (\<lambda>b. b\<lparr>sb_envFile := envFile\<rparr>)"

definition setSessionRole where
  "setSessionRole n (role :: string option) = updateSession n (\<lambda>b. b\<lparr>sb_role := role\<rparr>)"

text \<open>The modules pass through a \<open>Set\<close>: duplicates go, first occurrences keep their order.\<close>

fun set_order :: "string list \<Rightarrow> string list \<Rightarrow> string list" where
  "set_order seen [] = []"
| "set_order seen (x # xs) = (if x \<in> set seen then set_order seen xs else x # set_order (x # seen) xs)"

definition router_modules :: "bool \<Rightarrow> string list \<Rightarrow> string list" where
  "router_modules on mods =
     (let ms = set_order [] mods
      in if on then (if ''router'' \<in> set ms then ms else ms @ [''router''])
         else filter (\<lambda>x. x \<noteq> ''router'') ms)"

definition setSessionRouter where
  "setSessionRouter n on = updateSession n (\<lambda>b.
     b\<lparr>sb_promptModules := router_modules on (sb_promptModules b),
       sb_chatEnabled := (if on then Some True else sb_chatEnabled b)\<rparr>)"

datatype archive_result = Archived | ArchiveDuplicate | ArchiveMissing

definition archiveSessionExact ::
  "string \<Rightarrow> string \<Rightarrow> registry \<Rightarrow> (registry_error + archive_result) \<times> registry" where
  "archiveSessionExact n u r = locked r (\<lambda>r' current.
     case find_session current n of
       None \<Rightarrow> Inr (ArchiveMissing, r')
     | Some t \<Rightarrow>
         (if s_uuid t \<noteq> u then Inr (ArchiveMissing, r')
          else if s_archived t then Inr (ArchiveDuplicate, r')
          else Inr (Archived, r'\<lparr>r_ready :=
                 map_named n (\<lambda>s. s\<lparr>s_body := (s_body s)\<lparr>sb_archived := True\<rparr>\<rparr>) current\<rparr>)))"

definition without :: "string \<Rightarrow> session list \<Rightarrow> session list" where
  "without n rows = filter (\<lambda>s. s_name s \<noteq> n) rows"

definition removeSession :: "string \<Rightarrow> registry \<Rightarrow> (registry_error + bool) \<times> registry" where
  "removeSession n r = locked r (\<lambda>r' current.
     if find_session current n = None then Inr (False, r')
     else Inr (True, r'\<lparr>r_ready := without n current\<rparr>))"

definition removeSessionIfUuid :: "string \<Rightarrow> string \<Rightarrow> registry \<Rightarrow> (registry_error + bool) \<times> registry" where
  "removeSessionIfUuid n u r = locked r (\<lambda>r' current.
     case find_session current n of
       None \<Rightarrow> Inr (False, r')
     | Some t \<Rightarrow> if s_uuid t \<noteq> u then Inr (False, r') else Inr (True, r'\<lparr>r_ready := without n current\<rparr>))"

definition removeSessionIfGeneration :: "string \<Rightarrow> string \<Rightarrow> registry \<Rightarrow> (registry_error + bool) \<times> registry" where
  "removeSessionIfGeneration n g r = locked r (\<lambda>r' current.
     case find_session current n of
       None \<Rightarrow> Inr (False, r')
     | Some t \<Rightarrow> if s_generation t \<noteq> Some g then Inr (False, r') else Inr (True, r'\<lparr>r_ready := without n current\<rparr>))"

subsection \<open>Locked operations on pending rows\<close>

definition loadPendingSessions :: "registry \<Rightarrow> pending list" where
  "loadPendingSessions r = filter (\<lambda>p. p_status p \<noteq> StPromoted) (r_pending r)"

definition reservePendingSession :: "pending \<Rightarrow> registry \<Rightarrow> (registry_error + unit) \<times> registry" where
  "reservePendingSession p r = locked r (\<lambda>r' sessions.
     if find_session sessions (p_name p) \<noteq> None \<or> p_name p \<in> p_name ` set (r_pending r')
     then Inl (NameExists (p_name p))
     else Inr ((), r'\<lparr>r_pending := r_pending r' @ [p]\<rparr>))"

definition markPendingBlocked :: "string \<Rightarrow> string \<Rightarrow> registry \<Rightarrow> (registry_error + unit) \<times> registry" where
  "markPendingBlocked g err r = (case recoverPromotionsUnlocked r of
      Inl e \<Rightarrow> (Inl e, r)
    | Inr r' \<Rightarrow>
        (if g \<notin> p_generation ` set (r_pending r') then (Inr (), r')
         else (Inr (), r'\<lparr>r_pending := map (\<lambda>p. if p_generation p = g
                 then p\<lparr>p_status := StBlocked, p_error := Some err\<rparr> else p) (r_pending r')\<rparr>)))"

definition removePendingSession :: "string \<Rightarrow> registry \<Rightarrow> (registry_error + unit) \<times> registry" where
  "removePendingSession g r = (case recoverPromotionsUnlocked r of
      Inl e \<Rightarrow> (Inl e, r)
    | Inr r' \<Rightarrow> (Inr (), r'\<lparr>r_pending := filter (\<lambda>p. p_generation p \<noteq> g) (r_pending r')\<rparr>))"

text \<open>
  Promotion.  The checks and the three writes, in order: journal, ready rows, journal cleanup.
  \<open>valid\<close> is \<open>SessionSchema.parse\<close>, which throws on a row the schema does not admit.
\<close>

definition promoted_fields :: "pending \<Rightarrow> native_session option \<Rightarrow> session_body" where
  "promoted_fields target native = (case native of None \<Rightarrow> p_session target
     | Some ns \<Rightarrow> (p_session target)\<lparr>sb_native := Some ns\<rparr>)"

definition promote_plan ::
  "(session \<Rightarrow> bool) \<Rightarrow> string \<Rightarrow> string \<Rightarrow> native_session option \<Rightarrow> registry \<Rightarrow> session list
     \<Rightarrow> registry_error + (session \<times> reg_write list)" where
  "promote_plan valid g u native r sessions =
     (case List.find (\<lambda>p. p_generation p = g \<and> p_status p = StPending) (r_pending r) of
        None \<Rightarrow> Inl PromotionGone
      | Some target \<Rightarrow>
          (if find_session sessions (p_name target) \<noteq> None then Inl NameClaimed
           else if u \<in> s_uuid ` set sessions then Inl ThreadClaimed
           else if native \<noteq> None \<and> native \<in> s_native ` set sessions then Inl ConversationRegistered
           else
             (let fields = promoted_fields target native;
                  ready = \<lparr>s_uuid = u, s_body = fields\<lparr>sb_generation := Some g\<rparr>\<rparr>
              in if \<not> valid ready then Inl InvalidRow
                 else Inr (ready,
                  [WritePending (map (\<lambda>p. if p_generation p = g
                      then promotedPending (p\<lparr>p_session := fields\<rparr>) u else p) (r_pending r)),
                   WriteReady (sessions @ [ready]),
                   WritePending (filter (\<lambda>p. p_generation p \<noteq> g) (r_pending r))]))))"

definition promotePendingSession ::
  "(session \<Rightarrow> bool) \<Rightarrow> string \<Rightarrow> string \<Rightarrow> native_session option \<Rightarrow> registry
     \<Rightarrow> (registry_error + session) \<times> registry" where
  "promotePendingSession valid g u native r = locked r (\<lambda>r' sessions.
     bind_result (promote_plan valid g u native r' sessions) (\<lambda>(ready, ws).
       Inr (ready, apply_writes ws r')))"

end
