(* ===== verification/RegistryInv.thy ===== *)
theory RegistryInv
  imports Registry
begin

text \<open>
  The registry invariant and its preservation: names and conversation uuids are unique among the
  sessions a reader sees, no pending create shares a name with them, and a crash between two file
  writes of a promotion or of its recovery leaves a registry that still satisfies it.
\<close>

subsection \<open>The read view and the recovered registry\<close>

definition promoted_rows :: "registry \<Rightarrow> session list" where
  "promoted_rows r = List.map_filter promotedSession (r_pending r)"

lemma find_session_None_iff: "find_session rows n = None \<longleftrightarrow> n \<notin> s_name ` set rows"
  by (auto simp: find_session_def find_None_iff)

lemma find_session_SomeD: "find_session rows n = Some s \<Longrightarrow> s \<in> set rows \<and> s_name s = n"
  by (auto simp: find_session_def dest: find_SomeD)

lemma load_loop_recover:
  "bind_result (recover_loop (List.map_filter promotedSession rows) ready c) (\<lambda>x. Inr (fst x))
     = load_loop rows ready"
proof (induction rows ready arbitrary: c rule: load_loop.induct)
  case (1 ready)
  then show ?case by (simp add: List.map_filter_def)
next
  case (2 row rest ready)
  then show ?case
    by (auto simp: map_filter_simps split: option.splits)
qed

lemma recover_loop_unchanged:
  "recover_loop ps ready c = Inr (out, False) \<Longrightarrow> \<not> c \<and> out = ready"
  by (induction ps ready c rule: recover_loop.induct) (auto split: option.splits if_splits)

lemma load_loop_none:
  "\<forall>p\<in>set rows. promotedSession p = None \<Longrightarrow> load_loop rows ready = Inr ready"
  by (induction rows ready rule: load_loop.induct) auto

lemma not_promoted [simp]: "p_status p \<noteq> StPromoted \<Longrightarrow> promotedSession p = None"
  by (simp add: promotedSession_def)

text \<open>What recovery stores is the read view, and no promoted row is left.\<close>

definition unpromoted :: "pending list \<Rightarrow> pending list" where
  "unpromoted ps = filter (\<lambda>p. p_status p \<noteq> StPromoted) ps"

lemma recoverPromotions_view:
  "recoverPromotionsUnlocked r = bind_result (loadRegistrySessions r) (\<lambda>rows.
     Inr (if promoted_rows r = [] then r else \<lparr>r_ready = rows, r_pending = unpromoted (r_pending r)\<rparr>))"
proof (cases "promoted_rows r = []")
  case True
  then have "\<forall>p\<in>set (r_pending r). promotedSession p = None"
    by (auto simp: promoted_rows_def List.map_filter_def filter_empty_conv)
  with True show ?thesis
    by (simp add: recoverPromotionsUnlocked_def recover_plan_def promoted_rows_def Let_def
        loadRegistrySessions_def load_loop_none apply_writes_def)
next
  case False
  have "load_loop (r_pending r) (r_ready r)
      = bind_result (recover_loop (promoted_rows r) (r_ready r) False) (\<lambda>x. Inr (fst x))"
    by (simp add: load_loop_recover promoted_rows_def)
  moreover have plan: "recover_plan r = bind_result (recover_loop (promoted_rows r) (r_ready r) False)
      (\<lambda>(ready, changed). Inr ((if changed then [WriteReady ready] else [])
         @ [WritePending (unpromoted (r_pending r))]))"
    using False by (simp add: recover_plan_def promoted_rows_def unpromoted_def Let_def)
  ultimately show ?thesis
    using False
    using recover_loop_unchanged [of "promoted_rows r" "r_ready r" False]
    by (cases "recover_loop (promoted_rows r) (r_ready r) False")
      (auto simp: recoverPromotionsUnlocked_def loadRegistrySessions_def apply_writes_def)
qed

subsection \<open>The invariant\<close>

definition clean_reg :: "session list \<Rightarrow> pending list \<Rightarrow> bool" where
  "clean_reg rows ps =
     (distinct (map s_name rows) \<and> distinct (map s_uuid rows) \<and> distinct (map p_name ps)
      \<and> distinct (map p_generation ps) \<and> s_name ` set rows \<inter> p_name ` set ps = {})"

definition reg_inv :: "registry \<Rightarrow> bool" where
  "reg_inv r = (\<exists>rows. loadRegistrySessions r = Inr rows \<and> clean_reg rows (unpromoted (r_pending r))
     \<and> (\<forall>p\<in>set (r_pending r). p_status p = StPromoted \<longrightarrow> p_uuid p \<noteq> None))"

lemma filter_comm: "filter P (filter Q xs) = filter Q (filter P xs)"
  by (induction xs) auto

definition settled_reg :: "registry \<Rightarrow> bool" where
  "settled_reg r = (clean_reg (r_ready r) (r_pending r) \<and> unpromoted (r_pending r) = r_pending r)"

lemma unpromoted_promoted_rows: "unpromoted ps = ps \<Longrightarrow> List.map_filter promotedSession ps = []"
  by (auto simp: unpromoted_def List.map_filter_def filter_empty_conv filter_id_conv)

lemma settled_load: "settled_reg r \<Longrightarrow> loadRegistrySessions r = Inr (r_ready r)"
  by (auto simp: settled_reg_def loadRegistrySessions_def unpromoted_def filter_id_conv
      intro!: load_loop_none not_promoted)

lemma settled_inv: "settled_reg r \<Longrightarrow> reg_inv r"
  using settled_load [of r]
  by (auto simp: reg_inv_def settled_reg_def unpromoted_def filter_id_conv)

lemma settled_recover: "settled_reg r \<Longrightarrow> recoverPromotionsUnlocked r = Inr r"
  by (simp add: recoverPromotions_view settled_load promoted_rows_def settled_reg_def
      unpromoted_promoted_rows)

lemma inv_recover:
  assumes "reg_inv r"
  obtains r' where "recoverPromotionsUnlocked r = Inr r'" "settled_reg r'"
    "loadRegistrySessions r = Inr (r_ready r')" "loadRegistrySessions r' = Inr (r_ready r')"
    "r_pending r' = unpromoted (r_pending r)"
proof -
  from assms obtain rows where rows: "loadRegistrySessions r = Inr rows"
    "clean_reg rows (unpromoted (r_pending r))"
    "\<forall>p\<in>set (r_pending r). p_status p = StPromoted \<longrightarrow> p_uuid p \<noteq> None"
    by (auto simp: reg_inv_def)
  show thesis
  proof (cases "promoted_rows r = []")
    case True
    with rows(3) have none: "\<forall>p\<in>set (r_pending r). p_status p \<noteq> StPromoted"
      by (fastforce simp: promoted_rows_def List.map_filter_def filter_empty_conv promotedSession_def)
    then have "unpromoted (r_pending r) = r_pending r" by (auto simp: unpromoted_def filter_id_conv)
    moreover have "rows = r_ready r"
      using rows(1) none by (simp add: loadRegistrySessions_def load_loop_none)
    ultimately show thesis
      using that [of r] True rows by (simp add: recoverPromotions_view settled_reg_def)
  next
    case False
    let ?r = "\<lparr>r_ready = rows, r_pending = unpromoted (r_pending r)\<rparr>"
    have "settled_reg ?r" using rows(2) by (simp add: settled_reg_def unpromoted_def)
    with False rows show thesis
      using that [of ?r] by (simp add: recoverPromotions_view settled_load)
  qed
qed

text \<open>The prologue of an operation hands a settled registry to the operation.\<close>

lemma locked_inv:
  assumes inv: "reg_inv r"
    and op: "\<And>r' a r''. settled_reg r' \<Longrightarrow> r_pending r' = unpromoted (r_pending r)
      \<Longrightarrow> f r' (r_ready r') = Inr (a, r'') \<Longrightarrow> settled_reg r''"
  shows "reg_inv (snd (locked r f))"
proof -
  obtain r' where r': "recoverPromotionsUnlocked r = Inr r'" "settled_reg r'"
    "loadRegistrySessions r' = Inr (r_ready r')" "r_pending r' = unpromoted (r_pending r)"
    using inv by (rule inv_recover)
  show ?thesis
    using r' op [OF r'(2,4)] by (auto simp: locked_def settled_inv split: sum.splits)
qed

subsection \<open>Preservation\<close>

lemma names_map_named: "(\<And>s. s_name (change s) = s_name s) \<Longrightarrow> map s_name (map_named n change rows) = map s_name rows"
  by (induction rows) (simp_all add: map_named_def)

lemma uuids_map_named: "(\<And>s. s_uuid (change s) = s_uuid s) \<Longrightarrow> map s_uuid (map_named n change rows) = map s_uuid rows"
  by (induction rows) (simp_all add: map_named_def)

lemma settled_map_named:
  assumes "settled_reg r" "\<And>s. s_name (change s) = s_name s" "\<And>s. s_uuid (change s) = s_uuid s"
  shows "settled_reg (r\<lparr>r_ready := map_named n change (r_ready r)\<rparr>)"
proof -
  have "s_name ` set (map_named n change (r_ready r)) = s_name ` set (r_ready r)"
    using names_map_named [of change n "r_ready r"] assms(2) by (metis list.set_map)
  with assms show ?thesis
    by (simp add: settled_reg_def clean_reg_def names_map_named uuids_map_named)
qed

lemma settled_repin:
  assumes "settled_reg r" "\<forall>s\<in>set (r_ready r). s_name s \<noteq> n \<longrightarrow> s_uuid s \<noteq> u"
  shows "settled_reg (r\<lparr>r_ready := map_named n (\<lambda>s. s\<lparr>s_uuid := u\<rparr>) (r_ready r)\<rparr>)"
proof -
  let ?rows = "map_named n (\<lambda>s. s\<lparr>s_uuid := u\<rparr>) (r_ready r)"
  have names: "map s_name ?rows = map s_name (r_ready r)" by (simp add: names_map_named)
  then have nset: "s_name ` set ?rows = s_name ` set (r_ready r)" by (metis list.set_map)
  have "distinct (map s_name rows) \<Longrightarrow> distinct (map s_uuid rows)
      \<Longrightarrow> \<forall>s\<in>set rows. s_name s \<noteq> n \<longrightarrow> s_uuid s \<noteq> u
      \<Longrightarrow> distinct (map s_uuid (map_named n (\<lambda>s. s\<lparr>s_uuid := u\<rparr>) rows))" for rows
    by (induction rows) (auto simp: map_named_def image_iff)
  then have "distinct (map s_uuid ?rows)" using assms by (simp add: settled_reg_def clean_reg_def)
  with assms(1) names nset show ?thesis by (simp add: settled_reg_def clean_reg_def)
qed

lemma settled_without: "settled_reg r \<Longrightarrow> settled_reg (r\<lparr>r_ready := without n (r_ready r)\<rparr>)"
  by (auto simp: settled_reg_def clean_reg_def without_def distinct_map_filter disjoint_iff)

lemma settled_append:
  assumes "settled_reg r" "s_name s \<notin> s_name ` set (r_ready r)" "s_name s \<notin> p_name ` set (r_pending r)"
    "s_uuid s \<notin> s_uuid ` set (r_ready r)"
  shows "settled_reg (r\<lparr>r_ready := r_ready r @ [s]\<rparr>)"
  using assms by (auto simp: settled_reg_def clean_reg_def)

lemma settled_reserve:
  assumes "settled_reg r" "p_name p \<notin> s_name ` set (r_ready r)" "p_name p \<notin> p_name ` set (r_pending r)"
    "p_generation p \<notin> p_generation ` set (r_pending r)" "p_status p \<noteq> StPromoted"
  shows "settled_reg (r\<lparr>r_pending := r_pending r @ [p]\<rparr>)"
  using assms by (auto simp: settled_reg_def clean_reg_def unpromoted_def)

lemma settled_filter_pending:
  "settled_reg r \<Longrightarrow> settled_reg (r\<lparr>r_pending := filter P (r_pending r)\<rparr>)"
  unfolding settled_reg_def clean_reg_def unpromoted_def
  by (auto simp: distinct_map_filter filter_comm [of _ P] disjoint_iff simp del: filter_filter)

lemma appendSession_inv [invariants]: "reg_inv r \<Longrightarrow> reg_inv (snd (appendSession s r))"
  unfolding appendSession_def
  by (erule locked_inv) (auto simp: find_session_None_iff intro!: settled_append split: if_splits)

lemma updateSessionUuid_inv [invariants]: "reg_inv r \<Longrightarrow> reg_inv (snd (updateSessionUuid n u r))"
  unfolding updateSessionUuid_def
  by (erule locked_inv) (auto intro!: settled_repin split: if_splits)

lemma updateSession_inv [invariants]:
  "(\<And>b. sb_name (change b) = sb_name b) \<Longrightarrow> reg_inv r \<Longrightarrow> reg_inv (snd (updateSession n change r))"
  unfolding updateSession_def
  by (erule locked_inv) (auto intro!: settled_map_named split: if_splits)

lemma archiveSessionExact_inv [invariants]: "reg_inv r \<Longrightarrow> reg_inv (snd (archiveSessionExact n u r))"
  unfolding archiveSessionExact_def
  by (erule locked_inv) (auto intro!: settled_map_named split: if_splits option.splits)

lemma removeSession_inv [invariants]: "reg_inv r \<Longrightarrow> reg_inv (snd (removeSession n r))"
  unfolding removeSession_def
  by (erule locked_inv) (auto intro!: settled_without split: if_splits)

lemma removeSessionIfUuid_inv [invariants]: "reg_inv r \<Longrightarrow> reg_inv (snd (removeSessionIfUuid n u r))"
  unfolding removeSessionIfUuid_def
  by (erule locked_inv) (auto intro!: settled_without split: if_splits option.splits)

lemma removeSessionIfGeneration_inv [invariants]:
  "reg_inv r \<Longrightarrow> reg_inv (snd (removeSessionIfGeneration n g r))"
  unfolding removeSessionIfGeneration_def
  by (erule locked_inv) (auto intro!: settled_without split: if_splits option.splits)

lemma reservePendingSession_inv [invariants]:
  assumes "reg_inv r" "p_generation p \<notin> p_generation ` set (r_pending r)" "p_status p = StPending"
  shows "reg_inv (snd (reservePendingSession p r))"
  unfolding reservePendingSession_def using assms(1)
proof (rule locked_inv)
  fix r' a r''
  assume s: "settled_reg r'" "r_pending r' = unpromoted (r_pending r)"
    and e: "(if find_session (r_ready r') (p_name p) \<noteq> None \<or> p_name p \<in> p_name ` set (r_pending r')
      then Inl (NameExists (p_name p))
      else Inr ((), r'\<lparr>r_pending := r_pending r' @ [p]\<rparr>)) = Inr (a, r'')"
  have "p_generation p \<notin> p_generation ` set (r_pending r')"
    using assms(2) s(2) by (auto simp: unpromoted_def)
  with s(1) e assms(3) show "settled_reg r''"
    by (auto simp: find_session_None_iff intro!: settled_reserve split: if_splits)
qed

lemma removePendingSession_inv [invariants]:
  assumes "reg_inv r"
  shows "reg_inv (snd (removePendingSession g r))"
proof -
  obtain r' where "recoverPromotionsUnlocked r = Inr r'" "settled_reg r'"
    using assms by (rule inv_recover)
  then show ?thesis by (simp add: removePendingSession_def settled_inv settled_filter_pending)
qed

definition block_row :: "string \<Rightarrow> string \<Rightarrow> pending \<Rightarrow> pending" where
  "block_row g e p = (if p_generation p = g then p\<lparr>p_status := StBlocked, p_error := Some e\<rparr> else p)"

lemma block_row_simps [simp]:
  "p_session (block_row g e p) = p_session p" "p_generation (block_row g e p) = p_generation p"
  "p_status p \<noteq> StPromoted \<Longrightarrow> p_status (block_row g e p) \<noteq> StPromoted"
  by (simp_all add: block_row_def)

lemma settled_block: "settled_reg r \<Longrightarrow> settled_reg (r\<lparr>r_pending := map (block_row g e) (r_pending r)\<rparr>)"
  by (simp add: settled_reg_def clean_reg_def unpromoted_def filter_id_conv o_def image_image)

lemma markPendingBlocked_inv [invariants]:
  assumes "reg_inv r"
  shows "reg_inv (snd (markPendingBlocked g e r))"
proof -
  obtain r' where "recoverPromotionsUnlocked r = Inr r'" "settled_reg r'"
    using assms by (rule inv_recover)
  moreover have "block_row g e = (\<lambda>p. if p_generation p = g
      then p\<lparr>p_status := StBlocked, p_error := Some e\<rparr> else p)"
    by (simp add: fun_eq_iff block_row_def)
  ultimately show ?thesis
    using settled_block [of r' g e] by (simp add: markPendingBlocked_def settled_inv)
qed

subsection \<open>Promotion\<close>

lemma map_filter_none: "\<forall>p\<in>set ps. f p = None \<Longrightarrow> List.map_filter f ps = []"
  by (induction ps) (simp_all add: map_filter_simps)

lemma load_loop_promoted:
  "load_loop ps ready = bind_result (recover_loop (List.map_filter promotedSession ps) ready False) (\<lambda>x. Inr (fst x))"
  by (simp add: load_loop_recover)

text \<open>Marking the one row of a generation leaves exactly that row promoted.\<close>

lemma mark_one:
  assumes "distinct (map p_generation ps)" "t \<in> set ps" "p_generation t = g"
    "\<forall>p\<in>set ps. promotedSession p = None" "promotedSession (h t) = Some s"
  shows "List.map_filter promotedSession (map (\<lambda>p. if p_generation p = g then h p else p) ps) = [s]"
  using assms
proof (induction ps)
  case (Cons a ps)
  let ?m = "\<lambda>p. if p_generation p = g then h p else p"
  show ?case
  proof (cases "p_generation a = g")
    case True
    with Cons.prems have "a = t" "g \<notin> p_generation ` set ps" by auto
    then have "map ?m ps = ps" by (auto intro!: map_idI)
    with Cons.prems \<open>a = t\<close> show ?thesis by (simp add: map_filter_simps map_filter_none)
  next
    case False
    with Cons show ?thesis by (auto simp: map_filter_simps)
  qed
qed simp

lemma unpromoted_mark:
  assumes "\<forall>p\<in>set ps. p_status p \<noteq> StPromoted" "\<And>p. p_status (h p) = StPromoted"
  shows "unpromoted (map (\<lambda>p. if p_generation p = g then h p else p) ps)
    = filter (\<lambda>p. p_generation p \<noteq> g) ps"
  using assms by (induction ps) (simp_all add: unpromoted_def)

lemma settled_statuses: "settled_reg r \<Longrightarrow> \<forall>p\<in>set (r_pending r). p_status p \<noteq> StPromoted"
  by (auto simp: settled_reg_def unpromoted_def filter_id_conv)

lemma promoted_fields_name [simp]: "sb_name (promoted_fields t native) = p_name t"
  by (simp add: promoted_fields_def split: option.splits)

lemma promote_planD:
  assumes "promote_plan valid g u native r rows = Inr (ready, ws)"
  obtains t where "t \<in> set (r_pending r)" "p_generation t = g"
    "ready = \<lparr>s_uuid = u, s_body = (promoted_fields t native)\<lparr>sb_generation := Some g\<rparr>\<rparr>"
    "p_name t \<notin> s_name ` set rows" "u \<notin> s_uuid ` set rows"
    "ws = [WritePending (map (\<lambda>p. if p_generation p = g
                      then promotedPending (p\<lparr>p_session := promoted_fields t native\<rparr>) u else p) (r_pending r)),
           WriteReady (rows @ [ready]),
           WritePending (filter (\<lambda>p. p_generation p \<noteq> g) (r_pending r))]"
  using assms
  by (auto simp: promote_plan_def Let_def find_session_None_iff split: option.splits if_splits
      dest!: find_SomeD)

text \<open>Nothing else carries the name of the row that is promoted.\<close>

lemma settled_promote:
  assumes s: "settled_reg r" and t: "t \<in> set (r_pending r)" "p_generation t = g"
    and ready: "s_name ready = p_name t" "s_uuid ready \<notin> s_uuid ` set (r_ready r)"
    and name: "p_name t \<notin> s_name ` set (r_ready r)"
  shows "settled_reg (r\<lparr>r_ready := r_ready r @ [ready], r_pending := filter (\<lambda>p. p_generation p \<noteq> g) (r_pending r)\<rparr>)"
proof -
  have "p_name t \<notin> p_name ` set (filter (\<lambda>p. p_generation p \<noteq> g) (r_pending r))"
    using s t by (auto simp: settled_reg_def clean_reg_def dest: distinct_map_keyD)
  moreover have "settled_reg (r\<lparr>r_pending := filter (\<lambda>p. p_generation p \<noteq> g) (r_pending r)\<rparr>)"
    using s by (rule settled_filter_pending)
  ultimately show ?thesis
    using ready name by (auto simp: settled_reg_def clean_reg_def)
qed

lemma promote_prefix:
  assumes s: "settled_reg r" and plan: "promote_plan valid g u native r (r_ready r) = Inr (ready, ws)"
    and k: "k \<in> {1, 2, 3}"
  shows "loadRegistrySessions (apply_writes (take k ws) r) = Inr (r_ready r @ [ready])"
    and "unpromoted (r_pending (apply_writes (take k ws) r)) = filter (\<lambda>p. p_generation p \<noteq> g) (r_pending r)"
    and "\<forall>p\<in>set (r_pending (apply_writes (take k ws) r)). p_status p = StPromoted \<longrightarrow> p_uuid p \<noteq> None"
    and "promoted_rows (apply_writes (take k ws) r) = [] \<longleftrightarrow> k = 3"
    and "settled_reg (apply_writes ws r)"
proof -
  obtain t where t: "t \<in> set (r_pending r)" "p_generation t = g"
    and ready: "ready = \<lparr>s_uuid = u, s_body = (promoted_fields t native)\<lparr>sb_generation := Some g\<rparr>\<rparr>"
    and fresh: "p_name t \<notin> s_name ` set (r_ready r)" "u \<notin> s_uuid ` set (r_ready r)"
    and ws: "ws = [WritePending (map (\<lambda>p. if p_generation p = g
                then promotedPending (p\<lparr>p_session := promoted_fields t native\<rparr>) u else p) (r_pending r)),
           WriteReady (r_ready r @ [ready]),
           WritePending (filter (\<lambda>p. p_generation p \<noteq> g) (r_pending r))]"
    using plan by (rule promote_planD)
  let ?h = "\<lambda>p. promotedPending (p\<lparr>p_session := promoted_fields t native\<rparr>) u"
  let ?marked = "map (\<lambda>p. if p_generation p = g then ?h p else p) (r_pending r)"
  let ?rest = "filter (\<lambda>p. p_generation p \<noteq> g) (r_pending r)"
  have st: "\<forall>p\<in>set (r_pending r). p_status p \<noteq> StPromoted" by (rule settled_statuses [OF s])
  then have none: "\<forall>p\<in>set (r_pending r). promotedSession p = None" by simp
  have one: "List.map_filter promotedSession ?marked = [ready]"
    using s t none by (intro mark_one [where t = t])
      (auto simp: settled_reg_def clean_reg_def ready promotedSession_def promotedPending_def)
  have rest: "List.map_filter promotedSession ?rest = []" using none by (intro map_filter_none) auto
  have gone: "find_session (r_ready r) (s_name ready) = None"
    using fresh by (simp add: find_session_None_iff ready)
  have there: "find_session (r_ready r @ [ready]) (s_name ready) = Some ready"
    using gone by (simp add: find_session_def find_append)
  have load: "load_loop ?marked (r_ready r) = Inr (r_ready r @ [ready])"
    "load_loop ?marked (r_ready r @ [ready]) = Inr (r_ready r @ [ready])"
    "load_loop ?rest (r_ready r @ [ready]) = Inr (r_ready r @ [ready])"
    using gone there fresh by (simp_all add: load_loop_promoted one rest) (simp add: ready)
  have um: "unpromoted ?marked = ?rest"
    using st by (intro unpromoted_mark) (simp_all add: promotedPending_def)
  have ur: "unpromoted ?rest = ?rest" using st by (auto simp: unpromoted_def intro!: filter_cong)
  from k load show "loadRegistrySessions (apply_writes (take k ws) r) = Inr (r_ready r @ [ready])"
    by (auto simp: ws apply_writes_def loadRegistrySessions_def)
  from k um ur show "unpromoted (r_pending (apply_writes (take k ws) r)) = ?rest"
    by (auto simp: ws apply_writes_def)
  from k st show "\<forall>p\<in>set (r_pending (apply_writes (take k ws) r)). p_status p = StPromoted \<longrightarrow> p_uuid p \<noteq> None"
    by (auto simp: ws apply_writes_def promotedPending_def)
  from k one rest show "promoted_rows (apply_writes (take k ws) r) = [] \<longleftrightarrow> k = 3"
    by (auto simp: ws apply_writes_def promoted_rows_def)
  show "settled_reg (apply_writes ws r)"
    using settled_promote [OF s t, of ready] fresh by (simp add: ws apply_writes_def ready)
qed

subsection \<open>Recovery may die between its two writes\<close>

lemma find_session_append_left:
  "find_session rows n = Some x \<Longrightarrow> find_session (rows @ ys) n = Some x"
  by (simp add: find_session_def find_append)

lemma recover_loop_extends:
  "recover_loop ss ready c = Inr (out, b) \<Longrightarrow> prefix ready out"
  by (induction ss ready c arbitrary: out b rule: recover_loop.induct)
    (auto split: option.splits if_splits dest: append_prefixD)

lemma recover_loop_again:
  "recover_loop ss ready c = Inr (out, b) \<Longrightarrow> recover_loop ss out c' = Inr (out, c')"
proof (induction ss ready c arbitrary: out b rule: recover_loop.induct)
  case (1 ready c)
  then show ?case by simp
next
  case (2 s rest ready c)
  show ?case
  proof (cases "find_session ready (s_name s)")
    case None
    with 2 have rest: "recover_loop rest (ready @ [s]) True = Inr (out, b)" "s_uuid s \<notin> s_uuid ` set ready"
      by (auto split: if_splits)
    then obtain ys where "out = (ready @ [s]) @ ys"
      using recover_loop_extends by (blast elim: prefixE)
    moreover have "find_session (ready @ [s]) (s_name s) = Some s"
      using None by (simp add: find_session_def find_append)
    ultimately have "find_session out (s_name s) = Some s" by (metis find_session_append_left)
    with 2(1) [OF None rest(2,1)] None rest show ?thesis by simp
  next
    case (Some x)
    with 2 have rest: "recover_loop rest ready c = Inr (out, b)"
      "s_uuid x = s_uuid s" "s_generation x = s_generation s"
      by (auto split: if_splits)
    then obtain ys where "out = ready @ ys" using recover_loop_extends by (blast elim: prefixE)
    with Some have "find_session out (s_name s) = Some x" by (simp add: find_session_append_left)
    with 2(2) [OF Some _ rest(1)] Some rest show ?thesis by simp
  qed
qed

lemma recover_prefix:
  assumes plan: "recover_plan r = Inr ws" and k: "k < length ws"
  shows "loadRegistrySessions (apply_writes (take k ws) r) = loadRegistrySessions r"
    and "r_pending (apply_writes (take k ws) r) = r_pending r"
proof -
  have ne: "promoted_rows r \<noteq> []" using plan k by (auto simp: recover_plan_def promoted_rows_def)
  then obtain out b where out: "recover_loop (promoted_rows r) (r_ready r) False = Inr (out, b)"
    and ws: "ws = (if b then [WriteReady out] else []) @ [WritePending (unpromoted (r_pending r))]"
    using plan
    by (auto simp: recover_plan_def promoted_rows_def unpromoted_def bind_result_Inr_iff)
  have "take k ws = [] \<or> take k ws = [WriteReady out]"
    using k by (auto simp: ws less_Suc_eq numeral_2_eq_2 split: if_splits)
  then show "loadRegistrySessions (apply_writes (take k ws) r) = loadRegistrySessions r"
    "r_pending (apply_writes (take k ws) r) = r_pending r"
    using out recover_loop_again [OF out, of False]
    by (auto simp: apply_writes_def loadRegistrySessions_def load_loop_promoted promoted_rows_def)
qed

lemma unpromoted_view [simp]:
  "promoted_rows \<lparr>r_ready = rows, r_pending = unpromoted ps\<rparr> = []"
  "loadRegistrySessions \<lparr>r_ready = rows, r_pending = unpromoted ps\<rparr> = Inr rows"
  by (simp_all add: promoted_rows_def map_filter_none loadRegistrySessions_def load_loop_none unpromoted_def)

lemma recover_twice:
  "recoverPromotionsUnlocked r = Inr r' \<Longrightarrow> recoverPromotionsUnlocked r' = Inr r'"
  by (auto simp: recoverPromotions_view bind_result_Inr_iff split: if_splits)

lemma recover_prefix_again:
  assumes "recover_plan r = Inr ws"
  shows "recoverPromotionsUnlocked (apply_writes (take k ws) r) = recoverPromotionsUnlocked r"
proof (cases "k < length ws")
  case True
  with assms have "promoted_rows r \<noteq> []" by (auto simp: recover_plan_def promoted_rows_def)
  with recover_prefix [OF assms True] show ?thesis
    by (simp add: recoverPromotions_view promoted_rows_def cong: if_cong)
next
  case False
  with assms have "recoverPromotionsUnlocked r = Inr (apply_writes (take k ws) r)"
    by (simp add: recoverPromotionsUnlocked_def)
  with recover_twice [OF this] show ?thesis by simp
qed

subsection \<open>Every operation and every crash, as one machine\<close>

text \<open>
  \<open>Reserve\<close> is what \<open>createManagedSession\<close> does: the generation is a fresh random UUID and the row
  starts pending.  \<open>CrashPromote k\<close> and \<open>CrashRecover k\<close> are a process that died after \<open>k\<close> of the
  writes.
\<close>

datatype reg_op =
  Append session
| Repin string string
| SetPermissionMode string "string option"
| SetDir string string
| SetChatEnabled string "bool option"
| SetEnvFile string "string option"
| SetRole string "string option"
| SetRouter string bool
| Archive string string
| Remove string
| RemoveIfUuid string string
| RemoveIfGeneration string string
| Reserve pending
| Block string string
| Discard string
| Promote string string "native_session option"
| CrashPromote string string "native_session option" nat
| CrashRecover nat

definition crash_promote ::
  "(session \<Rightarrow> bool) \<Rightarrow> string \<Rightarrow> string \<Rightarrow> native_session option \<Rightarrow> nat \<Rightarrow> registry \<Rightarrow> registry" where
  "crash_promote valid g u native k r = (case recoverPromotionsUnlocked r of
      Inl _ \<Rightarrow> r
    | Inr r' \<Rightarrow> (case promote_plan valid g u native r' (r_ready r') of
        Inl _ \<Rightarrow> r' | Inr (_, ws) \<Rightarrow> apply_writes (take k ws) r'))"

definition crash_recover :: "nat \<Rightarrow> registry \<Rightarrow> registry" where
  "crash_recover k r = (case recover_plan r of Inl _ \<Rightarrow> r | Inr ws \<Rightarrow> apply_writes (take k ws) r)"

fun reg_step :: "(session \<Rightarrow> bool) \<Rightarrow> reg_op \<Rightarrow> registry \<Rightarrow> registry" where
  "reg_step valid (Append s) r = snd (appendSession s r)"
| "reg_step valid (Repin n u) r = snd (updateSessionUuid n u r)"
| "reg_step valid (SetPermissionMode n m) r = snd (setSessionPermissionMode n m r)"
| "reg_step valid (SetDir n d) r = snd (setSessionDir n d r)"
| "reg_step valid (SetChatEnabled n c) r = snd (setSessionChatEnabled n c r)"
| "reg_step valid (SetEnvFile n f) r = snd (setSessionEnvFile n f r)"
| "reg_step valid (SetRole n x) r = snd (setSessionRole n x r)"
| "reg_step valid (SetRouter n on) r = snd (setSessionRouter n on r)"
| "reg_step valid (Archive n u) r = snd (archiveSessionExact n u r)"
| "reg_step valid (Remove n) r = snd (removeSession n r)"
| "reg_step valid (RemoveIfUuid n u) r = snd (removeSessionIfUuid n u r)"
| "reg_step valid (RemoveIfGeneration n g) r = snd (removeSessionIfGeneration n g r)"
| "reg_step valid (Reserve p) r =
     (if p_generation p \<notin> p_generation ` set (r_pending r) \<and> p_status p = StPending
      then snd (reservePendingSession p r) else r)"
| "reg_step valid (Block g e) r = snd (markPendingBlocked g e r)"
| "reg_step valid (Discard g) r = snd (removePendingSession g r)"
| "reg_step valid (Promote g u native) r = snd (promotePendingSession valid g u native r)"
| "reg_step valid (CrashPromote g u native k) r = crash_promote valid g u native k r"
| "reg_step valid (CrashRecover k) r = crash_recover k r"

lemmas session_setters =
  setSessionPermissionMode_def setSessionDir_def setSessionChatEnabled_def setSessionEnvFile_def
  setSessionRole_def setSessionRouter_def

lemma promote_prefix_inv:
  assumes s: "settled_reg r" and plan: "promote_plan valid g u native r (r_ready r) = Inr (ready, ws)"
  shows "reg_inv (apply_writes (take k ws) r)"
proof -
  have len: "length ws = 3" using plan by (rule promote_planD) simp
  show ?thesis
  proof (cases k)
    case 0
    with s show ?thesis by (simp add: apply_writes_def settled_inv)
  next
    case (Suc j)
    define i where "i = min k 3"
    have i: "i \<in> {1, 2, 3}" "take k ws = take i ws" using Suc len by (auto simp: i_def min_def)
    note p = promote_prefix [OF s plan i(1)]
    have "apply_writes ws r = apply_writes (take 3 ws) r" using len by simp
    then have "unpromoted (r_pending (apply_writes ws r)) = unpromoted (r_pending (apply_writes (take i ws) r))"
      "loadRegistrySessions (apply_writes ws r) = loadRegistrySessions (apply_writes (take i ws) r)"
      using promote_prefix [OF s plan, of 3] p by simp_all
    with p show ?thesis
      using settled_inv [OF p(5)] by (simp add: reg_inv_def i(2))
  qed
qed

text \<open>Whatever prefix of a promotion's writes survives, recovery completes it or finds nothing.\<close>

lemma promote_plan_recover:
  assumes s: "settled_reg r" and plan: "promote_plan valid g u native r (r_ready r) = Inr (ready, ws)"
  shows "recoverPromotionsUnlocked (apply_writes (take k ws) r)
    = Inr (if k = 0 then r else apply_writes ws r)"
proof (cases k)
  case 0
  with s show ?thesis by (simp add: apply_writes_def settled_recover)
next
  case (Suc j)
  obtain t where len: "length ws = 3"
    and all: "apply_writes ws r = \<lparr>r_ready = r_ready r @ [ready], r_pending = filter (\<lambda>p. p_generation p \<noteq> g) (r_pending r)\<rparr>"
    using plan by (rule promote_planD) (simp add: apply_writes_def)
  define i where "i = min k 3"
  have i: "i \<in> {1, 2, 3}" "take k ws = take i ws" using Suc len by (auto simp: i_def min_def)
  note p = promote_prefix [OF s plan i(1)]
  show ?thesis
  proof (cases "i = 3")
    case True
    with len have "take i ws = ws" by simp
    with settled_recover [OF p(5)] i Suc show ?thesis by simp
  next
    case False
    with p i Suc show ?thesis by (simp add: recoverPromotions_view all)
  qed
qed

lemma promotePendingSession_inv [invariants]:
  assumes "reg_inv r"
  shows "reg_inv (snd (promotePendingSession valid g u native r))"
  unfolding promotePendingSession_def using assms
  by (rule locked_inv) (auto simp: bind_result_Inr_iff intro: promote_prefix(5))

lemma crash_promote_inv [invariants]:
  assumes "reg_inv r"
  shows "reg_inv (crash_promote valid g u native k r)"
  using assms
  by (rule inv_recover)
    (auto simp: crash_promote_def settled_inv intro: promote_prefix_inv split: sum.splits)

lemma crash_recover_inv [invariants]:
  assumes "reg_inv r"
  shows "reg_inv (crash_recover k r)"
proof (cases "recover_plan r")
  case (Inr ws)
  show ?thesis
  proof (cases "k < length ws")
    case True
    with recover_prefix [OF Inr True] Inr assms show ?thesis by (simp add: crash_recover_def reg_inv_def)
  next
    case False
    obtain r' where "recoverPromotionsUnlocked r = Inr r'" "settled_reg r'"
      using assms by (rule inv_recover)
    with False Inr show ?thesis by (simp add: crash_recover_def recoverPromotionsUnlocked_def settled_inv)
  qed
qed (use assms in \<open>simp add: crash_recover_def\<close>)

lemma reg_step_inv: "reg_inv r \<Longrightarrow> reg_inv (reg_step valid e r)"
  by (cases e) (auto simp: session_setters intro!: invariants)

interpretation registry_machine: state_machine "reg_step valid" reg_inv
  by unfold_locales (rule reg_step_inv)

end
