(* ===== verification/Lifecycle.thy ===== *)
theory Lifecycle
  imports RegistryInv Version
begin

text \<open>
  When a session may be started: the durable lifecycle blocks (\<open>src/session/lifecycleBlocks.ts\<close>), the
  daemon's heal pass (\<open>heal.ts\<close>), the guard against starting a new conversation over a lost one
  (\<open>conversationGuard.ts\<close>, \<open>conversationSeen.ts\<close>) and the stale-supervisor test
  (\<open>supervisorCode.ts\<close>).
\<close>

subsection \<open>Lifecycle blocks\<close>

record lifecycle_block =
  lb_name :: string
  lb_agent :: agent_kind
  lb_uuid :: "string option"
  lb_generation :: "string option"
  lb_error :: string
  lb_at :: stamp
  lb_version :: "string option"

text \<open>One file per session name.\<close>

type_synonym block_store = "string \<Rightarrow> lifecycle_block option"

definition readLifecycleBlockForSession :: "block_store \<Rightarrow> session \<Rightarrow> lifecycle_block option" where
  "readLifecycleBlockForSession bs s = (case bs (s_name s) of
      None \<Rightarrow> None
    | Some b \<Rightarrow>
        (if lb_agent b \<noteq> s_agent s then None
         else if s_generation s \<noteq> None then (if lb_generation b = s_generation s then Some b else None)
         else if lb_uuid b = Some (s_uuid s) then Some b else None))"

definition sessionBlock :: "session \<Rightarrow> string \<Rightarrow> agent_kind \<Rightarrow> stamp \<Rightarrow> lifecycle_block" where
  "sessionBlock s err agent now =
     \<lparr>lb_name = s_name s, lb_agent = agent, lb_uuid = Some (s_uuid s), lb_generation = s_generation s,
      lb_error = err, lb_at = now, lb_version = None\<rparr>"

definition block_matches_ready :: "lifecycle_block \<Rightarrow> session list \<Rightarrow> bool" where
  "block_matches_ready b rows =
     (case List.find (\<lambda>s. s_name s = lb_name b \<and> s_agent s = lb_agent b) rows of
        None \<Rightarrow> False
      | Some s \<Rightarrow> if s_generation s \<noteq> None then lb_generation b = s_generation s
                  else lb_uuid b = Some (s_uuid s))"

definition block_matches_pending :: "lifecycle_block \<Rightarrow> pending list \<Rightarrow> bool" where
  "block_matches_pending b ps =
     (case List.find (\<lambda>p. p_name p = lb_name b \<and> sb_agent (p_session p) = lb_agent b) ps of
        None \<Rightarrow> False
      | Some p \<Rightarrow> lb_generation b = Some (p_generation p))"

definition writeLifecycleBlock ::
  "string \<Rightarrow> lifecycle_block \<Rightarrow> registry \<Rightarrow> block_store
     \<Rightarrow> registry_error + (registry \<times> block_store)" where
  "writeLifecycleBlock version block r bs =
     (let parsed = block\<lparr>lb_version := Some version\<rparr>
      in bind_result (recoverPromotionsUnlocked r) (\<lambda>r'.
         bind_result (loadRegistrySessions r') (\<lambda>rows.
           Inr (r', if \<not> block_matches_ready parsed rows \<and> \<not> block_matches_pending parsed (r_pending r')
                    then bs else bs(lb_name parsed \<mapsto> parsed)))))"

definition clearLifecycleBlockIfGeneration :: "string \<Rightarrow> string \<Rightarrow> block_store \<Rightarrow> block_store" where
  "clearLifecycleBlockIfGeneration n g bs =
     (case bs n of
        None \<Rightarrow> bs
      | Some b \<Rightarrow> if lb_generation b \<noteq> Some g then bs else bs(n := None))"

definition clearLifecycleBlock :: "string \<Rightarrow> block_store \<Rightarrow> block_store" where
  "clearLifecycleBlock n bs = bs(n := None)"

definition blockFromOlderVersion :: "lifecycle_block \<Rightarrow> string \<Rightarrow> bool" where
  "blockFromOlderVersion b version =
     (case lb_version b of None \<Rightarrow> True | Some v \<Rightarrow> compareSemver v version < 0)"

definition clearBlockOfOlderVersion :: "string \<Rightarrow> string \<Rightarrow> block_store \<Rightarrow> bool \<times> block_store" where
  "clearBlockOfOlderVersion n version bs =
     (case bs n of
        None \<Rightarrow> (False, bs)
      | Some b \<Rightarrow> if \<not> blockFromOlderVersion b version then (False, bs) else (True, bs(n := None)))"

subsection \<open>The heal pass\<close>

datatype heal_action = Retire string | Start string string

record liveness =
  lv_live :: "string set"
  lv_agentGone :: "string set"
  lv_uncertain :: "string set"

definition ensure_one :: "liveness \<Rightarrow> (session \<Rightarrow> session) \<Rightarrow> session \<Rightarrow> heal_action list" where
  "ensure_one w followFork s =
     (if s_archived s then []
      else let cur = followFork s
           in if s_name cur \<in> lv_live w \<or> s_name cur \<in> lv_uncertain w then []
              else (if s_name cur \<in> lv_agentGone w then [Retire (s_name cur)] else [])
                   @ [Start (s_name cur) (sb_dir (s_body cur))])"

definition ensureOnce :: "liveness \<Rightarrow> (session \<Rightarrow> session) \<Rightarrow> session list \<Rightarrow> heal_action list" where
  "ensureOnce w followFork sessions = concat (map (ensure_one w followFork) sessions)"

text \<open>
  \<open>startHealed\<close>: whether the session is started, and the blocks it leaves.  \<open>lock_ok\<close> is whether the
  registry lock could be taken; a lock error counts as "not cleared".
\<close>

definition startHealed ::
  "string \<Rightarrow> (session \<Rightarrow> bool) \<Rightarrow> (session \<Rightarrow> bool) \<Rightarrow> bool \<Rightarrow> session list \<Rightarrow> string \<Rightarrow> block_store
     \<Rightarrow> bool \<times> block_store" where
  "startHealed version delegationStopped sleepBlocksStart lock_ok sessions n bs =
     (case find_session sessions n of
        None \<Rightarrow> (False, bs)
      | Some s \<Rightarrow>
          (if delegationStopped s \<or> sleepBlocksStart s then (False, bs)
           else (case readLifecycleBlockForSession bs s of
              None \<Rightarrow> (True, bs)
            | Some b \<Rightarrow>
                (let (cleared, bs') = (if lock_ok then clearBlockOfOlderVersion n version bs else (False, bs))
                 in if \<not> cleared then (False, bs') else (True, bs')))))"

subsection \<open>The conversation guard\<close>

datatype verdict = VStart | VBlock

definition conversationVerdict :: "bool \<Rightarrow> string option \<Rightarrow> bool \<Rightarrow> bool \<Rightarrow> verdict" where
  "conversationVerdict present found seen searchComplete =
     (if present then VStart
      else if found \<noteq> None \<or> seen \<or> \<not> searchComplete then VBlock else VStart)"

text \<open>One marker file per sanitised name, holding the uuid whose transcript was seen.\<close>

definition is_word_char :: "char \<Rightarrow> bool" where
  "is_word_char c = (let k = (of_char c :: nat) in 48 \<le> k \<and> k \<le> 57 \<or> 65 \<le> k \<and> k \<le> 90 \<or> 97 \<le> k \<and> k \<le> 122 \<or> k = 95)"

definition safe_name :: "string \<Rightarrow> string" where
  "safe_name n = map (\<lambda>c. if is_word_char c \<or> c = CHR ''.'' \<or> c = CHR ''-'' then c else CHR ''_'') n"

definition conversationSeen :: "string \<Rightarrow> string \<Rightarrow> (string \<Rightarrow> string option) \<Rightarrow> bool" where
  "conversationSeen n u seen = (seen (safe_name n) = Some u)"

definition markConversationSeen ::
  "string \<Rightarrow> string \<Rightarrow> (string \<Rightarrow> string option) \<Rightarrow> (string \<Rightarrow> string option)" where
  "markConversationSeen n u seen = (if conversationSeen n u seen then seen else seen(safe_name n \<mapsto> u))"

definition clearConversationSeen :: "string \<Rightarrow> (string \<Rightarrow> string option) \<Rightarrow> (string \<Rightarrow> string option)" where
  "clearConversationSeen n seen = seen(safe_name n := None)"

record history_search =
  hs_found :: "string option"
  hs_roots :: "string list"
  hs_failures :: "(string \<times> string) list"

definition missing_text :: "session \<Rightarrow> string option \<Rightarrow> history_search option \<Rightarrow> string" where
  "missing_text s expected search =
     (let found = (case search of None \<Rightarrow> None | Some h \<Rightarrow> hs_found h);
          searchComplete = (case search of None \<Rightarrow> True | Some h \<Rightarrow> hs_failures h = []);
          path = nullish expected ''its expected path'';
          place = (case found of None \<Rightarrow> '''' | Some f \<Rightarrow> '' '' @ em_dash @ '' it is at '' @ f);
          scope = (case search of None \<Rightarrow> ''''
            | Some h \<Rightarrow> '' Searched projects roots: '' @ join '', '' (hs_roots h) @ ''.'');
          failures = (if searchComplete then ''''
            else '' Search incomplete: ''
              @ join ''; '' (case search of None \<Rightarrow> [] | Some h \<Rightarrow> map (\<lambda>(p, w). p @ '': '' @ w) (hs_failures h))
              @ ''.'');
          reason = (if \<not> searchComplete
            then s_name s @ '' cannot verify conversation '' @ s_uuid s @ '' at '' @ path @ place
            else s_name s @ '' has a conversation '' @ s_uuid s @ '', but it is missing at '' @ path @ place)
      in reason @ ''.'' @ scope @ failures
         @ '' Refusing to start a NEW conversation on top of it. ''
         @ ''If it can be recovered (the project directory or the session's profile moved?), put it where this session now points, then: ccmux start ''
         @ s_name s @ ''   '' @ mid_dot @ ''   ''
         @ ''If it is gone for good: ccmux renew '' @ s_name s @ ''   '' @ em_dash
         @ '' a fresh conversation for this session, keeping its dir, mode, chat and prompt modules'')"

text \<open>\<open>search\<close> is the provider's \<open>findHistoryElsewhere\<close>, \<open>None\<close> where it has none.\<close>

definition missingConversation ::
  "(session \<Rightarrow> history_search option) \<Rightarrow> session \<Rightarrow> bool \<Rightarrow> string option
     \<Rightarrow> (string \<Rightarrow> string option) \<Rightarrow> string option \<times> (string \<Rightarrow> string option)" where
  "missingConversation search s present expected seen =
     (if present then (None, markConversationSeen (s_name s) (s_uuid s) seen)
      else let h = search s
           in if conversationVerdict present (case h of None \<Rightarrow> None | Some x \<Rightarrow> hs_found x)
                  (conversationSeen (s_name s) (s_uuid s) seen)
                  (case h of None \<Rightarrow> True | Some x \<Rightarrow> hs_failures x = []) = VStart
              then (None, seen)
              else (Some (missing_text s expected h), seen))"

subsection \<open>The stale supervisor\<close>

definition installedCodeDiffers :: "string option \<Rightarrow> string option \<Rightarrow> bool" where
  "installedCodeDiffers loaded installed =
     (loaded \<noteq> None \<and> loaded \<noteq> Some ''missing'' \<and> installed \<noteq> None \<and> installed \<noteq> Some ''missing''
      \<and> loaded \<noteq> installed)"

subsection \<open>What the heal pass does\<close>

text \<open>The sessions a pass acts on, as they are after following a fork.\<close>

definition down_sessions :: "liveness \<Rightarrow> (session \<Rightarrow> session) \<Rightarrow> session list \<Rightarrow> session list" where
  "down_sessions w followFork sessions =
     filter (\<lambda>s. s_name s \<notin> lv_live w \<and> s_name s \<notin> lv_uncertain w)
       (map followFork (filter (\<lambda>s. \<not> s_archived s) sessions))"

lemma ensureOnce_down:
  "ensureOnce w followFork sessions = concat (map (\<lambda>s.
     (if s_name s \<in> lv_agentGone w then [Retire (s_name s)] else []) @ [Start (s_name s) (sb_dir (s_body s))])
       (down_sessions w followFork sessions))"
  by (induction sessions) (simp_all add: ensureOnce_def down_sessions_def ensure_one_def Let_def)

lemma ensureOnce_starts:
  "filter (\<lambda>a. case a of Start _ _ \<Rightarrow> True | Retire _ \<Rightarrow> False) (ensureOnce w followFork sessions)
     = map (\<lambda>s. Start (s_name s) (sb_dir (s_body s))) (down_sessions w followFork sessions)"
proof -
  have "filter (\<lambda>a. case a of Start _ _ \<Rightarrow> True | Retire _ \<Rightarrow> False) (concat (map (\<lambda>s.
      (if s_name s \<in> lv_agentGone w then [Retire (s_name s)] else []) @ [Start (s_name s) (sb_dir (s_body s))]) rows))
      = map (\<lambda>s. Start (s_name s) (sb_dir (s_body s))) rows" for rows
    by (induction rows) simp_all
  then show ?thesis unfolding ensureOnce_down by blast
qed

lemma startHealed_iff:
  "fst (startHealed version stopped asleep lock_ok sessions n bs) \<longleftrightarrow>
     (\<exists>s. find_session sessions n = Some s \<and> \<not> stopped s \<and> \<not> asleep s
       \<and> (readLifecycleBlockForSession bs s = None
          \<or> lock_ok \<and> (\<exists>b. bs n = Some b \<and> blockFromOlderVersion b version)))"
proof (cases "find_session sessions n")
  case (Some s)
  then show ?thesis
    by (auto simp: startHealed_def clearBlockOfOlderVersion_def split: option.splits if_splits)
qed (simp add: startHealed_def)

lemma startHealed_blocks:
  "snd (startHealed version stopped asleep lock_ok sessions n bs) = bs
   \<or> snd (startHealed version stopped asleep lock_ok sessions n bs) = bs(n := None)"
  by (auto simp: startHealed_def clearBlockOfOlderVersion_def Let_def split: option.splits if_splits)

text \<open>A block written for a session by this version stops the heal of that session, pass after pass.\<close>

definition heal_passes ::
  "nat \<Rightarrow> string \<Rightarrow> session list \<Rightarrow> string \<Rightarrow> block_store \<Rightarrow> bool list \<times> block_store" where
  "heal_passes k version sessions n bs = (((\<lambda>(out, bs).
      let (started, bs') = startHealed version (\<lambda>_. False) (\<lambda>_. False) True sessions n bs
      in (out @ [started], bs'))) ^^ k) ([], bs)"

lemma own_block_stops:
  assumes "find_session sessions n = Some s" "s_name s = n" "readLifecycleBlockForSession bs s = Some b"
    "lb_version b = Some version" "\<not> compareSemver version version < 0"
  shows "startHealed version stopped asleep lock_ok sessions n bs = (False, bs)"
proof -
  have "bs n = Some b"
    using assms(2,3) by (auto simp: readLifecycleBlockForSession_def split: option.splits if_splits)
  with assms show ?thesis
    by (auto simp: startHealed_def clearBlockOfOlderVersion_def blockFromOlderVersion_def Let_def)
qed

lemma compareSemver_refl: "\<not> compareSemver v v < 0"
proof -
  have "\<not> semver_loop ps ps is < 0" for ps "is"
    by (induction "is") (auto split: option.splits)
  then show ?thesis unfolding compareSemver_def by blast
qed

lemma heal_passes_own_block:
  assumes "find_session sessions n = Some s" "readLifecycleBlockForSession bs s = Some b"
    "lb_version b = Some version"
  shows "heal_passes k version sessions n bs = (replicate k False, bs)"
proof -
  have "s_name s = n" using find_session_SomeD [OF assms(1)] by simp
  then have stop: "startHealed version stopped asleep lock_ok sessions n bs = (False, bs)" for stopped asleep lock_ok
    using own_block_stops [OF assms(1) _ assms(2,3) compareSemver_refl] by simp
  show ?thesis
    unfolding heal_passes_def
    by (induction k) (simp_all add: stop replicate_append_same)
qed

text \<open>A block is written only for the session or the create transaction it names.\<close>

lemma writeLifecycleBlock_matches:
  assumes "writeLifecycleBlock version block r bs = Inr (r', bs')" "bs' \<noteq> bs"
  shows "bs' = bs(lb_name block \<mapsto> block\<lparr>lb_version := Some version\<rparr>)
    \<and> ((\<exists>rows s. loadRegistrySessions r' = Inr rows \<and> s \<in> set rows \<and> s_name s = lb_name block
          \<and> s_agent s = lb_agent block
          \<and> (if s_generation s \<noteq> None then lb_generation block = s_generation s
             else lb_uuid block = Some (s_uuid s)))
       \<or> (\<exists>p\<in>set (r_pending r'). p_name p = lb_name block \<and> lb_generation block = Some (p_generation p)))"
proof -
  from assms obtain rows where rows: "loadRegistrySessions r' = Inr rows"
    and m: "block_matches_ready (block\<lparr>lb_version := Some version\<rparr>) rows
        \<or> block_matches_pending (block\<lparr>lb_version := Some version\<rparr>) (r_pending r')"
    and bs': "bs' = bs(lb_name block \<mapsto> block\<lparr>lb_version := Some version\<rparr>)"
    by (auto simp: writeLifecycleBlock_def Let_def bind_result_Inr_iff split: if_splits)
  from m show ?thesis
  proof
    assume "block_matches_ready (block\<lparr>lb_version := Some version\<rparr>) rows"
    then show ?thesis
      using rows bs'
      by (auto simp: block_matches_ready_def split: option.splits if_splits dest!: find_SomeD)
  next
    assume "block_matches_pending (block\<lparr>lb_version := Some version\<rparr>) (r_pending r')"
    then show ?thesis
      using bs' by (auto simp: block_matches_pending_def split: option.splits dest!: find_SomeD)
  qed
qed

subsection \<open>A lost conversation is not replaced\<close>

lemma seen_after_mark [simp]: "conversationSeen n u (markConversationSeen n u seen)"
  by (simp add: markConversationSeen_def conversationSeen_def)

lemma missingConversation_start_iff:
  "fst (missingConversation search s present expected seen) = None \<longleftrightarrow>
     present \<or> (\<not> conversationSeen (s_name s) (s_uuid s) seen
        \<and> (case search s of None \<Rightarrow> True | Some h \<Rightarrow> hs_found h = None \<and> hs_failures h = []))"
  by (auto simp: missingConversation_def conversationVerdict_def Let_def split: option.splits if_splits)

lemma missingConversation_after_seen:
  assumes "missingConversation search s True expected seen = (r, seen')"
  shows "r = None \<and> fst (missingConversation search' s False expected' seen') \<noteq> None"
proof -
  from assms have "r = None" "seen' = markConversationSeen (s_name s) (s_uuid s) seen"
    by (simp_all add: missingConversation_def)
  then show ?thesis by (simp add: missingConversation_start_iff del: not_None_eq)
qed

end
