(* ===== verification/StatusFiles.thy ===== *)
theory StatusFiles
  imports Lifecycle
begin

text \<open>
  The per-session status files of \<open>src/session/status.ts\<close> that explain a delay: the delivery hold the
  daemon records (\<open>writeChatHold\<close>, \<open>readChatHold\<close>), and who a session is waiting for
  (\<open>writeWaiting\<close>, \<open>readWaiting\<close>).  A file that cannot be parsed is read as absent, so a topic is a
  map from file names to readable records.
\<close>

datatype chat_hold_kind = HkWorking | HkQueuedInput | HkMenu | HkInputBusy | HkNotDrawn | HkRateLimited
  | HkHumanTyping | HkNotSettled | HkOther

record chat_hold =
  ch_reason :: string
  ch_kind :: chat_hold_kind
  ch_ts :: int
  ch_since :: "int option"
  ch_msgId :: "string option"

type_synonym hold_files = "string \<rightharpoonup> chat_hold"

definition writeChatHold :: "string \<Rightarrow> string \<Rightarrow> string \<Rightarrow> chat_hold_kind \<Rightarrow> int \<Rightarrow> hold_files \<Rightarrow> hold_files" where
  "writeChatHold name msgId reason kind now files =
     (let since = (case files (safe_name name) of
          Some previous \<Rightarrow> if ch_msgId previous = Some msgId then nullish (ch_since previous) (ch_ts previous) else now
        | None \<Rightarrow> now)
      in files(safe_name name \<mapsto> \<lparr>ch_reason = reason, ch_kind = kind, ch_ts = now, ch_since = Some since,
           ch_msgId = Some msgId\<rparr>))"

record hold_view =
  hv_reason :: string
  hv_kind :: chat_hold_kind
  hv_msgId :: "string option"
  hv_heldForMs :: int

definition readChatHold :: "string \<Rightarrow> int \<Rightarrow> int \<Rightarrow> hold_files \<Rightarrow> hold_view option" where
  "readChatHold name maxAgeMs now files =
     (case files (safe_name name) of
        None \<Rightarrow> None
      | Some h \<Rightarrow>
          (if now - ch_ts h \<le> maxAgeMs
           then Some \<lparr>hv_reason = ch_reason h, hv_kind = ch_kind h, hv_msgId = ch_msgId h,
             hv_heldForMs = max 0 (now - nullish (ch_since h) (ch_ts h))\<rparr>
           else None))"

definition clearChatHold :: "string \<Rightarrow> hold_files \<Rightarrow> hold_files" where
  "clearChatHold name files = files(safe_name name := None)"

subsection \<open>The clock of a hold\<close>

text \<open>One letter held over many passes: each pass writes its own reason and instant.\<close>

fun hold_passes :: "string \<Rightarrow> string \<Rightarrow> (string \<times> chat_hold_kind \<times> int) list \<Rightarrow> hold_files \<Rightarrow> hold_files" where
  "hold_passes name msgId [] files = files"
| "hold_passes name msgId ((reason, kind, now) # rest) files =
     hold_passes name msgId rest (writeChatHold name msgId reason kind now files)"

lemma hold_passes_since:
  "files (safe_name name) = Some h \<Longrightarrow> ch_msgId h = Some msgId \<Longrightarrow> passes \<noteq> [] \<Longrightarrow>
     hold_passes name msgId passes files (safe_name name) = Some
       (case last passes of (reason, kind, now) \<Rightarrow> \<lparr>ch_reason = reason, ch_kind = kind, ch_ts = now,
          ch_since = Some (nullish (ch_since h) (ch_ts h)), ch_msgId = Some msgId\<rparr>)"
proof (induction passes arbitrary: files h)
  case (Cons p ps)
  obtain reason kind now where p: "p = (reason, kind, now)" by (cases p) auto
  let ?w = "writeChatHold name msgId reason kind now files"
  let ?h = "\<lparr>ch_reason = reason, ch_kind = kind, ch_ts = now, ch_since = Some (nullish (ch_since h) (ch_ts h)),
    ch_msgId = Some msgId\<rparr>"
  have w: "?w (safe_name name) = Some ?h" using Cons.prems by (simp add: writeChatHold_def Let_def)
  show ?case
  proof (cases "ps = []")
    case True
    with w p show ?thesis by simp
  next
    case False
    with Cons.IH [of ?w ?h] w p show ?thesis by simp
  qed
qed simp

text \<open>However many passes held it, the reader reports how long this letter has been held.\<close>

lemma held_since_first:
  assumes fresh: "\<And>h. files (safe_name name) = Some h \<Longrightarrow> ch_msgId h \<noteq> Some msgId"
    and "last ((reason, kind, first) # rest) = (reason', kind', latest)" "now - latest \<le> maxAgeMs"
  shows "readChatHold name maxAgeMs now (hold_passes name msgId ((reason, kind, first) # rest) files)
    = Some \<lparr>hv_reason = reason', hv_kind = kind', hv_msgId = Some msgId, hv_heldForMs = max 0 (now - first)\<rparr>"
proof -
  let ?w = "writeChatHold name msgId reason kind first files"
  have w: "?w (safe_name name) = Some \<lparr>ch_reason = reason, ch_kind = kind, ch_ts = first,
      ch_since = Some first, ch_msgId = Some msgId\<rparr>"
    using fresh by (auto simp: writeChatHold_def Let_def split: option.splits)
  show ?thesis
  proof (cases "rest = []")
    case True
    with assms(2,3) w show ?thesis by (simp add: readChatHold_def)
  next
    case False
    have "hold_passes name msgId rest ?w (safe_name name) = Some \<lparr>ch_reason = reason', ch_kind = kind',
        ch_ts = latest, ch_since = Some first, ch_msgId = Some msgId\<rparr>"
      by (subst hold_passes_since [of ?w name "the (?w (safe_name name))"]) (use w False assms(2) in simp_all)
    with assms(3) show ?thesis by (simp add: readChatHold_def)
  qed
qed

text \<open>Two session names the registry accepts can share one status file.\<close>

lemma shared_status_file:
  "SESSION_NAME_RE ''a@b'' \<and> SESSION_NAME_RE ''a_b'' \<and> ''a@b'' \<noteq> ''a_b'' \<and> safe_name ''a@b'' = safe_name ''a_b''"
  by (simp add: SESSION_NAME_RE_def session_name_char_def is_space_def safe_name_def is_word_char_def)

text \<open>Names made of the characters a file name keeps never collide.\<close>

definition plain_name :: "string \<Rightarrow> bool" where
  "plain_name n = (\<forall>c\<in>set n. is_word_char c \<or> c = CHR ''.'' \<or> c = CHR ''-'')"

lemma safe_name_plain: "plain_name n \<Longrightarrow> safe_name n = n"
  by (induction n) (auto simp: plain_name_def safe_name_def)

lemma hold_frame:
  assumes "plain_name n" "plain_name n'" "n \<noteq> n'"
  shows "readChatHold n' age now (writeChatHold n msgId reason kind at files) = readChatHold n' age now files"
  using assms by (simp add: readChatHold_def writeChatHold_def Let_def safe_name_plain)

subsection \<open>Who a session is waiting for\<close>

record waiting =
  wt_target :: string
  wt_since :: int
  wt_pid :: nat
  wt_expiresAt :: int

definition writeWaiting :: "string \<Rightarrow> waiting \<Rightarrow> (string \<rightharpoonup> waiting) \<Rightarrow> (string \<rightharpoonup> waiting)" where
  "writeWaiting name value files =
     (if wt_target value \<noteq> [] \<and> length (wt_target value) \<le> 256 then files(safe_name name \<mapsto> value) else files)"

definition clearWaiting :: "string \<Rightarrow> (string \<rightharpoonup> waiting) \<Rightarrow> (string \<rightharpoonup> waiting)" where
  "clearWaiting name files = files(safe_name name := None)"

definition readWaiting :: "(nat \<Rightarrow> bool) \<Rightarrow> string \<Rightarrow> int \<Rightarrow> (string \<rightharpoonup> waiting) \<Rightarrow> waiting option" where
  "readWaiting alive name now files =
     (case files (safe_name name) of
        None \<Rightarrow> None
      | Some v \<Rightarrow> if now \<ge> wt_expiresAt v then None else if \<not> alive (wt_pid v) then None else Some v)"

lemma readWaiting_iff:
  "readWaiting alive name now files = Some v \<longleftrightarrow>
     files (safe_name name) = Some v \<and> now < wt_expiresAt v \<and> alive (wt_pid v)"
  by (auto simp: readWaiting_def split: option.splits)

text \<open>A waiter that was killed stops being reported, at the latest when its deadline passes.\<close>

lemma waiting_expires:
  assumes "files = writeWaiting name v files0" "wt_target v \<noteq> []" "length (wt_target v) \<le> 256"
  shows "readWaiting alive name now files = (if now < wt_expiresAt v \<and> alive (wt_pid v) then Some v else None)"
  using assms by (auto simp: readWaiting_def writeWaiting_def)

end
