(* ===== verification/NativeDelivery.thy ===== *)
theory NativeDelivery
  imports RuntimeInput Format StatusFiles
begin

text \<open>
  Handing letters to a session whose runtime takes turns itself (\<open>src/chat/nativeRuntime.ts\<close>).  The
  ledger is the only queue; the session's input slot is one durable dispatch receipt.

  A pass is a list of effects in the order the code awaits them, and what it returns or throws after
  them.  The daemon may die between any two effects, and an effect that throws ends the pass, so every
  prefix of the list is a way the pass can end.
\<close>

definition OWNER_SILENT_MS :: int where "OWNER_SILENT_MS = 30000"

definition managedPeer :: "string \<Rightarrow> session \<Rightarrow> managed_peer" where
  "managedPeer machine s = \<lparr>mp_machine = machine, mp_agent = s_agent s, mp_session = s_name s, mp_thread = s_uuid s\<rparr>"

text \<open>Everything a pass reads besides the cursors.\<close>

record native_reads =
  nr_machine :: string
  nr_ledger :: "ledger_slot list"
  nr_acked :: "string set"
  nr_now :: nat
  nr_rateHeld :: bool
  nr_live :: "rt_snapshot option"
  nr_current :: "session option"
  nr_contextPending :: bool
  nr_input :: input_file
  nr_hold :: "hold_view option"
  nr_digest :: "string \<Rightarrow> nat list"
  nr_frame :: "chat_message \<Rightarrow> string"

datatype native_effect =
  EHold string string
| EAdvance string op_phase "string option"
| ESave cursors
| EInput runtime_input
| EAck string
| EClearHold

fun native_state_name :: "native_state \<Rightarrow> string" where
  "native_state_name NsWorking = ''working''"
| "native_state_name NsIdle = ''idle''"
| "native_state_name NsWaitingApproval = ''waiting-approval''"
| "native_state_name NsWaitingInput = ''waiting-input''"
| "native_state_name NsUnknown = ''unknown''"

fun turn_phase :: "turn_status \<Rightarrow> op_phase" where
  "turn_phase TsCompleted = Completed"
| "turn_phase TsInterrupted = Interrupted"
| "turn_phase TsFailed = Failed"
| "turn_phase TsInProgress = Admitted"

definition queued_input :: "native_reads \<Rightarrow> chat_message \<Rightarrow> string \<Rightarrow> runtime_input" where
  "queued_input r msg nativeId = \<lparr>ri_messageId = m_id msg, ri_nativeId = nativeId, ri_text = nr_frame r msg,
     ri_phase = PhQueued, ri_turnId = None, ri_dispatchedAt = None, ri_kind = KindLetter,
     ri_images = m_images msg, ri_turnOptions = m_turnOptions msg, ri_continuations = [], ri_terminal = None\<rparr>"

definition turn_over :: "rt_snapshot \<Rightarrow> string \<Rightarrow> bool" where
  "turn_over sn turnId = (case sn_turn sn of None \<Rightarrow> False
     | Some t \<Rightarrow> nt_id t = turnId \<and> nt_status t \<noteq> TsInProgress)"

text \<open>\<open>Date.parse(pickup.injectedAt)\<close> as an id needs it: \<open>BigInt(NaN)\<close> throws.\<close>

definition repaired_id :: "native_reads \<Rightarrow> agent_kind \<Rightarrow> string \<Rightarrow> stamp \<Rightarrow> string + string" where
  "repaired_id r agent messageId injectedAt =
     (if agent = Custom \<or> agent = Codex then Inr messageId
      else case date_parse injectedAt of
          None \<Rightarrow> Inl ''RangeError''
        | Some at \<Rightarrow> Inr (runtimeInputId (nr_digest r) agent messageId (nat at)))"

definition previousComplete :: "session \<Rightarrow> rt_snapshot \<Rightarrow> runtime_input option \<Rightarrow> bool" where
  "previousComplete s sn input = (case input of
      None \<Rightarrow> True
    | Some i \<Rightarrow> ri_phase i = PhAccepted
        \<and> (if s_agent s = Custom then ri_terminal i \<noteq> None else turn_over sn (inputTurnId i)))"

type_synonym pass_result = "native_effect list \<times> (string + nat)"

definition silent_owner_text :: "string \<Rightarrow> string" where
  "silent_owner_text name = ''the session's owner has not taken this letter; an owner started by an earlier ccmux takes none ''
     @ em_dash @ '' ccmux restart '' @ name"

text \<open>A pickup whose input is not in the slot: the crash between the cursor and the slot.\<close>

definition repair_pickup :: "native_reads \<Rightarrow> session \<Rightarrow> rt_snapshot \<Rightarrow> runtime_input option \<Rightarrow> pickup \<Rightarrow> pass_result" where
  "repair_pickup r s sn input pk =
     (let slot = (case pk_index pk of None \<Rightarrow> None | Some i \<Rightarrow> if i < length (nr_ledger r) then nr_ledger r ! i else None)
      in case slot of
          Some msg \<Rightarrow>
            (if map_option nb_phase (pk_native pk) = Some Intent \<and> previousComplete s sn input
                \<and> sn_state sn = NsIdle \<and> m_id msg = pk_message pk
             then (if nr_contextPending r
                   then ([EHold (pk_message pk) ''native context operation is unresolved''], Inr 0)
                   else case repaired_id r (s_agent s) (m_id msg) (pk_injectedAt pk) of
                       Inl e \<Rightarrow> ([], Inl e)
                     | Inr nativeId \<Rightarrow> ([EInput (queued_input r msg nativeId)], Inr 1))
             else ([EHold (pk_message pk) ''native dispatch receipt is unavailable''], Inr 0))
        | None \<Rightarrow> ([EHold (pk_message pk) ''native dispatch receipt is unavailable''], Inr 0))"

text \<open>The slot holds the letter of the pickup, not accepted yet.\<close>

definition await_pickup :: "native_reads \<Rightarrow> session \<Rightarrow> rt_snapshot \<Rightarrow> runtime_input \<Rightarrow> pickup \<Rightarrow> pass_result" where
  "await_pickup r s sn i pk =
     (if ri_phase i = PhUncertain
      then ([EHold (pk_message pk) ''native acceptance is indeterminate; automatic resubmission is blocked''], Inr 0)
      else if ri_phase i = PhQueued \<and> sn_state sn = NsIdle
          \<and> (case date_parse (pk_injectedAt pk) of None \<Rightarrow> False | Some at \<Rightarrow> int (nr_now r) - at > OWNER_SILENT_MS)
          \<and> Option.bind (nr_hold r) hv_msgId \<noteq> Some (pk_message pk)
      then ([EHold (pk_message pk) (silent_owner_text (s_name s))], Inr 0)
      else ([], Inr 0))"

text \<open>The slot holds the letter of the pickup and the runtime accepted it.\<close>

definition settle_pickup ::
  "session \<Rightarrow> rt_snapshot \<Rightarrow> runtime_input \<Rightarrow> string \<Rightarrow> cursors \<Rightarrow> pickup \<Rightarrow> pass_result" where
  "settle_pickup s sn i key cs pk =
     (let turnId = inputTurnId i;
          pk' = pk\<lparr>pk_native := Some \<lparr>nb_phase = Accepted, nb_turn = Some turnId\<rparr>\<rparr>;
          cs1 = cs\<lparr>c_pickups := (c_pickups cs)(key \<mapsto> pk')\<rparr>;
          admitted = EAdvance (pk_message pk) Admitted (Some turnId);
          currentTurnId = (if ri_continuations i = [] then turnId else ct_turnId (last (ri_continuations i)));
          terminal = (if s_agent s = Custom then ri_terminal i \<noteq> None else turn_over sn currentTurnId)
      in if terminal \<and> sn_state sn = NsIdle
         then (admitted
             # (case sn_turn sn of
                  Some t \<Rightarrow> (if nt_status t \<noteq> TsInProgress
                     then [EAdvance (pk_message pk) (turn_phase (nullish (ri_terminal i) (nt_status t))) (Some turnId)] else [])
                | None \<Rightarrow> [])
             @ (if pk_conditional pk then [EAck (pk_message pk)] else [])
             @ [EClearHold, ESave (cs1\<lparr>c_pickups := (c_pickups cs1)(key := None)\<rparr>)], Inr 0)
         else ([admitted, ESave cs1], Inr 0))"

text \<open>No pickup: the next letter is bound to the slot.\<close>

definition bind_letter ::
  "native_reads \<Rightarrow> session \<Rightarrow> rt_snapshot \<Rightarrow> string \<Rightarrow> cursors \<Rightarrow> chat_message \<times> nat \<Rightarrow> pass_result" where
  "bind_letter r s sn key cs pick = (case pick of (msg, idx) \<Rightarrow>
     (if nr_contextPending r then ([EHold (m_id msg) ''native context operation is unresolved''], Inr 0)
      else if nr_rateHeld r \<or> sn_state sn \<noteq> NsIdle \<or> map_option nt_status (sn_turn sn) = Some TsInProgress
      then ([EHold (m_id msg) (if nr_rateHeld r then ''native chat inbound rate limit''
               else ''native runtime is '' @ native_state_name (sn_state sn))], Inr 0)
      else ([EAdvance (m_id msg) Uncertain None,
             ESave (armPickup cs key msg idx (Instant (int (nr_now r))) None
               (Some \<lparr>nb_phase = Intent, nb_turn = None\<rparr>)),
             EInput (queued_input r msg (runtimeInputId (nr_digest r) (s_agent s) (m_id msg) (nr_now r))),
             EClearHold], Inr 1)))"

definition same_registration :: "session option \<Rightarrow> session \<Rightarrow> bool" where
  "same_registration current s = (case current of None \<Rightarrow> False
     | Some c \<Rightarrow> s_uuid c = s_uuid s \<and> s_generation c = s_generation s
         \<and> map_option ns_id (s_native c) = map_option ns_id (s_native s))"

definition deliverLocked :: "native_reads \<Rightarrow> session \<Rightarrow> cursors \<Rightarrow> pass_result" where
  "deliverLocked r s cs =
     (let key = managedPeerKey (managedPeer (nr_machine r) s);
          now = int (nr_now r);
          pick = fst (pickPendingDelivery (nr_ledger r) key (nullish (c_delivered cs key) 0) (nr_acked r) now)
      in case pendingMessageId (nr_ledger r) key cs (nr_acked r) now of
          None \<Rightarrow> ([], Inr 0)
        | Some messageId \<Rightarrow>
            (case nr_live r of
               None \<Rightarrow> ([EHold messageId ''native runtime is unavailable''], Inr 0)
             | Some sn \<Rightarrow>
                 (if \<not> same_registration (nr_current r) s
                  then ([], Inl ''Managed identity changed before native dispatch'')
                  else case readRuntimeInput (nr_input r) of
                      Inl e \<Rightarrow> ([], Inl e)
                    | Inr input \<Rightarrow>
                        (case c_pickups cs key of
                           Some pk \<Rightarrow>
                             (case input of
                                Some i \<Rightarrow>
                                  (if ri_messageId i \<noteq> pk_message pk then repair_pickup r s sn input pk
                                   else if ri_phase i \<noteq> PhAccepted then await_pickup r s sn i pk
                                   else settle_pickup s sn i key cs pk)
                              | None \<Rightarrow> repair_pickup r s sn None pk)
                         | None \<Rightarrow> (case pick of None \<Rightarrow> ([], Inr 0) | Some p \<Rightarrow> bind_letter r s sn key cs p)))))"

text \<open>\<open>deliverNativeRuntimePending\<close>: a pass that throws leaves the reason as a hold.\<close>

definition nativeDeliveryHold :: "string \<Rightarrow> string" where
  "nativeDeliveryHold e = ''native delivery failed: '' @ e"

definition deliverNativeRuntimePending :: "native_reads \<Rightarrow> session \<Rightarrow> cursors \<Rightarrow> pass_result" where
  "deliverNativeRuntimePending r s cs =
     (case deliverLocked r s cs of
        (es, Inr n) \<Rightarrow> (es, Inr n)
      | (es, Inl e) \<Rightarrow>
          (case pendingMessageId (nr_ledger r) (managedPeerKey (managedPeer (nr_machine r) s)) cs (nr_acked r) (int (nr_now r)) of
             None \<Rightarrow> (es, Inl e)
           | Some held \<Rightarrow> (es @ [EHold held (nativeDeliveryHold e)], Inl e)))"

end
