(* ===== verification/NativeInv.thy ===== *)
theory NativeInv
  imports NativeDelivery
begin

text \<open>
  Every letter reaches the input slot of its session at most once, whatever the daemon, the owner of
  the session and the other processes do, and wherever the daemon dies.  The state is what is stored:
  ledger, cursors, ack log, input slot, holds; \<open>nw_written\<close> lists the letters written to the slot.
\<close>

record native_world =
  nw_ledger :: "ledger_slot list"
  nw_cursors :: cursors
  nw_acks :: "ack_line list"
  nw_input :: input_file
  nw_holds :: hold_files
  nw_journal :: "(string \<times> op_phase \<times> string option) list"
  nw_written :: "string list"

fun native_apply :: "string \<Rightarrow> int \<Rightarrow> native_effect \<Rightarrow> native_world \<Rightarrow> native_world" where
  "native_apply name now (EHold i reason) w = w\<lparr>nw_holds := writeChatHold name i reason HkOther now (nw_holds w)\<rparr>"
| "native_apply name now (EAdvance i ph t) w = w\<lparr>nw_journal := nw_journal w @ [(i, ph, t)]\<rparr>"
| "native_apply name now (ESave cs) w =
     w\<lparr>nw_cursors := cs\<lparr>c_read := furthest (c_read (nw_cursors w)) (c_read cs)\<rparr>\<rparr>"
| "native_apply name now (EInput i) w =
     w\<lparr>nw_input := InputStored i, nw_written := nw_written w @ [ri_messageId i]\<rparr>"
| "native_apply name now (EAck i) w = w\<lparr>nw_acks := appendAck (nw_acks w) i ByDaemon\<rparr>"
| "native_apply name now EClearHold w = w\<lparr>nw_holds := clearChatHold name (nw_holds w)\<rparr>"

definition input_id :: "input_file \<Rightarrow> string option" where
  "input_id f = (case f of InputStored i \<Rightarrow> Some (ri_messageId i) | _ \<Rightarrow> None)"

text \<open>The reads of a pass that are determined by the stored state; the rest is up to the environment.\<close>

definition reads_of :: "native_world \<Rightarrow> native_reads \<Rightarrow> bool" where
  "reads_of w r = (nr_ledger r = nw_ledger w \<and> nr_acked r = loadAckedIds (nw_acks w) \<and> nr_input r = nw_input w)"

definition fresh_id :: "native_world \<Rightarrow> string \<Rightarrow> bool" where
  "fresh_id w i = (\<forall>msg. Some msg \<in> set (nw_ledger w) \<longrightarrow> m_id msg \<noteq> i)"

inductive native_step :: "string \<Rightarrow> session \<Rightarrow> native_world \<Rightarrow> native_world \<Rightarrow> bool"
  for machine :: string and s :: session where
  pass: "reads_of w r \<Longrightarrow> nr_machine r = machine \<Longrightarrow>
    native_step machine s w
      (fold (native_apply (s_name s) (int (nr_now r))) (take k (fst (deliverNativeRuntimePending r s (nw_cursors w)))) w)"
| owner: "nw_input w = InputStored i \<Longrightarrow> ri_messageId i' = ri_messageId i \<Longrightarrow>
    native_step machine s w (w\<lparr>nw_input := InputStored i'\<rparr>)"
| append: "(case slot of None \<Rightarrow> True | Some msg \<Rightarrow> fresh_id w (m_id msg)) \<Longrightarrow>
    native_step machine s w (w\<lparr>nw_ledger := nw_ledger w @ [slot]\<rparr>)"
| ack: "native_step machine s w (w\<lparr>nw_acks := appendAck (nw_acks w) i by'\<rparr>)"
| others: "c_pickups cs key = c_pickups (nw_cursors w) key
    \<Longrightarrow> nullish (c_delivered (nw_cursors w) key) 0 \<le> nullish (c_delivered cs key) 0
    \<Longrightarrow> key = managedPeerKey (managedPeer machine s) \<Longrightarrow> native_step machine s w (w\<lparr>nw_cursors := cs\<rparr>)"

inductive_cases native_stepE: "native_step machine s w w'"

subsection \<open>The invariant\<close>

definition uniq_ids :: "ledger_slot list \<Rightarrow> bool" where
  "uniq_ids ledger = (\<forall>i j a b. i < length ledger \<longrightarrow> j < length ledger \<longrightarrow> ledger ! i = Some a \<longrightarrow> ledger ! j = Some b
     \<longrightarrow> m_id a = m_id b \<longrightarrow> i = j)"

text \<open>The letter with this id is not picked again.\<close>

definition settled_letter :: "string \<Rightarrow> native_world \<Rightarrow> string \<Rightarrow> bool" where
  "settled_letter key w x = (\<forall>i msg. i < length (nw_ledger w) \<longrightarrow> nw_ledger w ! i = Some msg \<longrightarrow> m_id msg = x
     \<longrightarrow> (if isConditional msg then x \<in> loadAckedIds (nw_acks w) else i < nullish (c_delivered (nw_cursors w) key) 0))"

definition pickup_ok :: "string \<Rightarrow> native_world \<Rightarrow> pickup \<Rightarrow> bool" where
  "pickup_ok key w pk = (\<exists>i msg. pk_index pk = Some i \<and> i < length (nw_ledger w) \<and> nw_ledger w ! i = Some msg
     \<and> m_id msg = pk_message pk \<and> pk_conditional pk = isConditional msg
     \<and> (\<not> isConditional msg \<longrightarrow> i < nullish (c_delivered (nw_cursors w) key) 0))"

definition written_ok :: "string \<Rightarrow> native_world \<Rightarrow> string \<Rightarrow> bool" where
  "written_ok key w x = (\<not> fresh_id w x
     \<and> (if map_option pk_message (c_pickups (nw_cursors w) key) = Some x then input_id (nw_input w) = Some x
        else settled_letter key w x))"

definition native_inv :: "string \<Rightarrow> native_world \<Rightarrow> bool" where
  "native_inv key w = (uniq_ids (nw_ledger w) \<and> distinct (nw_written w)
     \<and> (\<forall>pk. c_pickups (nw_cursors w) key = Some pk \<longrightarrow> pickup_ok key w pk)
     \<and> (\<forall>x\<in>set (nw_written w). written_ok key w x)
     \<and> (\<forall>x. input_id (nw_input w) = Some x \<longrightarrow> x \<in> set (nw_written w)))"

lemma native_invI:
  assumes "uniq_ids (nw_ledger w)" "distinct (nw_written w)"
    "\<And>pk. c_pickups (nw_cursors w) key = Some pk \<Longrightarrow> pickup_ok key w pk"
    "\<And>x. x \<in> set (nw_written w) \<Longrightarrow> written_ok key w x"
    "\<And>x. input_id (nw_input w) = Some x \<Longrightarrow> x \<in> set (nw_written w)"
  shows "native_inv key w"
  using assms by (simp add: native_inv_def)

lemma native_invD:
  assumes "native_inv key w"
  shows "uniq_ids (nw_ledger w)" "distinct (nw_written w)"
    "\<And>pk. c_pickups (nw_cursors w) key = Some pk \<Longrightarrow> pickup_ok key w pk"
    "\<And>x. x \<in> set (nw_written w) \<Longrightarrow> written_ok key w x"
    "\<And>x. input_id (nw_input w) = Some x \<Longrightarrow> x \<in> set (nw_written w)"
  using assms by (simp_all add: native_inv_def)

lemma settled_mono:
  assumes s: "settled_letter key w x" and l: "nw_ledger v = nw_ledger w"
    and a: "loadAckedIds (nw_acks w) \<subseteq> loadAckedIds (nw_acks v)"
    and d: "nullish (c_delivered (nw_cursors w) key) 0 \<le> nullish (c_delivered (nw_cursors v) key) 0"
  shows "settled_letter key v x"
  unfolding settled_letter_def l
proof (intro allI impI)
  fix i msg
  assume "i < length (nw_ledger w)" "nw_ledger w ! i = Some msg" "m_id msg = x"
  then have "if isConditional msg then x \<in> loadAckedIds (nw_acks w) else i < nullish (c_delivered (nw_cursors w) key) 0"
    using s unfolding settled_letter_def by blast
  with a d show "if isConditional msg then x \<in> loadAckedIds (nw_acks v) else i < nullish (c_delivered (nw_cursors v) key) 0"
    by (auto split: if_splits)
qed

text \<open>Holds and journal entries do not matter to it.\<close>

definition quiet :: "native_effect \<Rightarrow> bool" where
  "quiet e = (case e of EHold _ _ \<Rightarrow> True | EAdvance _ _ _ \<Rightarrow> True | EClearHold \<Rightarrow> True | _ \<Rightarrow> False)"

lemmas inv_defs = native_inv_def uniq_ids_def written_ok_def settled_letter_def pickup_ok_def fresh_id_def

lemma quiet_inv: "quiet e \<Longrightarrow> native_inv key (native_apply name now e w) \<longleftrightarrow> native_inv key w"
  by (cases e) (simp_all add: quiet_def inv_defs)

lemma quiet_step: "native_inv key w \<Longrightarrow> quiet e \<Longrightarrow> native_inv key (native_apply name now e w)"
  by (simp only: quiet_inv)

lemma quiet_fold: "\<forall>e\<in>set es. quiet e \<Longrightarrow> native_inv key w \<Longrightarrow> native_inv key (fold (native_apply name now) es w)"
  by (induction es arbitrary: w) (simp_all add: quiet_inv)

lemma not_fresh: "i < length (nw_ledger w) \<Longrightarrow> nw_ledger w ! i = Some msg \<Longrightarrow> \<not> fresh_id w (m_id msg)"
  unfolding fresh_id_def by (metis nth_mem)

text \<open>Writing the slot for the bound letter, when the slot does not hold it yet.\<close>

lemma write_input_inv:
  assumes inv: "native_inv key w" and pk: "c_pickups (nw_cursors w) key = Some pk"
    and other: "input_id (nw_input w) \<noteq> Some (pk_message pk)" and i: "ri_messageId i = pk_message pk"
  shows "native_inv key (native_apply name now (EInput i) w)"
proof (rule native_invI)
  note D = native_invD [OF inv]
  obtain j msg where msg: "j < length (nw_ledger w)" "nw_ledger w ! j = Some msg" "m_id msg = pk_message pk"
    using D(3) [OF pk] by (auto simp: pickup_ok_def)
  have new: "pk_message pk \<notin> set (nw_written w)"
    using D(4) [of "pk_message pk"] pk other by (auto simp: written_ok_def)
  show "uniq_ids (nw_ledger (native_apply name now (EInput i) w))" using D(1) by simp
  show "distinct (nw_written (native_apply name now (EInput i) w))" using D(2) new i by simp
  show "pickup_ok key (native_apply name now (EInput i) w) q"
    if "c_pickups (nw_cursors (native_apply name now (EInput i) w)) key = Some q" for q
    using D(3) that by (simp add: pickup_ok_def)
  show "written_ok key (native_apply name now (EInput i) w) x"
    if "x \<in> set (nw_written (native_apply name now (EInput i) w))" for x
  proof (cases "x = pk_message pk")
    case True
    with pk i msg not_fresh [OF msg(1,2)] show ?thesis by (simp add: written_ok_def input_id_def fresh_id_def)
  next
    case False
    with that i have "written_ok key w x" using D(4) by simp
    with False pk show ?thesis by (simp add: written_ok_def settled_letter_def fresh_id_def)
  qed
  show "x \<in> set (nw_written (native_apply name now (EInput i) w))"
    if "input_id (nw_input (native_apply name now (EInput i) w)) = Some x" for x
    using that by (simp add: input_id_def)
qed

text \<open>Saving cursors that differ only in the evidence kept with the pickup.\<close>

lemma save_same_inv:
  assumes inv: "native_inv key w" and pk: "c_pickups (nw_cursors w) key = Some pk"
    and cs: "c_delivered cs = c_delivered (nw_cursors w)" "c_pickups cs key = Some (pk\<lparr>pk_native := nb\<rparr>)"
  shows "native_inv key (native_apply name now (ESave cs) w)"
proof (rule native_invI)
  note D = native_invD [OF inv]
  show "uniq_ids (nw_ledger (native_apply name now (ESave cs) w))"
    "distinct (nw_written (native_apply name now (ESave cs) w))" using D(1,2) by simp_all
  show "pickup_ok key (native_apply name now (ESave cs) w) q"
    if "c_pickups (nw_cursors (native_apply name now (ESave cs) w)) key = Some q" for q
    using D(3) [OF pk] that cs by (auto simp: pickup_ok_def)
  show "written_ok key (native_apply name now (ESave cs) w) x"
    if "x \<in> set (nw_written (native_apply name now (ESave cs) w))" for x
    using D(4) [of x] that cs pk by (auto simp: written_ok_def settled_letter_def fresh_id_def split: if_splits)
  show "x \<in> set (nw_written (native_apply name now (ESave cs) w))"
    if "input_id (nw_input (native_apply name now (ESave cs) w)) = Some x" for x
    using that D(5) by simp
qed

text \<open>Dropping the pickup of a letter that is acked, or behind the cursor.\<close>

lemma save_done_inv:
  assumes inv: "native_inv key w" and pk: "c_pickups (nw_cursors w) key = Some pk"
    and acked: "pk_conditional pk \<Longrightarrow> pk_message pk \<in> loadAckedIds (nw_acks w)"
    and cs: "c_delivered cs = c_delivered (nw_cursors w)" "c_pickups cs key = None"
  shows "native_inv key (native_apply name now (ESave cs) w)"
proof (rule native_invI)
  note D = native_invD [OF inv]
  obtain j msg where msg: "j < length (nw_ledger w)" "nw_ledger w ! j = Some msg" "m_id msg = pk_message pk"
    "pk_conditional pk = isConditional msg"
    "\<not> isConditional msg \<Longrightarrow> j < nullish (c_delivered (nw_cursors w) key) 0"
    using D(3) [OF pk] by (auto simp: pickup_ok_def)
  have set: "settled_letter key w (pk_message pk)"
    unfolding settled_letter_def
  proof (intro allI impI)
    fix i m
    assume m: "i < length (nw_ledger w)" "nw_ledger w ! i = Some m" "m_id m = pk_message pk"
    then have "i = j"
      using D(1) [unfolded uniq_ids_def, rule_format, OF m(1) msg(1) m(2) msg(2)] msg(3) by simp
    with m msg acked show "if isConditional m then pk_message pk \<in> loadAckedIds (nw_acks w)
        else i < nullish (c_delivered (nw_cursors w) key) 0" by auto
  qed
  show "uniq_ids (nw_ledger (native_apply name now (ESave cs) w))"
    "distinct (nw_written (native_apply name now (ESave cs) w))" using D(1,2) by simp_all
  show "pickup_ok key (native_apply name now (ESave cs) w) q"
    if "c_pickups (nw_cursors (native_apply name now (ESave cs) w)) key = Some q" for q
    using that cs by simp
  show "written_ok key (native_apply name now (ESave cs) w) x"
    if "x \<in> set (nw_written (native_apply name now (ESave cs) w))" for x
    using D(4) [of x] that cs pk set by (auto simp: written_ok_def settled_letter_def fresh_id_def split: if_splits)
  show "x \<in> set (nw_written (native_apply name now (ESave cs) w))"
    if "input_id (nw_input (native_apply name now (ESave cs) w)) = Some x" for x
    using that D(5) by simp
qed

text \<open>Binding a letter the cursors still offer.\<close>

lemma save_armed_inv:
  assumes inv: "native_inv key w" and none: "c_pickups (nw_cursors w) key = None"
    and pick: "pickPendingDelivery (nw_ledger w) key (nullish (c_delivered (nw_cursors w) key) 0)
      (loadAckedIds (nw_acks w)) t = (Some (msg, idx), cur)"
  shows "native_inv key (native_apply name now (ESave (armPickup (nw_cursors w) key msg idx at line nb)) w)"
    "m_id msg \<notin> set (nw_written w)"
proof -
  note D = native_invD [OF inv]
  note P = pick_SomeD [OF pick]
  show new: "m_id msg \<notin> set (nw_written w)"
  proof
    assume "m_id msg \<in> set (nw_written w)"
    then have "settled_letter key w (m_id msg)" using D(4) none by (auto simp: written_ok_def)
    then have "if isConditional msg then m_id msg \<in> loadAckedIds (nw_acks w)
        else idx < nullish (c_delivered (nw_cursors w) key) 0"
      using P unfolding settled_letter_def by blast
    with P show False by (simp split: if_splits)
  qed
  let ?w = "native_apply name now (ESave (armPickup (nw_cursors w) key msg idx at line nb)) w"
  have del: "nullish (c_delivered (nw_cursors w) key) 0 \<le> nullish (c_delivered (nw_cursors ?w) key) 0"
    "\<not> isConditional msg \<Longrightarrow> nullish (c_delivered (nw_cursors ?w) key) 0 = Suc idx"
    using P by (auto simp: armPickup_def Let_def split: if_splits)
  have same: "nw_ledger ?w = nw_ledger w" "nw_acks ?w = nw_acks w" "nw_written ?w = nw_written w"
    "nw_input ?w = nw_input w" by simp_all
  have pk: "c_pickups (nw_cursors ?w) key = Some \<lparr>pk_message = m_id msg, pk_injectedAt = at, pk_index = Some idx,
      pk_conditional = isConditional msg, pk_line = line, pk_native = nb\<rparr>"
    by (simp add: armPickup_pickup)
  have mono: "settled_letter key w x \<Longrightarrow> settled_letter key ?w x" for x
    by (rule settled_mono [OF _ same(1) _ del(1)]) simp_all
  show "native_inv key ?w"
  proof (rule native_invI)
    show "uniq_ids (nw_ledger ?w)" "distinct (nw_written ?w)" using D(1,2) same by simp_all
    show "pickup_ok key ?w q" if "c_pickups (nw_cursors ?w) key = Some q" for q
      using that P del(2) unfolding pk pickup_ok_def same by auto
    show "written_ok key ?w x" if "x \<in> set (nw_written ?w)" for x
    proof -
      have x: "x \<in> set (nw_written w)" "x \<noteq> m_id msg" using that new same by auto
      then have "\<not> fresh_id w x" "settled_letter key w x"
        using D(4) [OF x(1)] none by (auto simp: written_ok_def)
      with mono x(2) show ?thesis unfolding written_ok_def pk fresh_id_def same by simp
    qed
    show "x \<in> set (nw_written ?w)" if "input_id (nw_input ?w) = Some x" for x
      using that D(5) unfolding same by simp
  qed
qed

subsection \<open>Every pass, cut anywhere\<close>

fun along :: "('w \<Rightarrow> bool) \<Rightarrow> ('e \<Rightarrow> 'w \<Rightarrow> 'w) \<Rightarrow> 'e list \<Rightarrow> 'w \<Rightarrow> bool" where
  "along P f [] w = P w"
| "along P f (e # es) w = (P w \<and> along P f es (f e w))"

lemma along_take: "along P f es w \<Longrightarrow> P (fold f (take k es) w)"
proof (induction es arbitrary: w k)
  case (Cons e es)
  then show ?case by (cases k) simp_all
qed simp

lemma along_append: "along P f (a @ b) w \<longleftrightarrow> along P f a w \<and> along P f b (fold f a w)"
proof (induction a arbitrary: w)
  case Nil
  show ?case by (cases b) auto
next
  case (Cons e es)
  then show ?case by simp
qed

lemma bind_inv:
  assumes inv: "native_inv key w" and none: "c_pickups (nw_cursors w) key = None"
    and pick: "pickPendingDelivery (nw_ledger w) key (nullish (c_delivered (nw_cursors w) key) 0)
      (loadAckedIds (nw_acks w)) t = (Some (msg, idx), cur)"
  shows "along (native_inv key) (native_apply name now) (fst (bind_letter r s sn key (nw_cursors w) (msg, idx))) w"
proof -
  let ?nb = "Some \<lparr>nb_phase = Intent, nb_turn = None\<rparr>"
  let ?save = "ESave (armPickup (nw_cursors w) key msg idx (Instant (int (nr_now r))) None ?nb)"
  let ?i = "queued_input r msg (runtimeInputId (nr_digest r) (s_agent s) (m_id msg) (nr_now r))"
  let ?w0 = "native_apply name now (EAdvance (m_id msg) Uncertain None) w"
  let ?w1 = "native_apply name now ?save ?w0"
  let ?w2 = "native_apply name now (EInput ?i) ?w1"
  have q: "native_inv key ?w0" by (rule quiet_step [OF inv]) (simp add: quiet_def)
  have w1: "native_inv key ?w1" "m_id msg \<notin> set (nw_written w)"
    using save_armed_inv [OF q, of t msg idx cur] none pick by simp_all
  have pk: "c_pickups (nw_cursors ?w1) key = Some \<lparr>pk_message = m_id msg, pk_injectedAt = Instant (int (nr_now r)),
      pk_index = Some idx, pk_conditional = isConditional msg, pk_line = None, pk_native = ?nb\<rparr>"
    by (simp add: armPickup_pickup)
  have free: "input_id (nw_input w) \<noteq> Some (m_id msg)" using w1(2) native_invD(5) [OF inv] by blast
  have w2: "native_inv key ?w2"
    by (rule write_input_inv [OF w1(1) pk]) (use free in \<open>simp_all add: queued_input_def\<close>)
  have w3: "native_inv key (native_apply name now EClearHold ?w2)"
    by (rule quiet_step [OF w2]) (simp add: quiet_def)
  have hold: "native_inv key (native_apply name now (EHold x y) w)" for x y
    by (rule quiet_step [OF inv]) (simp add: quiet_def)
  show ?thesis
    using q w1(1) w2 w3 inv hold by (simp add: bind_letter_def del: native_apply.simps)
qed

lemma advances_along:
  assumes "native_inv key w" "\<forall>e\<in>set as. \<exists>a b c. e = EAdvance a b c"
  shows "along (native_inv key) (native_apply name now) as w
    \<and> nw_cursors (fold (native_apply name now) as w) = nw_cursors w
    \<and> nw_acks (fold (native_apply name now) as w) = nw_acks w"
  using assms
proof (induction as arbitrary: w)
  case (Cons e es)
  then have "native_inv key (native_apply name now e w)" by (intro quiet_step) (auto simp: quiet_def)
  moreover have "nw_cursors (native_apply name now e w) = nw_cursors w" "nw_acks (native_apply name now e w) = nw_acks w"
    using Cons.prems(2) by auto
  ultimately show ?case using Cons by (simp del: native_apply.simps)
qed simp

lemma ack_step:
  assumes inv: "native_inv key w"
  shows "native_inv key (w\<lparr>nw_acks := appendAck (nw_acks w) i by'\<rparr>)"
proof (rule native_invI)
  note D = native_invD [OF inv]
  let ?w = "w\<lparr>nw_acks := appendAck (nw_acks w) i by'\<rparr>"
  have same: "nw_ledger ?w = nw_ledger w" "nw_cursors ?w = nw_cursors w" "nw_written ?w = nw_written w"
    "nw_input ?w = nw_input w" by simp_all
  show "uniq_ids (nw_ledger ?w)" "distinct (nw_written ?w)" using D(1,2) by simp_all
  show "pickup_ok key ?w q" if "c_pickups (nw_cursors ?w) key = Some q" for q
    using D(3) that by (simp add: pickup_ok_def)
  show "written_ok key ?w x" if "x \<in> set (nw_written ?w)" for x
  proof -
    have "settled_letter key w x \<Longrightarrow> settled_letter key ?w x" by (simp add: settled_letter_def)
    moreover have "written_ok key w x" using D(4) that by simp
    ultimately show ?thesis by (simp add: written_ok_def fresh_id_def split: if_splits)
  qed
  show "x \<in> set (nw_written ?w)" if "input_id (nw_input ?w) = Some x" for x using that D(5) by simp
qed

lemma settle_inv:
  assumes inv: "native_inv key w" and pk: "c_pickups (nw_cursors w) key = Some pk"
  shows "along (native_inv key) (native_apply name now) (fst (settle_pickup s sn i key (nw_cursors w) pk)) w"
proof -
  let ?pk = "pk\<lparr>pk_native := Some \<lparr>nb_phase = Accepted, nb_turn = Some (inputTurnId i)\<rparr>\<rparr>"
  let ?cs = "(nw_cursors w)\<lparr>c_pickups := (c_pickups (nw_cursors w))(key \<mapsto> ?pk)\<rparr>"
  let ?cs' = "?cs\<lparr>c_pickups := (c_pickups ?cs)(key := None)\<rparr>"
  have kept: "along (native_inv key) (native_apply name now) [ESave ?cs] v"
    if "native_inv key v" "nw_cursors v = nw_cursors w" for v
    using that save_same_inv [OF that(1), of pk ?cs] pk by (simp del: native_apply.simps)
  have gone: "along (native_inv key) (native_apply name now)
      ((if pk_conditional pk then [EAck (pk_message pk)] else []) @ [EClearHold, ESave ?cs']) v"
    if v: "native_inv key v" "nw_cursors v = nw_cursors w" for v
  proof -
    let ?v = "if pk_conditional pk then native_apply name now (EAck (pk_message pk)) v else v"
    have a: "native_inv key ?v" using v ack_step by simp
    have b: "native_inv key (native_apply name now EClearHold ?v)" by (rule quiet_step [OF a]) (simp add: quiet_def)
    have c: "native_inv key (native_apply name now (ESave ?cs') (native_apply name now EClearHold ?v))"
      by (rule save_done_inv [OF b, of pk]) (use v pk in auto)
    show ?thesis using v a b c by (simp del: native_apply.simps split: if_splits)
  qed
  define turns where "turns = (case sn_turn sn of
      Some t \<Rightarrow> (if nt_status t \<noteq> TsInProgress
         then [EAdvance (pk_message pk) (turn_phase (nullish (ri_terminal i) (nt_status t))) (Some (inputTurnId i))] else [])
    | None \<Rightarrow> [])"
  have t: "\<forall>e\<in>set (EAdvance (pk_message pk) Admitted (Some (inputTurnId i)) # turns). \<exists>a b c. e = EAdvance a b c"
    by (auto simp: turns_def split: option.splits)
  let ?adm = "EAdvance (pk_message pk) Admitted (Some (inputTurnId i))"
  have last: "along P f es v \<Longrightarrow> P (fold f es v)" for P and f :: "'e \<Rightarrow> 'w \<Rightarrow> 'w" and es v
    using along_take [of P f es v "length es"] by simp
  note turned = advances_along [OF inv t, of name now]
  have "along (native_inv key) (native_apply name now)
      ((?adm # turns) @ (if pk_conditional pk then [EAck (pk_message pk)] else []) @ [EClearHold, ESave ?cs']) w"
    unfolding along_append [of _ _ "?adm # turns"]
    using turned gone [OF last [OF conjunct1 [OF turned]]] by blast
  moreover have one: "\<forall>e\<in>set [?adm]. \<exists>a b c. e = EAdvance a b c" by simp
  note single = advances_along [OF inv one, of name now]
  have "along (native_inv key) (native_apply name now) ([?adm] @ [ESave ?cs]) w"
    unfolding along_append using single kept [OF last [OF conjunct1 [OF single]]] by blast
  ultimately show ?thesis
    by (simp add: settle_pickup_def Let_def turns_def del: native_apply.simps)
qed

lemma repair_inv:
  assumes inv: "native_inv key w" and pk: "c_pickups (nw_cursors w) key = Some pk"
    and other: "input_id (nw_input w) \<noteq> Some (pk_message pk)"
  shows "along (native_inv key) (native_apply name now) (fst (repair_pickup r s sn input pk)) w"
proof -
  have hold: "native_inv key (native_apply name now (EHold x y) w)" for x y
    by (rule quiet_step [OF inv]) (simp add: quiet_def)
  have wr: "native_inv key (native_apply name now (EInput (queued_input r msg n)) w)" if "m_id msg = pk_message pk" for msg n
    by (rule write_input_inv [OF inv pk other]) (simp add: queued_input_def that)
  show ?thesis
    using inv hold wr
    by (auto simp: repair_pickup_def Let_def simp del: native_apply.simps split: option.splits sum.splits if_splits)
qed

lemma await_inv:
  assumes inv: "native_inv key w"
  shows "along (native_inv key) (native_apply name now) (fst (await_pickup r s sn i pk)) w"
proof -
  have "native_inv key (native_apply name now (EHold x y) w)" for x y
    by (rule quiet_step [OF inv]) (simp add: quiet_def)
  with inv show ?thesis by (simp add: await_pickup_def del: native_apply.simps)
qed

lemma locked_pass_inv:
  assumes inv: "native_inv key w" and r: "reads_of w r" and key: "key = managedPeerKey (managedPeer (nr_machine r) s)"
  shows "along (native_inv key) (native_apply name now) (fst (deliverLocked r s (nw_cursors w))) w"
proof -
  have nil: "along (native_inv key) (native_apply name now) [] w" using inv by simp
  have hold: "along (native_inv key) (native_apply name now) [EHold x y] w" for x y
    using inv quiet_step [OF inv, of "EHold x y" name now] by (simp add: quiet_def del: native_apply.simps)
  have bound: "along (native_inv key) (native_apply name now) (fst (bind_letter r s sn key (nw_cursors w) p)) w"
    if p: "c_pickups (nw_cursors w) key = None" "fst (pickPendingDelivery (nr_ledger r) key
      (nullish (c_delivered (nw_cursors w) key) 0) (nr_acked r) t) = Some p" for sn p t
  proof -
    obtain msg idx where pr: "p = (msg, idx)" by (cases p)
    obtain cur where "pickPendingDelivery (nw_ledger w) key (nullish (c_delivered (nw_cursors w) key) 0)
        (loadAckedIds (nw_acks w)) t = (Some (msg, idx), cur)"
      using p(2) r unfolding pr reads_of_def by (cases "pickPendingDelivery (nw_ledger w) key
        (nullish (c_delivered (nw_cursors w) key) 0) (loadAckedIds (nw_acks w)) t") auto
    from bind_inv [OF inv p(1) this] show ?thesis unfolding pr .
  qed
  have slot: "case f of InputStored i \<Rightarrow> input_id f = Some (ri_messageId i) | _ \<Rightarrow> input_id f = None" for f
    by (cases f) (simp_all add: input_id_def)
  have inp: "nr_input r = nw_input w" using r by (simp add: reads_of_def)
  show ?thesis
    unfolding deliverLocked_def Let_def key [symmetric]
    using nil hold bound repair_inv [OF inv] await_inv [OF inv] settle_inv [OF inv] slot [of "nw_input w"]
    by (auto simp: readRuntimeInput_def inp split: option.split input_file.splits if_splits)
qed

lemma pass_inv:
  assumes inv: "native_inv key w" and r: "reads_of w r" and key: "key = managedPeerKey (managedPeer (nr_machine r) s)"
  shows "along (native_inv key) (native_apply name now) (fst (deliverNativeRuntimePending r s (nw_cursors w))) w"
proof -
  obtain es out where d: "deliverLocked r s (nw_cursors w) = (es, out)" by (cases "deliverLocked r s (nw_cursors w)")
  have al: "along (native_inv key) (native_apply name now) es w"
    using locked_pass_inv [OF assms] d by simp
  then have done': "native_inv key (fold (native_apply name now) es w)"
    using along_take [of "native_inv key" "native_apply name now" es w "length es"] by simp
  have "along (native_inv key) (native_apply name now) (es @ [EHold x y]) w" for x y
    using al done' quiet_step [OF done', of "EHold x y" name now]
    by (simp add: along_append quiet_def del: native_apply.simps)
  with al show ?thesis
    by (simp add: deliverNativeRuntimePending_def d split: sum.split option.split)
qed

text \<open>A slot of a new letter, or one that cannot be read, settles nothing and repeats no id.\<close>

lemma append_uniq:
  assumes uniq: "uniq_ids ledger" and new: "\<And>a b. slot = Some a \<Longrightarrow> Some b \<in> set ledger \<Longrightarrow> m_id a \<noteq> m_id b"
  shows "uniq_ids (ledger @ [slot])"
  unfolding uniq_ids_def
proof (intro allI impI)
  fix i j a b
  assume ij: "i < length (ledger @ [slot])" "j < length (ledger @ [slot])" "(ledger @ [slot]) ! i = Some a"
    "(ledger @ [slot]) ! j = Some b" "m_id a = m_id b"
  have old: "m_id x \<noteq> m_id y" if "slot = Some x" "k < length ledger" "ledger ! k = Some y" for x y k
    using new [OF that(1)] nth_mem [OF that(2)] that(3) by simp
  show "i = j"
    using uniq [unfolded uniq_ids_def, rule_format, of i j a b] old [of a j b] old [of b i a] ij
    by (auto simp: nth_append less_Suc_eq split: if_splits)
qed

lemma fresh_slot:
  assumes "case slot of None \<Rightarrow> True | Some msg \<Rightarrow> fresh_id w (m_id msg)" "slot = Some a" "Some b \<in> set (nw_ledger w)"
  shows "m_id a \<noteq> m_id b"
proof -
  have "fresh_id w (m_id a)" using assms(1) [unfolded assms(2)] by simp
  with assms(3) show ?thesis by (metis fresh_id_def)
qed

lemma append_settled:
  assumes "case slot of None \<Rightarrow> True | Some msg \<Rightarrow> fresh_id w (m_id msg)" "settled_letter key w x" "\<not> fresh_id w x"
  shows "settled_letter key (w\<lparr>nw_ledger := nw_ledger w @ [slot]\<rparr>) x"
proof -
  obtain msg where "Some msg \<in> set (nw_ledger w)" "m_id msg = x" using assms(3) by (auto simp: fresh_id_def)
  then have other: "m_id a \<noteq> x" if "slot = Some a" for a
    using fresh_slot [OF assms(1) that] by auto
  show ?thesis
    unfolding settled_letter_def
  proof (intro allI impI)
    fix i m
    assume i: "i < length (nw_ledger (w\<lparr>nw_ledger := nw_ledger w @ [slot]\<rparr>))"
      "nw_ledger (w\<lparr>nw_ledger := nw_ledger w @ [slot]\<rparr>) ! i = Some m" "m_id m = x"
    with other have "i \<noteq> length (nw_ledger w)" by auto
    with i(1,2) have "i < length (nw_ledger w)" "nw_ledger w ! i = Some m"
      by (simp_all add: nth_append less_Suc_eq)
    with assms(2) i(3) have "if isConditional m then x \<in> loadAckedIds (nw_acks w)
        else i < nullish (c_delivered (nw_cursors w) key) 0"
      unfolding settled_letter_def by blast
    then show "if isConditional m then x \<in> loadAckedIds (nw_acks (w\<lparr>nw_ledger := nw_ledger w @ [slot]\<rparr>))
        else i < nullish (c_delivered (nw_cursors (w\<lparr>nw_ledger := nw_ledger w @ [slot]\<rparr>)) key) 0"
      by simp
  qed
qed

lemma append_pickup: "pickup_ok key w q \<Longrightarrow> pickup_ok key (w\<lparr>nw_ledger := nw_ledger w @ [slot]\<rparr>) q"
  by (fastforce simp: pickup_ok_def nth_append)

lemma append_step:
  assumes inv: "native_inv key w" and new: "case slot of None \<Rightarrow> True | Some msg \<Rightarrow> fresh_id w (m_id msg)"
  shows "native_inv key (w\<lparr>nw_ledger := nw_ledger w @ [slot]\<rparr>)"
proof (rule native_invI)
  note D = native_invD [OF inv]
  let ?w = "w\<lparr>nw_ledger := nw_ledger w @ [slot]\<rparr>"
  show "uniq_ids (nw_ledger ?w)" using append_uniq [OF D(1) fresh_slot [OF new]] by simp
  show "distinct (nw_written ?w)" using D(2) by simp
  show "pickup_ok key ?w q" if "c_pickups (nw_cursors ?w) key = Some q" for q
    using D(3) [of q] that append_pickup by simp
  show "written_ok key ?w x" if "x \<in> set (nw_written ?w)" for x
  proof -
    have x: "written_ok key w x" using D(4) that by simp
    then have "\<not> fresh_id w x" by (simp add: written_ok_def)
    with x append_settled [OF new] show ?thesis by (auto simp: written_ok_def fresh_id_def split: if_splits)
  qed
  show "x \<in> set (nw_written ?w)" if "input_id (nw_input ?w) = Some x" for x using that D(5) by simp
qed

lemma others_step:
  assumes inv: "native_inv key w" and pk: "c_pickups cs key = c_pickups (nw_cursors w) key"
    and d: "nullish (c_delivered (nw_cursors w) key) 0 \<le> nullish (c_delivered cs key) 0"
  shows "native_inv key (w\<lparr>nw_cursors := cs\<rparr>)"
proof (rule native_invI)
  note D = native_invD [OF inv]
  let ?w = "w\<lparr>nw_cursors := cs\<rparr>"
  show "uniq_ids (nw_ledger ?w)" "distinct (nw_written ?w)" using D(1,2) by simp_all
  show "pickup_ok key ?w q" if "c_pickups (nw_cursors ?w) key = Some q" for q
    using D(3) [of q] that pk d by (fastforce simp: pickup_ok_def)
  show "written_ok key ?w x" if "x \<in> set (nw_written ?w)" for x
    using D(4) [of x] that pk settled_mono [of key w x ?w] d by (auto simp: written_ok_def fresh_id_def split: if_splits)
  show "x \<in> set (nw_written ?w)" if "input_id (nw_input ?w) = Some x" for x using that D(5) by simp
qed

lemma owner_step:
  assumes inv: "native_inv key w" and i: "nw_input w = InputStored i" "ri_messageId i' = ri_messageId i"
  shows "native_inv key (w\<lparr>nw_input := InputStored i'\<rparr>)"
proof -
  note D = native_invD [OF inv]
  let ?w = "w\<lparr>nw_input := InputStored i'\<rparr>"
  have same: "input_id (nw_input ?w) = input_id (nw_input w)" using i by (simp add: input_id_def)
  show ?thesis
  proof (rule native_invI)
    show "uniq_ids (nw_ledger ?w)" "distinct (nw_written ?w)" using D(1,2) by simp_all
    show "pickup_ok key ?w q" if "c_pickups (nw_cursors ?w) key = Some q" for q
      using D(3) [of q] that by (simp add: pickup_ok_def)
    show "written_ok key ?w x" if "x \<in> set (nw_written ?w)" for x
    proof -
      have "settled_letter key w x \<Longrightarrow> settled_letter key ?w x" by (simp add: settled_letter_def)
      moreover have "written_ok key w x" using D(4) that by simp
      ultimately show ?thesis unfolding written_ok_def same by (simp add: fresh_id_def split: if_splits)
    qed
    show "x \<in> set (nw_written ?w)" if "input_id (nw_input ?w) = Some x" for x
      using that D(5) unfolding same by simp
  qed
qed

lemma native_step_inv:
  assumes st: "native_step machine s w w'" and inv: "native_inv (managedPeerKey (managedPeer machine s)) w"
  shows "native_inv (managedPeerKey (managedPeer machine s)) w'"
  using st
proof (cases rule: native_step.cases)
  case (pass r k)
  then show ?thesis
    using along_take [OF pass_inv [OF inv, of r s "s_name s" "int (nr_now r)"]] by (simp del: native_apply.simps)
next
  case (owner i i')
  then show ?thesis using owner_step [OF inv] by simp
next
  case (append slot)
  then show ?thesis using append_step [OF inv] by simp
next
  case (ack i by')
  then show ?thesis using ack_step [OF inv] by simp
next
  case (others cs key)
  then show ?thesis using others_step [OF inv] by simp
qed

subsection \<open>Every reachable state\<close>

definition native_start :: "ledger_slot list \<Rightarrow> ack_line list \<Rightarrow> (string \<rightharpoonup> nat) \<Rightarrow> native_world" where
  "native_start ledger acks delivered = \<lparr>nw_ledger = ledger,
     nw_cursors = \<lparr>c_read = Map.empty, c_delivered = delivered, c_pickups = Map.empty, c_telegram = None\<rparr>,
     nw_acks = acks, nw_input = InputAbsent, nw_holds = Map.empty, nw_journal = [], nw_written = []\<rparr>"

inductive native_reach :: "string \<Rightarrow> session \<Rightarrow> native_world \<Rightarrow> bool"
  for machine :: string and s :: session where
  start: "uniq_ids ledger \<Longrightarrow> native_reach machine s (native_start ledger acks delivered)"
| step: "native_reach machine s w \<Longrightarrow> native_step machine s w w' \<Longrightarrow> native_reach machine s w'"

lemma native_reach_inv: "native_reach machine s w \<Longrightarrow> native_inv (managedPeerKey (managedPeer machine s)) w"
proof (induction rule: native_reach.induct)
  case (start ledger acks delivered)
  then show ?case by (simp add: native_inv_def native_start_def input_id_def)
next
  case (step w w')
  then show ?case by (blast intro: native_step_inv)
qed

text \<open>
  A crash between the cursor and the slot is repaired with the id the letter would have had: the next
  pass that finds the runtime idle writes exactly the record the interrupted one was about to write.
\<close>

lemma repair_completes:
  assumes bound: "fst (bind_letter r s sn key cs (msg, idx)) = [advance, ESave armed, EInput i, clear]"
    and r': "nr_ledger r' ! idx = Some msg" "idx < length (nr_ledger r')" "nr_frame r' = nr_frame r"
      "nr_digest r' = nr_digest r" "\<not> nr_contextPending r'"
    and sn': "sn_state sn' = NsIdle" and prev: "previousComplete s sn' input"
  shows "\<exists>pk. c_pickups armed key = Some pk \<and> repair_pickup r' s sn' input pk = ([EInput i], Inr 1)"
proof -
  let ?nb = "Some \<lparr>nb_phase = Intent, nb_turn = None\<rparr>"
  from bound have a: "armed = armPickup cs key msg idx (Instant (int (nr_now r))) None ?nb"
    and i: "i = queued_input r msg (runtimeInputId (nr_digest r) (s_agent s) (m_id msg) (nr_now r))"
    by (auto simp: bind_letter_def split: if_splits)
  have "repaired_id r' (s_agent s) (m_id msg) (Instant (int (nr_now r)))
      = Inr (runtimeInputId (nr_digest r) (s_agent s) (m_id msg) (nr_now r))"
    using r'(4) by (auto simp: repaired_id_def runtimeInputId_def)
  then show ?thesis
    using r' sn' prev unfolding a i armPickup_pickup
    by (simp add: repair_pickup_def queued_input_def)
qed

end
