(* ===== verification/Undeliverable.thy ===== *)
theory Undeliverable
  imports Cursors
begin

text \<open>
  Settling the letters nobody will ever pick up (\<open>src/chat/undeliverable.ts\<close>).  The stored state is
  the ledger, the ack log, the cursors file and the memory of what the last completed pass saw; the
  stamps of the two files the pass depends on are an input.
\<close>

record sweep_state =
  sw_ledger :: "ledger_slot list"
  sw_acks :: "ack_line list"
  sw_file :: cursor_file
  sw_lastPass :: "string option"

text \<open>One iteration: the acks so far, the advanced cursors and the number settled.\<close>

definition sweep_letter ::
  "string set \<Rightarrow> (string \<rightharpoonup> ack_outcome) \<Rightarrow> cursors \<Rightarrow> chat_message \<Rightarrow> nat
     \<Rightarrow> ack_line list \<times> (string \<rightharpoonup> nat) \<times> nat \<Rightarrow> ack_line list \<times> (string \<rightharpoonup> nat) \<times> nat" where
  "sweep_letter live acks cs message index st = (case st of (rows, advanced, settled) \<Rightarrow>
     (case m_to message of
        ToManaged p \<Rightarrow>
          (let key = chatTargetKey (m_to message)
           in if key \<in> live then st
              else if letterState message index acks cs \<noteq> Pending then st
              else if isConditional message
              then (appendAck rows (m_id message) ByUndeliverable, advanced, settled + 1)
              else (rows, advanced(key \<mapsto> max (nullish (advanced key) 0) (index + 1)), settled + 1))
      | _ \<Rightarrow> st))"

fun sweep_loop ::
  "string set \<Rightarrow> (string \<rightharpoonup> ack_outcome) \<Rightarrow> cursors \<Rightarrow> nat \<Rightarrow> ledger_slot list
     \<Rightarrow> ack_line list \<times> (string \<rightharpoonup> nat) \<times> nat \<Rightarrow> ack_line list \<times> (string \<rightharpoonup> nat) \<times> nat" where
  "sweep_loop live acks cs index [] st = st"
| "sweep_loop live acks cs index (None # rest) st = sweep_loop live acks cs (Suc index) rest st"
| "sweep_loop live acks cs index (Some message # rest) st =
     sweep_loop live acks cs (Suc index) rest (sweep_letter live acks cs message index st)"

definition settleUndeliverable ::
  "string set \<Rightarrow> string \<Rightarrow> string \<Rightarrow> sweep_state \<Rightarrow> (cursors_error + nat) \<times> sweep_state" where
  "settleUndeliverable live seen stampAfter s =
     (if sw_lastPass s = Some seen then (Inr 0, s)
      else case loadCursors (sw_ledger s) (sw_file s) of
        (Inl e, file) \<Rightarrow> (Inl e, s\<lparr>sw_file := file\<rparr>)
      | (Inr cs, file) \<Rightarrow>
          (case sweep_loop live (loadAcks (sw_acks s)) cs 0 (sw_ledger s) (sw_acks s, Map.empty, 0) of
             (rows, advanced, settled) \<Rightarrow>
               (if advanced = Map.empty
                then (Inr settled, s\<lparr>sw_acks := rows, sw_file := file, sw_lastPass := Some stampAfter\<rparr>)
                else (case saveCursors (sw_ledger s)
                        (cs\<lparr>c_delivered := furthest (c_delivered cs) advanced\<rparr>) file of
                   (Inl e, file') \<Rightarrow> (Inl e, s\<lparr>sw_acks := rows, sw_file := file'\<rparr>)
                 | (Inr _, file') \<Rightarrow> (Inr settled,
                     s\<lparr>sw_acks := rows, sw_file := file', sw_lastPass := Some stampAfter\<rparr>)))))"

subsection \<open>What the loop settles\<close>

definition dead_letter :: "string set \<Rightarrow> chat_message \<Rightarrow> bool" where
  "dead_letter live m = (case m_to m of ToManaged p \<Rightarrow> chatTargetKey (m_to m) \<notin> live | _ \<Rightarrow> False)"

lemma dead_letter_key: "dead_letter live m \<Longrightarrow> chatTargetKey (m_to m) \<notin> live"
  by (cases "m_to m") (simp_all add: dead_letter_def)

lemma sweep_letter_cases:
  "sweep_letter live acks cs m i (rows, adv, n) =
     (if \<not> dead_letter live m \<or> letterState m i acks cs \<noteq> Pending then (rows, adv, n)
      else if isConditional m then (appendAck rows (m_id m) ByUndeliverable, adv, n + 1)
      else (rows, adv(chatTargetKey (m_to m) \<mapsto> max (nullish (adv (chatTargetKey (m_to m))) 0) (i + 1)), n + 1))"
  by (simp add: sweep_letter_def dead_letter_def Let_def split: target.split)

text \<open>
  After the loop: a conditional id is acked as undeliverable iff a pending dead letter carried it;
  an advanced key covers every pending dead immediate letter and lies just past one of them.
\<close>

lemma sweep_loop_acks:
  assumes "sweep_loop live acks cs i slots (rows, adv, n) = (rows', adv', n')"
  shows "loadAcks rows' k =
    (if \<exists>j m. j < length slots \<and> slots ! j = Some m \<and> m_id m = k \<and> dead_letter live m
          \<and> isConditional m \<and> letterState m (i + j) acks cs = Pending
     then Some AckUndeliverable else loadAcks rows k)"
  using assms
proof (induction slots arbitrary: i rows adv n)
  case Nil
  then show ?case by simp
next
  case (Cons slot slots)
  show ?case
  proof (cases slot)
    case None
    with Cons.prems have "sweep_loop live acks cs (Suc i) slots (rows, adv, n) = (rows', adv', n')" by simp
    from Cons.IH [OF this] None show ?thesis by (simp add: Ex_less_Suc2 nth_Cons')
  next
    case (Some m)
    obtain r1 a1 n1 where st: "sweep_letter live acks cs m i (rows, adv, n) = (r1, a1, n1)"
      by (metis prod_cases3)
    with Cons.prems Some have "sweep_loop live acks cs (Suc i) slots (r1, a1, n1) = (rows', adv', n')"
      by simp
    from Cons.IH [OF this] Some st show ?thesis
      by (auto simp: Ex_less_Suc2 nth_Cons' sweep_letter_cases split: if_splits)
  qed
qed

lemma sweep_head:
  assumes "(case slot of None \<Rightarrow> (rows, adv, n)
      | Some m \<Rightarrow> sweep_letter live acks cs m i (rows, adv, n)) = (r1, a1, n1)"
  shows "sweep_loop live acks cs i (slot # slots) (rows, adv, n)
      = sweep_loop live acks cs (Suc i) slots (r1, a1, n1)"
    and "nullish (adv k) 0 \<le> nullish (a1 k) 0"
    and "slot = Some m \<Longrightarrow> dead_letter live m \<Longrightarrow> \<not> isConditional m \<Longrightarrow> letterState m i acks cs = Pending
      \<Longrightarrow> i + 1 \<le> nullish (a1 (chatTargetKey (m_to m))) 0"
    and "a1 k = adv k \<or> (\<exists>m. slot = Some m \<and> dead_letter live m \<and> \<not> isConditional m
      \<and> chatTargetKey (m_to m) = k)"
  using assms by (cases slot; auto simp: sweep_letter_cases split: if_splits)+

lemma sweep_loop_mono:
  assumes "sweep_loop live acks cs i slots (rows, adv, n) = (rows', adv', n')"
  shows "nullish (adv k) 0 \<le> nullish (adv' k) 0"
  using assms
proof (induction slots arbitrary: i rows adv n)
  case (Cons slot slots)
  obtain r1 a1 n1 where st: "(case slot of None \<Rightarrow> (rows, adv, n)
      | Some m \<Rightarrow> sweep_letter live acks cs m i (rows, adv, n)) = (r1, a1, n1)"
    by (metis prod_cases3)
  with Cons.prems have "sweep_loop live acks cs (Suc i) slots (r1, a1, n1) = (rows', adv', n')"
    by (simp add: sweep_head(1) del: sweep_loop.simps)
  from Cons.IH [OF this] sweep_head(2) [OF st, of k] show ?case by (rule order_trans [rotated])
qed simp

lemma sweep_loop_covers:
  assumes "sweep_loop live acks cs i slots (rows, adv, n) = (rows', adv', n')"
    and "j < length slots" "slots ! j = Some m" "dead_letter live m" "\<not> isConditional m"
    and "letterState m (i + j) acks cs = Pending"
  shows "i + j + 1 \<le> nullish (adv' (chatTargetKey (m_to m))) 0"
  using assms
proof (induction slots arbitrary: i j rows adv n)
  case (Cons slot slots)
  obtain r1 a1 n1 where st: "(case slot of None \<Rightarrow> (rows, adv, n)
      | Some m \<Rightarrow> sweep_letter live acks cs m i (rows, adv, n)) = (r1, a1, n1)"
    by (metis prod_cases3)
  with Cons.prems(1) have L: "sweep_loop live acks cs (Suc i) slots (r1, a1, n1) = (rows', adv', n')"
    by (simp add: sweep_head(1) del: sweep_loop.simps)
  show ?case
  proof (cases j)
    case 0
    with Cons.prems sweep_head(3) [OF st, of m] sweep_loop_mono [OF L, of "chatTargetKey (m_to m)"]
    show ?thesis by simp
  next
    case (Suc j')
    with Cons.prems Cons.IH [OF L, of j'] show ?thesis by simp
  qed
qed simp

lemma sweep_loop_only_dead:
  assumes "sweep_loop live acks cs i slots (rows, adv, n) = (rows', adv', n')"
  shows "adv' k = adv k \<or> (\<exists>m. Some m \<in> set slots \<and> dead_letter live m
      \<and> \<not> isConditional m \<and> chatTargetKey (m_to m) = k)"
  using assms
proof (induction slots arbitrary: i rows adv n)
  case (Cons slot slots)
  obtain r1 a1 n1 where st: "(case slot of None \<Rightarrow> (rows, adv, n)
      | Some m \<Rightarrow> sweep_letter live acks cs m i (rows, adv, n)) = (r1, a1, n1)"
    by (metis prod_cases3)
  with Cons.prems have "sweep_loop live acks cs (Suc i) slots (r1, a1, n1) = (rows', adv', n')"
    by (simp add: sweep_head(1) del: sweep_loop.simps)
  from Cons.IH [OF this] sweep_head(4) [OF st, of k] show ?case by auto
qed simp

subsection \<open>A completed pass\<close>

text \<open>
  A pass over a readable store: the letters of the ledger are unchanged, every dead pending letter
  reads as settled afterwards, and no letter to a live recipient changes its state.
\<close>

lemma settle_dead:
  assumes run: "settleUndeliverable live seen after s = (Inr n, s')"
    and fresh: "sw_lastPass s \<noteq> Some seen" and cf: "sw_file s = FileStored cs"
    and m: "j < length (sw_ledger s)" "sw_ledger s ! j = Some m" "dead_letter live m"
  shows "\<exists>cs'. sw_file s' = FileStored cs' \<and> letterState m j (loadAcks (sw_acks s')) cs' \<noteq> Pending"
proof -
  obtain rows adv n0 where L:
    "sweep_loop live (loadAcks (sw_acks s)) cs 0 (sw_ledger s) (sw_acks s, Map.empty, 0) = (rows, adv, n0)"
    by (metis prod_cases3)
  define cs' where "cs' = (if adv = Map.empty then cs
      else cs\<lparr>c_delivered := furthest (c_delivered cs) adv, c_read := furthest (c_read cs) (c_read cs)\<rparr>)"
  have s': "sw_acks s' = rows" "sw_file s' = FileStored cs'"
    using run fresh cf L
    by (auto simp: settleUndeliverable_def loadCursors_def saveCursors_def commitCursors_def cs'_def
          split: if_splits)
  have del: "nullish (c_delivered cs' k) 0 = max (nullish (c_delivered cs k) 0) (nullish (adv k) 0)" for k
    by (simp add: cs'_def furthest_lookup)
  obtain p where to: "m_to m = ToManaged p" using m(3) by (auto simp: dead_letter_def split: target.splits)
  have "letterState m j (loadAcks rows) cs' \<noteq> Pending"
  proof (cases "letterState m j (loadAcks (sw_acks s)) cs = Pending")
    case True
    show ?thesis
    proof (cases "isConditional m")
      case True
      with \<open>letterState m j _ cs = Pending\<close> m have "loadAcks rows (m_id m) = Some AckUndeliverable"
        by (auto simp: sweep_loop_acks [OF L])
      with True show ?thesis by (simp add: letterState_def)
    next
      case False
      from sweep_loop_covers [OF L m False] True have "j < nullish (c_delivered cs' (chatTargetKey (m_to m))) 0"
        by (simp add: del)
      with False to show ?thesis by (simp add: letterState_def)
    qed
  next
    case settled: False
    show ?thesis
    proof (cases "isConditional m")
      case True
      with settled show ?thesis by (auto simp: letterState_def sweep_loop_acks [OF L] split: option.splits)
    next
      case False
      with settled to show ?thesis by (auto simp: letterState_def del split: if_splits)
    qed
  qed
  with s' show ?thesis by simp
qed

lemma settle_live:
  assumes run: "settleUndeliverable live seen after s = (r, s')"
    and cf: "sw_file s = FileStored cs"
    and m: "Some m \<in> set (sw_ledger s)" "m_to m = ToManaged p" "chatTargetKey (m_to m) \<in> live"
    and ids: "\<And>m'. Some m' \<in> set (sw_ledger s) \<Longrightarrow> m_id m' = m_id m \<Longrightarrow> m' = m"
  shows "\<exists>cs'. sw_file s' = FileStored cs'
     \<and> letterState m j (loadAcks (sw_acks s')) cs' = letterState m j (loadAcks (sw_acks s)) cs"
proof (cases "sw_lastPass s = Some seen")
  case True
  with run cf show ?thesis by (auto simp: settleUndeliverable_def)
next
  case fresh: False
  obtain rows adv n0 where L:
    "sweep_loop live (loadAcks (sw_acks s)) cs 0 (sw_ledger s) (sw_acks s, Map.empty, 0) = (rows, adv, n0)"
    by (metis prod_cases3)
  define cs' where "cs' = (if adv = Map.empty then cs
      else cs\<lparr>c_delivered := furthest (c_delivered cs) adv, c_read := furthest (c_read cs) (c_read cs)\<rparr>)"
  have s': "sw_acks s' = rows" "sw_file s' = FileStored cs'"
    using run fresh cf L
    by (auto simp: settleUndeliverable_def loadCursors_def saveCursors_def commitCursors_def cs'_def
          split: if_splits)
  have alive: "\<not> dead_letter live m" using m by (simp add: dead_letter_def)
  have "\<not> dead_letter live m'" if "k < length (sw_ledger s)" "sw_ledger s ! k = Some m'" "m_id m' = m_id m" for k m'
    using ids [of m'] nth_eq_mem [OF that(2,1)] that(3) alive by simp
  then have "loadAcks rows (m_id m) = loadAcks (sw_acks s) (m_id m)"
    by (auto simp: sweep_loop_acks [OF L])
  moreover have "adv (chatTargetKey (m_to m)) = None"
    using sweep_loop_only_dead [OF L, of "chatTargetKey (m_to m)"] m by (auto dest: dead_letter_key)
  ultimately have "letterState m j (loadAcks rows) cs' = letterState m j (loadAcks (sw_acks s)) cs"
    using m(2) by (auto simp: letterState_def cs'_def furthest_def)
  with s' show ?thesis by simp
qed

end
