(* ===== verification/Coalesce.thy ===== *)
theory Coalesce
  imports ChatStore
begin

text \<open>
  Handing over a bounded batch of waiting letters at one turn boundary (\<open>src/chat/coalesce.ts\<close>), and
  the inbound rate guard (\<open>src/chat/rateGuard.ts\<close>).  A letter's body is its UTF-8 bytes, so its
  length is what \<open>Buffer.byteLength\<close> counts.
\<close>

definition MAX_BATCH :: nat where "MAX_BATCH = 8"
definition MAX_BATCH_BYTES :: nat where "MAX_BATCH_BYTES = 16000"

definition fromPerson :: "chat_message \<Rightarrow> bool" where
  "fromPerson msg = (map_option o_actor (m_origin msg) = Some Human)"

definition waits_for :: "string \<Rightarrow> string set \<Rightarrow> int \<Rightarrow> chat_message \<Rightarrow> bool" where
  "waits_for recipientKey acked now msg =
     ((case m_to msg of ToManaged p \<Rightarrow> managedPeerKey p = recipientKey | _ \<Rightarrow> False)
      \<and> isConditional msg \<and> m_id msg \<notin> acked \<and> isDue msg now)"

definition waiting_letters :: "ledger_slot list \<Rightarrow> string \<Rightarrow> string set \<Rightarrow> int \<Rightarrow> chat_message list" where
  "waiting_letters ledger recipientKey acked now =
     filter (waits_for recipientKey acked now) (List.map_filter id ledger)"

text \<open>
  The selection loop: \<open>selected\<close> is a set of ids, so its size counts distinct ids; the running byte
  count includes the letter under consideration, and the first letter is never refused for its size.
\<close>

fun select_batch :: "nat \<Rightarrow> string set \<Rightarrow> chat_message list \<Rightarrow> string set" where
  "select_batch bytes selected [] = selected"
| "select_batch bytes selected (msg # rest) =
     (let bytes' = bytes + length (m_body msg)
      in if card selected \<ge> MAX_BATCH \<or> (card selected > 0 \<and> bytes' > MAX_BATCH_BYTES)
         then selected
         else select_batch bytes' (insert (m_id msg) selected) rest)"

definition coalesce ::
  "ledger_slot list \<Rightarrow> string \<Rightarrow> string set \<Rightarrow> int \<Rightarrow> chat_message list" where
  "coalesce ledger recipientKey acked now =
     (let waiting = waiting_letters ledger recipientKey acked now
      in case waiting of
           [] \<Rightarrow> []
         | oldest # rest \<Rightarrow>
             (let selected = select_batch 0 {}
                    (oldest # filter fromPerson rest @ filter (\<lambda>m. \<not> fromPerson m) rest)
              in filter (\<lambda>msg. m_id msg \<in> selected) waiting))"

subsection \<open>The rate guard\<close>

definition RATE_WINDOW_MS :: int where "RATE_WINDOW_MS = 60000"
definition RATE_MAX_INBOUND :: nat where "RATE_MAX_INBOUND = 12"

definition recentInboundCount :: "target \<Rightarrow> ledger_slot list \<Rightarrow> int \<Rightarrow> nat" where
  "recentInboundCount recipient ledger nowMs =
     fold (\<lambda>slot n. case slot of
         None \<Rightarrow> n
       | Some msg \<Rightarrow>
           (if chatTargetKey (m_to msg) \<noteq> chatTargetKey recipient then n
            else case date_parse (m_ts msg) of
              None \<Rightarrow> n | Some t \<Rightarrow> if nowMs - t \<le> RATE_WINDOW_MS then n + 1 else n)) ledger 0"

subsection \<open>Bounds and order of a batch\<close>

lemma select_batch_props:
  assumes "finite selected"
  shows "finite (select_batch bytes selected ms)"
    and "selected \<subseteq> select_batch bytes selected ms"
    and "select_batch bytes selected ms \<subseteq> selected \<union> m_id ` set ms"
    and "card selected \<le> MAX_BATCH \<Longrightarrow> card (select_batch bytes selected ms) \<le> MAX_BATCH"
proof -
  show "finite (select_batch bytes selected ms)" using assms
    by (induction ms arbitrary: bytes selected) (simp_all add: Let_def)
  show "selected \<subseteq> select_batch bytes selected ms" using assms
  proof (induction ms arbitrary: bytes selected)
    case (Cons m ms)
    from Cons.IH [of "insert (m_id m) selected"] Cons.prems
    have "selected \<subseteq> select_batch b (insert (m_id m) selected) ms" for b by simp
    then show ?case by (simp add: Let_def)
  qed simp
  show "select_batch bytes selected ms \<subseteq> selected \<union> m_id ` set ms" using assms
  proof (induction ms arbitrary: bytes selected)
    case (Cons m ms)
    from Cons.IH [of "insert (m_id m) selected"] Cons.prems
    have "select_batch b (insert (m_id m) selected) ms
        \<subseteq> insert (m_id m) selected \<union> m_id ` set ms" for b by simp
    then show ?case by (auto simp: Let_def)
  qed simp
  show "card selected \<le> MAX_BATCH \<Longrightarrow> card (select_batch bytes selected ms) \<le> MAX_BATCH"
    using assms
  proof (induction ms arbitrary: bytes selected)
    case (Cons m ms)
    have "card (insert (m_id m) selected) \<le> MAX_BATCH" if "\<not> card selected \<ge> MAX_BATCH"
      using that card_insert_le_m1 [of MAX_BATCH selected "m_id m"] Cons.prems
      by (simp add: card_insert_if)
    with Cons show ?case by (simp add: Let_def)
  qed simp
qed

lemma select_batch_first: "m_id m \<in> select_batch 0 {} (m # ms)"
  using select_batch_props(2) [of "{m_id m}" "length (m_body m)" ms]
  by (simp add: Let_def MAX_BATCH_def)

lemma select_batch_singleton: "select_batch 0 {} (m # ms) = select_batch (length (m_body m)) {m_id m} ms"
  by (simp add: Let_def MAX_BATCH_def)

text \<open>
  Once more than one id is selected, the letters that put ids in weigh at most the byte budget: the
  letters taken form a prefix of the candidates.
\<close>

fun taken :: "nat \<Rightarrow> string set \<Rightarrow> chat_message list \<Rightarrow> chat_message list" where
  "taken bytes selected [] = []"
| "taken bytes selected (msg # rest) =
     (let bytes' = bytes + length (m_body msg)
      in if card selected \<ge> MAX_BATCH \<or> (card selected > 0 \<and> bytes' > MAX_BATCH_BYTES)
         then [] else msg # taken bytes' (insert (m_id msg) selected) rest)"

lemma select_batch_taken:
  "select_batch bytes selected ms = selected \<union> m_id ` set (taken bytes selected ms)"
  by (induction ms arbitrary: bytes selected) (auto simp: Let_def)

lemma taken_prefix: "prefix (taken bytes selected ms) ms"
  by (induction ms arbitrary: bytes selected) (auto simp: Let_def)

declare select_batch.simps(2) [simp del] taken.simps(2) [simp del]

lemma taken_bytes:
  assumes "finite selected" "selected \<noteq> {}" "bytes \<le> MAX_BATCH_BYTES"
  shows "bytes + sum_list (map (length \<circ> m_body) (taken bytes selected ms)) \<le> MAX_BATCH_BYTES"
  using assms
proof (induction ms arbitrary: bytes selected)
  case (Cons m ms)
  let ?b = "bytes + length (m_body m)"
  show ?case
  proof (cases "card selected \<ge> MAX_BATCH \<or> ?b > MAX_BATCH_BYTES")
    case True
    with Cons.prems show ?thesis by (auto simp: taken.simps(2) Let_def card_gt_0_iff)
  next
    case False
    with Cons.prems have "taken bytes selected (m # ms) = m # taken ?b (insert (m_id m) selected) ms"
      by (simp add: taken.simps(2) Let_def)
    with Cons.IH [of "insert (m_id m) selected" ?b] Cons.prems False show ?thesis by simp
  qed
qed simp

lemma taken_first_bytes:
  "sum_list (map (length \<circ> m_body) (taken 0 {} (m # ms))) \<le> max (length (m_body m)) MAX_BATCH_BYTES"
proof (cases "length (m_body m) \<le> MAX_BATCH_BYTES")
  case True
  with taken_bytes [of "{m_id m}" "length (m_body m)" ms] show ?thesis
    by (simp add: taken.simps(2) [of 0] Let_def MAX_BATCH_def)
next
  case False
  then have "taken (length (m_body m)) {m_id m} ms = []"
    by (cases ms) (simp_all add: taken.simps(2) Let_def)
  then show ?thesis by (simp add: taken.simps(2) [of 0] Let_def MAX_BATCH_def)
qed

text \<open>A batch keeps the order its letters were written in.\<close>

lemma coalesce_filter:
  "\<exists>P. coalesce ledger key acked now = filter P (waiting_letters ledger key acked now)"
proof (cases "waiting_letters ledger key acked now")
  case (Cons oldest rest)
  then show ?thesis unfolding coalesce_def Let_def by (simp only: list.case) blast
qed (simp add: coalesce_def)

lemma coalesce_subseq: "subseq (coalesce ledger key acked now) (waiting_letters ledger key acked now)"
  using coalesce_filter [of ledger key acked now] by auto

lemma coalesce_waits:
  "m \<in> set (coalesce ledger key acked now) \<Longrightarrow> waits_for key acked now m \<and> Some m \<in> set ledger"
  by (auto simp: coalesce_def waiting_letters_def Let_def List.map_filter_def split: list.splits if_splits)

lemma coalesce_oldest:
  "waiting_letters ledger key acked now = oldest # rest \<Longrightarrow>
     \<exists>more. coalesce ledger key acked now = oldest # more"
  by (simp add: coalesce_def Let_def select_batch_first)

lemma coalesce_ids_card: "card (m_id ` set (coalesce ledger key acked now)) \<le> MAX_BATCH"
proof (cases "waiting_letters ledger key acked now")
  case (Cons oldest rest)
  let ?c = "oldest # filter fromPerson rest @ filter (\<lambda>m. \<not> fromPerson m) rest"
  have "m_id ` set (coalesce ledger key acked now) \<subseteq> select_batch 0 {} ?c"
    using Cons by (auto simp: coalesce_def Let_def)
  moreover have "finite (select_batch 0 {} ?c)" "card (select_batch 0 {} ?c) \<le> MAX_BATCH"
    using select_batch_props(1,4) [of "{}" 0 ?c] by (simp_all)
  ultimately show ?thesis by (meson card_mono le_trans)
qed (simp add: coalesce_def)

lemma coalesce_length:
  assumes "distinct (map m_id (waiting_letters ledger key acked now))"
  shows "length (coalesce ledger key acked now) \<le> MAX_BATCH"
proof -
  obtain P where "coalesce ledger key acked now = filter P (waiting_letters ledger key acked now)"
    using coalesce_filter by blast
  with assms have "distinct (map m_id (coalesce ledger key acked now))"
    by (simp add: distinct_map_filter)
  then have "length (coalesce ledger key acked now) = card (m_id ` set (coalesce ledger key acked now))"
    by (metis distinct_card length_map set_map)
  then show ?thesis using coalesce_ids_card [of ledger key acked now] by simp
qed

text \<open>
  A person's letter loses its place to agent letters only if the batch is full of people's letters
  and the oldest: everything selected is the oldest letter or a person's, or all of the people's
  letters are selected.
\<close>

lemma taken_app:
  "prefix (taken b s (xs @ ys)) xs \<or> (\<exists>zs. prefix zs ys \<and> taken b s (xs @ ys) = xs @ zs)"
  using taken_prefix [of b s "xs @ ys"] by (auto simp: prefix_append)

lemma coalesce_people_first:
  assumes w: "waiting_letters ledger key acked now = oldest # rest"
    and out: "p \<in> set rest" "fromPerson p" "p \<notin> set (coalesce ledger key acked now)"
    and inn: "a \<in> set (coalesce ledger key acked now)"
  shows "\<exists>b \<in> set (oldest # filter fromPerson rest). m_id b = m_id a"
proof -
  let ?ps = "oldest # filter fromPerson rest" and ?as = "filter (\<lambda>m. \<not> fromPerson m) rest"
  have sel: "select_batch 0 {} (?ps @ ?as) = m_id ` set (taken 0 {} (?ps @ ?as))"
    by (simp add: select_batch_taken)
  have mem: "x \<in> set (coalesce ledger key acked now) \<longleftrightarrow>
      x \<in> set (oldest # rest) \<and> m_id x \<in> m_id ` set (taken 0 {} (?ps @ ?as))" for x
    using w sel by (simp add: coalesce_def Let_def) blast
  from taken_app [of 0 "{}" ?ps ?as] show ?thesis
  proof
    assume "prefix (taken 0 {} (?ps @ ?as)) ?ps"
    then have "set (taken 0 {} (?ps @ ?as)) \<subseteq> set ?ps" by (rule set_mono_prefix)
    with inn mem show ?thesis by (fastforce)
  next
    assume "\<exists>zs. prefix zs ?as \<and> taken 0 {} (?ps @ ?as) = ?ps @ zs"
    then have "p \<in> set (taken 0 {} (?ps @ ?as))" using out by auto
    with out mem show ?thesis by (auto)
  qed
qed

text \<open>The guard counts each recent letter to the recipient once.\<close>

definition is_recent :: "target \<Rightarrow> int \<Rightarrow> ledger_slot \<Rightarrow> bool" where
  "is_recent recipient nowMs slot = (case slot of None \<Rightarrow> False
     | Some msg \<Rightarrow> chatTargetKey (m_to msg) = chatTargetKey recipient \<and>
         (case date_parse (m_ts msg) of None \<Rightarrow> False | Some t \<Rightarrow> nowMs - t \<le> RATE_WINDOW_MS))"

lemma recentInboundCount_filter:
  "recentInboundCount recipient ledger nowMs = length (filter (is_recent recipient nowMs) ledger)"
proof -
  have "fold (\<lambda>slot n. case slot of
         None \<Rightarrow> n
       | Some msg \<Rightarrow>
           (if chatTargetKey (m_to msg) \<noteq> chatTargetKey recipient then n
            else case date_parse (m_ts msg) of
              None \<Rightarrow> n | Some t \<Rightarrow> if nowMs - t \<le> RATE_WINDOW_MS then n + 1 else n)) ledger k
      = k + length (filter (is_recent recipient nowMs) ledger)" for k
    by (induction ledger arbitrary: k) (auto simp: is_recent_def split: option.splits)
  then show ?thesis by (simp add: recentInboundCount_def)
qed

end
