(* ===== verification/Samples.thy ===== *)
theory Samples
  imports NativeInv Undeliverable Coalesce
begin

text \<open>
  Concrete values at which the properties of the following theories are instantiated: one machine, one
  session, two letters to it and a runtime that is idle.
\<close>

definition a_peer :: managed_peer where
  "a_peer = \<lparr>mp_machine = ''m1'', mp_agent = Claude, mp_session = ''s1'', mp_thread = ''t1''\<rparr>"

definition b_peer :: managed_peer where
  "b_peer = \<lparr>mp_machine = ''m1'', mp_agent = Codex, mp_session = ''s2'', mp_thread = ''t2''\<rparr>"

definition a_key :: string where "a_key = managedPeerKey a_peer"

definition letter :: "string \<Rightarrow> bool \<Rightarrow> chat_message" where
  "letter i conditional = \<lparr>m_id = i, m_ts = Instant 0, m_from = FromManaged b_peer, m_to = ToManaged a_peer,
     m_origin = None, m_authorization = None, m_receipt = None, m_notification = None, m_registration = None,
     m_body = ''hello'', m_task = None, m_defer = conditional, m_onBehalfOf = None, m_notBefore = None,
     m_turnOptions = None, m_images = None, m_fingerprint = None\<rparr>"

definition a_body :: session_body where
  "a_body = \<lparr>sb_name = ''s1'', sb_dir = ''d'', sb_generation = Some ''g1'', sb_flags = [], sb_archived = False,
     sb_resumeText = '''', sb_agent = Claude, sb_runtime = Some Native,
     sb_native = Some \<lparr>ns_runtime = Claude, ns_id = ''n1''\<rparr>, sb_permissionMode = None, sb_chatEnabled = Some True,
     sb_promptModules = [], sb_envFile = None, sb_launchRecipe = None, sb_modelSelection = None,
     sb_noInference = False, sb_policy = None, sb_delegation = None, sb_eventsEnabled = None,
     sb_fileCheckpoints = None, sb_role = None\<rparr>"

definition a_session :: session where
  "a_session = \<lparr>s_uuid = ''t1'', s_body = a_body\<rparr>"

definition idle_snapshot :: rt_snapshot where
  "idle_snapshot = \<lparr>sn_generation = ''g1'', sn_state = NsIdle, sn_turn = None, sn_permissionMode = Some ''default'',
     sn_mcpServers = None, sn_fileCheckpoints = Some True\<rparr>"

definition two_letters :: "ledger_slot list" where
  "two_letters = [Some (letter ''i1'' False), None, Some (letter ''i2'' True)]"

definition cursors_at :: "nat \<Rightarrow> cursors" where
  "cursors_at n = \<lparr>c_read = [a_key \<mapsto> n], c_delivered = [a_key \<mapsto> n], c_pickups = Map.empty, c_telegram = None\<rparr>"

text \<open>Evaluation of the sample letters' fields and keys.\<close>

named_theorems samples "the sample values"

lemma letter_sel [simp]:
  "m_id (letter i c) = i" "m_to (letter i c) = ToManaged a_peer" "m_from (letter i c) = FromManaged b_peer"
  "m_notBefore (letter i c) = None" "m_defer (letter i c) = c" "m_body (letter i c) = ''hello''"
  "m_ts (letter i c) = Instant 0" "m_origin (letter i c) = None" "m_task (letter i c) = None"
  "m_turnOptions (letter i c) = None" "m_onBehalfOf (letter i c) = None"
  by (simp_all add: letter_def)

lemma letter_conditional [simp]: "isConditional (letter i c) = c"
  by (simp add: isConditional_def)

lemma letter_due [simp]: "isDue (letter i c) now"
  by (simp add: isDue_def)

lemma letter_key [simp]: "chatTargetKey (ToManaged a_peer) = a_key"
  unfolding a_key_def chatTargetKey.simps ..

lemma a_key_key [simp]: "managedPeerKey a_peer = a_key"
  by (simp add: a_key_def)

lemma peer_of_session [simp]: "managedPeer ''m1'' a_session = a_peer"
  by (simp add: managedPeer_def a_session_def a_body_def a_peer_def)

lemma session_sel [simp]:
  "s_uuid a_session = ''t1''" "s_name a_session = ''s1''" "s_agent a_session = Claude"
  "s_generation a_session = Some ''g1''" "s_native a_session = Some \<lparr>ns_runtime = Claude, ns_id = ''n1''\<rparr>"
  "sb_archived (s_body a_session) = False"
  by (simp_all add: a_session_def a_body_def)

lemma two_letters_ids: "uniq_ids two_letters"
  unfolding uniq_ids_def
proof (intro allI impI)
  fix i j a b
  assume "i < length two_letters" "j < length two_letters" "two_letters ! i = Some a" "two_letters ! j = Some b" "m_id a = m_id b"
  then show "i = j" by (auto simp: two_letters_def less_Suc_eq numeral_3_eq_3 nth_Cons')
qed

text \<open>A pass that binds the first letter, run to its end from the armed start.\<close>

definition a_reads :: native_reads where
  "a_reads = \<lparr>nr_machine = ''m1'', nr_ledger = two_letters, nr_acked = {}, nr_now = 1000, nr_rateHeld = False,
     nr_live = Some idle_snapshot, nr_current = Some a_session, nr_contextPending = False, nr_input = InputAbsent,
     nr_hold = None, nr_digest = (\<lambda>_. []), nr_frame = (\<lambda>msg. formatChatInjection msg None None)\<rparr>"

definition a_start :: native_world where
  "a_start = native_start two_letters [] (\<lambda>_. None)"

definition bound :: native_world where
  "bound = fold (native_apply (s_name a_session) (int (nr_now a_reads)))
     (take 4 (fst (deliverNativeRuntimePending a_reads a_session (nw_cursors a_start)))) a_start"

lemma bound_reach: "native_reach ''m1'' a_session bound"
proof -
  have "reads_of a_start a_reads"
    by (simp add: reads_of_def a_start_def a_reads_def native_start_def loadAckedIds_def loadAcks_def)
  then have "native_step ''m1'' a_session a_start bound"
    unfolding bound_def by (rule native_step.pass) (simp add: a_reads_def)
  moreover have "native_reach ''m1'' a_session a_start"
    unfolding a_start_def by (rule native_reach.start [OF two_letters_ids])
  ultimately show ?thesis by (rule native_reach.step [rotated])
qed

lemma bound_written: "nw_written bound = [''i1'']"
proof -
  have pick: "pickPendingDelivery two_letters a_key 0 {} 1000 = (Some (letter ''i1'' False, 0), 0)"
    by (simp add: pickPendingDelivery_def two_letters_def immediate_for_def)
  have "fst (deliverNativeRuntimePending a_reads a_session (nw_cursors a_start))
      = fst (bind_letter a_reads a_session idle_snapshot a_key (nw_cursors a_start) (letter ''i1'' False, 0))"
    using pick by (simp add: deliverNativeRuntimePending_def deliverLocked_def Let_def a_reads_def a_start_def
        native_start_def pendingMessageId_def same_registration_def readRuntimeInput_def bind_letter_def idle_snapshot_def)
  then show ?thesis
    by (simp add: bound_def bind_letter_def a_reads_def idle_snapshot_def a_start_def native_start_def queued_input_def)
qed

end
