(* ===== verification/ChatProperties.thy ===== *)
theory ChatProperties
  imports Samples
begin

text \<open>
  What the chat subsystem guarantees: letters are delivered in order, once, to the recipient they name,
  and every letter is accounted for.  Each property stands with an instance at the sample values.
\<close>



text \<open>C2: Catching up the delivery cursor of a recipient settles and unsettles nothing: every letter of
  the ledger stands after \<open>nextDelivery\<close> where it stood before.\<close>

theorem catching_up_settles_nothing:
  assumes "nextDelivery ledger key cs acked now = (pick, moved, cs')"
    and "nullish (c_delivered cs key) 0 \<le> length ledger"
    and "j < length ledger" "ledger ! j = Some msg"
  shows "letterState msg j acks cs' = letterState msg j acks cs"
  using assms by (rule nextDelivery_letterState)

lemma next_two: "nextDelivery two_letters a_key (cursors_at 1) {} 0
    = (Some (letter ''i2'' True, 2), True, (cursors_at 1)\<lparr>c_delivered := [a_key \<mapsto> 3]\<rparr>)"
  by (simp add: nextDelivery_def pickPendingDelivery_def two_letters_def immediate_for_def conditional_for_def
      cursors_at_def eval_nat_numeral)

theorem catching_up_settles_nothing_witness:
  "letterState (letter ''i1'' False) 0 Map.empty ((cursors_at 1)\<lparr>c_delivered := [a_key \<mapsto> 3]\<rparr>)
    = letterState (letter ''i1'' False) 0 Map.empty (cursors_at 1)"
  by (rule catching_up_settles_nothing [OF next_two]) (simp_all add: cursors_at_def two_letters_def)

text \<open>The immediate letters of one recipient are a first-in first-out queue: repeatedly serving the
  letter the delivery pass picks, and moving the cursor past it, hands over exactly the letters at or
  after the cursor in ledger order, each once.\<close>

lemma immediate_letters_in_order:
  "drain (immediate_peek key) (immediate_serve key) n (ledger, d)
     = take n (index_slots (\<lambda>msg idx. chatTargetKey (m_to msg) = key \<and> \<not> isConditional msg) d (drop d ledger))"
proof -
  have "immediate_for key = (\<lambda>msg. chatTargetKey (m_to msg) = key \<and> \<not> isConditional msg)"
    by (rule ext) (simp add: immediate_for_def)
  then show ?thesis using inbox.drain_take [of key n "(ledger, d)"] by (simp add: immediate_queue_def)
qed

text \<open>Read positions only move forward: whatever the daemon saves, however old the cursors it has
  held for a pass, and whatever \<open>inbox\<close> marks, no recipient's read position in the cursors file
  falls back, and an unreadable file is never replaced by a guess.\<close>

lemma read_positions_monotone:
  "file_le f (fold cursor_step es f)"
  by (rule cursor_file.run_le)

text \<open>Cursors armed on a missing file replay nothing: every immediate letter to a session that was
  already in the ledger counts as delivered.\<close>

lemma arming_replays_nothing:
  assumes "loadCursors ledger FileMissing = (Inr cs, f)"
    and "j < length ledger" "ledger ! j = Some m" "m_to m = ToManaged p" "\<not> isConditional m"
  shows "letterState m j acks cs = Settled AckDelivered \<and> f = FileStored cs"
  using assms armed_nothing_pending [of ledger j m p acks] by (auto simp: loadCursors_def)


text \<open>Arming a pickup and finishing it settles exactly the armed letter: an immediate one leaves its
  recipient's cursor just past it and the ack log alone; a conditional one adds its id to the ack log
  and leaves every cursor where it was.\<close>

lemma pickup_settles_its_letter:
  assumes "finishPickup acks (armPickup cs key msg idx at line nb) key = (acks', cs')"
  shows "c_pickups cs' key = None
    \<and> (if isConditional msg
       then loadAcks acks' = (loadAcks acks)(m_id msg \<mapsto> AckDelivered) \<and> c_delivered cs' = c_delivered cs
         \<and> c_read cs' = c_read cs
       else acks' = acks \<and> c_delivered cs' = (c_delivered cs)(key \<mapsto> idx + 1))"
  using assms finishPickup_clears [of acks "armPickup cs key msg idx at line nb" key]
    arm_finish_conditional [OF _ assms] arm_finish_immediate [OF _ assms] by auto


text \<open>C15: Reading a transcript only from the line at which a letter was injected gives the same answer
  as reading the whole history, as long as no earlier line carries the letter's id; a transcript that
  was rewritten shorter is searched whole.\<close>

theorem pickup_read_is_full_read:
  assumes "from \<le> length lines \<Longrightarrow> \<forall>t\<in>set (concat (take from lines)). \<not> carries_marker (pickup_marker i) t"
  shows "pickupProgressFrom (lines_read lines) i (Some from) = chatTurnProgressFromMessages (concat lines) i"
  using assms by (rule pickupProgressFrom_eq_full)

definition said :: "role \<Rightarrow> string \<Rightarrow> transcript_message" where
  "said r t = \<lparr>tm_role = r, tm_kind = KindMessage, tm_text = Some t\<rparr>"

theorem pickup_read_is_full_read_witness:
  "pickupProgressFrom (lines_read [[said RoleAssistant ''x''], [said RoleUser ''id: i''], [said RoleAssistant ''y'']])
      ''i'' (Some 1)
    = chatTurnProgressFromMessages [said RoleAssistant ''x'', said RoleUser ''id: i'', said RoleAssistant ''y''] ''i''"
  using pickup_read_is_full_read [of 1
      "[[said RoleAssistant ''x''], [said RoleUser ''id: i''], [said RoleAssistant ''y'']]" "''i''"]
  by (simp add: said_def carries_marker_def)

text \<open>C16: A letter framed by \<open>formatChatInjection\<close>, for any sender, origin, task and reply route, is
  found again by the pickup proof: once it stands in the transcript as a user message and assistant
  text ends the turn, its delivery counts as answered.\<close>

theorem framed_letter_is_recognised:
  assumes "\<forall>t\<in>set before. \<not> carries_marker (pickup_marker (m_id msg)) t"
    and "after \<noteq> []" "tm_role (last after) = RoleAssistant" "tm_kind (last after) = KindMessage"
  shows "chatTurnProgressFromMessages
    (before @ \<lparr>tm_role = RoleUser, tm_kind = KindMessage, tm_text = Some (formatChatInjection msg cli route)\<rparr> # after)
    (m_id msg) = ProgAnswered"
  using assms by (rule framed_answered)

theorem framed_letter_is_recognised_witness:
  "chatTurnProgressFromMessages
    [\<lparr>tm_role = RoleUser, tm_kind = KindMessage, tm_text = Some (formatChatInjection (letter ''i1'' False) None None)\<rparr>,
     said RoleAssistant ''ok''] ''i1'' = ProgAnswered"
  using framed_letter_is_recognised [of "[]" "letter ''i1'' False" "[said RoleAssistant ''ok'']" None None]
  by (simp add: said_def)

text \<open>The framing of a letter is a header that does not depend on the body, followed by the body:
  no body can change what the header says of the sender or how to reply.\<close>

lemma header_is_not_forged:
  "\<exists>head. \<forall>body. formatChatInjection (msg\<lparr>m_body := body\<rparr>) cli route = head @ body"
  using format_body by blast

text \<open>C19: After a completed pass over undeliverable mail, every letter to a recipient that no longer
  exists is settled, wherever it stands in the ledger.\<close>

theorem dead_letters_are_settled:
  assumes "settleUndeliverable live seen after s = (Inr n, s')" "sw_lastPass s \<noteq> Some seen"
    and "sw_file s = FileStored cs"
    and "j < length (sw_ledger s)" "sw_ledger s ! j = Some m" "dead_letter live m"
  shows "\<exists>cs'. sw_file s' = FileStored cs' \<and> letterState m j (loadAcks (sw_acks s')) cs' \<noteq> Settlement.Pending"
  using assms by (rule settle_dead)

definition a_sweep :: sweep_state where
  "a_sweep = \<lparr>sw_ledger = [Some (letter ''i2'' True)], sw_acks = [], sw_file = FileStored (cursors_at 0), sw_lastPass = None\<rparr>"

lemma a_sweep_runs: "\<exists>n s'. settleUndeliverable {} ''x'' ''y'' a_sweep = (Inr n, s')"
  by (simp add: settleUndeliverable_def a_sweep_def loadCursors_def Let_def loadAcks_def letterState_def sweep_letter_def
      commitCursors_def split: prod.split)

theorem dead_letters_are_settled_witness:
  "\<exists>n s' cs'. settleUndeliverable {} ''x'' ''y'' a_sweep = (Inr n, s') \<and> sw_file s' = FileStored cs'
    \<and> letterState (letter ''i2'' True) 0 (loadAcks (sw_acks s')) cs' \<noteq> Settlement.Pending"
proof -
  obtain n s' where run: "settleUndeliverable {} ''x'' ''y'' a_sweep = (Inr n, s')" using a_sweep_runs by blast
  have "\<exists>cs'. sw_file s' = FileStored cs'
      \<and> letterState (letter ''i2'' True) 0 (loadAcks (sw_acks s')) cs' \<noteq> Settlement.Pending"
    by (rule dead_letters_are_settled [OF run]) (simp_all add: a_sweep_def dead_letter_def)
  with run show ?thesis by blast
qed

text \<open>The same pass leaves the mail of a recipient that exists as it was.\<close>

lemma live_letters_are_left:
  assumes "settleUndeliverable live seen after s = (r, s')" "sw_file s = FileStored cs"
    and "Some m \<in> set (sw_ledger s)" "m_to m = ToManaged p" "chatTargetKey (m_to m) \<in> live"
    and "\<And>m'. Some m' \<in> set (sw_ledger s) \<Longrightarrow> m_id m' = m_id m \<Longrightarrow> m' = m"
  shows "\<exists>cs'. sw_file s' = FileStored cs'
    \<and> letterState m j (loadAcks (sw_acks s')) cs' = letterState m j (loadAcks (sw_acks s)) cs"
  using assms by (rule settle_live)


end
