(* ===== verification/Processes.thy ===== *)
theory Processes
  imports Prelude
begin

text \<open>
  Process tables (\<open>src/external/processes.ts\<close>) and the ownership record of a runtime
  (\<open>src/runtime/ownership.ts\<close>): which rows descend from a process, and which were there when the
  provider was spawned.
\<close>

record process_row =
  ps_pid :: nat
  ps_ppid :: nat
  ps_group :: nat
  ps_start :: string

type_synonym process_id = "nat \<times> string"

definition identity :: "process_row \<Rightarrow> process_id" where
  "identity r = (ps_pid r, ps_start r)"

text \<open>\<open>new Map(rows.map((row) => [row.pid, row]))\<close>: the last row of a pid wins.\<close>

definition by_pid :: "process_row list \<Rightarrow> nat \<Rightarrow> process_row option" where
  "by_pid rows p = map_of (rev (map (\<lambda>r. (ps_pid r, r)) rows)) p"

lemma by_pid_SomeD: "by_pid rows p = Some r \<Longrightarrow> r \<in> set rows \<and> ps_pid r = p"
  by (auto simp: by_pid_def dest!: map_of_SomeD)

function climb :: "process_row list \<Rightarrow> nat \<Rightarrow> nat set \<Rightarrow> process_row option \<Rightarrow> bool" where
  "climb rows ancestor seen None = False"
| "climb rows ancestor seen (Some current) =
     (if ps_ppid current > 1 \<and> ps_pid current \<notin> seen
      then (if ps_ppid current = ancestor then True
            else climb rows ancestor (insert (ps_pid current) seen) (by_pid rows (ps_ppid current)))
      else False)"
  by pat_completeness auto

text \<open>Every turn of the loop sees one more pid of the table.\<close>

termination climb
proof (relation "measure (\<lambda>(rows, _, seen, cur). case cur of None \<Rightarrow> 0
    | Some c \<Rightarrow> card (insert (ps_pid c) (ps_pid ` set rows) - seen))", goal_cases)
  case (2 rows ancestor seen current)
  let ?all = "ps_pid ` set rows"
  have fin: "finite (insert (ps_pid current) ?all - seen)" by simp
  show ?case
  proof (cases "by_pid rows (ps_ppid current)")
    case None
    have "ps_pid current \<in> insert (ps_pid current) ?all - seen" using 2 by simp
    with fin have "0 < card (insert (ps_pid current) ?all - seen)" by (metis card_gt_0_iff empty_iff)
    with None show ?thesis by simp
  next
    case (Some c)
    then have "ps_pid c \<in> ?all" using by_pid_SomeD by blast
    then have "insert (ps_pid c) ?all - insert (ps_pid current) seen \<subset> insert (ps_pid current) ?all - seen"
      using 2 by auto
    with fin have "card (insert (ps_pid c) ?all - insert (ps_pid current) seen) < card (insert (ps_pid current) ?all - seen)"
      by (rule psubset_card_mono)
    with Some show ?thesis by simp
  qed
qed simp

definition isDescendantProcess :: "process_row list \<Rightarrow> nat \<Rightarrow> nat \<Rightarrow> bool" where
  "isDescendantProcess rows pid ancestor = climb rows ancestor {} (by_pid rows pid)"

subsection \<open>Descent is the transitive closure of the parent relation\<close>

definition parent :: "process_row list \<Rightarrow> (nat \<times> nat) set" where
  "parent rows = {(a, b). \<exists>r. by_pid rows a = Some r \<and> ps_ppid r = b \<and> b > 1}"

lemma parent_fun: "(a, b) \<in> parent rows \<Longrightarrow> (a, c) \<in> parent rows \<Longrightarrow> b = c"
  by (auto simp: parent_def)

lemma climb_sound:
  "climb rows ancestor seen cur \<Longrightarrow> cur = by_pid rows p \<Longrightarrow> (p, ancestor) \<in> (parent rows)\<^sup>+"
proof (induction rows ancestor seen cur arbitrary: p rule: climb.induct)
  case (2 rows ancestor seen current)
  have at: "by_pid rows p = Some current" using "2.prems"(2) by (rule sym)
  have go: "1 < ps_ppid current \<and> ps_pid current \<notin> seen"
    and up: "ps_ppid current = ancestor \<or> climb rows ancestor (insert (ps_pid current) seen) (by_pid rows (ps_ppid current))"
    using "2.prems"(1) by (auto simp only: climb.simps split: if_splits)
  from at go have e: "(p, ps_ppid current) \<in> parent rows" by (simp add: parent_def)
  show ?case
  proof (cases "ps_ppid current = ancestor")
    case True
    with e show ?thesis by auto
  next
    case False
    with up have "climb rows ancestor (insert (ps_pid current) seen) (by_pid rows (ps_ppid current))" by blast
    with "2.IH" [OF go False] have "(ps_ppid current, ancestor) \<in> (parent rows)\<^sup>+" by blast
    with e show ?thesis by (rule trancl_into_trancl2)
  qed
qed simp

text \<open>The nodes of a shortest path are pairwise different, so the seen set never cuts it.\<close>

fun path :: "process_row list \<Rightarrow> nat \<Rightarrow> nat list \<Rightarrow> nat \<Rightarrow> bool" where
  "path rows a [] b = ((a, b) \<in> parent rows)"
| "path rows a (x # xs) b = ((a, x) \<in> parent rows \<and> path rows x xs b)"

lemma path_append: "path rows a (xs @ x # ys) b \<longleftrightarrow> path rows a xs x \<and> path rows x ys b"
  by (induction xs arbitrary: a) auto

lemma trancl_path: "(a, b) \<in> (parent rows)\<^sup>+ \<Longrightarrow> \<exists>xs. path rows a xs b"
proof (induction rule: converse_trancl_induct)
  case (base y)
  then show ?case by (intro exI [of _ "[]"]) simp
next
  case (step y z)
  then obtain xs where "path rows z xs b" by blast
  with step(1) show ?case by (intro exI [of _ "z # xs"]) simp
qed

lemma shortest_path:
  assumes "path rows a xs b"
  shows "\<exists>ys. path rows a ys b \<and> distinct (a # ys)"
proof -
  obtain ys where ys: "path rows a ys b" "\<And>zs. path rows a zs b \<Longrightarrow> length ys \<le> length zs"
    using ex_has_least_nat [of "\<lambda>zs. path rows a zs b" xs length] assms by blast
  have "a \<notin> set ys"
  proof
    assume "a \<in> set ys"
    then obtain u v where "ys = u @ a # v" by (meson split_list)
    with ys(1) ys(2) [of v] show False by (simp add: path_append)
  qed
  moreover have "distinct ys"
  proof (rule ccontr)
    assume "\<not> distinct ys"
    then obtain u v w x where "ys = u @ [x] @ v @ [x] @ w" using not_distinct_decomp by blast
    with ys(1) ys(2) [of "u @ x # w"] show False by (simp add: path_append)
  qed
  ultimately show ?thesis using ys(1) by auto
qed

lemma climb_path:
  "path rows a ys b \<Longrightarrow> distinct (a # ys) \<Longrightarrow> set (a # ys) \<inter> seen = {} \<Longrightarrow> climb rows b seen (by_pid rows a)"
proof (induction ys arbitrary: a seen)
  case Nil
  then show ?case by (auto simp: parent_def dest: by_pid_SomeD)
next
  case (Cons y ys)
  then obtain r where r: "by_pid rows a = Some r" "ps_ppid r = y" "y > 1" "ps_pid r = a"
    by (auto simp: parent_def dest: by_pid_SomeD)
  have "climb rows b (insert a seen) (by_pid rows y)"
    using Cons.prems by (intro Cons.IH) auto
  with r Cons.prems show ?case by simp
qed

lemma isDescendantProcess_iff: "isDescendantProcess rows p a \<longleftrightarrow> (p, a) \<in> (parent rows)\<^sup>+"
proof
  assume "isDescendantProcess rows p a"
  then show "(p, a) \<in> (parent rows)\<^sup>+" unfolding isDescendantProcess_def by (rule climb_sound) simp
next
  assume "(p, a) \<in> (parent rows)\<^sup>+"
  then obtain ys where "path rows p ys a" "distinct (p # ys)" using trancl_path shortest_path by blast
  then show "isDescendantProcess rows p a" unfolding isDescendantProcess_def by (rule climb_path) simp
qed

subsection \<open>Ownership\<close>

record ownership =
  ow_generation :: "string option"
  ow_owner :: process_row
  ow_provider :: process_row
  ow_baseline :: "process_row list"

definition find_pid :: "process_row list \<Rightarrow> nat option \<Rightarrow> process_row option" where
  "find_pid rows p = List.find (\<lambda>r. Some (ps_pid r) = p) rows"

text \<open>What \<open>registerRuntimeOwnership\<close> writes; \<open>None\<close> when it throws.\<close>

definition registerRuntimeOwnership ::
  "process_row list option \<Rightarrow> string option \<Rightarrow> nat \<Rightarrow> nat \<Rightarrow> ownership option" where
  "registerRuntimeOwnership rows generation self provider =
     (case rows of None \<Rightarrow> None
      | Some rs \<Rightarrow>
          (case (find_pid rs (Some self), find_pid rs (Some provider)) of
             (Some o', Some p) \<Rightarrow>
               (if isDescendantProcess rs provider self
                then Some \<lparr>ow_generation = generation, ow_owner = o', ow_provider = p,
                  ow_baseline = filter (\<lambda>r. ps_pid r = self \<or> ps_group r = ps_group p
                    \<or> isDescendantProcess rs (ps_pid r) self) rs\<rparr>
                else None)
           | _ \<Rightarrow> None))"

definition readRuntimeOwnership :: "string option \<Rightarrow> ownership option \<Rightarrow> ownership option" where
  "readRuntimeOwnership generation stored =
     (case stored of None \<Rightarrow> None | Some x \<Rightarrow> if ow_generation x = generation then Some x else None)"

end
