(* ===== verification/Sleep.thy ===== *)
theory Sleep
  imports Processes RuntimeInput ChatStore
begin

text \<open>
  Putting an idle session to sleep and waking it (\<open>src/session/sleep\<close>): the proof that nothing would be
  lost (\<open>proof.ts\<close>), the sleep record and the wake journal (\<open>store.ts\<close>, \<open>wakeStore.ts\<close>), and the
  operations (\<open>operations.ts\<close>).  An operation is split where the code leaves the admission lock: each
  part is one critical section over the two files.  Waiting for processes to go, and for the runtime to
  report itself live, happens between the parts, so those facts are their inputs.
\<close>

subsection \<open>The idle proof\<close>

datatype run_state = RunIdle | RunActive | RunUnknown

record child =
  cd_uuid :: string
  cd_archived :: bool
  cd_stopped :: bool
  cd_parent :: "(target \<times> string option) option"

record idle_reads =
  ir_target :: managed_peer
  ir_generation :: "string option"
  ir_native :: bool
  ir_delegated :: bool
  ir_stopped :: bool
  ir_snapshot :: "rt_snapshot option"
  ir_live :: bool
  ir_pid :: "nat option"
  ir_providerPid :: "nat option"
  ir_approvals :: "nat option"
  ir_rows :: "process_row list option"
  ir_ownership :: "ownership option"
  ir_ledger :: "ledger_slot list"
  ir_acks :: "string \<rightharpoonup> ack_outcome"
  ir_cursors :: cursors
  ir_input :: "runtime_input option"
  ir_children :: "child list"
  ir_context :: bool

definition owner_row :: "idle_reads \<Rightarrow> process_row option" where
  "owner_row r = (case ir_rows r of None \<Rightarrow> None | Some rs \<Rightarrow> if ir_pid r = None then None else find_pid rs (ir_pid r))"

definition provider_row :: "idle_reads \<Rightarrow> process_row option" where
  "provider_row r = (case ir_rows r of None \<Rightarrow> None
     | Some rs \<Rightarrow> if ir_providerPid r = None then None else find_pid rs (ir_providerPid r))"

definition owned :: "idle_reads \<Rightarrow> bool" where
  "owned r = (case (ir_ownership r, owner_row r, provider_row r) of
      (Some x, Some o', Some p) \<Rightarrow> identity (ow_owner x) = identity o' \<and> identity (ow_provider x) = identity p
        \<and> (ps_pid p = ps_pid o' \<or> isDescendantProcess (nullish (ir_rows r) []) (ps_pid p) (ps_pid o'))
    | _ \<Rightarrow> False)"

definition held_processes :: "idle_reads \<Rightarrow> process_row list" where
  "held_processes r = filter (\<lambda>row. Some (ps_pid row) = map_option ps_pid (owner_row r)
      \<or> Some (ps_group row) = map_option (\<lambda>x. ps_group (ow_provider x)) (ir_ownership r)
      \<or> (case owner_row r of None \<Rightarrow> False | Some o' \<Rightarrow> isDescendantProcess (nullish (ir_rows r) []) (ps_pid row) (ps_pid o')))
     (nullish (ir_rows r) [])"

definition background :: "idle_reads \<Rightarrow> nat option" where
  "background r = (case ir_ownership r of
      Some x \<Rightarrow> (if owned r \<and> ir_rows r \<noteq> None
         then Some (length (filter (\<lambda>row. \<not> (\<exists>known\<in>set (ow_baseline x). identity known = identity row)) (held_processes r)))
         else None)
    | None \<Rightarrow> None)"

definition pending_ids :: "idle_reads \<Rightarrow> string list" where
  "pending_ids r = map m_id (filter_slots (\<lambda>msg index. sameTarget (m_to msg) (ToManaged (ir_target r))
     \<and> letterState msg index (ir_acks r) (ir_cursors r) = Settlement.Pending) 0 (ir_ledger r))"

definition owned_children :: "idle_reads \<Rightarrow> child list" where
  "owned_children r = filter (\<lambda>c. \<not> cd_archived c \<and> \<not> cd_stopped c \<and> (case cd_parent c of
      Some (ToManaged p, g) \<Rightarrow> sameTarget (ToManaged p) (ToManaged (ir_target r)) \<and> g = ir_generation r
    | _ \<Rightarrow> False)) (ir_children r)"

definition run_of :: "idle_reads \<Rightarrow> run_state" where
  "run_of r = (case ir_snapshot r of
      Some s \<Rightarrow> (if \<not> ir_live r then RunUnknown
         else if sn_state s = NsIdle \<and> map_option nt_status (sn_turn s) \<noteq> Some TsInProgress then RunIdle else RunActive)
    | None \<Rightarrow> RunUnknown)"

datatype sleep_reason = RUnsupported | RDelegationEnded | RUnbounded | RUnregistered | ROwnerUnavailable
  | RNotIdle | RQueuedInput | RDispatchPending | RPendingRequests | ROwnedChildren | RBackground | RContext

definition idle_reason :: "idle_reads \<Rightarrow> sleep_reason option" where
  "idle_reason r =
     (if \<not> ir_native r \<or> mp_agent (ir_target r) \<notin> {Codex, Claude} then Some RUnsupported
      else if ir_stopped r then Some RDelegationEnded
      else if \<not> ir_delegated r then Some RUnbounded
      else if ir_generation r = None then Some RUnregistered
      else if \<not> owned r then Some ROwnerUnavailable
      else if run_of r \<noteq> RunIdle then Some RNotIdle
      else if pending_ids r \<noteq> [] \<or> c_pickups (ir_cursors r) (managedPeerKey (ir_target r)) \<noteq> None then Some RQueuedInput
      else if (case ir_input r of None \<Rightarrow> False | Some i \<Rightarrow> ri_phase i \<noteq> PhAccepted) then Some RDispatchPending
      else if ir_approvals r \<noteq> Some 0 then Some RPendingRequests
      else if owned_children r \<noteq> [] then Some ROwnedChildren
      else if background r = None \<or> (\<exists>n. background r = Some n \<and> n > 0) then Some RBackground
      else if ir_context r then Some RContext
      else None)"

record idle_proof =
  ip_revision :: string
  ip_eligible :: bool
  ip_reason :: "sleep_reason option"
  ip_run :: run_state
  ip_queue :: nat
  ip_children :: nat
  ip_background :: "nat option"
  ip_processes :: "process_id list"

text \<open>The revision is a digest of the facts; the digest is a parameter.\<close>

definition idleProof :: "(idle_reads \<Rightarrow> string) \<Rightarrow> idle_reads \<Rightarrow> idle_proof" where
  "idleProof revision r = \<lparr>ip_revision = revision r, ip_eligible = (idle_reason r = None), ip_reason = idle_reason r,
     ip_run = run_of r, ip_queue = length (pending_ids r), ip_children = length (owned_children r),
     ip_background = background r, ip_processes = map identity (held_processes r)\<rparr>"

text \<open>What an eligible proof says: nothing queued, dispatched, asked, delegated or running is lost.\<close>

lemma eligible_iff:
  "ip_eligible (idleProof revision r) \<longleftrightarrow>
     ir_native r \<and> mp_agent (ir_target r) \<in> {Codex, Claude} \<and> ir_delegated r \<and> \<not> ir_stopped r
     \<and> ir_generation r \<noteq> None \<and> owned r \<and> run_of r = RunIdle \<and> pending_ids r = []
     \<and> c_pickups (ir_cursors r) (managedPeerKey (ir_target r)) = None
     \<and> (\<forall>i. ir_input r = Some i \<longrightarrow> ri_phase i = PhAccepted) \<and> ir_approvals r = Some 0
     \<and> owned_children r = [] \<and> background r = Some 0 \<and> \<not> ir_context r"
  by (auto simp: idleProof_def idle_reason_def split: option.splits if_splits)

text \<open>No letter to the session is pending when its proof is eligible, and every process it would
  lose was there when the provider was spawned.\<close>

lemma eligible_no_mail:
  assumes "ip_eligible (idleProof revision r)" "j < length (ir_ledger r)" "ir_ledger r ! j = Some msg"
    "m_to msg = ToManaged (ir_target r)"
  shows "letterState msg j (ir_acks r) (ir_cursors r) \<noteq> Settlement.Pending"
proof
  assume pend: "letterState msg j (ir_acks r) (ir_cursors r) = Settlement.Pending"
  have "msg \<in> set (filter_slots (\<lambda>msg index. sameTarget (m_to msg) (ToManaged (ir_target r))
      \<and> letterState msg index (ir_acks r) (ir_cursors r) = Settlement.Pending) 0 (ir_ledger r))"
    unfolding set_filter_slots using assms pend by (intro exI [of _ j]) (simp add: sameTarget_def)
  then have "pending_ids r \<noteq> []" by (auto simp: pending_ids_def)
  with assms(1) show False by (simp add: eligible_iff)
qed

lemma eligible_processes:
  assumes "ip_eligible (idleProof revision r)" "x \<in> set (ip_processes (idleProof revision r))"
  shows "\<exists>w known. ir_ownership r = Some w \<and> known \<in> set (ow_baseline w) \<and> identity known = x"
proof -
  from assms(1) obtain w where w: "ir_ownership r = Some w"
    "filter (\<lambda>row. \<not> (\<exists>known\<in>set (ow_baseline w). identity known = identity row)) (held_processes r) = []"
    by (auto simp: eligible_iff background_def split: option.splits if_splits)
  from assms(2) obtain row where "row \<in> set (held_processes r)" "x = identity row" by (auto simp: idleProof_def)
  with w show ?thesis by (fastforce simp: filter_empty_conv)
qed

subsection \<open>The sleep record\<close>

datatype sleep_phase = SlRequested | SlSleeping | SlWaking | SlAwake

record sleep_record =
  sl_operationId :: string
  sl_proof :: idle_proof
  sl_phase :: sleep_phase

record wake_operation =
  wo_operationId :: string
  wo_sleepOperationId :: string
  wo_result :: "sleep_record option"

record sleep_files =
  sf_row :: "sleep_record option"
  sf_wakes :: "wake_operation list"

datatype sleep_error = IdempotencyChanged | SleepSuperseded | SleepPending | RevisionConflict
  | NotIdle sleep_reason | DelegationRefused | NotSleeping | WakeCapacity

definition sleepBlocksStart :: "sleep_files \<Rightarrow> bool" where
  "sleepBlocksStart f = (case sf_row f of None \<Rightarrow> False | Some row \<Rightarrow> sl_phase row \<noteq> SlAwake \<and> sl_phase row \<noteq> SlWaking)"

definition ownerShouldSleep :: "nat \<Rightarrow> sleep_files \<Rightarrow> bool" where
  "ownerShouldSleep pid f = (case sf_row f of None \<Rightarrow> False
     | Some row \<Rightarrow> sl_phase row = SlRequested \<and> pid \<in> fst ` set (ip_processes (sl_proof row)))"

definition processesReleased :: "process_row list option \<Rightarrow> sleep_record \<Rightarrow> bool" where
  "processesReleased rows row = (case rows of None \<Rightarrow> False
     | Some rs \<Rightarrow> \<forall>held\<in>set (ip_processes (sl_proof row)). held \<notin> identity ` set rs)"

datatype sleep_admitted = SleepUnsupported | SleepRow sleep_record bool

definition sleep_admit ::
  "string \<Rightarrow> string \<Rightarrow> idle_proof \<Rightarrow> sleep_files \<Rightarrow> (sleep_error + sleep_admitted) \<times> sleep_files" where
  "sleep_admit operationId revision proof' f =
     (let fresh = (if ip_revision proof' \<noteq> revision then (Inl RevisionConflict, f)
          else case ip_reason proof' of
              Some RUnsupported \<Rightarrow> (Inr SleepUnsupported, f)
            | Some RUnbounded \<Rightarrow> (Inr SleepUnsupported, f)
            | Some why \<Rightarrow> (Inl (NotIdle why), f)
            | None \<Rightarrow> (let row = \<lparr>sl_operationId = operationId, sl_proof = proof', sl_phase = SlRequested\<rparr>
                in (Inr (SleepRow row False), f\<lparr>sf_row := Some row\<rparr>)))
      in case sf_row f of
          None \<Rightarrow> fresh
        | Some prior \<Rightarrow>
            (if sl_operationId prior = operationId
             then (if ip_revision (sl_proof prior) \<noteq> revision then (Inl IdempotencyChanged, f)
                   else if sl_phase prior = SlAwake \<or> sl_phase prior = SlWaking then (Inl SleepSuperseded, f)
                   else (Inr (SleepRow prior True), f))
             else if sl_phase prior \<noteq> SlAwake then (Inl SleepPending, f)
             else fresh))"

definition sleep_confirm :: "string \<Rightarrow> sleep_files \<Rightarrow> (sleep_error + unit) \<times> sleep_files" where
  "sleep_confirm operationId f = (case sf_row f of
      Some row \<Rightarrow>
        (if sl_operationId row \<noteq> operationId \<or> sl_phase row \<notin> {SlRequested, SlSleeping} then (Inl SleepSuperseded, f)
         else (Inr (), if sl_phase row = SlRequested then f\<lparr>sf_row := Some (row\<lparr>sl_phase := SlSleeping\<rparr>)\<rparr> else f))
    | None \<Rightarrow> (Inl SleepSuperseded, f))"

text \<open>The section that starts the executor; the flag is whether \<open>startSession\<close> was called.\<close>

definition wake_start :: "string \<Rightarrow> bool \<Rightarrow> sleep_files \<Rightarrow> (sleep_error + bool) \<times> sleep_files" where
  "wake_start operationId stopped f =
     (if stopped then (Inl DelegationRefused, f)
      else case sf_row f of
          None \<Rightarrow> (Inl SleepSuperseded, f)
        | Some row \<Rightarrow>
            (if sl_operationId row \<noteq> operationId then (Inl SleepSuperseded, f)
             else if sl_phase row = SlAwake then (Inr False, f)
             else (Inr True, f\<lparr>sf_row := Some (row\<lparr>sl_phase := SlWaking\<rparr>)\<rparr>)))"

definition wake_acknowledge :: "string \<Rightarrow> sleep_files \<Rightarrow> (sleep_error + unit) \<times> sleep_files" where
  "wake_acknowledge operationId f = (case sf_row f of
      None \<Rightarrow> (Inl SleepSuperseded, f)
    | Some row \<Rightarrow>
        (if sl_operationId row \<noteq> operationId then (Inl SleepSuperseded, f)
         else (Inr (), if sl_phase row = SlWaking then f\<lparr>sf_row := Some (row\<lparr>sl_phase := SlAwake\<rparr>)\<rparr> else f)))"

definition find_wake :: "string \<Rightarrow> sleep_files \<Rightarrow> wake_operation option" where
  "find_wake operationId f = List.find (\<lambda>w. wo_operationId w = operationId) (sf_wakes f)"

definition wake_admit ::
  "string \<Rightarrow> sleep_files \<Rightarrow> (sleep_error + (sleep_record \<times> sleep_record option)) \<times> sleep_files" where
  "wake_admit operationId f = (case sf_row f of
      None \<Rightarrow> (Inl NotSleeping, f)
    | Some row \<Rightarrow>
        (case find_wake operationId f of
           Some prior \<Rightarrow>
             (if wo_result prior \<noteq> None then (Inr (row, wo_result prior), f)
              else if wo_sleepOperationId prior \<noteq> sl_operationId row then (Inl SleepSuperseded, f)
              else (Inr (row, None), f))
         | None \<Rightarrow>
             (if length (sf_wakes f) \<ge> 256 then (Inl WakeCapacity, f)
              else (Inr (row, None), f\<lparr>sf_wakes := sf_wakes f @ [\<lparr>wo_operationId = operationId,
                wo_sleepOperationId = sl_operationId row, wo_result = None\<rparr>]\<rparr>))))"

definition wake_finish :: "string \<Rightarrow> sleep_record \<Rightarrow> sleep_files \<Rightarrow> (sleep_error + sleep_record) \<times> sleep_files" where
  "wake_finish operationId row f =
     (if map_option sl_operationId (sf_row f) \<noteq> Some (sl_operationId row) then (Inl SleepSuperseded, f)
      else (Inr row, f\<lparr>sf_wakes := map (\<lambda>w. if wo_operationId w = operationId then w\<lparr>wo_result := Some row\<rparr> else w) (sf_wakes f)\<rparr>))"

subsection \<open>Every sequence of lifecycle requests\<close>

datatype sleep_op =
  OpSleep string string idle_proof
| OpConfirm string
| OpWakeStart string bool
| OpAcknowledge string
| OpWakeAdmit string
| OpWakeFinish string sleep_record

fun sleep_step :: "sleep_op \<Rightarrow> sleep_files \<Rightarrow> sleep_files" where
  "sleep_step (OpSleep i rvn p) f = snd (sleep_admit i rvn p f)"
| "sleep_step (OpConfirm i) f = snd (sleep_confirm i f)"
| "sleep_step (OpWakeStart i stopped) f = snd (wake_start i stopped f)"
| "sleep_step (OpAcknowledge i) f = snd (wake_acknowledge i f)"
| "sleep_step (OpWakeAdmit i) f = snd (wake_admit i f)"
| "sleep_step (OpWakeFinish i row) f = snd (wake_finish i row f)"

definition phase_rank :: "sleep_phase \<Rightarrow> nat" where
  "phase_rank p = (case p of SlRequested \<Rightarrow> 0 | SlSleeping \<Rightarrow> 1 | SlWaking \<Rightarrow> 2 | SlAwake \<Rightarrow> 3)"

text \<open>The record of one sleep only moves forward, and is replaced only once it is awake.\<close>

definition row_le :: "sleep_record option \<Rightarrow> sleep_record option \<Rightarrow> bool" where
  "row_le old new = (case old of None \<Rightarrow> True | Some r \<Rightarrow> (case new of None \<Rightarrow> False | Some r' \<Rightarrow>
     (if sl_operationId r' = sl_operationId r then sl_proof r' = sl_proof r \<and> phase_rank (sl_phase r) \<le> phase_rank (sl_phase r')
      else sl_phase r = SlAwake)))"

lemma row_le_refl: "row_le x x"
  by (simp add: row_le_def split: option.split)

lemma sleep_step_row: "row_le (sf_row f) (sf_row (sleep_step e f))"
proof (cases e)
  case (OpSleep i rvn p)
  then show ?thesis
    by (cases "sf_row f") (auto simp: sleep_admit_def Let_def row_le_def split: option.splits sleep_reason.splits if_splits)
next
  case (OpConfirm i)
  then show ?thesis
    by (cases "sf_row f") (auto simp: sleep_confirm_def row_le_def phase_rank_def split: if_splits sleep_phase.splits)
next
  case (OpWakeStart i stopped)
  then show ?thesis
    by (cases "sf_row f"; cases "sl_phase (the (sf_row f))")
      (auto simp: wake_start_def row_le_def phase_rank_def)
next
  case (OpAcknowledge i)
  then show ?thesis
    by (cases "sf_row f") (auto simp: wake_acknowledge_def row_le_def phase_rank_def split: if_splits sleep_phase.splits)
next
  case (OpWakeAdmit i)
  then show ?thesis
    by (cases "sf_row f") (auto simp: wake_admit_def row_le_def split: option.splits if_splits)
next
  case (OpWakeFinish i row)
  then show ?thesis by (simp add: wake_finish_def row_le_refl)
qed

text \<open>The wake journal keeps one entry per operation, within its capacity, and a recorded result.\<close>

definition wakes_inv :: "sleep_files \<Rightarrow> bool" where
  "wakes_inv f = (distinct (map wo_operationId (sf_wakes f)) \<and> length (sf_wakes f) \<le> 256)"

lemma find_wake_None: "find_wake i f = None \<longleftrightarrow> i \<notin> wo_operationId ` set (sf_wakes f)"
  by (auto simp: find_wake_def find_None_iff)

lemma wake_finish_ids: "map wo_operationId (sf_wakes (snd (wake_finish i row f))) = map wo_operationId (sf_wakes f)"
  by (simp add: wake_finish_def)

lemma other_wakes:
  "sf_wakes (snd (sleep_admit i rvn p f)) = sf_wakes f" "sf_wakes (snd (sleep_confirm i f)) = sf_wakes f"
  "sf_wakes (snd (wake_start i stopped f)) = sf_wakes f" "sf_wakes (snd (wake_acknowledge i f)) = sf_wakes f"
  by (simp_all add: sleep_admit_def sleep_confirm_def wake_start_def wake_acknowledge_def Let_def
      split: option.split sleep_reason.split)

lemma wake_admit_wakes:
  "sf_wakes (snd (wake_admit i f)) = sf_wakes f
   \<or> (\<exists>w. find_wake i f = None \<and> length (sf_wakes f) < 256 \<and> wo_operationId w = i \<and> wo_result w = None
        \<and> sf_wakes (snd (wake_admit i f)) = sf_wakes f @ [w])"
  by (simp add: wake_admit_def split: option.split)

lemma wakes_step: "wakes_inv f \<Longrightarrow> wakes_inv (sleep_step e f)"
proof (cases e)
  case (OpWakeAdmit i)
  assume "wakes_inv f"
  with wake_admit_wakes [of i f] show ?thesis
    unfolding OpWakeAdmit by (auto simp: wakes_inv_def find_wake_None)
next
  case (OpWakeFinish i row)
  assume "wakes_inv f"
  with wake_finish_ids [of i row f] show ?thesis
    unfolding OpWakeFinish wakes_inv_def by (metis length_map sleep_step.simps(6))
qed (simp_all add: wakes_inv_def other_wakes)

interpretation sleep_machine: state_machine sleep_step wakes_inv
  by unfold_locales (rule wakes_step)

text \<open>Once a wake operation has its result, every later request for it is answered with a recorded
  result, whatever sleeps and wakes came in between.\<close>

definition recorded :: "string \<Rightarrow> sleep_files \<Rightarrow> bool" where
  "recorded i f = (\<exists>w r. find_wake i f = Some w \<and> wo_result w = Some r)"

lemma recorded_step: "recorded i f \<Longrightarrow> recorded i (sleep_step e f)"
proof (cases e)
  case (OpWakeAdmit j)
  assume "recorded i f"
  with wake_admit_wakes [of j f] show ?thesis
    unfolding OpWakeAdmit by (auto simp: recorded_def find_wake_def find_append)
next
  case (OpWakeFinish j row)
  assume r: "recorded i f"
  show ?thesis
  proof (cases "map_option sl_operationId (sf_row f) \<noteq> Some (sl_operationId row)")
    case True
    with r show ?thesis unfolding OpWakeFinish by (simp add: wake_finish_def)
  next
    case False
    have "find_wake i (sleep_step e f)
        = map_option (\<lambda>w. if wo_operationId w = j then w\<lparr>wo_result := Some row\<rparr> else w) (find_wake i f)"
      using False unfolding OpWakeFinish find_wake_def
      by (simp add: wake_finish_def find_map_key)
    moreover obtain w r where "find_wake i f = Some w" "wo_result w = Some r" using r by (auto simp: recorded_def)
    ultimately show ?thesis by (cases "wo_operationId w = j") (simp_all add: recorded_def)
  qed
qed (simp_all add: recorded_def find_wake_def other_wakes)

lemma recorded_run: "recorded i f \<Longrightarrow> recorded i (fold sleep_step es f)"
  by (induction es arbitrary: f) (simp_all add: recorded_step)

lemma recorded_answer:
  assumes "recorded i f" "sf_row f = Some row"
  shows "\<exists>r. wake_admit i f = (Inr (row, Some r), f)"
  using assms by (auto simp: recorded_def wake_admit_def)

text \<open>While a sleep is in force nothing starts: the owner's pickup is refused from the request until the
  section that starts the executor again.\<close>

lemma sleep_blocks:
  assumes "sleep_admit i rvn p f = (Inr (SleepRow row dup), f')"
  shows "sleepBlocksStart f' \<and> (\<forall>j stopped f''. wake_start j stopped f' = (Inr True, f'') \<longrightarrow> \<not> sleepBlocksStart f'')
    \<and> sleepBlocksStart (snd (sleep_confirm j f'))"
proof -
  have r: "sf_row f' = Some row" "sl_phase row \<noteq> SlAwake" "sl_phase row \<noteq> SlWaking"
    using assms by (auto simp: sleep_admit_def Let_def split: option.splits sleep_reason.splits if_splits)
  then show ?thesis
    by (auto simp: sleepBlocksStart_def wake_start_def sleep_confirm_def split: if_splits)
qed

text \<open>The whole circle under one pair of operations.\<close>

lemma sleep_circle:
  assumes "sf_row f = None" "ip_eligible p" "ip_eligible p \<longleftrightarrow> ip_reason p = None" "ip_revision p = rvn"
    "sf_wakes f = []"
  shows "map_option sl_phase (sf_row (fold sleep_step
      [OpSleep i rvn p, OpConfirm i, OpWakeAdmit j, OpWakeStart i False, OpAcknowledge i] f)) = Some SlAwake"
  using assms
  by (simp add: sleep_admit_def Let_def sleep_confirm_def wake_admit_def find_wake_def wake_start_def wake_acknowledge_def)

end
