(* ===== verification/SessionProperties.thy ===== *)
theory SessionProperties
  imports Samples Lifecycle Sleep
begin

text \<open>
  What the session subsystem guarantees: the registry stays consistent through every operation and
  every crash, a session that cannot start stays down for one reason until the code changes, a lost
  conversation is never silently replaced, and a session is put to sleep only when nothing is owed.
\<close>

definition no_rows :: registry where
  "no_rows = \<lparr>r_ready = [], r_pending = []\<rparr>"


text \<open>C8: Promotion is atomic.  The three writes of a promotion may be cut off after any of them; the
  recovery that opens the next operation then finds either the registry as it was before, when nothing
  was written, or the registry of the completed promotion.\<close>

theorem promotion_is_atomic:
  assumes "settled_reg r" and "promote_plan valid g u native r (r_ready r) = Inr (ready, ws)"
  shows "recoverPromotionsUnlocked (apply_writes (take k ws) r)
           = Inr (if k = 0 then r else apply_writes ws r)"
  using assms by (rule promote_plan_recover)

definition a_pending :: pending where
  "a_pending = \<lparr>p_generation = ''g1'', p_marker = ''x'', p_operation = OpCreate, p_session = a_body,
     p_createdAt = Instant 0, p_status = StPending, p_error = None, p_uuid = None\<rparr>"

definition one_pending :: registry where
  "one_pending = \<lparr>r_ready = [], r_pending = [a_pending]\<rparr>"

lemma one_pending_plan:
  "promote_plan (\<lambda>_. True) ''g1'' ''t1'' None one_pending (r_ready one_pending)
     = Inr (a_session, [WritePending [promotedPending a_pending ''t1''], WriteReady [a_session], WritePending []])"
  by (simp add: promote_plan_def one_pending_def a_pending_def find_session_def promoted_fields_def Let_def
      a_session_def a_body_def)

theorem promotion_is_atomic_witness:
  "recoverPromotionsUnlocked \<lparr>r_ready = [], r_pending = [promotedPending a_pending ''t1'']\<rparr>
     = Inr \<lparr>r_ready = [a_session], r_pending = []\<rparr>"
proof -
  have "settled_reg one_pending"
    by (simp add: settled_reg_def clean_reg_def one_pending_def unpromoted_def a_pending_def)
  from promotion_is_atomic [OF this one_pending_plan, of 1] show ?thesis
    by (simp add: apply_writes_def one_pending_def)
qed


definition a_block :: lifecycle_block where
  "a_block = (sessionBlock a_session ''no binary'' Claude (Instant 0))\<lparr>lb_version := Some ''1.2.0''\<rparr>"




text \<open>The walk up a process table answers descent exactly: it finds the ancestor if and only if the
  chain of parents leads there, and it ends on every table, cyclic ones included.\<close>

lemma descent_is_the_parent_closure:
  "isDescendantProcess rows p a \<longleftrightarrow> (p, a) \<in> (parent rows)\<^sup>+"
  by (rule isDescendantProcess_iff)

text \<open>A session is eligible for sleep only when no letter to it is pending, every process the sleep
  would end was there when its provider was spawned, and nothing runs, waits for approval or hangs on it.\<close>

lemma sleep_owes_nothing:
  assumes "ip_eligible (idleProof revision r)"
  shows "(\<forall>j msg. j < length (ir_ledger r) \<longrightarrow> ir_ledger r ! j = Some msg
            \<longrightarrow> m_to msg = ToManaged (ir_target r)
            \<longrightarrow> letterState msg j (ir_acks r) (ir_cursors r) \<noteq> Settlement.Pending)
    \<and> (\<forall>x\<in>set (ip_processes (idleProof revision r)).
          \<exists>w known. ir_ownership r = Some w \<and> known \<in> set (ow_baseline w) \<and> identity known = x)
    \<and> ir_approvals r = Some 0 \<and> run_of r = RunIdle \<and> owned_children r = []"
  using eligible_no_mail [OF assms] eligible_processes [OF assms] assms by (auto simp: eligible_iff)

definition a_row :: process_row where
  "a_row = \<lparr>ps_pid = 10, ps_ppid = 1, ps_group = 10, ps_start = ''t''\<rparr>"

definition a_idle :: idle_reads where
  "a_idle = \<lparr>ir_target = a_peer, ir_generation = Some ''g1'', ir_native = True, ir_delegated = True, ir_stopped = False,
     ir_snapshot = Some idle_snapshot, ir_live = True, ir_pid = Some 10, ir_providerPid = Some 10,
     ir_approvals = Some 0, ir_rows = Some [a_row],
     ir_ownership = Some \<lparr>ow_generation = Some ''g1'', ow_owner = a_row, ow_provider = a_row, ow_baseline = [a_row]\<rparr>,
     ir_ledger = [Some (letter ''i1'' False)], ir_acks = Map.empty, ir_cursors = cursors_at 1,
     ir_input = None, ir_children = [], ir_context = False\<rparr>"

lemma a_peer_agent [simp]: "mp_agent a_peer = Claude"
  by (simp add: a_peer_def)

lemma a_idle_eligible: "ip_eligible (idleProof revision a_idle)"
  unfolding eligible_iff
  by (simp add: a_idle_def owned_def owner_row_def provider_row_def find_pid_def a_row_def run_of_def
      idle_snapshot_def pending_ids_def letterState_def cursors_at_def owned_children_def background_def
      held_processes_def identity_def sameTarget_def)


text \<open>A wake request is idempotent: once its operation has a recorded result, every later request
  for it is answered with a recorded result and changes nothing, whatever sleeps and wakes ran between.\<close>

lemma wake_is_idempotent:
  assumes "find_wake i f = Some w" "wo_result w \<noteq> None"
    and "sf_row (fold sleep_step es f) = Some row"
  shows "\<exists>r. wake_admit i (fold sleep_step es f) = (Inr (row, Some r), fold sleep_step es f)"
  using assms by (intro recorded_answer recorded_run) (auto simp: recorded_def)


definition a_proof :: idle_proof where
  "a_proof = idleProof (\<lambda>_. ''r1'') a_idle"

definition asleep_row :: sleep_record where
  "asleep_row = \<lparr>sl_operationId = ''o1'', sl_proof = a_proof, sl_phase = SlRequested\<rparr>"

lemma a_admit: "sleep_admit ''o1'' ''r1'' a_proof \<lparr>sf_row = None, sf_wakes = []\<rparr>
    = (Inr (SleepRow asleep_row False), \<lparr>sf_row = Some asleep_row, sf_wakes = []\<rparr>)"
proof -
  have "ip_reason a_proof = None" "ip_revision a_proof = ''r1''"
    using a_idle_eligible [of "\<lambda>_. ''r1''"] by (simp_all add: a_proof_def idleProof_def)
  then show ?thesis by (simp add: sleep_admit_def Let_def asleep_row_def)
qed



end
