(* ===== verification/Response.thy ===== *)
theory Response
  imports Prelude
begin

text \<open>
  Answers to a runtime's approval and input requests (\<open>src/runtime/response.ts\<close>): whether a response
  can answer the request it names, and the crash-safe protocol that applies it at most once.  Also the
  lease that decides whether a published snapshot still counts (\<open>lease.ts\<close>, \<open>statusFile.ts\<close>).
\<close>

datatype request_kind = Approval | Input
datatype decision = Accept | AcceptForSession | Decline | Cancel

record question =
  q_id :: string
  q_isOther :: bool
  q_options :: "string list option"
  q_multiple :: "bool option"

record pending_request =
  pr_requestId :: string
  pr_kind :: request_kind
  pr_turnId :: string
  pr_decisions :: "decision list"
  pr_questions :: "question list"

record response_command =
  rc_operationId :: string
  rc_generation :: string
  rc_requestId :: string
  rc_fingerprint :: string
  rc_kind :: request_kind
  rc_decision :: "decision option"
  rc_answers :: "(string \<times> string list) list option"

datatype refusal = GenerationMismatch | NotPending | KindMismatch | DecisionUnavailable
  | AnswersRequired | QuestionMismatch | AnswerUnavailable

definition refusal_text :: "refusal \<Rightarrow> string" where
  "refusal_text r = (case r of
      GenerationMismatch \<Rightarrow> ''projection-generation-mismatch''
    | NotPending \<Rightarrow> ''request-is-not-pending''
    | KindMismatch \<Rightarrow> ''request-kind-mismatch''
    | DecisionUnavailable \<Rightarrow> ''decision-is-not-available''
    | AnswersRequired \<Rightarrow> ''answers-are-required''
    | QuestionMismatch \<Rightarrow> ''question-id-mismatch''
    | AnswerUnavailable \<Rightarrow> ''answer-is-not-available'')"

text \<open>An answers object has one entry per key; the sorted key lists agree when the keys do.\<close>

fun answers_loop :: "(string \<times> string list) list \<Rightarrow> question list \<Rightarrow> refusal option" where
  "answers_loop answers [] = None"
| "answers_loop answers (q # qs) =
     (let given = nullish (map_of answers (q_id q)) []
      in if q_multiple q = Some False \<and> length given \<noteq> 1 then Some AnswerUnavailable
         else if \<not> q_isOther q \<and> q_options q \<noteq> None
                 \<and> (\<exists>a\<in>set given. a \<notin> set (nullish (q_options q) [])) then Some AnswerUnavailable
         else answers_loop answers qs)"

definition same_elements :: "string list \<Rightarrow> string list \<Rightarrow> bool" where
  "same_elements xs ys = (\<forall>x\<in>set xs \<union> set ys. count_list xs x = count_list ys x)"

definition nativeResponseRefusal ::
  "response_command \<Rightarrow> pending_request option \<Rightarrow> string option \<Rightarrow> refusal option" where
  "nativeResponseRefusal c request generation =
     (if Some (rc_generation c) \<noteq> generation then Some GenerationMismatch
      else case request of
          None \<Rightarrow> Some NotPending
        | Some r \<Rightarrow>
            (if pr_kind r \<noteq> rc_kind c then Some KindMismatch
             else if rc_kind c = Approval
             then (case rc_decision c of
                 None \<Rightarrow> Some DecisionUnavailable
               | Some d \<Rightarrow> if d \<in> set (pr_decisions r) then None else Some DecisionUnavailable)
             else case rc_answers c of
                 None \<Rightarrow> Some AnswersRequired
               | Some answers \<Rightarrow>
                   (if \<not> same_elements (map fst answers) (map q_id (pr_questions r)) then Some QuestionMismatch
                    else answers_loop answers (pr_questions r))))"

lemma answers_loop_None:
  "answers_loop answers qs = None \<longleftrightarrow> (\<forall>q\<in>set qs.
     (q_multiple q = Some False \<longrightarrow> length (nullish (map_of answers (q_id q)) []) = 1)
     \<and> (\<forall>labels. \<not> q_isOther q \<and> q_options q = Some labels \<longrightarrow>
          set (nullish (map_of answers (q_id q)) []) \<subseteq> set labels))"
proof (induction qs)
  case (Cons q qs)
  show ?case
    by (cases "q_options q") (auto simp: Let_def Cons.IH subset_eq)
qed simp

lemma same_elements_set:
  assumes "same_elements xs ys"
  shows "set xs = set ys"
proof -
  have "x \<in> set xs \<longleftrightarrow> x \<in> set ys" for x
  proof (cases "x \<in> set xs \<union> set ys")
    case True
    with assms have "count_list xs x = count_list ys x" unfolding same_elements_def by blast
    then show ?thesis by (metis count_list_0_iff)
  qed simp
  then show ?thesis by blast
qed

text \<open>What an accepted answer to an input request satisfies.\<close>

lemma input_accepted:
  assumes "nativeResponseRefusal c (Some r) g = None" "rc_kind c = Input"
  shows "g = Some (rc_generation c) \<and> pr_kind r = Input \<and> (\<exists>answers. rc_answers c = Some answers
    \<and> set (map fst answers) = q_id ` set (pr_questions r) \<and> answers_loop answers (pr_questions r) = None)"
proof -
  from assms obtain answers where a: "rc_answers c = Some answers" "g = Some (rc_generation c)" "pr_kind r = Input"
    "same_elements (map fst answers) (map q_id (pr_questions r))" "answers_loop answers (pr_questions r) = None"
    by (auto simp: nativeResponseRefusal_def split: if_splits option.splits)
  have "set (map fst answers) = set (map q_id (pr_questions r))" using a(4) by (rule same_elements_set)
  with a show ?thesis by auto
qed

subsection \<open>Applying a response at most once\<close>

datatype receipt_outcome = Submitted | Rejected | UncertainReceipt

record response_receipt =
  re_operationId :: string
  re_requestId :: string
  re_fingerprint :: string
  re_outcome :: receipt_outcome
  re_reason :: "string option"

text \<open>The files of a session's response mailbox, and what the runtime was told so far.\<close>

record response_state =
  rs_command :: "response_command option"
  rs_receipt :: "response_receipt option"
  rs_submitted :: "string list"

definition receipt_for :: "response_command \<Rightarrow> receipt_outcome \<Rightarrow> string option \<Rightarrow> response_receipt" where
  "receipt_for c outcome reason = \<lparr>re_operationId = rc_operationId c, re_requestId = rc_requestId c,
     re_fingerprint = rc_fingerprint c, re_outcome = outcome, re_reason = reason\<rparr>"

text \<open>One step to disk or to the runtime.  The owner may die between any two of them.\<close>

datatype answer_step = WriteReceipt response_receipt | Submit response_command | ClearCommand

fun answer_apply :: "answer_step \<Rightarrow> response_state \<Rightarrow> response_state" where
  "answer_apply (WriteReceipt r) s = s\<lparr>rs_receipt := Some r\<rparr>"
| "answer_apply (Submit c) s = s\<lparr>rs_submitted := rs_submitted s @ [rc_operationId c]\<rparr>"
| "answer_apply ClearCommand s = s\<lparr>rs_command := None\<rparr>"

text \<open>
  \<open>answerNativeCommand\<close> as the steps it takes from a state.  \<open>submit\<close> may throw, which ends the
  steps after the runtime was told; that is one of the prefixes.
\<close>

definition answer_plan ::
  "string option \<Rightarrow> (string \<Rightarrow> pending_request option) \<Rightarrow> response_state \<Rightarrow> answer_step list" where
  "answer_plan generation pending s =
     (case rs_command s of
        None \<Rightarrow> []
      | Some c \<Rightarrow>
          (if map_option re_operationId (rs_receipt s) = Some (rc_operationId c) then [ClearCommand]
           else let req = pending (rc_requestId c)
                in case nativeResponseRefusal c req generation of
                    Some why \<Rightarrow> [WriteReceipt (receipt_for c Rejected (Some (refusal_text why))), ClearCommand]
                  | None \<Rightarrow> (if req = None then [WriteReceipt (receipt_for c Rejected None), ClearCommand]
                      else [WriteReceipt (receipt_for c UncertainReceipt None), Submit c,
                            WriteReceipt (receipt_for c Submitted None), ClearCommand])))"

definition answerNativeCommand ::
  "string option \<Rightarrow> (string \<Rightarrow> pending_request option) \<Rightarrow> response_state \<Rightarrow> response_state" where
  "answerNativeCommand generation pending s = fold answer_apply (answer_plan generation pending s) s"

text \<open>
  The life of the mailbox: callers write commands, each under an operation id of its own (a UUID); the
  owner answers, and may die after any number of steps.
\<close>

inductive response_step :: "response_state \<Rightarrow> response_state \<Rightarrow> bool" where
  command: "rc_operationId c \<notin> set (rs_submitted s) \<Longrightarrow> map_option rc_operationId (rs_command s) \<noteq> Some (rc_operationId c)
     \<Longrightarrow> map_option re_operationId (rs_receipt s) \<noteq> Some (rc_operationId c)
     \<Longrightarrow> response_step s (s\<lparr>rs_command := Some c\<rparr>)"
| answer: "response_step s (fold answer_apply (take k (answer_plan generation pending s)) s)"

inductive_cases response_stepE: "response_step s s'"

inductive response_reach :: "response_state \<Rightarrow> bool" where
  start: "response_reach \<lparr>rs_command = None, rs_receipt = None, rs_submitted = []\<rparr>"
| step: "response_reach s \<Longrightarrow> response_step s s' \<Longrightarrow> response_reach s'"

text \<open>An operation the runtime was told about is either answered in the receipt or not on file.\<close>

definition response_inv :: "response_state \<Rightarrow> bool" where
  "response_inv s = (distinct (rs_submitted s)
     \<and> (\<forall>c. rs_command s = Some c \<longrightarrow> rc_operationId c \<in> set (rs_submitted s) \<longrightarrow>
          map_option re_operationId (rs_receipt s) = Some (rc_operationId c)
          \<and> map_option re_outcome (rs_receipt s) \<noteq> Some Rejected))"

lemma answer_prefix_inv:
  assumes inv: "response_inv s"
  shows "\<forall>t\<in>set (prefixes (answer_plan g pending s)). response_inv (fold answer_apply t s)"
proof (cases "rs_command s")
  case None
  with inv show ?thesis by (simp add: answer_plan_def)
next
  case (Some c)
  show ?thesis
  proof (cases "map_option re_operationId (rs_receipt s) = Some (rc_operationId c)")
    case True
    with Some inv show ?thesis by (simp add: answer_plan_def response_inv_def)
  next
    case False
    let ?rej = "\<lambda>why. [WriteReceipt (receipt_for c Rejected why), ClearCommand]"
    let ?sub = "[WriteReceipt (receipt_for c UncertainReceipt None), Submit c,
      WriteReceipt (receipt_for c Submitted None), ClearCommand]"
    have new: "rc_operationId c \<notin> set (rs_submitted s)" using Some False inv by (auto simp: response_inv_def)
    from Some False have "(\<exists>why. answer_plan g pending s = ?rej why) \<or> answer_plan g pending s = ?sub"
      by (auto simp: answer_plan_def Let_def split: option.splits)
    then show ?thesis
      using new Some inv by (auto simp: response_inv_def receipt_for_def)
  qed
qed

lemma response_step_inv: "response_step s s' \<Longrightarrow> response_inv s \<Longrightarrow> response_inv s'"
proof (erule response_stepE)
  fix c
  assume "response_inv s" "rc_operationId c \<notin> set (rs_submitted s)" "s' = s\<lparr>rs_command := Some c\<rparr>"
  then show ?thesis by (auto simp: response_inv_def)
next
  fix k g pending
  assume "response_inv s" "s' = fold answer_apply (take k (answer_plan g pending s)) s"
  then show ?thesis using answer_prefix_inv [of s g pending] by (simp add: take_is_prefix)
qed

lemma response_reach_inv: "response_reach s \<Longrightarrow> response_inv s"
proof (induction rule: response_reach.induct)
  case start
  show ?case by (simp add: response_inv_def)
next
  case (step s s')
  then show ?case by (blast intro: response_step_inv)
qed

subsection \<open>The lease\<close>

record runtime_lease =
  rl_pid :: nat
  rl_providerPid :: nat
  rl_connected :: bool
  rl_reason :: "string option"
  rl_observedAt :: stamp
  rl_expiresAt :: stamp

datatype lease_status = LeaseLive | LeaseStale | LeaseUnavailable

text \<open>\<open>alive pid\<close>: signal 0 reaches the process, or only permission is missing.\<close>

definition readRuntimeLease :: "(nat \<Rightarrow> bool) \<Rightarrow> runtime_lease \<Rightarrow> int \<Rightarrow> int \<Rightarrow> lease_status \<times> string option" where
  "readRuntimeLease alive l now ttlMs =
     (if \<not> alive (rl_pid l) \<or> \<not> alive (rl_providerPid l) then (LeaseUnavailable, Some ''producer-stopped'')
      else if \<not> rl_connected l then (LeaseUnavailable, Some (nullish (rl_reason l) ''disconnected''))
      else case (date_parse (rl_observedAt l), date_parse (rl_expiresAt l)) of
          (Some observed, Some expires) \<Rightarrow>
            (if now < observed \<or> expires < observed \<or> expires - observed > ttlMs
             then (LeaseUnavailable, Some ''clock-skew'')
             else if now \<ge> expires then (LeaseStale, Some ''expired'') else (LeaseLive, None))
        | _ \<Rightarrow> (LeaseUnavailable, Some ''clock-skew''))"

lemma lease_live_iff:
  "fst (readRuntimeLease alive l now ttlMs) = LeaseLive \<longleftrightarrow>
     alive (rl_pid l) \<and> alive (rl_providerPid l) \<and> rl_connected l
     \<and> (\<exists>observed expires. date_parse (rl_observedAt l) = Some observed \<and> date_parse (rl_expiresAt l) = Some expires
        \<and> observed \<le> now \<and> now < expires \<and> expires - observed \<le> ttlMs)"
  by (auto simp: readRuntimeLease_def split: option.splits)

text \<open>A lease runs out: a producer that stopped writing is not live later than its bound.\<close>

lemma lease_bounded:
  assumes "fst (readRuntimeLease alive l now ttlMs) = LeaseLive"
    "fst (readRuntimeLease alive l later ttlMs) = LeaseLive" "date_parse (rl_observedAt l) = Some observed"
  shows "later < observed + ttlMs"
  using assms by (auto simp: lease_live_iff)

text \<open>What is published of a snapshot: its state only under a live lease, its account always.\<close>

definition validateRuntimeLiveness ::
  "(nat \<Rightarrow> bool) \<Rightarrow> ('s \<Rightarrow> runtime_lease) \<Rightarrow> ('s \<Rightarrow> 'a option) \<Rightarrow> 's \<Rightarrow> int
     \<Rightarrow> lease_status \<times> string option \<times> 's option \<times> 'a option option" where
  "validateRuntimeLiveness alive lease account snapshot now =
     (let (status, reason) = readRuntimeLease alive (lease snapshot) now 5000;
          live = (status = LeaseLive)
      in (status, reason, if live then Some snapshot else None, if live then None else Some (account snapshot)))"

end
