(* ===== verification/Jsonl.thy ===== *)
theory Jsonl
  imports Prelude
begin

text \<open>
  The append-only JSON-lines reader (\<open>src/util/jsonl.ts\<close>) and the incremental line tail
  (\<open>src/util/readLines.ts\<close>).  A file is its bytes and its identity (device and inode).  Parsing one
  line is a parameter: \<open>None\<close> for a blank line, \<open>Some None\<close> for one that is not JSON.  A newline byte
  never occurs inside a multi-byte character, so lines are split as bytes.

  The reader remembers how far it has decoded and resumes there; the theorem at the end is that, while
  what it decoded is still what the file begins with, its answer is that of a reader with no memory.
\<close>

type_synonym byte = nat

definition NL :: byte where "NL = 10"

datatype bad_line = BadThrow | BadSkip | BadHole

record ('j, 'r) jsonl_options =
  jo_id :: nat
  jo_label :: string
  jo_badLine :: bad_line
  jo_parse :: "byte list \<Rightarrow> 'j option option"
  jo_decode :: "'j option \<Rightarrow> nat \<Rightarrow> string + 'r option"

record jsonl_file =
  jf_identity :: string
  jf_bytes :: "byte list"

record 'r decoded =
  jd_identity :: string
  jd_offset :: nat
  jd_lines :: nat
  jd_records :: "'r list"
  jd_decode :: nat
  jd_tail :: "byte list"

definition FINGERPRINT :: nat where "FINGERPRINT = 256"

fun split_lines :: "byte list \<Rightarrow> byte list list" where
  "split_lines [] = [[]]"
| "split_lines (b # bs) =
     (if b = NL then [] # split_lines bs
      else (case split_lines bs of [] \<Rightarrow> [[b]] | l # ls \<Rightarrow> (b # l) # ls))"

text \<open>The bytes before the last newline, \<open>None\<close> when there is no newline.\<close>

definition whole_text :: "byte list \<Rightarrow> byte list option" where
  "whole_text bs = (if NL \<in> set bs then Some (rev (tl (dropWhile (\<lambda>b. b \<noteq> NL) (rev bs)))) else None)"

fun decode_lines :: "('j, 'r) jsonl_options \<Rightarrow> nat \<Rightarrow> byte list list \<Rightarrow> string + 'r list" where
  "decode_lines opts n [] = Inr []"
| "decode_lines opts n (raw # rest) =
     (case jo_parse opts raw of
        None \<Rightarrow> decode_lines opts (Suc n) rest
      | Some parsed \<Rightarrow>
          (if parsed = None \<and> jo_badLine opts = BadThrow
           then Inl (jo_label opts @ '':'' @ string_of_nat (Suc n) @ '' '' @ em_dash @ '' invalid JSON'')
           else if parsed = None \<and> jo_badLine opts = BadSkip then decode_lines opts (Suc n) rest
           else bind_result (jo_decode opts parsed (Suc n)) (\<lambda>r.
                bind_result (decode_lines opts (Suc n) rest) (\<lambda>rs.
                  Inr (case r of None \<Rightarrow> rs | Some x \<Rightarrow> x # rs)))))"

definition last_bytes :: "nat \<Rightarrow> byte list \<Rightarrow> byte list" where
  "last_bytes n bs = drop (length bs - n) bs"

definition sameTail :: "jsonl_file \<Rightarrow> 'r decoded \<Rightarrow> bool" where
  "sameTail f k = (take (length (jd_tail k)) (drop (jd_offset k - length (jd_tail k)) (jf_bytes f)) = jd_tail k)"

definition fresh_decoded :: "('j, 'r) jsonl_options \<Rightarrow> string \<Rightarrow> 'r decoded" where
  "fresh_decoded opts identity = \<lparr>jd_identity = identity, jd_offset = 0, jd_lines = 0, jd_records = [],
     jd_decode = jo_id opts, jd_tail = []\<rparr>"

definition resumable :: "('j, 'r) jsonl_options \<Rightarrow> jsonl_file \<Rightarrow> 'r decoded \<Rightarrow> bool" where
  "resumable opts f k = (jd_identity k = jf_identity f \<and> jd_decode k = jo_id opts
     \<and> jd_offset k \<le> length (jf_bytes f) \<and> sameTail f k)"

text \<open>The records, and what is remembered for the next read.  A missing file is \<open>None\<close>.\<close>

definition readJsonl ::
  "('j, 'r) jsonl_options \<Rightarrow> jsonl_file option \<Rightarrow> 'r decoded option \<Rightarrow> (string + 'r list) \<times> 'r decoded option" where
  "readJsonl opts file known = (case file of
      None \<Rightarrow> (Inr [], None)
    | Some f \<Rightarrow>
        (let base = (case known of
                Some k \<Rightarrow> if resumable opts f k then k else fresh_decoded opts (jf_identity f)
              | None \<Rightarrow> fresh_decoded opts (jf_identity f))
         in if jd_offset base = length (jf_bytes f) then (Inr (jd_records base), known)
            else case whole_text (drop (jd_offset base) (jf_bytes f)) of
                None \<Rightarrow> (Inr (jd_records base), Some base)
              | Some t \<Rightarrow>
                  (case decode_lines opts (jd_lines base) (split_lines t) of
                     Inl e \<Rightarrow> (Inl e, known)
                   | Inr added \<Rightarrow>
                       (let next = \<lparr>jd_identity = jf_identity f, jd_offset = jd_offset base + length t + 1,
                              jd_lines = jd_lines base + length (split_lines t),
                              jd_records = jd_records base @ added, jd_decode = jo_id opts,
                              jd_tail = last_bytes FINGERPRINT (jd_tail base @ last_bytes FINGERPRINT (t @ [NL]))\<rparr>
                        in (Inr (jd_records next), Some next)))))"

subsection \<open>Lines\<close>

lemma split_lines_ne [simp]: "split_lines bs \<noteq> []"
  by (cases bs) (auto split: list.splits)

lemma split_lines_append: "split_lines (p @ NL # q) = split_lines p @ split_lines q"
  by (induction p) (auto split: list.splits simp: Cons_eq_append_conv)

lemma decode_lines_append:
  "decode_lines opts n (xs @ ys) = bind_result (decode_lines opts n xs) (\<lambda>rs.
     bind_result (decode_lines opts (n + length xs) ys) (\<lambda>ss. Inr (rs @ ss)))"
proof (induction xs arbitrary: n)
  case Nil
  then show ?case by (cases "decode_lines opts n ys") simp_all
next
  case (Cons x xs)
  show ?case
  proof (cases "jo_parse opts x")
    case None
    then show ?thesis by (simp add: Cons)
  next
    case (Some parsed)
    show ?thesis
    proof (cases "parsed = None \<and> jo_badLine opts \<noteq> BadHole")
      case True
      with Some show ?thesis by (cases "jo_badLine opts") (simp_all add: Cons)
    next
      case False
      with Some show ?thesis
        by (cases "jo_decode opts parsed (Suc n)"; cases "decode_lines opts (Suc n) xs";
            cases "decode_lines opts (Suc n + length xs) ys"; cases "jo_badLine opts")
          (auto simp: Cons split: option.splits)
    qed
  qed
qed

lemma dropWhile_ne: "NL \<in> set xs \<Longrightarrow> \<exists>a b. xs = a @ NL # b \<and> NL \<notin> set a \<and> dropWhile (\<lambda>b. b \<noteq> NL) xs = NL # b"
proof (induction xs)
  case (Cons x xs)
  show ?case
  proof (cases "x = NL")
    case True
    then show ?thesis by (intro exI [of _ "[]"] exI [of _ xs]) simp
  next
    case False
    with Cons obtain a b where "xs = a @ NL # b" "NL \<notin> set a" "dropWhile (\<lambda>b. b \<noteq> NL) xs = NL # b" by auto
    with False show ?thesis by (intro exI [of _ "x # a"] exI [of _ b]) simp
  qed
qed simp

lemma whole_text_Some:
  "whole_text bs = Some t \<longleftrightarrow> (\<exists>rest. bs = t @ NL # rest \<and> NL \<notin> set rest)"
proof
  assume "whole_text bs = Some t"
  then have nl: "NL \<in> set (rev bs)" and t: "t = rev (tl (dropWhile (\<lambda>b. b \<noteq> NL) (rev bs)))"
    by (auto simp: whole_text_def split: if_splits)
  from dropWhile_ne [OF nl] obtain a b where "rev bs = a @ NL # b" "NL \<notin> set a"
    "dropWhile (\<lambda>b. b \<noteq> NL) (rev bs) = NL # b" by blast
  with t have "t = rev b" "bs = rev b @ NL # rev a" by (simp_all add: rev_eq_append_conv [symmetric])
    (metis append.assoc append_Cons append_Nil rev.simps(2) rev_append rev_rev_ident)
  with \<open>NL \<notin> set a\<close> show "\<exists>rest. bs = t @ NL # rest \<and> NL \<notin> set rest" by auto
next
  assume "\<exists>rest. bs = t @ NL # rest \<and> NL \<notin> set rest"
  then obtain rest where bs: "bs = t @ NL # rest" "NL \<notin> set rest" by blast
  then have "\<forall>x\<in>set (rev rest). x \<noteq> NL" by auto
  then have "dropWhile (\<lambda>b. b \<noteq> NL) (rev bs) = NL # rev t"
    using bs by (simp add: dropWhile_append)
  with bs show "whole_text bs = Some t" by (simp add: whole_text_def)
qed

lemma whole_text_None: "whole_text bs = None \<longleftrightarrow> NL \<notin> set bs"
  by (simp add: whole_text_def)

text \<open>A reader with no memory.\<close>

definition decode_all :: "('j, 'r) jsonl_options \<Rightarrow> byte list \<Rightarrow> string + 'r list" where
  "decode_all opts bs = (case whole_text bs of None \<Rightarrow> Inr [] | Some t \<Rightarrow> decode_lines opts 0 (split_lines t))"

text \<open>What a remembered state says of the bytes it was decoded from.\<close>

definition decoded_ok :: "('j, 'r) jsonl_options \<Rightarrow> 'r decoded \<Rightarrow> byte list \<Rightarrow> bool" where
  "decoded_ok opts k p = (jd_decode k = jo_id opts \<and> jd_offset k = length p \<and> jd_tail k = last_bytes FINGERPRINT p
     \<and> (p = [] \<and> jd_lines k = 0 \<and> jd_records k = []
        \<or> (\<exists>q. p = q @ [NL] \<and> jd_lines k = length (split_lines q)
             \<and> decode_lines opts 0 (split_lines q) = Inr (jd_records k))))"

lemma last_bytes_append: "last_bytes n (last_bytes n p @ last_bytes n q) = last_bytes n (p @ q)"
  by (cases "length p \<le> n"; cases "length q \<le> n") (auto simp: last_bytes_def add.commute)

text \<open>Decoding the rest of a file after a remembered prefix is decoding the file.\<close>

lemma decode_all_resume:
  assumes ok: "decoded_ok opts k p"
  shows "decode_all opts (p @ r) = (case whole_text r of
      None \<Rightarrow> Inr (jd_records k)
    | Some t \<Rightarrow> bind_result (decode_lines opts (jd_lines k) (split_lines t)) (\<lambda>added. Inr (jd_records k @ added)))"
proof (cases "p = []")
  case True
  with ok have k: "jd_records k = []" "jd_lines k = 0" by (auto simp: decoded_ok_def)
  have "bind_result x (\<lambda>added. Inr ([] @ added)) = x" for x :: "string + 'b list" by (cases x) simp_all
  with True k show ?thesis by (simp add: decode_all_def split: option.splits)
next
  case False
  with ok obtain q where q: "p = q @ [NL]" "jd_lines k = length (split_lines q)"
    "decode_lines opts 0 (split_lines q) = Inr (jd_records k)" by (auto simp: decoded_ok_def)
  show ?thesis
  proof (cases "whole_text r")
    case None
    then have "whole_text (p @ r) = Some q"
      by (subst whole_text_Some) (auto simp: q(1) whole_text_None)
    with None q show ?thesis by (simp add: decode_all_def)
  next
    case (Some t)
    then obtain rest where r: "r = t @ NL # rest" "NL \<notin> set rest" by (auto simp: whole_text_Some)
    have "whole_text (p @ r) = Some (q @ NL # t)"
      by (subst whole_text_Some) (auto simp: q(1) r)
    with Some q show ?thesis
      by (simp add: decode_all_def split_lines_append decode_lines_append)
  qed
qed

lemma decoded_ok_next:
  assumes ok: "decoded_ok opts k p"
    and added: "decode_lines opts (jd_lines k) (split_lines t) = Inr added"
  shows "decoded_ok opts \<lparr>jd_identity = i, jd_offset = jd_offset k + length t + 1,
      jd_lines = jd_lines k + length (split_lines t), jd_records = jd_records k @ added, jd_decode = jo_id opts,
      jd_tail = last_bytes FINGERPRINT (jd_tail k @ last_bytes FINGERPRINT (t @ [NL]))\<rparr> (p @ t @ [NL])"
proof (cases "p = []")
  case True
  with ok added show ?thesis by (auto simp: decoded_ok_def last_bytes_def)
next
  case False
  with ok obtain q where q: "p = q @ [NL]" "jd_lines k = length (split_lines q)"
    "decode_lines opts 0 (split_lines q) = Inr (jd_records k)" "jd_offset k = length p"
    "jd_tail k = last_bytes FINGERPRINT p" by (auto simp: decoded_ok_def)
  have "decode_lines opts 0 (split_lines (q @ NL # t)) = Inr (jd_records k @ added)"
    using q added by (simp add: split_lines_append decode_lines_append)
  moreover have "p @ t @ [NL] = (q @ NL # t) @ [NL]" by (simp add: q(1))
  moreover have "length (split_lines (q @ NL # t)) = jd_lines k + length (split_lines t)"
    by (simp add: split_lines_append q(2))
  ultimately show ?thesis
    using q(4,5) unfolding decoded_ok_def by (auto simp: last_bytes_append)
qed

text \<open>The remembered prefix is still what the file begins with.\<close>

definition unchanged :: "('j, 'r) jsonl_options \<Rightarrow> jsonl_file \<Rightarrow> 'r decoded \<Rightarrow> bool" where
  "unchanged opts f k = (\<exists>p. decoded_ok opts k p \<and> prefix p (jf_bytes f))"

lemma fresh_ok: "decoded_ok opts (fresh_decoded opts i) []"
  by (simp add: decoded_ok_def fresh_decoded_def last_bytes_def)

lemma readJsonl_full:
  assumes "\<forall>k. known = Some k \<longrightarrow> resumable opts f k \<longrightarrow> unchanged opts f k"
  shows "fst (readJsonl opts (Some f) known) = decode_all opts (jf_bytes f)
    \<and> (\<forall>k. snd (readJsonl opts (Some f) known) = Some k \<longrightarrow>
         unchanged opts f k \<or> known = Some k)"
proof -
  define base where "base = (case known of
      Some k \<Rightarrow> if resumable opts f k then k else fresh_decoded opts (jf_identity f)
    | None \<Rightarrow> fresh_decoded opts (jf_identity f))"
  have "unchanged opts f base"
    using assms fresh_ok [of opts "jf_identity f"]
    by (auto simp: base_def unchanged_def split: option.splits intro!: exI [of _ "[]"])
  then obtain p r where p: "decoded_ok opts base p" "jf_bytes f = p @ r"
    by (auto simp: unchanged_def prefix_def)
  have off: "jd_offset base = length p" using p(1) by (simp add: decoded_ok_def)
  note all = decode_all_resume [OF p(1), of r]
  have base_ok: "unchanged opts f base" using p by (auto simp: unchanged_def)
  show ?thesis
  proof (cases "r = []")
    case True
    with p off all show ?thesis
      by (simp add: readJsonl_def base_def [symmetric] Let_def whole_text_def)
  next
    case False
    show ?thesis
    proof (cases "whole_text r")
      case None
      with False p off all base_ok show ?thesis
        by (simp add: readJsonl_def base_def [symmetric] Let_def)
    next
      case (Some t)
      then obtain rest where r: "r = t @ NL # rest" by (auto simp: whole_text_Some)
      show ?thesis
      proof (cases "decode_lines opts (jd_lines base) (split_lines t)")
        case (Inl e)
        with False Some p off all show ?thesis
          by (simp add: readJsonl_def base_def [symmetric] Let_def)
      next
        case (Inr added)
        have "unchanged opts f \<lparr>jd_identity = jf_identity f, jd_offset = jd_offset base + length t + 1,
              jd_lines = jd_lines base + length (split_lines t), jd_records = jd_records base @ added,
              jd_decode = jo_id opts,
              jd_tail = last_bytes FINGERPRINT (jd_tail base @ last_bytes FINGERPRINT (t @ [NL]))\<rparr>"
          unfolding unchanged_def
          using decoded_ok_next [OF p(1) Inr, of "jf_identity f"] p(2) r by (intro exI [of _ "p @ t @ [NL]"]) simp
        with False Some Inr p off all show ?thesis
          by (simp add: readJsonl_def base_def [symmetric] Let_def)
      qed
    qed
  qed
qed

text \<open>Appending keeps a remembered state good, so a sequence of reads of a growing file is exact.\<close>

lemma unchanged_append:
  "unchanged opts f k \<Longrightarrow> prefix (jf_bytes f) (jf_bytes f') \<Longrightarrow> unchanged opts f' k"
  unfolding unchanged_def by (meson prefix_order.trans)

fun read_growing ::
  "('j, 'r) jsonl_options \<Rightarrow> 'r decoded option \<Rightarrow> jsonl_file list \<Rightarrow> (string + 'r list) list" where
  "read_growing opts known [] = []"
| "read_growing opts known (f # fs) =
     (let (result, known') = readJsonl opts (Some f) known in result # read_growing opts known' fs)"

lemma read_growing_exact:
  assumes "\<forall>k. known = Some k \<longrightarrow> unchanged opts f k" "successively (\<lambda>f f'. prefix (jf_bytes f) (jf_bytes f')) (f # fs)"
  shows "read_growing opts known (f # fs) = map (\<lambda>f. decode_all opts (jf_bytes f)) (f # fs)"
  using assms
proof (induction fs arbitrary: f known)
  case Nil
  then show ?case using readJsonl_full [of known opts f] by (auto simp: case_prod_beta Let_def)
next
  case (Cons g gs)
  let ?known = "snd (readJsonl opts (Some f) known)"
  have r: "fst (readJsonl opts (Some f) known) = decode_all opts (jf_bytes f)"
    "\<forall>k. ?known = Some k \<longrightarrow> unchanged opts f k"
    using readJsonl_full [of known opts f] Cons.prems(1) by auto
  then have "\<forall>k. ?known = Some k \<longrightarrow> unchanged opts g k"
    using Cons.prems(2) unchanged_append by auto
  with Cons r show ?case by (simp add: case_prod_beta Let_def del: split_paired_All)
qed

subsection \<open>The line tail\<close>

record line_tail =
  lt_offset :: nat
  lt_carry :: "byte list"

definition reset_tail :: line_tail where
  "reset_tail = \<lparr>lt_offset = 0, lt_carry = []\<rparr>"

definition tailLines :: "nat \<Rightarrow> line_tail" where
  "tailLines from = \<lparr>lt_offset = from, lt_carry = []\<rparr>"

text \<open>\<open>read\<close> on a readable file: the new whole lines, and the tail after it.\<close>

definition read_tail :: "byte list \<Rightarrow> line_tail \<Rightarrow> byte list list \<times> line_tail" where
  "read_tail file lt0 =
     (let lt = (if length file < lt_offset lt0 then reset_tail else lt0)
      in if length file = lt_offset lt then ([], lt)
         else let bytes = lt_carry lt @ drop (lt_offset lt) file
              in case whole_text bytes of
                  None \<Rightarrow> ([], \<lparr>lt_offset = length file, lt_carry = bytes\<rparr>)
                | Some t \<Rightarrow> (split_lines t, \<lparr>lt_offset = length file, lt_carry = drop (length t + 1) bytes\<rparr>))"

definition lines_of :: "byte list \<Rightarrow> byte list list" where
  "lines_of bs = (case whole_text bs of None \<Rightarrow> [] | Some t \<Rightarrow> split_lines t)"

fun read_all :: "byte list list \<Rightarrow> line_tail \<Rightarrow> byte list list" where
  "read_all [] lt = []"
| "read_all (f # fs) lt = (let (ls, lt') = read_tail f lt in ls @ read_all fs lt')"

text \<open>The carry is what follows the last newline of the bytes read so far.\<close>

lemma lines_of_carry:
  assumes "bs = dn @ carry" "NL \<notin> set carry" "dn = [] \<or> (\<exists>d. dn = d @ [NL])"
  shows "lines_of (bs @ new) = lines_of dn @ lines_of (carry @ new)"
proof (cases "dn = []")
  case True
  with assms(1) show ?thesis by (simp add: lines_of_def whole_text_def)
next
  case False
  then obtain d where d: "dn = d @ [NL]" using assms(3) by blast
  have dn: "lines_of dn = split_lines d"
    using whole_text_Some [of dn d] d by (auto simp: lines_of_def split: option.splits)
  show ?thesis
  proof (cases "whole_text (carry @ new)")
    case None
    then have "whole_text (bs @ new) = Some d"
      by (subst whole_text_Some) (auto simp: assms(1) d whole_text_None)
    with None dn show ?thesis by (simp add: lines_of_def)
  next
    case (Some t)
    then obtain rest where r: "carry @ new = t @ NL # rest" "NL \<notin> set rest" by (auto simp: whole_text_Some)
    have "whole_text (bs @ new) = Some (d @ NL # t)"
      by (subst whole_text_Some) (auto simp: assms(1) d r)
    with Some dn show ?thesis by (simp add: lines_of_def split_lines_append)
  qed
qed

definition tail_at :: "nat \<Rightarrow> byte list \<Rightarrow> line_tail \<Rightarrow> bool" where
  "tail_at start file lt = (lt_offset lt = length file \<and> NL \<notin> set (lt_carry lt)
     \<and> (\<exists>dn. drop start file = dn @ lt_carry lt \<and> (dn = [] \<or> (\<exists>d. dn = d @ [NL]))))"

lemma lines_of_nl: "NL \<notin> set c \<Longrightarrow> lines_of (d @ NL # c) = split_lines d"
  using whole_text_Some [of "d @ NL # c" d] by (auto simp: lines_of_def split: option.splits)

lemma lines_of_none: "NL \<notin> set c \<Longrightarrow> lines_of c = []"
  by (simp add: lines_of_def whole_text_def)

text \<open>One read of a file that grew gives exactly the lines that became whole since.\<close>

lemma read_tail_step:
  assumes at: "tail_at start old lt" and start: "start \<le> length old"
  shows "lines_of (drop start (old @ new)) = lines_of (drop start old) @ fst (read_tail (old @ new) lt)
    \<and> tail_at start (old @ new) (snd (read_tail (old @ new) lt))"
proof -
  obtain dn where off: "lt_offset lt = length old" and c: "NL \<notin> set (lt_carry lt)"
    and dn: "drop start old = dn @ lt_carry lt" "dn = [] \<or> (\<exists>d. dn = d @ [NL])"
    using at by (auto simp: tail_at_def)
  have dr: "drop start (old @ new) = drop start old @ new" using start by simp
  have prev: "lines_of (drop start old) = lines_of dn"
    using dn c by (auto simp: lines_of_nl lines_of_none lines_of_nl [of "[]", simplified])
  have lines: "lines_of (drop start (old @ new)) = lines_of dn @ lines_of (lt_carry lt @ new)"
    unfolding dr by (rule lines_of_carry [OF dn(1) c dn(2)])
  show ?thesis
  proof (cases "new = []")
    case True
    with at off lines prev c show ?thesis by (simp add: read_tail_def Let_def lines_of_none)
  next
    case False
    show ?thesis
    proof (cases "whole_text (lt_carry lt @ new)")
      case None
      then have nl: "NL \<notin> set (lt_carry lt @ new)" using whole_text_None by blast
      have rd: "read_tail (old @ new) lt = ([], \<lparr>lt_offset = length old + length new, lt_carry = lt_carry lt @ new\<rparr>)"
        using False off None by (simp add: read_tail_def Let_def)
      have "tail_at start (old @ new) \<lparr>lt_offset = length old + length new, lt_carry = lt_carry lt @ new\<rparr>"
        using nl dn dr by (auto simp: tail_at_def)
      with lines prev rd lines_of_none [OF nl] show ?thesis by simp
    next
      case (Some t)
      then obtain rest where r: "lt_carry lt @ new = t @ NL # rest" "NL \<notin> set rest" by (auto simp: whole_text_Some)
      have rd: "read_tail (old @ new) lt = (split_lines t, \<lparr>lt_offset = length old + length new, lt_carry = rest\<rparr>)"
        using False off Some r by (simp add: read_tail_def Let_def)
      have "drop start (old @ new) = (dn @ t @ [NL]) @ rest"
        using dr dn(1) r(1) by simp
      then have "tail_at start (old @ new) \<lparr>lt_offset = length old + length new, lt_carry = rest\<rparr>"
        using r(2) by (auto simp: tail_at_def)
      moreover have "lines_of (lt_carry lt @ new) = split_lines t" using Some by (simp add: lines_of_def)
      ultimately show ?thesis using lines prev rd by simp
    qed
  qed
qed

lemma read_all_lines:
  assumes "tail_at start old lt" "start \<le> length old"
    "successively prefix (old # files)"
  shows "lines_of (drop start (last (old # files))) = lines_of (drop start old) @ read_all files lt"
  using assms
proof (induction files arbitrary: old lt)
  case Nil
  then show ?case by simp
next
  case (Cons g gs)
  from Cons.prems(3) obtain new where g: "g = old @ new" by (auto simp: prefix_def)
  from read_tail_step [OF Cons.prems(1,2), of new]
  have step: "lines_of (drop start g) = lines_of (drop start old) @ fst (read_tail g lt)"
    "tail_at start g (snd (read_tail g lt))" by (simp_all add: g)
  have "lines_of (drop start (last (g # gs))) = lines_of (drop start g) @ read_all gs (snd (read_tail g lt))"
    using Cons.prems(2,3) g by (intro Cons.IH step(2)) auto
  with step(1) show ?case by (simp add: case_prod_beta Let_def)
qed

lemma tail_at_start: "length old = n \<Longrightarrow> tail_at n old (tailLines n)"
  by (simp add: tail_at_def tailLines_def)

end
