(* ===== verification/Ledger.thy ===== *)
theory Ledger
  imports Settlement Jsonl
begin

text \<open>
  The append-only chat ledger (\<open>src/chat/ledger.ts\<close>): reading a record of this, an older or a newer
  generation, appending, and the idempotent admission of a remote envelope.  Also the
  letters to owners outside the fleet that still wait for an answer (\<open>external.ts\<close>).

  A record is read from JSON.  The full message schema is a parameter, \<open>message_of\<close>; the schema of the
  core every record of this generation carries is written out.
\<close>

datatype json = JNull | JBool bool | JNum int | JStr string | JArr "json list" | JObj "(string \<times> json) list"

definition CHAT_GENERATION :: int where "CHAT_GENERATION = 2"

definition field :: "json \<Rightarrow> string \<Rightarrow> json option" where
  "field j key = (case j of JObj entries \<Rightarrow> map_of entries key | _ \<Rightarrow> None)"

definition is_string :: "json option \<Rightarrow> bool" where
  "is_string j = (case j of Some (JStr _) \<Rightarrow> True | _ \<Rightarrow> False)"

definition is_nullable_string :: "json option \<Rightarrow> bool" where
  "is_nullable_string j = (case j of Some (JStr _) \<Rightarrow> True | Some JNull \<Rightarrow> True | _ \<Rightarrow> False)"

definition is_bool :: "json option \<Rightarrow> bool" where
  "is_bool j = (case j of Some (JBool _) \<Rightarrow> True | _ \<Rightarrow> False)"

definition names_kind :: "json option \<Rightarrow> bool" where
  "names_kind j = (case j of Some (JObj entries) \<Rightarrow> is_string (map_of entries ''kind'') | _ \<Rightarrow> False)"

definition LedgerCoreSchema :: "json \<Rightarrow> bool" where
  "LedgerCoreSchema raw =
     (field raw ''v'' = Some (JNum CHAT_GENERATION) \<and> is_string (field raw ''id'') \<and> is_string (field raw ''ts'')
      \<and> names_kind (field raw ''from'') \<and> names_kind (field raw ''to'') \<and> is_string (field raw ''body'')
      \<and> is_nullable_string (field raw ''task'') \<and> is_bool (field raw ''defer'')
      \<and> is_nullable_string (field raw ''onBehalfOf'') \<and> is_nullable_string (field raw ''notBefore''))"

datatype record_error = OldGeneration "json option" | Malformed | InvalidJson string

definition parseRecord :: "(json \<Rightarrow> chat_message option) \<Rightarrow> json \<Rightarrow> record_error + ledger_slot" where
  "parseRecord message_of raw =
     (let generation = field raw ''v''
      in if generation \<noteq> Some (JNum CHAT_GENERATION)
         then (case generation of
             Some (JNum n) \<Rightarrow> if n > CHAT_GENERATION then Inr None else Inl (OldGeneration generation)
           | _ \<Rightarrow> Inl (OldGeneration generation))
         else case message_of raw of
             Some msg \<Rightarrow> Inr (Some msg)
           | None \<Rightarrow> if LedgerCoreSchema raw then Inr None else Inl Malformed)"

text \<open>Every outcome, in terms of the generation and the two schemas.\<close>

lemma parseRecord_cases:
  "parseRecord message_of raw =
     (if field raw ''v'' = Some (JNum 2)
      then (case message_of raw of Some msg \<Rightarrow> Inr (Some msg)
              | None \<Rightarrow> if LedgerCoreSchema raw then Inr None else Inl Malformed)
      else if \<exists>n>2. field raw ''v'' = Some (JNum n) then Inr None
      else Inl (OldGeneration (field raw ''v'')))"
  by (auto simp: parseRecord_def Let_def CHAT_GENERATION_def split: option.splits json.splits)

text \<open>\<open>loadLedger\<close>: every whole line keeps its position, and any line that is refused refuses the file.\<close>

fun load_records :: "(json \<Rightarrow> chat_message option) \<Rightarrow> json list \<Rightarrow> record_error + ledger_slot list" where
  "load_records message_of [] = Inr []"
| "load_records message_of (raw # rest) =
     bind_result (parseRecord message_of raw) (\<lambda>slot.
     bind_result (load_records message_of rest) (\<lambda>slots. Inr (slot # slots)))"

lemma load_records_positions:
  "load_records message_of raws = Inr slots \<Longrightarrow>
     length slots = length raws \<and> (\<forall>i<length raws. parseRecord message_of (raws ! i) = Inr (slots ! i))"
proof (induction raws arbitrary: slots)
  case (Cons raw rest)
  then show ?case by (auto simp: bind_result_Inr_iff nth_Cons' less_Suc_eq_0_disj)
qed simp

lemma load_records_append:
  "load_records message_of (xs @ ys) = bind_result (load_records message_of xs) (\<lambda>a.
     bind_result (load_records message_of ys) (\<lambda>b. Inr (a @ b)))"
proof (induction xs)
  case Nil
  show ?case by (cases "load_records message_of ys") simp_all
next
  case (Cons x xs)
  then show ?case
    by (cases "parseRecord message_of x"; cases "load_records message_of xs"; cases "load_records message_of ys")
      simp_all
qed

text \<open>When a file loads, and what stands at each position then.\<close>

lemma load_records_iff:
  "(\<forall>raw\<in>set raws. (field raw ''v'' = Some (JNum 2) \<and> (message_of raw \<noteq> None \<or> LedgerCoreSchema raw))
        \<or> (\<exists>n>2. field raw ''v'' = Some (JNum n)))
   \<longleftrightarrow> (\<exists>slots. load_records message_of raws = Inr slots \<and> length slots = length raws
        \<and> (\<forall>i<length raws. slots ! i = (if field (raws ! i) ''v'' = Some (JNum 2) then message_of (raws ! i) else None)))"
proof (induction raws)
  case (Cons raw rest)
  let ?ok = "(field raw ''v'' = Some (JNum 2) \<and> (message_of raw \<noteq> None \<or> LedgerCoreSchema raw))
        \<or> (\<exists>n>2. field raw ''v'' = Some (JNum n))"
  let ?slot = "if field raw ''v'' = Some (JNum 2) then message_of raw else None"
  have "parseRecord message_of raw = Inr slot \<longleftrightarrow> ?ok \<and> slot = ?slot" for slot
    by (auto simp: parseRecord_cases split: option.split)
  then have "(\<exists>slots. load_records message_of (raw # rest) = Inr slots \<and> length slots = length (raw # rest)
        \<and> (\<forall>i<length (raw # rest). slots ! i = (if field ((raw # rest) ! i) ''v'' = Some (JNum 2)
              then message_of ((raw # rest) ! i) else None)))
    \<longleftrightarrow> ?ok \<and> (\<exists>slots. load_records message_of rest = Inr slots \<and> length slots = length rest
        \<and> (\<forall>i<length rest. slots ! i = (if field (rest ! i) ''v'' = Some (JNum 2) then message_of (rest ! i) else None)))"
    by (auto simp: bind_result_Inr_iff All_less_Suc2)
  with Cons.IH show ?case by simp
qed simp

definition unreadableCount :: "ledger_slot list \<Rightarrow> nat" where
  "unreadableCount slots = foldl (\<lambda>n slot. if slot = None then n + 1 else n) 0 slots"

lemma unreadableCount_length: "unreadableCount slots = length (filter (\<lambda>s. s = None) slots)"
proof -
  have "foldl (\<lambda>n slot. if slot = None then n + 1 else n) k slots = k + length (filter (\<lambda>s. s = None) slots)" for k
    by (induction slots arbitrary: k) auto
  then show ?thesis by (simp add: unreadableCount_def)
qed

subsection \<open>Idempotent admission\<close>

text \<open>
  The two comparisons of the code are of the stable JSON of the message without its turn options, and
  of the turn options; equality of the values is what stable JSON decides.  \<open>select\<close> is the native
  selection recorded when the message is first appended.
\<close>

datatype admit_error = IdempotencyConflict | SelectionUnavailable

definition without_options :: "chat_message \<Rightarrow> chat_message" where
  "without_options msg = msg\<lparr>m_turnOptions := None\<rparr>"

definition appendMessage ::
  "(chat_message \<Rightarrow> admit_error + string option) \<Rightarrow> chat_message \<Rightarrow> ledger_slot list \<Rightarrow> admit_error + ledger_slot list" where
  "appendMessage select msg ledger =
     bind_result (if m_turnOptions msg = None then select msg else Inr (m_turnOptions msg)) (\<lambda>options.
       Inr (ledger @ [Some (msg\<lparr>m_turnOptions := options\<rparr>)]))"

definition prior_of :: "ledger_slot list \<Rightarrow> string \<Rightarrow> chat_message option" where
  "prior_of ledger i = Option.bind (List.find (\<lambda>slot. map_option m_id slot = Some i) ledger) id"

definition admitOnce ::
  "(chat_message \<Rightarrow> admit_error + string option) \<Rightarrow> chat_message \<Rightarrow> ledger_slot list
     \<Rightarrow> admit_error + (bool \<times> ledger_slot list)" where
  "admitOnce select msg ledger =
     (case prior_of ledger (m_id msg) of
        Some prior \<Rightarrow>
          (if without_options prior \<noteq> without_options msg
              \<or> m_turnOptions msg \<noteq> None \<and> m_turnOptions prior \<noteq> m_turnOptions msg
           then Inl IdempotencyConflict else Inr (False, ledger))
      | None \<Rightarrow> bind_result (appendMessage select msg ledger) (\<lambda>ledger'. Inr (True, ledger')))"

definition ledger_ids :: "ledger_slot list \<Rightarrow> string list" where
  "ledger_ids ledger = List.map_filter (map_option m_id) ledger"

lemma prior_of_simps [simp]:
  "prior_of [] i = None"
  "prior_of (None # rest) i = prior_of rest i"
  "prior_of (Some msg # rest) i = (if m_id msg = i then Some msg else prior_of rest i)"
  by (simp_all add: prior_of_def)

lemma prior_of_append:
  "prior_of (ledger @ ext) i = (case prior_of ledger i of None \<Rightarrow> prior_of ext i | Some msg \<Rightarrow> Some msg)"
proof (induction ledger)
  case (Cons slot rest)
  then show ?case by (cases slot) simp_all
qed simp

lemma ledger_ids_simps [simp]:
  "ledger_ids [] = []" "ledger_ids (None # rest) = ledger_ids rest"
  "ledger_ids (Some msg # rest) = m_id msg # ledger_ids rest"
  by (simp_all add: ledger_ids_def map_filter_simps)

lemma prior_of_None: "prior_of ledger i = None \<longleftrightarrow> i \<notin> set (ledger_ids ledger)"
proof (induction ledger)
  case (Cons slot rest)
  then show ?case by (cases slot) auto
qed simp

lemma prior_of_SomeD: "prior_of ledger i = Some msg \<Longrightarrow> Some msg \<in> set ledger \<and> m_id msg = i"
proof (induction ledger)
  case (Cons slot rest)
  then show ?case by (cases slot) (auto split: if_splits)
qed simp

lemma appendMessage_id:
  "appendMessage select msg ledger = Inr ledger' \<Longrightarrow>
     \<exists>options. ledger' = ledger @ [Some (msg\<lparr>m_turnOptions := options\<rparr>)]
       \<and> (m_turnOptions msg \<noteq> None \<longrightarrow> options = m_turnOptions msg)"
  by (auto simp: appendMessage_def bind_result_Inr_iff split: if_splits)

text \<open>A second admission of the same message changes nothing, whatever happened in between.\<close>

lemma admitOnce_again:
  assumes "admitOnce select msg ledger = Inr (b, ledger')"
  shows "admitOnce select' msg (ledger' @ ext) = Inr (False, ledger' @ ext)"
proof (cases "prior_of ledger (m_id msg)")
  case None
  with assms obtain options where l: "ledger' = ledger @ [Some (msg\<lparr>m_turnOptions := options\<rparr>)]"
    "m_turnOptions msg \<noteq> None \<longrightarrow> options = m_turnOptions msg"
    by (auto simp: admitOnce_def bind_result_Inr_iff dest!: appendMessage_id)
  then have "prior_of (ledger' @ ext) (m_id msg) = Some (msg\<lparr>m_turnOptions := options\<rparr>)"
    using None by (simp add: prior_of_append)
  with l(2) show ?thesis by (auto simp: admitOnce_def without_options_def)
next
  case (Some prior)
  then have "prior_of (ledger @ ext) (m_id msg) = Some prior"
    by (simp add: prior_of_append)
  moreover have "ledger' = ledger" using assms Some by (auto simp: admitOnce_def split: if_splits)
  ultimately show ?thesis using assms Some by (auto simp: admitOnce_def split: if_splits)
qed

lemma ledger_ids_append: "ledger_ids (xs @ ys) = ledger_ids xs @ ledger_ids ys"
proof (induction xs)
  case (Cons slot rest)
  then show ?case by (cases slot) simp_all
qed simp

lemma admitOnce_ids:
  assumes "admitOnce select msg ledger = Inr (b, ledger')" "distinct (ledger_ids ledger)"
  shows "distinct (ledger_ids ledger') \<and> prefix ledger ledger' \<and> m_id msg \<in> set (ledger_ids ledger')"
proof (cases "prior_of ledger (m_id msg)")
  case None
  with assms show ?thesis
    by (auto simp: admitOnce_def bind_result_Inr_iff prior_of_None ledger_ids_append dest!: appendMessage_id)
next
  case (Some prior)
  then have "m_id msg \<in> set (ledger_ids ledger)" using prior_of_None [of ledger "m_id msg"] by simp
  with assms Some show ?thesis by (auto simp: admitOnce_def split: if_splits)
qed

text \<open>A different request under an accepted id is refused, and the ledger keeps the first one.\<close>

lemma admitOnce_conflict:
  assumes "admitOnce select msg ledger = Inr (b, ledger')" "m_id other = m_id msg"
    "without_options other \<noteq> without_options msg"
  shows "admitOnce select' other (ledger' @ ext) = Inl IdempotencyConflict"
proof -
  from admitOnce_again [OF assms(1), of select' ext] obtain prior
    where p: "prior_of (ledger' @ ext) (m_id msg) = Some prior" "without_options prior = without_options msg"
    by (auto simp: admitOnce_def bind_result_Inr_iff split: option.splits if_splits)
  with assms(2,3) show ?thesis by (simp add: admitOnce_def)
qed

subsection \<open>Letters outside the fleet\<close>

definition EXTERNAL_PREFIX :: string where "EXTERNAL_PREFIX = ''owner/''"

definition isExternalToken :: "string \<Rightarrow> bool" where
  "isExternalToken t = (prefix EXTERNAL_PREFIX t \<and> length t > length EXTERNAL_PREFIX)"

definition externalNameOf :: "string \<Rightarrow> string" where
  "externalNameOf t = drop (length EXTERNAL_PREFIX) t"

type_synonym owner_key = "string \<times> string"

text \<open>Which letter an answer closes: the owner's name and the task.\<close>

definition answer_key :: "ledger_slot \<Rightarrow> owner_key option" where
  "answer_key slot = (case slot of None \<Rightarrow> None
     | Some msg \<Rightarrow> (case m_onBehalfOf msg of None \<Rightarrow> None
         | Some t \<Rightarrow> if isExternalToken t then Some (externalNameOf t, nullish (m_task msg) '''') else None))"

definition letter_key :: "ledger_slot \<Rightarrow> owner_key option" where
  "letter_key slot = (case slot of None \<Rightarrow> None
     | Some msg \<Rightarrow> (case m_to msg of ToExternal name \<Rightarrow> Some (name, nullish (m_task msg) '''') | _ \<Rightarrow> None))"

definition count_answers :: "ledger_slot list \<Rightarrow> owner_key \<Rightarrow> nat" where
  "count_answers ledger = foldl (\<lambda>counts slot. case answer_key slot of None \<Rightarrow> counts
      | Some k \<Rightarrow> counts(k := counts k + 1)) (\<lambda>_. 0) ledger"

fun outstanding_loop ::
  "principal option \<Rightarrow> (owner_key \<Rightarrow> nat) \<Rightarrow> ledger_slot list \<Rightarrow> (chat_message \<times> string) list" where
  "outstanding_loop sender answers [] = []"
| "outstanding_loop sender answers (slot # rest) =
     (case (slot, letter_key slot) of
        (Some msg, Some k) \<Rightarrow>
          (if answers k > 0 then outstanding_loop sender (answers(k := answers k - 1)) rest
           else if (case sender of None \<Rightarrow> False | Some p \<Rightarrow> \<not> samePrincipal (m_from msg) p)
           then outstanding_loop sender answers rest
           else (msg, fst k) # outstanding_loop sender answers rest)
      | _ \<Rightarrow> outstanding_loop sender answers rest)"

definition outstandingExternal :: "ledger_slot list \<Rightarrow> principal option \<Rightarrow> (chat_message \<times> string) list" where
  "outstandingExternal ledger sender = outstanding_loop sender (count_answers ledger) ledger"

lemma count_answers_length: "count_answers ledger k = length (filter (\<lambda>s. answer_key s = Some k) ledger)"
proof -
  have "foldl (\<lambda>counts slot. case answer_key slot of None \<Rightarrow> counts | Some k \<Rightarrow> counts(k := counts k + 1)) c ledger k
      = c k + length (filter (\<lambda>s. answer_key s = Some k) ledger)" for c
    by (induction ledger arbitrary: c) (auto split: option.splits)
  then show ?thesis by (simp add: count_answers_def)
qed

text \<open>Of the letters under one key, the first ones are answered, as many as there are answers.\<close>

lemma outstanding_loop_drop:
  "map fst (filter (\<lambda>x. letter_key (Some (fst x)) = Some k) (outstanding_loop None answers ledger))
     = drop (answers k) (List.map_filter (\<lambda>s. if letter_key s = Some k then s else None) ledger)"
proof (induction ledger arbitrary: answers)
  case Nil
  then show ?case by (simp add: map_filter_simps)
next
  case (Cons slot rest)
  show ?case
  proof (cases "letter_key slot")
    case None
    then show ?thesis using Cons [of answers] by (cases slot) (simp_all add: map_filter_simps)
  next
    case (Some key)
    then obtain msg where msg: "slot = Some msg" by (cases slot) (auto simp: letter_key_def)
    show ?thesis
    proof (cases "answers key")
      case (Suc n)
      then show ?thesis
        using Some msg Cons [of "answers(key := n)"]
        by (cases "key = k") (auto simp: map_filter_simps fun_upd_def)
    next
      case 0
      then show ?thesis
        using Some msg Cons [of answers] by (cases "key = k") (auto simp: map_filter_simps)
    qed
  qed
qed

end
