(* ===== verification/Pickup.thy ===== *)
theory Pickup
  imports RuntimeInput Ledger
begin

text \<open>
  The owner's half of native delivery (\<open>src/agent/claude/native/pickup.ts\<close>, \<open>promptQueue.ts\<close>): taking a
  queued turn off the input slot and handing it to the runtime, with a dispatch that a crash cut short
  settled by the runtime's own transcript.

  The state holds the slot, the memory of the process, the prompt queue, the transcript, and, for the
  statement of what is guaranteed, the turns the runtime has taken up (\<open>ow_turns\<close>).
\<close>

subsection \<open>The prompt queue\<close>

record 'a prompt_queue =
  pq_waiting :: nat
  pq_pending :: "'a list"
  pq_closed :: bool
  pq_handed :: "'a list"

definition push_prompt :: "'a \<Rightarrow> 'a prompt_queue \<Rightarrow> 'a prompt_queue" where
  "push_prompt x q = (if pq_waiting q > 0
     then q\<lparr>pq_waiting := pq_waiting q - 1, pq_handed := pq_handed q @ [x]\<rparr>
     else q\<lparr>pq_pending := pq_pending q @ [x]\<rparr>)"

definition close_queue :: "'a prompt_queue \<Rightarrow> 'a prompt_queue" where
  "close_queue q = q\<lparr>pq_closed := True, pq_waiting := 0\<rparr>"

text \<open>\<open>next()\<close>: the head of the queue, the end of it, or a promise that waits.\<close>

definition next_prompt :: "'a prompt_queue \<Rightarrow> 'a prompt_queue" where
  "next_prompt q = (case pq_pending q of
      x # rest \<Rightarrow> q\<lparr>pq_pending := rest, pq_handed := pq_handed q @ [x]\<rparr>
    | [] \<Rightarrow> if pq_closed q then q else q\<lparr>pq_waiting := pq_waiting q + 1\<rparr>)"

datatype 'a queue_op = PushPrompt 'a | NextPrompt | CloseQueue

fun queue_step :: "'a queue_op \<Rightarrow> 'a list \<times> 'a prompt_queue \<Rightarrow> 'a list \<times> 'a prompt_queue" where
  "queue_step (PushPrompt x) (pushed, q) = (pushed @ [x], push_prompt x q)"
| "queue_step NextPrompt (pushed, q) = (pushed, next_prompt q)"
| "queue_step CloseQueue (pushed, q) = (pushed, close_queue q)"

definition new_queue :: "'a prompt_queue" where
  "new_queue = \<lparr>pq_waiting = 0, pq_pending = [], pq_closed = False, pq_handed = []\<rparr>"

text \<open>Nothing is lost, doubled or reordered, and nobody waits while a prompt is pending.\<close>

definition queue_inv :: "'a list \<times> 'a prompt_queue \<Rightarrow> bool" where
  "queue_inv s = (fst s = pq_handed (snd s) @ pq_pending (snd s)
     \<and> (pq_waiting (snd s) = 0 \<or> pq_pending (snd s) = []))"

interpretation prompt_machine: state_machine queue_step queue_inv
proof
  fix s :: "'a list \<times> 'a prompt_queue" and e
  assume "queue_inv s"
  then show "queue_inv (queue_step e s)"
    by (cases s; cases e)
      (auto simp: queue_inv_def push_prompt_def next_prompt_def close_queue_def split: list.splits)
qed

subsection \<open>Reading the transcript\<close>

definition json_text :: "json option \<Rightarrow> string option" where
  "json_text j = (case j of Some (JStr s) \<Rightarrow> Some s | _ \<Rightarrow> None)"

definition textsOf :: "json \<Rightarrow> string list" where
  "textsOf entry =
     (if json_text (field entry ''type'') \<noteq> Some ''user'' then []
      else case Option.bind (field entry ''message'') (\<lambda>m. field m ''content'') of
          Some (JStr s) \<Rightarrow> [s]
        | Some (JArr items) \<Rightarrow> List.map_filter (\<lambda>item.
            if json_text (field item ''type'') = Some ''text'' then json_text (field item ''text'') else None) items
        | _ \<Rightarrow> [])"

text \<open>A line that is blank or not JSON is \<open>None\<close>; an absent transcript is \<open>None\<close> as a whole.\<close>

definition nativeInputDelivered :: "json option list option \<Rightarrow> string \<Rightarrow> string \<Rightarrow> bool" where
  "nativeInputDelivered transcript txt dispatchedAt = (case transcript of
      None \<Rightarrow> False
    | Some lines \<Rightarrow> (\<exists>line\<in>set lines. case line of
          None \<Rightarrow> False
        | Some entry \<Rightarrow> (case json_text (field entry ''timestamp'') of
            None \<Rightarrow> False
          | Some at \<Rightarrow> \<not> text_before at dispatchedAt \<and> txt \<in> set (textsOf entry))))"

lemma delivered_mono:
  "nativeInputDelivered (Some lines) t d \<Longrightarrow> nativeInputDelivered (Some (lines @ ext)) t d"
  by (auto simp: nativeInputDelivered_def)

subsection \<open>Taking a turn\<close>

record owner_world =
  ow_input :: "runtime_input option"
  ow_dispatched :: "string option"
  ow_running :: bool
  ow_queue :: "(string \<times> string) list"
  ow_transcript :: "json option list"
  ow_turns :: "string list"

datatype pickup_effect = PkRemember string | PkStart | PkWrite runtime_input | PkPush string string

fun pickup_apply :: "pickup_effect \<Rightarrow> owner_world \<Rightarrow> owner_world" where
  "pickup_apply (PkRemember i) w = w\<lparr>ow_dispatched := Some i\<rparr>"
| "pickup_apply PkStart w = w\<lparr>ow_running := True\<rparr>"
| "pickup_apply (PkWrite i) w = w\<lparr>ow_input := Some i\<rparr>"
| "pickup_apply (PkPush i t) w = w\<lparr>ow_queue := ow_queue w @ [(i, t)]\<rparr>"

text \<open>\<open>mtime\<close> is when the slot's file was written, for records older than \<open>dispatchedAt\<close>.\<close>

definition reconcile :: "string \<Rightarrow> owner_world \<Rightarrow> runtime_input \<Rightarrow> pickup_effect list" where
  "reconcile mtime w input =
     (if Some (ri_nativeId input) = ow_dispatched w then []
      else if nativeInputDelivered (Some (ow_transcript w)) (ri_text input) (nullish (ri_dispatchedAt input) mtime)
      then [PkRemember (ri_nativeId input), PkWrite (input\<lparr>ri_phase := PhAccepted\<rparr>)]
      else [PkWrite (input\<lparr>ri_phase := PhQueued\<rparr>)])"

definition dispatch :: "string \<Rightarrow> owner_world \<Rightarrow> runtime_input \<Rightarrow> pickup_effect list" where
  "dispatch startedAt w input =
     (if ri_phase input = PhQueued \<and> Some (ri_nativeId input) \<noteq> ow_dispatched w \<and> \<not> ow_running w
      then [PkRemember (ri_nativeId input), PkStart,
            PkWrite (input\<lparr>ri_phase := PhDispatching, ri_dispatchedAt := Some startedAt\<rparr>),
            PkPush (ri_nativeId input) (ri_text input),
            PkWrite (input\<lparr>ri_phase := PhAccepted\<rparr>)]
      else [])"

definition reconcile_phase :: "string \<Rightarrow> owner_world \<Rightarrow> pickup_effect list" where
  "reconcile_phase mtime w = (case ow_input w of None \<Rightarrow> []
     | Some pending \<Rightarrow> if ri_phase pending = PhDispatching then reconcile mtime w pending else [])"

definition dispatch_phase :: "string \<Rightarrow> owner_world \<Rightarrow> pickup_effect list" where
  "dispatch_phase startedAt w = (case ow_input w of None \<Rightarrow> [] | Some input \<Rightarrow> dispatch startedAt w input)"

definition pickup_run :: "string \<Rightarrow> string \<Rightarrow> owner_world \<Rightarrow> owner_world" where
  "pickup_run mtime startedAt w =
     (let w1 = fold pickup_apply (reconcile_phase mtime w) w
      in fold pickup_apply (dispatch_phase startedAt w1) w1)"

text \<open>
  The life of a session.  The owner may stop after any effect of either phase, by an error or by
  dying; dying empties its memory and the prompt queue.  The runtime takes prompts off the queue in
  order and writes what it took to its transcript, stamped no earlier than the dispatch.
\<close>

definition user_entry :: "string \<Rightarrow> string \<Rightarrow> json" where
  "user_entry at txt = JObj [(''type'', JStr ''user''), (''timestamp'', JStr at),
     (''message'', JObj [(''content'', JStr txt)])]"

inductive owner_step :: "owner_world \<Rightarrow> owner_world \<Rightarrow> bool" where
  reconciled: "owner_step w (fold pickup_apply (take k (reconcile_phase mtime w)) w)"
| dispatched: "owner_step w (fold pickup_apply (take k (dispatch_phase startedAt w)) w)"
| crash: "owner_step w (w\<lparr>ow_dispatched := None, ow_running := False, ow_queue := []\<rparr>)"
| taken: "ow_queue w = (i, t) # rest \<Longrightarrow>
    (\<And>input d. ow_input w = Some input \<Longrightarrow> ri_nativeId input = i \<Longrightarrow> ri_dispatchedAt input = Some d \<Longrightarrow> \<not> text_before at d) \<Longrightarrow>
    owner_step w (w\<lparr>ow_queue := rest, ow_transcript := ow_transcript w @ [Some (user_entry at t)],
      ow_turns := ow_turns w @ [i]\<rparr>)"
| ended: "owner_step w (w\<lparr>ow_running := False\<rparr>)"
| transcript: "owner_step w (w\<lparr>ow_transcript := ow_transcript w @ lines\<rparr>)"
| queued: "ri_phase i = PhQueued \<Longrightarrow> ri_nativeId i \<notin> set (ow_turns w) \<union> fst ` set (ow_queue w) \<Longrightarrow>
    (case ow_input w of None \<Rightarrow> True | Some prev \<Rightarrow> ri_phase prev = PhAccepted) \<Longrightarrow>
    owner_step w (w\<lparr>ow_input := Some i\<rparr>)"

inductive_cases owner_stepE: "owner_step w w'"

subsection \<open>The invariant\<close>

definition slot_ok :: "owner_world \<Rightarrow> runtime_input \<Rightarrow> bool" where
  "slot_ok w i =
     ((ri_phase i = PhQueued \<longrightarrow> ri_nativeId i \<notin> set (ow_turns w) \<union> fst ` set (ow_queue w))
      \<and> (ri_phase i = PhDispatching \<longrightarrow> (\<exists>d. ri_dispatchedAt i = Some d
           \<and> (ri_nativeId i \<in> set (ow_turns w) \<longrightarrow> nativeInputDelivered (Some (ow_transcript w)) (ri_text i) d))
           \<and> (ow_dispatched w \<noteq> Some (ri_nativeId i) \<longrightarrow> ri_nativeId i \<notin> fst ` set (ow_queue w)))
      \<and> (\<forall>t. (ri_nativeId i, t) \<in> set (ow_queue w) \<longrightarrow> t = ri_text i))"

definition owner_inv :: "owner_world \<Rightarrow> bool" where
  "owner_inv w = (distinct (ow_turns w @ map fst (ow_queue w)) \<and> (\<forall>i. ow_input w = Some i \<longrightarrow> slot_ok w i))"

lemma slot_queued: "slot_ok w i \<Longrightarrow> ri_phase i = PhQueued \<Longrightarrow> ri_nativeId i \<notin> set (ow_turns w) \<union> fst ` set (ow_queue w)"
  by (simp add: slot_ok_def)

lemma reconcile_inv:
  assumes inv: "owner_inv w" and i: "ow_input w = Some i" "ri_phase i = PhDispatching"
  shows "owner_inv (fold pickup_apply (take k (reconcile mtime w i)) w)"
proof -
  have ok: "slot_ok w i" and dis: "distinct (ow_turns w @ map fst (ow_queue w))"
    using inv i by (simp_all add: owner_inv_def)
  show ?thesis
  proof (cases "Some (ri_nativeId i) = ow_dispatched w")
    case True
    with inv show ?thesis by (simp add: reconcile_def)
  next
    case False
    then have free: "ri_nativeId i \<notin> fst ` set (ow_queue w)" using ok i by (simp add: slot_ok_def)
    obtain d where d: "ri_dispatchedAt i = Some d"
      "ri_nativeId i \<in> set (ow_turns w) \<longrightarrow> nativeInputDelivered (Some (ow_transcript w)) (ri_text i) d"
      using ok i by (auto simp: slot_ok_def)
    show ?thesis
    proof (cases "nativeInputDelivered (Some (ow_transcript w)) (ri_text i) d")
      case True
      have "owner_inv (w\<lparr>ow_dispatched := Some (ri_nativeId i)\<rparr>)"
        using dis ok i by (auto simp: owner_inv_def slot_ok_def)
      moreover have "owner_inv (w\<lparr>ow_dispatched := Some (ri_nativeId i), ow_input := Some (i\<lparr>ri_phase := PhAccepted\<rparr>)\<rparr>)"
        using dis ok by (auto simp: owner_inv_def slot_ok_def)
      ultimately show ?thesis
        using False True d(1) inv by (cases k; cases "k - 1") (auto simp: reconcile_def)
    next
      case undelivered: False
      have "owner_inv (w\<lparr>ow_input := Some (i\<lparr>ri_phase := PhQueued\<rparr>)\<rparr>)"
        using dis free d undelivered ok by (auto simp: owner_inv_def slot_ok_def)
      then show ?thesis
        using False undelivered d(1) inv by (cases k) (auto simp: reconcile_def)
    qed
  qed
qed

lemma dispatch_inv:
  assumes inv: "owner_inv w" and i: "ow_input w = Some i"
  shows "owner_inv (fold pickup_apply (take k (dispatch startedAt w i)) w)"
proof (cases "ri_phase i = PhQueued \<and> Some (ri_nativeId i) \<noteq> ow_dispatched w \<and> \<not> ow_running w")
  case False
  then have "dispatch startedAt w i = []" by (simp only: dispatch_def if_False)
  with inv show ?thesis by simp
next
  case True
  have ok: "slot_ok w i" and dis: "distinct (ow_turns w @ map fst (ow_queue w))"
    using inv i by (simp_all add: owner_inv_def)
  have free: "ri_nativeId i \<notin> set (ow_turns w)" "ri_nativeId i \<notin> fst ` set (ow_queue w)"
    using slot_queued [OF ok] True by auto
  then have noq: "(ri_nativeId i, t) \<notin> set (ow_queue w)" for t by force
  let ?d = "i\<lparr>ri_phase := PhDispatching, ri_dispatchedAt := Some startedAt\<rparr>"
  let ?w1 = "w\<lparr>ow_dispatched := Some (ri_nativeId i)\<rparr>"
  let ?w2 = "?w1\<lparr>ow_running := True\<rparr>"
  let ?w3 = "?w2\<lparr>ow_input := Some ?d\<rparr>"
  let ?w4 = "?w3\<lparr>ow_queue := ow_queue w @ [(ri_nativeId i, ri_text i)]\<rparr>"
  let ?w5 = "?w4\<lparr>ow_input := Some (i\<lparr>ri_phase := PhAccepted\<rparr>)\<rparr>"
  have "owner_inv ?w1" "owner_inv ?w2" "owner_inv ?w3" "owner_inv ?w4" "owner_inv ?w5"
    using dis ok i free noq True by (auto simp: owner_inv_def slot_ok_def)
  moreover have "take k (dispatch startedAt w i) \<in> set (prefixes (dispatch startedAt w i))" by (simp add: take_is_prefix)
  ultimately show ?thesis
    using True inv by (auto simp: dispatch_def simp del: in_set_prefixes)
qed

lemma owner_step_inv:
  assumes st: "owner_step w w'" and inv: "owner_inv w"
  shows "owner_inv w'"
  using st
proof (cases rule: owner_step.cases)
  case (reconciled k mtime)
  then show ?thesis
    using inv reconcile_inv [OF inv] by (cases "ow_input w") (auto simp: reconcile_phase_def)
next
  case (dispatched k startedAt)
  then show ?thesis
    using inv dispatch_inv [OF inv] by (cases "ow_input w") (auto simp: dispatch_phase_def)
next
  case crash
  then show ?thesis using inv by (auto simp: owner_inv_def slot_ok_def)
next
  case (taken i t rest at)
  have dis: "distinct (ow_turns w @ i # map fst rest)" using inv taken by (auto simp: owner_inv_def)
  have "slot_ok w' x" if x: "ow_input w' = Some x" for x
  proof -
    have old: "slot_ok w x" using inv x taken by (simp add: owner_inv_def)
    have "nativeInputDelivered (Some (ow_transcript w @ [Some (user_entry at t)])) (ri_text x) d"
      if "ri_nativeId x = i" "ri_dispatchedAt x = Some d" for d
    proof -
      have "t = ri_text x" using old taken(2) that(1) by (auto simp: slot_ok_def)
      moreover have "\<not> text_before at d" using taken(3) x that taken(1) by simp
      ultimately show ?thesis
        by (simp add: nativeInputDelivered_def user_entry_def field_def json_text_def textsOf_def)
    qed
    with old taken(1,2) delivered_mono show ?thesis by (fastforce simp: slot_ok_def)
  qed
  with dis taken(1) show ?thesis by (auto simp: owner_inv_def)
next
  case ended
  then show ?thesis using inv by (auto simp: owner_inv_def slot_ok_def)
next
  case (transcript lines)
  then show ?thesis using inv delivered_mono by (fastforce simp: owner_inv_def slot_ok_def)
next
  case (queued i)
  then have "slot_ok w' i" by (force simp: slot_ok_def)
  with queued inv show ?thesis by (simp add: owner_inv_def)
qed

inductive owner_reach :: "owner_world \<Rightarrow> bool" where
  start: "owner_reach \<lparr>ow_input = None, ow_dispatched = None, ow_running = False, ow_queue = [],
    ow_transcript = lines, ow_turns = []\<rparr>"
| step: "owner_reach w \<Longrightarrow> owner_step w w' \<Longrightarrow> owner_reach w'"

lemma owner_reach_inv: "owner_reach w \<Longrightarrow> owner_inv w"
proof (induction rule: owner_reach.induct)
  case (start lines)
  show ?case by (simp add: owner_inv_def)
next
  case (step w w')
  then show ?case by (blast intro: owner_step_inv)
qed

text \<open>
  A queued turn the idle owner has not seen is handed over by one pass, and a dispatch that a crash cut
  short before the runtime took it is handed over by the next pass after the restart.
\<close>

lemma pickup_run_hands_over:
  assumes "ow_input w = Some i" "ri_phase i = PhQueued" "ow_dispatched w \<noteq> Some (ri_nativeId i)" "\<not> ow_running w"
  shows "ow_queue (pickup_run mtime startedAt w) = ow_queue w @ [(ri_nativeId i, ri_text i)]
    \<and> ow_input (pickup_run mtime startedAt w) = Some (i\<lparr>ri_phase := PhAccepted\<rparr>)"
  using assms by (simp add: pickup_run_def reconcile_phase_def dispatch_phase_def dispatch_def)

lemma pickup_run_after_crash:
  assumes "ow_input w = Some i" "ri_phase i = PhDispatching" "ri_dispatchedAt i = Some d"
    "ow_dispatched w \<noteq> Some (ri_nativeId i)" "\<not> ow_running w"
  shows "(if nativeInputDelivered (Some (ow_transcript w)) (ri_text i) d
      then ow_queue (pickup_run mtime startedAt w) = ow_queue w
      else ow_queue (pickup_run mtime startedAt w) = ow_queue w @ [(ri_nativeId i, ri_text i)])
    \<and> (\<exists>i'. ow_input (pickup_run mtime startedAt w) = Some i' \<and> ri_phase i' = PhAccepted)"
  using assms by (auto simp: pickup_run_def reconcile_phase_def reconcile_def dispatch_phase_def dispatch_def)

text \<open>
  The record says accepted as soon as the turn is in the prompt queue.  A process that dies before the
  runtime takes it leaves an accepted record of a turn that no transcript holds.
\<close>

definition sample_input :: runtime_input where
  "sample_input = \<lparr>ri_messageId = ''m'', ri_nativeId = ''n'', ri_text = ''t'', ri_phase = PhQueued, ri_turnId = None,
     ri_dispatchedAt = None, ri_kind = KindLetter, ri_images = None, ri_turnOptions = None,
     ri_continuations = [], ri_terminal = None\<rparr>"

lemma accepted_lost:
  "\<exists>w i. owner_reach w \<and> ow_input w = Some i \<and> ri_phase i = PhAccepted \<and> ow_queue w = []
     \<and> ow_transcript w = [] \<and> ow_turns w = []"
proof -
  let ?s0 = "\<lparr>ow_input = None, ow_dispatched = None, ow_running = False, ow_queue = [], ow_transcript = [], ow_turns = []\<rparr>"
  let ?s1 = "?s0\<lparr>ow_input := Some sample_input\<rparr>"
  have r1: "owner_reach ?s1"
    by (rule owner_reach.step [OF owner_reach.start owner_step.queued]) (simp_all add: sample_input_def)
  let ?s2 = "fold pickup_apply (take 5 (dispatch_phase ''now'' ?s1)) ?s1"
  have r2: "owner_reach ?s2" by (rule owner_reach.step [OF r1 owner_step.dispatched])
  let ?s3 = "?s2\<lparr>ow_dispatched := None, ow_running := False, ow_queue := []\<rparr>"
  have "owner_reach ?s3" by (rule owner_reach.step [OF r2 owner_step.crash])
  moreover have "ow_input ?s3 = Some (sample_input\<lparr>ri_phase := PhAccepted\<rparr>) \<and> ow_queue ?s3 = []
      \<and> ow_transcript ?s3 = [] \<and> ow_turns ?s3 = []"
    by (simp add: dispatch_phase_def dispatch_def sample_input_def)
  ultimately show ?thesis by (intro exI [of _ ?s3] exI [of _ "sample_input\<lparr>ri_phase := PhAccepted\<rparr>"]) simp
qed

end
