(* ===== verification/NativeTurn.thy ===== *)
theory NativeTurn
  imports Mailbox
begin

text \<open>
  The turn of a native session as a fold over the runtime's classified messages
  (\<open>src/agent/claude/native/turn.ts\<close>).  A turn is never reported idle while a request to the operator is
  unanswered, and a terminal status, once reached, is not overwritten by the messages that follow.
\<close>

datatype live = LvWorking | LvIdle | LvWaitingApproval | LvWaitingInput

record native_turn_state =
  tn_status :: "turn_status option"
  tn_state :: live
  tn_outstanding :: nat
  tn_unhandled :: "string list"

definition initialTurn :: native_turn_state where
  "initialTurn = \<lparr>tn_status = None, tn_state = LvIdle, tn_outstanding = 0, tn_unhandled = []\<rparr>"

datatype classification = Unhandled string | Skip | Terminal | OtherMessage
datatype ask_kind = AskApproval | AskInput

datatype turn_event = Message classification "ask_kind option" bool | Answered | InterruptedTurn | FailedTurn string

definition isRunning :: "turn_status option \<Rightarrow> bool" where
  "isRunning status = (status = None \<or> status = Some TsInProgress)"

fun advanceTurn :: "native_turn_state \<Rightarrow> turn_event \<Rightarrow> native_turn_state" where
  "advanceTurn current (FailedTurn e) = current\<lparr>tn_status := Some TsFailed, tn_state := LvIdle, tn_outstanding := 0\<rparr>"
| "advanceTurn current InterruptedTurn =
     current\<lparr>tn_status := Some TsInterrupted, tn_state := LvIdle, tn_outstanding := 0\<rparr>"
| "advanceTurn current Answered =
     (let outstanding = tn_outstanding current - 1
      in current\<lparr>tn_outstanding := outstanding,
           tn_state := (if outstanding > 0 then tn_state current
             else if isRunning (tn_status current) then LvWorking else LvIdle)\<rparr>)"
| "advanceTurn current (Message message kind failed) =
     (case message of
        Unhandled t \<Rightarrow> current\<lparr>tn_unhandled := (if t \<in> set (tn_unhandled current) then tn_unhandled current
            else tn_unhandled current @ [t])\<rparr>
      | Skip \<Rightarrow> current
      | _ \<Rightarrow> (case kind of
            Some k \<Rightarrow> current\<lparr>tn_outstanding := tn_outstanding current + 1,
              tn_state := (if k = AskApproval then LvWaitingApproval else LvWaitingInput)\<rparr>
          | None \<Rightarrow>
              (if message = Terminal
               then current\<lparr>tn_status := (if isRunning (tn_status current)
                      then Some (if failed then TsFailed else TsCompleted) else tn_status current),
                    tn_state := (if tn_outstanding current > 0 then tn_state current else LvIdle)\<rparr>
               else current\<lparr>tn_status := (if isRunning (tn_status current) then Some TsInProgress else tn_status current),
                    tn_state := (if tn_outstanding current > 0 then tn_state current else LvWorking)\<rparr>)))"

definition waiting_state :: "live \<Rightarrow> bool" where
  "waiting_state l = (l = LvWaitingApproval \<or> l = LvWaitingInput)"

text \<open>A request is outstanding exactly when the session says it waits; unhandled members are listed once.\<close>

definition turn_inv :: "native_turn_state \<Rightarrow> bool" where
  "turn_inv t = ((tn_outstanding t > 0) = waiting_state (tn_state t) \<and> distinct (tn_unhandled t))"

lemma advanceTurn_inv: "turn_inv t \<Longrightarrow> turn_inv (advanceTurn t e)"
  by (cases e) (auto simp: turn_inv_def waiting_state_def Let_def split: classification.splits option.splits if_splits)

interpretation turn_machine: state_machine "\<lambda>e t. advanceTurn t e" turn_inv
  by unfold_locales (rule advanceTurn_inv)

lemma initialTurn_inv: "turn_inv initialTurn"
  by (simp add: turn_inv_def initialTurn_def waiting_state_def)

text \<open>The events by which a message stream moves a turn, as opposed to the operator or a failure.\<close>

definition streamed :: "turn_event \<Rightarrow> bool" where
  "streamed e = (case e of Message _ _ _ \<Rightarrow> True | Answered \<Rightarrow> True | _ \<Rightarrow> False)"

lemma terminal_kept:
  "\<forall>e\<in>set es. streamed e \<Longrightarrow> \<not> isRunning (tn_status t) \<Longrightarrow>
     tn_status (fold (\<lambda>e t. advanceTurn t e) es t) = tn_status t"
proof (induction es arbitrary: t)
  case (Cons e es)
  have "tn_status (advanceTurn t e) = tn_status t"
    using Cons.prems by (cases e)
      (auto simp: streamed_def Let_def split: classification.splits option.splits)
  with Cons show ?case by simp
qed simp

text \<open>An ended turn with every request answered is idle.\<close>

lemma all_answered:
  "tn_outstanding t = Suc n \<Longrightarrow> \<not> isRunning (tn_status t) \<Longrightarrow>
     tn_state (fold (\<lambda>e t. advanceTurn t e) (replicate (Suc n) Answered) t) = LvIdle"
proof (induction n arbitrary: t)
  case 0
  then show ?case by (simp add: Let_def)
next
  case (Suc n)
  let ?t = "advanceTurn t Answered"
  have "tn_outstanding ?t = Suc n" "\<not> isRunning (tn_status ?t)" using Suc.prems by (simp_all add: Let_def)
  from Suc.IH [OF this] show ?case by simp
qed

end
