(* ===== verification/MailboxOwner.thy ===== *)
theory MailboxOwner
  imports NativeTurn
begin

text \<open>
  The session's side of the request mailboxes (\<open>src/agent/claude/native/mailboxes.ts\<close>): read the receipt,
  refuse what this conversation cannot answer, act on the runtime, write back what happened.  Each
  operation is a function of the session's projection, the receipt on file and what the runtime
  answered; it returns the new projection, the receipt as the file keeps it, and the operations the
  runtime was asked to perform.
\<close>

record projection =
  pj_generation :: "string option"
  pj_turn :: native_turn_state
  pj_turnId :: "string option"
  pj_permissionMode :: string

fun live_native :: "live \<Rightarrow> native_state" where
  "live_native LvWorking = NsWorking"
| "live_native LvIdle = NsIdle"
| "live_native LvWaitingApproval = NsWaitingApproval"
| "live_native LvWaitingInput = NsWaitingInput"

text \<open>The part of the published snapshot the mailboxes look at.\<close>

definition publish_turn :: "projection \<Rightarrow> rt_snapshot" where
  "publish_turn p = \<lparr>sn_generation = nullish (pj_generation p) '''', sn_state = live_native (tn_state (pj_turn p)),
     sn_turn = (case (pj_turnId p, tn_status (pj_turn p)) of
        (Some i, Some st) \<Rightarrow> Some \<lparr>nt_id = i, nt_status = st\<rparr> | _ \<Rightarrow> None),
     sn_permissionMode = Some (pj_permissionMode p), sn_mcpServers = None, sn_fileCheckpoints = None\<rparr>"

subsection \<open>Interrupt\<close>

text \<open>\<open>later\<close> is the projection after the write that yields; \<open>obeyed\<close> is whether the runtime took it.\<close>

definition applyInterrupt ::
  "projection \<Rightarrow> projection \<Rightarrow> bool \<Rightarrow> interrupt option \<Rightarrow> projection \<times> interrupt option" where
  "applyInterrupt p later' obeyed command = (case command of
      None \<Rightarrow> (p, None)
    | Some c \<Rightarrow>
        (if in_phase c \<notin> {IpQueued, IpUncertain} then (p, Some c)
         else if \<not> isCancellableTurn (publish_turn p) (in_generation c) (in_turnId c)
         then (p, Some (c\<lparr>in_phase := IpRejected\<rparr>))
         else if \<not> isCancellableTurn (publish_turn later') (in_generation c) (in_turnId c)
         then (later', Some (c\<lparr>in_phase := IpRejected\<rparr>))
         else if \<not> obeyed then (later', Some (c\<lparr>in_phase := IpRejected\<rparr>))
         else (later'\<lparr>pj_turn := advanceTurn (pj_turn later') InterruptedTurn\<rparr>,
               Some (c\<lparr>in_phase := IpAccepted\<rparr>))))"

lemma applyInterrupt_accepted:
  assumes "applyInterrupt p p' obeyed (Some c) = (q, Some c')" "in_phase c \<noteq> IpAccepted" "in_phase c' = IpAccepted"
  shows "obeyed \<and> pj_turnId p' = Some (in_turnId c) \<and> tn_status (pj_turn p') = Some TsInProgress
    \<and> tn_status (pj_turn q) = Some TsInterrupted \<and> tn_outstanding (pj_turn q) = 0
    \<and> isCancellableTurn (publish_turn p) (in_generation c) (in_turnId c)"
proof -
  have c2: "isCancellableTurn (publish_turn p') (in_generation c) (in_turnId c)" and ob: "obeyed"
    and c1: "isCancellableTurn (publish_turn p) (in_generation c) (in_turnId c)"
    and q: "q = p'\<lparr>pj_turn := advanceTurn (pj_turn p') InterruptedTurn\<rparr>"
    using assms by (auto simp: applyInterrupt_def split: if_splits)
  have "pj_turnId p' = Some (in_turnId c) \<and> tn_status (pj_turn p') = Some TsInProgress"
    using c2 by (auto simp: isCancellableTurn_def publish_turn_def split: option.splits)
  with ob c1 q show ?thesis by simp
qed

lemma applyInterrupt_answers:
  assumes "applyInterrupt p p' obeyed (Some c) = (q, Some c')"
  shows "in_phase c' \<in> {IpAccepted, IpRejected} \<and> in_turnId c' = in_turnId c \<and> in_generation c' = in_generation c"
  using assms by (cases "in_phase c") (auto simp: applyInterrupt_def split: if_splits)

text \<open>A queued interrupt and its caller: the caller hears exactly what the owner wrote.\<close>

lemma interrupt_round_trip:
  assumes live: "isCancellableTurn s generation turnId"
    and own: "applyInterrupt p p' obeyed (Some \<lparr>in_turnId = turnId, in_generation = generation, in_phase = IpQueued\<rparr>)
      = (q, Some c')"
  shows "fst (requestRuntimeInterrupt generation turnId (Some s) None [Poll (Some c') sn])
    = (if in_phase c' = IpAccepted then Inr () else Inl (AppError ''TURN_MISMATCH'' ''Native turn changed'' 409))"
proof -
  have gen: "sn_generation s = generation" using live by (simp add: isCancellableTurn_def)
  from applyInterrupt_answers [OF own] live gen show ?thesis
    by (auto simp: requestRuntimeInterrupt_def request_def Let_def interrupt_mailbox_def is_mine_def)
qed

subsection \<open>Permission mode\<close>

text \<open>\<open>applyMode\<close> and \<open>restoreMode\<close>; the runtime starts in the default mode.\<close>

definition applyMode :: "bool \<Rightarrow> projection \<Rightarrow> mode_request option \<Rightarrow> projection \<times> mode_request option" where
  "applyMode obeyed p req = (case req of
      None \<Rightarrow> (p, None)
    | Some r \<Rightarrow>
        (if mo_phase r \<noteq> RpQueued then (p, req)
         else if Some (mo_generation r) \<noteq> pj_generation p then (p, req)
         else if tn_status (pj_turn p) = Some TsInProgress then (p, req)
         else if \<not> obeyed
         then (p, Some (r\<lparr>mo_phase := RpFailed, mo_reason := Some ''The runtime refused this permission mode''\<rparr>))
         else (p\<lparr>pj_permissionMode := mo_mode r\<rparr>, Some (r\<lparr>mo_phase := RpComplete, mo_reason := None\<rparr>))))"

definition restoreMode :: "bool \<Rightarrow> projection \<Rightarrow> mode_request option \<Rightarrow> projection" where
  "restoreMode obeyed p req = (case req of
      None \<Rightarrow> p
    | Some r \<Rightarrow> if shouldRestoreMode (Some r) (pj_generation p) \<and> obeyed then p\<lparr>pj_permissionMode := mo_mode r\<rparr> else p)"

definition restarted :: "projection \<Rightarrow> projection" where
  "restarted p = p\<lparr>pj_turn := initialTurn, pj_turnId := None, pj_permissionMode := ''default''\<rparr>"

lemma shouldRestoreMode_iff:
  "shouldRestoreMode (Some r) g \<longleftrightarrow> mo_phase r = RpComplete \<and> g = Some (mo_generation r) \<and> mo_mode r \<noteq> ''default''"
  by (auto simp: shouldRestoreMode_def split: option.splits)

text \<open>A mode is never changed under a running turn.\<close>

lemma applyMode_between_turns:
  "pj_permissionMode (fst (applyMode obeyed p req)) \<noteq> pj_permissionMode p \<Longrightarrow>
     tn_status (pj_turn p) \<noteq> Some TsInProgress"
  by (auto simp: applyMode_def split: option.splits if_splits)

text \<open>An applied mode survives a restart, as long as it is the last thing the file says.\<close>

lemma mode_restored:
  assumes "applyMode True p (Some r) = (q, Some r')" "mo_phase r = RpQueued" "mo_phase r' = RpComplete"
  shows "pj_permissionMode q = mo_mode r \<and> pj_permissionMode (restoreMode True (restarted q) (Some r')) = mo_mode r"
  using assms by (auto simp: applyMode_def restoreMode_def restarted_def shouldRestoreMode_iff split: if_splits)

text \<open>The caller hears the mode once the session has applied and published it.\<close>

lemma mode_round_trip:
  assumes gen: "pj_generation p = Some (sn_generation s)" and idle: "tn_status (pj_turn p) \<noteq> Some TsInProgress"
    and new: "sn_permissionMode s \<noteq> Some mode"
    and own: "applyMode True p (Some (queued_mode mode operationId (sn_generation s))) = (q, Some r')"
  shows "fst (requestRuntimeMode operationId mode (Some s) None rep [Poll (Some r') (Some (publish_turn q))]) = Inr mode"
proof -
  have "q = p\<lparr>pj_permissionMode := mode\<rparr>"
    "r' = (queued_mode mode operationId (sn_generation s))\<lparr>mo_phase := RpComplete, mo_reason := None\<rparr>"
    using own gen idle by (auto simp: applyMode_def queued_mode_def)
  then show ?thesis
    using new by (simp add: requestRuntimeMode_def request_def Let_def mode_mailbox_def is_mine_def queued_mode_def publish_turn_def)
qed

text \<open>
  The receipt is the only memory of the applied mode.  A later request that the runtime refuses
  replaces it, and after a restart the session is back in the default mode.
\<close>

lemma mode_forgotten:
  assumes "pj_generation p = Some g" "tn_status (pj_turn p) \<noteq> Some TsInProgress"
    "applyMode True p (Some (queued_mode ''plan'' op1 g)) = (p1, f1)"
    "applyMode False p1 (Some (queued_mode other op2 g)) = (p2, f2)"
  shows "pj_permissionMode p2 = ''plan'' \<and> pj_permissionMode (restoreMode True (restarted p2) f2) = ''default''"
  using assms
  by (auto simp: applyMode_def queued_mode_def restoreMode_def restarted_def shouldRestoreMode_iff split: if_splits)

subsection \<open>MCP servers\<close>

definition applyMcpRequest ::
  "string option \<Rightarrow> bool \<Rightarrow> mcp_request option \<Rightarrow> mcp_request option \<times> (string \<times> mcp_action) list" where
  "applyMcpRequest generation obeyed req = (case req of
      None \<Rightarrow> (None, [])
    | Some r \<Rightarrow>
        (if mc_phase r \<noteq> RpQueued then (req, [])
         else if Some (mc_generation r) \<noteq> generation then (req, [])
         else (Some (if obeyed then r\<lparr>mc_phase := RpComplete\<rparr>
                 else r\<lparr>mc_phase := RpFailed, mc_reason := Some ''The runtime refused this MCP operation''\<rparr>),
               [(mc_server r, mc_action r)])))"

subsection \<open>Rewind\<close>

record sdk_rewind =
  sr_canRewind :: "bool option"
  sr_error :: "string option"
  sr_filesChanged :: "string list option"
  sr_insertions :: "nat option"
  sr_deletions :: "nat option"
  sr_skippedLinks :: "nat option"

definition rewind_answer :: "bool \<Rightarrow> sdk_rewind \<Rightarrow> rewind_result" where
  "rewind_answer dryRun x = \<lparr>rr_canRewind = (sr_canRewind x = Some True), rr_error = sr_error x,
     rr_filesChanged = take 512 (nullish (sr_filesChanged x) []), rr_insertions = sr_insertions x,
     rr_deletions = sr_deletions x,
     rr_skippedLinks = (if dryRun then None else Some (nullish (sr_skippedLinks x) 0))\<rparr>"

text \<open>\<open>answer\<close> is what the runtime returned, \<open>None\<close> for nothing or an error.\<close>

definition applyRewind ::
  "projection \<Rightarrow> sdk_rewind option \<Rightarrow> rewind_request option \<Rightarrow> rewind_request option \<times> (string \<times> bool) list" where
  "applyRewind p answer req = (case req of
      None \<Rightarrow> (None, [])
    | Some r \<Rightarrow>
        (if rw_phase r \<noteq> RpQueued then (req, [])
         else if Some (rw_generation r) \<noteq> pj_generation p then (req, [])
         else if tn_status (pj_turn p) = Some TsInProgress then (req, [])
         else (Some (case answer of
                   Some x \<Rightarrow> r\<lparr>rw_phase := RpComplete, rw_result := Some (rewind_answer (rw_dryRun r) x)\<rparr>
                 | None \<Rightarrow> r\<lparr>rw_phase := RpFailed, rw_reason := Some ''The runtime could not rewind these files''\<rparr>),
               [(rw_messageId r, rw_dryRun r)])))"

text \<open>The ticks of an owner: the runtime's answers and projections it saw, over one request file.\<close>

fun rewind_ticks ::
  "(projection \<times> sdk_rewind option) list \<Rightarrow> rewind_request option \<Rightarrow> rewind_request option \<times> (string \<times> bool) list" where
  "rewind_ticks [] req = (req, [])"
| "rewind_ticks ((p, answer) # rest) req =
     (let (req', done1) = applyRewind p answer req; (req'', done2) = rewind_ticks rest req'
      in (req'', done1 @ done2))"

lemma rewind_ticks_settled: "map_option rw_phase req \<noteq> Some RpQueued \<Longrightarrow> rewind_ticks ticks req = (req, [])"
  by (induction ticks) (auto simp: applyRewind_def split: option.splits)

lemma rewind_once: "length (snd (rewind_ticks ticks req)) \<le> 1"
proof (induction ticks arbitrary: req)
  case (Cons t ts)
  obtain p answer where t: "t = (p, answer)" by (cases t)
  show ?case
  proof (cases "snd (applyRewind p answer req) = []")
    case True
    with Cons t show ?thesis by (simp add: case_prod_beta Let_def)
  next
    case False
    then obtain r where r: "req = Some r" "rw_phase r = RpQueued" "length (snd (applyRewind p answer req)) = 1"
      "map_option rw_phase (fst (applyRewind p answer req)) \<noteq> Some RpQueued"
      by (auto simp: applyRewind_def split: option.splits if_splits)
    then have "rewind_ticks ts (fst (applyRewind p answer req)) = (fst (applyRewind p answer req), [])"
      by (intro rewind_ticks_settled)
    with t r show ?thesis by (simp add: case_prod_beta Let_def)
  qed
qed simp

end
