(* ===== verification/Deliver.thy ===== *)
theory Deliver
  imports NativeDelivery Coalesce TurnState
begin

text \<open>
  The push-delivery pass of the daemon (\<open>src/chat/deliver.ts\<close>): one letter per recipient, typed into the
  pane of a terminal session or bound to the slot of a native one.

  What the pass reads of a session besides the ledger, the acks and the cursors is a parameter, a
  \<open>pane_env\<close>: the looks at its pane, its transcript and its composer, each taken where the code
  takes it.  What it does is a list of effects in order.  The daemon may die between any two of them.
\<close>

definition MAX_PER_PASS :: nat where "MAX_PER_PASS = 20"
definition PICKUP_GRACE_MS :: int where "PICKUP_GRACE_MS = 15000"

datatype pane_state = PaneDeliverable | PaneWorking | PaneQueuedInput | PaneMenu | PaneInputBusy | PaneNotDrawn | PaneUnknown

record pane_inspection =
  pi_state :: pane_state
  pi_reason :: string

fun holdKindOf :: "pane_state \<Rightarrow> chat_hold_kind" where
  "holdKindOf PaneDeliverable = HkOther"
| "holdKindOf PaneUnknown = HkOther"
| "holdKindOf PaneWorking = HkWorking"
| "holdKindOf PaneQueuedInput = HkQueuedInput"
| "holdKindOf PaneMenu = HkMenu"
| "holdKindOf PaneInputBusy = HkInputBusy"
| "holdKindOf PaneNotDrawn = HkNotDrawn"

fun WHY_TEXT :: "turn_why \<Rightarrow> string" where
  "WHY_TEXT Working = ''the recipient is working right now '' @ em_dash @ '' deferred mail waits for a turn boundary''"
| "WHY_TEXT NotDrawn = ''the recipient's UI has not painted yet (starting or resuming)''"
| "WHY_TEXT AtMenu = ''the recipient is at a selection prompt '' @ em_dash @ '' typing there would pick an option for it''"
| "WHY_TEXT InputOccupied = ''the recipient has unsent text in its composer''"
| "WHY_TEXT UnknownPane = ''the recipient's UI is drawn in an unknown shape''"
| "WHY_TEXT AwaitingPickup = ''the injected message has not appeared in the recipient transcript yet''"
| "WHY_TEXT Settling = ''the recipient just spoke; holding a moment to be sure the turn really ended''"
| "WHY_TEXT QuietUnproven = ''the recipient's last record is not speech and it has not been quiet long enough to tell a dead turn from a pause''"
| "WHY_TEXT TurnEnded = ''the recipient finished its turn''"
| "WHY_TEXT IdleAfterInterrupt = ''the recipient's turn was interrupted and will not resume on its own''"
| "WHY_TEXT NeverSpoke = ''the recipient has not taken a turn yet''"

datatype dv_effect =
  DHold string string chat_hold_kind
| DClear
| DSave cursors
| DAck string
| DInput bool
| DType "string list"
| DStart string
| DNative native_effect

subsection \<open>Typing into a pane\<close>

text \<open>
  How the gated part goes: no paste buffer; input could not be disabled; or a look at the gated pane
  (\<open>None\<close> for a provider without a detector), whether the step before the submission succeeds, and
  whether the submission does.
\<close>

datatype pane_gate = NoBuffer | NotGated | Gated "pane_inspection option" bool bool

datatype pane_outcome = PaneThrew | PaneDone bool "string option" chat_hold_kind

definition deliverToPane :: "pane_gate \<Rightarrow> string list \<Rightarrow> dv_effect list \<Rightarrow> dv_effect list \<times> pane_outcome" where
  "deliverToPane gate batch beforeSubmit = (case gate of
      NoBuffer \<Rightarrow> ([], PaneDone False None HkOther)
    | NotGated \<Rightarrow> ([], PaneDone False None HkOther)
    | Gated inspection prepared submitted \<Rightarrow>
        (case inspection of
           None \<Rightarrow> ([DInput False, DInput True],
             PaneDone False (Some ''this provider cannot receive managed chat'') HkOther)
         | Some i \<Rightarrow>
             (if pi_state i \<noteq> PaneDeliverable
              then ([DInput False, DInput True], PaneDone False (Some (pi_reason i)) (holdKindOf (pi_state i)))
              else if \<not> prepared then ([DInput False, DInput True], PaneThrew)
              else if submitted then ([DInput False] @ beforeSubmit @ [DType batch], PaneDone True None HkOther)
              else ([DInput False] @ beforeSubmit @ [DInput True], PaneDone False None HkOther))))"

subsection \<open>One session of a pass\<close>

record pane_env =
  pe_enabled :: bool
  pe_running :: bool
  pe_native :: "native_reads option"
  pe_detector :: bool
  pe_transcriptPickup :: bool
  pe_progress :: turn_progress
  pe_submittedId :: "string option"
  pe_pickupTurn :: turn_state
  pe_pane :: pane_inspection
  pe_typing :: bool
  pe_turn :: turn_state
  pe_ackedNow :: "string set"
  pe_line :: "nat option"
  pe_gate :: pane_gate

record pass_facts =
  pf_machine :: string
  pf_ledger :: "ledger_slot list"
  pf_acked :: "string set"
  pf_now :: nat

text \<open>The effects of one session, and its cursors, changed flag and delivery count; \<open>None\<close> when it threw.\<close>

type_synonym session_pass = "dv_effect list \<times> (cursors \<times> bool \<times> nat) option"

definition peer_key :: "pass_facts \<Rightarrow> session \<Rightarrow> string" where
  "peer_key c s = managedPeerKey (managedPeer (pf_machine c) s)"

definition rate_held :: "pass_facts \<Rightarrow> session \<Rightarrow> bool" where
  "rate_held c s = (recentInboundCount (ToManaged (managedPeer (pf_machine c) s)) (pf_ledger c) (int (pf_now c)) > RATE_MAX_INBOUND)"

text \<open>The cursors in memory follow every save of the native pass; its error is caught by the loop.\<close>

fun saved_last :: "cursors \<Rightarrow> native_effect list \<Rightarrow> cursors" where
  "saved_last cs [] = cs"
| "saved_last cs (e # es) = saved_last (case e of ESave cs' \<Rightarrow> cs' | _ \<Rightarrow> cs) es"

definition native_session_pass :: "pass_facts \<Rightarrow> session \<Rightarrow> native_reads \<Rightarrow> cursors \<Rightarrow> bool \<Rightarrow> session_pass" where
  "native_session_pass c s r cs changed =
     (let r' = r\<lparr>nr_machine := pf_machine c, nr_ledger := pf_ledger c, nr_acked := pf_acked c,
            nr_now := pf_now c, nr_rateHeld := rate_held c s\<rparr>;
          (es, result) = deliverNativeRuntimePending r' s cs
      in (map DNative es, Some (saved_last cs es, changed, case result of Inr n \<Rightarrow> n | Inl _ \<Rightarrow> 0)))"

text \<open>The letter that is due, on the pane track.\<close>

definition rate_text :: string where
  "rate_text = ''rate limit '' @ em_dash @ '' this recipient got more than '' @ string_of_nat RATE_MAX_INBOUND
     @ '' messages in the last minute, delivery resumes as the burst subsides''"

definition pane_batch :: "pass_facts \<Rightarrow> session \<Rightarrow> pane_env \<Rightarrow> chat_message \<Rightarrow> chat_message list" where
  "pane_batch c s e msg =
     (if isConditional msg \<and> \<not> pe_transcriptPickup e
      then coalesce (pf_ledger c) (peer_key c s) (pf_acked c) (int (pf_now c)) else [msg])"

definition armed_cursors :: "pass_facts \<Rightarrow> session \<Rightarrow> pane_env \<Rightarrow> cursors \<Rightarrow> chat_message \<Rightarrow> nat \<Rightarrow> cursors" where
  "armed_cursors c s e cs msg idx = armPickup cs (peer_key c s) msg idx (Instant (int (pf_now c))) (pe_line e) None"

definition typed_cursors :: "pass_facts \<Rightarrow> session \<Rightarrow> cursors \<Rightarrow> nat \<Rightarrow> cursors" where
  "typed_cursors c s cs idx = (let key = peer_key c s in
     cs\<lparr>c_delivered := (c_delivered cs)(key \<mapsto> idx + 1),
        c_read := (c_read cs)(key \<mapsto> max (nullish (c_read cs key) 0) (idx + 1))\<rparr>)"

definition type_letter ::
  "pass_facts \<Rightarrow> session \<Rightarrow> pane_env \<Rightarrow> cursors \<Rightarrow> bool \<Rightarrow> chat_message \<Rightarrow> nat \<Rightarrow> session_pass" where
  "type_letter c s e cs changed msg idx =
     (let batch = pane_batch c s e msg;
          armed = armed_cursors c s e cs msg idx;
          before = (if pe_transcriptPickup e then [DSave armed] else []);
          (es, outcome) = deliverToPane (pe_gate e) (map m_id batch) before;
          reached = (case pe_gate e of Gated (Some i) prepared _ \<Rightarrow> pi_state i = PaneDeliverable \<and> prepared | _ \<Rightarrow> False);
          cs1 = (if pe_transcriptPickup e \<and> reached then armed else cs)
      in case outcome of
          PaneThrew \<Rightarrow> (es, None)
        | PaneDone submitted held kind \<Rightarrow>
            (case held of
               Some reason \<Rightarrow> (es @ [DHold (m_id msg) reason HkOther], Some (cs1, changed, 0))
             | None \<Rightarrow>
                 (if \<not> submitted then (es, Some (cs1, changed, 0))
                  else if pe_transcriptPickup e then (es @ [DClear], Some (cs1, True, 1))
                  else if isConditional msg then (es @ [DClear] @ map (DAck \<circ> m_id) batch, Some (cs1, True, 1))
                  else (es @ [DClear], Some (typed_cursors c s cs1 idx, True, 1)))))"

definition pane_track :: "pass_facts \<Rightarrow> session \<Rightarrow> pane_env \<Rightarrow> cursors \<Rightarrow> bool \<Rightarrow> session_pass" where
  "pane_track c s e cs0 changed0 =
     (let (pick, moved, cs) = nextDelivery (pf_ledger c) (peer_key c s) cs0 (pf_acked c) (int (pf_now c));
          changed = (changed0 \<or> moved)
      in case pick of
          None \<Rightarrow> ([], Some (cs, changed, 0))
        | Some (msg, idx) \<Rightarrow>
            (if rate_held c s then ([DHold (m_id msg) rate_text HkRateLimited], Some (cs, changed, 0))
             else if pi_state (pe_pane e) \<noteq> PaneDeliverable
             then ([DHold (m_id msg) (pi_reason (pe_pane e)) (holdKindOf (pi_state (pe_pane e)))], Some (cs, changed, 0))
             else if pe_typing e
             then ([DHold (m_id msg) ''a human typed in that pane a moment ago'' HkHumanTyping], Some (cs, changed, 0))
             else if why (pe_turn e) = NotDrawn
             then ([DHold (m_id msg) (WHY_TEXT (why (pe_turn e))) HkNotDrawn], Some (cs, changed, 0))
             else if m_defer msg \<and> \<not> settled (pe_turn e)
             then ([DHold (m_id msg) (WHY_TEXT (why (pe_turn e))) HkOther], Some (cs, changed, 0))
             else if isConditional msg \<and> m_id msg \<in> pe_ackedNow e then ([], Some (cs, changed, 0))
             else type_letter c s e cs changed msg idx))"

text \<open>A pickup that the transcript has not settled: the same letter may be typed again, once it is certain
  that Enter never happened.\<close>

definition retry_pickup :: "pass_facts \<Rightarrow> pane_env \<Rightarrow> cursors \<Rightarrow> bool \<Rightarrow> pickup \<Rightarrow> session_pass" where
  "retry_pickup c e cs changed pk =
     (if pe_progress e = ProgRunning \<or> pe_submittedId e = Some (pk_message pk)
         \<or> (case date_parse (pk_injectedAt pk) of None \<Rightarrow> False | Some at \<Rightarrow> int (pf_now c) - at < PICKUP_GRACE_MS)
      then ([], Some (cs, changed, 0))
      else case find_letter (pf_ledger c) (pk_message pk) of
          None \<Rightarrow> ([], Some (cs, changed, 0))
        | Some msg \<Rightarrow>
            (case deliverToPane (pe_gate e) [m_id msg] [] of
               (es, PaneThrew) \<Rightarrow> (es, None)
             | (es, PaneDone submitted held kind) \<Rightarrow>
                 (if \<not> submitted
                  then (es @ (case held of None \<Rightarrow> [] | Some reason \<Rightarrow> [DHold (m_id msg) reason kind]), Some (cs, changed, 0))
                  else (es @ [DClear], Some (cs, changed, 1)))))"

definition finish_effects :: "cursors \<Rightarrow> string \<Rightarrow> dv_effect list" where
  "finish_effects cs key = (case c_pickups cs key of None \<Rightarrow> []
     | Some pk \<Rightarrow> (if pk_conditional pk then [DAck (pk_message pk)] else []) @ [DSave (snd (finishPickup [] cs key))])"

definition deliver_session :: "pass_facts \<Rightarrow> session \<Rightarrow> pane_env \<Rightarrow> cursors \<Rightarrow> bool \<Rightarrow> session_pass" where
  "deliver_session c s e cs changed =
     (if \<not> pe_enabled e \<or> \<not> pe_running e then ([], Some (cs, changed, 0))
      else case pe_native e of
          Some r \<Rightarrow> native_session_pass c s r cs changed
        | None \<Rightarrow>
            (if \<not> pe_detector e then ([], Some (cs, changed, 0))
             else case c_pickups cs (peer_key c s) of
                 Some pk \<Rightarrow>
                   (if \<not> pe_transcriptPickup e then pane_track c s e cs changed
                    else if pe_progress e \<notin> {ProgAnswered, ProgInterrupted} then retry_pickup c e cs changed pk
                    else if \<not> settled (pe_pickupTurn e) then ([], Some (cs, changed, 0))
                    else (let (es, result) = pane_track c s e (snd (finishPickup [] cs (peer_key c s))) False
                          in (finish_effects cs (peer_key c s) @ es, result)))
               | None \<Rightarrow> pane_track c s e cs changed))"

subsection \<open>The gate around a submission\<close>

text \<open>\<open>gated b es\<close>: letters are only typed while client input is off, and it is on again at the end.\<close>

fun gated :: "bool \<Rightarrow> dv_effect list \<Rightarrow> bool" where
  "gated on [] = on"
| "gated on (DInput b # es) = gated b es"
| "gated on (DType ids # es) = (\<not> on \<and> gated True es)"
| "gated on (_ # es) = gated on es"

fun quiet :: "dv_effect \<Rightarrow> bool" where
  "quiet (DInput _) = False"
| "quiet (DType _) = False"
| "quiet _ = True"

lemma gated_quiet [simp]: "\<forall>x\<in>set es. quiet x \<Longrightarrow> gated on (es @ fs) = gated on fs"
proof (induction es)
  case (Cons x es)
  then show ?case by (cases x) simp_all
qed simp

lemma gated_append: "gated on es \<Longrightarrow> gated on (es @ fs) = gated True fs"
proof (induction es arbitrary: on)
  case (Cons x es)
  then show ?case by (cases x) auto
qed simp

lemma quiet_gated: "\<forall>x\<in>set es. quiet x \<Longrightarrow> gated True es"
  using gated_quiet [of es True "[]"] by simp

lemma deliverToPane_gated:
  assumes "\<forall>x\<in>set before. quiet x"
  shows "gated True (fst (deliverToPane gate batch before))"
  using assms by (auto simp: deliverToPane_def split: pane_gate.split option.split)

lemma deliverToPane_typed:
  assumes "DType ids \<in> set (fst (deliverToPane gate batch before))" "\<forall>x\<in>set before. quiet x"
  shows "ids = batch \<and> (\<exists>i. gate = Gated (Some i) True True \<and> pi_state i = PaneDeliverable)
    \<and> deliverToPane gate batch before = ([DInput False] @ before @ [DType batch], PaneDone True None HkOther)"
  using assms by (auto simp: deliverToPane_def split: pane_gate.splits option.splits if_splits)

lemma deliverToPane_submitted:
  "deliverToPane gate batch before = (es, PaneDone True held kind) \<Longrightarrow>
     held = None \<and> es = [DInput False] @ before @ [DType batch]
     \<and> (\<exists>i. gate = Gated (Some i) True True \<and> pi_state i = PaneDeliverable)"
  by (auto simp: deliverToPane_def split: pane_gate.splits option.splits if_splits)

lemma gated_tail: "gated True es \<Longrightarrow> \<forall>x\<in>set fs. quiet x \<Longrightarrow> gated True (es @ fs)"
  by (simp add: gated_append quiet_gated)

lemma type_letter_gated: "gated True (fst (type_letter c s e cs changed msg idx))"
proof -
  define before where "before = (if pe_transcriptPickup e then [DSave (armed_cursors c s e cs msg idx)] else [])"
  obtain es outcome where d: "deliverToPane (pe_gate e) (map m_id (pane_batch c s e msg)) before = (es, outcome)"
    by force
  have "\<forall>x\<in>set before. quiet x" by (simp add: before_def)
  then have "gated True es" using deliverToPane_gated [of before] d by (metis fst_conv)
  then have tail: "gated True (es @ fs)" if "\<forall>x\<in>set fs. quiet x" for fs using gated_tail that by blast
  have "\<exists>fs. fst (type_letter c s e cs changed msg idx) = es @ fs \<and> (\<forall>x\<in>set fs. quiet x)"
    using d by (cases outcome) (auto simp: type_letter_def Let_def before_def split: option.split)
  with tail show ?thesis by metis
qed

text \<open>A pass over the pane track records at most one hold, or types the letter that is due.\<close>

lemma pane_track_cases:
  assumes "nextDelivery (pf_ledger c) (peer_key c s) cs (pf_acked c) (int (pf_now c)) = (pick, moved, cs1)"
  obtains (idle) es where "pane_track c s e cs changed = (es, Some (cs1, changed \<or> moved, 0))"
      "\<forall>x\<in>set es. \<exists>i t k. x = DHold i t k"
  | (types) msg idx where "pick = Some (msg, idx)"
      "pane_track c s e cs changed = type_letter c s e cs1 (changed \<or> moved) msg idx"
      "\<not> rate_held c s" "pi_state (pe_pane e) = PaneDeliverable" "\<not> pe_typing e" "why (pe_turn e) \<noteq> NotDrawn"
      "m_defer msg \<longrightarrow> settled (pe_turn e)" "isConditional msg \<longrightarrow> m_id msg \<notin> pe_ackedNow e"
proof (cases pick)
  case None
  with assms show ?thesis by (intro idle [of "[]"]) (simp_all add: pane_track_def Let_def)
next
  case (Some p)
  obtain msg idx where p: "pick = Some (msg, idx)" using Some by (cases p) simp
  let ?held = "rate_held c s \<or> pi_state (pe_pane e) \<noteq> PaneDeliverable \<or> pe_typing e \<or> why (pe_turn e) = NotDrawn
    \<or> m_defer msg \<and> \<not> settled (pe_turn e) \<or> isConditional msg \<and> m_id msg \<in> pe_ackedNow e"
  show ?thesis
  proof (cases ?held)
    case True
    define es where "es = fst (pane_track c s e cs changed)"
    have "pane_track c s e cs changed = (es, Some (cs1, changed \<or> moved, 0)) \<and> (\<forall>x\<in>set es. \<exists>i t k. x = DHold i t k)"
      using True assms p unfolding es_def by (auto simp: pane_track_def Let_def)
    then show ?thesis by (intro idle [of es]) auto
  next
    case False
    with assms p show ?thesis by (intro types [of msg idx]) (auto simp: pane_track_def Let_def)
  qed
qed

lemma pane_track_gated: "gated True (fst (pane_track c s e cs changed))"
proof -
  obtain pick moved cs1 where "nextDelivery (pf_ledger c) (peer_key c s) cs (pf_acked c) (int (pf_now c)) = (pick, moved, cs1)"
    by (metis prod_cases3)
  then show ?thesis
  proof (cases rule: pane_track_cases [where e = e and changed = changed])
    case (idle es)
    then show ?thesis by (force intro: quiet_gated)
  next
    case (types msg idx)
    then show ?thesis by (simp add: type_letter_gated)
  qed
qed

text \<open>A retry types the letter of the pickup again, or nothing.\<close>

lemma retry_pickup_cases:
  obtains (idle) es where "retry_pickup c e cs changed pk = (es, Some (cs, changed, 0)) \<or> retry_pickup c e cs changed pk = (es, None)"
      "gated True es" "\<forall>x\<in>set es. (\<exists>i t k. x = DHold i t k) \<or> (\<exists>b. x = DInput b)"
  | (types) msg where "find_letter (pf_ledger c) (pk_message pk) = Some msg" "pe_progress e \<noteq> ProgRunning"
      "pe_submittedId e \<noteq> Some (pk_message pk)"
      "\<not> (\<exists>at. date_parse (pk_injectedAt pk) = Some at \<and> int (pf_now c) - at < PICKUP_GRACE_MS)"
      "\<exists>i. pe_gate e = Gated (Some i) True True \<and> pi_state i = PaneDeliverable"
      "retry_pickup c e cs changed pk = ([DInput False, DType [m_id msg], DClear], Some (cs, changed, 1))"
proof (cases "pe_progress e = ProgRunning \<or> pe_submittedId e = Some (pk_message pk)
    \<or> (\<exists>at. date_parse (pk_injectedAt pk) = Some at \<and> int (pf_now c) - at < PICKUP_GRACE_MS)
    \<or> find_letter (pf_ledger c) (pk_message pk) = None")
  case True
  then show ?thesis
    by (intro idle [of "[]"]) (auto simp: retry_pickup_def split: option.splits)
next
  case False
  then obtain msg where m: "find_letter (pf_ledger c) (pk_message pk) = Some msg" by auto
  obtain es outcome where d: "deliverToPane (pe_gate e) [m_id msg] [] = (es, outcome)" by force
  have r: "retry_pickup c e cs changed pk = (case outcome of PaneThrew \<Rightarrow> (es, None)
      | PaneDone submitted held kind \<Rightarrow>
          (if \<not> submitted then (es @ (case held of None \<Rightarrow> [] | Some reason \<Rightarrow> [DHold (m_id msg) reason kind]), Some (cs, changed, 0))
           else (es @ [DClear], Some (cs, changed, 1))))"
    using False m d by (auto simp: retry_pickup_def split: option.splits)
  have g: "gated True es" using deliverToPane_gated [of "[]" "pe_gate e" "[m_id msg]"] d by simp
  show ?thesis
  proof (cases "\<exists>held kind. outcome = PaneDone True held kind")
    case True
    then show ?thesis
      using deliverToPane_submitted [of "pe_gate e" "[m_id msg]" "[]" es] d r m False by (intro types [of msg]) auto
  next
    case no: False
    then have ins: "\<forall>x\<in>set es. \<exists>b. x = DInput b"
      using d by (auto simp: deliverToPane_def split: pane_gate.splits option.splits if_splits)
    show ?thesis
    proof (cases outcome)
      case PaneThrew
      with r g ins show ?thesis by (intro idle [of es]) auto
    next
      case (PaneDone sub held kind)
      then have "\<not> sub" using no by auto
      let ?h = "case held of None \<Rightarrow> [] | Some reason \<Rightarrow> [DHold (m_id msg) reason kind]"
      have "gated True (es @ ?h)" using g by (intro gated_tail) (auto split: option.split)
      with r PaneDone \<open>\<not> sub\<close> ins show ?thesis by (intro idle [of "es @ ?h"]) (auto split: option.split)
    qed
  qed
qed

lemma retry_pickup_gated: "gated True (fst (retry_pickup c e cs changed pk))"
  by (cases rule: retry_pickup_cases [of c e cs changed pk]) auto

lemma finish_effects_quiet: "\<forall>x\<in>set (finish_effects cs key). quiet x"
  by (auto simp: finish_effects_def split: option.split)

lemma deliver_session_gated: "gated True (fst (deliver_session c s e cs changed))"
proof -
  have nat: "gated True (map DNative es)" for es by (rule quiet_gated) auto
  have track: "gated True (finish_effects cs key @ fst (pane_track c s e cs' ch))" for key cs' ch
    using pane_track_gated finish_effects_quiet by simp
  show ?thesis
    using pane_track_gated retry_pickup_gated nat track
    by (simp add: deliver_session_def native_session_pass_def Let_def case_prod_beta split: option.split)
qed

subsection \<open>Every typed letter is accounted for\<close>

text \<open>What typing the due letter does, when it is typed at all.\<close>

lemma type_letter_typed:
  assumes "type_letter c s e cs changed msg idx = (es, result)" "DType ids \<in> set es"
  shows "ids = map m_id (pane_batch c s e msg)"
    and "\<exists>i. pe_gate e = Gated (Some i) True True \<and> pi_state i = PaneDeliverable"
    and "result = Some (if pe_transcriptPickup e then armed_cursors c s e cs msg idx
           else if isConditional msg then cs else typed_cursors c s cs idx, True, 1)"
    and "es = [DInput False] @ (if pe_transcriptPickup e then [DSave (armed_cursors c s e cs msg idx)] else [])
           @ [DType ids, DClear]
           @ (if \<not> pe_transcriptPickup e \<and> isConditional msg then map (DAck \<circ> m_id) (pane_batch c s e msg) else [])"
proof -
  define before where "before = (if pe_transcriptPickup e then [DSave (armed_cursors c s e cs msg idx)] else [])"
  let ?batch = "map m_id (pane_batch c s e msg)"
  obtain fs outcome where d: "deliverToPane (pe_gate e) ?batch before = (fs, outcome)" by force
  have quiet: "\<forall>x\<in>set before. quiet x" by (simp add: before_def)
  have "\<exists>gs. es = fs @ gs \<and> (\<forall>x\<in>set gs. quiet x)"
    using assms(1) d by (cases outcome) (auto simp: type_letter_def Let_def before_def split: option.splits if_splits)
  with assms(2) have "DType ids \<in> set fs" by fastforce
  then have t: "ids = ?batch" "\<exists>i. pe_gate e = Gated (Some i) True True \<and> pi_state i = PaneDeliverable"
    "outcome = PaneDone True None HkOther" "fs = [DInput False] @ before @ [DType ?batch]"
    using deliverToPane_typed [of ids "pe_gate e" ?batch before] d quiet by auto
  from t(1) show "ids = ?batch" .
  from t(2) show "\<exists>i. pe_gate e = Gated (Some i) True True \<and> pi_state i = PaneDeliverable" .
  from assms(1) d t show "result = Some (if pe_transcriptPickup e then armed_cursors c s e cs msg idx
           else if isConditional msg then cs else typed_cursors c s cs idx, True, 1)"
    "es = [DInput False] @ (if pe_transcriptPickup e then [DSave (armed_cursors c s e cs msg idx)] else [])
           @ [DType ids, DClear]
           @ (if \<not> pe_transcriptPickup e \<and> isConditional msg then map (DAck \<circ> m_id) (pane_batch c s e msg) else [])"
    unfolding type_letter_def Let_def before_def by (auto split: if_splits)
qed

lemma pane_track_typed:
  assumes "pane_track c s e cs changed = (es, result)" "DType ids \<in> set es"
  obtains msg idx cs1 where "nextDelivery (pf_ledger c) (peer_key c s) cs (pf_acked c) (int (pf_now c)) = (Some (msg, idx), c_delivered cs1 \<noteq> c_delivered cs, cs1)"
    "ids = map m_id (pane_batch c s e msg)"
    "type_letter c s e cs1 (changed \<or> c_delivered cs1 \<noteq> c_delivered cs) msg idx = (es, result)"
    "\<not> rate_held c s" "pi_state (pe_pane e) = PaneDeliverable" "\<not> pe_typing e" "why (pe_turn e) \<noteq> NotDrawn"
    "m_defer msg \<longrightarrow> settled (pe_turn e)" "isConditional msg \<longrightarrow> m_id msg \<notin> pe_ackedNow e"
proof -
  obtain pick moved cs1 where nd: "nextDelivery (pf_ledger c) (peer_key c s) cs (pf_acked c) (int (pf_now c)) = (pick, moved, cs1)"
    by (metis prod_cases3)
  have mv: "moved = (c_delivered cs1 \<noteq> c_delivered cs)"
    using nd by (auto simp: nextDelivery_def Let_def split: prod.splits if_splits) (metis fun_upd_same)
  from nd show ?thesis
  proof (cases rule: pane_track_cases [where e = e and changed = changed])
    case (idle es')
    with assms show ?thesis by auto
  next
    case (types msg idx)
    then have tl: "type_letter c s e cs1 (changed \<or> moved) msg idx = (es, result)" using assms(1) by simp
    show ?thesis
      using that [of msg idx cs1] nd types tl mv type_letter_typed(1) [OF tl assms(2)] by simp
  qed
qed

lemma find_letter_SomeD: "find_letter ledger i = Some msg \<Longrightarrow> Some msg \<in> set ledger \<and> m_id msg = i"
  by (auto simp: find_letter_def dest!: find_SomeD split: option.splits)

text \<open>Which way a session was typed at: its pickup again, or the pane track (after closing a pickup).\<close>

lemma deliver_session_typed:
  assumes "deliver_session c s e cs changed = (es, result)" "DType ids \<in> set es"
  obtains (retry) pk where "c_pickups cs (peer_key c s) = Some pk" "pe_transcriptPickup e" "ids = [pk_message pk]"
      "es = [DInput False, DType ids, DClear]" "result = Some (cs, changed, 1)"
      "pe_submittedId e \<noteq> Some (pk_message pk)" "pe_progress e = ProgAwaitingPickup"
  | (track) pre fs cs0 ch where "es = pre @ fs" "\<forall>x\<in>set pre. quiet x" "pane_track c s e cs0 ch = (fs, result)" "DType ids \<in> set fs"
      "(cs0 = cs \<and> (\<not> pe_transcriptPickup e \<or> c_pickups cs (peer_key c s) = None)) \<or> cs0 = snd (finishPickup [] cs (peer_key c s))"
proof (cases "pe_enabled e \<and> pe_running e \<and> pe_native e = None \<and> pe_detector e")
  case False
  with assms show ?thesis
    by (auto simp: deliver_session_def native_session_pass_def Let_def split: if_splits option.splits prod.splits)
next
  case on: True
  show ?thesis
  proof (cases "c_pickups cs (peer_key c s)")
    case None
    with on assms have "pane_track c s e cs changed = (es, result)" by (simp add: deliver_session_def)
    with assms None show ?thesis by (intro track [of "[]" es cs changed]) auto
  next
    case (Some pk)
    show ?thesis
    proof (cases "pe_transcriptPickup e")
      case False
      with on assms Some have "pane_track c s e cs changed = (es, result)" by (simp add: deliver_session_def)
      with assms False show ?thesis by (intro track [of "[]" es cs changed]) auto
    next
      case tr: True
      show ?thesis
      proof (cases "pe_progress e \<in> {ProgAnswered, ProgInterrupted}")
        case False
        then have r: "retry_pickup c e cs changed pk = (es, result)"
          using on assms Some tr by (auto simp: deliver_session_def)
        show ?thesis
        proof (cases rule: retry_pickup_cases [of c e cs changed pk])
          case (idle es')
          with r assms(2) show ?thesis by auto
        next
          case (types msg)
          with False have "pe_progress e = ProgAwaitingPickup" by (cases "pe_progress e") auto
          moreover have "m_id msg = pk_message pk" using find_letter_SomeD [OF types(1)] by simp
          ultimately show ?thesis
            using types r assms(2) Some tr by (intro retry [of pk]) auto
        qed
      next
        case True
        let ?after = "pane_track c s e (snd (finishPickup [] cs (peer_key c s))) False"
        define fs where "fs = fst ?after"
        have fs: "?after = (fs, result)" and es: "es = finish_effects cs (peer_key c s) @ fs"
          using on assms Some tr True
          by (auto simp: deliver_session_def Let_def case_prod_beta fs_def split: if_splits)
        have q: "\<forall>x\<in>set (finish_effects cs (peer_key c s)). quiet x" by (rule finish_effects_quiet)
        with es assms(2) have "DType ids \<in> set fs" by fastforce
        with fs es q show ?thesis by (intro track [of "finish_effects cs (peer_key c s)" fs]) auto
      qed
    qed
  qed
qed

text \<open>A session without transcript pickup: every typed letter is settled when its turn in the pass is over.\<close>

lemma typed_is_settled:
  assumes pass: "deliver_session c s e cs changed = (es, Some (cs', changed', n))" "DType ids \<in> set es"
    and "\<not> pe_transcriptPickup e"
    and uniq: "\<And>j m. j < length (pf_ledger c) \<Longrightarrow> pf_ledger c ! j = Some m \<Longrightarrow> m_id m = m_id msg \<Longrightarrow> j = i \<and> m = msg"
    and msg: "m_id msg \<in> set ids"
  shows "(if isConditional msg then DAck (m_id msg) \<in> set es else i < nullish (c_delivered cs' (peer_key c s)) 0) \<and> changed'"
  using pass
proof (cases rule: deliver_session_typed)
  case (retry pk)
  with assms(3) show ?thesis by simp
next
  case (track pre fs cs0 ch)
  from track(3,4) show ?thesis
  proof (cases rule: pane_track_typed)
    case (1 m idx cs1)
    note t = type_letter_typed [OF 1(3) track(4)]
    have pk: "idx < length (pf_ledger c)" "pf_ledger c ! idx = Some m"
      using pick_SomeD [OF nextDelivery_cursor [OF 1(1), symmetric]] by simp_all
    show ?thesis
    proof (cases "isConditional m")
      case True
      have "pane_batch c s e m = coalesce (pf_ledger c) (peer_key c s) (pf_acked c) (int (pf_now c))"
        using True assms(3) by (simp add: pane_batch_def)
      then have batch: "isConditional b \<and> Some b \<in> set (pf_ledger c)" if "b \<in> set (pane_batch c s e m)" for b
        using coalesce_waits that by (auto simp: waits_for_def)
      obtain b where b: "b \<in> set (pane_batch c s e m)" "m_id b = m_id msg"
        using msg 1(2) by auto
      with batch have b: "b \<in> set (pane_batch c s e m)" "m_id b = m_id msg" "isConditional b" "Some b \<in> set (pf_ledger c)"
        by blast+
      then have "b = msg" using uniq [of _ b] by (metis in_set_conv_nth)
      moreover have "DAck (m_id msg) \<in> set fs"
        unfolding t(4) using True assms(3) b(1) b(2) [symmetric] by simp
      ultimately show ?thesis using b(3) track(1) t(3) by simp
    next
      case False
      then have "m_id m = m_id msg" using msg 1(2) by (simp add: pane_batch_def)
      then have "idx = i" "m = msg" using uniq pk by auto
      with False t(3) assms(3) show ?thesis by (simp add: typed_cursors_def Let_def)
    qed
  qed
qed

text \<open>A session with transcript pickup: the barrier is on disk before the letter is typed.\<close>

lemma typed_is_armed:
  assumes pass: "deliver_session c s e cs changed = (es, result)" and at: "es = pre @ DType ids # post"
    and tr: "pe_transcriptPickup e"
  shows "\<exists>cs0 pk. (cs0 = cs \<or> DSave cs0 \<in> set pre) \<and> c_pickups cs0 (peer_key c s) = Some pk \<and> ids = [pk_message pk]"
proof -
  have "DType ids \<in> set es" by (simp add: at)
  from pass this show ?thesis
  proof (cases rule: deliver_session_typed)
    case (retry pk)
    then show ?thesis by blast
  next
    case (track qs fs cs0 ch)
    from track(3,4) show ?thesis
    proof (cases rule: pane_track_typed)
      case (1 m idx cs1)
      let ?armed = "armed_cursors c s e cs1 m idx"
      have fs: "fs = [DInput False, DSave ?armed, DType ids, DClear]"
        using type_letter_typed(4) [OF 1(3) track(4)] tr by simp
      have "pre = qs @ [DInput False, DSave ?armed]"
      proof -
        have "qs @ [DInput False, DSave ?armed] @ DType ids # [DClear] = pre @ DType ids # post"
          using track(1) fs at by simp
        moreover have "\<forall>x\<in>set (qs @ [DInput False, DSave ?armed]). x \<noteq> DType ids" using track(2) by auto
        ultimately show ?thesis by (auto simp: append_eq_append_conv2 append_eq_Cons_conv Cons_eq_append_conv)
      qed
      moreover have "c_pickups ?armed (peer_key c s) = Some
          \<lparr>pk_message = m_id m, pk_injectedAt = Instant (int (pf_now c)), pk_index = Some idx,
           pk_conditional = isConditional m, pk_line = pe_line e, pk_native = None\<rparr>"
        unfolding armed_cursors_def by (rule armPickup_pickup)
      moreover have "ids = [m_id m]" using 1(2) tr by (simp add: pane_batch_def)
      ultimately show ?thesis by (intro exI [of _ ?armed]) auto
    qed
  qed
qed

end
