(* ===== verification/DeliverPass.thy ===== *)
theory DeliverPass
  imports Deliver
begin

text \<open>
  The rest of a delivery pass: the Codex App half (\<open>src/chat/deliverApp.ts\<close>, \<open>codexApp.ts\<close>), and the
  pass over all sessions with its bound and its final save (\<open>deliverPending\<close> in \<open>src/chat/deliver.ts\<close>).
\<close>

subsection \<open>One letter to an App thread\<close>

datatype app_status = AsActive "string list" | AsSystemError | AsIdle | AsNotLoaded

record app_thread =
  at_status :: app_status
  at_acceptsInput :: "bool option"

fun status_name :: "app_status \<Rightarrow> string" where
  "status_name (AsActive flags) = ''active''"
| "status_name AsSystemError = ''systemError''"
| "status_name AsIdle = ''idle''"
| "status_name AsNotLoaded = ''notLoaded''"

definition appThreadHoldReason :: "app_thread \<Rightarrow> string option" where
  "appThreadHoldReason t = (case at_status t of
      AsActive flags \<Rightarrow> Some (''Codex App thread is active''
        @ (if flags \<noteq> [] then '' ('' @ join '', '' flags @ '')'' else '''')
        @ ''; delivery waits for an idle turn boundary'')
    | AsSystemError \<Rightarrow> Some ''Codex App thread is in systemError''
    | AsIdle \<Rightarrow> if at_acceptsInput t \<noteq> Some True then Some ''Codex App thread does not currently accept direct input'' else None
    | AsNotLoaded \<Rightarrow> None)"

text \<open>The answers of the App Server; an error is its message.\<close>

record app_server =
  as_persisted :: "string + bool"
  as_connect :: "string + unit"
  as_read :: "string + app_thread"
  as_resume :: "string + unit"
  as_reread :: "string + app_thread"
  as_start :: "string + string option"

datatype app_delivery = AppDelivered bool "string option" | AppHeld string | AppThrew string

definition rpc_prefix :: string where "rpc_prefix = ''App Server RPC failed:''"

definition caught :: "string \<Rightarrow> app_delivery" where
  "caught reason = (if prefix rpc_prefix reason then AppHeld reason else AppThrew reason)"

text \<open>The first component says whether the request that starts a turn was sent at all.\<close>

definition start_turn :: "app_server \<Rightarrow> app_thread \<Rightarrow> bool \<times> app_delivery" where
  "start_turn sv t =
     (if at_status t \<noteq> AsIdle then (False, AppHeld (''Codex App thread is '' @ status_name (at_status t)))
      else (True, case as_start sv of Inl e \<Rightarrow> caught e | Inr turnId \<Rightarrow> AppDelivered False turnId))"

definition resume_turn :: "app_server \<Rightarrow> bool \<times> app_delivery" where
  "resume_turn sv = (case as_resume sv of
      Inl e \<Rightarrow> (False, caught e)
    | Inr _ \<Rightarrow> (case as_reread sv of
        Inl e \<Rightarrow> (False, caught e)
      | Inr t \<Rightarrow> (case appThreadHoldReason t of
          Some reason \<Rightarrow> (False, AppHeld reason)
        | None \<Rightarrow> if at_status t \<noteq> AsIdle
            then (False, AppHeld (''Codex App thread resumed into '' @ status_name (at_status t)))
            else start_turn sv t)))"

definition deliverCodexAppMessage :: "string \<Rightarrow> app_server \<Rightarrow> chat_message \<Rightarrow> bool \<times> app_delivery" where
  "deliverCodexAppMessage machine sv msg = (case m_to msg of
      ToCodexApp p \<Rightarrow>
        (if ap_machine p \<noteq> machine then (False, AppHeld ''Codex App recipient belongs to another machine'')
         else case as_persisted sv of
             Inl e \<Rightarrow> (False, AppThrew e)
           | Inr True \<Rightarrow> (False, AppDelivered True None)
           | Inr False \<Rightarrow> (case as_connect sv of
               Inl e \<Rightarrow> (False, AppThrew e)
             | Inr _ \<Rightarrow> (case as_read sv of
                 Inl e \<Rightarrow> (False, caught e)
               | Inr t \<Rightarrow> (case appThreadHoldReason t of
                   Some reason \<Rightarrow> (False, AppHeld reason)
                 | None \<Rightarrow> if at_status t = AsNotLoaded then resume_turn sv else start_turn sv t))))
    | _ \<Rightarrow> (False, AppHeld ''recipient is not a Codex App thread''))"

text \<open>A turn is started only in an idle thread that takes direct input, and only when the letter is not
  already in the thread's transcript; a delivery is a started turn or such a proof.\<close>

lemma caught_cases: "caught e = AppHeld e \<or> caught e = AppThrew e"
  by (simp add: caught_def)

lemma start_turn_sent:
  "start_turn sv t = (True, d) \<Longrightarrow> at_status t = AsIdle"
  by (simp add: start_turn_def split: if_splits)

lemma started_only_when_free:
  assumes "deliverCodexAppMessage machine sv msg = (True, d)"
  shows "as_persisted sv = Inr False \<and> (\<exists>p. m_to msg = ToCodexApp p \<and> ap_machine p = machine)
    \<and> (\<exists>t. (as_read sv = Inr t \<or> as_reread sv = Inr t) \<and> at_status t = AsIdle \<and> at_acceptsInput t = Some True)"
  using assms
  by (auto simp: deliverCodexAppMessage_def resume_turn_def appThreadHoldReason_def dest!: start_turn_sent
      split: target.splits sum.splits bool.splits option.splits app_status.splits if_splits)

lemma not_delivered_caught [simp]: "caught e \<noteq> AppDelivered dup turnId"
  by (simp add: caught_def)

lemma start_turn_delivered: "start_turn sv t = (b, AppDelivered dup turnId) \<Longrightarrow> b"
  by (auto simp: start_turn_def split: if_splits sum.splits)

lemma delivered_or_persisted:
  assumes "deliverCodexAppMessage machine sv msg = (sent, AppDelivered dup turnId)"
  shows "sent \<or> as_persisted sv = Inr True"
  using assms
  by (auto simp: deliverCodexAppMessage_def resume_turn_def dest!: start_turn_delivered
      split: target.splits sum.splits bool.splits option.splits if_splits)

subsection \<open>The App half of a pass\<close>

text \<open>A line is logged when the reason for a hold changes.\<close>

definition holdChanged :: "(string \<rightharpoonup> string) \<Rightarrow> string \<Rightarrow> string \<Rightarrow> bool \<times> (string \<rightharpoonup> string)" where
  "holdChanged seen key reason = (if seen key = Some reason then (False, seen) else (True, seen(key \<mapsto> reason)))"

record app_state =
  aa_cursors :: cursors
  aa_changed :: bool
  aa_deliveries :: nat
  aa_lastHold :: "string \<rightharpoonup> string"
  aa_effects :: "dv_effect list"
  aa_lines :: "(string \<times> string) list"

definition noteAppHold :: "string \<Rightarrow> string \<Rightarrow> app_state \<Rightarrow> app_state" where
  "noteAppHold key reason a = (let (fresh, seen) = holdChanged (aa_lastHold a) key reason
     in a\<lparr>aa_lastHold := seen, aa_lines := (if fresh then aa_lines a @ [(key, reason)] else aa_lines a)\<rparr>)"

record app_env =
  av_server :: app_server
  av_ackedNow :: "string set"
  av_saved :: "string option"

text \<open>\<open>av_saved\<close> is the error a save of the cursors throws, if it does.\<close>

definition barrier_text :: "string \<Rightarrow> string" where
  "barrier_text e = ''unavailable '' @ em_dash @ '' barrier retained: '' @ e"

definition started :: "bool \<Rightarrow> string \<Rightarrow> dv_effect list" where
  "started sent i = (if sent then [DStart i] else [])"

definition finish_app :: "pass_facts \<Rightarrow> app_env \<Rightarrow> string \<Rightarrow> pickup \<Rightarrow> app_state \<Rightarrow> app_state" where
  "finish_app c e key pk a0 = (case find_letter (pf_ledger c) (pk_message pk) of
      None \<Rightarrow> a0
    | Some msg \<Rightarrow>
        (let (sent, outcome) = deliverCodexAppMessage (pf_machine c) (av_server e) msg;
             a = a0\<lparr>aa_effects := aa_effects a0 @ started sent (m_id msg)\<rparr>
         in case outcome of
             AppHeld reason \<Rightarrow> noteAppHold key reason a
           | AppThrew err \<Rightarrow> noteAppHold key (barrier_text err) a
           | AppDelivered dup turnId \<Rightarrow>
               (let cs = snd (finishPickup [] (aa_cursors a) key);
                    a1 = a\<lparr>aa_lastHold := (aa_lastHold a)(key := None), aa_cursors := cs,
                      aa_effects := aa_effects a @ (if pk_conditional pk then [DAck (pk_message pk)] else [])\<rparr>
                in case av_saved e of
                    Some err \<Rightarrow> noteAppHold key (barrier_text err) a1
                  | None \<Rightarrow> a1\<lparr>aa_effects := aa_effects a1 @ [DSave cs], aa_deliveries := aa_deliveries a + 1\<rparr>)))"

definition first_app :: "pass_facts \<Rightarrow> app_env \<Rightarrow> string \<Rightarrow> target \<Rightarrow> app_state \<Rightarrow> app_state" where
  "first_app c e key recipient a0 =
     (let (pick, moved, cs) = nextDelivery (pf_ledger c) key (aa_cursors a0) (pf_acked c) (int (pf_now c));
          a = a0\<lparr>aa_cursors := cs, aa_changed := aa_changed a0 \<or> moved\<rparr>
      in case pick of
          None \<Rightarrow> a
        | Some (msg, idx) \<Rightarrow>
            (if recentInboundCount recipient (pf_ledger c) (int (pf_now c)) > RATE_MAX_INBOUND then a
             else if isConditional msg \<and> m_id msg \<in> av_ackedNow e then a
             else (let armed = armPickup cs key msg idx (Instant (int (pf_now c))) None None
                   in case av_saved e of
                       Some err \<Rightarrow> a\<lparr>aa_cursors := armed\<rparr>
                     | None \<Rightarrow>
                         (let (sent, outcome) = deliverCodexAppMessage (pf_machine c)
                                ((av_server e)\<lparr>as_persisted := Inr False\<rparr>) msg;
                              a1 = a\<lparr>aa_cursors := armed,
                                aa_effects := aa_effects a @ [DSave armed] @ started sent (m_id msg)\<rparr>
                          in case outcome of
                              AppDelivered dup turnId \<Rightarrow>
                                a1\<lparr>aa_effects := aa_effects a1 @ (if isConditional msg then [DAck (m_id msg)] else []),
                                   aa_cursors := armed\<lparr>c_pickups := (c_pickups armed)(key := None)\<rparr>,
                                   aa_changed := True, aa_deliveries := aa_deliveries a1 + 1\<rparr>
                            | _ \<Rightarrow> a1))))"

text \<open>The recipients: a \<open>Map\<close> keyed by target, in the order of first appearance, with the latest value.\<close>

definition app_recipients :: "string \<Rightarrow> ledger_slot list \<Rightarrow> (string \<times> target) list" where
  "app_recipients machine ledger = fold (\<lambda>slot rs. case slot of
      Some msg \<Rightarrow> (case m_to msg of
          ToCodexApp p \<Rightarrow> if ap_machine p = machine then AList.update (chatTargetKey (m_to msg)) (m_to msg) rs else rs
        | _ \<Rightarrow> rs)
    | None \<Rightarrow> rs) ledger []"

definition app_turn :: "pass_facts \<Rightarrow> app_env \<Rightarrow> string \<Rightarrow> target \<Rightarrow> app_state \<Rightarrow> app_state" where
  "app_turn c e key recipient a = (case c_pickups (aa_cursors a) key of
      Some pk \<Rightarrow> finish_app c e key pk a | None \<Rightarrow> first_app c e key recipient a)"

fun app_loop :: "pass_facts \<Rightarrow> (string \<Rightarrow> app_env) \<Rightarrow> nat \<Rightarrow> (string \<times> target) list \<Rightarrow> app_state \<Rightarrow> app_state" where
  "app_loop c env budget [] a = a"
| "app_loop c env budget ((key, recipient) # rest) a =
     (if aa_deliveries a \<ge> budget then a
      else app_loop c env budget rest
        (app_turn c (env key) key recipient a))"

definition deliverAppPending ::
  "pass_facts \<Rightarrow> (string \<Rightarrow> app_env) \<Rightarrow> (string \<rightharpoonup> string) \<Rightarrow> cursors \<Rightarrow> nat \<Rightarrow> app_state" where
  "deliverAppPending c env lastHold cs budget =
     app_loop c env budget (app_recipients (pf_machine c) (pf_ledger c))
       \<lparr>aa_cursors = cs, aa_changed = False, aa_deliveries = 0, aa_lastHold = lastHold, aa_effects = [], aa_lines = []\<rparr>"

subsection \<open>The whole pass\<close>

record pass_state =
  ps_cursors :: cursors
  ps_changed :: bool
  ps_deliveries :: nat
  ps_effects :: "(string \<times> dv_effect) list"

text \<open>The session loop; \<open>None\<close> in the result when a session's turn threw, which ends the pass.\<close>

fun session_loop ::
  "pass_facts \<Rightarrow> (session \<Rightarrow> pane_env) \<Rightarrow> session list \<Rightarrow> pass_state \<Rightarrow> pass_state \<times> bool" where
  "session_loop c env [] p = (p, True)"
| "session_loop c env (s # rest) p =
     (if ps_deliveries p \<ge> MAX_PER_PASS then (p, True)
      else case deliver_session c s (env s) (ps_cursors p) (ps_changed p) of
          (es, None) \<Rightarrow> (p\<lparr>ps_effects := ps_effects p @ map (Pair (s_name s)) es\<rparr>, False)
        | (es, Some (cs, changed, n)) \<Rightarrow>
            session_loop c env rest \<lparr>ps_cursors = cs, ps_changed = changed, ps_deliveries = ps_deliveries p + n,
              ps_effects = ps_effects p @ map (Pair (s_name s)) es\<rparr>)"

definition deliverPending ::
  "pass_facts \<Rightarrow> (session \<Rightarrow> pane_env) \<Rightarrow> (string \<Rightarrow> app_env) \<Rightarrow> (string \<rightharpoonup> string) \<Rightarrow> session list \<Rightarrow> cursors
     \<Rightarrow> pass_state" where
  "deliverPending c env appEnv lastHold sessions cs =
     (if pf_ledger c = [] then \<lparr>ps_cursors = cs, ps_changed = False, ps_deliveries = 0, ps_effects = []\<rparr>
      else case session_loop c env sessions \<lparr>ps_cursors = cs, ps_changed = False, ps_deliveries = 0, ps_effects = []\<rparr> of
          (p, False) \<Rightarrow> p
        | (p, True) \<Rightarrow>
            (let a = deliverAppPending c appEnv lastHold (ps_cursors p) (MAX_PER_PASS - ps_deliveries p);
                 changed = (ps_changed p \<or> aa_changed a)
             in \<lparr>ps_cursors = aa_cursors a, ps_changed = changed, ps_deliveries = ps_deliveries p + aa_deliveries a,
                  ps_effects = ps_effects p @ map (Pair '''') (aa_effects a @ (if changed then [DSave (aa_cursors a)] else []))\<rparr>))"

subsection \<open>The bound of a pass\<close>

lemma pane_track_count: "snd (pane_track c s e cs changed) = Some (cs', changed', n) \<Longrightarrow> n \<le> 1"
  by (auto simp: pane_track_def type_letter_def Let_def split: prod.splits option.splits if_splits pane_outcome.splits)

lemma native_count: "deliverNativeRuntimePending r s cs = (es, Inr n) \<Longrightarrow> n \<le> 1"
  by (auto simp: deliverNativeRuntimePending_def deliverLocked_def repair_pickup_def await_pickup_def settle_pickup_def
      bind_letter_def Let_def split: prod.splits option.splits sum.splits if_splits)

lemma deliver_session_count:
  assumes "deliver_session c s e cs changed = (es, Some (cs', changed', n))"
  shows "n \<le> 1"
proof -
  have track: "n \<le> 1" if "snd (pane_track c s e cs0 ch) = Some (cs', changed', n)" for cs0 ch
    using that by (rule pane_track_count)
  have retry: "n \<le> 1" if "snd (retry_pickup c e cs changed pk) = Some (cs', changed', n)" for pk
    using that by (cases rule: retry_pickup_cases [of c e cs changed pk]) auto
  have native: "n \<le> 1" if "snd (native_session_pass c s r cs changed) = Some (cs', changed', n)" for r
    using that by (auto simp: native_session_pass_def Let_def split: prod.splits sum.splits dest: native_count)
  have "snd (deliver_session c s e cs changed) = Some (cs', changed', n)" using assms by simp
  then show ?thesis
    using track retry native
    by (auto simp: deliver_session_def Let_def case_prod_beta split: if_splits option.splits)
qed

lemma session_loop_bound:
  "ps_deliveries p \<le> MAX_PER_PASS \<Longrightarrow> ps_deliveries (fst (session_loop c env ss p)) \<le> MAX_PER_PASS"
proof (induction ss arbitrary: p)
  case (Cons s ss)
  show ?case
  proof (cases "deliver_session c s (env s) (ps_cursors p) (ps_changed p)")
    case (Pair es r)
    with Cons deliver_session_count [of c s "env s" "ps_cursors p" "ps_changed p" es] show ?thesis
      by (cases r) (auto intro!: Cons.IH)
  qed
qed simp

lemma noteAppHold_deliveries [simp]:
  "aa_deliveries (noteAppHold key reason a) = aa_deliveries a" "aa_effects (noteAppHold key reason a) = aa_effects a"
  "aa_cursors (noteAppHold key reason a) = aa_cursors a" "aa_changed (noteAppHold key reason a) = aa_changed a"
  by (simp_all add: noteAppHold_def Let_def split: prod.split)

lemma finish_app_count: "aa_deliveries (finish_app c e key pk a) \<le> aa_deliveries a + 1"
  by (auto simp: finish_app_def Let_def split: option.split app_delivery.split prod.split)

lemma first_app_count: "aa_deliveries (first_app c e key recipient a) \<le> aa_deliveries a + 1"
  by (auto simp: first_app_def Let_def split: prod.split option.split app_delivery.split)

lemma app_turn_count: "aa_deliveries (app_turn c e key recipient a) \<le> aa_deliveries a + 1"
  using finish_app_count first_app_count by (simp add: app_turn_def split: option.split)

lemma app_loop_bound: "aa_deliveries a \<le> budget \<Longrightarrow> aa_deliveries (app_loop c env budget rs a) \<le> budget"
proof (induction rs arbitrary: a)
  case (Cons r rs)
  obtain key recipient where r: "r = (key, recipient)" by force
  show ?case using Cons r app_turn_count [of c "env key" key recipient a] by auto
qed simp

lemma pass_bound: "ps_deliveries (deliverPending c env appEnv lastHold sessions cs) \<le> MAX_PER_PASS"
proof -
  let ?start = "\<lparr>ps_cursors = cs, ps_changed = False, ps_deliveries = 0, ps_effects = []\<rparr>"
  obtain p ok where l: "session_loop c env sessions ?start = (p, ok)" by force
  then have p: "ps_deliveries p \<le> MAX_PER_PASS"
    using session_loop_bound [of ?start c env sessions] by simp
  have "aa_deliveries (deliverAppPending c appEnv lastHold (ps_cursors p) (MAX_PER_PASS - ps_deliveries p))
      \<le> MAX_PER_PASS - ps_deliveries p"
    unfolding deliverAppPending_def by (rule app_loop_bound) simp
  with p l show ?thesis
    by (cases ok) (auto simp: deliverPending_def Let_def)
qed

end
