(* ===== verification/CodexOwned.thy ===== *)
theory CodexOwned
  imports DeliverPass Pickup NativeDelivery
begin

text \<open>
  The owner of a Codex process (\<open>src/agent/codex/owned\<close>: \<open>input.ts\<close>, \<open>receipt.ts\<close>, \<open>backlog.ts\<close>): it starts the turn
  the daemon queued, settles a start whose answer was lost, stops a turn, and holds what the provider says before the
  thread is admitted.  The provider and the pane are arguments (\<open>codex_facts\<close>); one call is the list of its effects.
\<close>

subsection \<open>The provider's record\<close>

record codex_turn =
  ct_id :: string
  ct_clients :: "string list"

definition findOwnedCodexReceipt :: "codex_turn list \<Rightarrow> string \<Rightarrow> codex_turn option" where
  "findOwnedCodexReceipt turns message = List.find (\<lambda>t. message \<in> set (ct_clients t)) (take 32 (rev turns))"

text \<open>Whether the provider took the request to start a turn, and whether its answer came back.\<close>

datatype start_result = StartAnswered string | StartLost string string | StartRefused string

record codex_facts =
  cf_admitted :: bool
  cf_asleep :: bool
  cf_listing :: "string option"
  cf_mutation :: bool
  cf_connected :: bool
  cf_snapshot :: rt_snapshot
  cf_typing :: "string + bool"
  cf_gate :: "string + bool"
  cf_pane :: "string + string option"
  cf_thread :: "string + app_thread"
  cf_sessions :: "session list"
  cf_policy :: bool
  cf_images :: "string option"
  cf_now :: string
  cf_start :: start_result

datatype codex_effect = CxWrite runtime_input | CxHold string | CxClearHold | CxGate bool | CxStart string string

record codex_world =
  cw_input :: "runtime_input option"
  cw_turns :: "codex_turn list"
  cw_enabled :: bool
  cw_hold :: "string option"
  cw_queued :: "string list"

fun codex_apply :: "codex_effect \<Rightarrow> codex_world \<Rightarrow> codex_world" where
  "codex_apply (CxWrite i) w = w\<lparr>cw_input := Some i\<rparr>"
| "codex_apply (CxHold r) w = w\<lparr>cw_hold := Some r\<rparr>"
| "codex_apply CxClearHold w = w\<lparr>cw_hold := None\<rparr>"
| "codex_apply (CxGate b) w = w\<lparr>cw_enabled := b\<rparr>"
| "codex_apply (CxStart i t) w = w\<lparr>cw_turns := cw_turns w @ [\<lparr>ct_id = t, ct_clients = [i]\<rparr>]\<rparr>"

type_synonym codex_call = "codex_effect list \<times> (string + bool)"

subsection \<open>Starting the queued turn\<close>

definition settleDispatch :: "codex_facts \<Rightarrow> codex_turn list \<Rightarrow> runtime_input \<Rightarrow> codex_call" where
  "settleDispatch f turns input = (case cf_listing f of
      Some e \<Rightarrow> ([], Inl e)
    | None \<Rightarrow> ([CxWrite (case findOwnedCodexReceipt turns (ri_messageId input) of
          None \<Rightarrow> input\<lparr>ri_phase := PhUncertain\<rparr>
        | Some t \<Rightarrow> input\<lparr>ri_phase := PhAccepted, ri_turnId := Some (ct_id t)\<rparr>)], Inr False))"

definition settle_uncertain :: "codex_facts \<Rightarrow> codex_turn list \<Rightarrow> runtime_input \<Rightarrow> codex_call" where
  "settle_uncertain f turns input = (case cf_listing f of
      Some e \<Rightarrow> ([], Inl e)
    | None \<Rightarrow> (case findOwnedCodexReceipt turns (ri_messageId input) of
          None \<Rightarrow> ([], Inr False)
        | Some t \<Rightarrow> ([CxWrite (input\<lparr>ri_phase := PhAccepted, ri_turnId := Some (ct_id t)\<rparr>)], Inr False)))"

definition same_registration :: "session \<Rightarrow> session \<Rightarrow> bool" where
  "same_registration s r = (s_uuid r = s_uuid s \<and> s_agent r = s_agent s \<and> sb_runtime (s_body r) = sb_runtime (s_body s)
     \<and> s_generation r = s_generation s)"

definition submit_turn :: "codex_facts \<Rightarrow> runtime_input \<Rightarrow> codex_call" where
  "submit_turn f input =
     (let dispatching = CxWrite (input\<lparr>ri_phase := PhDispatching, ri_dispatchedAt := Some (cf_now f)\<rparr>);
          start = CxStart (ri_messageId input)
      in case cf_start f of
           StartRefused e \<Rightarrow> ([dispatching], Inl e)
         | StartLost t e \<Rightarrow> ([dispatching, start t], Inl e)
         | StartAnswered t \<Rightarrow> ([dispatching, start t, CxWrite (input\<lparr>ri_phase := PhAccepted, ri_turnId := Some t\<rparr>), CxClearHold], Inr True))"

text \<open>Over an empty composer: the thread must be idle and the session still the one that was asked for.\<close>

definition ready_turn :: "codex_facts \<Rightarrow> session \<Rightarrow> runtime_input \<Rightarrow> codex_call" where
  "ready_turn f s input = (case cf_thread f of
      Inl e \<Rightarrow> ([], Inl e)
    | Inr thread \<Rightarrow>
        if appThreadHoldReason thread \<noteq> None \<or> at_status thread \<noteq> AsIdle
        then ([CxHold (nullish (appThreadHoldReason thread) ''native runtime is not idle'')], Inr False)
        else if (case List.find (\<lambda>r. s_name r = s_name s) (cf_sessions f) of None \<Rightarrow> True | Some r \<Rightarrow> \<not> same_registration s r)
        then ([CxHold ''managed identity changed before native submission''], Inr False)
        else if \<not> cf_policy f then ([CxHold ''managed collaboration policy is unavailable''], Inr False)
        else (case (ri_images input, cf_images f) of
            (Some _, Some e) \<Rightarrow> ([], Inl e)
          | _ \<Rightarrow> submit_turn f input))"

text \<open>The pane of a session without delegation: a person may be typing there, so its input is off for the moment of
  submission and on again afterwards, whatever happened.\<close>

definition gated_turn :: "codex_facts \<Rightarrow> session \<Rightarrow> runtime_input \<Rightarrow> codex_call" where
  "gated_turn f s input = (case cf_gate f of
      Inl e \<Rightarrow> ([], Inl e)
    | Inr False \<Rightarrow> ([CxHold ''native client input could not be gated''], Inr False)
    | Inr True \<Rightarrow>
        (case (case cf_pane f of Inl e \<Rightarrow> ([], Inl e) | Inr (Some reason) \<Rightarrow> ([CxHold reason], Inr False) | Inr None \<Rightarrow> ready_turn f s input) of
          (es, r) \<Rightarrow> (CxGate False # es @ [CxGate True], r)))"

definition codexLocked :: "codex_facts \<Rightarrow> session \<Rightarrow> codex_turn list \<Rightarrow> runtime_input option \<Rightarrow> codex_call" where
  "codexLocked f s turns slot = (case slot of
      None \<Rightarrow> ([], Inr False)
    | Some input \<Rightarrow> (case ri_phase input of
          PhAccepted \<Rightarrow> ([], Inr False)
        | PhDispatching \<Rightarrow> settleDispatch f turns input
        | PhUncertain \<Rightarrow> settle_uncertain f turns input
        | PhQueued \<Rightarrow>
            if cf_mutation f then ([], Inr False)
            else if \<not> cf_connected f \<or> sn_state (cf_snapshot f) \<noteq> NsIdle
              \<or> (case sn_turn (cf_snapshot f) of None \<Rightarrow> False | Some t \<Rightarrow> nt_status t = TsInProgress) then ([], Inr False)
            else if sb_delegation (s_body s) \<noteq> None then ready_turn f s input
            else (case cf_typing f of
                Inl e \<Rightarrow> ([], Inl e)
              | Inr True \<Rightarrow> ([CxHold ''a human typed in that pane a moment ago''], Inr False)
              | Inr False \<Rightarrow> gated_turn f s input)))"

definition applyOwnedCodexInput :: "codex_facts \<Rightarrow> session \<Rightarrow> runtime_input option \<Rightarrow> codex_world \<Rightarrow> codex_call" where
  "applyOwnedCodexInput f s pending w =
     (if (case pending of None \<Rightarrow> True | Some i \<Rightarrow> ri_phase i = PhAccepted) then ([], Inr False)
      else if \<not> cf_admitted f \<or> cf_asleep f then ([], Inr False)
      else (case codexLocked f s (cw_turns w) (cw_input w) of
          (es, Inr b) \<Rightarrow> (es, Inr b)
        | (es, Inl e) \<Rightarrow> (es @ (if cw_input w = None then [] else [CxHold (nativeDeliveryHold e)]), Inl e)))"

subsection \<open>Stopping a turn\<close>

text \<open>\<open>later\<close> is the snapshot after the write that yields; the request to the provider may stay without answer.\<close>

datatype interrupt_effect = IxWrite interrupt | IxInterrupt string

definition interruptible :: "app_status \<Rightarrow> bool" where
  "interruptible st = (case st of
      AsActive flags \<Rightarrow> \<forall>flag\<in>set flags. flag \<in> {''waitingOnApproval'', ''waitingOnUserInput''}
    | _ \<Rightarrow> False)"

definition applyOwnedCodexInterrupt ::
  "rt_snapshot \<Rightarrow> string + app_thread \<Rightarrow> rt_snapshot \<Rightarrow> string option \<Rightarrow> interrupt option \<Rightarrow> interrupt_effect list \<times> string option" where
  "applyOwnedCodexInterrupt before thread later' failed command = (case command of
      None \<Rightarrow> ([], None)
    | Some c \<Rightarrow>
        (if in_phase c \<noteq> IpQueued then ([], None)
         else if \<not> isCancellableTurn before (in_generation c) (in_turnId c) then ([IxWrite (c\<lparr>in_phase := IpRejected\<rparr>)], None)
         else (case thread of
             Inl e \<Rightarrow> ([], Some e)
           | Inr t \<Rightarrow>
               if \<not> interruptible (at_status t) then ([IxWrite (c\<lparr>in_phase := IpRejected\<rparr>)], None)
               else if \<not> isCancellableTurn later' (in_generation c) (in_turnId c)
               then ([IxWrite (c\<lparr>in_phase := IpUncertain\<rparr>), IxWrite (c\<lparr>in_phase := IpRejected\<rparr>)], None)
               else (case failed of
                   Some e \<Rightarrow> ([IxWrite (c\<lparr>in_phase := IpUncertain\<rparr>), IxInterrupt (in_turnId c)], Some e)
                 | None \<Rightarrow> ([IxWrite (c\<lparr>in_phase := IpUncertain\<rparr>), IxInterrupt (in_turnId c), IxWrite (c\<lparr>in_phase := IpAccepted\<rparr>)], None)))))"

subsection \<open>Before the thread is admitted\<close>

record codex_event =
  ev_method :: string
  ev_bytes :: nat

record backlog =
  bl_events :: "codex_event list"
  bl_requests :: "nat list"
  bl_omitted :: nat
  bl_bytes :: nat

definition MAX_EVENTS :: nat where "MAX_EVENTS = 128"
definition MAX_REQUESTS :: nat where "MAX_REQUESTS = 16"
definition MAX_EVENT_BYTES :: nat where "MAX_EVENT_BYTES = 448 * 1024"
definition MAX_BACKLOG_BYTES :: nat where "MAX_BACKLOG_BYTES = 512 * 1024"

definition isDelta :: "string \<Rightarrow> bool" where
  "isDelta m = (suffix ''/delta'' m \<or> suffix ''/summaryTextDelta'' m)"

definition new_backlog :: backlog where "new_backlog = \<lparr>bl_events = [], bl_requests = [], bl_omitted = 0, bl_bytes = 0\<rparr>"

definition backlog_full :: "nat \<Rightarrow> backlog \<Rightarrow> bool" where
  "backlog_full sz b = (length (bl_events b) \<ge> MAX_EVENTS \<or> bl_bytes b + sz > MAX_EVENT_BYTES)"

function shed :: "nat \<Rightarrow> backlog \<Rightarrow> backlog" where
  "shed sz b = (if \<not> backlog_full sz b then b else (case find_index (\<lambda>x. isDelta (ev_method x)) (bl_events b) of
      None \<Rightarrow> b
    | Some i \<Rightarrow> shed sz (b\<lparr>bl_events := remove_nth i (bl_events b), bl_bytes := bl_bytes b - ev_bytes (bl_events b ! i),
        bl_omitted := bl_omitted b + 1\<rparr>)))"
  by pat_completeness auto

termination
  by (relation "measure (\<lambda>(_, b). length (bl_events b))") (auto simp: length_remove_nth dest!: find_index_Some)

declare shed.simps [simp del]

text \<open>The second component is whether admission fails.\<close>

definition hold_event :: "codex_event \<Rightarrow> backlog \<Rightarrow> backlog \<times> bool" where
  "hold_event x b =
     (let b' = shed (ev_bytes x) b in
      if \<not> backlog_full (ev_bytes x) b' then (b'\<lparr>bl_events := bl_events b' @ [x], bl_bytes := bl_bytes b' + ev_bytes x\<rparr>, False)
      else if isDelta (ev_method x) then (b'\<lparr>bl_omitted := bl_omitted b' + 1\<rparr>, False)
      else (b', True))"

definition hold_request :: "nat \<Rightarrow> backlog \<Rightarrow> backlog \<times> bool" where
  "hold_request sz b =
     (let b' = b\<lparr>bl_bytes := bl_bytes b + sz\<rparr> in
      if length (bl_requests b') \<ge> MAX_REQUESTS \<or> bl_bytes b' > MAX_BACKLOG_BYTES then (b', True)
      else (b'\<lparr>bl_requests := bl_requests b' @ [sz]\<rparr>, False))"

end
