(* ===== verification/CodexInv.thy ===== *)
theory CodexInv
  imports CodexOwned
begin

text \<open>
  The owner of a Codex process between the daemon that queues letters and a provider that starts turns of its own:
  \<open>codex_step\<close> cuts a call after any of its effects, and \<open>codex_inv\<close> is what every such run keeps.  The last part bounds
  what is held before the thread is admitted.
\<close>

subsection \<open>Runs\<close>

definition carrying :: "string \<Rightarrow> codex_turn list \<Rightarrow> codex_turn list" where
  "carrying m ts = filter (\<lambda>t. m \<in> set (ct_clients t)) ts"

lemma carrying_simps [simp]:
  "carrying m [] = []" "carrying m (ts @ us) = carrying m ts @ carrying m us"
  "carrying m (t # ts) = (if m \<in> set (ct_clients t) then t # carrying m ts else carrying m ts)"
  by (simp_all add: carrying_def)

inductive codex_step :: "codex_world \<Rightarrow> codex_world \<Rightarrow> bool" where
  runs: "codex_step w (fold codex_apply (take k (fst (applyOwnedCodexInput f s pending w))) w)"
| others: "set cs \<inter> set (cw_queued w) = {} \<Longrightarrow>
    codex_step w (w\<lparr>cw_turns := cw_turns w @ [\<lparr>ct_id = t, ct_clients = cs\<rparr>]\<rparr>)"
| queued: "ri_phase i = PhQueued \<Longrightarrow> ri_messageId i \<notin> set (cw_queued w) \<Longrightarrow> carrying (ri_messageId i) (cw_turns w) = [] \<Longrightarrow>
    (case cw_input w of None \<Rightarrow> True | Some prev \<Rightarrow> ri_phase prev = PhAccepted) \<Longrightarrow>
    codex_step w (w\<lparr>cw_input := Some i, cw_queued := cw_queued w @ [ri_messageId i]\<rparr>)"
| pane: "codex_step w (w\<lparr>cw_enabled := b, cw_hold := h\<rparr>)"

inductive codex_reach :: "codex_world \<Rightarrow> bool" where
  start: "codex_reach \<lparr>cw_input = None, cw_turns = ts, cw_enabled = True, cw_hold = None, cw_queued = []\<rparr>"
| step: "codex_reach w \<Longrightarrow> codex_step w w' \<Longrightarrow> codex_reach w'"

definition input_ok :: "codex_world \<Rightarrow> runtime_input \<Rightarrow> bool" where
  "input_ok w i = (ri_messageId i \<in> set (cw_queued w)
     \<and> (ri_phase i = PhQueued \<longrightarrow> carrying (ri_messageId i) (cw_turns w) = [])
     \<and> (ri_phase i = PhAccepted \<longrightarrow> (\<exists>t\<in>set (cw_turns w). ri_turnId i = Some (ct_id t) \<and> ri_messageId i \<in> set (ct_clients t))))"

definition codex_inv :: "codex_world \<Rightarrow> bool" where
  "codex_inv w = ((\<forall>m\<in>set (cw_queued w). length (carrying m (cw_turns w)) \<le> 1) \<and> (\<forall>i. cw_input w = Some i \<longrightarrow> input_ok w i))"

lemma codex_inv_frame [simp]:
  "codex_inv (w\<lparr>cw_hold := h\<rparr>) = codex_inv w" "codex_inv (w\<lparr>cw_enabled := b\<rparr>) = codex_inv w"
  by (simp_all add: codex_inv_def input_ok_def)

lemma codex_inv_write:
  assumes "codex_inv w" "input_ok w i"
  shows "codex_inv (w\<lparr>cw_input := Some i\<rparr>)"
  using assms by (simp add: codex_inv_def input_ok_def)

subsection \<open>Every prefix of a call\<close>

fun codex_safe :: "codex_effect list \<Rightarrow> codex_world \<Rightarrow> bool" where
  "codex_safe [] w = codex_inv w"
| "codex_safe (e # es) w = (codex_inv w \<and> codex_safe es (codex_apply e w))"

lemma codex_safe_inv: "codex_safe es w \<Longrightarrow> codex_inv w"
  by (cases es) simp_all

lemma codex_safe_prefix: "codex_safe es w \<Longrightarrow> codex_inv (fold codex_apply (take k es) w)"
  by (induction es arbitrary: w k) (auto simp: take_Cons' dest: codex_safe_inv)

lemma codex_safe_append: "codex_safe (es @ fs) w \<longleftrightarrow> codex_safe es w \<and> codex_safe fs (fold codex_apply es w)"
  by (induction es arbitrary: w) (auto dest: codex_safe_inv)

lemma codex_safe_end: "codex_safe es w \<Longrightarrow> codex_inv (fold codex_apply es w)"
  using codex_safe_prefix [of es w "length es"] by simp

lemma receipt_found:
  assumes "findOwnedCodexReceipt turns m = Some t"
  shows "t \<in> set turns \<and> m \<in> set (ct_clients t)"
  using find_SomeD [OF assms [unfolded findOwnedCodexReceipt_def]] by (auto dest: in_set_takeD)

lemma settled_ok:
  assumes "codex_inv w" "cw_input w = Some i" "findOwnedCodexReceipt (cw_turns w) (ri_messageId i) = Some t"
  shows "input_ok w (i\<lparr>ri_phase := PhAccepted, ri_turnId := Some (ct_id t)\<rparr>)"
  using assms receipt_found [OF assms(3)] by (auto simp: codex_inv_def input_ok_def)

lemma settle_safe:
  assumes "codex_inv w" "cw_input w = Some i" "ri_phase i \<noteq> PhQueued"
  shows "codex_safe (fst (settleDispatch f (cw_turns w) i)) w" "codex_safe (fst (settle_uncertain f (cw_turns w) i)) w"
proof -
  have "input_ok w (i\<lparr>ri_phase := PhUncertain\<rparr>)" using assms by (simp add: codex_inv_def input_ok_def)
  then show "codex_safe (fst (settleDispatch f (cw_turns w) i)) w" "codex_safe (fst (settle_uncertain f (cw_turns w) i)) w"
    using assms settled_ok [OF assms(1,2)]
    by (auto simp: settleDispatch_def settle_uncertain_def codex_inv_write split: option.split)
qed

lemma submit_safe:
  assumes "codex_inv w" "cw_input w = Some i" "ri_phase i = PhQueued"
  shows "codex_safe (fst (submit_turn f i)) w"
proof -
  let ?m = "ri_messageId i" and ?d = "i\<lparr>ri_phase := PhDispatching, ri_dispatchedAt := Some (cf_now f)\<rparr>"
  let ?w1 = "w\<lparr>cw_input := Some ?d\<rparr>"
  let ?w2 = "\<lambda>t. ?w1\<lparr>cw_turns := cw_turns w @ [\<lparr>ct_id = t, ct_clients = [?m]\<rparr>]\<rparr>"
  let ?w3 = "\<lambda>t. (?w2 t)\<lparr>cw_input := Some (i\<lparr>ri_phase := PhAccepted, ri_turnId := Some t\<rparr>)\<rparr>"
  have ok: "input_ok w i" using assms(1,2) by (simp add: codex_inv_def)
  have 1: "codex_inv ?w1" by (rule codex_inv_write [OF assms(1)]) (use ok assms(3) in \<open>simp add: input_ok_def\<close>)
  have once: "\<forall>m\<in>set (cw_queued w). length (carrying m (cw_turns (?w2 t))) \<le> 1" for t
    using assms(1) ok assms(3) by (auto simp: codex_inv_def input_ok_def)
  have 2: "codex_inv (?w2 t)" for t
    using once [of t] ok by (simp add: codex_inv_def input_ok_def)
  have 3: "codex_inv (?w3 t)" for t
    by (rule codex_inv_write [OF 2]) (use ok in \<open>simp add: input_ok_def\<close>)
  show ?thesis using assms(1) 1 2 3 by (cases "cf_start f") (simp_all add: submit_turn_def Let_def)
qed

lemma ready_safe:
  assumes "codex_inv w" "cw_input w = Some i" "ri_phase i = PhQueued"
  shows "codex_safe (fst (ready_turn f s i)) w"
  using assms submit_safe [OF assms, of f] by (simp add: ready_turn_def split: sum.split option.split)

lemma gated_safe:
  assumes "codex_inv w" "cw_input w = Some i" "ri_phase i = PhQueued"
  shows "codex_safe (fst (gated_turn f s i)) w"
proof -
  let ?w = "w\<lparr>cw_enabled := False\<rparr>"
  have r: "codex_safe (fst (ready_turn f s i)) ?w" using assms by (intro ready_safe) simp_all
  then have "codex_safe (fst (ready_turn f s i) @ [CxGate True]) ?w" using codex_safe_end [OF r] by (simp add: codex_safe_append)
  with assms(1) show ?thesis
    by (simp add: gated_turn_def split_beta split: sum.split option.split bool.split)
qed

lemma locked_safe:
  assumes "codex_inv w"
  shows "codex_safe (fst (codexLocked f s (cw_turns w) (cw_input w))) w"
proof (cases "cw_input w")
  case None
  with assms show ?thesis by (simp add: codexLocked_def)
next
  case (Some i)
  show ?thesis
    using assms Some settle_safe [OF assms Some, of f] ready_safe [OF assms Some, of f s] gated_safe [OF assms Some, of f s]
    by (cases "ri_phase i") (simp_all add: codexLocked_def split: sum.split bool.split)
qed

lemma call_safe:
  assumes "codex_inv w"
  shows "codex_safe (fst (applyOwnedCodexInput f s pending w)) w"
  using assms locked_safe [OF assms, of f s] codex_safe_end [OF locked_safe [OF assms, of f s]]
  by (cases "cw_input w") (simp_all add: applyOwnedCodexInput_def codex_safe_append split_beta split: sum.split option.split)

lemma codex_step_inv: "codex_step w w' \<Longrightarrow> codex_inv w \<Longrightarrow> codex_inv w'"
proof (induction rule: codex_step.induct)
  case (runs w k f s pending)
  then show ?case using codex_safe_prefix [OF call_safe] by blast
next
  case (others cs w t)
  then have "carrying m [\<lparr>ct_id = t, ct_clients = cs\<rparr>] = []" if "m \<in> set (cw_queued w)" for m
    using that by auto
  with others show ?case by (auto simp: codex_inv_def input_ok_def)
next
  case (queued i w)
  then show ?case by (auto simp: codex_inv_def input_ok_def)
next
  case (pane w b h)
  then show ?case by simp
qed

lemma codex_reach_inv: "codex_reach w \<Longrightarrow> codex_inv w"
proof (induction rule: codex_reach.induct)
  case (start ts)
  show ?case by (simp add: codex_inv_def)
next
  case (step w w')
  from step.hyps(2) step.IH show ?case by (rule codex_step_inv)
qed

subsection \<open>The input of the pane\<close>

definition starts_turn :: "codex_effect \<Rightarrow> bool" where
  "starts_turn e = (case e of CxStart _ _ \<Rightarrow> True | _ \<Rightarrow> False)"

definition gates :: "codex_effect \<Rightarrow> bool" where
  "gates e = (case e of CxGate _ \<Rightarrow> True | _ \<Rightarrow> False)"

lemma ready_ungated: "\<not> (\<exists>e\<in>set (fst (ready_turn f s i)). gates e)"
  by (auto simp: ready_turn_def submit_turn_def gates_def Let_def split: sum.splits option.splits start_result.splits)

lemma ungated_keeps: "\<forall>e\<in>set es. \<not> gates e \<Longrightarrow> cw_enabled (fold codex_apply es w) = cw_enabled w"
proof (induction es arbitrary: w)
  case (Cons e es)
  then show ?case by (cases e) (simp_all add: gates_def)
qed simp

subsection \<open>What is held before admission\<close>

definition backlog_ok :: "codex_event list \<Rightarrow> backlog \<Rightarrow> bool" where
  "backlog_ok said b =
     (subseq (bl_events b) said \<and> filter (\<lambda>x. \<not> isDelta (ev_method x)) (bl_events b) = filter (\<lambda>x. \<not> isDelta (ev_method x)) said
      \<and> bl_omitted b + length (bl_events b) = length said
      \<and> length (bl_events b) \<le> MAX_EVENTS \<and> length (bl_requests b) \<le> MAX_REQUESTS \<and> bl_bytes b \<le> MAX_BACKLOG_BYTES
      \<and> bl_bytes b = sum_list (map ev_bytes (bl_events b)) + sum_list (bl_requests b))"

lemma remove_nth_split:
  assumes "i < length xs"
  shows "xs = take i xs @ xs ! i # drop (Suc i) xs" "remove_nth i xs = take i xs @ drop (Suc i) xs"
  using assms by (simp_all add: remove_nth_def id_take_nth_drop)

lemma shed_ok:
  assumes "backlog_ok said b"
  shows "backlog_ok said (shed sz b)"
  using assms
proof (induction sz b rule: shed.induct)
  case (1 sz b)
  show ?case
  proof (cases "backlog_full sz b")
    case True
    show ?thesis
    proof (cases "find_index (\<lambda>x. isDelta (ev_method x)) (bl_events b)")
      case None
      with 1 True show ?thesis by (subst shed.simps) simp
    next
      case (Some i)
      let ?b = "b\<lparr>bl_events := remove_nth i (bl_events b), bl_bytes := bl_bytes b - ev_bytes (bl_events b ! i), bl_omitted := bl_omitted b + 1\<rparr>"
      have i: "i < length (bl_events b)" "isDelta (ev_method (bl_events b ! i))" using find_index_Some [OF Some] by simp_all
      note split = remove_nth_split [OF i(1)]
      have "subseq (remove_nth i (bl_events b)) (bl_events b)"
        by (subst (2) split(1)) (simp only: split(2), intro list_emb_append_mono list_emb_Cons subseq_order.order_refl)
      moreover have "filter (\<lambda>x. \<not> isDelta (ev_method x)) (remove_nth i (bl_events b)) = filter (\<lambda>x. \<not> isDelta (ev_method x)) (bl_events b)"
        by (subst (2) split(1)) (simp add: split(2) i(2))
      moreover have "sum_list (map ev_bytes (bl_events b)) = ev_bytes (bl_events b ! i) + sum_list (map ev_bytes (remove_nth i (bl_events b)))"
        by (subst split(1)) (simp add: split(2))
      ultimately have "backlog_ok said ?b" using 1(2) i(1) length_remove_nth [OF i(1)]
        by (auto simp: backlog_ok_def intro: subseq_order.trans)
      from 1(1) [OF _ Some this] True Some show ?thesis by (subst shed.simps) simp
    qed
  next
    case False
    with 1 show ?thesis by (subst shed.simps) simp
  qed
qed

lemma hold_event_ok:
  assumes "backlog_ok said b" "hold_event x b = (b', False)"
  shows "backlog_ok (said @ [x]) b'"
proof -
  let ?s = "shed (ev_bytes x) b"
  have s: "backlog_ok said ?s" by (rule shed_ok [OF assms(1)])
  consider "\<not> backlog_full (ev_bytes x) ?s" "b' = ?s\<lparr>bl_events := bl_events ?s @ [x], bl_bytes := bl_bytes ?s + ev_bytes x\<rparr>"
    | "isDelta (ev_method x)" "b' = ?s\<lparr>bl_omitted := bl_omitted ?s + 1\<rparr>"
    using assms(2) by (auto simp: hold_event_def Let_def split: if_splits)
  then show ?thesis
  proof cases
    case 1
    with s show ?thesis by (simp add: backlog_ok_def backlog_full_def MAX_EVENT_BYTES_def MAX_BACKLOG_BYTES_def list_emb_append_mono)
  next
    case 2
    moreover have "subseq (bl_events ?s) (said @ [x])"
      using s by (auto simp: backlog_ok_def intro: subseq_order.trans [OF _ prefix_imp_subseq])
    ultimately show ?thesis using s by (simp add: backlog_ok_def)
  qed
qed

lemma hold_request_ok:
  assumes "backlog_ok said b" "hold_request sz b = (b', False)"
  shows "backlog_ok said b'"
  using assms by (auto simp: backlog_ok_def hold_request_def Let_def split: if_splits)

end
