(* ===== verification/RuntimeProperties.thy ===== *)
theory RuntimeProperties
  imports Samples Response Pickup MailboxOwner MessageOps CodexInv
begin

text \<open>
  What the runtime side guarantees: an answer and a turn reach the agent at most once, receipts only
  gain evidence, the ledger is read and admitted exactly, and the request mailboxes tell their callers
  what the owner did.
\<close>


definition a_command :: response_command where
  "a_command = \<lparr>rc_operationId = ''o1'', rc_generation = ''g1'', rc_requestId = ''q1'', rc_fingerprint = ''f'',
     rc_kind = Approval, rc_decision = Some Accept, rc_answers = None\<rparr>"

definition a_request :: pending_request where
  "a_request = \<lparr>pr_requestId = ''q1'', pr_kind = Approval, pr_turnId = ''t1'', pr_decisions = [Accept, Decline],
     pr_questions = []\<rparr>"

definition commanded :: response_state where
  "commanded = \<lparr>rs_command = Some a_command, rs_receipt = None, rs_submitted = []\<rparr>"

lemma commanded_reach: "response_reach commanded"
proof -
  have "response_step \<lparr>rs_command = None, rs_receipt = None, rs_submitted = []\<rparr>
      (\<lparr>rs_command = None, rs_receipt = None, rs_submitted = []\<rparr>\<lparr>rs_command := Some a_command\<rparr>)"
    by (rule response_step.command) simp_all
  from response_reach.step [OF response_reach.start this] show ?thesis by (simp add: commanded_def)
qed

text \<open>The owner dies right after the submission, and answers again.\<close>

definition answered_twice :: response_state where
  "answered_twice = (let plan = answer_plan (Some ''g1'') (\<lambda>_. Some a_request);
     once = fold answer_apply (take 2 (plan commanded)) commanded
   in fold answer_apply (take 4 (plan once)) once)"



definition slot_filled :: owner_world where
  "slot_filled = \<lparr>ow_input = Some sample_input, ow_dispatched = None, ow_running = False, ow_queue = [],
     ow_transcript = [], ow_turns = []\<rparr>"

lemma slot_filled_reach: "owner_reach slot_filled"
  using owner_reach.step [OF owner_reach.start owner_step.queued, of sample_input "[]"]
  by (simp add: slot_filled_def sample_input_def)

definition handed :: owner_world where
  "handed = fold pickup_apply (take 4 (dispatch_phase ''now'' slot_filled)) slot_filled"


text \<open>The receipt of a message only gains evidence: after any sequence of phase reports and
  projections, each record of a well-formed journal has a successor for the same message, with the same
  turn once one is known, no earlier phase, and its continuations extended; a finished one is unchanged.\<close>

lemma receipts_only_gain_evidence:
  assumes "journal_ok j" "r \<in> set (mj_records j)"
  shows "\<exists>r'\<in>set (mj_records (fold (journal_step fits s) es j)). mr_messageId r' = mr_messageId r
    \<and> (\<forall>t. mr_turnId r = Some t \<longrightarrow> mr_turnId r' = Some t)
    \<and> MessageOps.phase_rank (mr_phase r) \<le> MessageOps.phase_rank (mr_phase r')
    \<and> prefix (mr_continuations r) (mr_continuations r') \<and> (mr_expiresAt r \<noteq> None \<longrightarrow> r' = r)"
  using journal_machine.run_le [of j fits s es] assms unfolding journal_le_def later_def by blast

definition a_journal :: op_journal where
  "a_journal = \<lparr>mj_registrationGeneration = ''g1'', mj_runtime = Claude, mj_nativeId = ''n1'',
     mj_records = [fresh_record ''i1'' ''p'' ''f'' 0]\<rparr>"

definition a_op_session :: op_session where
  "a_op_session = \<lparr>os_registrationGeneration = ''g1'', os_runtime = Claude, os_nativeId = ''n1''\<rparr>"


text \<open>A remote letter is admitted once: after it was taken, the same letter is answered as known and
  changes nothing, another letter under its id is refused, and the ids of the ledger stay distinct.\<close>

lemma admission_is_idempotent:
  assumes "admitOnce select msg ledger = Inr (new, ledger')"
  shows "admitOnce select' msg (ledger' @ ext) = Inr (False, ledger' @ ext)
    \<and> (\<forall>other. m_id other = m_id msg \<longrightarrow> without_options other \<noteq> without_options msg
         \<longrightarrow> admitOnce select' other (ledger' @ ext) = Inl IdempotencyConflict)
    \<and> (distinct (ledger_ids ledger) \<longrightarrow> distinct (ledger_ids ledger') \<and> prefix ledger ledger')"
  using admitOnce_again [OF assms] admitOnce_conflict [OF assms] admitOnce_ids [OF assms] by blast



definition newer_record :: json where
  "newer_record = JObj [(''v'', JNum 3)]"


text \<open>Reading a growing file incrementally is exact: every read returns what decoding the whole file
  of that moment returns, although each read decodes only the bytes added since the last one.\<close>

lemma growing_file_read_exactly:
  assumes "successively (\<lambda>f f'. prefix (jf_bytes f) (jf_bytes f')) (f # fs)"
  shows "read_growing opts None (f # fs) = map (\<lambda>f. decode_all opts (jf_bytes f)) (f # fs)"
  using assms by (intro read_growing_exact) simp_all

definition byte_lines :: "(nat, nat) jsonl_options" where
  "byte_lines = \<lparr>jo_id = 0, jo_label = ''l'', jo_badLine = BadSkip, jo_parse = (\<lambda>bs. Some (Some (length bs))),
     jo_decode = (\<lambda>v _. Inr v)\<rparr>"

definition file_of :: "byte list \<Rightarrow> jsonl_file" where
  "file_of bs = \<lparr>jf_identity = ''f'', jf_bytes = bs\<rparr>"



definition working :: projection where
  "working = \<lparr>pj_generation = Some ''g1'', pj_turn = \<lparr>tn_status = Some TsInProgress, tn_state = LvWorking,
     tn_outstanding = 0, tn_unhandled = []\<rparr>, pj_turnId = Some ''t1'', pj_permissionMode = ''default''\<rparr>"


text \<open>A permission mode requested between two turns is applied and confirmed: the caller gets the mode
  it asked for, and reads it back from the snapshot the owner publishes.\<close>

lemma mode_change_round_trip:
  assumes "pj_generation p = Some (sn_generation s)" "tn_status (pj_turn p) \<noteq> Some TsInProgress"
    "sn_permissionMode s \<noteq> Some mode"
    "applyMode True p (Some (queued_mode mode operationId (sn_generation s))) = (q, Some r')"
  shows "fst (requestRuntimeMode operationId mode (Some s) None rep [Poll (Some r') (Some (publish_turn q))]) = Inr mode"
  using assms by (rule mode_round_trip)

definition resting :: projection where
  "resting = \<lparr>pj_generation = Some ''g1'', pj_turn = initialTurn, pj_turnId = None, pj_permissionMode = ''default''\<rparr>"


text \<open>Rewinding files happens at most once per request, however many times the owner's loop comes by.\<close>

lemma rewind_happens_once:
  "length (snd (rewind_ticks ticks req)) \<le> 1"
  by (rule rewind_once)

text \<open>The ids given to OpenCode messages order as their creation times within one window of 2^36
  milliseconds, whatever the digests are.\<close>

lemma opencode_ids_order_in_window:
  assumes "t < t'" "t div id_window = t' div id_window"
  shows "text_before (openCodeMessageId digest i t) (openCodeMessageId digest i' t')"
  using assms by (rule openCodeMessageId_order)


subsection \<open>The owner of a Codex process\<close>

text \<open>A call that runs to its end leaves the input of the pane on, and a turn is started only while it is off.\<close>

lemma call_leaves_pane:
  assumes "cw_enabled w"
  shows "cw_enabled (fold codex_apply (fst (applyOwnedCodexInput f s pending w)) w)"
proof -
  have hold: "cw_enabled (fold codex_apply [CxHold r] v) = cw_enabled v" for r v by simp
  have ready: "cw_enabled (fold codex_apply (fst (ready_turn f s i)) v) = cw_enabled v" for i v
    using ready_ungated [of f s i] by (intro ungated_keeps) blast
  have "cw_enabled (fold codex_apply (fst (codexLocked f s (cw_turns w) (cw_input w))) w)"
    using assms ready
    by (auto simp: codexLocked_def gated_turn_def settleDispatch_def settle_uncertain_def split_beta
        split: option.split sum.split input_phase.split bool.split)
  with assms show ?thesis
    by (cases "cw_input w") (simp_all add: applyOwnedCodexInput_def split_beta split: option.split sum.split)
qed

datatype admission_op = SaidEvent codex_event | AskedRequest nat

fun admission :: "admission_op list \<Rightarrow> backlog \<Rightarrow> backlog option" where
  "admission [] b = Some b"
| "admission (SaidEvent x # ops) b = (case hold_event x b of (b', failed) \<Rightarrow> if failed then None else admission ops b')"
| "admission (AskedRequest sz # ops) b = (case hold_request sz b of (b', failed) \<Rightarrow> if failed then None else admission ops b')"

definition said_events :: "admission_op list \<Rightarrow> codex_event list" where
  "said_events ops = List.map_filter (\<lambda>op. case op of SaidEvent x \<Rightarrow> Some x | _ \<Rightarrow> None) ops"

lemma said_simps [simp]:
  "said_events [] = []" "said_events (SaidEvent x # ops) = x # said_events ops" "said_events (AskedRequest sz # ops) = said_events ops"
  by (simp_all add: said_events_def List.map_filter_simps)

lemma admission_ok: "admission ops b = Some b' \<Longrightarrow> backlog_ok said b \<Longrightarrow> backlog_ok (said @ said_events ops) b'"
proof (induction ops b arbitrary: said rule: admission.induct)
  case (2 x ops b)
  then show ?case using hold_event_ok [of said b x] by (fastforce split: prod.splits if_splits)
next
  case (3 sz ops b)
  then show ?case using hold_request_ok [of said b sz] by (fastforce split: prod.splits if_splits)
qed simp

text \<open>An admission that does not fail has every event but shed pieces of streamed text, in order, and knows how many
  of those it shed, within its bounds.\<close>

lemma admission_window:
  assumes "admission ops new_backlog = Some b"
  shows "filter (\<lambda>x. \<not> isDelta (ev_method x)) (bl_events b) = filter (\<lambda>x. \<not> isDelta (ev_method x)) (said_events ops)
    \<and> subseq (bl_events b) (said_events ops) \<and> bl_omitted b + length (bl_events b) = length (said_events ops)
    \<and> length (bl_events b) \<le> MAX_EVENTS \<and> bl_bytes b \<le> MAX_BACKLOG_BYTES"
  using admission_ok [OF assms, of "[]"] by (simp add: backlog_ok_def new_backlog_def)

text \<open>C26: A letter queued for a Codex session becomes at most one turn of the provider, however often a call dies
  after one of its writes or an answer is lost, and an input reported as accepted names the turn that carries it.\<close>

theorem codex_turn_started_once:
  assumes "codex_reach w"
  shows "(\<forall>m\<in>set (cw_queued w). length (carrying m (cw_turns w)) \<le> 1)
    \<and> (\<forall>i. cw_input w = Some i \<and> ri_phase i = PhAccepted
         \<longrightarrow> (\<exists>t. carrying (ri_messageId i) (cw_turns w) = [t] \<and> ri_turnId i = Some (ct_id t)))"
proof -
  have inv: "codex_inv w" by (rule codex_reach_inv [OF assms])
  have "\<exists>t. carrying (ri_messageId i) (cw_turns w) = [t] \<and> ri_turnId i = Some (ct_id t)"
    if i: "cw_input w = Some i" "ri_phase i = PhAccepted" for i
  proof -
    from inv i obtain t where t: "t \<in> set (cw_turns w)" "ri_turnId i = Some (ct_id t)" "ri_messageId i \<in> set (ct_clients t)"
      and le: "length (carrying (ri_messageId i) (cw_turns w)) \<le> 1" by (auto simp: codex_inv_def input_ok_def)
    from t have "t \<in> set (carrying (ri_messageId i) (cw_turns w))" by (simp add: carrying_def)
    with le have "carrying (ri_messageId i) (cw_turns w) = [t]" by (cases "carrying (ri_messageId i) (cw_turns w)") auto
    with t show ?thesis by blast
  qed
  with inv show ?thesis by (simp add: codex_inv_def)
qed

definition codex_body :: session where
  "codex_body = a_session\<lparr>s_body := a_body\<lparr>sb_agent := Codex, sb_delegation := Some ''d''\<rparr>\<rparr>"

definition codex_call_facts :: codex_facts where
  "codex_call_facts = \<lparr>cf_admitted = True, cf_asleep = False, cf_listing = None, cf_mutation = False, cf_connected = True,
     cf_snapshot = \<lparr>sn_generation = ''g'', sn_state = NsIdle, sn_turn = None, sn_permissionMode = None, sn_mcpServers = None,
       sn_fileCheckpoints = None\<rparr>, cf_typing = Inr False, cf_gate = Inr True, cf_pane = Inr None,
     cf_thread = Inr \<lparr>at_status = AsIdle, at_acceptsInput = Some True\<rparr>, cf_sessions = [codex_body], cf_policy = True, cf_images = None,
     cf_now = ''now'', cf_start = StartLost ''t1'' ''closed''\<rparr>"

definition codex_queued :: codex_world where
  "codex_queued = \<lparr>cw_input = Some sample_input, cw_turns = [], cw_enabled = True, cw_hold = None, cw_queued = [''m'']\<rparr>"

definition codex_run :: "codex_world \<Rightarrow> codex_world" where
  "codex_run w = fold codex_apply (fst (applyOwnedCodexInput codex_call_facts codex_body (cw_input w) w)) w"

definition codex_lost :: codex_world where
  "codex_lost = codex_queued\<lparr>cw_input := Some (sample_input\<lparr>ri_phase := PhDispatching, ri_dispatchedAt := Some ''now''\<rparr>),
     cw_turns := [\<lparr>ct_id = ''t1'', ct_clients = [''m'']\<rparr>], cw_hold := Some ''native delivery failed: closed''\<rparr>"

lemma codex_run_reach: "codex_reach w \<Longrightarrow> codex_reach (codex_run w)"
proof -
  assume w: "codex_reach w"
  let ?es = "fst (applyOwnedCodexInput codex_call_facts codex_body (cw_input w) w)"
  have "codex_step w (fold codex_apply (take (length ?es) ?es) w)" by (rule codex_step.runs)
  then show ?thesis using codex_reach.step [OF w] by (simp add: codex_run_def)
qed

lemma codex_loses: "codex_run codex_queued = codex_lost"
  by (simp add: codex_run_def codex_queued_def codex_lost_def applyOwnedCodexInput_def codexLocked_def codex_call_facts_def
      sample_input_def codex_body_def a_session_def a_body_def ready_turn_def appThreadHoldReason_def same_registration_def
      submit_turn_def nativeDeliveryHold_def Let_def)

lemma codex_settles: "cw_input (codex_run codex_lost)
    = Some (sample_input\<lparr>ri_phase := PhAccepted, ri_dispatchedAt := Some ''now'', ri_turnId := Some ''t1''\<rparr>)"
  by (simp add: codex_run_def codex_lost_def codex_queued_def applyOwnedCodexInput_def codexLocked_def codex_call_facts_def
      sample_input_def settleDispatch_def findOwnedCodexReceipt_def)

text \<open>The answer to the start is lost; the next call finds the turn and starts nothing.\<close>

theorem codex_turn_started_once_witness:
  "\<exists>t. carrying ''m'' (cw_turns (codex_run (codex_run codex_queued))) = [t] \<and> ct_id t = ''t1''"
proof -
  let ?w = "\<lparr>cw_input = None, cw_turns = [], cw_enabled = True, cw_hold = None, cw_queued = []\<rparr> :: codex_world"
  have "codex_step ?w (?w\<lparr>cw_input := Some sample_input, cw_queued := cw_queued ?w @ [ri_messageId sample_input]\<rparr>)"
    by (rule codex_step.queued) (simp_all add: sample_input_def)
  from codex_reach.step [OF codex_reach.start this] have "codex_reach codex_queued"
    by (simp add: codex_queued_def sample_input_def)
  then have "codex_reach (codex_run (codex_run codex_queued))" by (intro codex_run_reach)
  from codex_turn_started_once [OF this] show ?thesis by (auto simp: codex_loses codex_settles sample_input_def)
qed

end
