(* ===== verification/ContentText.thy ===== *)
theory ContentText
  imports Prelude
begin

text \<open>
  Text of the native content buffer (\<open>src/content/text.ts\<close>): JavaScript strings as UTF-16 code units,
  their iteration by code point, their UTF-8 bytes, and the two bounded cuts, \<open>textChunks\<close> and
  \<open>textTail\<close>.
\<close>

type_synonym utf16 = "nat list"

definition is_high :: "nat \<Rightarrow> bool" where "is_high u = (0xD800 \<le> u \<and> u \<le> 0xDBFF)"
definition is_low :: "nat \<Rightarrow> bool" where "is_low u = (0xDC00 \<le> u \<and> u \<le> 0xDFFF)"

text \<open>\<open>for (const point of text)\<close>: surrogate pairs are one point, lone surrogates stay alone.\<close>

fun points :: "utf16 \<Rightarrow> nat list" where
  "points [] = []"
| "points [u] = [u]"
| "points (u # v # r) =
     (if is_high u \<and> is_low v then (0x10000 + (u - 0xD800) * 0x400 + (v - 0xDC00)) # points r
      else u # points (v # r))"

definition units :: "nat \<Rightarrow> utf16" where
  "units p = (if p < 0x10000 then [p]
     else [0xD800 + (p - 0x10000) div 0x400, 0xDC00 + (p - 0x10000) mod 0x400])"

text \<open>\<open>Buffer.byteLength\<close>; a lone surrogate is written as the three-byte replacement character.\<close>

definition point_bytes :: "nat \<Rightarrow> nat" where
  "point_bytes p = (if p < 0x80 then 1 else if p < 0x800 then 2 else if p < 0x10000 then 3 else 4)"

definition byteLength :: "utf16 \<Rightarrow> nat" where
  "byteLength t = sum_list (map point_bytes (points t))"

text \<open>\<open>Buffer.from(text)\<close>.\<close>

definition utf8_point :: "nat \<Rightarrow> nat list" where
  "utf8_point p =
     (if p < 0x80 then [p]
      else if p < 0x800 then [0xC0 + p div 0x40, 0x80 + p mod 0x40]
      else if is_high p \<or> is_low p then [0xEF, 0xBF, 0xBD]
      else if p < 0x10000 then [0xE0 + p div 0x1000, 0x80 + p div 0x40 mod 0x40, 0x80 + p mod 0x40]
      else [0xF0 + p div 0x40000, 0x80 + p div 0x1000 mod 0x40, 0x80 + p div 0x40 mod 0x40, 0x80 + p mod 0x40])"

definition utf8 :: "utf16 \<Rightarrow> nat list" where
  "utf8 t = concat (map utf8_point (points t))"

text \<open>\<open>toString('utf8')\<close> on bytes that start at a code point; an unexpected byte is replaced.\<close>

fun utf8_decode :: "nat list \<Rightarrow> nat list" where
  "utf8_decode [] = []"
| "utf8_decode (a # r) =
     (if a < 0x80 then a # utf8_decode r
      else case r of
        b # r' \<Rightarrow>
          (if 0xC0 \<le> a \<and> a < 0xE0 then ((a - 0xC0) * 0x40 + (b - 0x80)) # utf8_decode r'
           else case r' of
             c # r'' \<Rightarrow>
               (if 0xE0 \<le> a \<and> a < 0xF0
                then ((a - 0xE0) * 0x1000 + (b - 0x80) * 0x40 + (c - 0x80)) # utf8_decode r''
                else case r'' of
                  d # r''' \<Rightarrow>
                    (if 0xF0 \<le> a
                     then ((a - 0xF0) * 0x40000 + (b - 0x80) * 0x1000 + (c - 0x80) * 0x40 + (d - 0x80)) # utf8_decode r'''
                     else 0xFFFD # utf8_decode r)
                | [] \<Rightarrow> 0xFFFD # utf8_decode r)
           | [] \<Rightarrow> 0xFFFD # utf8_decode r)
      | [] \<Rightarrow> [0xFFFD])"

subsection \<open>The two cuts\<close>

fun chunks_loop :: "nat \<Rightarrow> nat list \<Rightarrow> utf16 \<Rightarrow> nat \<Rightarrow> utf16 list" where
  "chunks_loop maxBytes [] chunk sz = (if chunk \<noteq> [] then [chunk] else [])"
| "chunks_loop maxBytes (p # ps) chunk sz =
     (let bytes = byteLength (units p)
      in if sz + bytes > maxBytes \<and> chunk \<noteq> []
         then chunk # chunks_loop maxBytes ps (units p) bytes
         else chunks_loop maxBytes ps (chunk @ units p) (sz + bytes))"

definition textChunks :: "utf16 \<Rightarrow> nat \<Rightarrow> utf16 list" where
  "textChunks t maxBytes = chunks_loop maxBytes (points t) [] 0"

fun skip_continuation :: "nat list \<Rightarrow> nat list" where
  "skip_continuation [] = []"
| "skip_continuation (b # bs) = (if 0x80 \<le> b \<and> b < 0xC0 then skip_continuation bs else b # bs)"

text \<open>The kept text and the number of bytes dropped before it.\<close>

definition textTail :: "utf16 \<Rightarrow> nat \<Rightarrow> utf16 \<times> nat" where
  "textTail t maxBytes =
     (let bytes = utf8 t
      in if length bytes \<le> maxBytes then (t, 0)
         else let rest = skip_continuation (drop (length bytes - maxBytes) bytes)
              in (concat (map units (utf8_decode rest)), length bytes - length rest))"

subsection \<open>Points and units\<close>

definition wf_text :: "utf16 \<Rightarrow> bool" where "wf_text t = (\<forall>u\<in>set t. u < 0x10000)"

text \<open>No lone high surrogate directly before a lone low one: they would have been one point.\<close>

definition loose :: "nat \<Rightarrow> nat \<Rightarrow> bool" where "loose p q = (\<not> (is_high p \<and> is_low q))"

definition wf_points :: "nat list \<Rightarrow> bool" where
  "wf_points ps = ((\<forall>p\<in>set ps. p < 0x110000) \<and> successively loose ps)"

lemma points_hd: "v # r = t \<Longrightarrow> \<exists>p ps. points t = p # ps \<and> (is_low p \<longrightarrow> p = v)"
  by (induction t rule: points.induct) (auto simp: is_high_def is_low_def)

lemma wf_points: "wf_text t \<Longrightarrow> wf_points (points t)"
proof (induction t rule: points.induct)
  case (3 u v r)
  show ?case
  proof (cases "is_high u \<and> is_low v")
    case True
    with 3 have ps: "wf_points (points r)" by (simp add: wf_text_def)
    let ?p = "0x10000 + (u - 0xD800) * 0x400 + (v - 0xDC00)"
    have "?p < 0x110000" "\<not> is_high ?p" using True by (auto simp: is_high_def is_low_def)
    with ps True show ?thesis
      by (cases "points r") (simp_all add: wf_points_def loose_def)
  next
    case False
    with 3 have ps: "wf_points (points (v # r))" by (simp add: wf_text_def)
    obtain p qs where q: "points (v # r) = p # qs" "is_low p \<longrightarrow> p = v" using points_hd by blast
    have "u < 0x110000" using 3(3) by (simp add: wf_text_def)
    moreover have "loose u p" using False q(2) by (auto simp: loose_def)
    ultimately show ?thesis using ps q(1) False by (auto simp: wf_points_def)
  qed
qed (simp_all add: wf_points_def wf_text_def)

lemma pair_units:
  assumes "is_high u" "is_low v"
  shows "units (0x10000 + (u - 0xD800) * 0x400 + (v - 0xDC00)) = [u, v]"
proof -
  define x y where "x = u - 0xD800" and "y = v - 0xDC00"
  have "y < 0x400" "u = 0xD800 + x" "v = 0xDC00 + y" using assms by (auto simp: x_def y_def is_high_def is_low_def)
  then show ?thesis by (simp add: units_def)
qed

lemma units_points: "wf_text t \<Longrightarrow> concat (map units (points t)) = t"
proof (induction t rule: points.induct)
  case (3 u v r)
  show ?case
  proof (cases "is_high u \<and> is_low v")
    case True
    with 3 show ?thesis by (simp add: pair_units wf_text_def)
  next
    case False
    with 3 have "concat (map units (points (v # r))) = v # r" "u < 0x10000" by (auto simp: wf_text_def)
    moreover have "units u = [u]" using \<open>u < 0x10000\<close> by (simp add: units_def)
    ultimately show ?thesis using False by auto
  qed
qed (simp_all add: units_def wf_text_def)

lemma points_cons:
  assumes "p < 0x110000" "t = [] \<or> loose p (hd (points t))"
  shows "points (units p @ t) = p # points t"
proof (cases "p < 0x10000")
  case True
  show ?thesis
  proof (cases t)
    case Nil
    with True show ?thesis by (simp add: units_def)
  next
    case (Cons v r)
    obtain q qs where q: "points t = q # qs" "is_low q \<longrightarrow> q = v" using points_hd [of v r t] Cons by auto
    show ?thesis
    proof (cases "is_high p \<and> is_low v")
      case True
      then have "points t = v # points r \<or> (\<exists>w r'. r = w # r' \<and> is_high v)"
        using Cons by (cases r) auto
      with True have "points t = v # points r" by (auto simp: is_high_def is_low_def)
      with True assms(2) Cons show ?thesis by (simp add: loose_def)
    next
      case False
      with \<open>p < 0x10000\<close> Cons show ?thesis by (simp add: units_def)
    qed
  qed
next
  case False
  let ?h = "0xD800 + (p - 0x10000) div 0x400" and ?l = "0xDC00 + (p - 0x10000) mod 0x400"
  have "(p - 0x10000) div 0x400 < 0x400" using assms(1) False by auto
  then have "is_high ?h" "is_low ?l" by (auto simp: is_high_def is_low_def)
  moreover have "0x10000 + (p - 0x10000) div 0x400 * 0x400 + (p - 0x10000) mod 0x400 = p"
    using False by simp
  ultimately show ?thesis using False by (simp add: units_def)
qed

lemma points_units: "wf_points ps \<Longrightarrow> points (concat (map units ps)) = ps"
proof (induction ps)
  case (Cons p ps)
  then have ih: "points (concat (map units ps)) = ps"
    by (cases ps) (auto simp: wf_points_def)
  show ?case
    using points_cons [of p "concat (map units ps)"] ih Cons.prems
    by (cases ps) (auto simp: wf_points_def)
qed simp

lemma wf_points_append: "wf_points (ps @ qs) \<Longrightarrow> wf_points ps \<and> wf_points qs"
  by (auto simp: wf_points_def successively_append_iff)

lemma byteLength_units: "p < 0x110000 \<Longrightarrow> byteLength (units p) = point_bytes p"
  using points_cons [of p "[]"] by (simp add: byteLength_def)

lemma byteLength_points: "wf_points ps \<Longrightarrow> byteLength (concat (map units ps)) = sum_list (map point_bytes ps)"
  by (simp add: byteLength_def points_units)

lemma units_nonempty [simp]: "units p \<noteq> []" by (simp add: units_def)

subsection \<open>Chunks\<close>

lemma chunks_concat: "concat (chunks_loop m ps chunk sz) = chunk @ concat (map units ps)"
  by (induction m ps chunk sz rule: chunks_loop.induct) (simp_all add: Let_def)

lemma chunks_nonempty: "c \<in> set (chunks_loop m ps chunk sz) \<Longrightarrow> c \<noteq> []"
  by (induction m ps chunk sz rule: chunks_loop.induct) (auto simp: Let_def split: if_splits)

text \<open>Every chunk is a run of whole code points within the bound.\<close>

abbreviation text_of :: "nat list \<Rightarrow> utf16" where "text_of ps \<equiv> concat (map units ps)"
abbreviation weight :: "nat list \<Rightarrow> nat" where "weight ps \<equiv> sum_list (map point_bytes ps)"

fun point_chunks :: "nat \<Rightarrow> nat list \<Rightarrow> nat list \<Rightarrow> nat list list" where
  "point_chunks m [] qs = (if qs \<noteq> [] then [qs] else [])"
| "point_chunks m (p # ps) qs =
     (if weight qs + point_bytes p > m \<and> qs \<noteq> [] then qs # point_chunks m ps [p]
      else point_chunks m ps (qs @ [p]))"

lemma chunks_loop_points:
  "\<forall>p\<in>set ps. p < 0x110000 \<Longrightarrow>
     chunks_loop m ps (text_of qs) (weight qs) = map text_of (point_chunks m ps qs)"
proof (induction ps arbitrary: qs)
  case (Cons p ps)
  then have "byteLength (units p) = point_bytes p" "\<forall>p\<in>set ps. p < 0x110000"
    by (simp_all add: byteLength_units)
  with Cons.IH [of "[p]"] Cons.IH [of "qs @ [p]"] show ?case
    by (cases qs) (simp_all add: add.assoc)
qed auto

lemma point_chunks_concat: "concat (point_chunks m ps qs) = qs @ ps"
  by (induction m ps qs rule: point_chunks.induct) simp_all

lemma point_chunks_weight:
  "4 \<le> m \<Longrightarrow> weight qs \<le> m \<Longrightarrow> c \<in> set (point_chunks m ps qs) \<Longrightarrow> weight c \<le> m"
proof (induction ps arbitrary: qs)
  case (Cons p ps)
  have pm: "point_bytes p \<le> m" using Cons.prems(1) by (simp add: point_bytes_def)
  show ?case
  proof (cases "weight qs + point_bytes p > m \<and> qs \<noteq> []")
    case True
    with Cons.prems Cons.IH [of "[p]"] pm show ?thesis by auto
  next
    case False
    then have "weight (qs @ [p]) \<le> m" using pm by (cases "qs = []") auto
    with Cons.IH [of "qs @ [p]"] Cons.prems False show ?thesis by simp
  qed
qed (simp split: if_splits)

lemma wf_points_concat: "wf_points (concat cs) \<Longrightarrow> c \<in> set cs \<Longrightarrow> wf_points c"
  by (induction cs) (auto dest: wf_points_append)

lemma textChunks_concat: "wf_text t \<Longrightarrow> concat (textChunks t m) = t"
  by (simp add: textChunks_def chunks_concat units_points)

lemma textChunks_bound:
  assumes "wf_text t" "4 \<le> m" "c \<in> set (textChunks t m)"
  shows "byteLength c \<le> m" "c \<noteq> []"
proof -
  have wf: "wf_points (points t)" by (rule wf_points [OF assms(1)])
  then have "textChunks t m = map text_of (point_chunks m (points t) [])"
    using chunks_loop_points [of "points t" m "[]"] by (simp add: textChunks_def wf_points_def)
  then obtain rs where rs: "rs \<in> set (point_chunks m (points t) [])" "c = text_of rs"
    using assms(3) by auto
  have "wf_points rs"
    using wf_points_concat [of "point_chunks m (points t) []" rs] wf rs(1) by (simp add: point_chunks_concat)
  with rs point_chunks_weight [OF assms(2) _ rs(1)] show "byteLength c \<le> m"
    by (simp add: byteLength_points)
  show "c \<noteq> []" using assms(3) chunks_nonempty by (auto simp: textChunks_def)
qed

subsection \<open>The tail\<close>

definition scalar :: "nat \<Rightarrow> bool" where
  "scalar p = (p < 0x110000 \<and> \<not> is_high p \<and> \<not> is_low p)"

definition continuation :: "nat \<Rightarrow> bool" where
  "continuation b = (0x80 \<le> b \<and> b < 0xC0)"

lemma length_utf8_point: "length (utf8_point p) = point_bytes p"
proof -
  have "is_high p \<or> is_low p \<Longrightarrow> 0x800 \<le> p \<and> p < 0x10000" by (auto simp: is_high_def is_low_def)
  then show ?thesis by (auto simp: utf8_point_def point_bytes_def)
qed

lemma length_utf8: "length (concat (map utf8_point ps)) = weight ps"
  by (induction ps) (simp_all add: length_utf8_point)

lemma utf8_point_shape:
  assumes "p < 0x110000"
  shows "\<exists>b bs. utf8_point p = b # bs \<and> \<not> continuation b \<and> (\<forall>x\<in>set bs. continuation x)"
proof (cases "is_high p \<or> is_low p")
  case True
  then have "utf8_point p = [0xEF, 0xBF, 0xBD]" by (auto simp: utf8_point_def is_high_def is_low_def)
  then show ?thesis by (simp add: continuation_def)
next
  case False
  then show ?thesis
    using assms by (auto simp: utf8_point_def continuation_def)
qed

lemma div_64_64: "(x::nat) div 0x1000 = x div 0x40 div 0x40"
  using div_mult2_eq [of x 64 64] by simp

lemma div_64_64_64: "(x::nat) div 0x40000 = x div 0x40 div 0x40 div 0x40"
  using div_mult2_eq [of x 64 4096] div_mult2_eq [of "x div 64" 64 64] by simp

lemma utf8_decode_point:
  assumes "scalar p"
  shows "utf8_decode (utf8_point p @ bs) = p # utf8_decode bs"
proof -
  define a where "a = p div 0x40"
  define b where "b = p mod 0x40"
  define c where "c = a div 0x40"
  define d where "d = a mod 0x40"
  define e where "e = c div 0x40"
  define f where "f = c mod 0x40"
  have p: "p = a * 0x40 + b" "a = c * 0x40 + d" "c = e * 0x40 + f" "b < 0x40" "d < 0x40" "f < 0x40"
    by (simp_all add: a_def b_def c_def d_def e_def f_def)
  have sh: "p div 0x1000 = c" "p div 0x40000 = e" "p div 0x40 = a" "p mod 0x40 = b"
    by (simp_all add: a_def b_def c_def e_def div_64_64 div_64_64_64)
  consider "p < 0x80" | "0x80 \<le> p" "p < 0x800" | "0x800 \<le> p" "p < 0x10000" | "0x10000 \<le> p" "p < 0x110000"
    using assms by (fastforce simp: scalar_def)
  then show ?thesis
  proof cases
    case 1
    then show ?thesis by (simp add: utf8_point_def)
  next
    case 2
    then have "a < 0x20" using p by simp
    with 2 p(1,4) show ?thesis by (simp add: utf8_point_def sh)
  next
    case 3
    then have "c < 0x10" using p by simp
    then have "utf8_point p = [0xE0 + c, 0x80 + d, 0x80 + b]"
      using 3 assms by (simp add: utf8_point_def sh scalar_def d_def)
    moreover have "c * 0x1000 + d * 0x40 + b = p" using p(1,2) by simp
    ultimately show ?thesis using \<open>c < 0x10\<close> by simp
  next
    case 4
    then have "e < 5" using p by simp
    then have "utf8_point p = [0xF0 + e, 0x80 + f, 0x80 + d, 0x80 + b]"
      using 4 assms by (simp add: utf8_point_def sh scalar_def d_def f_def)
    moreover have "e * 0x40000 + f * 0x1000 + d * 0x40 + b = p" using p(1,2,3) by simp
    ultimately show ?thesis using \<open>e < 5\<close> by simp
  qed
qed

lemma utf8_decode_points:
  "\<forall>p\<in>set ps. scalar p \<Longrightarrow> utf8_decode (concat (map utf8_point ps)) = ps"
  by (induction ps) (simp_all add: utf8_decode_point)

lemma skip_leader: "\<not> continuation b \<Longrightarrow> skip_continuation (b # bs) = b # bs"
  by (auto simp: continuation_def)

lemma skip_all: "\<forall>x\<in>set bs. continuation x \<Longrightarrow> skip_continuation (bs @ cs) = skip_continuation cs"
  by (induction bs) (auto simp: continuation_def)

lemma skip_points: "\<forall>p\<in>set ps. p < 0x110000 \<Longrightarrow>
  skip_continuation (concat (map utf8_point ps)) = concat (map utf8_point ps)"
proof (cases ps)
  case (Cons p qs)
  moreover assume "\<forall>p\<in>set ps. p < 0x110000"
  ultimately obtain b bs where "utf8_point p = b # bs" "\<not> continuation b"
    using utf8_point_shape [of p] by fastforce
  with Cons show ?thesis by (simp add: skip_leader del: skip_continuation.simps)
qed simp

text \<open>Cutting \<open>k\<close> bytes and moving to the next leader drops whole code points, as few as possible.\<close>

lemma skip_drop:
  assumes "\<forall>p\<in>set ps. p < 0x110000" "k \<le> weight ps"
  shows "\<exists>j \<le> length ps. skip_continuation (drop k (concat (map utf8_point ps))) = concat (map utf8_point (drop j ps))
    \<and> k \<le> weight (take j ps) \<and> (\<forall>i<j. weight (take i ps) < k)"
  using assms
proof (induction ps arbitrary: k)
  case (Cons p ps)
  show ?case
  proof (cases "k = 0")
    case True
    with Cons.prems(1) show ?thesis
      using skip_points [of "p # ps"] by (intro exI [of _ 0]) simp
  next
    case False
    show ?thesis
    proof (cases "point_bytes p \<le> k")
      case True
      with Cons.prems have "\<forall>p\<in>set ps. p < 0x110000" "k - point_bytes p \<le> weight ps" by auto
      from Cons.IH [OF this] obtain j where j: "j \<le> length ps"
        "skip_continuation (drop (k - point_bytes p) (concat (map utf8_point ps))) = concat (map utf8_point (drop j ps))"
        "k - point_bytes p \<le> weight (take j ps)" "\<forall>i<j. weight (take i ps) < k - point_bytes p"
        by blast
      have "\<forall>i<Suc j. weight (take i (p # ps)) < k"
      proof (intro allI impI)
        fix i
        assume "i < Suc j"
        with j(4) True False show "weight (take i (p # ps)) < k"
          by (cases i) (auto simp: less_diff_conv2 add.commute)
      qed
      with j True show ?thesis
        by (intro exI [of _ "Suc j"]) (simp add: length_utf8_point)
    next
      case False
      obtain b bs where b: "utf8_point p = b # bs" "\<forall>x\<in>set bs. continuation x"
        using utf8_point_shape [of p] Cons.prems(1) by fastforce
      have len: "length (utf8_point p) = point_bytes p" by (rule length_utf8_point)
      obtain k' where k': "k = Suc k'" using \<open>k \<noteq> 0\<close> by (cases k) auto
      have "\<forall>x\<in>set (drop k' bs). continuation x" using b(2) by (meson in_set_dropD)
      moreover have "k' \<le> length bs" using False len b k' by simp
      ultimately have "skip_continuation (drop k (utf8_point p @ concat (map utf8_point ps)))
          = concat (map utf8_point ps)"
        using b k' Cons.prems(1) skip_points [of ps] by (simp add: skip_all)
      with False k' show ?thesis by (intro exI [of _ 1]) auto
    qed
  qed
qed simp

lemma textTail_short: "byteLength t \<le> m \<Longrightarrow> textTail t m = (t, 0)"
  by (simp add: textTail_def utf8_def length_utf8 byteLength_def)

lemma textTail_long:
  assumes "wf_text t" "\<forall>p\<in>set (points t). scalar p" "byteLength t > m"
  shows "\<exists>j \<le> length (points t). textTail t m = (text_of (drop j (points t)), weight (take j (points t)))
    \<and> byteLength (text_of (drop j (points t))) \<le> m
    \<and> (\<forall>i<j. byteLength (text_of (drop i (points t))) > m)"
proof -
  let ?ps = "points t"
  have wf: "wf_points ?ps" by (rule wf_points [OF assms(1)])
  have lt: "\<forall>p\<in>set ?ps. p < 0x110000" using wf by (simp add: wf_points_def)
  have wd: "wf_points (drop i ?ps)" for i
    using wf wf_points_append [of "take i ?ps" "drop i ?ps"] by simp
  have sum: "weight (take i ?ps) + weight (drop i ?ps) = weight ?ps" for i
    by (metis append_take_drop_id map_append sum_list_append)
  obtain j where j: "j \<le> length ?ps"
    "skip_continuation (drop (weight ?ps - m) (concat (map utf8_point ?ps))) = concat (map utf8_point (drop j ?ps))"
    "weight ?ps - m \<le> weight (take j ?ps)" "\<forall>i<j. weight (take i ?ps) < weight ?ps - m"
    using skip_drop [OF lt, of "weight ?ps - m"] by auto
  have dec: "utf8_decode (concat (map utf8_point (drop j ?ps))) = drop j ?ps"
    using assms(2) by (intro utf8_decode_points) (auto dest: in_set_dropD)
  have "textTail t m = (text_of (drop j ?ps), weight ?ps - weight (drop j ?ps))"
    using assms(3) j(2) by (simp add: textTail_def utf8_def length_utf8 byteLength_def dec Let_def)
  moreover have "weight ?ps - weight (drop j ?ps) = weight (take j ?ps)" using sum [of j] by simp
  moreover have "byteLength (text_of (drop i ?ps)) = weight (drop i ?ps)" for i
    by (rule byteLength_points [OF wd])
  moreover have "weight (drop j ?ps) \<le> m" using j(3) sum [of j] by linarith
  moreover have "\<forall>i<j. weight (drop i ?ps) > m" using j(4) sum by (metis add.commute less_diff_conv not_less nat_add_left_cancel_less)
  ultimately show ?thesis using j(1) by (intro exI [of _ j]) simp
qed

end
