(* ===== verification/ContentBuffer.thy ===== *)
theory ContentBuffer
  imports ContentText
begin

text \<open>
  The bounded buffer of native content (\<open>src/content/buffer.ts\<close>) and the frame a reader with a cursor
  gets from it (\<open>src/content/read.ts\<close>).

  A \<open>Map\<close> is an insertion-ordered association list.  Two inputs are parameters of every operation:
  \<open>clock\<close>, the time read when a record of a given sequence number is made, and \<open>sz\<close>, the number of
  bytes of a record's JSON text, which is positive.  The array the code measures is the records' texts,
  the commas between them and two brackets.  The loop that drops the oldest records does not end when
  the list is empty and the byte count is still too high, so the operations return \<open>None\<close> then; the
  invariant shows that they never do.
\<close>

definition CONTENT_EVENT_BYTES :: nat where "CONTENT_EVENT_BYTES = 4096"
definition CONTENT_REPLAY_BYTES :: int where "CONTENT_REPLAY_BYTES = 192 * 1024"
definition CONTENT_BASELINE_BYTES :: int where "CONTENT_BASELINE_BYTES = 192 * 1024"
definition CONTENT_ITEM_BYTES :: nat where "CONTENT_ITEM_BYTES = 64 * 1024"
definition CONTENT_MAX_RECORDS :: nat where "CONTENT_MAX_RECORDS = 512"
definition CONTENT_MAX_ITEMS :: nat where "CONTENT_MAX_ITEMS = 64"

subsection \<open>Data\<close>

datatype content_kind = Assistant | ReasoningSummary | Tool | Usage | Request | Terminal
datatype operation = OpAppend | OpReplace | OpLifecycle
datatype tool_lifecycle = TlPending | TlRunning | TlCompleted | TlUnknown
datatype tool_outcome = ToUnknown | ToSucceeded | ToFailed | ToInterrupted | ToDeclined

record tool_observation =
  to_callId :: "string option"
  to_name :: "string option"
  to_lifecycle :: tool_lifecycle
  to_outcome :: tool_outcome
  to_exitCode :: "int option"

definition lifecycle_name :: "tool_lifecycle \<Rightarrow> string" where
  "lifecycle_name l = (case l of TlPending \<Rightarrow> ''pending'' | TlRunning \<Rightarrow> ''running''
     | TlCompleted \<Rightarrow> ''completed'' | TlUnknown \<Rightarrow> ''unknown'')"

record content_record =
  cr_sequence :: nat
  cr_at :: stamp
  cr_kind :: content_kind
  cr_operation :: operation
  cr_turnId :: "string option"
  cr_itemId :: string
  cr_revision :: nat
  cr_offset :: int
  cr_prefixKnown :: bool
  cr_text :: "utf16 option"
  cr_total :: int
  cr_omitted :: int
  cr_complete :: bool
  cr_status :: "string option"
  cr_tool :: "tool_observation option"

type_synonym item_key = "string option \<times> string"

definition keyOf :: "string option \<Rightarrow> string \<Rightarrow> item_key" where
  "keyOf turnId itemId = (turnId, itemId)"

definition protectedItem :: "content_record \<Rightarrow> bool" where
  "protectedItem r = (cr_kind r = Request \<or> cr_kind r = Terminal)"

datatype buffer_status = BufLive | BufUnavailable

record content_buffer =
  cb_revision :: nat
  cb_sequence :: nat
  cb_dropped :: nat
  cb_boundary :: nat
  cb_omitted :: nat
  cb_status :: buffer_status
  cb_records :: "content_record list"
  cb_baseline :: "content_record list"
  cb_states :: "(item_key \<times> content_record) list"
  cb_pending :: "(item_key \<times> nat) list"
  cb_positions :: "(item_key \<times> content_record) list"
  cb_replay :: int

definition new_buffer :: content_buffer where
  "new_buffer = \<lparr>cb_revision = 0, cb_sequence = 0, cb_dropped = 0, cb_boundary = 0, cb_omitted = 0,
     cb_status = BufLive, cb_records = [], cb_baseline = [], cb_states = [], cb_pending = [],
     cb_positions = [], cb_replay = 0\<rparr>"

text \<open>\<open>delete\<close>, and \<open>delete\<close> followed by \<open>set\<close>: the entry moves to the end.\<close>

definition map_delete :: "'k \<Rightarrow> ('k \<times> 'v) list \<Rightarrow> ('k \<times> 'v) list" where
  "map_delete k m = filter (\<lambda>e. fst e \<noteq> k) m"

definition map_refresh :: "'k \<Rightarrow> 'v \<Rightarrow> ('k \<times> 'v) list \<Rightarrow> ('k \<times> 'v) list" where
  "map_refresh k v m = map_delete k m @ [(k, v)]"

definition array_size :: "(content_record \<Rightarrow> nat) \<Rightarrow> content_record list \<Rightarrow> int" where
  "array_size sz rs = 2 + int (sum_list (map sz rs)) + int (length rs - 1)"

subsection \<open>Bounded replay and bounded baseline\<close>

partial_function (option) drop_overflow ::
  "(content_record \<Rightarrow> nat) \<Rightarrow> content_buffer \<Rightarrow> content_buffer option" where
  "drop_overflow sz b =
     (if length (cb_records b) > CONTENT_MAX_RECORDS \<or> cb_replay b > CONTENT_REPLAY_BYTES
      then (case cb_records b of
          [] \<Rightarrow> drop_overflow sz b
        | removed # rest \<Rightarrow> drop_overflow sz (b\<lparr>cb_records := rest,
            cb_replay := cb_replay b - (int (sz removed) + 1),
            cb_dropped := cr_sequence removed, cb_omitted := cb_omitted b + 1\<rparr>))
      else Some b)"

definition push ::
  "(nat \<Rightarrow> stamp) \<Rightarrow> (content_record \<Rightarrow> nat) \<Rightarrow> content_record \<Rightarrow> content_buffer
     \<Rightarrow> (content_record \<times> content_buffer) option" where
  "push clock sz input b =
     (let n = cb_sequence b + 1;
          r = input\<lparr>cr_sequence := n, cr_at := clock n\<rparr>
      in map_option (Pair r) (drop_overflow sz (b\<lparr>cb_revision := cb_revision b + 1, cb_sequence := n,
           cb_records := cb_records b @ [r], cb_replay := cb_replay b + int (sz r) + 1\<rparr>)))"

definition eviction_candidate :: "(item_key \<times> content_record) list \<Rightarrow> (item_key \<times> content_record) option" where
  "eviction_candidate states = or_else (List.find (\<lambda>e. \<not> protectedItem (snd e)) states)
     (case states of [] \<Rightarrow> None | e # _ \<Rightarrow> Some e)"

lemma eviction_candidate_in: "eviction_candidate states = Some e \<Longrightarrow> e \<in> set states"
  by (auto simp: eviction_candidate_def or_else_def dest: find_SomeD split: option.splits list.splits)

lemma map_delete_less: "(k, v) \<in> set m \<Longrightarrow> length (map_delete k m) < length m"
  unfolding map_delete_def by (rule length_filter_less) auto

definition over_baseline :: "(content_record \<Rightarrow> nat) \<Rightarrow> (item_key \<times> content_record) list \<Rightarrow> bool" where
  "over_baseline sz states =
     (length states > CONTENT_MAX_ITEMS \<or> array_size sz (map snd states) > CONTENT_BASELINE_BYTES)"

function bound_loop :: "(content_record \<Rightarrow> nat) \<Rightarrow> content_buffer \<Rightarrow> content_buffer" where
  "bound_loop sz b =
     (if over_baseline sz (cb_states b)
      then (case eviction_candidate (cb_states b) of
          None \<Rightarrow> b
        | Some (k, _) \<Rightarrow> bound_loop sz (b\<lparr>cb_states := map_delete k (cb_states b),
            cb_pending := map_delete k (cb_pending b), cb_omitted := cb_omitted b + 1\<rparr>))
      else b)"
  by pat_completeness auto
termination
  by (relation "measure (\<lambda>(sz, b). length (cb_states b))")
    (auto dest!: eviction_candidate_in intro: map_delete_less)

declare bound_loop.simps [simp del]

definition boundStates :: "(content_record \<Rightarrow> nat) \<Rightarrow> content_buffer \<Rightarrow> content_buffer" where
  "boundStates sz b = (let b' = bound_loop sz b in b'\<lparr>cb_baseline := map snd (cb_states b')\<rparr>)"

definition drop_oldest :: "nat \<Rightarrow> 'a list \<Rightarrow> 'a list" where
  "drop_oldest n xs = drop (length xs - n) xs"

definition rememberPosition :: "content_record \<Rightarrow> content_buffer \<Rightarrow> content_buffer" where
  "rememberPosition r b =
     (let k = keyOf (cr_turnId r) (cr_itemId r)
      in b\<lparr>cb_positions := drop_oldest 256 (map_refresh k (r\<lparr>cr_text := None\<rparr>) (cb_positions b))\<rparr>)"

subsection \<open>The operations\<close>

definition noteOmitted :: "nat \<Rightarrow> content_buffer \<Rightarrow> content_buffer" where
  "noteOmitted n b = b\<lparr>cb_revision := (if n \<noteq> 0 then cb_revision b + 1 else cb_revision b),
     cb_omitted := cb_omitted b + n\<rparr>"

definition unavailable :: "content_buffer \<Rightarrow> content_buffer" where
  "unavailable b = b\<lparr>cb_revision := (if cb_status b \<noteq> BufUnavailable then cb_revision b + 1 else cb_revision b),
     cb_status := BufUnavailable\<rparr>"

definition resetContext :: "content_buffer \<Rightarrow> content_buffer" where
  "resetContext b = b\<lparr>cb_revision := cb_revision b + 1, cb_sequence := cb_sequence b + 1,
     cb_boundary := cb_sequence b + 1, cb_dropped := cb_sequence b + 1,
     cb_omitted := cb_omitted b + length (cb_records b), cb_records := [], cb_baseline := [],
     cb_states := [], cb_pending := [], cb_positions := [], cb_replay := 0\<rparr>"

fun push_chunks ::
  "(nat \<Rightarrow> stamp) \<Rightarrow> (content_record \<Rightarrow> nat) \<Rightarrow> (nat \<Rightarrow> int \<Rightarrow> utf16 \<Rightarrow> content_record) \<Rightarrow> nat \<Rightarrow> utf16 list
     \<Rightarrow> int \<Rightarrow> content_buffer \<Rightarrow> (int \<times> content_buffer) option" where
  "push_chunks clock sz mk i [] off b = Some (off, b)"
| "push_chunks clock sz mk i (chunk # rest) off b =
     Option.bind (push clock sz (mk i off chunk) b) (\<lambda>(_, b').
       push_chunks clock sz mk (Suc i) rest (off + int (byteLength chunk)) b')"

datatype text_error = PartialTextWindowExceeded

text \<open>
  \<open>text\<close>.  The outer \<open>option\<close> is \<open>None\<close> when the replay loop does not end; an error keeps the changes
  made before it.
\<close>

definition text_record ::
  "content_kind \<Rightarrow> string \<Rightarrow> string \<Rightarrow> operation \<Rightarrow> nat \<Rightarrow> bool \<Rightarrow> bool \<Rightarrow> nat \<Rightarrow> nat \<Rightarrow> int \<Rightarrow> utf16 \<Rightarrow> content_record"
where
  "text_record kind turnId itemId op rv prefixKnown complete count i off chunk =
     \<lparr>cr_sequence = 0, cr_at = Instant 0, cr_kind = kind, cr_operation = (if i = 0 then op else OpAppend),
      cr_turnId = Some turnId, cr_itemId = itemId, cr_revision = rv, cr_offset = off,
      cr_prefixKnown = prefixKnown, cr_text = Some chunk, cr_total = off + int (byteLength chunk),
      cr_omitted = 0, cr_complete = (complete \<and> i = count - 1), cr_status = None, cr_tool = None\<rparr>"

definition prior_text :: "content_record option \<Rightarrow> utf16" where
  "prior_text prior = (case prior of None \<Rightarrow> [] | Some p \<Rightarrow> nullish (cr_text p) [])"

text \<open>After the chunks: the item's state becomes the kept tail, and its position is remembered.\<close>

definition finish_text ::
  "(content_record \<Rightarrow> nat) \<Rightarrow> item_key \<Rightarrow> utf16 \<Rightarrow> operation \<Rightarrow> bool \<Rightarrow> content_record option \<Rightarrow> bool
     \<Rightarrow> int \<Rightarrow> content_buffer \<Rightarrow> content_buffer" where
  "finish_text sz k t op complete prior prefixKnown offset b =
     (let tail = fst (textTail (if op = OpAppend then prior_text prior @ t else t) CONTENT_ITEM_BYTES)
      in if cb_records b = [] then b
         else let record = last (cb_records b);
                  dropped = offset - int (byteLength tail);
                  st = record\<lparr>cr_operation := OpReplace, cr_text := Some tail, cr_offset := dropped,
                         cr_total := offset, cr_omitted := dropped,
                         cr_prefixKnown := (prefixKnown \<and> dropped = 0),
                         cr_complete := (complete \<and> prefixKnown \<and> offset = int (byteLength tail))\<rparr>
              in boundStates sz (rememberPosition (record\<lparr>cr_complete := complete\<rparr>)
                   (b\<lparr>cb_states := map_refresh k st (cb_states b)\<rparr>)))"

definition write_text ::
  "(nat \<Rightarrow> stamp) \<Rightarrow> (content_record \<Rightarrow> nat) \<Rightarrow> content_kind \<Rightarrow> string \<Rightarrow> string \<Rightarrow> utf16 \<Rightarrow> operation \<Rightarrow> bool
     \<Rightarrow> content_record option \<Rightarrow> content_buffer \<Rightarrow> content_buffer option" where
  "write_text clock sz kind turnId itemId t op complete prior b =
     (let rv = (if op = OpReplace then nullish (map_option cr_revision prior) 0 + 1
                else nullish (map_option cr_revision prior) 1);
          off = (if op = OpAppend then nullish (map_option cr_total prior) 0 else 0);
          prefixKnown = (op = OpReplace \<or> off = 0 \<or> map_option cr_prefixKnown prior = Some True);
          chunks = (let cs = textChunks t CONTENT_EVENT_BYTES in if cs = [] then [[]] else cs)
      in map_option (\<lambda>(offset, b1).
           finish_text sz (keyOf (Some turnId) itemId) t op complete prior prefixKnown offset b1)
         (push_chunks clock sz
            (text_record kind turnId itemId op rv prefixKnown complete (length chunks)) 0 chunks off b))"

definition text_op ::
  "(nat \<Rightarrow> stamp) \<Rightarrow> (content_record \<Rightarrow> nat) \<Rightarrow> content_kind \<Rightarrow> string \<Rightarrow> string \<Rightarrow> utf16 \<Rightarrow> operation \<Rightarrow> bool
     \<Rightarrow> content_buffer \<Rightarrow> (text_error option \<times> content_buffer) option" where
  "text_op clock sz kind turnId itemId input op complete b =
     (let k = keyOf (Some turnId) itemId;
          prior = or_else (map_of (cb_states b) k) (map_of (cb_positions b) k)
      in if (map_option cr_complete (map_of (cb_positions b) k) = Some True
             \<or> map_option cr_complete prior = Some True) \<and> \<not> complete then Some (None, b)
         else
           let t0 = (if op = OpAppend
                     then (case map_of (cb_pending b) k of None \<Rightarrow> input | Some u \<Rightarrow> u # input) else input);
               b0 = b\<lparr>cb_pending := map_delete k (cb_pending b)\<rparr>;
               split = (\<not> complete \<and> t0 \<noteq> [] \<and> is_high (last t0))
           in if split \<and> length (cb_pending b0) \<ge> CONTENT_MAX_ITEMS
              then Some (Some PartialTextWindowExceeded, b0)
              else
                let t = (if split then butlast t0 else t0);
                    b1 = (if split then b0\<lparr>cb_pending := cb_pending b0 @ [(k, last t0)]\<rparr> else b0)
                in if op = OpReplace \<and> (case prior of None \<Rightarrow> False | Some p \<Rightarrow>
                        cr_text p = Some t \<and> cr_complete p = complete \<and> cr_omitted p = 0)
                   then Some (None, b1)
                   else if t = [] \<and> \<not> complete \<and> op = OpAppend then Some (None, b1)
                   else map_option (Pair None)
                          (write_text clock sz kind turnId itemId t op complete prior b1))"

definition lifecycle_op ::
  "(nat \<Rightarrow> stamp) \<Rightarrow> (content_record \<Rightarrow> nat) \<Rightarrow> content_kind \<Rightarrow> string option \<Rightarrow> string \<Rightarrow> string option
     \<Rightarrow> utf16 option \<Rightarrow> content_buffer \<Rightarrow> content_buffer option" where
  "lifecycle_op clock sz kind turnId itemId status txt b =
     (let k = keyOf turnId itemId;
          previous = map_of (cb_states b) k
      in if (case previous of None \<Rightarrow> False
             | Some p \<Rightarrow> cr_kind p = kind \<and> cr_status p = status \<and> cr_text p = txt) then Some b
         else map_option (\<lambda>(r, b'). boundStates sz (b'\<lparr>cb_states := map_refresh k r (cb_states b')\<rparr>))
           (push clock sz \<lparr>cr_sequence = 0, cr_at = Instant 0, cr_kind = kind, cr_operation = OpLifecycle,
              cr_turnId = turnId, cr_itemId = itemId,
              cr_revision = nullish (map_option cr_revision previous) 0 + 1, cr_offset = 0,
              cr_prefixKnown = True, cr_text = txt,
              cr_total = (case txt of None \<Rightarrow> 0 | Some t \<Rightarrow> int (byteLength t)), cr_omitted = 0,
              cr_complete = (kind = Terminal \<or> status = Some ''completed'' \<or> status = Some ''resolved''),
              cr_status = status, cr_tool = None\<rparr> b))"

datatype tool_error = ToolIdentityChanged

definition merge_tool :: "tool_observation option \<Rightarrow> tool_observation \<Rightarrow> tool_observation" where
  "merge_tool previous obs = obs
     \<lparr>to_callId := or_else (to_callId obs) (Option.bind previous to_callId),
      to_name := or_else (to_name obs) (Option.bind previous to_name),
      to_outcome := (if to_outcome obs = ToUnknown then nullish (map_option to_outcome previous) ToUnknown
                     else to_outcome obs),
      to_exitCode := or_else (to_exitCode obs) (Option.bind previous to_exitCode)\<rparr>"

definition tool_op ::
  "(nat \<Rightarrow> stamp) \<Rightarrow> (content_record \<Rightarrow> nat) \<Rightarrow> string \<Rightarrow> string \<Rightarrow> tool_observation
     \<Rightarrow> content_buffer \<Rightarrow> (tool_error option \<times> content_buffer) option" where
  "tool_op clock sz turnId itemId obs b =
     (let k = keyOf (Some turnId) itemId;
          previous = or_else (map_of (cb_states b) k) (map_of (cb_positions b) k);
          ptool = Option.bind previous cr_tool
      in if map_option to_lifecycle ptool = Some TlCompleted \<and> to_lifecycle obs \<noteq> TlCompleted
         then Some (None, b)
         else if Option.bind ptool to_callId \<noteq> None \<and> to_callId obs \<noteq> None
                 \<and> Option.bind ptool to_callId \<noteq> to_callId obs
         then Some (Some ToolIdentityChanged, b)
         else let tool = merge_tool ptool obs
              in if ptool = Some tool then Some (None, b)
                 else map_option (\<lambda>(r, b'). (None, boundStates sz (rememberPosition r
                        (b'\<lparr>cb_states := map_refresh k r (cb_states b')\<rparr>))))
                   (push clock sz \<lparr>cr_sequence = 0, cr_at = Instant 0, cr_kind = Tool,
                      cr_operation = OpLifecycle, cr_turnId = Some turnId, cr_itemId = itemId,
                      cr_revision = nullish (map_option cr_revision previous) 0 + 1, cr_offset = 0,
                      cr_prefixKnown = True, cr_text = None, cr_total = 0, cr_omitted = 0,
                      cr_complete = (to_lifecycle tool = TlCompleted),
                      cr_status = Some (lifecycle_name (to_lifecycle tool)), cr_tool = Some tool\<rparr> b))"

subsection \<open>The frame of a reader\<close>

datatype reset_reason = ResetInitial | ResetGap | ResetGeneration | ResetContext

record content_cursor =
  cc_generation :: string
  cc_sequence :: nat

record content_frame =
  fr_generation :: string
  fr_sequence :: nat
  fr_omitted :: nat
  fr_status :: buffer_status
  fr_reset :: "reset_reason option"
  fr_records :: "content_record list"
  fr_baseline :: "content_record list"

definition contentFrame :: "string \<Rightarrow> content_buffer \<Rightarrow> content_cursor option \<Rightarrow> content_frame" where
  "contentFrame generation b cursor =
     (let reset = (case cursor of
            None \<Rightarrow> Some ResetInitial
          | Some c \<Rightarrow>
              (if cc_generation c \<noteq> generation then Some ResetGeneration
               else if cc_sequence c < cb_boundary b then Some ResetContext
               else if cc_sequence c < cb_dropped b \<or> cc_sequence c > cb_sequence b then Some ResetGap
               else None))
      in \<lparr>fr_generation = generation, fr_sequence = cb_sequence b, fr_omitted = cb_omitted b,
          fr_status = cb_status b, fr_reset = reset,
          fr_records = (if reset = None then filter (\<lambda>r. cr_sequence r > (case cursor of None \<Rightarrow> 0 | Some c \<Rightarrow> cc_sequence c))
                           (cb_records b) else []),
          fr_baseline = (if reset = None then [] else cb_baseline b)\<rparr>)"

end
