(* ===== verification/ContentInv.thy ===== *)
theory ContentInv
  imports ContentBuffer
begin

text \<open>
  The invariant of the content buffer, its preservation by every operation (which shows that the
  replay loop always ends), and what it gives a reader: a cursor that is not reset sees every later
  record exactly once and in order.
\<close>

subsection \<open>The invariant\<close>

definition replay_shape :: "(content_record \<Rightarrow> nat) \<Rightarrow> content_buffer \<Rightarrow> bool" where
  "replay_shape sz b =
     (cb_dropped b \<le> cb_sequence b \<and> cb_boundary b \<le> cb_dropped b
      \<and> map cr_sequence (cb_records b) = [cb_dropped b + 1 ..< cb_sequence b + 1]
      \<and> cb_replay b = int (sum_list (map (\<lambda>r. sz r + 1) (cb_records b))))"

definition replay_inv :: "(content_record \<Rightarrow> nat) \<Rightarrow> content_buffer \<Rightarrow> bool" where
  "replay_inv sz b = (replay_shape sz b \<and> length (cb_records b) \<le> CONTENT_MAX_RECORDS
     \<and> cb_replay b \<le> CONTENT_REPLAY_BYTES)"

definition keys_inv :: "content_buffer \<Rightarrow> bool" where
  "keys_inv b =
     (distinct (map fst (cb_states b)) \<and> distinct (map fst (cb_pending b))
      \<and> length (cb_pending b) \<le> CONTENT_MAX_ITEMS
      \<and> distinct (map fst (cb_positions b)) \<and> length (cb_positions b) \<le> 256)"

definition cache_inv :: "(content_record \<Rightarrow> nat) \<Rightarrow> content_buffer \<Rightarrow> bool" where
  "cache_inv sz b = (keys_inv b \<and> cb_baseline b = map snd (cb_states b) \<and> \<not> over_baseline sz (cb_states b))"

definition buffer_inv :: "(content_record \<Rightarrow> nat) \<Rightarrow> content_buffer \<Rightarrow> bool" where
  "buffer_inv sz b = (replay_inv sz b \<and> cache_inv sz b)"

text \<open>The fields the replay loop leaves alone.\<close>

definition same_cache :: "content_buffer \<Rightarrow> content_buffer \<Rightarrow> bool" where
  "same_cache b c = (cb_states b = cb_states c \<and> cb_pending b = cb_pending c \<and> cb_positions b = cb_positions c
     \<and> cb_baseline b = cb_baseline c \<and> cb_status b = cb_status c \<and> cb_boundary b = cb_boundary c)"

lemma same_cache_refl [simp]: "same_cache b b"
  by (simp add: same_cache_def)

lemma same_cache_trans: "same_cache a b \<Longrightarrow> same_cache b c \<Longrightarrow> same_cache a c"
  by (simp add: same_cache_def)

lemma same_cache_inv: "same_cache b c \<Longrightarrow> keys_inv b = keys_inv c \<and> cache_inv sz b = cache_inv sz c"
  by (simp add: same_cache_def keys_inv_def cache_inv_def)

lemma replay_inv_cong:
  "cb_records b = cb_records c \<Longrightarrow> cb_sequence b = cb_sequence c \<Longrightarrow> cb_dropped b = cb_dropped c
     \<Longrightarrow> cb_boundary b = cb_boundary c \<Longrightarrow> cb_replay b = cb_replay c \<Longrightarrow> replay_inv sz b = replay_inv sz c"
  by (simp add: replay_inv_def replay_shape_def)

lemma new_buffer_inv: "buffer_inv sz new_buffer"
  by (simp add: buffer_inv_def replay_inv_def replay_shape_def cache_inv_def keys_inv_def new_buffer_def
      over_baseline_def array_size_def CONTENT_REPLAY_BYTES_def CONTENT_BASELINE_BYTES_def)

subsection \<open>The replay loop ends\<close>

lemma drop_overflow_ends:
  assumes "replay_shape sz b"
  shows "\<exists>b'. drop_overflow sz b = Some b' \<and> replay_inv sz b' \<and> same_cache b' b
    \<and> cb_sequence b' = cb_sequence b \<and> suffix (cb_records b') (cb_records b)"
  using assms
proof (induction "length (cb_records b)" arbitrary: b)
  case 0
  then have "drop_overflow sz b = Some b"
    by (subst drop_overflow.simps) (simp add: replay_shape_def CONTENT_REPLAY_BYTES_def)
  with 0 show ?case
    by (auto simp: replay_inv_def replay_shape_def CONTENT_REPLAY_BYTES_def)
next
  case (Suc n)
  then obtain r rest where rs: "cb_records b = r # rest" by (cases "cb_records b") auto
  show ?case
  proof (cases "length (cb_records b) > CONTENT_MAX_RECORDS \<or> cb_replay b > CONTENT_REPLAY_BYTES")
    case False
    then have "drop_overflow sz b = Some b" by (subst drop_overflow.simps) simp
    with False Suc.prems show ?thesis by (auto simp: replay_inv_def)
  next
    case True
    let ?b = "b\<lparr>cb_records := rest, cb_replay := cb_replay b - (int (sz r) + 1),
      cb_dropped := cr_sequence r, cb_omitted := cb_omitted b + 1\<rparr>"
    have "cb_dropped b < cb_sequence b"
      using Suc.prems rs by (cases "cb_dropped b < cb_sequence b") (auto simp: replay_shape_def)
    then have "[cb_dropped b + 1 ..< cb_sequence b + 1] = (cb_dropped b + 1) # [cb_dropped b + 2 ..< cb_sequence b + 1]"
      by (simp add: upt_conv_Cons del: upt_Suc)
    then have "cr_sequence r = cb_dropped b + 1"
      "map cr_sequence rest = [cb_dropped b + 2 ..< cb_sequence b + 1]"
      using Suc.prems rs by (simp_all add: replay_shape_def del: upt_Suc)
    with Suc.prems rs \<open>cb_dropped b < cb_sequence b\<close> have shape: "replay_shape sz ?b"
      by (simp add: replay_shape_def)
    have "drop_overflow sz b = drop_overflow sz ?b"
      using True rs by (subst drop_overflow.simps) simp
    moreover have "n = length (cb_records ?b)" using Suc.hyps(2) rs by simp
    ultimately show ?thesis
      using Suc.hyps(1) [of ?b] shape rs by (auto simp: same_cache_def intro: suffix_ConsI)
  qed
qed

lemma push_ends:
  assumes "replay_inv sz b"
  shows "\<exists>r b'. push clock sz input b = Some (r, b') \<and> replay_inv sz b' \<and> same_cache b' b
    \<and> cb_sequence b' = cb_sequence b + 1 \<and> r = input\<lparr>cr_sequence := cb_sequence b + 1, cr_at := clock (cb_sequence b + 1)\<rparr>
    \<and> (cb_records b' \<noteq> [] \<longrightarrow> last (cb_records b') = r)"
proof -
  let ?n = "cb_sequence b + 1"
  let ?r = "input\<lparr>cr_sequence := ?n, cr_at := clock ?n\<rparr>"
  let ?b = "b\<lparr>cb_revision := cb_revision b + 1, cb_sequence := ?n,
      cb_records := cb_records b @ [?r], cb_replay := cb_replay b + int (sz ?r) + 1\<rparr>"
  have "replay_shape sz ?b" using assms by (auto simp: replay_inv_def replay_shape_def)
  then obtain b' where b': "drop_overflow sz ?b = Some b'" "replay_inv sz b'" "same_cache b' ?b"
    "cb_sequence b' = ?n" "suffix (cb_records b') (cb_records b @ [?r])"
    using drop_overflow_ends by fastforce
  have "cb_records b' \<noteq> [] \<longrightarrow> last (cb_records b') = ?r"
    using b'(5) by (auto simp: suffix_def) (metis last_appendR last_snoc)
  moreover have "same_cache b' b" using b'(3) by (simp add: same_cache_def)
  ultimately show ?thesis using b' by (simp add: push_def Let_def)
qed

lemma push_chunks_ends:
  "replay_inv sz b \<Longrightarrow> \<exists>off' b'. push_chunks clock sz mk i chunks off b = Some (off', b')
     \<and> replay_inv sz b' \<and> same_cache b' b \<and> cb_sequence b' = cb_sequence b + length chunks
     \<and> off' = off + int (sum_list (map byteLength chunks))"
proof (induction chunks arbitrary: i off b)
  case Nil
  then show ?case by simp
next
  case (Cons c cs)
  obtain r b1 where b1: "push clock sz (mk i off c) b = Some (r, b1)" "replay_inv sz b1" "same_cache b1 b"
    "cb_sequence b1 = cb_sequence b + 1"
    using push_ends [OF Cons.prems] by blast
  from Cons.IH [OF b1(2)] obtain off' b' where
    "push_chunks clock sz mk (Suc i) cs (off + int (byteLength c)) b1 = Some (off', b')"
    "replay_inv sz b'" "same_cache b' b1" "cb_sequence b' = cb_sequence b1 + length cs"
    "off' = off + int (byteLength c) + int (sum_list (map byteLength cs))"
    by blast
  with b1 show ?case by (auto intro: same_cache_trans)
qed

subsection \<open>The baseline stays bounded\<close>

lemma fst_map_delete: "map fst (map_delete k m) = filter (\<lambda>x. x \<noteq> k) (map fst m)"
  by (induction m) (simp_all add: map_delete_def)

lemma distinct_map_delete [intro]: "distinct (map fst m) \<Longrightarrow> distinct (map fst (map_delete k m))"
  by (simp add: fst_map_delete)

lemma distinct_map_refresh [intro]: "distinct (map fst m) \<Longrightarrow> distinct (map fst (map_refresh k v m))"
  by (simp add: map_refresh_def fst_map_delete)

lemma length_map_delete: "length (map_delete k m) \<le> length m"
  by (simp add: map_delete_def)

lemma map_of_map_refresh [simp]: "map_of (map_refresh k v m) k' = (if k' = k then Some v else map_of m k')"
  by (induction m) (auto simp: map_refresh_def map_delete_def map_add_def)

definition same_replay :: "content_buffer \<Rightarrow> content_buffer \<Rightarrow> bool" where
  "same_replay b c = (cb_records b = cb_records c \<and> cb_sequence b = cb_sequence c \<and> cb_dropped b = cb_dropped c
     \<and> cb_boundary b = cb_boundary c \<and> cb_replay b = cb_replay c \<and> cb_status b = cb_status c
     \<and> cb_revision b = cb_revision c)"

lemma same_replay_inv: "same_replay b c \<Longrightarrow> replay_inv sz b = replay_inv sz c"
  unfolding same_replay_def by (rule replay_inv_cong) simp_all

lemma bound_loop_props:
  "same_replay (bound_loop sz b) b \<and> \<not> over_baseline sz (cb_states (bound_loop sz b))
   \<and> (keys_inv b \<longrightarrow> keys_inv (bound_loop sz b)) \<and> set (cb_states (bound_loop sz b)) \<subseteq> set (cb_states b)"
proof (induction sz b rule: bound_loop.induct)
  case (1 sz b)
  show ?case
  proof (cases "over_baseline sz (cb_states b)")
    case False
    then show ?thesis by (subst (1 2 3 4) bound_loop.simps) (simp add: same_replay_def)
  next
    case True
    show ?thesis
    proof (cases "eviction_candidate (cb_states b)")
      case None
      then have "cb_states b = []"
        by (auto simp: eviction_candidate_def or_else_def split: option.splits list.splits)
      with True show ?thesis
        by (simp add: over_baseline_def array_size_def CONTENT_BASELINE_BYTES_def)
    next
      case (Some e)
      let ?b = "b\<lparr>cb_states := map_delete (fst e) (cb_states b),
            cb_pending := map_delete (fst e) (cb_pending b), cb_omitted := cb_omitted b + 1\<rparr>"
      have eq: "bound_loop sz b = bound_loop sz ?b"
        using True Some by (subst bound_loop.simps) (simp add: case_prod_beta)
      have "keys_inv b \<Longrightarrow> keys_inv ?b"
        using length_map_delete [of "fst e" "cb_pending b"] by (auto simp: keys_inv_def)
      moreover have "set (map_delete (fst e) (cb_states b)) \<subseteq> set (cb_states b)"
        by (auto simp: map_delete_def)
      moreover have "same_replay ?b b" by (simp add: same_replay_def)
      moreover have "same_replay (bound_loop sz ?b) ?b \<and> \<not> over_baseline sz (cb_states (bound_loop sz ?b))
        \<and> (keys_inv ?b \<longrightarrow> keys_inv (bound_loop sz ?b)) \<and> set (cb_states (bound_loop sz ?b)) \<subseteq> set (cb_states ?b)"
        using 1 [OF True Some, of "fst e" "snd e"] by simp
      ultimately show ?thesis unfolding eq by (auto simp: same_replay_def)
    qed
  qed
qed

lemma boundStates_inv:
  assumes "replay_inv sz b" "keys_inv b"
  shows "buffer_inv sz (boundStates sz b)"
proof -
  have "same_replay (boundStates sz b) b"
    using bound_loop_props [of sz b] by (simp add: boundStates_def Let_def same_replay_def)
  then show ?thesis
    using assms bound_loop_props [of sz b] same_replay_inv [of "boundStates sz b" b sz]
    by (simp add: buffer_inv_def cache_inv_def boundStates_def Let_def keys_inv_def)
qed

lemma rememberPosition_keys: "keys_inv b \<Longrightarrow> keys_inv (rememberPosition r b)"
  by (auto simp: rememberPosition_def keys_inv_def drop_oldest_def Let_def drop_map [symmetric]
      intro!: distinct_drop)

lemma rememberPosition_replay: "replay_inv sz (rememberPosition r b) = replay_inv sz b"
  by (simp add: rememberPosition_def replay_inv_def replay_shape_def Let_def)

subsection \<open>Every operation keeps the invariant\<close>

lemma keys_refresh: "keys_inv b \<Longrightarrow> keys_inv (b\<lparr>cb_states := map_refresh k v (cb_states b)\<rparr>)"
  by (auto simp: keys_inv_def)

lemma replay_states [simp]:
  "replay_inv sz (b\<lparr>cb_states := x\<rparr>) = replay_inv sz b"
  "replay_inv sz (b\<lparr>cb_pending := y\<rparr>) = replay_inv sz b"
  by (simp_all add: replay_inv_def replay_shape_def)

lemma finish_text_inv:
  assumes "replay_inv sz b" "cache_inv sz b"
  shows "buffer_inv sz (finish_text sz k t op complete prior prefixKnown offset b)"
proof (cases "cb_records b = []")
  case True
  with assms show ?thesis by (simp add: finish_text_def buffer_inv_def)
next
  case False
  have "keys_inv b" using assms(2) by (simp add: cache_inv_def)
  with False assms(1) show ?thesis
    by (simp add: finish_text_def Let_def boundStates_inv rememberPosition_keys rememberPosition_replay keys_refresh)
qed

lemma write_text_inv:
  assumes "replay_inv sz b" "cache_inv sz b"
  shows "\<exists>b'. write_text clock sz kind turnId itemId t op complete prior b = Some b' \<and> buffer_inv sz b'"
proof -
  have "\<exists>b'. map_option (\<lambda>(off', b1). finish_text sz k t op complete prior pk off' b1)
      (push_chunks clock sz mk i chunks off b) = Some b' \<and> buffer_inv sz b'" for k pk mk i chunks off
  proof -
    obtain off' b1 where p: "push_chunks clock sz mk i chunks off b = Some (off', b1)"
      "replay_inv sz b1" "same_cache b1 b"
      using push_chunks_ends [OF assms(1)] by blast
    with assms(2) have "cache_inv sz b1" using same_cache_inv by blast
    with p show ?thesis by (simp add: finish_text_inv)
  qed
  then show ?thesis unfolding write_text_def Let_def by blast
qed

lemma cache_pending:
  assumes "cache_inv sz b" "distinct (map fst p)" "length p \<le> CONTENT_MAX_ITEMS"
  shows "cache_inv sz (b\<lparr>cb_pending := p\<rparr>)"
  using assms by (simp add: cache_inv_def keys_inv_def)

text \<open>An operation returns, into a state with a property.\<close>

definition returns :: "('s \<Rightarrow> bool) \<Rightarrow> ('e \<times> 's) option \<Rightarrow> bool" where
  "returns Q x = (\<exists>e s. x = Some (e, s) \<and> Q s)"

lemma returns_simps [simp]:
  "returns Q (Some (e, s)) = Q s"
  "returns Q (if c then x else y) = (if c then returns Q x else returns Q y)"
  by (auto simp: returns_def)

lemma text_op_inv:
  assumes "buffer_inv sz b"
  shows "\<exists>e b'. text_op clock sz kind turnId itemId input op complete b = Some (e, b') \<and> buffer_inv sz b'"
proof -
  let ?k = "keyOf (Some turnId) itemId"
  let ?p = "map_delete ?k (cb_pending b)"
  have inv: "replay_inv sz b" "cache_inv sz b" using assms by (simp_all add: buffer_inv_def)
  have p: "distinct (map fst ?p)" "length ?p \<le> CONTENT_MAX_ITEMS" "?k \<notin> fst ` set ?p"
    using inv(2) le_trans [OF length_map_delete [of ?k "cb_pending b"]]
    by (auto simp: cache_inv_def keys_inv_def) (auto simp: map_delete_def)
  have c0: "cache_inv sz (b\<lparr>cb_pending := ?p\<rparr>)" using cache_pending [OF inv(2) p(1,2)] .
  have c1: "cache_inv sz (b\<lparr>cb_pending := ?p @ [(?k, u)]\<rparr>)" if "\<not> length ?p \<ge> CONTENT_MAX_ITEMS" for u
    using cache_pending [OF inv(2), of "?p @ [(?k, u)]"] p that by auto
  have i0: "buffer_inv sz (b\<lparr>cb_pending := ?p\<rparr>)" using inv(1) c0 by (simp add: buffer_inv_def)
  have i1: "buffer_inv sz (b\<lparr>cb_pending := ?p @ [(?k, u)]\<rparr>)" if "\<not> length ?p \<ge> CONTENT_MAX_ITEMS" for u
    using inv(1) c1 [OF that] by (simp add: buffer_inv_def)
  have w: "returns (buffer_inv sz) (map_option (Pair (None :: text_error option))
      (write_text clock sz kind turnId itemId t op complete prior b1))" if inv1: "buffer_inv sz b1" for t prior b1
  proof -
    obtain b' where "write_text clock sz kind turnId itemId t op complete prior b1 = Some b'" "buffer_inv sz b'"
      using write_text_inv [of sz b1 clock kind turnId itemId t op complete prior] inv1
      by (auto simp: buffer_inv_def)
    then show ?thesis by (simp add: returns_def)
  qed
  have "returns (buffer_inv sz) (text_op clock sz kind turnId itemId input op complete b)"
    unfolding text_op_def Let_def returns_simps(2) using assms i0 i1 w [OF i0] w [OF i1] by auto
  then show ?thesis by (simp add: returns_def)
qed

lemma push_state_inv:
  assumes "buffer_inv sz b"
    and "\<And>r b1. replay_inv sz b1 \<Longrightarrow> cache_inv sz b1 \<Longrightarrow> buffer_inv sz (f r b1)"
  shows "\<exists>b'. map_option (\<lambda>(r, b1). f r b1) (push clock sz input b) = Some b' \<and> buffer_inv sz b'"
proof -
  obtain r b1 where p: "push clock sz input b = Some (r, b1)" "replay_inv sz b1" "same_cache b1 b"
    using push_ends assms(1) unfolding buffer_inv_def by blast
  moreover have "cache_inv sz b1" using p(3) assms(1) same_cache_inv by (auto simp: buffer_inv_def)
  ultimately show ?thesis using assms(2) by simp
qed

lemma lifecycle_op_inv:
  assumes "buffer_inv sz b"
  shows "\<exists>b'. lifecycle_op clock sz kind turnId itemId status txt b = Some b' \<and> buffer_inv sz b'"
proof -
  have "buffer_inv sz (boundStates sz (b1\<lparr>cb_states := map_refresh k r (cb_states b1)\<rparr>))"
    if "replay_inv sz b1" "cache_inv sz b1" for k r b1
    using that by (simp add: boundStates_inv keys_refresh cache_inv_def)
  from push_state_inv [OF assms, of "\<lambda>r b1. boundStates sz (b1\<lparr>cb_states := map_refresh (keyOf turnId itemId) r (cb_states b1)\<rparr>)", OF this]
  show ?thesis
    unfolding lifecycle_op_def Let_def using assms by (simp split: option.splits)
qed

lemma tool_op_inv:
  assumes "buffer_inv sz b"
  shows "\<exists>e b'. tool_op clock sz turnId itemId obs b = Some (e, b') \<and> buffer_inv sz b'"
proof -
  let ?f = "\<lambda>r b1. boundStates sz (rememberPosition r (b1\<lparr>cb_states := map_refresh (keyOf (Some turnId) itemId) r (cb_states b1)\<rparr>))"
  have f: "buffer_inv sz (?f r b1)" if "replay_inv sz b1" "cache_inv sz b1" for r b1
    using that by (simp add: boundStates_inv rememberPosition_keys rememberPosition_replay keys_refresh cache_inv_def)
  have "\<exists>b'. map_option (\<lambda>(r, b1). (None :: tool_error option, ?f r b1)) (push clock sz input b) = Some (None, b') \<and> buffer_inv sz b'" for input
    using push_state_inv [OF assms, of ?f, OF f, where input = input and clock = clock] by (cases "push clock sz input b") auto
  then have w: "returns (buffer_inv sz) (map_option (\<lambda>(r, b1). (None :: tool_error option, ?f r b1)) (push clock sz input b))" for input
    unfolding returns_def by blast
  have "returns (buffer_inv sz) (tool_op clock sz turnId itemId obs b)"
    unfolding tool_op_def Let_def returns_simps(2) using assms w by (simp del: returns_simps(2))
  then show ?thesis by (simp add: returns_def)
qed

lemma noteOmitted_inv: "buffer_inv sz b \<Longrightarrow> buffer_inv sz (noteOmitted n b)"
  by (simp add: noteOmitted_def buffer_inv_def replay_inv_def replay_shape_def cache_inv_def keys_inv_def)

lemma unavailable_inv: "buffer_inv sz b \<Longrightarrow> buffer_inv sz (unavailable b)"
  by (simp add: unavailable_def buffer_inv_def replay_inv_def replay_shape_def cache_inv_def keys_inv_def)

lemma resetContext_inv: "buffer_inv sz b \<Longrightarrow> buffer_inv sz (resetContext b)"
  by (simp add: resetContext_def buffer_inv_def replay_inv_def replay_shape_def cache_inv_def keys_inv_def
      over_baseline_def array_size_def CONTENT_REPLAY_BYTES_def CONTENT_BASELINE_BYTES_def)

subsection \<open>The buffer as a machine\<close>

datatype content_op =
  TextOp content_kind string string utf16 operation bool
| LifecycleOp content_kind "string option" string "string option" "utf16 option"
| ToolOp string string tool_observation
| NoteOmitted nat
| MarkUnavailable
| ResetContext

text \<open>A buffer whose operation did not return stays as it was; the invariant excludes that case.\<close>

fun content_step ::
  "(nat \<Rightarrow> stamp) \<Rightarrow> (content_record \<Rightarrow> nat) \<Rightarrow> content_op \<Rightarrow> content_buffer \<Rightarrow> content_buffer" where
  "content_step clock sz (TextOp kind turnId itemId t op complete) b =
     (case text_op clock sz kind turnId itemId t op complete b of None \<Rightarrow> b | Some (_, b') \<Rightarrow> b')"
| "content_step clock sz (LifecycleOp kind turnId itemId status txt) b =
     nullish (lifecycle_op clock sz kind turnId itemId status txt b) b"
| "content_step clock sz (ToolOp turnId itemId obs) b =
     (case tool_op clock sz turnId itemId obs b of None \<Rightarrow> b | Some (_, b') \<Rightarrow> b')"
| "content_step clock sz (NoteOmitted n) b = noteOmitted n b"
| "content_step clock sz MarkUnavailable b = unavailable b"
| "content_step clock sz ResetContext b = resetContext b"

lemma content_step_inv: "buffer_inv sz b \<Longrightarrow> buffer_inv sz (content_step clock sz e b)"
proof (cases e)
  case (TextOp kd turnId itemId t oper compl)
  moreover assume "buffer_inv sz b"
  ultimately show ?thesis using text_op_inv [of sz b clock kd turnId itemId t oper compl] by auto
next
  case (LifecycleOp kd turnId itemId st tx)
  moreover assume "buffer_inv sz b"
  ultimately show ?thesis using lifecycle_op_inv [of sz b clock kd turnId itemId st tx] by auto
next
  case (ToolOp turnId itemId obs)
  moreover assume "buffer_inv sz b"
  ultimately show ?thesis using tool_op_inv [of sz b clock turnId itemId obs] by auto
qed (simp_all add: noteOmitted_inv unavailable_inv resetContext_inv)

interpretation content_machine: state_machine "content_step clock sz" "buffer_inv sz"
  by unfold_locales (rule content_step_inv)

subsection \<open>What a reader sees\<close>

lemma filter_above:
  "map f xs = [m ..< n] \<Longrightarrow> m \<le> Suc k \<Longrightarrow> map f (filter (\<lambda>x. k < f x) xs) = [Suc k ..< n]"
proof -
  assume eq: "map f xs = [m ..< n]" and k: "m \<le> Suc k"
  have "map f (filter (\<lambda>x. k < f x) xs) = filter ((<) k) (map f xs)" by (simp add: filter_map o_def)
  also have "\<dots> = [Suc k ..< n]"
  proof (cases "Suc k \<le> n")
    case True
    then have "[m ..< n] = [m ..< Suc k] @ [Suc k ..< n]"
      using k by (metis le_Suc_ex upt_add_eq_append)
    moreover have "filter ((<) k) [m ..< Suc k] = []" by (simp only: filter_empty_conv set_upt) auto
    moreover have "filter ((<) k) [Suc k ..< n] = [Suc k ..< n]" by (simp only: filter_id_conv set_upt) auto
    ultimately show ?thesis unfolding eq by (simp del: upt_Suc)
  next
    case False
    then have "filter ((<) k) [m ..< n] = []" by (simp only: filter_empty_conv set_upt) auto
    with False show ?thesis unfolding eq by (simp del: upt_Suc)
  qed
  finally show ?thesis .
qed

lemma contentFrame_records:
  assumes "buffer_inv sz b" "fr_reset (contentFrame g b (Some c)) = None"
  shows "map cr_sequence (fr_records (contentFrame g b (Some c))) = [cc_sequence c + 1 ..< cb_sequence b + 1]"
    and "cc_generation c = g" and "cb_boundary b \<le> cc_sequence c" and "cc_sequence c \<le> cb_sequence b"
proof -
  from assms(2) have c: "cc_generation c = g" "cb_boundary b \<le> cc_sequence c"
    "cb_dropped b \<le> cc_sequence c" "cc_sequence c \<le> cb_sequence b"
    by (auto simp: contentFrame_def Let_def split: if_splits)
  then have "fr_records (contentFrame g b (Some c)) = filter (\<lambda>r. cc_sequence c < cr_sequence r) (cb_records b)"
    by (simp add: contentFrame_def)
  then show "map cr_sequence (fr_records (contentFrame g b (Some c))) = [cc_sequence c + 1 ..< cb_sequence b + 1]"
    using assms(1) c(3) filter_above [of cr_sequence "cb_records b" "cb_dropped b + 1" "cb_sequence b + 1" "cc_sequence c"]
    by (simp add: buffer_inv_def replay_inv_def replay_shape_def)
  from c show "cc_generation c = g" "cb_boundary b \<le> cc_sequence c" "cc_sequence c \<le> cb_sequence b" by simp_all
qed

text \<open>A cursor is reset exactly when something it has not read is gone, or the stream is another one.\<close>

lemma contentFrame_reset_iff:
  "fr_reset (contentFrame g b cursor) = None \<longleftrightarrow>
     (\<exists>c. cursor = Some c \<and> cc_generation c = g \<and> cb_boundary b \<le> cc_sequence c
        \<and> cb_dropped b \<le> cc_sequence c \<and> cc_sequence c \<le> cb_sequence b)"
  by (auto simp: contentFrame_def Let_def split: option.splits)

text \<open>A reset reader gets the baseline, which is the state of every item the buffer still holds.\<close>

lemma contentFrame_baseline:
  assumes "buffer_inv sz b" "fr_reset (contentFrame g b cursor) \<noteq> None"
  shows "fr_baseline (contentFrame g b cursor) = map snd (cb_states b)
    \<and> length (fr_baseline (contentFrame g b cursor)) \<le> CONTENT_MAX_ITEMS"
  using assms
  by (auto simp: contentFrame_def Let_def buffer_inv_def cache_inv_def over_baseline_def)


end
