(* ===== verification/ContentWriter.thy ===== *)
theory ContentWriter
  imports ContentInv Registry
begin

text \<open>
  Publication of the content buffer: the coalescing writer (\<open>src/content/store.ts\<close>), the producer that
  offers a changed buffer (\<open>producer.ts\<close>), and the identity check of a read (\<open>readContent\<close> in
  \<open>read.ts\<close>).

  The writer is a step relation, because its timer, its one running write and its callers interleave.
  The buffer appears as its revision number: the offered thunk reads the buffer when the write
  starts, so what a write stores is the revision of that moment.  \<open>w_accepted\<close> records the revision at
  the last offer an open writer took; no decision reads it.
\<close>

record writer =
  w_buffer :: nat
  w_offered :: "nat option"
  w_accepted :: "nat option"
  w_timer :: bool
  w_next :: bool
  w_writing :: "nat option"
  w_disk :: "nat option"
  w_error :: bool
  w_closed :: bool

definition new_writer :: writer where
  "new_writer = \<lparr>w_buffer = 0, w_offered = None, w_accepted = None, w_timer = False, w_next = False, w_writing = None,
     w_disk = None, w_error = False, w_closed = False\<rparr>"

text \<open>\<open>offer\<close>: \<open>None\<close> is the error of an unhealthy writer.\<close>

definition offer :: "writer \<Rightarrow> writer option" where
  "offer w = (if w_closed w then Some w
     else if w_error w then None
     else Some (w\<lparr>w_next := True, w_accepted := Some (w_buffer w), w_timer := (if w_writing w = None then True else w_timer w)\<rparr>))"

definition publish :: "writer \<Rightarrow> writer option" where
  "publish w = (if w_error w then None
     else if w_offered w = Some (w_buffer w) then Some w
     else map_option (\<lambda>w'. w'\<lparr>w_offered := Some (w_buffer w)\<rparr>) (offer w))"

text \<open>\<open>flush\<close>: whether it threw (the snapshot does not fit), and the writer it leaves.\<close>

definition flush :: "(nat \<Rightarrow> bool) \<Rightarrow> writer \<Rightarrow> bool \<times> writer" where
  "flush fits w =
     (let w1 = w\<lparr>w_timer := False\<rparr>
      in if w_writing w \<noteq> None then (False, w1)
         else if \<not> w_next w then (False, w1)
         else if \<not> fits (w_buffer w) then (True, w1\<lparr>w_next := False\<rparr>)
         else (False, w1\<lparr>w_next := False, w_writing := Some (w_buffer w)\<rparr>))"

text \<open>The end of a write: the file holds it, or the write failed; then the next one is scheduled.\<close>

definition settle_write :: "bool \<Rightarrow> writer \<Rightarrow> writer" where
  "settle_write ok w =
     w\<lparr>w_disk := (if ok then w_writing w else w_disk w), w_writing := None,
       w_timer := (if w_next w \<and> \<not> w_closed w then True else w_timer w)\<rparr>"

inductive writer_step :: "(nat \<Rightarrow> bool) \<Rightarrow> writer \<Rightarrow> writer \<Rightarrow> bool" for fits where
  change: "writer_step fits w (w\<lparr>w_buffer := w_buffer w + 1\<rparr>)"
| publish: "publish w = Some w' \<Longrightarrow> writer_step fits w w'"
| timer: "w_timer w \<Longrightarrow> flush fits w = (threw, w') \<Longrightarrow>
    writer_step fits w (w'\<lparr>w_error := w_error w' \<or> threw\<rparr>)"
| flush: "flush fits w = (False, w') \<Longrightarrow> writer_step fits w w'"
| flush_throws: "flush fits w = (True, w') \<Longrightarrow> writer_step fits w (w'\<lparr>w_error := True\<rparr>)"
| written: "w_writing w \<noteq> None \<Longrightarrow> writer_step fits w (settle_write True w)"
| write_failed: "w_writing w \<noteq> None \<Longrightarrow> writer_step fits w ((settle_write False w)\<lparr>w_error := True\<rparr>)"
| close: "writer_step fits w (w\<lparr>w_closed := True\<rparr>)"

inductive_cases writer_stepE: "writer_step fits w w'"

inductive writer_reach :: "(nat \<Rightarrow> bool) \<Rightarrow> writer \<Rightarrow> bool" for fits where
  start: "writer_reach fits new_writer"
| step: "writer_reach fits w \<Longrightarrow> writer_step fits w w' \<Longrightarrow> writer_reach fits w'"

text \<open>
  Nothing an open writer took is lost: it is on disk, in the running write, or still to be written,
  unless a write failed.
\<close>

definition at_least :: "nat option \<Rightarrow> nat \<Rightarrow> bool" where
  "at_least x n = (case x of None \<Rightarrow> False | Some k \<Rightarrow> n \<le> k)"

definition writer_inv :: "writer \<Rightarrow> bool" where
  "writer_inv w = (case w_accepted w of None \<Rightarrow> True | Some n \<Rightarrow> n \<le> w_buffer w
     \<and> (w_error w \<or> w_next w \<or> at_least (w_writing w) n \<or> w_writing w = None \<and> at_least (w_disk w) n))"

text \<open>While the writer is open and healthy, work to do is never left without a wake-up.\<close>

definition writer_awake :: "writer \<Rightarrow> bool" where
  "writer_awake w = (w_next w \<and> \<not> w_closed w \<and> \<not> w_error w \<longrightarrow> w_timer w \<or> w_writing w \<noteq> None)"

lemmas writer_ops = offer_def publish_def flush_def settle_write_def at_least_def

lemma writer_step_inv: "writer_step fits w w' \<Longrightarrow> writer_inv w \<Longrightarrow> writer_inv w'"
  by (erule writer_stepE)
    (auto simp: writer_inv_def writer_ops Let_def split: if_splits option.splits)

lemma writer_step_awake: "writer_step fits w w' \<Longrightarrow> writer_awake w \<Longrightarrow> writer_awake w'"
  by (erule writer_stepE) (auto simp: writer_awake_def writer_ops Let_def split: if_splits)

lemma writer_reach_inv: "writer_reach fits w \<Longrightarrow> writer_inv w \<and> writer_awake w"
proof (induction rule: writer_reach.induct)
  case start
  show ?case by (simp add: writer_inv_def writer_awake_def new_writer_def)
next
  case (step w w')
  then show ?case using writer_step_inv writer_step_awake by blast
qed

text \<open>
  \<open>flushPending\<close> returns when nothing is queued and no write runs.  What it guarantees to its caller:
\<close>

definition drained :: "writer \<Rightarrow> bool" where
  "drained w = (\<not> w_next w \<and> w_writing w = None \<and> \<not> w_error w)"

lemma writer_drained:
  assumes "writer_reach fits w" "drained w" "w_accepted w = Some n"
  shows "\<exists>k\<ge>n. w_disk w = Some k"
  using writer_reach_inv [OF assms(1)] assms
  by (auto simp: writer_inv_def drained_def at_least_def split: option.splits)

subsection \<open>Reading another process's content file\<close>

record content_snapshot =
  cs_target :: managed_peer
  cs_registrationGeneration :: "string option"
  cs_nativeId :: string
  cs_generation :: string
  cs_buffer :: content_buffer

datatype read_error = ContentUnavailable

text \<open>\<open>live_generation\<close> is the generation of the live owner's status, \<open>None\<close> when it is not live.\<close>

definition readContent ::
  "string \<Rightarrow> session \<Rightarrow> content_snapshot option \<Rightarrow> string option \<Rightarrow> content_cursor option
     \<Rightarrow> read_error + content_frame" where
  "readContent rcPrefix s snapshot live_generation cursor =
     (case snapshot of
        None \<Rightarrow> Inl ContentUnavailable
      | Some c \<Rightarrow>
          (if mp_machine (cs_target c) \<noteq> rcPrefix \<or> mp_session (cs_target c) \<noteq> s_name s
              \<or> mp_thread (cs_target c) \<noteq> s_uuid s \<or> mp_agent (cs_target c) \<noteq> s_agent s
              \<or> cs_registrationGeneration c \<noteq> s_generation s
              \<or> cs_nativeId c \<noteq> (case s_native s of None \<Rightarrow> s_uuid s | Some ns \<Rightarrow> ns_id ns)
           then Inl ContentUnavailable
           else let frame = contentFrame (cs_generation c) (cs_buffer c) cursor
                in Inr (if live_generation = Some (cs_generation c) then frame
                        else frame\<lparr>fr_status := BufUnavailable, fr_records := [], fr_baseline := []\<rparr>)))"

lemma readContent_stale:
  assumes "readContent rcPrefix s snapshot live cursor = Inr f" "fr_records f \<noteq> [] \<or> fr_baseline f \<noteq> []"
  shows "\<exists>c. snapshot = Some c \<and> live = Some (cs_generation c) \<and> mp_thread (cs_target c) = s_uuid s
    \<and> cs_registrationGeneration c = s_generation s
    \<and> f = contentFrame (cs_generation c) (cs_buffer c) cursor"
  using assms by (auto simp: readContent_def Let_def split: option.splits if_splits)

end
