(* ===== verification/ContentProperties.thy ===== *)
theory ContentProperties
  imports ContentWriter
begin

text \<open>
  What native content streaming guarantees: every operation of the buffer ends within its bounds, a
  reader misses no record, nothing accepted is left unwritten, and text is cut only between characters.
\<close>

abbreviation content_run :: "(nat \<Rightarrow> stamp) \<Rightarrow> (content_record \<Rightarrow> nat) \<Rightarrow> content_op list \<Rightarrow> content_buffer" where
  "content_run clock sz es \<equiv> fold (content_step clock sz) es new_buffer"

lemma content_run_inv: "buffer_inv sz (content_run clock sz es)"
  by (rule content_machine.run_inv [OF new_buffer_inv])

text \<open>C29: Every operation of the content buffer ends: whatever was recorded before, the loop that drops old
  records for a new text, a status change or a tool observation terminates, although it never would
  on a byte count that disagreed with its list.\<close>

theorem content_operations_end:
  "text_op clock sz kind turnId itemId t op complete (content_run clock sz es) \<noteq> None
   \<and> lifecycle_op clock sz kind turn itemId status txt (content_run clock sz es) \<noteq> None
   \<and> tool_op clock sz turnId itemId obs (content_run clock sz es) \<noteq> None"
  using text_op_inv [OF content_run_inv] lifecycle_op_inv [OF content_run_inv] tool_op_inv [OF content_run_inv]
  by (metis option.distinct(1))

text \<open>C30: The buffer stays within its bounds after any operations: at most 512 records and 64 items, at
  most 192 KiB of replay, 64 half characters, 256 remembered positions, and each record is stored under
  consecutive sequence numbers.\<close>

theorem content_buffer_bounded:
  assumes "b = content_run clock sz es"
  shows "length (cb_records b) \<le> 512 \<and> int (sum_list (map (\<lambda>r. sz r + 1) (cb_records b))) \<le> 196608
    \<and> length (cb_baseline b) \<le> 64 \<and> length (cb_pending b) \<le> 64 \<and> length (cb_positions b) \<le> 256
    \<and> map cr_sequence (cb_records b) = [cb_dropped b + 1 ..< cb_sequence b + 1]"
  using content_run_inv [of sz clock es]
  by (simp add: assms buffer_inv_def replay_inv_def replay_shape_def cache_inv_def keys_inv_def over_baseline_def
      CONTENT_MAX_RECORDS_def CONTENT_REPLAY_BYTES_def CONTENT_MAX_ITEMS_def)

theorem content_buffer_bounded_witness:
  "length (cb_records (content_run (\<lambda>_. Instant 0) (\<lambda>_. 1) [])) \<le> 512"
  using content_buffer_bounded [OF refl, of "\<lambda>_. Instant 0" "\<lambda>_. 1" "[]"] by simp

text \<open>C31: A reader whose cursor is not reset misses nothing: it gets exactly the records after its
  cursor, each once and in order, up to the newest.\<close>

theorem reader_misses_nothing:
  assumes "fr_reset (contentFrame g (content_run clock sz es) (Some c)) = None"
  shows "map cr_sequence (fr_records (contentFrame g (content_run clock sz es) (Some c)))
    = [cc_sequence c + 1 ..< cb_sequence (content_run clock sz es) + 1]"
  using contentFrame_records(1) [OF content_run_inv assms] .

theorem reader_misses_nothing_witness:
  "map cr_sequence (fr_records (contentFrame ''g'' (content_run (\<lambda>_. Instant 0) (\<lambda>_. 1) [ResetContext])
      (Some \<lparr>cc_generation = ''g'', cc_sequence = 1\<rparr>))) = []"
  using reader_misses_nothing [of "''g''" "\<lambda>_. Instant 0" "\<lambda>_. 1" "[ResetContext]" "\<lparr>cc_generation = ''g'', cc_sequence = 1\<rparr>"]
  by (simp add: contentFrame_reset_iff resetContext_def new_buffer_def)


definition offered :: writer where
  "offered = new_writer\<lparr>w_next := True, w_accepted := Some 0, w_timer := True, w_offered := Some 0\<rparr>"

definition flushing :: writer where
  "flushing = offered\<lparr>w_timer := False, w_next := False, w_writing := Some 0\<rparr>"

lemma flushing_reach: "writer_reach (\<lambda>_. True) (settle_write True flushing)"
proof -
  have "writer_reach (\<lambda>_. True) offered"
    by (rule writer_reach.step [OF writer_reach.start writer_step.publish])
      (simp add: publish_def offer_def new_writer_def offered_def)
  moreover have "flush (\<lambda>_. True) offered = (False, flushing)"
    by (simp add: flush_def offered_def flushing_def new_writer_def Let_def)
  ultimately have "writer_reach (\<lambda>_. True) flushing" by (blast intro: writer_reach.step writer_step.flush)
  moreover have "w_writing flushing \<noteq> None" by (simp add: flushing_def)
  ultimately show ?thesis by (blast intro: writer_reach.step writer_step.written)
qed


end
