(* ===== verification/AppInv.thy ===== *)
theory AppInv
  imports DeliverPass NativeInv
begin

text \<open>
  Every letter starts at most one turn in its Codex App thread, wherever the daemon dies.  The stored
  state is that of \<open>NativeInv\<close>; \<open>nw_written\<close> lists the letters whose turn the App Server started, and
  the input slot is not used.

  A request to start a turn may fail after the server took it, so a request that was sent may have
  landed whenever the pass does not say that it was delivered.  Assumed of the server: the proof of a
  persisted client id answers exactly whether the turn was started before.
\<close>

fun app_apply :: "bool \<Rightarrow> dv_effect \<Rightarrow> native_world \<Rightarrow> native_world" where
  "app_apply landed (DSave cs) w = w\<lparr>nw_cursors := cs\<lparr>c_read := furthest (c_read (nw_cursors w)) (c_read cs)\<rparr>\<rparr>"
| "app_apply landed (DAck i) w = w\<lparr>nw_acks := appendAck (nw_acks w) i ByDaemon\<rparr>"
| "app_apply landed (DStart i) w = (if landed then w\<lparr>nw_written := nw_written w @ [i]\<rparr> else w)"
| "app_apply landed _ w = w"

text \<open>The cursors in memory agree with the stored ones on this recipient.\<close>

definition agree :: "string \<Rightarrow> cursors \<Rightarrow> cursors \<Rightarrow> bool" where
  "agree key cs cs' = (c_pickups cs key = c_pickups cs' key \<and> c_delivered cs key = c_delivered cs' key)"

definition app_reads :: "string \<Rightarrow> native_world \<Rightarrow> pass_facts \<Rightarrow> app_env \<Rightarrow> app_state \<Rightarrow> bool" where
  "app_reads key w c e a = (pf_ledger c = nw_ledger w \<and> av_ackedNow e = loadAckedIds (nw_acks w)
     \<and> agree key (aa_cursors a) (nw_cursors w) \<and> aa_effects a = []
     \<and> (\<forall>pk. c_pickups (nw_cursors w) key = Some pk \<longrightarrow>
          as_persisted (av_server e) = Inr (pk_message pk \<in> set (nw_written w))))"

inductive app_step :: "string \<Rightarrow> native_world \<Rightarrow> native_world \<Rightarrow> bool" for key where
  pass: "app_reads key w c e a \<Longrightarrow> a' = app_turn c e key recipient a \<Longrightarrow> agree key cs (aa_cursors a') \<Longrightarrow>
    (aa_deliveries a < aa_deliveries a' \<longrightarrow> landed) \<Longrightarrow>
    app_step key w (fold (app_apply landed) (take k (aa_effects a' @ [DSave cs])) w)"
| append: "(case slot of None \<Rightarrow> True | Some msg \<Rightarrow> fresh_id w (m_id msg)) \<Longrightarrow>
    app_step key w (w\<lparr>nw_ledger := nw_ledger w @ [slot]\<rparr>)"
| ack: "app_step key w (w\<lparr>nw_acks := appendAck (nw_acks w) i by'\<rparr>)"
| others: "agree key cs (nw_cursors w) \<Longrightarrow> app_step key w (w\<lparr>nw_cursors := cs\<rparr>)"

inductive app_reach :: "string \<Rightarrow> native_world \<Rightarrow> bool" for key where
  start: "uniq_ids ledger \<Longrightarrow> nw_ledger w = ledger \<Longrightarrow> nw_written w = [] \<Longrightarrow> c_pickups (nw_cursors w) key = None
    \<Longrightarrow> app_reach key w"
| step: "app_reach key w \<Longrightarrow> app_step key w w' \<Longrightarrow> app_reach key w'"

definition begun :: "string \<Rightarrow> native_world \<Rightarrow> string \<Rightarrow> bool" where
  "begun key w x = (\<not> fresh_id w x
     \<and> (map_option pk_message (c_pickups (nw_cursors w) key) = Some x \<or> settled_letter key w x))"

definition app_inv :: "string \<Rightarrow> native_world \<Rightarrow> bool" where
  "app_inv key w = (uniq_ids (nw_ledger w) \<and> distinct (nw_written w)
     \<and> (\<forall>pk. c_pickups (nw_cursors w) key = Some pk \<longrightarrow> pickup_ok key w pk)
     \<and> (\<forall>x\<in>set (nw_written w). begun key w x))"

lemma app_invD:
  assumes "app_inv key w"
  shows "uniq_ids (nw_ledger w)" "distinct (nw_written w)"
    "c_pickups (nw_cursors w) key = Some pk \<Longrightarrow> pickup_ok key w pk"
    "x \<in> set (nw_written w) \<Longrightarrow> begun key w x"
  using assms by (simp_all add: app_inv_def)

subsection \<open>One effect at a time\<close>

text \<open>Moving the delivery cursor forward, or past the end of the ledger, settles no less.\<close>

lemma settled_save:
  assumes s: "settled_letter key w x"
    and d: "nullish (c_delivered (nw_cursors w) key) 0 \<le> nullish (c_delivered cs key) 0
     \<or> length (nw_ledger w) \<le> nullish (c_delivered cs key) 0"
  shows "settled_letter key (app_apply landed (DSave cs) w) x"
  unfolding settled_letter_def
proof (intro allI impI)
  fix i msg
  assume i: "i < length (nw_ledger (app_apply landed (DSave cs) w))"
    "nw_ledger (app_apply landed (DSave cs) w) ! i = Some msg" "m_id msg = x"
  then have "if isConditional msg then x \<in> loadAckedIds (nw_acks w) else i < nullish (c_delivered (nw_cursors w) key) 0"
    using s unfolding settled_letter_def by simp
  with d i show "if isConditional msg then x \<in> loadAckedIds (nw_acks (app_apply landed (DSave cs) w))
      else i < nullish (c_delivered (nw_cursors (app_apply landed (DSave cs) w)) key) 0"
    by (auto split: if_splits)
qed

lemma pickup_settled:
  assumes uniq: "uniq_ids (nw_ledger w)" and ok: "pickup_ok key w pk"
    and acked: "pk_conditional pk \<Longrightarrow> pk_message pk \<in> loadAckedIds (nw_acks w)"
  shows "settled_letter key w (pk_message pk)"
  unfolding settled_letter_def
proof (intro allI impI)
  obtain j msg where msg: "j < length (nw_ledger w)" "nw_ledger w ! j = Some msg" "m_id msg = pk_message pk"
    "pk_conditional pk = isConditional msg" "\<not> isConditional msg \<Longrightarrow> j < nullish (c_delivered (nw_cursors w) key) 0"
    using ok by (auto simp: pickup_ok_def)
  fix i m
  assume m: "i < length (nw_ledger w)" "nw_ledger w ! i = Some m" "m_id m = pk_message pk"
  then have "i = j"
    using uniq [unfolded uniq_ids_def, rule_format, OF m(1) msg(1) m(2) msg(2)] msg(3) by simp
  with m msg acked show "if isConditional m then pk_message pk \<in> loadAckedIds (nw_acks w)
      else i < nullish (c_delivered (nw_cursors w) key) 0" by auto
qed

lemma ack_inv: "app_inv key w \<Longrightarrow> app_inv key (w\<lparr>nw_acks := appendAck (nw_acks w) i by'\<rparr>)"
  unfolding app_inv_def begun_def settled_letter_def pickup_ok_def fresh_id_def by auto

text \<open>Saving cursors that agree with the stored ones.\<close>

lemma save_agree_inv:
  assumes inv: "app_inv key w" and cs: "agree key cs (nw_cursors w)"
  shows "app_inv key (app_apply landed (DSave cs) w)"
proof -
  have "settled_letter key w x \<Longrightarrow> settled_letter key (app_apply landed (DSave cs) w) x" for x
    using cs by (intro settled_save) (simp_all add: agree_def)
  with inv cs show ?thesis unfolding app_inv_def begun_def pickup_ok_def fresh_id_def agree_def by auto
qed

lemma save_moved_inv:
  assumes inv: "app_inv key w" and none: "c_pickups (nw_cursors w) key = None" "c_pickups cs key = None"
    and moved: "nullish (c_delivered (nw_cursors w) key) 0 \<le> nullish (c_delivered cs key) 0
      \<or> length (nw_ledger w) \<le> nullish (c_delivered cs key) 0"
  shows "app_inv key (app_apply landed (DSave cs) w)"
  using inv none settled_save [OF _ moved, of _ landed] unfolding app_inv_def begun_def fresh_id_def by simp

lemma start_inv:
  assumes inv: "app_inv key w" and pk: "c_pickups (nw_cursors w) key = Some pk" "pk_message pk = i"
    and new: "i \<notin> set (nw_written w)"
  shows "app_inv key (app_apply landed (DStart i) w)"
proof -
  obtain j msg where "j < length (nw_ledger w)" "nw_ledger w ! j = Some msg" "m_id msg = i"
    using app_invD(3) [OF inv pk(1)] pk(2) by (auto simp: pickup_ok_def)
  then have "\<not> fresh_id w i" using not_fresh by blast
  with assms show ?thesis
    unfolding app_inv_def begun_def settled_letter_def pickup_ok_def fresh_id_def by (auto split: if_splits)
qed

text \<open>Dropping the pickup of a letter that is settled.\<close>

lemma drop_inv:
  assumes inv: "app_inv key w" and pk: "c_pickups (nw_cursors w) key = Some pk"
    and acked: "pk_conditional pk \<Longrightarrow> pk_message pk \<in> loadAckedIds (nw_acks w)"
    and cs: "c_pickups cs key = None"
      "nullish (c_delivered (nw_cursors w) key) 0 \<le> nullish (c_delivered cs key) 0"
  shows "app_inv key (app_apply landed (DSave cs) w)"
proof -
  let ?v = "app_apply landed (DSave cs) w"
  have mono: "settled_letter key w x \<Longrightarrow> settled_letter key ?v x" for x
    by (rule settled_save [OF _ disjI1 [OF cs(2)]])
  have "settled_letter key w (pk_message pk)"
    by (rule pickup_settled [OF app_invD(1) [OF inv] app_invD(3) [OF inv pk] acked])
  with mono inv pk cs(1) show ?thesis unfolding app_inv_def begun_def fresh_id_def by auto
qed

text \<open>Arming a letter that is not settled: it was never started.\<close>

lemma arm_inv:
  assumes inv: "app_inv key w" and none: "c_pickups (nw_cursors w) key = None"
    and msg: "idx < length (nw_ledger w)" "nw_ledger w ! idx = Some msg"
      "isConditional msg \<Longrightarrow> m_id msg \<notin> loadAckedIds (nw_acks w)"
      "\<not> isConditional msg \<Longrightarrow> nullish (c_delivered (nw_cursors w) key) 0 \<le> idx"
    and cs: "c_pickups cs key = Some pk" "pk_message pk = m_id msg" "pk_index pk = Some idx"
      "pk_conditional pk = isConditional msg" "\<not> isConditional msg \<Longrightarrow> nullish (c_delivered cs key) 0 = idx + 1"
      "nullish (c_delivered (nw_cursors w) key) 0 \<le> nullish (c_delivered cs key) 0
       \<or> length (nw_ledger w) \<le> nullish (c_delivered cs key) 0"
  shows "app_inv key (app_apply landed (DSave cs) w)" "m_id msg \<notin> set (nw_written w)"
proof -
  show new: "m_id msg \<notin> set (nw_written w)"
  proof
    assume "m_id msg \<in> set (nw_written w)"
    then have "settled_letter key w (m_id msg)" using app_invD(4) [OF inv] none by (auto simp: begun_def)
    then have "if isConditional msg then m_id msg \<in> loadAckedIds (nw_acks w)
        else idx < nullish (c_delivered (nw_cursors w) key) 0"
      using msg(1,2) unfolding settled_letter_def by blast
    with msg(3,4) show False by (auto split: if_splits)
  qed
  let ?v = "app_apply landed (DSave cs) w"
  have mono: "settled_letter key w x \<Longrightarrow> settled_letter key ?v x" for x
    by (rule settled_save [OF _ cs(6)])
  have "pickup_ok key ?v pk" using msg(1,2) cs unfolding pickup_ok_def by auto
  moreover have "begun key ?v x" if "x \<in> set (nw_written w)" for x
    using app_invD(4) [OF inv that] mono none unfolding begun_def fresh_id_def by auto
  ultimately show "app_inv key ?v" using inv cs(1) unfolding app_inv_def by auto
qed

subsection \<open>Every turn of a pass, cut anywhere\<close>

lemma pick_cursor: "pickPendingDelivery ledger key d acked now = (pick, cur) \<Longrightarrow> d \<le> cur \<or> length ledger \<le> cur"
  by (auto simp: pickPendingDelivery_def dest: scan_from_SomeD split: option.splits)

lemma next_facts:
  assumes "nextDelivery ledger key cs acked now = (pick, moved, cs')"
  shows "c_pickups cs' = c_pickups cs"
    and "nullish (c_delivered cs key) 0 \<le> nullish (c_delivered cs' key) 0 \<or> length ledger \<le> nullish (c_delivered cs' key) 0"
  using nextDelivery_frame(2) [OF assms] pick_cursor [OF nextDelivery_cursor [OF assms, symmetric]] by simp_all

abbreviation app_along :: "string \<Rightarrow> bool \<Rightarrow> dv_effect list \<Rightarrow> native_world \<Rightarrow> bool" where
  "app_along key landed es w \<equiv> along (app_inv key) (app_apply landed) es w"

lemma started_along:
  assumes inv: "app_inv key w" and pk: "c_pickups (nw_cursors w) key = Some pk" "pk_message pk = i"
    and new: "sent \<Longrightarrow> i \<notin> set (nw_written w)"
  shows "app_along key landed (started sent i) w"
    and "nw_cursors (fold (app_apply landed) (started sent i) w) = nw_cursors w"
    and "nw_acks (fold (app_apply landed) (started sent i) w) = nw_acks w"
  using start_inv [OF inv pk, of landed] inv new by (simp_all add: started_def)

text \<open>After the request: the acknowledgement, the save that drops the barrier, and any later save.\<close>

lemma closing_along:
  assumes inv: "app_inv key w" and pk: "c_pickups (nw_cursors w) key = Some pk"
    and cs: "c_pickups cs key = None" "nullish (c_delivered (nw_cursors w) key) 0 \<le> nullish (c_delivered cs key) 0"
    and later': "agree key cs' cs"
    and es: "es = (if pk_conditional pk then [DAck (pk_message pk)] else []) @ (if saved then [DSave cs] else []) @ [DSave cs']"
  shows "app_along key landed es w"
proof -
  let ?v = "if pk_conditional pk then app_apply landed (DAck (pk_message pk)) w else w"
  have v: "app_inv key ?v" "nw_cursors ?v = nw_cursors w" using inv ack_inv by simp_all
  have acked: "pk_conditional pk \<Longrightarrow> pk_message pk \<in> loadAckedIds (nw_acks ?v)" by simp
  have drop: "app_inv key (app_apply landed (DSave c') ?v)"
    if "c_pickups c' key = None" "c_delivered c' key = c_delivered cs key" for c'
    by (rule drop_inv [OF v(1), where pk = pk]) (use v(2) pk cs that acked in simp_all)
  have d: "app_inv key (app_apply landed (DSave cs) ?v)" "app_inv key (app_apply landed (DSave cs') ?v)"
    using drop cs later' by (simp_all add: agree_def del: app_apply.simps)
  have d': "app_inv key (app_apply landed (DSave cs') (app_apply landed (DSave cs) ?v))"
    using later' by (intro save_agree_inv [OF d(1)]) (simp add: agree_def)
  show ?thesis
    using inv v d d' unfolding es by (auto simp del: app_apply.simps split: if_splits)
qed

lemma finish_pickup_facts:
  assumes "c_pickups cs key = Some pk"
  shows "c_pickups (snd (finishPickup [] cs key)) key = None"
    and "nullish (c_delivered cs key) 0 \<le> nullish (c_delivered (snd (finishPickup [] cs key)) key) 0"
  using assms finishPickup_clears by (auto simp: finishPickup_def Let_def split: option.split)

lemma finish_app_along:
  assumes inv: "app_inv key w" and reads: "app_reads key w c e a" and pk: "c_pickups (nw_cursors w) key = Some pk"
    and cs: "agree key cs (aa_cursors (finish_app c e key pk a))"
  shows "app_along key landed (aa_effects (finish_app c e key pk a) @ [DSave cs]) w"
proof (cases "find_letter (pf_ledger c) (pk_message pk)")
  case None
  with cs reads save_agree_inv [OF inv, of cs landed] inv show ?thesis
    by (simp add: finish_app_def app_reads_def agree_def del: app_apply.simps)
next
  case (Some msg)
  have id: "m_id msg = pk_message pk" using find_letter_SomeD [OF Some] by simp
  obtain sent outcome where d: "deliverCodexAppMessage (pf_machine c) (av_server e) msg = (sent, outcome)" by force
  have same: "aa_effects a = []" "c_pickups (aa_cursors a) key = Some pk"
    "c_delivered (aa_cursors a) key = c_delivered (nw_cursors w) key"
    using reads pk by (simp_all add: app_reads_def agree_def)
  have new: "sent \<Longrightarrow> m_id msg \<notin> set (nw_written w)"
    using started_only_when_free [of "pf_machine c" "av_server e" msg outcome] d reads pk id
    by (auto simp: app_reads_def)
  let ?v = "fold (app_apply landed) (started sent (m_id msg)) w"
  have st: "app_along key landed (started sent (m_id msg)) w" "nw_cursors ?v = nw_cursors w"
    by (rule started_along [OF inv pk id [symmetric]]; use new in simp)+
  have v: "app_inv key ?v" using along_take [OF st(1), where k = "length (started sent (m_id msg))"] by simp
  show ?thesis
  proof (cases "\<exists>dup turnId. outcome = AppDelivered dup turnId")
    case False
    then have es: "aa_effects (finish_app c e key pk a) = started sent (m_id msg)"
      "aa_cursors (finish_app c e key pk a) = aa_cursors a"
      using Some d same by (auto simp: finish_app_def Let_def split: app_delivery.splits)
    have "agree key cs (nw_cursors ?v)" using cs same pk st(2) unfolding es agree_def by simp
    then have "app_along key landed [DSave cs] ?v" using save_agree_inv [OF v] v by (simp del: app_apply.simps)
    with st(1) show ?thesis unfolding es along_append by simp
  next
    case True
    let ?cs = "snd (finishPickup [] (aa_cursors a) key)"
    have es: "aa_effects (finish_app c e key pk a) @ [DSave cs] = started sent (m_id msg)
        @ (if pk_conditional pk then [DAck (pk_message pk)] else []) @ (if av_saved e = None then [DSave ?cs] else []) @ [DSave cs]"
      "aa_cursors (finish_app c e key pk a) = ?cs"
      using Some d same True by (auto simp: finish_app_def Let_def split: option.splits)
    note f = finish_pickup_facts [OF same(2)]
    have "app_along key landed ((if pk_conditional pk then [DAck (pk_message pk)] else [])
        @ (if av_saved e = None then [DSave ?cs] else []) @ [DSave cs]) ?v"
      by (rule closing_along [OF v, of pk ?cs cs _ "av_saved e = None"])
        (use pk f cs st(2) same(3) es(2) in simp_all)
    with st(1) show ?thesis unfolding es(1) along_append by simp
  qed
qed

lemma first_app_along:
  assumes inv: "app_inv key w" and reads: "app_reads key w c e a" and none: "c_pickups (nw_cursors w) key = None"
    and cs: "agree key cs (aa_cursors (first_app c e key recipient a))"
  shows "app_along key landed (aa_effects (first_app c e key recipient a) @ [DSave cs]) w"
proof -
  obtain pick moved cs1 where nd: "nextDelivery (pf_ledger c) key (aa_cursors a) (pf_acked c) (int (pf_now c)) = (pick, moved, cs1)"
    by (metis prod_cases3)
  have same: "aa_effects a = []" "c_pickups (aa_cursors a) key = None"
    "c_delivered (aa_cursors a) key = c_delivered (nw_cursors w) key" "pf_ledger c = nw_ledger w"
    "av_ackedNow e = loadAckedIds (nw_acks w)"
    using reads none by (simp_all add: app_reads_def agree_def)
  note nf = next_facts [OF nd]
  have idle: "app_along key landed [DSave cs] w" if "agree key cs cs1"
    using save_moved_inv [OF inv none, of cs landed] that nf same inv by (simp add: agree_def del: app_apply.simps)
  show ?thesis
  proof (cases "\<exists>msg idx. pick = Some (msg, idx)
      \<and> \<not> recentInboundCount recipient (pf_ledger c) (int (pf_now c)) > RATE_MAX_INBOUND
      \<and> \<not> (isConditional msg \<and> m_id msg \<in> av_ackedNow e)")
    case False
    then have "aa_effects (first_app c e key recipient a) = []" "aa_cursors (first_app c e key recipient a) = cs1"
      using nd same by (auto simp: first_app_def Let_def split: option.splits)
    with cs idle show ?thesis by simp
  next
    case True
    then obtain msg idx where p: "pick = Some (msg, idx)"
      and go: "\<not> recentInboundCount recipient (pf_ledger c) (int (pf_now c)) > RATE_MAX_INBOUND"
        "\<not> (isConditional msg \<and> m_id msg \<in> av_ackedNow e)" by blast
    let ?armed = "armPickup cs1 key msg idx (Instant (int (pf_now c))) None None"
    note P = pick_SomeD [OF nextDelivery_cursor [OF nd, unfolded p, symmetric]]
    have pk: "c_pickups ?armed key = Some \<lparr>pk_message = m_id msg, pk_injectedAt = Instant (int (pf_now c)), pk_index = Some idx,
        pk_conditional = isConditional msg, pk_line = None, pk_native = None\<rparr>"
      by (rule armPickup_pickup)
    have del: "\<not> isConditional msg \<Longrightarrow> nullish (c_delivered ?armed key) 0 = idx + 1"
      "nullish (c_delivered (nw_cursors w) key) 0 \<le> nullish (c_delivered ?armed key) 0
        \<or> length (nw_ledger w) \<le> nullish (c_delivered ?armed key) 0"
      using P nf(2) same by (auto simp: armPickup_def Let_def split: if_splits)
    have armed: "app_inv key (app_apply landed (DSave c') w) \<and> m_id msg \<notin> set (nw_written w)"
      if "agree key c' ?armed" for c'
      using arm_inv [OF inv none, where idx = idx and msg = msg and cs = c'] that P go(2) pk del same
      unfolding agree_def by (auto split: if_splits)
    show ?thesis
    proof (cases "av_saved e")
      case (Some err)
      with p go nd same have "aa_effects (first_app c e key recipient a) = []"
        "aa_cursors (first_app c e key recipient a) = ?armed" by (auto simp: first_app_def Let_def)
      with cs armed inv show ?thesis by (simp del: app_apply.simps)
    next
      case None
      obtain sent outcome where d: "deliverCodexAppMessage (pf_machine c) ((av_server e)\<lparr>as_persisted := Inr False\<rparr>) msg
          = (sent, outcome)" by force
      let ?w1 = "app_apply landed (DSave ?armed) w"
      let ?w2 = "fold (app_apply landed) (started sent (m_id msg)) ?w1"
      have w1: "app_inv key ?w1" "m_id msg \<notin> set (nw_written ?w1)" using armed [of ?armed] by (simp_all add: agree_def)
      have pk1: "c_pickups (nw_cursors ?w1) key = c_pickups ?armed key" by simp
      have st: "app_along key landed (started sent (m_id msg)) ?w1"
        "nw_cursors ?w2 = nw_cursors ?w1" "nw_acks ?w2 = nw_acks ?w1"
        by (rule started_along [OF w1(1) pk1 [unfolded pk]]; use w1(2) in simp)+
      have w2: "app_inv key ?w2" using along_take [OF st(1), where k = "length (started sent (m_id msg))"] by simp
      have cur: "nw_cursors ?w2 = nw_cursors ?w1" by (rule st(2))
      have head: "app_along key landed ([DSave ?armed] @ started sent (m_id msg) @ es) w" if "app_along key landed es ?w2" for es
        using inv w1(1) st(1) that by (simp add: along_append del: app_apply.simps)
      show ?thesis
      proof (cases "\<exists>dup turnId. outcome = AppDelivered dup turnId")
        case False
        then have es: "aa_effects (first_app c e key recipient a) = [DSave ?armed] @ started sent (m_id msg)"
          "aa_cursors (first_app c e key recipient a) = ?armed"
          using p go nd same None d by (auto simp: first_app_def Let_def split: app_delivery.splits)
        have "agree key cs (nw_cursors ?w2)" using cs unfolding es cur agree_def by simp
        then have "app_along key landed [DSave cs] ?w2" using save_agree_inv [OF w2] w2 by (simp del: app_apply.simps)
        from head [OF this] show ?thesis unfolding es by simp
      next
        case True
        then obtain dup turnId where outcome: "outcome = AppDelivered dup turnId" by blast
        let ?cs = "?armed\<lparr>c_pickups := (c_pickups ?armed)(key := None)\<rparr>"
        have es: "aa_effects (first_app c e key recipient a) @ [DSave cs] = [DSave ?armed] @ started sent (m_id msg)
            @ (if isConditional msg then [DAck (m_id msg)] else []) @ [DSave cs]"
          "aa_cursors (first_app c e key recipient a) = ?cs"
          using p go nd same None d outcome by (cases "isConditional msg"; simp add: first_app_def Let_def)+
        have "app_along key landed ((if isConditional msg then [DAck (m_id msg)] else []) @ [DSave cs]) ?w2"
        proof (rule closing_along [OF w2, where cs = ?cs and saved = False])
          show "c_pickups (nw_cursors ?w2) key = Some \<lparr>pk_message = m_id msg, pk_injectedAt = Instant (int (pf_now c)),
              pk_index = Some idx, pk_conditional = isConditional msg, pk_line = None, pk_native = None\<rparr>"
            unfolding cur pk1 by (rule pk)
          show "nullish (c_delivered (nw_cursors ?w2) key) 0 \<le> nullish (c_delivered ?cs key) 0"
            unfolding cur by simp
          show "agree key cs ?cs" using cs unfolding es(2) .
        qed simp_all
        from head [OF this] show ?thesis unfolding es(1) .
      qed
    qed
  qed
qed

lemma app_step_inv: "app_step key w w' \<Longrightarrow> app_inv key w \<Longrightarrow> app_inv key w'"
proof (induction rule: app_step.induct)
  case (pass w c e a a' recipient cs landed k)
  have "app_along key landed (aa_effects a' @ [DSave cs]) w"
  proof (cases "c_pickups (nw_cursors w) key")
    case None
    then have "a' = first_app c e key recipient a" using pass(1,2) by (simp add: app_turn_def app_reads_def agree_def)
    with first_app_along [OF pass(5,1) None] pass(3) show ?thesis by simp
  next
    case (Some pk)
    then have "a' = finish_app c e key pk a" using pass(1,2) by (simp add: app_turn_def app_reads_def agree_def)
    with finish_app_along [OF pass(5,1) Some] pass(3) show ?thesis by simp
  qed
  then show ?case by (rule along_take)
next
  case (append slot w)
  let ?v = "w\<lparr>nw_ledger := nw_ledger w @ [slot]\<rparr>"
  have "uniq_ids (nw_ledger ?v)" using append_uniq [OF app_invD(1) [OF append(2)] fresh_slot [OF append(1)]] by simp
  moreover have "begun key ?v x" if "begun key w x" for x
    using that append_settled [OF append(1)] unfolding begun_def by (auto simp: fresh_id_def)
  ultimately show ?case using append(2) append_pickup unfolding app_inv_def by auto
next
  case (ack w i by')
  then show ?case by (rule ack_inv)
next
  case (others cs w)
  have "settled_letter key (w\<lparr>nw_cursors := cs\<rparr>) x = settled_letter key w x" for x
    using others(1) by (simp add: settled_letter_def agree_def)
  with others show ?case unfolding app_inv_def begun_def pickup_ok_def fresh_id_def agree_def by auto
qed

lemma app_reach_inv: "app_reach key w \<Longrightarrow> app_inv key w"
proof (induction rule: app_reach.induct)
  case (start ledger w)
  then show ?case by (simp add: app_inv_def)
next
  case (step w w')
  then show ?case by (blast intro: app_step_inv)
qed

end
