(* ===== verification/DeliveryProperties.thy ===== *)
theory DeliveryProperties
  imports Samples AppInv
begin

text \<open>
  What the delivery pass guarantees for recipients without a native runtime: what is typed into a pane
  and when, and how often a turn is started in an App thread.  Each property stands with an instance at
  the sample values.
\<close>

definition typing_facts :: pass_facts where
  "typing_facts = \<lparr>pf_machine = ''m1'', pf_ledger = two_letters, pf_acked = {}, pf_now = 1000\<rparr>"

definition free_pane :: pane_inspection where
  "free_pane = \<lparr>pi_state = PaneDeliverable, pi_reason = ''''\<rparr>"

definition typing_env :: "bool \<Rightarrow> pane_env" where
  "typing_env transcript = \<lparr>pe_enabled = True, pe_running = True, pe_native = None, pe_detector = True,
     pe_transcriptPickup = transcript, pe_progress = ProgAwaitingPickup, pe_submittedId = None,
     pe_pickupTurn = \<lparr>settled = False, why = Working\<rparr>, pe_pane = free_pane, pe_typing = False,
     pe_turn = \<lparr>settled = True, why = TurnEnded\<rparr>, pe_ackedNow = {}, pe_line = Some 3, pe_gate = Gated (Some free_pane) True True\<rparr>"

lemma next_first: "nextDelivery two_letters a_key (cursors_at 0) {} 1000
    = (Some (letter ''i1'' False, 0), False, cursors_at 0)"
  by (simp add: nextDelivery_def pickPendingDelivery_def two_letters_def immediate_for_def cursors_at_def)

lemma typing_key [simp]: "peer_key typing_facts a_session = a_key"
  by (simp add: peer_key_def typing_facts_def)

lemma typing_rate [simp]: "\<not> rate_held typing_facts a_session"
  by (simp add: rate_held_def recentInboundCount_def typing_facts_def two_letters_def RATE_MAX_INBOUND_def)

lemma typing_rest: "pf_machine typing_facts = ''m1''" "pf_ledger typing_facts = two_letters" "pf_acked typing_facts = {}"
    "pf_now typing_facts = 1000" "c_pickups (cursors_at n) = Map.empty"
  by (simp_all add: typing_facts_def cursors_at_def)

lemma typing_env_sel:
  "pe_enabled (typing_env t)" "pe_running (typing_env t)" "pe_native (typing_env t) = None" "pe_detector (typing_env t)"
  "pi_state (pe_pane (typing_env t)) = PaneDeliverable" "\<not> pe_typing (typing_env t)" "why (pe_turn (typing_env t)) = TurnEnded"
  "settled (pe_turn (typing_env t))" "pe_ackedNow (typing_env t) = {}"
  by (simp_all add: typing_env_def free_pane_def)

lemma typing_pass: "deliver_session typing_facts a_session (typing_env transcript) (cursors_at 0) False
    = type_letter typing_facts a_session (typing_env transcript) (cursors_at 0) False (letter ''i1'' False) 0"
  using next_first by (simp add: deliver_session_def pane_track_def typing_rest typing_env_sel)

lemma typing_effects:
  "fst (type_letter typing_facts a_session (typing_env True) (cursors_at 0) False (letter ''i1'' False) 0)
     = [DInput False, DSave (armed_cursors typing_facts a_session (typing_env True) (cursors_at 0) (letter ''i1'' False) 0),
        DType [''i1''], DClear]"
  "type_letter typing_facts a_session (typing_env False) (cursors_at 0) False (letter ''i1'' False) 0
     = ([DInput False, DType [''i1''], DClear], Some (typed_cursors typing_facts a_session (cursors_at 0) 0, True, 1))"
  by (simp_all add: type_letter_def Let_def pane_batch_def deliverToPane_def)
    (simp_all add: typing_env_def free_pane_def deliverToPane_def)

text \<open>C34: A letter that is typed into the pane of a session without transcript pickup is settled in the
  same turn of the pass: an immediate one lies behind the delivery cursor, every conditional one of the
  batch is acknowledged, and the cursors are marked as changed, so that they are saved.\<close>

theorem typed_letters_are_settled:
  assumes "deliver_session c s e cs changed = (es, Some (cs', changed', n))" "DType ids \<in> set es"
    and "\<not> pe_transcriptPickup e"
    and "\<And>j m. j < length (pf_ledger c) \<Longrightarrow> pf_ledger c ! j = Some m \<Longrightarrow> m_id m = m_id msg \<Longrightarrow> j = i \<and> m = msg"
    and "m_id msg \<in> set ids"
  shows "(if isConditional msg then DAck (m_id msg) \<in> set es else i < nullish (c_delivered cs' (peer_key c s)) 0) \<and> changed'"
  using assms by (rule typed_is_settled)

theorem typed_letters_are_settled_witness:
  "0 < nullish (c_delivered (typed_cursors typing_facts a_session (cursors_at 0) 0) a_key) 0"
proof -
  have "j = 0 \<and> m = letter ''i1'' False"
    if "j < length two_letters" "two_letters ! j = Some m" "m_id m = ''i1''" for j m
    using that by (auto simp: two_letters_def less_Suc_eq numeral_3_eq_3 nth_Cons')
  then show ?thesis
    using typed_letters_are_settled [OF typing_pass [of False, unfolded typing_effects(2)], of "[''i1'']" "letter ''i1'' False" 0]
    by (simp add: typing_rest typing_env_def)
qed



subsection \<open>App threads\<close>

definition app_letter :: chat_message where
  "app_letter = (letter ''i9'' False)\<lparr>m_to := ToCodexApp \<lparr>ap_machine = ''m1'', ap_thread = ''t9'', ap_name = None\<rparr>\<rparr>"

definition app_key :: string where "app_key = chatTargetKey (m_to app_letter)"

definition idle_app :: app_env where
  "idle_app = \<lparr>av_server = \<lparr>as_persisted = Inr False, as_connect = Inr (),
       as_read = Inr \<lparr>at_status = AsIdle, at_acceptsInput = Some True\<rparr>, as_resume = Inr (),
       as_reread = Inl ''closed'', as_start = Inr (Some ''turn'')\<rparr>, av_ackedNow = {}, av_saved = None\<rparr>"

definition app_facts :: pass_facts where
  "app_facts = \<lparr>pf_machine = ''m1'', pf_ledger = [Some app_letter], pf_acked = {}, pf_now = 1000\<rparr>"

definition app_start :: native_world where
  "app_start = native_start [Some app_letter] [] [app_key \<mapsto> 0]"

definition app_state0 :: app_state where
  "app_state0 = \<lparr>aa_cursors = nw_cursors app_start, aa_changed = False, aa_deliveries = 0, aa_lastHold = Map.empty,
     aa_effects = [], aa_lines = []\<rparr>"

lemma app_letter_sel [simp]:
  "m_id app_letter = ''i9''" "isConditional app_letter = False" "isDue app_letter now"
  "m_to app_letter = ToCodexApp \<lparr>ap_machine = ''m1'', ap_thread = ''t9'', ap_name = None\<rparr>" "m_ts app_letter = Instant 0"
  by (simp_all add: app_letter_def isConditional_def isDue_def)

lemma app_picks: "nextDelivery [Some app_letter] app_key (nw_cursors app_start) {} 1000
    = (Some (app_letter, 0), False, nw_cursors app_start)"
  by (simp add: nextDelivery_def pickPendingDelivery_def immediate_for_def app_start_def native_start_def app_key_def)

definition app_armed :: cursors where
  "app_armed = armPickup (nw_cursors app_start) app_key app_letter 0 (Instant 1000) None None"

lemma app_delivers: "app_turn app_facts idle_app app_key recipient app_state0
    = app_state0\<lparr>aa_cursors := app_armed\<lparr>c_pickups := (c_pickups app_armed)(app_key := None)\<rparr>, aa_changed := True,
        aa_deliveries := 1, aa_effects := [DSave app_armed, DStart ''i9'']\<rparr>"
proof -
  have none: "c_pickups (nw_cursors app_start) app_key = None" by (simp add: app_start_def native_start_def)
  have sent: "deliverCodexAppMessage ''m1'' (av_server idle_app\<lparr>as_persisted := Inr False\<rparr>) app_letter
      = (True, AppDelivered False (Some ''turn''))"
    by (simp add: deliverCodexAppMessage_def idle_app_def appThreadHoldReason_def start_turn_def)
  show ?thesis
    using none app_picks sent
    by (simp add: app_turn_def first_app_def Let_def app_facts_def app_state0_def recentInboundCount_def
        RATE_MAX_INBOUND_def app_armed_def started_def)
      (simp add: idle_app_def started_def)
qed

definition app_after :: native_world where
  "app_after = fold (app_apply True) (take 2 [DSave app_armed, DStart ''i9'', DSave app_armed]) app_start"

lemma app_after_reach: "app_reach app_key app_after"
proof -
  let ?a = "app_turn app_facts idle_app app_key (m_to app_letter) app_state0"
  have "uniq_ids [Some app_letter]" by (simp add: uniq_ids_def)
  then have "app_reach app_key app_start"
    by (rule app_reach.start) (simp_all add: app_start_def native_start_def)
  moreover have "app_reads app_key app_start app_facts idle_app app_state0"
    by (simp add: app_reads_def app_facts_def idle_app_def app_state0_def agree_def loadAckedIds_def loadAcks_def
        app_start_def native_start_def)
  then have "app_step app_key app_start (fold (app_apply True) (take 2 (aa_effects ?a @ [DSave (aa_cursors ?a)])) app_start)"
    by (rule app_step.pass [OF _ refl]) (simp_all add: agree_def)
  ultimately have "app_reach app_key (fold (app_apply True) (take 2 (aa_effects ?a @ [DSave (aa_cursors ?a)])) app_start)"
    by (rule app_reach.step)
  then show ?thesis by (simp add: app_delivers app_after_def)
qed

lemma app_after_written: "nw_written app_after = [''i9'']"
  by (simp add: app_after_def app_start_def native_start_def)



end
