(* ===== verification/Fleet.thy ===== *)
theory Fleet
  imports Ledger "HOL-Library.Char_ord" "HOL-Library.List_Lexorder"
begin

text \<open>
  Addressing other machines and reaching them: \<open>src/fleet/address.ts\<close>, \<open>remoteAdapter.ts\<close>,
  \<open>transport.ts\<close> and \<open>routeState.ts\<close>.  What a process or a socket answers is an argument; the code
  decides which of the two ways a call takes, and never both when the first may have run it.
\<close>

record fleet_config =
  fc_prefix :: string
  fc_fleet :: "(string \<times> string) list option"
  fc_peers :: "string list option"

subsection \<open>Addresses\<close>

datatype fleet_address = Address "string option" string | AddressError string

definition quoted :: "string \<Rightarrow> string" where "quoted t = [CHR 0x27] @ t @ [CHR 0x27]"

definition parseAddress :: "string \<Rightarrow> fleet_address" where
  "parseAddress token =
     (if CHR '':'' \<notin> set token then Address None token
      else (let machine = before_char (CHR '':'') token; session = after_char (CHR '':'') token
        in if machine = [] then AddressError (''bad address '' @ quoted token @ '': missing machine before '' @ quoted '':'')
           else if session = [] then AddressError (''bad address '' @ quoted token @ '': missing session after '' @ quoted '':'')
           else if CHR '':'' \<in> set session then AddressError (''bad address '' @ quoted token @ '': only one '' @ quoted '':'' @ '' allowed'')
           else Address (Some machine) session))"

definition remotePeers :: "fleet_config \<Rightarrow> string list" where
  "remotePeers m = filter (\<lambda>p. p \<noteq> fc_prefix m) (nullish (fc_peers m) [])"

definition isRemotePeer :: "fleet_config \<Rightarrow> string \<Rightarrow> bool" where
  "isRemotePeer m machine = (machine \<in> set (remotePeers m))"

datatype route = RouteLocal string | RouteRemote "string option" string string | RouteError string

definition unconfigured_text :: string where
  "unconfigured_text = ''fleet addressing is not configured on this machine '' @ em_dash @ '' add a '' @ [CHR 0x22]
     @ ''fleet'' @ [CHR 0x22] @ '' map (ssh) or a '' @ [CHR 0x22] @ ''remoteTransport.peers'' @ [CHR 0x22]
     @ '' list to machine.json''"

definition routeFor :: "string \<Rightarrow> fleet_config \<Rightarrow> route" where
  "routeFor token m = (case parseAddress token of
      AddressError e \<Rightarrow> RouteError e
    | Address None session \<Rightarrow> RouteLocal session
    | Address (Some machine) session \<Rightarrow>
        (if machine = fc_prefix m then RouteLocal session
         else (let fleet = nullish (fc_fleet m) []; remote = remotePeers m
           in if fleet = [] \<and> remote = [] then RouteError unconfigured_text
              else (case map_of fleet machine of
                  None \<Rightarrow>
                    (if machine \<in> set remote then RouteRemote None machine session
                     else RouteError (''unknown machine '' @ quoted machine @ '' '' @ em_dash @ '' known: ''
                       @ join '', '' (sort (once (map fst fleet @ remote)))))
                | Some alias \<Rightarrow> RouteRemote (Some alias) machine session))))"

definition selfAddress :: "fleet_config \<Rightarrow> string \<Rightarrow> string" where
  "selfAddress m session = fc_prefix m @ '':'' @ session"

text \<open>An address a session gives out is understood where it came from and on every machine that knows it.\<close>

lemma parseAddress_self:
  assumes "CHR '':'' \<notin> set (fc_prefix m)" "fc_prefix m \<noteq> []" "CHR '':'' \<notin> set session" "session \<noteq> []"
  shows "parseAddress (selfAddress m session) = Address (Some (fc_prefix m)) session"
  using assms by (simp add: parseAddress_def selfAddress_def Let_def)

lemma routeFor_self:
  assumes "CHR '':'' \<notin> set (fc_prefix m)" "fc_prefix m \<noteq> []" "CHR '':'' \<notin> set session" "session \<noteq> []"
  shows "routeFor (selfAddress m session) m = RouteLocal session"
    and "fc_prefix m' \<noteq> fc_prefix m \<Longrightarrow> fc_prefix m \<in> fst ` set (nullish (fc_fleet m') []) \<union> set (remotePeers m')
      \<Longrightarrow> \<exists>alias. routeFor (selfAddress m session) m' = RouteRemote alias (fc_prefix m) session"
proof -
  show "routeFor (selfAddress m session) m = RouteLocal session"
    by (simp add: routeFor_def parseAddress_self [OF assms])
next
  assume o': "fc_prefix m' \<noteq> fc_prefix m" and known: "fc_prefix m \<in> fst ` set (nullish (fc_fleet m') []) \<union> set (remotePeers m')"
  show "\<exists>alias. routeFor (selfAddress m session) m' = RouteRemote alias (fc_prefix m) session"
  proof (cases "map_of (nullish (fc_fleet m') []) (fc_prefix m)")
    case None
    then have "fc_prefix m \<in> set (remotePeers m')" using known by (simp add: map_of_eq_None_iff)
    with None o' show ?thesis
      by (auto simp: routeFor_def parseAddress_self [OF assms] Let_def)
  next
    case (Some al)
    then have "nullish (fc_fleet m') [] \<noteq> []" by auto
    with Some o' show ?thesis
      by (auto simp: routeFor_def parseAddress_self [OF assms] Let_def)
  qed
qed

subsection \<open>Peers\<close>

record peer =
  pe_machine :: string
  pe_remote :: bool
  pe_alias :: "string option"

text \<open>The \<open>Map\<close> keyed by machine, and its values in the order \<open>le\<close> of machine labels.\<close>

definition peer_map :: "fleet_config \<Rightarrow> (string \<times> peer) list" where
  "peer_map m =
     (let ssh = fold (\<lambda>(machine, alias) out. if machine \<noteq> fc_prefix m
            then AList.update machine \<lparr>pe_machine = machine, pe_remote = False, pe_alias = Some alias\<rparr> out else out)
          (nullish (fc_fleet m) []) []
      in fold (\<lambda>machine out. AList.update machine \<lparr>pe_machine = machine, pe_remote = True,
            pe_alias = Option.bind (map_of out machine) pe_alias\<rparr> out) (remotePeers m) ssh)"

fun insert_by :: "('a \<Rightarrow> 'a \<Rightarrow> bool) \<Rightarrow> 'a \<Rightarrow> 'a list \<Rightarrow> 'a list" where
  "insert_by le x [] = [x]"
| "insert_by le x (y # ys) = (if le x y then x # y # ys else y # insert_by le x ys)"

lemma set_insert_by [simp]: "set (insert_by le x ys) = insert x (set ys)"
  by (induction ys) auto

lemma set_sorted_by [simp]: "set (foldr (insert_by le) xs []) = set xs"
  by (induction xs) auto

definition peersOf :: "(string \<Rightarrow> string \<Rightarrow> bool) \<Rightarrow> fleet_config \<Rightarrow> peer list" where
  "peersOf le m = foldr (insert_by (\<lambda>a b. le (pe_machine a) (pe_machine b))) (map snd (peer_map m)) []"

subsection \<open>A remote call\<close>

datatype delivery = NotSent | DeliveryUnknown | Received

record remote_result =
  rr_code :: int
  rr_stdout :: string
  rr_stderr :: string
  rr_transportFailed :: bool
  rr_delivery :: delivery
  rr_fallback :: "string option"
  rr_detail :: "string option"
  rr_permanent :: "bool option"
  rr_retryAfter :: "int option"

definition failed :: "delivery \<Rightarrow> string \<Rightarrow> remote_result" where
  "failed d detail = \<lparr>rr_code = 1, rr_stdout = '''', rr_stderr = '''', rr_transportFailed = True, rr_delivery = d,
     rr_fallback = None, rr_detail = Some detail, rr_permanent = None, rr_retryAfter = None\<rparr>"

text \<open>What the adapter's socket does: it is absent, the client throws (knowing or not that nothing was
  dispatched), or it answers.\<close>

datatype adapter_call = SocketMissing | ClientThrew bool | AdapterAnswer remote_result

definition runRemoteAdapter :: "adapter_call \<Rightarrow> remote_result" where
  "runRemoteAdapter c = (case c of
      SocketMissing \<Rightarrow> failed NotSent ''local remote adapter is unavailable''
    | ClientThrew notDispatched \<Rightarrow> failed (if notDispatched then NotSent else DeliveryUnknown)
        ''remote adapter did not provide a complete result''
    | AdapterAnswer r \<Rightarrow> r\<lparr>rr_fallback := None\<rparr>)"

record ssh_exit =
  se_code :: int
  se_stdout :: string
  se_stderr :: string
  se_timedOut :: bool

definition SSH_EXIT_TRANSPORT :: int where "SSH_EXIT_TRANSPORT = 255"

definition runRemote :: "ssh_exit \<Rightarrow> remote_result" where
  "runRemote r = (let lost = (se_timedOut r \<or> se_code r = SSH_EXIT_TRANSPORT)
     in \<lparr>rr_code = se_code r, rr_stdout = se_stdout r, rr_stderr = se_stderr r, rr_transportFailed = lost,
         rr_delivery = (if lost then DeliveryUnknown else Received), rr_fallback = None, rr_detail = None,
         rr_permanent = None, rr_retryAfter = None\<rparr>)"

subsection \<open>The remembered route\<close>

definition fallbackIsNew :: "(string \<rightharpoonup> string) \<Rightarrow> string \<Rightarrow> string \<Rightarrow> bool \<times> (string \<rightharpoonup> string)" where
  "fallbackIsNew routes machine reason = (let r = ''ssh:'' @ reason; changed = (routes machine \<noteq> Some r)
     in (changed, if changed then routes(machine \<mapsto> r) else routes))"

definition routeRecovered :: "(string \<rightharpoonup> string) \<Rightarrow> string \<Rightarrow> bool \<times> (string \<rightharpoonup> string)" where
  "routeRecovered routes machine =
     ((case routes machine of Some previous \<Rightarrow> prefix ''ssh:'' previous | None \<Rightarrow> False),
      if routes machine \<noteq> Some ''remote'' then routes(machine \<mapsto> ''remote'') else routes)"

text \<open>A standing fallback is reported once, and its end once.\<close>

lemma fallback_once: "fallbackIsNew routes machine reason = (b, routes') \<Longrightarrow> \<not> fst (fallbackIsNew routes' machine reason)"
  by (auto simp: fallbackIsNew_def Let_def split: if_splits)

lemma recovery_once:
  "routeRecovered routes machine = (b, routes') \<Longrightarrow> \<not> fst (routeRecovered routes' machine)"
  "fallbackIsNew routes machine reason = (b, routes') \<Longrightarrow> fst (routeRecovered routes' machine)"
  by (auto simp: routeRecovered_def fallbackIsNew_def Let_def split: if_splits)

subsection \<open>Which way a call takes\<close>

datatype dispatched = OverAdapter | OverSsh

text \<open>The result, the ways that were tried in order, and the remembered routes.\<close>

definition runPeer ::
  "fleet_config \<Rightarrow> string \<Rightarrow> string option \<Rightarrow> adapter_call \<Rightarrow> ssh_exit \<Rightarrow> (string \<rightharpoonup> string)
     \<Rightarrow> remote_result \<times> dispatched list \<times> (string \<rightharpoonup> string)" where
  "runPeer m machine alias adapter ssh routes =
     (if isRemotePeer m machine
      then (let remote = runRemoteAdapter adapter
        in if \<not> rr_transportFailed remote \<or> rr_delivery remote \<noteq> NotSent \<or> alias = None
           then (remote, [OverAdapter], if rr_transportFailed remote then routes else snd (routeRecovered routes machine))
           else (let reason = nullish (rr_detail remote) ''the remote route did not dispatch the call''
             in ((runRemote ssh)\<lparr>rr_fallback := Some reason\<rparr>, [OverAdapter, OverSsh],
                 snd (fallbackIsNew routes machine reason))))
      else (case alias of
          None \<Rightarrow> (failed NotSent (''no route to '' @ quoted machine
            @ '': it is in neither the ssh fleet map nor remoteTransport.peers''), [], routes)
        | Some a \<Rightarrow> (runRemote ssh, [OverSsh], routes)))"

text \<open>A call is sent over a second way only when the first is certain not to have dispatched it, and a call
  that reports that nothing was sent was dispatched by none.\<close>

lemma second_way_only_when_unsent:
  assumes "runPeer m machine alias adapter ssh routes = (r, ways, routes')" "OverSsh \<in> set ways" "OverAdapter \<in> set ways"
  shows "rr_delivery (runRemoteAdapter adapter) = NotSent"
  using assms by (auto simp: runPeer_def Let_def split: if_splits option.splits)

lemma answered_way:
  assumes "runPeer m machine alias adapter ssh routes = (r, ways, routes')" "\<not> rr_transportFailed r"
  shows "(last ways = OverAdapter \<and> r = runRemoteAdapter adapter \<and> ways \<noteq> [])
    \<or> (last ways = OverSsh \<and> (\<exists>why. r = (runRemote ssh)\<lparr>rr_fallback := why\<rparr>) \<and> ways \<noteq> [])"
proof -
  have "runRemote ssh = (runRemote ssh)\<lparr>rr_fallback := None\<rparr>" by (simp add: runRemote_def Let_def)
  with assms show ?thesis by (auto simp: runPeer_def Let_def failed_def split: if_splits option.splits)
qed

end
