(* ===== verification/Origin.thy ===== *)
theory Origin
  imports Settlement
begin

text \<open>
  What a message may claim about where it comes from (\<open>src/chat/origin.ts\<close>), and when a sender owes a
  justification for writing at all (\<open>requireCommunicationAuthorization\<close> in
  \<open>src/chat/communicationAuthorization.ts\<close>).  The digest of a binding is an argument.
\<close>

definition is_runtime :: "principal \<Rightarrow> bool" where
  "is_runtime who = (case who of FromManaged _ \<Rightarrow> True | FromCodexApp _ \<Rightarrow> True | _ \<Rightarrow> False)"

definition principalOrigin :: "principal \<Rightarrow> message_origin" where
  "principalOrigin who =
     \<lparr>o_ingress = (case who of
          FromService _ TransportLocal \<Rightarrow> InLocalControl | FromService _ TransportDeclaredService \<Rightarrow> InService
        | FromCli _ \<Rightarrow> InCli | FromManaged _ \<Rightarrow> InManaged | FromCodexApp _ \<Rightarrow> InCodexApp),
      o_actor = (if is_runtime who then Agent else UnknownActor),
      o_assurance = (if is_runtime who then RuntimeIdentity else UnknownAssurance),
      o_application = None\<rparr>"

subsection \<open>Application attribution\<close>

record app_binding =
  ab_callers :: "string list"
  ab_channels :: "string list"
  ab_actors :: "actor list"
  ab_ownerNotifications :: bool
  ab_revision :: string

datatype origin_refusal =
  MissingApplicationBinding | UnsupportedIngress | UnknownApplication | CallerNotBound | ChannelNotBound
| ActorNotAllowed | OwnerNotificationsNotAllowed

definition admitMessageOrigin ::
  "(app_binding \<Rightarrow> string) \<Rightarrow> (string \<rightharpoonup> app_binding) \<Rightarrow> principal \<Rightarrow> attribution option \<Rightarrow> audience
     \<Rightarrow> origin_refusal + message_origin" where
  "admitMessageOrigin digest applications who attribution notification = (case attribution of
      None \<Rightarrow> if notification = OwnerAudience then Inl MissingApplicationBinding else Inr (principalOrigin who)
    | Some a \<Rightarrow> (case who of
        FromService machine _ \<Rightarrow> (case applications (at_application a) of
            None \<Rightarrow> Inl UnknownApplication
          | Some b \<Rightarrow>
              (if machine \<notin> set (ab_callers b) then Inl CallerNotBound
               else if at_channel a \<notin> set (ab_channels b) then Inl ChannelNotBound
               else if at_actor a \<notin> set (ab_actors b) then Inl ActorNotAllowed
               else if notification = OwnerAudience \<and> \<not> ab_ownerNotifications b then Inl OwnerNotificationsNotAllowed
               else Inr ((principalOrigin who)\<lparr>o_actor := at_actor a, o_assurance := ApplicationAttested,
                 o_application := Some \<lparr>as_attribution = a, as_revision = ab_revision b, as_digest = digest b\<rparr>\<rparr>)))
      | _ \<Rightarrow> Inl UnsupportedIngress))"

lemma admitted_origin:
  "admitMessageOrigin digest applications who attribution notification = Inr o' \<longleftrightarrow>
     (attribution = None \<and> notification \<noteq> OwnerAudience \<and> o' = principalOrigin who)
     \<or> (\<exists>a machine transport b. attribution = Some a \<and> who = FromService machine transport
          \<and> applications (at_application a) = Some b \<and> machine \<in> set (ab_callers b) \<and> at_channel a \<in> set (ab_channels b)
          \<and> at_actor a \<in> set (ab_actors b) \<and> (notification = OwnerAudience \<longrightarrow> ab_ownerNotifications b)
          \<and> o' = (principalOrigin who)\<lparr>o_actor := at_actor a, o_assurance := ApplicationAttested,
              o_application := Some \<lparr>as_attribution = a, as_revision = ab_revision b, as_digest = digest b\<rparr>\<rparr>)"
  by (auto simp: admitMessageOrigin_def split: option.splits principal.splits)

subsection \<open>When a justification is owed\<close>

datatype basis_error = AuthorizationInvalid | AuthorizationUnverified | AuthorizationRequired | BasisRefused string

definition requireCommunicationAuthorization ::
  "(string \<Rightarrow> bool) \<Rightarrow> principal \<Rightarrow> message_origin \<Rightarrow> authorization option \<Rightarrow> basis_error + unit" where
  "requireCommunicationAuthorization uuid who origin evidence = (case evidence of
      Some a \<Rightarrow>
        (if \<not> CommunicationAuthorizationSchema uuid a then Inl AuthorizationInvalid
         else if au_basis a = None then Inl AuthorizationUnverified else Inr ())
    | None \<Rightarrow>
        (case who of
           FromService _ _ \<Rightarrow>
             (if o_actor origin = Human \<and> o_assurance origin = ApplicationAttested \<and> o_application origin \<noteq> None
              then Inr () else Inl AuthorizationRequired)
         | _ \<Rightarrow> Inl AuthorizationRequired))"

text \<open>Only a person whom a bound application attests may write without a justification: no session, App
  thread or command line, whatever it claims.\<close>

lemma unjustified_is_attested_human:
  assumes "admitMessageOrigin digest applications who attribution notification = Inr o'"
    and "requireCommunicationAuthorization uuid who o' None = Inr ()"
  shows "\<exists>a b machine transport. who = FromService machine transport \<and> attribution = Some a \<and> at_actor a = Human
    \<and> applications (at_application a) = Some b \<and> machine \<in> set (ab_callers b) \<and> at_channel a \<in> set (ab_channels b)
    \<and> Human \<in> set (ab_actors b)"
  using assms
  by (auto simp: admitted_origin requireCommunicationAuthorization_def principalOrigin_def is_runtime_def
      split: principal.splits if_splits)

end
