(* ===== verification/Outbox.thy ===== *)
theory Outbox
  imports Fleet Origin Registry
begin

text \<open>
  Letters to other machines: the outbox and its retries (\<open>src/fleet/outbox.ts\<close>, \<open>flush.ts\<close>), and the
  command that receives a letter on the far side (\<open>src/commands/receiveChat.ts\<close>).

  Both files are JSON lines of which a bad one costs only itself, so the outbox is the list of its
  readable rows and the ack file the list of its readable ids.
\<close>

record outbound =
  ou_envelope :: chat_message
  ou_ok :: bool
  ou_detail :: string

definition outboundId :: "outbound \<Rightarrow> string" where "outboundId r = m_id (ou_envelope r)"
definition outboundTimestamp :: "outbound \<Rightarrow> stamp" where "outboundTimestamp r = m_ts (ou_envelope r)"

subsection \<open>The retry policy\<close>

definition RETRY_WINDOW_MS :: int where "RETRY_WINDOW_MS = 60 * 60 * 1000"
definition MAX_PER_TICK :: nat where "MAX_PER_TICK = 3"

fun retry_loop :: "string set \<Rightarrow> int \<Rightarrow> int \<Rightarrow> string set \<Rightarrow> outbound list \<Rightarrow> outbound list" where
  "retry_loop acked now window seen [] = []"
| "retry_loop acked now window seen (r # rs) =
     (if ou_ok r \<or> outboundId r \<in> acked \<or> outboundId r \<in> seen then retry_loop acked now window seen rs
      else case date_parse (outboundTimestamp r) of
          None \<Rightarrow> retry_loop acked now window seen rs
        | Some at \<Rightarrow> (if now - at > window then retry_loop acked now window seen rs
            else r # retry_loop acked now window (insert (outboundId r) seen) rs))"

definition retryCandidates :: "outbound list \<Rightarrow> string set \<Rightarrow> int \<Rightarrow> int \<Rightarrow> outbound list" where
  "retryCandidates rows acked now window = retry_loop acked now window {} rows"

text \<open>Exactly one row for each letter that failed, is not settled and is still fresh.\<close>

lemma retry_loop_mem:
  "r \<in> set (retry_loop acked now window seen rows) \<Longrightarrow>
     r \<in> set rows \<and> \<not> ou_ok r \<and> outboundId r \<notin> acked \<and> outboundId r \<notin> seen
     \<and> (\<exists>at. date_parse (outboundTimestamp r) = Some at \<and> now - at \<le> window)"
  by (induction rows arbitrary: seen) (auto split: if_splits option.splits)

lemma retry_loop_distinct: "distinct (map outboundId (retry_loop acked now window seen rows))"
  by (induction rows arbitrary: seen) (auto dest!: retry_loop_mem split: option.split)

lemma retry_loop_covers:
  assumes "r \<in> set rows" "\<not> ou_ok r" "outboundId r \<notin> acked" "outboundId r \<notin> seen"
    and "date_parse (outboundTimestamp r) = Some at" "now - at \<le> window"
  shows "outboundId r \<in> outboundId ` set (retry_loop acked now window seen rows)"
  using assms
proof (induction rows arbitrary: seen)
  case (Cons x rows)
  then show ?case
    by (cases "outboundId x = outboundId r") (auto split: option.split)
qed simp

subsection \<open>One drain pass\<close>

datatype flush_effect = FSend string chat_message | FAck string

definition delivered_ok :: "remote_result \<Rightarrow> bool" where
  "delivered_ok r = (\<not> rr_transportFailed r \<and> rr_code r = 0)"

definition flush_record :: "fleet_config \<Rightarrow> remote_result \<Rightarrow> outbound \<Rightarrow> flush_effect list" where
  "flush_record m result r = (case m_to (ou_envelope r) of
      ToManaged target \<Rightarrow>
        (case routeFor (mp_machine target @ '':'' @ mp_session target) m of
           RouteRemote via machine session \<Rightarrow>
             FSend machine (ou_envelope r)
             # (if delivered_ok result then [FAck (outboundId r)]
                else if rr_permanent result = Some True then [FAck (outboundId r)] else [])
         | _ \<Rightarrow> [FAck (outboundId r)])
    | _ \<Rightarrow> [])"

definition flushOutbox ::
  "(string \<Rightarrow> string \<Rightarrow> bool) \<Rightarrow> fleet_config \<Rightarrow> outbound list \<Rightarrow> string list \<Rightarrow> int \<Rightarrow> (string \<Rightarrow> remote_result)
     \<Rightarrow> flush_effect list" where
  "flushOutbox le m rows acks now results =
     (if peersOf le m = [] then []
      else concat (map (\<lambda>r. flush_record m (results (outboundId r)) r)
             (take MAX_PER_TICK (retryCandidates rows (set acks) now RETRY_WINDOW_MS))))"

text \<open>What a row leads to: nothing, a settlement of a letter that cannot be sent from here, or one call.\<close>

lemma flush_record_cases:
  obtains (skips) "flush_record m result r = []"
  | (unaddressable) target where "m_to (ou_envelope r) = ToManaged target"
      "\<not> (\<exists>via machine session. routeFor (mp_machine target @ '':'' @ mp_session target) m = RouteRemote via machine session)"
      "flush_record m result r = [FAck (outboundId r)]"
  | (calls) target via machine session where "m_to (ou_envelope r) = ToManaged target"
      "routeFor (mp_machine target @ '':'' @ mp_session target) m = RouteRemote via machine session"
      "flush_record m result r = FSend machine (ou_envelope r)
         # (if delivered_ok result \<or> rr_permanent result = Some True then [FAck (outboundId r)] else [])"
proof (cases "m_to (ou_envelope r)")
  case (ToManaged target)
  then show ?thesis
    using that by (cases "routeFor (mp_machine target @ '':'' @ mp_session target) m") (auto simp: flush_record_def)
qed (auto simp: flush_record_def intro: that)

lemma flush_record_sends: "FSend machine e \<in> set (flush_record m result r) \<Longrightarrow> e = ou_envelope r"
  by (cases rule: flush_record_cases [of m result r]) (auto split: if_splits)

lemma flushOutbox_sends:
  assumes "FSend machine e \<in> set (flushOutbox le m rows acks now results)"
  shows "\<exists>r\<in>set rows. e = ou_envelope r \<and> \<not> ou_ok r \<and> m_id e \<notin> set acks"
  using assms
  by (auto simp: flushOutbox_def retryCandidates_def outboundId_def split: if_splits
      dest!: flush_record_sends in_set_takeD retry_loop_mem)

lemma at_most_one_send: "length (filter (\<lambda>x. \<exists>a b. x = FSend a b) (flush_record m result r)) \<le> 1"
  by (cases rule: flush_record_cases [of m result r]) (auto split: if_splits)

text \<open>A pass makes at most three calls.\<close>

lemma flush_bound: "length (filter (\<lambda>x. \<exists>a b. x = FSend a b) (flushOutbox le m rows acks now results)) \<le> MAX_PER_TICK"
proof -
  have "length (filter (\<lambda>x. \<exists>a b. x = FSend a b) (concat (map (\<lambda>r. flush_record m (results (outboundId r)) r) rs))) \<le> length rs"
    for rs
  proof (induction rs)
    case (Cons r rs)
    show ?case using Cons.IH at_most_one_send [of m "results (outboundId r)" r] by simp
  qed simp
  from this [of "take MAX_PER_TICK (retryCandidates rows (set acks) now RETRY_WINDOW_MS)"] show ?thesis
    by (simp add: flushOutbox_def)
qed

subsection \<open>Receiving a letter\<close>

definition assertExpected :: "agent_kind \<times> string \<Rightarrow> agent_kind option \<Rightarrow> string option \<Rightarrow> string option" where
  "assertExpected found agent thread =
     (if agent \<noteq> None \<and> agent \<noteq> Some (fst found)
      then Some (''provider mismatch: expected '' @ agent_name (the agent) @ '', found '' @ agent_name (fst found))
      else if thread \<noteq> None \<and> thread \<noteq> Some (snd found)
      then Some (''thread mismatch: expected '' @ the thread @ '', found '' @ snd found) else None)"

record receive_env =
  rv_inSession :: bool
  rv_authenticated :: bool
  rv_message :: "chat_message option"
  rv_machine :: string
  rv_sessions :: "session list"
  rv_chatDefault :: bool
  rv_supported :: "session \<Rightarrow> bool"
  rv_app :: "string + codex_app_peer"
  rv_select :: "chat_message \<Rightarrow> admit_error + string option"

definition chatEnabledFor :: "session \<Rightarrow> bool \<Rightarrow> bool" where
  "chatEnabledFor s machineDefault = nullish (sb_chatEnabled (s_body s)) machineDefault"

definition machine_of_target :: "target \<Rightarrow> string option" where
  "machine_of_target to = (case to of ToManaged p \<Rightarrow> Some (mp_machine p) | ToCodexApp p \<Rightarrow> Some (ap_machine p) | _ \<Rightarrow> None)"

definition target_live :: "receive_env \<Rightarrow> target \<Rightarrow> bool" where
  "target_live e to = (case to of
      ToManaged p \<Rightarrow> (case find_session (rv_sessions e) (mp_session p) of
          None \<Rightarrow> False
        | Some s \<Rightarrow> assertExpected (s_agent s, s_uuid s) (Some (mp_agent p)) (Some (mp_thread p)) = None
            \<and> chatEnabledFor s (rv_chatDefault e) \<and> rv_supported e s)
    | ToCodexApp p \<Rightarrow> (case rv_app e of
          Inl _ \<Rightarrow> False
        | Inr q \<Rightarrow> assertExpected (Codex, ap_thread q) (Some Codex) (Some (ap_thread p)) = None)
    | _ \<Rightarrow> False)"

text \<open>Its exit code and the ledger after it; an admission that throws leaves the command with code 1.\<close>

definition cmdReceiveChat :: "(string \<Rightarrow> bool) \<Rightarrow> receive_env \<Rightarrow> ledger_slot list \<Rightarrow> int \<times> ledger_slot list" where
  "cmdReceiveChat uuid e ledger =
     (if rv_inSession e then (1, ledger)
      else if \<not> rv_authenticated e then (1, ledger)
      else case rv_message e of
          None \<Rightarrow> (1, ledger)
        | Some msg \<Rightarrow>
            (if machine_of_target (m_to msg) = None then (1, ledger)
             else if requireCommunicationAuthorization uuid (m_from msg) (principalOrigin (m_from msg)) (m_authorization msg) \<noteq> Inr ()
               \<or> (Option.bind (m_authorization msg) au_basis \<noteq> Some UserInstruction \<and> m_receipt msg = None)
             then (1, ledger)
             else if machine_of_target (m_to msg) \<noteq> Some (rv_machine e) then (1, ledger)
             else if \<not> target_live e (m_to msg) then (1, ledger)
             else case admitOnce (rv_select e) msg ledger of
                 Inl _ \<Rightarrow> (1, ledger)
               | Inr (new, ledger') \<Rightarrow> (0, ledger')))"

lemma receive_cases:
  "cmdReceiveChat uuid e ledger = (code, ledger') \<Longrightarrow>
     (code = 1 \<and> ledger' = ledger)
     \<or> (code = 0 \<and> (\<exists>msg new. rv_message e = Some msg \<and> admitOnce (rv_select e) msg ledger = Inr (new, ledger')
          \<and> m_authorization msg \<noteq> None \<and> machine_of_target (m_to msg) = Some (rv_machine e) \<and> target_live e (m_to msg)))"
  by (auto simp: cmdReceiveChat_def requireCommunicationAuthorization_def principalOrigin_def
      split: option.splits sum.splits prod.splits if_splits principal.splits)

end
