(* ===== verification/Basis.thy ===== *)
theory Basis
  imports Outbox
begin

text \<open>
  How a justification is resolved against the letters this machine holds (\<open>src/chat/localMessages.ts\<close>,
  \<open>communicationBasis.ts\<close>, \<open>requireOriginatingBasis\<close> in \<open>communicationAuthorization.ts\<close>), the envelope
  built from it (\<open>compose.ts\<close>), and that every correspondence goes back to its opening letter.
\<close>

record local_record =
  lr_message :: chat_message
  lr_reached :: bool

definition index_ledger :: "ledger_slot list \<Rightarrow> (string \<rightharpoonup> local_record)" where
  "index_ledger ledger = fold (\<lambda>slot ix. case slot of None \<Rightarrow> ix
     | Some msg \<Rightarrow> ix(m_id msg \<mapsto> \<lparr>lr_message = msg, lr_reached = True\<rparr>)) ledger Map.empty"

definition index_sent :: "string set \<Rightarrow> outbound \<Rightarrow> (string \<rightharpoonup> local_record) \<Rightarrow> (string \<rightharpoonup> local_record)" where
  "index_sent acked sent ix =
     (if map_option lr_reached (ix (outboundId sent)) = Some True then ix
      else ix(outboundId sent \<mapsto> \<lparr>lr_message = ou_envelope sent, lr_reached = ou_ok sent \<or> outboundId sent \<in> acked\<rparr>))"

definition localMessageLookup :: "ledger_slot list \<Rightarrow> outbound list \<Rightarrow> string set \<Rightarrow> (string \<rightharpoonup> local_record)" where
  "localMessageLookup ledger outbox acked = fold (index_sent acked) outbox (index_ledger ledger)"

subsection \<open>Resolving a basis\<close>

definition principal_thread :: "principal \<Rightarrow> string option" where
  "principal_thread who = (case who of FromManaged p \<Rightarrow> Some (mp_thread p) | FromCodexApp p \<Rightarrow> Some (ap_thread p) | _ \<Rightarrow> None)"

definition target_thread :: "target \<Rightarrow> string option" where
  "target_thread to = (case to of ToManaged p \<Rightarrow> Some (mp_thread p) | ToCodexApp p \<Rightarrow> Some (ap_thread p) | _ \<Rightarrow> None)"

definition snapshot :: "chat_message \<Rightarrow> source_letter" where
  "snapshot r = \<lparr>so_id = m_id r, so_ts = m_ts r, so_from = m_from r, so_to = m_to r, so_task = m_task r, so_body = m_body r\<rparr>"

definition peer_letter_basis ::
  "principal \<Rightarrow> target \<Rightarrow> authorization \<Rightarrow> string \<Rightarrow> chat_message \<Rightarrow> basis_error + basis_result" where
  "peer_letter_basis who to a thread r =
     (if chatTargetKey (m_to r) \<noteq> chatPrincipalKey who
      then Inl (BasisRefused ''Referenced message was addressed to a different recipient'')
      else if principal_thread (m_from r) \<noteq> Some thread
      then Inl (BasisRefused ''Referenced message was written in a different thread'')
      else if chatPrincipalKey (m_from r) \<noteq> chatTargetKey to
      then Inl (BasisRefused ''A peer-letter can only authorize a reply to that exact peer'')
      else if (case au_quote a of None \<Rightarrow> True | Some q \<Rightarrow> \<not> sublist q (m_body r))
      then Inl (BasisRefused ''The authorization quote is not present verbatim in the referenced peer letter'')
      else if js_length (m_body r) > SOURCE_BODY_MAX
      then Inl (BasisRefused ''The source letter exceeds the 16384-character receipt budget; use a bounded authorization letter'')
      else Inr \<lparr>og_root = None, og_authorization = a, og_letter = Some (snapshot r)\<rparr>)"

definition continuation_basis ::
  "principal \<Rightarrow> target \<Rightarrow> string \<Rightarrow> chat_message \<Rightarrow> basis_error + basis_result" where
  "continuation_basis who to thread r =
     (if chatPrincipalKey (m_from r) \<noteq> chatPrincipalKey who
      then Inl (BasisRefused ''A continuation references your own earlier message'')
      else if chatTargetKey (m_to r) \<noteq> chatTargetKey to
      then Inl (BasisRefused ''Referenced message went to a different recipient'')
      else if target_thread to \<noteq> Some thread
      then Inl (BasisRefused ''The reference names a different recipient thread'')
      else if m_authorization r = None
      then Inl (BasisRefused ''Referenced message carries no authorization'')
      else case m_receipt r of
          None \<Rightarrow> Inl (BasisRefused ''Referenced message has no resolved opening receipt; establish a basis first'')
        | Some c \<Rightarrow> Inr \<lparr>og_root = Some (ro_root c), og_authorization = ro_authorization c, og_letter = ro_letter c\<rparr>)"

definition resolveCommunicationBasis ::
  "(string \<Rightarrow> bool) \<Rightarrow> principal \<Rightarrow> target \<Rightarrow> string option \<Rightarrow> authorization option \<Rightarrow> (string \<rightharpoonup> local_record)
     \<Rightarrow> basis_error + basis_result option" where
  "resolveCommunicationBasis uuid who to task evidence lookup = (case evidence of
      None \<Rightarrow> Inr None
    | Some a \<Rightarrow> (case au_basis a of
        None \<Rightarrow> Inl (BasisRefused ''communicationAuthorization must name its basis'')
      | Some UserInstruction \<Rightarrow> Inr (Some \<lparr>og_root = None, og_authorization = a, og_letter = None\<rparr>)
      | Some b \<Rightarrow> (case parseLedgerMessageRef uuid (au_ref a) of
          None \<Rightarrow> Inl (BasisRefused ''Invalid sourceMessageRef: expected <peer thread uuid>#<message uuid>'')
        | Some (thread, i) \<Rightarrow> (case lookup i of
            None \<Rightarrow> Inl (BasisRefused (''sourceMessageRef names message '' @ i @ '', of which this machine has no record''))
          | Some found \<Rightarrow>
              (if \<not> lr_reached found
               then Inl (BasisRefused (''Referenced message '' @ i @ '' never reached its recipient '' @ em_dash
                 @ '' it is still held for delivery, so no correspondence was opened by it''))
               else if m_task (lr_message found) \<noteq> task
               then Inl (BasisRefused ''Referenced message belongs to a different task; retain its --task or establish a new basis'')
               else map_sum id Some (if b = PeerLetter then peer_letter_basis who to a thread (lr_message found)
                 else continuation_basis who to thread (lr_message found)))))))"

definition requireOriginatingBasis ::
  "(string \<Rightarrow> bool) \<Rightarrow> principal \<Rightarrow> target \<Rightarrow> authorization option \<Rightarrow> (string \<rightharpoonup> local_record) option
     \<Rightarrow> string option \<Rightarrow> basis_error + basis_result option" where
  "requireOriginatingBasis uuid who to evidence lookup task = (case evidence of
      None \<Rightarrow> Inr None
    | Some a \<Rightarrow>
        (if au_basis a = None then Inl AuthorizationUnverified
         else case lookup of
             None \<Rightarrow>
               (if au_basis a \<noteq> Some UserInstruction then Inl AuthorizationUnverified
                else Inr (Some \<lparr>og_root = None, og_authorization = a, og_letter = None\<rparr>))
           | Some ix \<Rightarrow> resolveCommunicationBasis uuid who to task evidence ix))"

subsection \<open>The envelope\<close>

record envelope_opts =
  eo_task :: "string option"
  eo_defer :: "bool option"
  eo_onBehalfOf :: "string option"
  eo_notBefore :: "stamp option"
  eo_authorization :: "authorization option"
  eo_receipt :: "basis_result option"

text \<open>\<open>ok\<close> is the schema of a message; the id is a fresh one, the time the current one.\<close>

definition buildEnvelope ::
  "(chat_message \<Rightarrow> bool) \<Rightarrow> string \<Rightarrow> stamp \<Rightarrow> principal \<Rightarrow> target \<Rightarrow> string \<Rightarrow> envelope_opts \<Rightarrow> chat_message option" where
  "buildEnvelope ok i ts who to body opts =
     (let e = \<lparr>m_id = i, m_ts = ts, m_from = who, m_to = to, m_origin = Some (principalOrigin who),
          m_authorization = eo_authorization opts,
          m_receipt = map_option (\<lambda>b. \<lparr>ro_root = nullish (og_root b) i, ro_authorization = og_authorization b,
            ro_letter = og_letter b\<rparr>) (eo_receipt opts),
          m_notification = Some (case to of ToOwner \<Rightarrow> OwnerAudience | ToExternal _ \<Rightarrow> OwnerAudience | _ \<Rightarrow> Conversation),
          m_registration = None, m_body = body, m_task = eo_task opts, m_defer = nullish (eo_defer opts) True,
          m_onBehalfOf = eo_onBehalfOf opts, m_notBefore = eo_notBefore opts, m_turnOptions = None, m_images = None,
          m_fingerprint = None\<rparr>
      in if ok e then Some e else None)"

end
