(* ===== verification/Transit.thy ===== *)
theory Transit
  imports Basis
begin

text \<open>
  A letter to another machine arrives at most once and, when this machine holds it for delivered, it did
  arrive.  The state is this machine's outbox and acks and the far machine's ledger; \<open>tr_given_up\<close> lists
  the letters whose retries were ended without a delivery.

  Assumed of the transport, as its contract says: a result without a transport failure and with exit
  code 0 is that of the far command, and a call reported as not sent did not run.  Any other failure
  leaves open whether the command ran.
\<close>

definition faithful :: "remote_result \<Rightarrow> bool \<Rightarrow> int \<Rightarrow> bool" where
  "faithful r executed code = ((delivered_ok r \<longrightarrow> executed \<and> code = 0) \<and> (rr_delivery r = NotSent \<longrightarrow> \<not> executed))"

record transit =
  tr_outbox :: "outbound list"
  tr_acks :: "string list"
  tr_far :: "ledger_slot list"
  tr_given_up :: "string list"

text \<open>What a call with this letter does on the far side.\<close>

definition far_side :: "(string \<Rightarrow> bool) \<Rightarrow> receive_env \<Rightarrow> chat_message \<Rightarrow> bool \<Rightarrow> ledger_slot list \<Rightarrow> int \<times> ledger_slot list" where
  "far_side uuid env e executed far = (if executed then cmdReceiveChat uuid (env\<lparr>rv_message := Some e\<rparr>) far else (1, far))"

definition outbound_row :: "chat_message \<Rightarrow> remote_result \<Rightarrow> outbound" where
  "outbound_row e r = \<lparr>ou_envelope = e, ou_ok = delivered_ok r,
     ou_detail = (if rr_transportFailed r then ''transport failed'' else if rr_code r = 0 then ''''
       else ''remote exit '' @ string_of_int (rr_code r))\<rparr>"

fun transit_apply :: "bool \<Rightarrow> ledger_slot list \<Rightarrow> flush_effect \<Rightarrow> transit \<Rightarrow> transit" where
  "transit_apply accepted far' (FSend machine e) w = w\<lparr>tr_far := far'\<rparr>"
| "transit_apply accepted far' (FAck i) w = w\<lparr>tr_acks := tr_acks w @ [i],
     tr_given_up := (if accepted then tr_given_up w else i # tr_given_up w)\<rparr>"

definition accepted :: "fleet_config \<Rightarrow> remote_result \<Rightarrow> outbound \<Rightarrow> bool" where
  "accepted m r row = (delivered_ok r \<and> (\<exists>machine. FSend machine (ou_envelope row) \<in> set (flush_record m r row)))"

text \<open>
  A first attempt may die before it is recorded; a retry may die after any of its effects; it works with
  the acks its pass loaded.  Other letters reach the far machine with ids of their own.
\<close>

inductive transit_step :: "(string \<Rightarrow> bool) \<Rightarrow> fleet_config \<Rightarrow> transit \<Rightarrow> transit \<Rightarrow> bool"
  for uuid :: "string \<Rightarrow> bool" and m :: fleet_config where
  first_try: "m_id e \<notin> outboundId ` set (tr_outbox w) \<Longrightarrow> m_id e \<notin> set (tr_acks w) \<Longrightarrow>
    far_side uuid env e executed (tr_far w) = (code, far') \<Longrightarrow> faithful r executed code \<Longrightarrow>
    transit_step uuid m w (w\<lparr>tr_far := far', tr_outbox := tr_outbox w @ (if recorded then [outbound_row e r] else [])\<rparr>)"
| retry: "prefix acks (tr_acks w) \<Longrightarrow> row \<in> set (retryCandidates (tr_outbox w) (set acks) now RETRY_WINDOW_MS) \<Longrightarrow>
    far_side uuid env (ou_envelope row) executed (tr_far w) = (code, far') \<Longrightarrow> faithful r executed code \<Longrightarrow>
    transit_step uuid m w (fold (transit_apply (accepted m r row) far') (take k (flush_record m r row)) w)"
| others: "(case slot of None \<Rightarrow> True | Some x \<Rightarrow> m_id x \<notin> set (ledger_ids (tr_far w))) \<Longrightarrow>
    transit_step uuid m w (w\<lparr>tr_far := tr_far w @ [slot]\<rparr>)"

inductive transit_reach :: "(string \<Rightarrow> bool) \<Rightarrow> fleet_config \<Rightarrow> transit \<Rightarrow> bool"
  for uuid :: "string \<Rightarrow> bool" and m :: fleet_config where
  start: "distinct (ledger_ids far) \<Longrightarrow>
    transit_reach uuid m \<lparr>tr_outbox = [], tr_acks = [], tr_far = far, tr_given_up = []\<rparr>"
| step: "transit_reach uuid m w \<Longrightarrow> transit_step uuid m w w' \<Longrightarrow> transit_reach uuid m w'"

definition arrived :: "ledger_slot list \<Rightarrow> chat_message \<Rightarrow> bool" where
  "arrived far e = (\<exists>p. prior_of far (m_id e) = Some p \<and> without_options p = without_options e)"

definition transit_inv :: "transit \<Rightarrow> bool" where
  "transit_inv w = (distinct (ledger_ids (tr_far w)) \<and> distinct (map outboundId (tr_outbox w))
     \<and> (\<forall>row\<in>set (tr_outbox w). ou_ok row \<longrightarrow> arrived (tr_far w) (ou_envelope row))
     \<and> (\<forall>i\<in>set (tr_acks w). i \<in> set (tr_given_up w)
          \<or> (\<exists>row\<in>set (tr_outbox w). outboundId row = i \<and> arrived (tr_far w) (ou_envelope row))))"

lemma arrived_prefix: "arrived far e \<Longrightarrow> prefix far far' \<Longrightarrow> arrived far' e"
  by (auto simp: arrived_def prior_of_append elim!: prefixE)

lemma admit_arrives: "admitOnce select e far = Inr (new, far') \<Longrightarrow> arrived far' e"
  using admitOnce_again [of select e far new far' select "[]"]
  by (auto simp: arrived_def admitOnce_def bind_result_Inr_iff split: option.splits if_splits)

lemma far_side_facts:
  assumes "far_side uuid env e executed far = (code, far')" "distinct (ledger_ids far)"
  shows "distinct (ledger_ids far')" "prefix far far'" "executed \<Longrightarrow> code = 0 \<Longrightarrow> arrived far' e"
proof -
  have "(distinct (ledger_ids far') \<and> prefix far far') \<and> (executed \<longrightarrow> code = 0 \<longrightarrow> arrived far' e)"
  proof (cases executed)
    case True
    then have "cmdReceiveChat uuid (env\<lparr>rv_message := Some e\<rparr>) far = (code, far')"
      using assms(1) by (simp add: far_side_def)
    from receive_cases [OF this] show ?thesis
      using admitOnce_ids [OF _ assms(2)] admit_arrives assms(2) by fastforce
  qed (use assms in \<open>auto simp: far_side_def\<close>)
  then show "distinct (ledger_ids far')" "prefix far far'" "executed \<Longrightarrow> code = 0 \<Longrightarrow> arrived far' e" by blast+
qed

lemma grown_inv:
  assumes "transit_inv w" "distinct (ledger_ids far')" "prefix (tr_far w) far'"
  shows "transit_inv (w\<lparr>tr_far := far'\<rparr>)"
  using assms arrived_prefix [OF _ assms(3)] unfolding transit_inv_def by fastforce

lemma acked_inv:
  assumes "transit_inv w" "accepted' \<Longrightarrow> \<exists>row\<in>set (tr_outbox w). outboundId row = i \<and> arrived (tr_far w) (ou_envelope row)"
  shows "transit_inv (transit_apply accepted' far' (FAck i) w)"
  using assms unfolding transit_inv_def by auto

lemma take_one_two: "take k [a] = [] \<or> take k [a] = [a]" "take k [a, b] = [] \<or> take k [a, b] = [a] \<or> take k [a, b] = [a, b]"
  by (simp_all add: take_Cons' )

lemma transit_step_inv:
  assumes st: "transit_step uuid m w w'" and inv: "transit_inv w"
  shows "transit_inv w'"
  using st
proof (cases rule: transit_step.cases)
  case (first_try e env executed code far' r recorded)
  have d: "distinct (ledger_ids (tr_far w))" using inv by (simp add: transit_inv_def)
  note f = far_side_facts [OF first_try(4) d]
  have "delivered_ok r \<Longrightarrow> arrived far' e" using first_try(5) f(3) by (simp add: faithful_def)
  then show ?thesis
    using grown_inv [OF inv f(1,2)] first_try(1,2) unfolding transit_inv_def
    by (auto simp: outbound_row_def outboundId_def)
next
  case (retry acks row now env executed code far' r k)
  have d: "distinct (ledger_ids (tr_far w))" using inv by (simp add: transit_inv_def)
  note f = far_side_facts [OF retry(4) d]
  have row: "row \<in> set (tr_outbox w)" using retry(3) by (auto simp: retryCandidates_def dest!: retry_loop_mem)
  let ?v = "w\<lparr>tr_far := far'\<rparr>"
  have sent: "transit_inv ?v" by (rule grown_inv [OF inv f(1,2)])
  from flush_record_cases [of m r row] show ?thesis
  proof cases
    case skips
    with retry(1) inv show ?thesis by simp
  next
    case (unaddressable target)
    then have "\<not> accepted m r row" by (simp add: accepted_def)
    then have "transit_inv (transit_apply (accepted m r row) far' (FAck (outboundId row)) w)"
      by (intro acked_inv [OF inv]) simp
    then show ?thesis
      using retry(1) inv take_one_two(1) [of k "FAck (outboundId row)"] unfolding unaddressable(3)
      by (auto simp del: transit_apply.simps)
  next
    case (calls target via machine session)
    have ok: "transit_inv (transit_apply (accepted m r row) far' (FAck (outboundId row)) ?v)"
    proof (rule acked_inv [OF sent])
      assume "accepted m r row"
      then have "arrived far' (ou_envelope row)" using retry(5) f(3) by (simp add: accepted_def faithful_def)
      with row show "\<exists>x\<in>set (tr_outbox ?v). outboundId x = outboundId row \<and> arrived (tr_far ?v) (ou_envelope x)" by auto
    qed
    let ?s = "FSend machine (ou_envelope row)" and ?a = "FAck (outboundId row)"
    have "flush_record m r row = [?s] \<or> flush_record m r row = [?s, ?a]" using calls(3) by auto
    then have "take k (flush_record m r row) \<in> {[], [?s], [?s, ?a]}"
      using take_one_two(1) [of k ?s] take_one_two(2) [of k ?s ?a] by auto
    moreover have "transit_apply (accepted m r row) far' ?s w = ?v" by simp
    ultimately show ?thesis
      using retry(1) inv sent ok by (auto simp del: transit_apply.simps)
  qed
next
  case (others slot)
  then have "distinct (ledger_ids (tr_far w @ [slot]))"
    using inv by (cases slot) (auto simp: ledger_ids_append transit_inv_def)
  with grown_inv [OF inv this] others(1) show ?thesis by simp
qed

lemma transit_reach_inv: "transit_reach uuid m w \<Longrightarrow> transit_inv w"
proof (induction rule: transit_reach.induct)
  case (start far)
  then show ?case by (simp add: transit_inv_def)
next
  case (step w w')
  then show ?case by (blast intro: transit_step_inv)
qed

subsection \<open>What a pass settles\<close>

text \<open>When the far machine accepts, every letter to a session that the pass reaches is settled.\<close>

lemma flush_settles:
  assumes "peersOf le m \<noteq> []" "r \<in> set (take MAX_PER_TICK (retryCandidates rows (set acks) now RETRY_WINDOW_MS))"
    and "m_to (ou_envelope r) = ToManaged target" "delivered_ok (results (outboundId r))"
  shows "FAck (outboundId r) \<in> set (flushOutbox le m rows acks now results)"
proof -
  have "FAck (outboundId r) \<in> set (flush_record m (results (outboundId r)) r)"
    using assms(3,4) by (cases rule: flush_record_cases [of m "results (outboundId r)" r]) (auto simp: flush_record_def split: route.splits)
  with assms(1,2) show ?thesis unfolding flushOutbox_def by auto
qed

text \<open>Letters to App threads are queued and never sent again, and while three of them are fresh they take the
  whole pass: nothing behind them is retried.\<close>

lemma app_letters_block:
  assumes "\<forall>r\<in>set (take MAX_PER_TICK (retryCandidates rows (set acks) now RETRY_WINDOW_MS)).
    \<exists>p. m_to (ou_envelope r) = ToCodexApp p"
  shows "flushOutbox le m rows acks now results = []"
proof -
  have "flush_record m result r = []" if "m_to (ou_envelope r) = ToCodexApp p" for r p result
    using that by (simp add: flush_record_def)
  with assms show ?thesis by (auto simp: flushOutbox_def)
qed

text \<open>A letter whose retries were given up counts as one that reached its recipient.\<close>

lemma given_up_counts_as_reached:
  assumes "row \<in> set outbox" "outboundId row \<in> acked"
  shows "map_option lr_reached (localMessageLookup ledger outbox acked (outboundId row)) = Some True"
proof -
  have keep: "map_option lr_reached (index_sent acked sent ix i) = Some True"
    if "map_option lr_reached (ix i) = Some True" for sent ix i
    using that by (auto simp: index_sent_def)
  have "row \<in> set outbox \<Longrightarrow> map_option lr_reached (fold (index_sent acked) outbox ix (outboundId row)) = Some True" for ix
  proof (induction outbox rule: rev_induct)
    case (snoc sent outbox)
    show ?case
    proof (cases "row = sent")
      case True
      with assms(2) show ?thesis by (auto simp: index_sent_def)
    next
      case False
      with snoc show ?thesis using keep by simp
    qed
  qed simp
  with assms(1) show ?thesis by (simp add: localMessageLookup_def)
qed

end
