(* ===== verification/Correspondence.thy ===== *)
theory Correspondence
  imports Basis
begin

text \<open>
  Every letter a host's own principals wrote to a peer stands on one opening letter.  The steps are those
  of the host: one of its principals writes (through the two gates, into the ledger or to the outbox),
  a letter of somebody else arrives, an outbox letter is settled.  \<open>own\<close> holds the keys of the host's
  principals.
\<close>

record host =
  ho_ledger :: "ledger_slot list"
  ho_outbox :: "outbound list"
  ho_acks :: "string list"

definition host_lookup :: "host \<Rightarrow> (string \<rightharpoonup> local_record)" where
  "host_lookup h = localMessageLookup (ho_ledger h) (ho_outbox h) (set (ho_acks h))"

definition holds :: "host \<Rightarrow> chat_message \<Rightarrow> bool" where
  "holds h e = (Some e \<in> set (ho_ledger h) \<or> e \<in> ou_envelope ` set (ho_outbox h))"

definition written ::
  "(string \<Rightarrow> bool) \<Rightarrow> (chat_message \<Rightarrow> bool) \<Rightarrow> host \<Rightarrow> message_origin \<Rightarrow> string \<Rightarrow> stamp \<Rightarrow> principal \<Rightarrow> target \<Rightarrow> string
     \<Rightarrow> envelope_opts \<Rightarrow> chat_message option" where
  "written uuid ok h origin i ts who to body opts =
     (case requireCommunicationAuthorization uuid who origin (eo_authorization opts) of
        Inl _ \<Rightarrow> None
      | Inr _ \<Rightarrow> (case requireOriginatingBasis uuid who to (eo_authorization opts) (Some (host_lookup h)) (eo_task opts) of
          Inl _ \<Rightarrow> None
        | Inr basis \<Rightarrow> buildEnvelope ok i ts who to body (opts\<lparr>eo_receipt := basis\<rparr>)))"

inductive host_step :: "(string \<Rightarrow> bool) \<Rightarrow> (chat_message \<Rightarrow> bool) \<Rightarrow> string set \<Rightarrow> host \<Rightarrow> host \<Rightarrow> bool"
  for uuid :: "string \<Rightarrow> bool" and ok :: "chat_message \<Rightarrow> bool" and own :: "string set" where
  local_letter: "chatPrincipalKey who \<in> own \<Longrightarrow> written uuid ok h origin i ts who to body opts = Some e \<Longrightarrow>
    host_step uuid ok own h (h\<lparr>ho_ledger := ho_ledger h @ [Some e]\<rparr>)"
| remote_letter: "chatPrincipalKey who \<in> own \<Longrightarrow> written uuid ok h origin i ts who to body opts = Some e \<Longrightarrow>
    host_step uuid ok own h (h\<lparr>ho_outbox := ho_outbox h @ [\<lparr>ou_envelope = e, ou_ok = accepted, ou_detail = detail\<rparr>]\<rparr>)"
| arrival: "(\<And>e. slot = Some e \<Longrightarrow> chatPrincipalKey (m_from e) \<notin> own) \<Longrightarrow>
    host_step uuid ok own h (h\<lparr>ho_ledger := ho_ledger h @ [slot]\<rparr>)"
| settled: "host_step uuid ok own h (h\<lparr>ho_acks := ho_acks h @ [i]\<rparr>)"

inductive host_reach :: "(string \<Rightarrow> bool) \<Rightarrow> (chat_message \<Rightarrow> bool) \<Rightarrow> string set \<Rightarrow> host \<Rightarrow> bool"
  for uuid :: "string \<Rightarrow> bool" and ok :: "chat_message \<Rightarrow> bool" and own :: "string set" where
  empty: "host_reach uuid ok own \<lparr>ho_ledger = [], ho_outbox = [], ho_acks = []\<rparr>"
| step: "host_reach uuid ok own h \<Longrightarrow> host_step uuid ok own h h' \<Longrightarrow> host_reach uuid ok own h'"

inductive_cases host_stepE: "host_step uuid ok own h h'"

subsection \<open>What is found was stored\<close>

lemma index_ledger_stored: "index_ledger ledger i = Some r \<Longrightarrow> Some (lr_message r) \<in> set ledger \<and> m_id (lr_message r) = i"
  unfolding index_ledger_def
proof (induction ledger rule: rev_induct)
  case (snoc slot ledger)
  then show ?case by (cases slot) (auto split: if_splits)
qed simp

lemma lookup_stored: "host_lookup h i = Some r \<Longrightarrow> holds h (lr_message r) \<and> m_id (lr_message r) = i"
proof -
  have "fold (index_sent acked) outbox (index_ledger ledger) i = Some r \<Longrightarrow>
      (Some (lr_message r) \<in> set ledger \<or> lr_message r \<in> ou_envelope ` set outbox) \<and> m_id (lr_message r) = i" for acked outbox ledger
  proof (induction outbox rule: rev_induct)
    case (snoc sent outbox)
    then show ?case by (auto simp: index_sent_def outboundId_def split: if_splits)
  qed (use index_ledger_stored in simp)
  then show "host_lookup h i = Some r \<Longrightarrow> holds h (lr_message r) \<and> m_id (lr_message r) = i"
    by (simp add: host_lookup_def localMessageLookup_def holds_def)
qed

subsection \<open>The opening of a correspondence\<close>

text \<open>A justified opening: a person's instruction, or a letter of the very peer that is answered, with the
  quoted words in it.\<close>

definition opens :: "chat_message \<Rightarrow> authorization \<Rightarrow> source_letter option \<Rightarrow> bool" where
  "opens e a letter = (case au_basis a of
      Some UserInstruction \<Rightarrow> letter = None
    | Some PeerLetter \<Rightarrow> (\<exists>l q. letter = Some l \<and> chatTargetKey (so_to l) = chatPrincipalKey (m_from e)
        \<and> chatPrincipalKey (so_from l) = chatTargetKey (m_to e) \<and> au_quote a = Some q \<and> sublist q (so_body l)
        \<and> so_task l = m_task e)
    | _ \<Rightarrow> False)"

definition traced :: "host \<Rightarrow> chat_message \<Rightarrow> bool" where
  "traced h e = (case m_authorization e of
      None \<Rightarrow> m_receipt e = None
    | Some a \<Rightarrow> (\<exists>r e0. m_receipt e = Some r \<and> holds h e0 \<and> m_id e0 = ro_root r
        \<and> m_authorization e0 = Some (ro_authorization r)
        \<and> chatPrincipalKey (m_from e0) = chatPrincipalKey (m_from e) \<and> chatTargetKey (m_to e0) = chatTargetKey (m_to e)
        \<and> m_task e0 = m_task e \<and> opens e0 (ro_authorization r) (ro_letter r)))"

definition host_inv :: "string set \<Rightarrow> host \<Rightarrow> bool" where
  "host_inv own h = (\<forall>e. holds h e \<longrightarrow> chatPrincipalKey (m_from e) \<in> own \<longrightarrow> traced h e)"

lemma traced_mono: "traced h e \<Longrightarrow> (\<And>x. holds h x \<Longrightarrow> holds h' x) \<Longrightarrow> traced h' e"
  unfolding traced_def by (fastforce split: option.splits)

text \<open>What the two gates let through.\<close>

lemma basis_cases:
  assumes "requireOriginatingBasis uuid who to (Some a) (Some ix) task = Inr basis"
  obtains (instruction) "au_basis a = Some UserInstruction"
      "basis = Some \<lparr>og_root = None, og_authorization = a, og_letter = None\<rparr>"
  | (peer) thread i r where "au_basis a = Some PeerLetter" "ix i = Some r" "lr_reached r" "m_task (lr_message r) = task"
      "peer_letter_basis who to a thread (lr_message r) = Inr (the basis)" "basis \<noteq> None"
  | (continuation) thread i r where "au_basis a = Some ThreadContinuation" "ix i = Some r" "lr_reached r"
      "m_task (lr_message r) = task" "continuation_basis who to thread (lr_message r) = Inr (the basis)" "basis \<noteq> None"
proof (cases "au_basis a")
  case None
  with assms show ?thesis by (simp add: requireOriginatingBasis_def)
next
  case b: (Some b)
  show ?thesis
  proof (cases b)
    case UserInstruction
    with assms b instruction show ?thesis by (simp add: requireOriginatingBasis_def resolveCommunicationBasis_def)
  next
    case PeerLetter
    with assms b obtain thread i r where f: "ix i = Some r" "lr_reached r" "m_task (lr_message r) = task"
      "map_sum id Some (peer_letter_basis who to a thread (lr_message r)) = Inr basis"
      by (auto simp: requireOriginatingBasis_def resolveCommunicationBasis_def split: option.splits if_splits)
    then have "peer_letter_basis who to a thread (lr_message r) = Inr (the basis)" "basis \<noteq> None"
      by (cases "peer_letter_basis who to a thread (lr_message r)"; auto)+
    with f b PeerLetter peer show ?thesis by blast
  next
    case ThreadContinuation
    with assms b obtain thread i r where f: "ix i = Some r" "lr_reached r" "m_task (lr_message r) = task"
      "map_sum id Some (continuation_basis who to thread (lr_message r)) = Inr basis"
      by (auto simp: requireOriginatingBasis_def resolveCommunicationBasis_def split: option.splits if_splits)
    then have "continuation_basis who to thread (lr_message r) = Inr (the basis)" "basis \<noteq> None"
      by (cases "continuation_basis who to thread (lr_message r)"; auto)+
    with f b ThreadContinuation continuation show ?thesis by blast
  qed
qed

lemma peer_letter_facts:
  assumes "peer_letter_basis who to a thread r = Inr b"
  shows "b = \<lparr>og_root = None, og_authorization = a, og_letter = Some (snapshot r)\<rparr>"
    and "chatTargetKey (m_to r) = chatPrincipalKey who" "chatPrincipalKey (m_from r) = chatTargetKey to"
    and "\<exists>q. au_quote a = Some q \<and> sublist q (m_body r)"
  using assms by (auto simp: peer_letter_basis_def split: if_splits option.splits)

lemma continuation_facts:
  assumes "continuation_basis who to thread r = Inr b"
  shows "chatPrincipalKey (m_from r) = chatPrincipalKey who" "chatTargetKey (m_to r) = chatTargetKey to"
    and "\<exists>a c. m_authorization r = Some a \<and> m_receipt r = Some c
      \<and> b = \<lparr>og_root = Some (ro_root c), og_authorization = ro_authorization c, og_letter = ro_letter c\<rparr>"
  using assms by (auto simp: continuation_basis_def split: if_splits option.splits)

lemma written_fields:
  assumes "written uuid ok h origin i ts who to body opts = Some e"
  obtains basis where "requireOriginatingBasis uuid who to (eo_authorization opts) (Some (host_lookup h)) (eo_task opts) = Inr basis"
    "m_from e = who" "m_to e = to" "m_task e = eo_task opts" "m_authorization e = eo_authorization opts" "m_id e = i"
    "m_receipt e = map_option (\<lambda>b. \<lparr>ro_root = nullish (og_root b) i, ro_authorization = og_authorization b,
       ro_letter = og_letter b\<rparr>) basis"
  using assms by (auto simp: written_def buildEnvelope_def Let_def split: sum.splits if_splits)

text \<open>A new letter is traced as soon as it is stored.\<close>

lemma written_traced:
  assumes inv: "host_inv own h" and w: "written uuid ok h origin i ts who to body opts = Some e"
    and mine: "chatPrincipalKey who \<in> own" and more: "\<And>x. holds h x \<Longrightarrow> holds h' x" and self: "holds h' e"
  shows "traced h' e"
proof -
  from w obtain basis where b: "requireOriginatingBasis uuid who to (eo_authorization opts) (Some (host_lookup h)) (eo_task opts) = Inr basis"
    and e: "m_from e = who" "m_to e = to" "m_task e = eo_task opts" "m_authorization e = eo_authorization opts" "m_id e = i"
      "m_receipt e = map_option (\<lambda>b. \<lparr>ro_root = nullish (og_root b) i, ro_authorization = og_authorization b,
        ro_letter = og_letter b\<rparr>) basis"
    by (rule written_fields)
  show ?thesis
  proof (cases "eo_authorization opts")
    case None
    with b e show ?thesis by (simp add: traced_def requireOriginatingBasis_def)
  next
    case (Some a)
    from b [unfolded Some] show ?thesis
    proof (cases rule: basis_cases)
      case instruction
      then have "m_receipt e = Some \<lparr>ro_root = m_id e, ro_authorization = a, ro_letter = None\<rparr>" using e by simp
      then show ?thesis using e Some self instruction by (auto simp: traced_def opens_def)
    next
      case (peer thread j r)
      note p = peer_letter_facts [OF peer(5)]
      have "m_receipt e = Some \<lparr>ro_root = m_id e, ro_authorization = a, ro_letter = Some (snapshot (lr_message r))\<rparr>"
        using e peer(6) p(1) by auto
      moreover have "opens e a (Some (snapshot (lr_message r)))"
        using peer(1,4) p(2-4) e by (auto simp: opens_def snapshot_def)
      ultimately show ?thesis using e Some self by (auto simp: traced_def)
    next
      case (continuation thread j r)
      note c = continuation_facts [OF continuation(5)]
      from c(3) obtain a' rc where m: "m_authorization (lr_message r) = Some a'" "m_receipt (lr_message r) = Some rc"
        "the basis = \<lparr>og_root = Some (ro_root rc), og_authorization = ro_authorization rc, og_letter = ro_letter rc\<rparr>" by blast
      have "traced h (lr_message r)"
        using inv lookup_stored [OF continuation(2)] c(1) mine by (simp add: host_inv_def)
      then obtain e0 where e0: "holds h e0" "m_id e0 = ro_root rc" "m_authorization e0 = Some (ro_authorization rc)"
        "chatPrincipalKey (m_from e0) = chatPrincipalKey (m_from (lr_message r))"
        "chatTargetKey (m_to e0) = chatTargetKey (m_to (lr_message r))" "m_task e0 = m_task (lr_message r)"
        "opens e0 (ro_authorization rc) (ro_letter rc)"
        using m by (auto simp: traced_def)
      moreover have "m_receipt e = Some rc" using e(6) m(3) continuation(6) by auto
      ultimately show ?thesis
        using e Some c(1,2) continuation(4) more by (auto simp: traced_def)
    qed
  qed
qed

lemma host_step_inv:
  assumes st: "host_step uuid ok own h h'" and inv: "host_inv own h"
  shows "host_inv own h'"
proof -
  have old: "traced h' e" if "holds h e" "chatPrincipalKey (m_from e) \<in> own" "\<And>x. holds h x \<Longrightarrow> holds h' x" for e
    using inv that traced_mono by (auto simp: host_inv_def)
  from st show ?thesis
  proof (cases rule: host_step.cases)
    case (local_letter who origin i ts to body opts e)
    have more: "holds h x \<Longrightarrow> holds h' x" and self: "holds h' e" for x
      using local_letter(1) by (auto simp: holds_def)
    have only: "holds h' x \<Longrightarrow> holds h x \<or> x = e" for x using local_letter(1) by (auto simp: holds_def)
    show ?thesis
      unfolding host_inv_def
      using only old more written_traced [OF inv local_letter(3,2) more self] by metis
  next
    case (remote_letter who origin i ts to body opts e accepted detail)
    have more: "holds h x \<Longrightarrow> holds h' x" and self: "holds h' e" for x
      using remote_letter(1) by (auto simp: holds_def)
    have only: "holds h' x \<Longrightarrow> holds h x \<or> x = e" for x using remote_letter(1) by (auto simp: holds_def)
    show ?thesis
      unfolding host_inv_def
      using only old more written_traced [OF inv remote_letter(3,2) more self] by metis
  next
    case (arrival slot)
    have more: "holds h x \<Longrightarrow> holds h' x" for x using arrival(1) by (auto simp: holds_def)
    have "holds h' x \<Longrightarrow> holds h x \<or> slot = Some x" for x using arrival(1) by (auto simp: holds_def)
    then show ?thesis unfolding host_inv_def using old more arrival(2) by metis
  next
    case (settled i)
    then have "holds h' x = holds h x" for x by (simp add: holds_def)
    then show ?thesis unfolding host_inv_def using old by metis
  qed
qed

lemma host_reach_inv: "host_reach uuid ok own h \<Longrightarrow> host_inv own h"
proof (induction rule: host_reach.induct)
  case empty
  then show ?case by (simp add: host_inv_def holds_def)
next
  case (step h h')
  then show ?case by (blast intro: host_step_inv)
qed

end
