(* ===== verification/LogFeed.thy ===== *)
theory LogFeed
  imports Outbox "HOL-Library.Multiset"
begin

text \<open>
  The chat log (\<open>src/chat/fleetLog.ts\<close>, \<open>letters.ts\<close>) and its resumable feed (\<open>logFeed.ts\<close>,
  \<open>feedSchema.ts\<close>).  Arguments: \<open>text\<close>, the ISO text of a time stamp; \<open>bytes\<close>, the length of a frame's JSON; the parser of a line and the schemas of its two record types.
\<close>

datatype row_kind = ChatRow | SentRow

record log_row =
  lw_messageId :: "string option"
  lw_sender :: "principal option"
  lw_target :: "target option"
  lw_origin :: message_origin
  lw_authorization :: "authorization option"
  lw_receipt :: "receipt option"
  lw_notification :: audience
  lw_registration :: "string option"
  lw_machine :: string
  lw_ts :: string
  lw_kind :: row_kind
  lw_from :: string
  lw_to :: string
  lw_task :: "string option"
  lw_body :: string
  lw_note :: string

definition row_of :: "(stamp \<Rightarrow> string) \<Rightarrow> string \<Rightarrow> row_kind \<Rightarrow> string \<Rightarrow> chat_message \<Rightarrow> log_row" where
  "row_of text machine kind note msg =
     \<lparr>lw_messageId = Some (m_id msg), lw_sender = Some (m_from msg), lw_target = Some (m_to msg),
      lw_origin = nullish (m_origin msg) unknownMessageOrigin, lw_authorization = m_authorization msg,
      lw_receipt = m_receipt msg, lw_notification = nullish (m_notification msg) Conversation,
      lw_registration = m_registration msg, lw_machine = machine, lw_ts = text (m_ts msg), lw_kind = kind,
      lw_from = principalLabel (m_from msg), lw_to = targetLabel (m_to msg), lw_task = m_task msg,
      lw_body = m_body msg, lw_note = note\<rparr>"

definition rowFromLedgerRecord :: "(stamp \<Rightarrow> string) \<Rightarrow> string \<Rightarrow> ledger_slot \<Rightarrow> log_row" where
  "rowFromLedgerRecord text machine slot = (case slot of
      None \<Rightarrow> \<lparr>lw_messageId = None, lw_sender = None, lw_target = None, lw_origin = unknownMessageOrigin,
        lw_authorization = None, lw_receipt = None, lw_notification = Conversation, lw_registration = None,
        lw_machine = machine, lw_ts = '''', lw_kind = ChatRow, lw_from = ''?'', lw_to = ''?'', lw_task = None,
        lw_body = ''(a record this ccmux cannot read '' @ em_dash @ '' written by a newer build)'', lw_note = ''''\<rparr>
    | Some msg \<Rightarrow> row_of text machine ChatRow '''' msg)"

definition rowFromOutbound :: "(stamp \<Rightarrow> string) \<Rightarrow> string \<Rightarrow> outbound \<Rightarrow> string set \<Rightarrow> log_row" where
  "rowFromOutbound text machine o' settled = row_of text machine SentRow
     (if ou_ok o' then '''' else if outboundId o' \<in> settled then ''sent later, on retry''
      else ''NOT SENT '' @ em_dash @ '' '' @ (if ou_detail o' = '''' then ''unknown error'' else ou_detail o')) (ou_envelope o')"

definition localRows :: "(stamp \<Rightarrow> string) \<Rightarrow> string \<Rightarrow> ledger_slot list \<Rightarrow> outbound list \<Rightarrow> string set \<Rightarrow> log_row list" where
  "localRows text machine ledger outbox settled =
     sort_key lw_ts (map (rowFromLedgerRecord text machine) ledger @ map (\<lambda>o'. rowFromOutbound text machine o' settled) outbox)"

text \<open>\<open>all.slice(-limit)\<close> for a positive limit.\<close>

definition mergeFleetLog :: "log_row list list \<Rightarrow> int \<Rightarrow> log_row list" where
  "mergeFleetLog sources limit = (let all = sort_key lw_ts (concat sources)
     in if limit > 0 then drop (length all - nat limit) all else all)"

text \<open>The log is as long as the two files: nothing is closed over, and without a limit nothing is left out.\<close>

lemma mset_localRows:
  "mset (localRows text machine ledger outbox settled)
     = mset (map (rowFromLedgerRecord text machine) ledger) + mset (map (\<lambda>o'. rowFromOutbound text machine o' settled) outbox)"
  by (simp add: localRows_def)

lemma mergeFleetLog_newest:
  assumes "limit > 0"
  shows "suffix (mergeFleetLog sources limit) (mergeFleetLog sources 0)"
    and "length (mergeFleetLog sources limit) = min (nat limit) (length (concat sources))"
    and "sorted (map lw_ts (mergeFleetLog sources 0))" "mset (mergeFleetLog sources 0) = mset (concat sources)"
  using assms by (auto simp: mergeFleetLog_def Let_def suffix_drop)

subsection \<open>Letters per session\<close>

record session_letters =
  sl_total :: nat
  sl_lastAt :: "string option"

definition sender_session :: "string \<Rightarrow> principal option \<Rightarrow> string option" where
  "sender_session machine p = (case p of Some (FromManaged q) \<Rightarrow> if mp_machine q = machine then Some (mp_session q) else None | _ \<Rightarrow> None)"

definition target_session :: "string \<Rightarrow> target option \<Rightarrow> string option" where
  "target_session machine p = (case p of Some (ToManaged q) \<Rightarrow> if mp_machine q = machine then Some (mp_session q) else None | _ \<Rightarrow> None)"

definition bump :: "string option \<Rightarrow> string \<Rightarrow> (string \<rightharpoonup> session_letters) \<Rightarrow> (string \<rightharpoonup> session_letters)" where
  "bump name ts counts = (case name of None \<Rightarrow> counts
     | Some n \<Rightarrow> (let current = nullish (counts n) \<lparr>sl_total = 0, sl_lastAt = None\<rparr>
         in counts(n \<mapsto> \<lparr>sl_total = sl_total current + 1,
              sl_lastAt = (case sl_lastAt current of None \<Rightarrow> Some ts | Some t \<Rightarrow> if ts > t then Some ts else Some t)\<rparr>)))"

definition letterCounts :: "log_row list \<Rightarrow> string \<Rightarrow> (string \<rightharpoonup> session_letters)" where
  "letterCounts rows machine = fold (\<lambda>row counts.
     (let from' = sender_session machine (lw_sender row); to' = target_session machine (lw_target row);
          counts' = bump from' (lw_ts row) counts
      in if to' \<noteq> from' then bump to' (lw_ts row) counts' else counts')) rows Map.empty"

definition involves :: "string \<Rightarrow> string \<Rightarrow> log_row \<Rightarrow> bool" where
  "involves machine n row = (sender_session machine (lw_sender row) = Some n \<or> target_session machine (lw_target row) = Some n)"

definition totals :: "(string \<rightharpoonup> session_letters) \<Rightarrow> string \<Rightarrow> nat" where
  "totals counts n = (case counts n of None \<Rightarrow> 0 | Some c \<Rightarrow> sl_total c)"

lemma totals_bump: "totals (bump name ts counts) n = totals counts n + (if name = Some n then 1 else 0)"
  by (auto simp: totals_def bump_def Let_def split: option.split)

text \<open>Each session is counted once for every letter it sent or received, a letter to itself once.\<close>

lemma letterCounts_total: "totals (letterCounts rows machine) n = length (filter (involves machine n) rows)"
proof (induction rows rule: rev_induct)
  case (snoc row rows)
  show ?case using snoc by (auto simp: letterCounts_def Let_def totals_bump involves_def)
qed (simp add: letterCounts_def totals_def)

subsection \<open>Positions\<close>

record log_cursor =
  lc_gen :: int
  lc_ledger :: nat
  lc_outbox :: nat

definition ZERO_CURSOR :: log_cursor where "ZERO_CURSOR = \<lparr>lc_gen = CHAT_GENERATION, lc_ledger = 0, lc_outbox = 0\<rparr>"

definition formatCursor :: "log_cursor \<Rightarrow> string" where
  "formatCursor c = string_of_int (lc_gen c) @ ''.'' @ string_of_nat (lc_ledger c) @ ''.'' @ string_of_nat (lc_outbox c)"

definition parseCursor :: "string \<Rightarrow> string + log_cursor" where
  "parseCursor raw = (case split_on (CHR ''.'') raw of
      [a, b, c] \<Rightarrow>
        (case (parse_int a, parse_int b, parse_int c) of
           (Some gen, Some ledger, Some outbox) \<Rightarrow>
             (if ledger < 0 \<or> outbox < 0 then Inl (''expected three non-negative integers, got '' @ quoted raw)
              else if gen \<noteq> CHAT_GENERATION
              then Inl (''cursor is for record generation '' @ string_of_int gen @ '', this log is generation ''
                @ string_of_int CHAT_GENERATION @ ''. Positions do not survive a generation change ''
                @ em_dash @ '' start without a cursor to read the current log.'')
              else Inr \<lparr>lc_gen = gen, lc_ledger = nat ledger, lc_outbox = nat outbox\<rparr>)
         | _ \<Rightarrow> Inl (''expected three non-negative integers, got '' @ quoted raw))
    | _ \<Rightarrow> Inl (''expected <generation>.<ledger>.<outbox>, got '' @ quoted raw))"

lemma cursor_round_trip:
  assumes "lc_gen c = CHAT_GENERATION"
  shows "parseCursor (formatCursor c) = Inr c"
proof -
  have no: "CHR ''.'' \<notin> set (string_of_nat n)" for n
    using digits_string_of_nat [of n] digit_not(4) by blast
  have g: "string_of_int (lc_gen c) = string_of_nat 2" using assms by (simp add: CHAT_GENERATION_def string_of_int_def)
  have "split_on (CHR ''.'') (formatCursor c) = [string_of_nat 2, string_of_nat (lc_ledger c), string_of_nat (lc_outbox c)]"
    by (simp add: formatCursor_def g split_on_sep split_on_absent no)
  then show ?thesis
    using assms by (simp add: parseCursor_def parse_int_string_of_nat CHAT_GENERATION_def)
qed

subsection \<open>Frames\<close>

definition MAX_FRAME_BYTES :: nat where "MAX_FRAME_BYTES = 32 * 1024"

record machine_state =
  ms_machine :: string
  ms_ok :: bool
  ms_error :: "string option"

datatype log_frame = RowFrame log_cursor log_row | MachineFrame log_cursor machine_state

fun frame_cursor :: "log_frame \<Rightarrow> log_cursor" where
  "frame_cursor (RowFrame c _) = c"
| "frame_cursor (MachineFrame c _) = c"

definition boundFrame :: "(log_frame \<Rightarrow> nat) \<Rightarrow> log_frame \<Rightarrow> log_frame" where
  "boundFrame bytes frame = (case frame of
      MachineFrame c ms \<Rightarrow> frame
    | RowFrame c row \<Rightarrow>
        (if bytes frame \<le> MAX_FRAME_BYTES then frame
         else (let row1 = row\<lparr>lw_body := ''(body omitted: '' @ string_of_nat (length (lw_body row)) @ '' bytes exceeds this feed's ''
                   @ string_of_nat MAX_FRAME_BYTES @ ''-byte record limit '' @ em_dash @ '' read it with: ccmux chat log -n 1 --json)'',
                 lw_note := (if lw_note row = '''' then ''oversized'' else lw_note row @ ''; oversized'')\<rparr>
               in if bytes (RowFrame c row1) \<le> MAX_FRAME_BYTES then RowFrame c row1
                  else RowFrame c (row1\<lparr>lw_authorization := None, lw_receipt := None,
                    lw_note := lw_note row1 @ ''; communication authorization omitted from feed '' @ em_dash
                      @ '' read the source ledger by messageId''\<rparr>))))"

text \<open>A frame keeps its place, its letter and its route, whatever is omitted.\<close>

lemma boundFrame_keeps:
  "\<exists>row'. boundFrame bytes (RowFrame c row) = RowFrame c row' \<and> lw_messageId row' = lw_messageId row \<and> lw_kind row' = lw_kind row
     \<and> lw_from row' = lw_from row \<and> lw_to row' = lw_to row \<and> lw_ts row' = lw_ts row \<and> lw_task row' = lw_task row"
  by (auto simp: boundFrame_def Let_def)

subsection \<open>Reading after a position\<close>

definition FEED_LEDGER :: "(byte list \<Rightarrow> json option option) \<Rightarrow> (json \<Rightarrow> chat_message option) \<Rightarrow> (json, nat \<times> ledger_slot) jsonl_options" where
  "FEED_LEDGER parse message_of = \<lparr>jo_id = 10, jo_label = ''chat ledger'', jo_badLine = BadHole, jo_parse = parse,
     jo_decode = (\<lambda>raw line. Inr (Some (line, case raw of None \<Rightarrow> None
       | Some j \<Rightarrow> (case parseRecord message_of j of Inl _ \<Rightarrow> None | Inr slot \<Rightarrow> slot))))\<rparr>"

definition FEED_OUTBOX :: "(byte list \<Rightarrow> json option option) \<Rightarrow> (json \<Rightarrow> outbound option) \<Rightarrow> (json, nat \<times> outbound) jsonl_options" where
  "FEED_OUTBOX parse outbound_of = \<lparr>jo_id = 11, jo_label = ''outbox'', jo_badLine = BadSkip, jo_parse = parse,
     jo_decode = (\<lambda>raw line. Inr (case raw of None \<Rightarrow> None | Some j \<Rightarrow> map_option (Pair line) (outbound_of j)))\<rparr>"

definition new_after :: "nat \<Rightarrow> (nat \<times> 'r) list \<Rightarrow> (nat \<times> 'r) list" where
  "new_after n rs = filter (\<lambda>(line, _). n < line) rs"

definition reached :: "nat \<Rightarrow> (nat \<times> 'r) list \<Rightarrow> nat" where
  "reached n rs = foldl (\<lambda>_ (line, _). line) n (new_after n rs)"

definition rowsAfter ::
  "(stamp \<Rightarrow> string) \<Rightarrow> (log_frame \<Rightarrow> nat) \<Rightarrow> string \<Rightarrow> (nat \<times> ledger_slot) list \<Rightarrow> (nat \<times> outbound) list \<Rightarrow> log_cursor
     \<Rightarrow> string set \<Rightarrow> log_frame list \<times> log_cursor" where
  "rowsAfter text bytes machine ledger outbox cursor settled =
     (let at1 = cursor\<lparr>lc_ledger := reached (lc_ledger cursor) ledger\<rparr>;
          at2 = at1\<lparr>lc_outbox := reached (lc_outbox cursor) outbox\<rparr>
      in (map (\<lambda>(line, slot). boundFrame bytes (RowFrame (cursor\<lparr>lc_ledger := line\<rparr>) (rowFromLedgerRecord text machine slot)))
            (new_after (lc_ledger cursor) ledger)
          @ map (\<lambda>(line, o'). boundFrame bytes (RowFrame (at1\<lparr>lc_outbox := line\<rparr>) (rowFromOutbound text machine o' settled)))
            (new_after (lc_outbox cursor) outbox), at2))"

text \<open>What a consumer that keeps the returned cursor sees over successive states of the two files.\<close>

fun followRows ::
  "(stamp \<Rightarrow> string) \<Rightarrow> (log_frame \<Rightarrow> nat) \<Rightarrow> string \<Rightarrow> ((nat \<times> ledger_slot) list \<times> (nat \<times> outbound) list) list \<Rightarrow> log_cursor
     \<Rightarrow> log_frame list" where
  "followRows text bytes machine [] cursor = []"
| "followRows text bytes machine ((ledger, outbox) # rest) cursor =
     (let (frames, next) = rowsAfter text bytes machine ledger outbox cursor {} in frames @ followRows text bytes machine rest next)"

subsection \<open>Every record once, in order\<close>

text \<open>Both readers number the lines and refuse none.\<close>

definition numbered :: "('j, nat \<times> 'r) jsonl_options \<Rightarrow> bool" where
  "numbered opts = (jo_badLine opts \<noteq> BadThrow
     \<and> (\<forall>raw line. \<exists>r. jo_decode opts raw line = Inr r \<and> (\<forall>x. r = Some x \<longrightarrow> fst x = line)))"

lemma numbered_feeds [simp]: "numbered (FEED_LEDGER parse message_of)" "numbered (FEED_OUTBOX parse outbound_of)"
  by (auto simp: numbered_def FEED_LEDGER_def FEED_OUTBOX_def split: option.split)

lemma decode_numbered:
  assumes "numbered opts"
  shows "\<exists>rs. decode_lines opts n ls = Inr rs \<and> sorted_wrt (<) (map fst rs) \<and> (\<forall>x\<in>set rs. n < fst x)"
proof (induction ls arbitrary: n)
  case (Cons l ls)
  obtain rs where rs: "decode_lines opts (Suc n) ls = Inr rs" "sorted_wrt (<) (map fst rs)" "\<forall>x\<in>set rs. Suc n < fst x"
    using Cons by blast
  show ?case
  proof (cases "jo_parse opts l")
    case None
    with rs show ?thesis by fastforce
  next
    case (Some parsed)
    obtain r where r: "jo_decode opts parsed (Suc n) = Inr r" "\<forall>x. r = Some x \<longrightarrow> fst x = Suc n"
      using assms unfolding numbered_def by blast
    have bad: "jo_badLine opts \<noteq> BadThrow" using assms by (simp add: numbered_def)
    show ?thesis
    proof (cases "parsed = None \<and> jo_badLine opts = BadSkip")
      case True
      with rs Some show ?thesis by fastforce
    next
      case False
      then have "decode_lines opts n (l # ls) = Inr (case r of None \<Rightarrow> rs | Some x \<Rightarrow> x # rs)"
        using Some bad r(1) rs(1) by auto
      then show ?thesis using rs(2,3) r(2) by (cases r) fastforce+
    qed
  qed
qed simp

lemma file_numbered:
  assumes "numbered opts" "decode_all opts bs = Inr rs"
  shows "sorted_wrt (<) (map fst rs)"
proof (cases "whole_text bs")
  case (Some t)
  with assms(2) decode_numbered [OF assms(1), of 0 "split_lines t"] show ?thesis by (auto simp: decode_all_def)
qed (use assms(2) in \<open>simp add: decode_all_def\<close>)

lemma file_readable: "numbered opts \<Longrightarrow> \<exists>rs. decode_all opts bs = Inr rs"
  using decode_numbered [of opts 0] by (auto simp: decode_all_def split: option.split)

lemma file_grows:
  assumes "numbered opts" "decode_all opts p = Inr rs" "decode_all opts (p @ q) = Inr rs'"
  shows "prefix rs rs'"
proof (cases "whole_text p")
  case None
  with assms(2) show ?thesis by (simp add: decode_all_def)
next
  case (Some t)
  then obtain c where p: "p = t @ NL # c" "NL \<notin> set c" by (auto simp: whole_text_Some)
  have t: "decode_lines opts 0 (split_lines t) = Inr rs" using assms(2) Some by (simp add: decode_all_def)
  obtain u where u: "whole_text (p @ q) = Some u" "u = t \<or> (\<exists>v. u = t @ NL # v)"
  proof (cases "whole_text (c @ q)")
    case None
    then have "whole_text (p @ q) = Some t" unfolding p by (subst whole_text_Some) (auto simp: whole_text_None)
    with that show ?thesis by blast
  next
    case (Some v)
    then obtain d where "c @ q = v @ NL # d" "NL \<notin> set d" by (auto simp: whole_text_Some)
    then have "whole_text (p @ q) = Some (t @ NL # v)" unfolding p by (subst whole_text_Some) auto
    with that show ?thesis by blast
  qed
  from u(2) show ?thesis
  proof
    assume "u = t"
    with u(1) t assms(3) show ?thesis by (simp add: decode_all_def)
  next
    assume "\<exists>v. u = t @ NL # v"
    with u(1) t assms(3) show ?thesis
      by (auto simp: decode_all_def split_lines_append decode_lines_append bind_result_Inr_iff)
  qed
qed

lemma reached_ge: "sorted_wrt (<) (map fst rs) \<Longrightarrow> x \<in> set rs \<Longrightarrow> fst x \<le> reached n rs" 
  and reached_from: "reached n rs = n \<or> reached n rs \<in> fst ` set rs"
proof -
  have f: "foldl (\<lambda>_ (line, _). line) n xs = (if xs = [] then n else fst (last xs))" for xs :: "(nat \<times> 'a) list" and n
    by (induction xs arbitrary: n) (auto split: prod.split)
  have last': "fst x \<le> fst (last xs)" if "sorted_wrt (<) (map fst xs)" "x \<in> set xs" for xs :: "(nat \<times> 'a) list" and x
    using that by (induction xs rule: rev_induct) (auto simp: sorted_wrt_append less_imp_le)
  show "reached n rs = n \<or> reached n rs \<in> fst ` set rs"
    using last_in_set [of "new_after n rs"] by (auto simp: reached_def f new_after_def)
  assume s: "sorted_wrt (<) (map fst rs)" and x: "x \<in> set rs"
  have s': "sorted_wrt (<) (map fst (new_after n rs))"
    using s by (induction rs) (auto simp: new_after_def)
  show "fst x \<le> reached n rs"
  proof (cases "x \<in> set (new_after n rs)")
    case True
    then show ?thesis using last' [OF s' True] by (auto simp: reached_def f)
  next
    case False
    then have le: "fst x \<le> n" using x by (auto simp: new_after_def split: prod.splits)
    show ?thesis
    proof (cases "new_after n rs = []")
      case True
      then show ?thesis using le by (simp add: reached_def f)
    next
      case ne: False
      have "last (new_after n rs) \<in> set (new_after n rs)" using ne by simp
      then have "n < fst (last (new_after n rs))" by (auto simp: new_after_def)
      with le ne show ?thesis by (simp add: reached_def f)
    qed
  qed
qed

text \<open>Reading on from where a reader got to gives what it has not seen, and nothing else.\<close>

lemma new_after_resume:
  assumes s: "sorted_wrt (<) (map fst rs')" and p: "prefix rs rs'"
  shows "new_after n rs' = new_after n rs @ new_after (reached n rs) rs'"
    and "reached (reached n rs) rs' = reached n rs'"
proof -
  from p obtain more where m: "rs' = rs @ more" by (auto elim: prefixE)
  have old: "sorted_wrt (<) (map fst rs)" using s by (simp add: m sorted_wrt_append)
  have later: "fst x < fst y" if "x \<in> set rs" "y \<in> set more" for x y
    using s that by (auto simp: m sorted_wrt_append)
  have a: "new_after (reached n rs) rs = []"
    using reached_ge [OF old, of _ n] by (fastforce simp: new_after_def filter_empty_conv)
  have b: "new_after (reached n rs) more = new_after n more"
  proof -
    have "reached n rs < fst y \<longleftrightarrow> n < fst y" if y: "y \<in> set more" for y
    proof
      assume "reached n rs < fst y"
      moreover have "n \<le> reached n rs"
      proof (cases "new_after n rs = []")
        case True
        then show ?thesis by (simp add: reached_def)
      next
        case False
        then obtain x where "x \<in> set rs" "n < fst x" by (auto simp: new_after_def filter_empty_conv)
        with reached_ge [OF old, of x n] show ?thesis by simp
      qed
      ultimately show "n < fst y" by simp
    next
      assume "n < fst y"
      then show "reached n rs < fst y" using reached_from [of n rs] later [OF _ y] by auto
    qed
    then show ?thesis unfolding new_after_def by (intro filter_cong) auto
  qed
  have nm: "new_after k (rs @ more) = new_after k rs @ new_after k more" for k by (simp add: new_after_def)
  show "new_after n rs' = new_after n rs @ new_after (reached n rs) rs'"
    unfolding m nm a b by simp
  show "reached (reached n rs) rs' = reached n rs'"
    unfolding m reached_def nm foldl_append a [unfolded reached_def] b [unfolded reached_def] by simp
qed

definition of_kind :: "row_kind \<Rightarrow> log_frame \<Rightarrow> bool" where
  "of_kind k f = (case f of RowFrame _ row \<Rightarrow> lw_kind row = k | MachineFrame _ _ \<Rightarrow> False)"

lemma row_kinds [simp]:
  "lw_kind (rowFromLedgerRecord text machine slot) = ChatRow" "lw_kind (rowFromOutbound text machine o' settled) = SentRow"
  by (simp_all add: rowFromLedgerRecord_def rowFromOutbound_def row_of_def split: option.split)

lemma frame_of [simp]:
  "of_kind k (boundFrame bytes (RowFrame c row)) = (lw_kind row = k)"
  "frame_cursor (boundFrame bytes (RowFrame c row)) = c"
  using boundFrame_keeps [of bytes c row] by (auto simp: of_kind_def)

lemma rowsAfter_lines:
  assumes "rowsAfter text bytes machine ledger outbox cursor settled = (frames, next)"
  shows "map (lc_ledger \<circ> frame_cursor) (filter (of_kind ChatRow) frames) = map fst (new_after (lc_ledger cursor) ledger)"
    and "map (lc_outbox \<circ> frame_cursor) (filter (of_kind SentRow) frames) = map fst (new_after (lc_outbox cursor) outbox)"
    and "lc_ledger next = reached (lc_ledger cursor) ledger" "lc_outbox next = reached (lc_outbox cursor) outbox"
proof -
  let ?l = "new_after (lc_ledger cursor) ledger" and ?o = "new_after (lc_outbox cursor) outbox"
  have l: "filter (of_kind k) (map (\<lambda>(line, slot). boundFrame bytes (RowFrame (f line) (rowFromLedgerRecord text machine slot))) xs)
      = (if k = ChatRow then map (\<lambda>(line, slot). boundFrame bytes (RowFrame (f line) (rowFromLedgerRecord text machine slot))) xs else [])"
    for k f xs by (induction xs) auto
  have o': "filter (of_kind k) (map (\<lambda>(line, x). boundFrame bytes (RowFrame (f line) (rowFromOutbound text machine x settled))) xs)
      = (if k = SentRow then map (\<lambda>(line, x). boundFrame bytes (RowFrame (f line) (rowFromOutbound text machine x settled))) xs else [])"
    for k f xs by (induction xs) auto
  have "frames = map (\<lambda>(line, slot). boundFrame bytes (RowFrame (cursor\<lparr>lc_ledger := line\<rparr>) (rowFromLedgerRecord text machine slot))) ?l
      @ map (\<lambda>(line, x). boundFrame bytes (RowFrame (cursor\<lparr>lc_ledger := reached (lc_ledger cursor) ledger, lc_outbox := line\<rparr>)
          (rowFromOutbound text machine x settled))) ?o"
    using assms by (auto simp: rowsAfter_def Let_def)
  then show "map (lc_ledger \<circ> frame_cursor) (filter (of_kind ChatRow) frames) = map fst ?l"
    "map (lc_outbox \<circ> frame_cursor) (filter (of_kind SentRow) frames) = map fst ?o"
    by (auto simp: l o' case_prod_beta)
  show "lc_ledger next = reached (lc_ledger cursor) ledger" "lc_outbox next = reached (lc_outbox cursor) outbox"
    using assms by (auto simp: rowsAfter_def Let_def)
qed

text \<open>Over any growth of the two files a consumer is told of every record after its cursor once, in the order
  of its file, however the growth is cut into reads.\<close>

lemma followRows_exact:
  assumes "\<forall>(l, o')\<in>set (f # fs). sorted_wrt (<) (map fst l) \<and> sorted_wrt (<) (map fst o')"
    and "successively (\<lambda>(l, o') (l', o''). prefix l l' \<and> prefix o' o'') (f # fs)"
  shows "map (lc_ledger \<circ> frame_cursor) (filter (of_kind ChatRow) (followRows text bytes machine (f # fs) cursor))
      = map fst (new_after (lc_ledger cursor) (fst (last (f # fs))))
    \<and> map (lc_outbox \<circ> frame_cursor) (filter (of_kind SentRow) (followRows text bytes machine (f # fs) cursor))
      = map fst (new_after (lc_outbox cursor) (snd (last (f # fs))))"
  using assms
proof (induction fs arbitrary: f cursor)
  case Nil
  obtain l o' where f: "f = (l, o')" by force
  obtain frames nxt where r: "rowsAfter text bytes machine l o' cursor {} = (frames, nxt)" by force
  show ?case using rowsAfter_lines(1,2) [OF r] by (simp add: f r comp_def)
next
  case (Cons g gs)
  obtain l o' where f: "f = (l, o')" by force
  obtain frames nxt where r: "rowsAfter text bytes machine l o' cursor {} = (frames, nxt)" by force
  note R = rowsAfter_lines [OF r]
  have grow: "prefix l (fst (last (g # gs))) \<and> prefix o' (snd (last (g # gs)))"
    using Cons.prems(2) unfolding f
  proof (induction gs arbitrary: g l o')
    case Nil
    then show ?case by (auto split: prod.splits)
  next
    case (Cons h hs)
    from Cons.IH [of "fst g" "snd g" h] Cons.prems show ?case
      by (auto simp: case_prod_beta intro: prefix_order.trans)
  qed
  have "last (g # gs) \<in> set (f # g # gs)" by simp
  then have sorted': "sorted_wrt (<) (map fst (fst (last (g # gs))))" "sorted_wrt (<) (map fst (snd (last (g # gs))))"
    using Cons.prems(1) by (fastforce simp: case_prod_beta simp del: last.simps)+
  have "successively (\<lambda>(l, o') (l', o''). prefix l l' \<and> prefix o' o'') (g # gs)" using Cons.prems(2) by (auto simp: f)
  moreover have "\<forall>(l, o')\<in>set (g # gs). sorted_wrt (<) (map fst l) \<and> sorted_wrt (<) (map fst o')" using Cons.prems(1) by simp
  ultimately have I: "map (lc_ledger \<circ> frame_cursor) (filter (of_kind ChatRow) (followRows text bytes machine (g # gs) nxt))
      = map fst (new_after (lc_ledger nxt) (fst (last (g # gs))))"
    "map (lc_outbox \<circ> frame_cursor) (filter (of_kind SentRow) (followRows text bytes machine (g # gs) nxt))
      = map fst (new_after (lc_outbox nxt) (snd (last (g # gs))))"
    using Cons.IH [of g nxt] by (rule conjunct1 conjunct2 | blast)+
  have step: "followRows text bytes machine (f # g # gs) cursor = frames @ followRows text bytes machine (g # gs) nxt"
    by (simp add: f r del: followRows.simps(2) add: followRows.simps(2) [of _ _ _ l])
  show ?case
    unfolding step filter_append map_append I R(1,2) R(3,4)
    using new_after_resume(1) [OF sorted'(1) conjunct1 [OF grow], of "lc_ledger cursor"]
      new_after_resume(1) [OF sorted'(2) conjunct2 [OF grow], of "lc_outbox cursor"] by simp
qed

end
