(* ===== verification/PeerDelta.thy ===== *)
theory PeerDelta
  imports JsText
begin

text \<open>
  A peer's answer carried by change (\<open>src/fleet/peerDelta.ts\<close>): each row travels once and is then named
  by its digest.  The digest is an argument; what the code relies on is that it tells the rows of an
  exchange apart.  \<open>split\<close> and \<open>join\<close> take the part of a row that changes without an event out and back.
\<close>

record ('s, 'v) packed =
  pk_refs :: "string list"
  pk_items :: "string \<rightharpoonup> 's"
  pk_volatile :: "'v list option"

definition parseKnown :: "string option \<Rightarrow> string set" where
  "parseKnown value = set (filter (\<lambda>d. d \<noteq> []) (split_on (CHR '','') (nullish value [])))"

fun pack_loop :: "('s \<Rightarrow> string) \<Rightarrow> string set \<Rightarrow> ('s \<times> 'v) list \<Rightarrow> ('s, 'v) packed \<Rightarrow> ('s, 'v) packed" where
  "pack_loop digest known [] p = p"
| "pack_loop digest known ((fixd, vol) # rest) p =
     (let d = digest fixd in pack_loop digest known rest
        (p\<lparr>pk_refs := pk_refs p @ [d],
           pk_items := (if d \<notin> known then (pk_items p)(d \<mapsto> fixd) else pk_items p),
           pk_volatile := map_option (\<lambda>vs. vs @ [vol]) (pk_volatile p)\<rparr>))"

definition pack :: "('s \<Rightarrow> string) \<Rightarrow> ('row \<Rightarrow> 's \<times> 'v) \<Rightarrow> 'row list \<Rightarrow> string set \<Rightarrow> ('s, 'v) packed" where
  "pack digest split rows known =
     pack_loop digest known (map split rows) \<lparr>pk_refs = [], pk_items = Map.empty, pk_volatile = Some []\<rparr>"

definition stable_row :: "('s, 'v) packed \<Rightarrow> (string \<rightharpoonup> 's) \<Rightarrow> string \<Rightarrow> 's option" where
  "stable_row p held d = (case pk_items p d of Some s \<Rightarrow> Some s | None \<Rightarrow> held d)"

fun unpack_loop :: "('s, 'v) packed \<Rightarrow> (string \<rightharpoonup> 's) \<Rightarrow> ('s \<Rightarrow> 'v option \<Rightarrow> 'row) \<Rightarrow> nat \<Rightarrow> string list \<Rightarrow> 'row list option" where
  "unpack_loop p held join' index [] = Some []"
| "unpack_loop p held join' index (d # ds) = (case stable_row p held d of
      None \<Rightarrow> None
    | Some s \<Rightarrow> map_option ((#) (join' s (Option.bind (pk_volatile p) (\<lambda>vs. if index < length vs then Some (vs ! index) else None))))
        (unpack_loop p held join' (Suc index) ds))"

definition unpack :: "('s, 'v) packed \<Rightarrow> (string \<rightharpoonup> 's) \<Rightarrow> ('s \<Rightarrow> 'v option \<Rightarrow> 'row) \<Rightarrow> 'row list option" where
  "unpack p held join' = unpack_loop p held join' 0 (pk_refs p)"

text \<open>The reader's cache after an answer: exactly the rows the answer referenced.\<close>

definition save_held :: "('s, 'v) packed list \<Rightarrow> (string \<rightharpoonup> 's) \<Rightarrow> (string \<rightharpoonup> 's)" where
  "save_held packs rows = fold (\<lambda>p kept. fold (\<lambda>d kept. case stable_row p rows d of
      None \<Rightarrow> kept | Some s \<Rightarrow> kept(d \<mapsto> s)) (pk_refs p) kept) packs Map.empty"

definition known_args :: "string list \<Rightarrow> string list" where
  "known_args digests = (if digests = [] then [] else [''--known'', join '','' digests])"

subsection \<open>An exchange is exact\<close>

definition held_ok :: "('s \<Rightarrow> string) \<Rightarrow> (string \<rightharpoonup> 's) \<Rightarrow> bool" where
  "held_ok digest held = (\<forall>d s. held d = Some s \<longrightarrow> digest s = d)"

lemma pack_loop_eq:
  "pk_refs (pack_loop digest known rows p) = pk_refs p @ map (digest \<circ> fst) rows"
  "pk_volatile (pack_loop digest known rows p) = map_option (\<lambda>vs. vs @ map snd rows) (pk_volatile p)"
  by (induction digest known rows p rule: pack_loop.induct) (auto simp: Let_def map_option_case split: option.split)

lemma pack_loop_items:
  "pk_items (pack_loop digest known rows p) d = Some s \<Longrightarrow> pk_items p d = Some s \<or> (s \<in> fst ` set rows \<and> digest s = d)"
proof (induction digest known rows p rule: pack_loop.induct)
  case (2 digest known fixd vol rest p)
  from 2(1) [OF refl] 2(2) show ?case by (auto simp: Let_def split: if_splits)
qed simp

lemma pack_loop_sends:
  "d \<notin> known \<Longrightarrow> d \<in> (digest \<circ> fst) ` set rows \<or> pk_items p d \<noteq> None \<Longrightarrow> pk_items (pack_loop digest known rows p) d \<noteq> None"
proof (induction digest known rows p rule: pack_loop.induct)
  case (2 digest known fixd vol rest p)
  let ?d = "digest fixd"
  let ?p = "p\<lparr>pk_refs := pk_refs p @ [?d], pk_items := (if ?d \<notin> known then (pk_items p)(?d \<mapsto> fixd) else pk_items p),
    pk_volatile := map_option (\<lambda>vs. vs @ [vol]) (pk_volatile p)\<rparr>"
  have "d \<in> (digest \<circ> fst) ` set rest \<or> pk_items ?p d \<noteq> None" using 2(2,3) by (auto split: if_splits)
  from 2(1) [OF refl 2(2) this] show ?case by (simp add: Let_def)
qed simp

lemma stable_row_pack:
  assumes "inj_on digest (fst ` set (map split rows) \<union> ran held)" "held_ok digest held" "known \<subseteq> dom held"
    and "s \<in> fst ` set (map split rows)"
  shows "stable_row (pack digest split rows known) held (digest s) = Some s"
proof -
  let ?p = "pack digest split rows known"
  show ?thesis
  proof (cases "pk_items ?p (digest s)")
    case None
    then have "digest s \<in> known"
      using pack_loop_sends [of "digest s" known digest "map split rows"] assms(4) unfolding pack_def by (metis comp_apply image_comp image_eqI)
    then obtain t where t: "held (digest s) = Some t" using assms(3) by auto
    then have "digest t = digest s" "t \<in> ran held" using assms(2) by (auto simp: held_ok_def ran_def)
    then have "t = s" using inj_onD [OF assms(1)] assms(4) by blast
    with None t show ?thesis by (simp add: stable_row_def)
  next
    case (Some t)
    then have "t \<in> fst ` set (map split rows)" "digest t = digest s"
      using pack_loop_items [of digest known "map split rows"] unfolding pack_def by fastforce+
    then have "t = s" using inj_onD [OF assms(1)] assms(4) by blast
    with Some show ?thesis by (simp add: stable_row_def)
  qed
qed

lemma unpack_loop_rows:
  assumes "\<And>x. x \<in> set xs \<Longrightarrow> stable_row p held (digest (fst x)) = Some (fst x)"
    and "pk_volatile p = Some vs" "drop i vs = map snd xs"
  shows "unpack_loop p held join' i (map (digest \<circ> fst) xs) = Some (map (\<lambda>x. join' (fst x) (Some (snd x))) xs)"
  using assms
proof (induction xs arbitrary: i)
  case (Cons x xs)
  have "i < length vs" using Cons.prems(3) by (metis drop_all list.discI list.simps(9) not_le)
  moreover then have "vs ! i = snd x" "drop (Suc i) vs = map snd xs"
    using Cons.prems(3) by (simp_all add: Cons_nth_drop_Suc [symmetric])
  ultimately show ?case using Cons by simp
qed simp

lemma unpack_pack:
  assumes "inj_on digest (fst ` set (map split rows) \<union> ran held)" "held_ok digest held" "known \<subseteq> dom held"
    and "\<And>row. row \<in> set rows \<Longrightarrow> join' (fst (split row)) (Some (snd (split row))) = row"
  shows "unpack (pack digest split rows known) held join' = Some rows"
proof -
  let ?p = "pack digest split rows known"
  have refs: "pk_refs ?p = map (digest \<circ> fst) (map split rows)" "pk_volatile ?p = Some (map snd (map split rows))"
    by (simp_all add: pack_def pack_loop_eq)
  have "unpack_loop ?p held join' 0 (map (digest \<circ> fst) (map split rows))
      = Some (map (\<lambda>x. join' (fst x) (Some (snd x))) (map split rows))"
    by (rule unpack_loop_rows [OF stable_row_pack [OF assms(1-3)] refs(2)]) auto
  moreover have "map (\<lambda>x. join' (fst x) (Some (snd x))) (map split rows) = rows"
    using assms(4) by (simp add: map_idI)
  ultimately show ?thesis by (simp add: unpack_def refs(1))
qed

lemma save_held_ok:
  assumes "held_ok digest held" "\<And>d s. pk_items p d = Some s \<Longrightarrow> digest s = d"
  shows "held_ok digest (save_held [p] held)"
    and "ran (save_held [p] held) \<subseteq> ran (pk_items p) \<union> ran held"
proof -
  have s: "stable_row p held d = Some s \<Longrightarrow> digest s = d \<and> s \<in> ran (pk_items p) \<union> ran held" for d s
    using assms by (auto simp: stable_row_def held_ok_def ran_def split: option.splits)
  have "held_ok digest kept \<and> ran kept \<subseteq> ran (pk_items p) \<union> ran held \<Longrightarrow>
      held_ok digest (fold (\<lambda>d kept. case stable_row p held d of None \<Rightarrow> kept | Some s \<Rightarrow> kept(d \<mapsto> s)) ds kept)
      \<and> ran (fold (\<lambda>d kept. case stable_row p held d of None \<Rightarrow> kept | Some s \<Rightarrow> kept(d \<mapsto> s)) ds kept)
         \<subseteq> ran (pk_items p) \<union> ran held" for ds kept
  proof (induction ds arbitrary: kept)
    case (Cons d ds)
    show ?case
    proof (cases "stable_row p held d")
      case (Some x)
      have "held_ok digest (kept(d \<mapsto> x))" using Cons.prems s [OF Some] by (auto simp: held_ok_def)
      moreover have "ran (kept(d \<mapsto> x)) \<subseteq> ran (pk_items p) \<union> ran held"
        using Cons.prems s [OF Some] by (auto simp: ran_def split: if_splits)
      ultimately show ?thesis using Cons.IH [of "kept(d \<mapsto> x)"] Some by (simp del: fun_upd_apply)
    qed (use Cons in simp)
  qed simp
  from this [of Map.empty "pk_refs p"] show "held_ok digest (save_held [p] held)"
    "ran (save_held [p] held) \<subseteq> ran (pk_items p) \<union> ran held"
    by (simp_all add: save_held_def held_ok_def)
qed

text \<open>A reader that starts with nothing and keeps its cache reads every answer whole, whatever changed between.\<close>

fun exchanges :: "('s \<Rightarrow> string) \<Rightarrow> ('row \<Rightarrow> 's \<times> 'v) \<Rightarrow> ('s \<Rightarrow> 'v option \<Rightarrow> 'row) \<Rightarrow> (string \<rightharpoonup> 's) \<Rightarrow> 'row list list \<Rightarrow> 'row list option list" where
  "exchanges digest split join' held [] = []"
| "exchanges digest split join' held (rows # rest) =
     (let p = pack digest split rows (dom held)
      in unpack p held join' # exchanges digest split join' (save_held [p] held) rest)"

lemma exchanges_exact:
  assumes "inj_on digest (fst ` split ` set (concat answers) \<union> ran held)" "held_ok digest held"
    and "\<And>row. row \<in> set (concat answers) \<Longrightarrow> join' (fst (split row)) (Some (snd (split row))) = row"
  shows "exchanges digest split join' held answers = map Some answers"
  using assms
proof (induction answers arbitrary: held)
  case (Cons rows rest)
  let ?p = "pack digest split rows (dom held)"
  have items: "s \<in> fst ` split ` set rows \<and> digest s = d" if "pk_items ?p d = Some s" for d s
    using pack_loop_items [of digest "dom held" "map split rows"] that unfolding pack_def by fastforce
  have saved: "held_ok digest (save_held [?p] held)" "ran (save_held [?p] held) \<subseteq> ran (pk_items ?p) \<union> ran held"
    using save_held_ok [OF Cons.prems(2), of ?p] items by blast+
  have "ran (pk_items ?p) \<subseteq> fst ` split ` set rows" using items by (auto simp: ran_def)
  with saved(2) have "fst ` split ` set (concat rest) \<union> ran (save_held [?p] held)
      \<subseteq> fst ` split ` set (concat (rows # rest)) \<union> ran held" by auto
  then have "inj_on digest (fst ` split ` set (concat rest) \<union> ran (save_held [?p] held))"
    by (rule inj_on_subset [OF Cons.prems(1)])
  with Cons.IH [OF _ saved(1)] Cons.prems(3)
  have "exchanges digest split join' (save_held [?p] held) rest = map Some rest" by simp
  moreover have "unpack ?p held join' = Some rows"
  proof (rule unpack_pack)
    show "inj_on digest (fst ` set (map split rows) \<union> ran held)"
      by (rule inj_on_subset [OF Cons.prems(1)]) auto
  qed (use Cons.prems in auto)
  ultimately show ?case by (simp add: Let_def)
qed simp

end
