(* ===== verification/Caches.thy ===== *)
theory Caches
  imports Prelude
begin

text \<open>
  Two small stores the daemon stands on: the cache of values derived from unchanged files
  (\<open>src/util/mtimeCache.ts\<close>), bounded in bytes and entries, and the guard that takes back a bundle which
  never survives its start (\<open>src/util/bootGuard.ts\<close>).
\<close>

subsection \<open>Values of unchanged files\<close>

record 'v cached =
  ca_signature :: string
  ca_value :: 'v
  ca_bytes :: nat

record 'v mtime_cache =
  mc_map :: "(string \<times> 'v cached) list"
  mc_bytes :: int
  mc_maxBytes :: int
  mc_maxEntries :: nat

definition new_cache :: "int \<Rightarrow> nat \<Rightarrow> 'v mtime_cache" where
  "new_cache maxBytes maxEntries = \<lparr>mc_map = [], mc_bytes = 0, mc_maxBytes = maxBytes, mc_maxEntries = maxEntries\<rparr>"

definition cache_drop :: "string \<Rightarrow> 'v mtime_cache \<Rightarrow> 'v mtime_cache" where
  "cache_drop path c = c\<lparr>mc_bytes := mc_bytes c - (case map_of (mc_map c) path of None \<Rightarrow> 0 | Some e \<Rightarrow> int (ca_bytes e)),
     mc_map := AList.delete path (mc_map c)\<rparr>"

text \<open>The oldest entries go until the new one fits or nothing is left.\<close>

function evict :: "int \<Rightarrow> 'v mtime_cache \<Rightarrow> 'v mtime_cache" where
  "evict bytes c =
     (if mc_bytes c + bytes > mc_maxBytes c \<or> length (mc_map c) \<ge> mc_maxEntries c
      then (case mc_map c of [] \<Rightarrow> c | (oldest, _) # _ \<Rightarrow> evict bytes (cache_drop oldest c))
      else c)"
  by pat_completeness auto

termination evict
proof (relation "measure (\<lambda>(_, c). length (mc_map c))", goal_cases)
  case (2 bytes c x rest oldest e)
  then have "mc_map c = (oldest, e) # rest" by simp
  moreover have "length (AList.delete oldest rest) \<le> length rest" by (simp add: AList.delete_eq)
  ultimately show ?case by (simp add: cache_drop_def le_imp_less_Suc)
qed simp

declare evict.simps [simp del]

text \<open>
  \<open>get\<close>: the stamp of the file (\<open>None\<close> when it cannot be read or is missing), the value computed now, and
  the bytes it would hold.
\<close>

definition cache_get :: "string \<Rightarrow> string option \<Rightarrow> 'v \<Rightarrow> nat \<Rightarrow> 'v mtime_cache \<Rightarrow> 'v option \<times> 'v mtime_cache" where
  "cache_get path stamp computed bytes c = (case stamp of
      None \<Rightarrow> (None, cache_drop path c)
    | Some signature \<Rightarrow>
        (case map_of (mc_map c) path of
           Some hit \<Rightarrow> if ca_signature hit = signature then (Some (ca_value hit), c)
             else (let c1 = cache_drop path c
               in (Some computed, if int bytes \<le> mc_maxBytes c1 \<and> mc_maxEntries c1 > 0
                     then (let c2 = evict (int bytes) c1
                       in c2\<lparr>mc_map := mc_map c2 @ [(path, \<lparr>ca_signature = signature, ca_value = computed, ca_bytes = bytes\<rparr>)],
                            mc_bytes := mc_bytes c2 + int bytes\<rparr>) else c1))
         | None \<Rightarrow> (let c1 = cache_drop path c
               in (Some computed, if int bytes \<le> mc_maxBytes c1 \<and> mc_maxEntries c1 > 0
                     then (let c2 = evict (int bytes) c1
                       in c2\<lparr>mc_map := mc_map c2 @ [(path, \<lparr>ca_signature = signature, ca_value = computed, ca_bytes = bytes\<rparr>)],
                            mc_bytes := mc_bytes c2 + int bytes\<rparr>) else c1))))"

text \<open>What the cache holds is within its bounds, counted right, and what the files with those stamps give.\<close>

definition cache_inv :: "(string \<Rightarrow> string \<Rightarrow> 'v) \<Rightarrow> 'v mtime_cache \<Rightarrow> bool" where
  "cache_inv value_of c = (distinct (map fst (mc_map c))
     \<and> mc_bytes c = (\<Sum>(_, e)\<leftarrow>mc_map c. int (ca_bytes e)) \<and> mc_bytes c \<le> mc_maxBytes c
     \<and> length (mc_map c) \<le> mc_maxEntries c
     \<and> (\<forall>(path, e)\<in>set (mc_map c). ca_value e = value_of path (ca_signature e)))"

lemma sum_delete:
  "distinct (map fst xs) \<Longrightarrow> (\<Sum>(_, e)\<leftarrow>AList.delete k xs. int (ca_bytes e))
     = (\<Sum>(_, e)\<leftarrow>xs. int (ca_bytes e)) - (case map_of xs k of None \<Rightarrow> 0 | Some e \<Rightarrow> int (ca_bytes e))"
  by (induction xs) (auto simp: delete_id map_of_eq_None_iff image_iff split: option.split)

lemma length_delete: "length (AList.delete k xs) \<le> length xs"
  by (simp add: AList.delete_eq)

lemma set_delete: "set (AList.delete k xs) \<subseteq> set xs"
  by (auto simp: AList.delete_eq)

lemma key_gone: "k \<notin> fst ` set (AList.delete k xs)"
  by (auto simp: AList.delete_eq)

lemma held_nonneg: "(case map_of xs k of None \<Rightarrow> 0 | Some e \<Rightarrow> int (ca_bytes e)) \<ge> 0"
  by (simp split: option.split)

lemma cache_drop_inv:
  assumes "cache_inv value_of c"
  shows "cache_inv value_of (cache_drop path c)"
proof -
  have "length (AList.delete path (mc_map c)) \<le> mc_maxEntries c"
    using assms length_delete [of path "mc_map c"] by (simp add: cache_inv_def)
  moreover have "mc_bytes c - (case map_of (mc_map c) path of None \<Rightarrow> 0 | Some e \<Rightarrow> int (ca_bytes e)) \<le> mc_maxBytes c"
    using assms held_nonneg [of "mc_map c" path] by (simp add: cache_inv_def)
  moreover have "\<forall>(p, e)\<in>set (AList.delete path (mc_map c)). ca_value e = value_of p (ca_signature e)"
    using assms set_delete [of path "mc_map c"] by (auto simp: cache_inv_def)
  ultimately show ?thesis
    using assms by (simp add: cache_inv_def cache_drop_def sum_delete distinct_delete)
qed

lemma cache_drop_bounds [simp]:
  "mc_maxBytes (cache_drop path c) = mc_maxBytes c" "mc_maxEntries (cache_drop path c) = mc_maxEntries c"
  by (simp_all add: cache_drop_def)

lemma evict_spec:
  assumes "cache_inv value_of c" "bytes \<le> mc_maxBytes c" "mc_maxEntries c > 0"
  shows "cache_inv value_of (evict bytes c) \<and> mc_bytes (evict bytes c) + bytes \<le> mc_maxBytes c
    \<and> length (mc_map (evict bytes c)) < mc_maxEntries c
    \<and> mc_maxBytes (evict bytes c) = mc_maxBytes c \<and> mc_maxEntries (evict bytes c) = mc_maxEntries c
    \<and> set (mc_map (evict bytes c)) \<subseteq> set (mc_map c)"
  using assms
proof (induction bytes c rule: evict.induct)
  case (1 bytes c)
  show ?case
  proof (cases "mc_bytes c + bytes > mc_maxBytes c \<or> length (mc_map c) \<ge> mc_maxEntries c")
    case True
    show ?thesis
    proof (cases "mc_map c")
      case Nil
      then have "mc_bytes c = 0" using "1.prems"(1) by (simp add: cache_inv_def)
      with Nil True "1.prems" show ?thesis by simp
    next
      case (Cons e rest)
      obtain oldest x where e: "e = (oldest, x)" by force
      have "evict bytes c = evict bytes (cache_drop oldest c)"
        using True Cons e by (subst evict.simps) simp
      moreover have "set (mc_map (cache_drop oldest c)) \<subseteq> set (mc_map c)"
        by (simp add: cache_drop_def set_delete)
      ultimately show ?thesis
        using "1.IH" [OF True Cons e [symmetric]] cache_drop_inv [OF "1.prems"(1)] "1.prems"(2,3) by fastforce
    qed
  next
    case False
    then have "evict bytes c = c" by (subst evict.simps) simp
    with False "1.prems" show ?thesis by simp
  qed
qed

lemma cache_get_inv:
  assumes inv: "cache_inv value_of c" and computed: "\<And>s. stamp = Some s \<Longrightarrow> computed = value_of path s"
  shows "cache_inv value_of (snd (cache_get path stamp computed bytes c))"
    and "fst (cache_get path stamp computed bytes c) = map_option (value_of path) stamp"
proof -
  let ?c1 = "cache_drop path c"
  have c1: "cache_inv value_of ?c1" by (rule cache_drop_inv [OF inv])
  have gone: "path \<notin> fst ` set (mc_map ?c1)" by (simp add: cache_drop_def key_gone)
  have put: "cache_inv value_of (let c2 = evict (int bytes) ?c1
      in c2\<lparr>mc_map := mc_map c2 @ [(path, \<lparr>ca_signature = s, ca_value = computed, ca_bytes = bytes\<rparr>)], mc_bytes := mc_bytes c2 + int bytes\<rparr>)"
    if "int bytes \<le> mc_maxBytes ?c1" "mc_maxEntries ?c1 > 0" "stamp = Some s" for s
    using evict_spec [OF c1 that(1,2)] computed [OF that(3)] gone
    by (fastforce simp: Let_def cache_inv_def)
  have hit: "ca_value e = value_of path (ca_signature e)" if "map_of (mc_map c) path = Some e" for e
    using inv map_of_SomeD [OF that] by (auto simp: cache_inv_def)
  show "cache_inv value_of (snd (cache_get path stamp computed bytes c))"
    using inv c1 put by (auto simp: cache_get_def Let_def split: option.split)
  show "fst (cache_get path stamp computed bytes c) = map_option (value_of path) stamp"
    using computed hit by (auto simp: cache_get_def Let_def split: option.split)
qed

subsection \<open>A bundle that never survives its start\<close>

definition MAX_ATTEMPTS :: nat where "MAX_ATTEMPTS = 3"

text \<open>The counter file (0 when missing or unreadable), the digest proven to work, the digests of the bundle
  and of its backup, and the digest this process started from.\<close>

record boot =
  bo_attempts :: nat
  bo_proven :: "string option"
  bo_bundle :: "string option"
  bo_backup :: "string option"
  bo_started :: "string option"

datatype boot_answer = BootOk | BootRevert

definition bootGuardStart :: "bool \<Rightarrow> bool \<Rightarrow> boot \<Rightarrow> boot_answer \<times> boot" where
  "bootGuardStart writes copies b0 =
     (let b = b0\<lparr>bo_started := bo_bundle b0\<rparr>; attempts = bo_attempts b + 1; b1 = b\<lparr>bo_attempts := attempts\<rparr>
      in if \<not> writes then (BootOk, b)
         else if attempts < MAX_ATTEMPTS then (BootOk, b1)
         else if bo_started b \<noteq> None \<and> bo_started b = bo_proven b then (BootOk, b1\<lparr>bo_attempts := 0\<rparr>)
         else case bo_backup b of
             None \<Rightarrow> (BootOk, b1\<lparr>bo_attempts := 0\<rparr>)
           | Some old \<Rightarrow> if copies then (BootRevert, b1\<lparr>bo_bundle := Some old, bo_attempts := 0\<rparr>) else (BootOk, b1))"

definition clearBootGuard :: "boot \<Rightarrow> boot" where "clearBootGuard b = b\<lparr>bo_attempts := 0\<rparr>"

definition proveBootBundle :: "bool \<Rightarrow> boot \<Rightarrow> boot" where
  "proveBootBundle writes b0 = (let b = clearBootGuard b0
     in if bo_started b = None \<or> \<not> writes then b else b\<lparr>bo_proven := bo_started b\<rparr>)"

text \<open>A bundle that has run here once is never taken back, whatever crashes follow.\<close>

fun boot_runs :: "(bool \<times> bool) list \<Rightarrow> boot \<Rightarrow> boot_answer list \<times> boot" where
  "boot_runs [] b = ([], b)"
| "boot_runs ((writes, copies) # rest) b =
     (let (a, b') = bootGuardStart writes copies b; (as, b'') = boot_runs rest b' in (a # as, b''))"

lemma proven_start:
  assumes "bo_bundle b \<noteq> None" "bo_proven b = bo_bundle b"
  shows "fst (bootGuardStart writes copies b) = BootOk"
    and "bo_bundle (snd (bootGuardStart writes copies b)) = bo_bundle b" "bo_proven (snd (bootGuardStart writes copies b)) = bo_proven b"
  using assms by (auto simp: bootGuardStart_def Let_def split: option.split)

lemma proven_never_reverted:
  assumes "bo_bundle b \<noteq> None" "bo_proven b = bo_bundle b"
  shows "set (fst (boot_runs starts b)) \<subseteq> {BootOk} \<and> bo_bundle (snd (boot_runs starts b)) = bo_bundle b"
  using assms
proof (induction starts arbitrary: b)
  case (Cons s starts)
  obtain writes copies where s: "s = (writes, copies)" by force
  obtain a b' where r: "bootGuardStart writes copies b = (a, b')" by force
  note p = proven_start [OF Cons.prems, of writes copies]
  from Cons.IH [of b'] p Cons.prems r show ?case by (simp add: s case_prod_beta)
qed simp

text \<open>A bundle that never proved itself is replaced by its backup at the third start at the latest.\<close>

lemma unproven_reverted:
  assumes "bo_proven b \<noteq> bo_bundle b \<or> bo_bundle b = None" "bo_backup b = Some old" "bo_attempts b + 3 \<ge> MAX_ATTEMPTS"
  shows "BootRevert \<in> set (fst (boot_runs [(True, True), (True, True), (True, True)] b))"
  using assms by (auto simp: bootGuardStart_def Let_def MAX_ATTEMPTS_def)

end
