(* ===== verification/FleetProperties.thy ===== *)
theory FleetProperties
  imports Samples Transit Correspondence LogFeed PeerDelta Caches
begin

text \<open>
  What holds between machines: letters to a peer arrive once, stand on an opening that can be traced, are
  told of exactly once by the log feed, and a peer's answer carried by change is read whole.
\<close>

subsection \<open>Sample values\<close>

definition opening_basis :: authorization where
  "opening_basis = \<lparr>au_basis = Some UserInstruction, au_why = Some (replicate 40 (CHR ''w'')), au_quote = Some ''please ask s1'',
     au_ref = ''turn 7''\<rparr>"

definition opening_letter :: chat_message where
  "opening_letter = (letter ''i1'' False)\<lparr>m_origin := Some (principalOrigin (FromManaged b_peer)),
     m_authorization := Some opening_basis, m_notification := Some Conversation,
     m_receipt := Some \<lparr>ro_root = ''i1'', ro_authorization = opening_basis, ro_letter = None\<rparr>\<rparr>"

definition far_env :: receive_env where
  "far_env = \<lparr>rv_inSession = False, rv_authenticated = True, rv_message = None, rv_machine = ''m1'',
     rv_sessions = [a_session], rv_chatDefault = True, rv_supported = (\<lambda>_. True), rv_app = Inl '''',
     rv_select = (\<lambda>_. Inr None)\<rparr>"

definition answered :: remote_result where
  "answered = \<lparr>rr_code = 0, rr_stdout = '''', rr_stderr = '''', rr_transportFailed = False, rr_delivery = Received,
     rr_fallback = None, rr_detail = None, rr_permanent = None, rr_retryAfter = None\<rparr>"

lemma basis_ok: "CommunicationAuthorizationSchema (\<lambda>_. True) opening_basis"
  by code_simp

lemma opening_sel:
  "m_id opening_letter = ''i1''" "m_to opening_letter = ToManaged a_peer" "m_from opening_letter = FromManaged b_peer"
  "m_authorization opening_letter = Some opening_basis" "m_receipt opening_letter \<noteq> None" "au_basis opening_basis = Some UserInstruction"
  "m_task opening_letter = None"
  by (simp_all add: opening_letter_def opening_basis_def)

lemma far_accepts: "far_side (\<lambda>_. True) far_env opening_letter True [] = (0, [Some opening_letter])"
proof -
  have "admitOnce (\<lambda>_. Inr None) opening_letter [] = Inr (True, [Some opening_letter])"
    by (simp add: admitOnce_def opening_letter_def appendMessage_def prior_of_def ledger_ids_def)
  moreover have "target_live (far_env\<lparr>rv_message := Some opening_letter\<rparr>) (ToManaged a_peer)"
    by (simp add: target_live_def far_env_def find_session_def assertExpected_def chatEnabledFor_def a_session_def a_body_def a_peer_def)
  ultimately show ?thesis
    by (simp add: far_side_def cmdReceiveChat_def far_env_def machine_of_target_def requireCommunicationAuthorization_def
        opening_sel basis_ok a_peer_def)
qed

subsection \<open>Letters to other machines\<close>

text \<open>C3: However often a call fails, is repeated or dies before it is recorded, no letter is in the far
  machine's ledger twice; a letter whose row says that it was sent is there with its content, and so is
  every letter whose retries ended, except those that were given up.\<close>

theorem letters_arrive_once:
  assumes "transit_reach uuid m w"
  shows "distinct (ledger_ids (tr_far w))
    \<and> (\<forall>row\<in>set (tr_outbox w). ou_ok row \<longrightarrow> arrived (tr_far w) (ou_envelope row))
    \<and> (\<forall>i\<in>set (tr_acks w) - set (tr_given_up w).
         \<exists>row\<in>set (tr_outbox w). outboundId row = i \<and> arrived (tr_far w) (ou_envelope row))"
  using transit_reach_inv [OF assms] unfolding transit_inv_def by blast

theorem letters_arrive_once_witness:
  "arrived [Some opening_letter] opening_letter"
proof -
  let ?m = "\<lparr>fc_prefix = ''m2'', fc_fleet = None, fc_peers = Some [''m1'']\<rparr>"
  let ?w = "\<lparr>tr_outbox = [], tr_acks = [], tr_far = [], tr_given_up = []\<rparr> :: transit"
  have "transit_reach (\<lambda>_. True) ?m ?w" by (rule transit_reach.start) (simp add: ledger_ids_def)
  moreover have "transit_step (\<lambda>_. True) ?m ?w (?w\<lparr>tr_far := [Some opening_letter],
      tr_outbox := tr_outbox ?w @ (if True then [outbound_row opening_letter answered] else [])\<rparr>)"
    by (rule transit_step.first_try [of _ _ _ far_env True 0]) (simp_all add: far_accepts faithful_def answered_def)
  ultimately have "transit_reach (\<lambda>_. True) ?m (?w\<lparr>tr_far := [Some opening_letter],
      tr_outbox := tr_outbox ?w @ (if True then [outbound_row opening_letter answered] else [])\<rparr>)"
    by (rule transit_reach.step)
  from letters_arrive_once [OF this] show ?thesis by (simp add: outbound_row_def delivered_ok_def answered_def)
qed

text \<open>C14: Every letter that one of this machine's principals wrote to a peer carries the receipt of one stored
  opening letter of the same pair and task: a person's instruction, or an answer to a letter of that very
  peer whose quoted words stand in it.  A letter without a justification carries no receipt.\<close>

theorem authority_traces_to_opening:
  assumes "host_reach uuid ok own h" "holds h e" "chatPrincipalKey (m_from e) \<in> own"
  shows "case m_authorization e of
      None \<Rightarrow> m_receipt e = None
    | Some a \<Rightarrow> (\<exists>r e0. m_receipt e = Some r \<and> holds h e0 \<and> m_id e0 = ro_root r
        \<and> m_authorization e0 = Some (ro_authorization r)
        \<and> chatPrincipalKey (m_from e0) = chatPrincipalKey (m_from e) \<and> chatTargetKey (m_to e0) = chatTargetKey (m_to e)
        \<and> m_task e0 = m_task e \<and> opens e0 (ro_authorization r) (ro_letter r))"
  using host_reach_inv [OF assms(1)] assms(2,3) unfolding host_inv_def traced_def by blast

definition opening_opts :: envelope_opts where
  "opening_opts = \<lparr>eo_task = None, eo_defer = Some False, eo_onBehalfOf = None, eo_notBefore = None,
     eo_authorization = Some opening_basis, eo_receipt = None\<rparr>"

lemma opening_written:
  "written (\<lambda>_. True) (\<lambda>_. True) h (principalOrigin (FromManaged b_peer)) ''i1'' (Instant 0) (FromManaged b_peer)
     (ToManaged a_peer) ''hello'' opening_opts = Some opening_letter"
  by (simp add: written_def requireCommunicationAuthorization_def requireOriginatingBasis_def resolveCommunicationBasis_def
      buildEnvelope_def opening_opts_def basis_ok opening_sel opening_letter_def letter_def Let_def)

theorem authority_traces_to_opening_witness:
  "opens opening_letter opening_basis None"
proof -
  let ?h = "\<lparr>ho_ledger = [], ho_outbox = [], ho_acks = []\<rparr> :: host" and ?own = "{chatPrincipalKey (FromManaged b_peer)}"
  have "host_reach (\<lambda>_. True) (\<lambda>_. True) ?own ?h" by (rule host_reach.empty)
  moreover have "host_step (\<lambda>_. True) (\<lambda>_. True) ?own ?h (?h\<lparr>ho_ledger := ho_ledger ?h @ [Some opening_letter]\<rparr>)"
    by (rule host_step.local_letter [OF _ opening_written]) simp
  ultimately have "host_reach (\<lambda>_. True) (\<lambda>_. True) ?own (?h\<lparr>ho_ledger := ho_ledger ?h @ [Some opening_letter]\<rparr>)"
    by (rule host_reach.step)
  from authority_traces_to_opening [OF this, of opening_letter] show ?thesis
    by (simp add: holds_def opening_sel) (auto simp: opening_letter_def)
qed

subsection \<open>Reading from afar\<close>

definition rows_of :: "('j, nat \<times> 'r) jsonl_options \<Rightarrow> byte list \<Rightarrow> (nat \<times> 'r) list" where
  "rows_of opts bs = (case decode_all opts bs of Inr rs \<Rightarrow> rs | Inl _ \<Rightarrow> [])"

lemma rows_of_sorted: "numbered opts \<Longrightarrow> sorted_wrt (<) (map fst (rows_of opts bs))"
  using file_numbered [of opts bs] by (auto simp: rows_of_def split: sum.split)

lemma rows_of_grows: "numbered opts \<Longrightarrow> prefix p q \<Longrightarrow> prefix (rows_of opts p) (rows_of opts q)"
proof -
  assume n: "numbered opts" and "prefix p q"
  then obtain r where q: "q = p @ r" by (auto elim: prefixE)
  from file_readable [OF n] obtain rs rs' where "decode_all opts p = Inr rs" "decode_all opts (p @ r) = Inr rs'" by blast
  with file_grows [OF n this] show ?thesis by (simp add: rows_of_def q)
qed

lemma rows_of_successive:
  assumes "numbered a" "numbered b" "successively (\<lambda>(l, o') (l', o''). prefix l l' \<and> prefix o' o'') fs"
  shows "successively (\<lambda>(l, o') (l', o''). prefix l l' \<and> prefix o' o'') (map (\<lambda>(l, o'). (rows_of a l, rows_of b o')) fs)"
  using assms(3)
proof (induction fs rule: induct_list012)
  case (3 x y zs)
  then show ?case by (auto simp: rows_of_grows assms(1,2) split: prod.splits)
qed auto

text \<open>C37: However the growth of the ledger and of the outbox is cut into reads, also in the middle of a line,
  a consumer of the log feed that resumes from the cursor it was given is told of every record after its
  first cursor exactly once, in the order of its file.\<close>

theorem feed_misses_nothing:
  fixes machine :: string and cursor :: log_cursor and f :: "byte list \<times> byte list"
  assumes "successively (\<lambda>(l, o') (l', o''). prefix l l' \<and> prefix o' o'') (f # fs)"
  shows "let reads = map (\<lambda>(l, o'). (rows_of (FEED_LEDGER parse message_of) l, rows_of (FEED_OUTBOX parse outbound_of) o')) (f # fs);
           frames = followRows text bytes machine reads cursor
         in map (lc_ledger \<circ> frame_cursor) (filter (of_kind ChatRow) frames)
              = map fst (new_after (lc_ledger cursor) (fst (last reads)))
          \<and> map (lc_outbox \<circ> frame_cursor) (filter (of_kind SentRow) frames)
              = map fst (new_after (lc_outbox cursor) (snd (last reads)))"
proof -
  let ?a = "FEED_LEDGER parse message_of" and ?b = "FEED_OUTBOX parse outbound_of"
  let ?r = "\<lambda>(l, o'). (rows_of ?a l, rows_of ?b o')"
  have "\<forall>(l, o')\<in>set (?r f # map ?r fs). sorted_wrt (<) (map fst l) \<and> sorted_wrt (<) (map fst o')"
    by (auto simp: rows_of_sorted split: prod.split)
  moreover have "successively (\<lambda>(l, o') (l', o''). prefix l l' \<and> prefix o' o'') (?r f # map ?r fs)"
    using rows_of_successive [OF numbered_feeds assms] by simp
  ultimately show ?thesis unfolding Let_def list.map by (rule followRows_exact)
qed

theorem feed_misses_nothing_witness:
  "map (lc_ledger \<circ> frame_cursor) (filter (of_kind ChatRow) (followRows (\<lambda>_. []) (\<lambda>_. 0) ''m1''
     (map (\<lambda>(l, o'). (rows_of (FEED_LEDGER (\<lambda>_. Some None) (\<lambda>_. None)) l, rows_of (FEED_OUTBOX (\<lambda>_. Some None) (\<lambda>_. None)) o'))
        [([1, 10, 2], []), ([1, 10, 2, 3, 10], [])]) ZERO_CURSOR)) = [1, 2]"
proof -
  have "successively (\<lambda>(l, o') (l', o''). prefix l l' \<and> prefix o' o'')
      [([1, 10, 2], [] :: byte list), ([1, 10, 2, 3, 10] :: byte list, [])]" by simp
  from feed_misses_nothing [OF this, of "\<lambda>_. Some None" "\<lambda>_. None" "\<lambda>_. None" "\<lambda>_. []" "\<lambda>_. 0" "''m1''" ZERO_CURSOR]
  have "map (lc_ledger \<circ> frame_cursor) (filter (of_kind ChatRow) (followRows (\<lambda>_. []) (\<lambda>_. 0) ''m1''
     (map (\<lambda>(l, o'). (rows_of (FEED_LEDGER (\<lambda>_. Some None) (\<lambda>_. None)) l, rows_of (FEED_OUTBOX (\<lambda>_. Some None) (\<lambda>_. None)) o'))
        [([1, 10, 2], []), ([1, 10, 2, 3, 10], [])]) ZERO_CURSOR))
    = map fst (new_after 0 (rows_of (FEED_LEDGER (\<lambda>_. Some None) (\<lambda>_. None)) [1, 10, 2, 3, 10]))"
    by (simp add: Let_def ZERO_CURSOR_def)
  moreover have "map fst (new_after 0 (rows_of (FEED_LEDGER (\<lambda>_. Some None) (\<lambda>_. None)) [1, 10, 2, 3, 10])) = [1, 2]"
    by code_simp
  ultimately show ?thesis by simp
qed

text \<open>A reader that keeps what a peer's answers referenced reads every answer whole, whatever changed
  between two of them, when the digest tells the rows it meets apart.\<close>

lemma peer_answers_are_exact:
  assumes "inj_on digest (fst ` split ` set (concat answers))"
    and "\<And>row. row \<in> set (concat answers) \<Longrightarrow> join' (fst (split row)) (Some (snd (split row))) = row"
  shows "exchanges digest split join' Map.empty answers = map Some answers"
  by (rule exchanges_exact) (use assms in \<open>simp_all add: held_ok_def\<close>)


end
