(* ===== verification/EventFeed.thy ===== *)
theory EventFeed
  imports StatusFiles
begin

text \<open>
  The session event feed (\<open>src/events/feed.ts\<close>, \<open>schema.ts\<close>) on files that rotate by size
  (\<open>rotateBySize\<close> of \<open>src/util/jsonl.ts\<close>).  A feed is a map from generations to the records of the file:
  generation 0 is the current file, \<open>n\<close> the file \<open>.n\<close>.  A line that does not parse costs only itself, so a
  file is the list of its readable records; \<open>bytes\<close> is the size of a record's line.
\<close>

datatype event_kind = TurnStart | TurnEnd | WaitingEvent | Resumed | SessionStart | SessionStop | SessionBlocked | InventoryEvent

record inventory_step =
  is_kind :: string
  is_role :: string
  is_tool :: "string option"
  is_at :: "string option"

record inventory_row =
  ir_name :: string
  ir_agent :: agent_kind
  ir_uuid :: string
  ir_address :: string
  ir_archived :: bool
  ir_running :: bool
  ir_state :: string
  ir_model :: "string option"
  ir_context :: "int option"
  ir_startedAt :: "stamp option"
  ir_turnStartedAt :: "stamp option"
  ir_step :: "inventory_step option"

text \<open>Where an inventory stands: its generation and its sequence.\<close>

type_synonym inventory_revision = "string \<times> nat"

text \<open>\<open>em_row\<close> and \<open>ev_row\<close>: absent, the row that left (\<open>null\<close>), or the row after the change.\<close>

record emit_input =
  em_event :: event_kind
  em_duration :: "int option"
  em_interrupted :: "bool option"
  em_detail :: "string option"
  em_inventory :: "inventory_revision option"
  em_row :: "inventory_row option option"

definition emit :: "event_kind \<Rightarrow> emit_input" where
  "emit k = \<lparr>em_event = k, em_duration = None, em_interrupted = None, em_detail = None, em_inventory = None, em_row = None\<rparr>"

record session_event =
  ev_id :: string
  ev_ts :: stamp
  ev_machine :: string
  ev_session :: string
  ev_agent :: agent_kind
  ev_thread :: string
  ev_input :: emit_input

text \<open>The parts of the schema a built event can fail: \<open>uuid\<close> is \<open>z.uuid()\<close>.\<close>

definition event_ok :: "(string \<Rightarrow> bool) \<Rightarrow> session_event \<Rightarrow> bool" where
  "event_ok uuid e = (uuid (ev_id e) \<and> date_parse (ev_ts e) \<noteq> None \<and> RC_PREFIX_RE (ev_machine e)
     \<and> SESSION_NAME_RE (ev_session e) \<and> uuid (ev_thread e)
     \<and> (case em_duration (ev_input e) of None \<Rightarrow> True | Some d \<Rightarrow> d \<ge> 0)
     \<and> (case em_row (ev_input e) of Some (Some r) \<Rightarrow> ir_name r \<noteq> [] \<and> uuid (ir_uuid r) \<and> ir_address r \<noteq> [] \<and> ir_state r \<noteq> []
          \<and> (case ir_context r of None \<Rightarrow> True | Some c \<Rightarrow> 0 \<le> c \<and> c \<le> 100) | _ \<Rightarrow> True))"

definition buildEvent ::
  "(string \<Rightarrow> bool) \<Rightarrow> string \<Rightarrow> string \<times> agent_kind \<times> string \<Rightarrow> emit_input \<Rightarrow> string \<Rightarrow> stamp \<Rightarrow> session_event option" where
  "buildEvent uuid machine who input i now = (case who of (name, agent, thread) \<Rightarrow>
     (let e = \<lparr>ev_id = i, ev_ts = now, ev_machine = machine, ev_session = name, ev_agent = agent,
          ev_thread = thread, ev_input = input\<rparr>
      in if event_ok uuid e then Some e else None))"

subsection \<open>Rotation\<close>

definition MAX_BYTES :: nat where "MAX_BYTES = 5 * 1024 * 1024"
definition KEEP :: nat where "KEEP = 2"

type_synonym 'e feed_files = "nat \<rightharpoonup> 'e list"

definition file_size :: "('e \<Rightarrow> nat) \<Rightarrow> 'e list \<Rightarrow> nat" where
  "file_size bytes es = sum_list (map bytes es)"

fun shift_generations :: "nat \<Rightarrow> 'e feed_files \<Rightarrow> 'e feed_files" where
  "shift_generations 0 fs = fs"
| "shift_generations (Suc g) fs =
     shift_generations g (case fs (Suc g) of None \<Rightarrow> fs | Some es \<Rightarrow> fs(Suc (Suc g) \<mapsto> es, Suc g := None))"

definition rotateBySize :: "('e \<Rightarrow> nat) \<Rightarrow> nat \<Rightarrow> nat \<Rightarrow> 'e feed_files \<Rightarrow> 'e feed_files" where
  "rotateBySize bytes maxBytes keep fs = (case fs 0 of
      None \<Rightarrow> fs
    | Some es \<Rightarrow> if file_size bytes es < maxBytes then fs
        else (shift_generations (keep - 1) (fs(keep := None)))(1 \<mapsto> es, 0 := None))"

definition appendRecord :: "('e \<Rightarrow> nat) \<Rightarrow> 'e \<Rightarrow> 'e feed_files \<Rightarrow> 'e feed_files" where
  "appendRecord bytes e fs = (let fs1 = rotateBySize bytes MAX_BYTES KEEP fs in fs1(0 \<mapsto> nullish (fs1 0) [] @ [e]))"

definition appendEvent ::
  "(string \<Rightarrow> bool) \<Rightarrow> (session_event \<Rightarrow> nat) \<Rightarrow> string \<Rightarrow> string \<times> agent_kind \<times> string \<Rightarrow> emit_input \<Rightarrow> string \<Rightarrow> stamp
     \<Rightarrow> session_event feed_files \<Rightarrow> session_event feed_files" where
  "appendEvent uuid bytes machine who input i now fs = (case buildEvent uuid machine who input i now of
      None \<Rightarrow> fs | Some e \<Rightarrow> appendRecord bytes e fs)"

subsection \<open>Reading\<close>

definition feedFiles :: "'e feed_files \<Rightarrow> 'e list list" where
  "feedFiles fs = map (\<lambda>g. the (fs g)) (filter (\<lambda>g. fs g \<noteq> None) (rev [0..<Suc KEEP]))"

text \<open>\<open>slice(-limit)\<close>: \<open>-0\<close> is 0, so a limit of 0 keeps everything.\<close>

definition last_slice :: "int \<Rightarrow> 'a list \<Rightarrow> 'a list" where
  "last_slice limit xs = (if limit > 0 then drop (length xs - nat limit) xs else drop (nat (- limit)) xs)"

definition wanted :: "int option \<Rightarrow> string option \<Rightarrow> session_event \<Rightarrow> bool" where
  "wanted since session e = ((case session of None \<Rightarrow> True | Some s \<Rightarrow> ev_session e = s)
     \<and> (case (since, date_parse (ev_ts e)) of (Some t, Some at) \<Rightarrow> t \<le> at | _ \<Rightarrow> True))"

definition readEvents ::
  "stamp option \<Rightarrow> string option \<Rightarrow> int option \<Rightarrow> session_event feed_files \<Rightarrow> session_event list" where
  "readEvents since session limit fs =
     (let out = filter (wanted (Option.bind since date_parse) session) (concat (feedFiles fs))
      in case limit of None \<Rightarrow> out | Some n \<Rightarrow> last_slice n out)"

subsection \<open>What a reader finds\<close>

lemma feed_generations: "concat (feedFiles fs) = nullish (fs 2) [] @ nullish (fs 1) [] @ nullish (fs 0) []"
  by (auto simp: feedFiles_def KEEP_def numeral_2_eq_2 numeral_3_eq_3 upt_rec nullish_def split: option.split)

lemma rotate_two:
  "rotateBySize bytes m 2 fs = (case fs 0 of None \<Rightarrow> fs
     | Some es \<Rightarrow> if file_size bytes es < m then fs
        else (fs(2 := fs 1))(1 \<mapsto> es, 0 := None))"
  by (auto simp: rotateBySize_def numeral_2_eq_2 fun_eq_iff split: option.split)

text \<open>An append drops at most the oldest generation and puts the record at the end.\<close>

lemma append_feed:
  "concat (feedFiles (appendRecord bytes e fs)) = concat (feedFiles fs) @ [e]
     \<or> (\<exists>es. fs 0 = Some es \<and> MAX_BYTES \<le> file_size bytes es
          \<and> concat (feedFiles (appendRecord bytes e fs)) = nullish (fs 1) [] @ es @ [e])"
  by (auto simp: feed_generations appendRecord_def Let_def KEEP_def rotate_two split: option.split)

lemma append_size:
  assumes "\<And>g es. fs g = Some es \<Longrightarrow> file_size bytes es < MAX_BYTES + b" "bytes e \<le> b" "0 < b"
    and "appendRecord bytes e fs g = Some es"
  shows "file_size bytes es < MAX_BYTES + b"
proof (cases "g = 0")
  case False
  with assms(1,4) show ?thesis
    by (auto simp: appendRecord_def Let_def KEEP_def rotate_two split: option.splits if_splits)
next
  case True
  have "file_size bytes [e] < MAX_BYTES + b" using assms(2) by (simp add: file_size_def MAX_BYTES_def)
  with True assms(2,4) show ?thesis
    by (auto simp: appendRecord_def Let_def KEEP_def rotate_two file_size_def MAX_BYTES_def split: option.splits if_splits)
qed

text \<open>After any appends the feed holds the newest records in order, never fewer than the current file took,
  and no file outgrows the limit by more than one record.\<close>

definition feed_run :: "('e \<Rightarrow> nat) \<Rightarrow> 'e list \<Rightarrow> 'e feed_files" where
  "feed_run bytes es = fold (appendRecord bytes) es Map.empty"

lemma feed_run_suffix:
  "suffix (concat (feedFiles (feed_run bytes es))) es"
  "file_size bytes es < MAX_BYTES \<Longrightarrow> concat (feedFiles (feed_run bytes es)) = es"
proof -
  show s: "suffix (concat (feedFiles (feed_run bytes es))) es" for es
  proof (induction es rule: rev_induct)
    case (snoc e es)
    let ?fs = "feed_run bytes es"
    have r: "feed_run bytes (es @ [e]) = appendRecord bytes e ?fs" by (simp add: feed_run_def)
    from append_feed [of bytes e ?fs] show ?case
    proof
      assume "\<exists>xs. ?fs 0 = Some xs \<and> MAX_BYTES \<le> file_size bytes xs
        \<and> concat (feedFiles (appendRecord bytes e ?fs)) = nullish (?fs 1) [] @ xs @ [e]"
      then have "suffix (concat (feedFiles (appendRecord bytes e ?fs))) (concat (feedFiles ?fs) @ [e])"
        by (auto simp: feed_generations suffix_def)
      then have "suffix (concat (feedFiles (appendRecord bytes e ?fs))) (es @ [e])"
        by (rule suffix_order.trans) (use snoc in \<open>simp add: suffix_def\<close>)
      then show ?thesis by (simp add: r)
    qed (use snoc in \<open>auto simp: r suffix_def\<close>)
  qed (simp add: feed_run_def feed_generations)
  show "file_size bytes es < MAX_BYTES \<Longrightarrow> concat (feedFiles (feed_run bytes es)) = es"
  proof (induction es rule: rev_induct)
    case (snoc e es)
    let ?fs = "feed_run bytes es"
    have all: "concat (feedFiles ?fs) = es" using snoc by (simp add: file_size_def)
    have "file_size bytes xs < MAX_BYTES" if "?fs 0 = Some xs" for xs
    proof -
      have "file_size bytes xs \<le> file_size bytes (concat (feedFiles ?fs))"
        by (simp add: feed_generations that file_size_def)
      also have "\<dots> < MAX_BYTES" using snoc.prems by (simp add: all file_size_def)
      finally show ?thesis .
    qed
    then have "concat (feedFiles (appendRecord bytes e ?fs)) = concat (feedFiles ?fs) @ [e]"
      using append_feed [of bytes e ?fs] by (metis not_less)
    then show ?case by (simp add: feed_run_def all [unfolded feed_run_def])
  qed (simp add: feed_run_def feed_generations)
qed

lemma feed_run_bounded:
  assumes "\<forall>e\<in>set es. bytes e \<le> b" "0 < b" "feed_run bytes es g = Some xs"
  shows "file_size bytes xs < MAX_BYTES + b"
  using assms
proof (induction es arbitrary: g xs rule: rev_induct)
  case (snoc e es)
  have a: "appendRecord bytes e (feed_run bytes es) g = Some xs" using snoc.prems(3) by (simp add: feed_run_def)
  have i: "file_size bytes ys < MAX_BYTES + b" if "feed_run bytes es h = Some ys" for h ys
    using snoc.IH [OF _ snoc.prems(2) that] snoc.prems(1) by simp
  have "bytes e \<le> b" using snoc.prems(1) by simp
  from append_size [OF i this snoc.prems(2) a] show ?case .
qed (simp add: feed_run_def)

lemma last_slice_suffix: "suffix (last_slice n xs) xs"
  by (simp add: last_slice_def suffix_drop)

end
