(* ===== verification/Observe.thy ===== *)
theory Observe
  imports EventFeed TurnState Mailbox
begin

text \<open>
  What the supervisor sees of a session from outside and announces (\<open>src/events/observe.ts\<close>): turns no hook
  ended, menus, blocks and stops.  Facts that come from the terminal, the transcript and the status files are
  arguments of one pass; the daemon's memory and the lifecycle files are its state.
\<close>

record observed =
  ob_running :: bool
  ob_waitingAt :: "string option"
  ob_blocked :: "string option"
  ob_turnStartedMs :: "int option"
  ob_turnOverMs :: "int option"
  ob_turnInterrupted :: bool
  ob_paneWorkingMs :: "int option"
  ob_turnClosedFor :: "int option"

definition UNSEEN :: observed where
  "UNSEEN = \<lparr>ob_running = False, ob_waitingAt = None, ob_blocked = None, ob_turnStartedMs = None, ob_turnOverMs = None,
     ob_turnInterrupted = False, ob_paneWorkingMs = None, ob_turnClosedFor = None\<rparr>"

lemma UNSEEN_sel [simp]:
  "\<not> ob_running UNSEEN" "ob_waitingAt UNSEEN = None" "ob_blocked UNSEEN = None" "ob_turnStartedMs UNSEEN = None"
  "ob_turnOverMs UNSEEN = None" "ob_paneWorkingMs UNSEEN = None" "ob_turnClosedFor UNSEEN = None"
  by (simp_all add: UNSEEN_def)

definition ends_turn :: "observed \<Rightarrow> observed \<Rightarrow> bool" where
  "ends_turn prev nxt = (ob_turnOverMs nxt \<noteq> None \<and> ob_turnStartedMs nxt \<noteq> None \<and> ob_running prev
     \<and> ob_turnClosedFor prev \<noteq> ob_turnStartedMs nxt)"

definition transitions :: "observed \<Rightarrow> observed \<Rightarrow> emit_input list" where
  "transitions prev nxt =
     (if ob_running prev \<and> \<not> ob_running nxt then [emit SessionStop]
      else if \<not> ob_running nxt then []
      else (if ob_blocked nxt \<noteq> None \<and> ob_blocked prev \<noteq> ob_blocked nxt
            then [(emit SessionBlocked)\<lparr>em_detail := ob_blocked nxt\<rparr>] else [])
        @ (if ob_waitingAt nxt \<noteq> None \<and> ob_waitingAt prev \<noteq> ob_waitingAt nxt
            then [(emit WaitingEvent)\<lparr>em_detail := ob_waitingAt nxt\<rparr>] else [])
        @ (if ob_waitingAt prev \<noteq> None \<and> ob_waitingAt nxt = None then [emit Resumed] else [])
        @ (if ends_turn prev nxt
            then [(emit TurnEnd)\<lparr>em_duration := Some (max 0 (the (ob_turnOverMs nxt) - the (ob_turnStartedMs nxt))),
                em_interrupted := (if ob_turnInterrupted nxt then Some True else None)\<rparr>] else []))"

definition lastSignOfLife :: "int option \<Rightarrow> int option \<Rightarrow> int option \<Rightarrow> int option" where
  "lastSignOfLife transcript pane started = (case started of
      None \<Rightarrow> (case (transcript, pane) of
          (None, p) \<Rightarrow> p | (t, None) \<Rightarrow> t | (Some t, Some p) \<Rightarrow> Some (max t p))
    | Some s \<Rightarrow> Some (max s (max
        (case transcript of Some t \<Rightarrow> if t \<ge> s then t else s | None \<Rightarrow> s)
        (case pane of Some p \<Rightarrow> if p \<ge> s then p else s | None \<Rightarrow> s))))"

definition shouldCloseTurn :: "observed \<Rightarrow> observed \<Rightarrow> bool" where
  "shouldCloseTurn prev nxt =
     (ob_running prev \<and> ob_turnOverMs nxt \<noteq> None \<and> ob_turnClosedFor prev \<noteq> ob_turnStartedMs nxt)"

subsection \<open>One observation\<close>

datatype read_status = ReadLive | ReadStale | ReadUnavailable

record runtime_read =
  rd_status :: read_status
  rd_reason :: "string option"
  rd_snapshot :: "rt_snapshot option"

definition native_prompt :: "runtime_read \<Rightarrow> string option" where
  "native_prompt r = (case map_option sn_state (rd_snapshot r) of
      Some NsWaitingApproval \<Rightarrow> Some ''waiting-approval''
    | Some NsWaitingInput \<Rightarrow> Some ''waiting-input''
    | _ \<Rightarrow> None)"

definition native_turn_started :: "(native_turn \<Rightarrow> stamp) \<Rightarrow> runtime_read \<Rightarrow> stamp option" where
  "native_turn_started startedAt r = (case rd_snapshot r of
      Some sn \<Rightarrow> if sn_state sn = NsWorking then map_option startedAt (sn_turn sn) else None | None \<Rightarrow> None)"

record pane_scan =
  ps_state :: pane_state
  ps_ready :: bool
  ps_atPrompt :: "string option"

text \<open>\<open>of_native\<close> is present for a session with a native runtime, \<open>of_pane\<close> when the pane could be captured.\<close>

record observe_facts =
  of_running :: bool
  of_native :: "runtime_read option"
  of_nativeStarted :: "native_turn \<Rightarrow> stamp"
  of_pane :: "pane_scan option"
  of_inspects :: bool
  of_message :: "transcript_message option"
  of_activity :: "int option"
  of_block :: "string option"
  of_lifecycle :: "lifecycle option"
  of_now :: int

definition claimed_turn :: "lifecycle option \<Rightarrow> int option" where
  "claimed_turn l = (case l of Some r \<Rightarrow> if lc_state r = LiveWorking then Some (lc_ts r) else None | None \<Rightarrow> None)"

definition pane_turn :: "observe_facts \<Rightarrow> pane_scan \<Rightarrow> int option \<Rightarrow> int option \<Rightarrow> turn_state" where
  "pane_turn f scan claimed paneMs =
     turnState \<lparr>paneWorking = (ps_state scan = PaneWorking),
       paneReady = (if of_inspects f then ps_ready scan else True),
       atMenu = (ps_atPrompt scan \<noteq> None), paneBlock = None,
       endedOnAssistantText = assistantEndedCurrentTurn (of_message f) (of_activity f) claimed,
       msSinceActivity = map_option (\<lambda>t. of_now f - t) (lastSignOfLife (of_activity f) paneMs claimed)\<rparr>"

definition observe :: "observe_facts \<Rightarrow> int option \<Rightarrow> observed" where
  "observe f lastPane =
     (if \<not> of_running f then UNSEEN
      else case of_native f of
        Some r \<Rightarrow> UNSEEN\<lparr>ob_running := True, ob_waitingAt := native_prompt r,
          ob_blocked := (if rd_status r = ReadLive then None
            else Some (''native status unavailable: '' @ nullish (rd_reason r) ''null'')),
          ob_turnStartedMs := Option.bind (native_turn_started (of_nativeStarted f) r) date_parse\<rparr>
      | None \<Rightarrow>
          (let working = (map_option ps_state (of_pane f) = Some PaneWorking);
               paneMs = (if working then Some (of_now f) else lastPane);
               claimed = claimed_turn (of_lifecycle f);
               state = map_option (\<lambda>scan. pane_turn f scan claimed paneMs) (of_pane f);
               over = (claimed \<noteq> None \<and> map_option settled state = Some True)
           in \<lparr>ob_running = True, ob_waitingAt = Option.bind (of_pane f) ps_atPrompt, ob_blocked = of_block f,
               ob_turnStartedMs = claimed,
               ob_turnOverMs = (if over then Some (min (of_now f) (max (the claimed) (nullish (of_activity f) (of_now f)))) else None),
               ob_turnInterrupted = (over \<and> map_option why state = Some IdleAfterInterrupt),
               ob_paneWorkingMs = paneMs, ob_turnClosedFor = None\<rparr>))"

subsection \<open>One session in a pass\<close>

definition SUPERVISOR_CLOSED_EVENT :: string where "SUPERVISOR_CLOSED_EVENT = ''ccmux:turn-closed''"

definition closedTurnRecord :: "lifecycle \<Rightarrow> int \<Rightarrow> lifecycle" where
  "closedTurnRecord l ended = l\<lparr>lc_state := LiveIdle, lc_ts := ended, lc_event := SUPERVISOR_CLOSED_EVENT\<rparr>"

text \<open>The file is read again before it is written.\<close>

definition closeTurn :: "int \<Rightarrow> lifecycle option \<Rightarrow> lifecycle option" where
  "closeTurn ended l = (case l of None \<Rightarrow> None
     | Some r \<Rightarrow> if lc_state r = LiveWorking then Some (closedTurnRecord r ended) else Some r)"

definition eventsEnabledFor :: "session \<Rightarrow> bool \<Rightarrow> bool" where
  "eventsEnabledFor s machineDefault = nullish (sb_eventsEnabled (s_body s)) machineDefault"

record observe_step =
  os_close :: "int option"
  os_events :: "emit_input list"
  os_memory :: observed

definition observe_session :: "bool \<Rightarrow> observe_facts \<Rightarrow> int option \<Rightarrow> observed \<Rightarrow> observe_step" where
  "observe_session enabled f onDisk prev =
     (let nxt = observe f (or_else (ob_paneWorkingMs prev) onDisk); closing = shouldCloseTurn prev nxt
      in \<lparr>os_close = (if closing then ob_turnOverMs nxt else None),
          os_events = (if enabled then transitions prev nxt else []),
          os_memory = nxt\<lparr>ob_turnClosedFor := (if closing then ob_turnStartedMs nxt else ob_turnClosedFor prev)\<rparr>\<rparr>)"

text \<open>The whole pass: archived sessions are looked at and nothing else; the memory of sessions that left the
  registry is dropped.  \<open>facts\<close> gives what the pass finds for a session, \<open>onDisk\<close> the published pane times.\<close>

record observe_pass =
  op_closed :: "(string \<times> int) list"
  op_emitted :: "(session \<times> emit_input) list"
  op_previous :: "string \<rightharpoonup> observed"
  op_paneActivity :: "string \<rightharpoonup> int"

definition observe_one ::
  "bool \<Rightarrow> (session \<Rightarrow> observe_facts) \<Rightarrow> (string \<rightharpoonup> int) \<Rightarrow> session \<Rightarrow> observe_pass \<Rightarrow> observe_pass" where
  "observe_one default' facts onDisk s p =
     (let prev = nullish (op_previous p (s_name s)) UNSEEN;
          o' = observe_session (eventsEnabledFor s default') (facts s) (onDisk (s_name s)) prev
      in if s_archived s then p
         else \<lparr>op_closed = op_closed p @ (case os_close o' of Some t \<Rightarrow> [(s_name s, t)] | None \<Rightarrow> []),
               op_emitted = op_emitted p @ map (Pair s) (os_events o'),
               op_previous = (op_previous p)(s_name s \<mapsto> os_memory o'),
               op_paneActivity = (case ob_paneWorkingMs (os_memory o') of None \<Rightarrow> op_paneActivity p
                 | Some t \<Rightarrow> (op_paneActivity p)(s_name s \<mapsto> t))\<rparr>)"

definition observeOnce ::
  "bool \<Rightarrow> (session \<Rightarrow> observe_facts) \<Rightarrow> (string \<rightharpoonup> int) \<Rightarrow> session list \<Rightarrow> (string \<rightharpoonup> observed) \<Rightarrow> observe_pass" where
  "observeOnce default' facts onDisk sessions previous =
     (let p = fold (observe_one default' facts onDisk) sessions
            \<lparr>op_closed = [], op_emitted = [], op_previous = previous, op_paneActivity = Map.empty\<rparr>
      in p\<lparr>op_previous := op_previous p |` (s_name ` set sessions)\<rparr>)"

end
