(* ===== verification/ObserveInv.thy ===== *)
theory ObserveInv
  imports Observe
begin

text \<open>
  What a reader of the feed may conclude: a turn is announced as ended once and on proof, and the menu a
  session waits at is exactly what the events say.
\<close>

fun session_passes :: "bool \<Rightarrow> (observe_facts \<times> int option) list \<Rightarrow> observed \<Rightarrow> observe_step list" where
  "session_passes enabled [] prev = []"
| "session_passes enabled ((f, onDisk) # rest) prev =
     (let o' = observe_session enabled f onDisk prev in o' # session_passes enabled rest (os_memory o'))"

subsection \<open>Menus\<close>

fun track_menu :: "emit_input \<Rightarrow> string option \<Rightarrow> string option" where
  "track_menu e at = (case em_event e of WaitingEvent \<Rightarrow> em_detail e | Resumed \<Rightarrow> None | SessionStop \<Rightarrow> None | _ \<Rightarrow> at)"

definition quiet_when_stopped :: "observed \<Rightarrow> bool" where
  "quiet_when_stopped o' = (ob_running o' \<or> ob_waitingAt o' = None)"

lemma emit_sel [simp]: "em_event (emit k) = k" "em_detail (emit k) = None"
  by (simp_all add: emit_def)

lemma track_transitions:
  assumes "quiet_when_stopped prev" "quiet_when_stopped nxt"
  shows "fold track_menu (transitions prev nxt) (ob_waitingAt prev) = ob_waitingAt nxt"
  using assms by (auto simp: transitions_def quiet_when_stopped_def)

declare track_menu.simps [simp del]

lemma observe_quiet: "quiet_when_stopped (observe f d)"
  by (auto simp: quiet_when_stopped_def observe_def Let_def split: option.split)

lemma observe_stopped: "\<not> of_running f \<Longrightarrow> observe f d = UNSEEN"
  by (simp add: observe_def)

lemma session_memory:
  "os_memory (observe_session en f d prev)
     = (observe f (or_else (ob_paneWorkingMs prev) d))\<lparr>ob_turnClosedFor := ob_turnClosedFor (os_memory (observe_session en f d prev))\<rparr>"
  by (simp add: observe_session_def Let_def)

lemma menu_tracked:
  assumes "quiet_when_stopped prev"
  shows "fold track_menu (concat (map os_events (session_passes True fs prev))) (ob_waitingAt prev)
    = ob_waitingAt (last (prev # map os_memory (session_passes True fs prev)))"
  using assms
proof (induction fs arbitrary: prev)
  case (Cons x fs)
  obtain f d where x: "x = (f, d)" by force
  let ?o = "observe_session True f d prev"
  let ?n = "observe f (or_else (ob_paneWorkingMs prev) d)"
  have e: "os_events ?o = transitions prev ?n" and w: "ob_waitingAt (os_memory ?o) = ob_waitingAt ?n"
    by (simp_all add: observe_session_def Let_def)
  have q: "quiet_when_stopped (os_memory ?o)"
    using observe_quiet [of f "or_else (ob_paneWorkingMs prev) d"]
    by (simp add: quiet_when_stopped_def observe_session_def Let_def)
  show ?case
    using Cons.IH [OF q] track_transitions [OF Cons.prems observe_quiet, of f "or_else (ob_paneWorkingMs prev) d"]
    by (simp add: x Let_def e w)
qed simp

subsection \<open>Ends of turns\<close>

definition announces_end :: "int \<Rightarrow> observe_step \<Rightarrow> bool" where
  "announces_end t o' = (ob_turnStartedMs (os_memory o') = Some t \<and> TurnEnd \<in> em_event ` set (os_events o'))"

definition start_of :: "observe_facts \<Rightarrow> int option" where
  "start_of f = ob_turnStartedMs (observe f None)"

lemma start_of_any: "ob_turnStartedMs (observe f d) = start_of f"
  by (simp add: start_of_def observe_def Let_def split: option.split)

lemma transitions_end: "TurnEnd \<in> em_event ` set (transitions prev nxt) \<Longrightarrow> ends_turn prev nxt"
  by (auto simp: transitions_def split: if_splits)

lemma announced_closes:
  assumes "announces_end t (observe_session en f d prev)"
  shows "ob_turnClosedFor prev \<noteq> Some t" "ob_turnClosedFor (os_memory (observe_session en f d prev)) = Some t"
    "start_of f = Some t" "os_close (observe_session en f d prev) \<noteq> None"
proof -
  let ?n = "observe f (or_else (ob_paneWorkingMs prev) d)"
  have s: "start_of f = Some t" and e: "ends_turn prev ?n"
    using assms transitions_end by (auto simp: announces_end_def observe_session_def Let_def start_of_any split: if_splits)
  then show "start_of f = Some t" "ob_turnClosedFor prev \<noteq> Some t"
    by (simp_all add: ends_turn_def start_of_any)
  from e s show "ob_turnClosedFor (os_memory (observe_session en f d prev)) = Some t"
    "os_close (observe_session en f d prev) \<noteq> None"
    by (auto simp: observe_session_def Let_def shouldCloseTurn_def ends_turn_def start_of_any)
qed

lemma over_has_start: "ob_turnOverMs (observe f d) \<noteq> None \<Longrightarrow> start_of f \<noteq> None"
  by (auto simp: observe_def Let_def start_of_def split: option.splits if_splits)

lemma closed_for_step:
  "ob_turnClosedFor (os_memory (observe_session en f d prev)) \<in> {ob_turnClosedFor prev, start_of f}"
  "start_of f = None \<Longrightarrow> ob_turnClosedFor (os_memory (observe_session en f d prev)) = ob_turnClosedFor prev"
  using over_has_start [of f "or_else (ob_paneWorkingMs prev) d"]
  by (auto simp: observe_session_def Let_def start_of_any shouldCloseTurn_def)

definition starts :: "(observe_facts \<times> int option) list \<Rightarrow> int list" where
  "starts fs = List.map_filter (\<lambda>(f, d). start_of f) fs"

lemma starts_Cons: "starts ((f, d) # fs) = (case start_of f of None \<Rightarrow> starts fs | Some t \<Rightarrow> t # starts fs)"
  by (simp add: starts_def map_filter_simps split: option.split)

text \<open>Once a turn is closed, or a later one, it is never announced again.\<close>

lemma never_again:
  assumes "ob_turnClosedFor prev = Some c" "t \<le> c" "\<forall>x\<in>set (starts fs). c \<le> x" "sorted (starts fs)"
  shows "filter (announces_end t) (session_passes en fs prev) = []"
  using assms
proof (induction fs arbitrary: prev c)
  case (Cons x fs)
  obtain f d where x: "x = (f, d)" by force
  let ?o = "observe_session en f d prev"
  have "\<not> announces_end t ?o"
  proof
    assume a: "announces_end t ?o"
    from announced_closes [OF a] Cons.prems(3) have "c \<le> t" by (simp add: x starts_Cons)
    with announced_closes(1) [OF a] Cons.prems(1,2) show False by simp
  qed
  moreover have "filter (announces_end t) (session_passes en fs (os_memory ?o)) = []"
  proof (cases "start_of f")
    case None
    with closed_for_step(2) [OF None] Cons show ?thesis by (simp add: x starts_Cons)
  next
    case (Some s)
    then have cs: "c \<le> s" "\<forall>y\<in>set (starts fs). s \<le> y" "sorted (starts fs)"
      using Cons.prems(3,4) by (simp_all add: x starts_Cons)
    obtain c' where "ob_turnClosedFor (os_memory ?o) = Some c'" "c \<le> c'" "c' \<le> s"
      using closed_for_step(1) [of en f d prev] Cons.prems(1) Some cs(1) by auto
    with cs Cons.prems(2) Cons.IH [of "os_memory ?o" c'] show ?thesis by fastforce
  qed
  ultimately show ?case by (simp add: x Let_def)
qed simp

lemma ended_once:
  assumes "sorted (starts fs)"
  shows "length (filter (announces_end t) (session_passes en fs prev)) \<le> 1"
  using assms
proof (induction fs arbitrary: prev)
  case (Cons x fs)
  obtain f d where x: "x = (f, d)" by force
  let ?o = "observe_session en f d prev"
  have s: "sorted (starts fs)" using Cons.prems by (auto simp: x starts_Cons split: option.splits)
  show ?case
  proof (cases "announces_end t ?o")
    case True
    have "\<forall>y\<in>set (starts fs). t \<le> y"
      using Cons.prems announced_closes(3) [OF True] by (simp add: x starts_Cons)
    with never_again [OF announced_closes(2) [OF True] order_refl _ s] show ?thesis by (simp add: x Let_def)
  next
    case False
    with Cons.IH [OF s] show ?thesis by (simp add: x Let_def)
  qed
qed simp

text \<open>An end is announced on proof: the pane was seen quiet and at no menu, nothing in it or in the transcript
  moved for six seconds after the agent's own words or for a minute otherwise, and only the latter is called
  an interruption.\<close>

lemma life_of_turn: "lastSignOfLife a p (Some s) = Some t \<Longrightarrow> s \<le> t"
  by (auto simp: lastSignOfLife_def)

lemma end_is_proven:
  assumes "e \<in> set (os_events (observe_session en f d prev))" "em_event e = TurnEnd"
  obtains s scan t where "claimed_turn (of_lifecycle f) = Some s" "of_pane f = Some scan"
    "ps_state scan \<noteq> PaneWorking" "ps_atPrompt scan = None"
    "lastSignOfLife (of_activity f) (or_else (ob_paneWorkingMs prev) d) (Some s) = Some t"
    "of_now f - t \<ge> (if assistantEndedCurrentTurn (of_message f) (of_activity f) (Some s) then SETTLE_MS else INTERRUPTED_MS)"
    "em_interrupted e = (if assistantEndedCurrentTurn (of_message f) (of_activity f) (Some s) then None else Some True)"
    "em_duration e = Some (max 0 (min (of_now f) (max s (nullish (of_activity f) (of_now f))) - s))"
proof -
  let ?d = "or_else (ob_paneWorkingMs prev) d"
  let ?n = "observe f ?d"
  have e: "e \<in> set (transitions prev ?n)" using assms(1) by (simp add: observe_session_def Let_def split: if_splits)
  with assms(2) have "ends_turn prev ?n" by (intro transitions_end) (metis imageI)
  then have over: "ob_turnOverMs ?n \<noteq> None" by (simp add: ends_turn_def)
  have ev: "e = (emit TurnEnd)\<lparr>em_duration := Some (max 0 (the (ob_turnOverMs ?n) - the (ob_turnStartedMs ?n))),
                em_interrupted := (if ob_turnInterrupted ?n then Some True else None)\<rparr>"
    using e assms(2) by (auto simp: transitions_def split: if_splits)
  from over obtain s scan where c: "of_running f" "of_native f = None" "claimed_turn (of_lifecycle f) = Some s"
    "of_pane f = Some scan" by (auto simp: observe_def Let_def split: if_splits option.splits)
  let ?w = "ps_state scan = PaneWorking"
  let ?p = "if ?w then Some (of_now f) else ?d"
  from over c have st: "settled (pane_turn f scan (Some s) ?p)"
    by (auto simp: observe_def Let_def split: if_splits)
  then have nw: "\<not> ?w" "ps_atPrompt scan = None"
    by (auto simp: pane_turn_def turnState_settled_iff)
  obtain t where t: "lastSignOfLife (of_activity f) ?d (Some s) = Some t"
    by (simp add: lastSignOfLife_def)
  have q: "of_now f - t \<ge> (if assistantEndedCurrentTurn (of_message f) (of_activity f) (Some s) then SETTLE_MS else INTERRUPTED_MS)"
    using st nw t by (auto simp: pane_turn_def turnState_settled_iff)
  have why: "why (pane_turn f scan (Some s) ?d)
      = (if assistantEndedCurrentTurn (of_message f) (of_activity f) (Some s) then TurnEnded else IdleAfterInterrupt)"
    using st nw t by (auto simp: pane_turn_def turnState_def turn_def split: if_splits)
  show ?thesis
    by (rule that [OF c(3,4) nw t q]) (use ev c st nw why in \<open>auto simp: observe_def Let_def emit_def\<close>)
qed

end
