(* ===== verification/Inventory.thy ===== *)
theory Inventory
  imports Complex_Main EventFeed Fleet Mailbox TurnState
begin

text \<open>
  The machine's inventory, published as changes (\<open>src/events/inventory.ts\<close>), and what a consumer of the
  changes may rely on.
\<close>

record monitored =
  mo_name :: string
  mo_agent :: agent_kind
  mo_uuid :: string
  mo_address :: string
  mo_archived :: bool
  mo_running :: bool
  mo_state :: string
  mo_model :: "string option"
  mo_context :: "rat option"
  mo_turnStartedAt :: "stamp option"

text \<open>\<open>startedAt\<close> in seconds; \<open>message\<close> is the shape of the last transcript message.  \<open>Math.round\<close> rounds a half up.\<close>

definition math_round :: "rat \<Rightarrow> int" where "math_round x = \<lfloor>x + 1 / 2\<rfloor>"

definition inventoryRow :: "monitored \<Rightarrow> int option \<Rightarrow> inventory_step option \<Rightarrow> inventory_row" where
  "inventoryRow r startedAt message =
     \<lparr>ir_name = mo_name r, ir_agent = mo_agent r, ir_uuid = mo_uuid r, ir_address = mo_address r,
      ir_archived = mo_archived r, ir_running = mo_running r, ir_state = mo_state r, ir_model = mo_model r,
      ir_context = map_option math_round (mo_context r),
      ir_startedAt = map_option (\<lambda>t. Instant (t * 1000)) startedAt, ir_turnStartedAt = mo_turnStartedAt r,
      ir_step = (if mo_running r then message else None)\<rparr>"

record inventory_change =
  ic_name :: string
  ic_before :: "inventory_row option"
  ic_after :: "inventory_row option"

text \<open>The previous pass as a \<open>Map\<close> in insertion order.\<close>

type_synonym inventory_rows = "(string \<times> inventory_row) list"

definition rows_map :: "inventory_row list \<Rightarrow> inventory_rows" where
  "rows_map rows = fold (\<lambda>r. AList.update (ir_name r) r) rows []"

definition changed_rows :: "inventory_rows \<Rightarrow> inventory_row list \<Rightarrow> inventory_change list" where
  "changed_rows previous nxt =
     map (\<lambda>r. \<lparr>ic_name = ir_name r, ic_before = map_of previous (ir_name r), ic_after = Some r\<rparr>)
       (filter (\<lambda>r. map_of previous (ir_name r) \<noteq> Some r) nxt)"

definition left_rows :: "inventory_rows \<Rightarrow> inventory_row list \<Rightarrow> inventory_change list" where
  "left_rows previous nxt = map (\<lambda>(n, r). \<lparr>ic_name = n, ic_before = Some r, ic_after = None\<rparr>)
     (filter (\<lambda>(n, r). n \<notin> ir_name ` set nxt) previous)"

definition inventoryChanges ::
  "(string \<Rightarrow> string \<Rightarrow> bool) \<Rightarrow> inventory_rows \<Rightarrow> inventory_row list \<Rightarrow> inventory_change list" where
  "inventoryChanges le previous nxt =
     foldr (insert_by (\<lambda>a b. le (ic_name a) (ic_name b))) (changed_rows previous nxt @ left_rows previous nxt) []"

subsection \<open>The publisher\<close>

record inventory_snapshot =
  iv_generation :: string
  iv_sequence :: nat
  iv_pid :: nat
  iv_sessions :: "inventory_row list"

record publisher =
  pb_generation :: string
  pb_pid :: nat
  pb_sequence :: nat
  pb_current :: inventory_rows
  pb_file :: "inventory_snapshot option"

definition new_publisher :: "string \<Rightarrow> nat \<Rightarrow> publisher" where
  "new_publisher g pid = \<lparr>pb_generation = g, pb_pid = pid, pb_sequence = 0, pb_current = [], pb_file = None\<rparr>"

definition inventory_snapshot_of :: "publisher \<Rightarrow> inventory_snapshot" where
  "inventory_snapshot_of p = \<lparr>iv_generation = pb_generation p, iv_sequence = pb_sequence p, iv_pid = pb_pid p,
     iv_sessions = map snd (pb_current p)\<rparr>"

text \<open>The event of one change; it is named by the row after the change, or by the one that left.\<close>

definition change_record ::
  "(string \<Rightarrow> bool) \<Rightarrow> string \<Rightarrow> string \<Rightarrow> (nat \<Rightarrow> string) \<Rightarrow> stamp \<Rightarrow> nat \<Rightarrow> inventory_change \<Rightarrow> session_event option" where
  "change_record uuid machine g ids now n c = (case or_else (ic_after c) (ic_before c) of
      None \<Rightarrow> None
    | Some row \<Rightarrow> buildEvent uuid machine (ir_name row, ir_agent row, ir_uuid row)
        ((emit InventoryEvent)\<lparr>em_inventory := Some (g, n), em_row := Some (ic_after c)\<rparr>) (ids n) now)"

text \<open>The changes of a pass in order: the events that reached the feed, the sequence, and whether the loop ran to
  its end.  An event that fails its schema throws after its number was taken.\<close>

fun publish_changes ::
  "bool \<Rightarrow> (nat \<Rightarrow> inventory_change \<Rightarrow> session_event option) \<Rightarrow> (session_event \<Rightarrow> bool) \<Rightarrow> nat \<Rightarrow> inventory_change list
     \<Rightarrow> session_event list \<times> nat \<times> bool" where
  "publish_changes on build written n [] = ([], n, True)"
| "publish_changes on build written n (c # cs) =
     (if \<not> on \<or> or_else (ic_after c) (ic_before c) = None then publish_changes on build written (Suc n) cs
      else case build (Suc n) c of
        None \<Rightarrow> ([], Suc n, False)
      | Some e \<Rightarrow> (case publish_changes on build written (Suc n) cs of
          (es, k, ok) \<Rightarrow> ((if written e then [e] else []) @ es, k, ok)))"

record publish_env =
  pe_on :: bool
  pe_uuid :: "string \<Rightarrow> bool"
  pe_machine :: string
  pe_ids :: "nat \<Rightarrow> string"
  pe_now :: stamp
  pe_written :: "session_event \<Rightarrow> bool"
  pe_pass :: "inventory_row list"

definition publish_inventory :: "(string \<Rightarrow> string \<Rightarrow> bool) \<Rightarrow> publish_env \<Rightarrow> publisher \<Rightarrow> session_event list \<times> publisher" where
  "publish_inventory le v p =
     (let changes = inventoryChanges le (pb_current p) (pe_pass v)
      in case publish_changes (pe_on v) (change_record (pe_uuid v) (pe_machine v) (pb_generation p) (pe_ids v) (pe_now v))
           (pe_written v) (pb_sequence p) changes of
        (es, n, ok) \<Rightarrow>
          (es, if \<not> ok then p\<lparr>pb_sequence := n\<rparr>
           else let p' = p\<lparr>pb_sequence := n, pb_current := rows_map (pe_pass v)\<rparr>
             in if changes = [] \<and> pb_file p \<noteq> None then p' else p'\<lparr>pb_file := Some (inventory_snapshot_of p')\<rparr>))"

definition readInventory :: "(nat \<Rightarrow> bool) \<Rightarrow> inventory_snapshot option \<Rightarrow> inventory_snapshot option" where
  "readInventory alive file = (case file of None \<Rightarrow> None | Some s \<Rightarrow> if alive (iv_pid s) then Some s else None)"

text \<open>\<open>stop\<close>: only the publisher's own snapshot is removed.\<close>

definition stop_inventory :: "(nat \<Rightarrow> bool) \<Rightarrow> publisher \<Rightarrow> inventory_snapshot option \<Rightarrow> inventory_snapshot option" where
  "stop_inventory alive p file =
     (if map_option iv_generation (readInventory alive file) = Some (pb_generation p) then None else file)"

subsection \<open>The consumer\<close>

text \<open>The rule the module states for its consumers: an event is applied when it is the next one of the same
  generation, dropped when it is held already, and otherwise a new snapshot is due.  Events of other kinds
  are no changes.\<close>

record holder =
  hd_generation :: string
  hd_sequence :: nat
  hd_rows :: "string \<rightharpoonup> inventory_row"

definition hold :: "inventory_snapshot \<Rightarrow> holder" where
  "hold s = \<lparr>hd_generation = iv_generation s, hd_sequence = iv_sequence s,
     hd_rows = map_of (map (\<lambda>r. (ir_name r, r)) (iv_sessions s))\<rparr>"

definition apply_change :: "string \<times> inventory_row option \<Rightarrow> (string \<rightharpoonup> inventory_row) \<Rightarrow> (string \<rightharpoonup> inventory_row)" where
  "apply_change c rows = (case c of (n, r) \<Rightarrow> rows(n := r))"

definition change_in :: "session_event \<Rightarrow> (string \<times> nat \<times> string \<times> inventory_row option) option" where
  "change_in e = (case (em_inventory (ev_input e), em_row (ev_input e)) of
      (Some (g, n), Some row) \<Rightarrow> Some (g, n, ev_session e, row) | _ \<Rightarrow> None)"

definition receive_change :: "session_event \<Rightarrow> holder \<Rightarrow> holder option" where
  "receive_change e h = (case change_in e of
      None \<Rightarrow> Some h
    | Some (g, n, name, row) \<Rightarrow>
        (if g \<noteq> hd_generation h then None
         else if n \<le> hd_sequence h then Some h
         else if n = Suc (hd_sequence h) then Some (h\<lparr>hd_sequence := n, hd_rows := apply_change (name, row) (hd_rows h)\<rparr>)
         else None))"

fun receive_changes :: "session_event list \<Rightarrow> holder \<Rightarrow> holder option" where
  "receive_changes [] h = Some h"
| "receive_changes (e # es) h = Option.bind (receive_change e h) (receive_changes es)"

subsection \<open>Replay is exact\<close>

lemma map_of_rows_map: "distinct (map ir_name rows) \<Longrightarrow> map_of (rows_map rows) = map_of (map (\<lambda>r. (ir_name r, r)) rows)"
proof -
  have "map_of (fold (\<lambda>r. AList.update (ir_name r) r) rows xs) = fold (\<lambda>r m. m(ir_name r \<mapsto> r)) rows (map_of xs)" for xs
    by (induction rows arbitrary: xs) (simp_all add: AList.update_conv')
  moreover have "distinct (map ir_name rows) \<Longrightarrow>
      fold (\<lambda>r m. m(ir_name r \<mapsto> r)) rows m = m ++ map_of (map (\<lambda>r. (ir_name r, r)) rows)" for m
  proof (induction rows arbitrary: m)
    case (Cons r rows)
    have "ir_name r \<notin> dom (map_of (map (\<lambda>r. (ir_name r, r)) rows))"
      using Cons.prems by (auto simp: dom_map_of_conv_image_fst image_image)
    with Cons show ?case by (auto simp: fun_eq_iff map_add_def split: option.split)
  qed simp
  ultimately show "distinct (map ir_name rows) \<Longrightarrow> map_of (rows_map rows) = map_of (map (\<lambda>r. (ir_name r, r)) rows)"
    by (simp add: rows_map_def)
qed

lemma rows_map_keys: "map fst (rows_map rows) = map ir_name (map snd (rows_map rows)) \<and> distinct (map fst (rows_map rows))"
proof -
  have "(\<forall>(n, r)\<in>set xs. n = ir_name r) \<and> distinct (map fst xs) \<Longrightarrow>
     (\<forall>(n, r)\<in>set (fold (\<lambda>r. AList.update (ir_name r) r) rows xs). n = ir_name r)
       \<and> distinct (map fst (fold (\<lambda>r. AList.update (ir_name r) r) rows xs))" for xs
  proof (induction rows arbitrary: xs)
    case (Cons r rows)
    have "set (AList.update (ir_name r) r xs) \<subseteq> insert (ir_name r, r) (set xs)"
      by (induction xs) auto
    then have "\<forall>(n, q)\<in>set (AList.update (ir_name r) r xs). n = ir_name q" using Cons.prems by fastforce
    with Cons.IH [of "AList.update (ir_name r) r xs"] Cons.prems show ?case by (simp add: distinct_update)
  qed simp
  from this [of "[]"] show ?thesis by (auto simp: rows_map_def)
qed

lemma hold_current:
  assumes "pb_current p = rows_map rows"
  shows "hd_rows (hold (inventory_snapshot_of p)) = map_of (pb_current p)"
proof -
  have "map (\<lambda>r. (ir_name r, r)) (map snd (rows_map rows)) = rows_map rows"
    using rows_map_keys [of rows] by (intro nth_equalityI) (auto simp: list_eq_iff_nth_eq prod_eq_iff)
  then show ?thesis by (simp add: hold_def inventory_snapshot_of_def assms)
qed

lemma set_inventoryChanges: "set (inventoryChanges le previous nxt) = set (changed_rows previous nxt) \<union> set (left_rows previous nxt)"
  unfolding inventoryChanges_def set_sorted_by set_append ..

lemma length_insert_by [simp]: "length (insert_by le x ys) = Suc (length ys)"
  by (induction ys) auto

lemma mset_names_insert: "distinct (map f (insert_by le x ys)) = (f x \<notin> f ` set ys \<and> distinct (map f ys))"
  by (induction ys) auto

lemma changes_distinct:
  assumes "distinct (map fst previous)" "distinct (map ir_name nxt)"
  shows "distinct (map ic_name (inventoryChanges le previous nxt))"
proof -
  have "distinct (map ic_name (changed_rows previous nxt @ left_rows previous nxt))"
  proof -
    have a: "map ic_name (changed_rows previous nxt) = map ir_name (filter (\<lambda>r. map_of previous (ir_name r) \<noteq> Some r) nxt)"
      by (simp add: changed_rows_def comp_def)
    have b: "map ic_name (left_rows previous nxt) = map fst (filter (\<lambda>(n, r). n \<notin> ir_name ` set nxt) previous)"
      by (simp add: left_rows_def comp_def case_prod_beta)
    have "distinct (map ir_name (filter P nxt))" "distinct (map fst (filter Q previous))" for P Q
      using assms by (simp_all add: distinct_map_filter)
    then show ?thesis
      unfolding map_append distinct_append a b by (auto simp: case_prod_beta)
  qed
  moreover have "distinct (map ic_name (foldr (insert_by le') xs [])) = distinct (map ic_name xs)" for le' xs
    by (induction xs) (auto simp: mset_names_insert)
  ultimately show ?thesis unfolding inventoryChanges_def by blast
qed

lemma fold_changes:
  "distinct (map ic_name cs) \<Longrightarrow> fold apply_change (map (\<lambda>c. (ic_name c, ic_after c)) cs) m n
     = (case List.find (\<lambda>c. ic_name c = n) cs of None \<Rightarrow> m n | Some c \<Rightarrow> ic_after c)"
proof (induction cs arbitrary: m)
  case (Cons c cs)
  show ?case
  proof (cases "ic_name c = n")
    case True
    then have "List.find (\<lambda>c. ic_name c = n) cs = None"
      using Cons.prems by (auto simp: find_None_iff image_iff)
    with Cons True show ?thesis by (simp add: apply_change_def)
  next
    case False
    with Cons show ?thesis by (simp add: apply_change_def split: option.split)
  qed
qed simp

text \<open>Applying the changes of a pass to the rows before it gives the rows after it.\<close>

lemma changes_exact:
  assumes d: "distinct (map fst previous)" "distinct (map ir_name nxt)"
  shows "fold apply_change (map (\<lambda>c. (ic_name c, ic_after c)) (inventoryChanges le previous nxt)) (map_of previous)
    = map_of (rows_map nxt)"
proof
  fix n
  let ?cs = "inventoryChanges le previous nxt"
  note dc = changes_distinct [OF d, of le]
  have new: "map_of (rows_map nxt) n = (if n \<in> ir_name ` set nxt then Some (THE r. r \<in> set nxt \<and> ir_name r = n) else None)"
  proof (cases "n \<in> ir_name ` set nxt")
    case True
    then obtain r where r: "r \<in> set nxt" "ir_name r = n" by blast
    then have "(THE r. r \<in> set nxt \<and> ir_name r = n) = r"
      using distinct_map_keyD [OF d(2)] by (intro the_equality) auto
    moreover have "map_of (map (\<lambda>r. (ir_name r, r)) nxt) n = Some r"
      using r d(2) by (intro map_of_is_SomeI) (auto simp: comp_def)
    ultimately show ?thesis using True by (simp add: map_of_rows_map [OF d(2)])
  next
    case False
    then show ?thesis by (auto simp: map_of_rows_map [OF d(2)] map_of_eq_None_iff)
  qed
  show "fold apply_change (map (\<lambda>c. (ic_name c, ic_after c)) ?cs) (map_of previous) n = map_of (rows_map nxt) n"
  proof (cases "List.find (\<lambda>c. ic_name c = n) ?cs")
    case None
    then have none: "\<forall>c\<in>set (changed_rows previous nxt) \<union> set (left_rows previous nxt). ic_name c \<noteq> n"
      using set_inventoryChanges [of le previous nxt] by (auto simp: find_None_iff)
    have "map_of previous n = map_of (rows_map nxt) n"
    proof (cases "n \<in> ir_name ` set nxt")
      case True
      then obtain r where r: "r \<in> set nxt" "ir_name r = n" by blast
      then have "map_of previous n = Some r" using none r by (force simp: changed_rows_def)
      moreover have "(THE r. r \<in> set nxt \<and> ir_name r = n) = r"
        using r distinct_map_keyD [OF d(2)] by (intro the_equality) auto
      ultimately show ?thesis using new True by simp
    next
      case False
      have "map_of previous n = None"
      proof (rule ccontr)
        assume "map_of previous n \<noteq> None"
        then obtain r where "(n, r) \<in> set previous" by (auto dest: map_of_SomeD)
        with False have "\<lparr>ic_name = n, ic_before = Some r, ic_after = None\<rparr> \<in> set (left_rows previous nxt)"
          by (force simp: left_rows_def)
        with none show False by (metis UnI2 inventory_change.select_convs(1))
      qed
      with new False show ?thesis by simp
    qed
    with None show ?thesis by (simp add: fold_changes [OF dc])
  next
    case (Some c)
    then have c: "c \<in> set (changed_rows previous nxt) \<union> set (left_rows previous nxt)" "ic_name c = n"
      using find_SomeD [OF Some] set_inventoryChanges [of le previous nxt] by auto
    have "ic_after c = map_of (rows_map nxt) n"
    proof (cases "c \<in> set (changed_rows previous nxt)")
      case True
      then obtain r where r: "r \<in> set nxt" "ir_name r = n" "ic_after c = Some r" using c(2) by (auto simp: changed_rows_def)
      then have "(THE r. r \<in> set nxt \<and> ir_name r = n) = r"
        using distinct_map_keyD [OF d(2)] by (intro the_equality) auto
      with new r show ?thesis by (auto simp: image_iff)
    next
      case False
      with c have "n \<notin> ir_name ` set nxt" "ic_after c = None" by (auto simp: left_rows_def)
      with new show ?thesis by simp
    qed
    with Some show ?thesis by (simp add: fold_changes [OF dc])
  qed
qed

text \<open>All passes of a publisher, with every event it managed to append.\<close>

fun publish_run ::
  "(string \<Rightarrow> string \<Rightarrow> bool) \<Rightarrow> publish_env list \<Rightarrow> publisher \<Rightarrow> session_event list \<times> publisher" where
  "publish_run le [] p = ([], p)"
| "publish_run le (v # rest) p =
     (let (es, p') = publish_inventory le v p; (es', p'') = publish_run le rest p' in (es @ es', p''))"

text \<open>\<open>states ! n\<close>: the rows after \<open>n\<close> changes of a generation.  Every event that was appended leads from one to
  the next; a number that was taken by an event that failed leads anywhere.\<close>

definition leads :: "string \<Rightarrow> (string \<rightharpoonup> inventory_row) list \<Rightarrow> session_event \<Rightarrow> bool" where
  "leads g states e = (\<exists>n name row. change_in e = Some (g, Suc n, name, row) \<and> Suc n < length states
     \<and> states ! Suc n = apply_change (name, row) (states ! n))"

definition publisher_inv :: "(string \<rightharpoonup> inventory_row) list \<Rightarrow> publisher \<Rightarrow> bool" where
  "publisher_inv states p = (length states = Suc (pb_sequence p) \<and> states ! pb_sequence p = map_of (pb_current p)
     \<and> (\<exists>rows. pb_current p = rows_map rows)
     \<and> (\<forall>s. pb_file p = Some s \<longrightarrow> iv_generation s = pb_generation p \<and> iv_sequence s < length states
          \<and> states ! iv_sequence s = hd_rows (hold s)))"

lemma leads_more: "leads g states e \<Longrightarrow> leads g (states @ rest) e"
  by (auto simp: leads_def nth_append)

text \<open>The rows a consumer goes through while the changes of a pass are numbered.\<close>

fun states_of :: "inventory_change list \<Rightarrow> (string \<rightharpoonup> inventory_row) \<Rightarrow> (string \<rightharpoonup> inventory_row) list" where
  "states_of [] m = []"
| "states_of (c # cs) m = (let m' = apply_change (ic_name c, ic_after c) m in m' # states_of cs m')"

lemma length_states_of [simp]: "length (states_of cs m) = length cs"
  by (induction cs arbitrary: m) (simp_all add: Let_def)

lemma nth_states_of:
  "length states = Suc n \<Longrightarrow> (states @ states_of cs (states ! n)) ! (n + length cs)
     = fold apply_change (map (\<lambda>c. (ic_name c, ic_after c)) cs) (states ! n)"
proof (induction cs arbitrary: states n)
  case (Cons c cs)
  let ?m = "apply_change (ic_name c, ic_after c) (states ! n)"
  have "length (states @ [?m]) = Suc (Suc n)" "(states @ [?m]) ! Suc n = ?m" using Cons.prems by (simp_all add: nth_append)
  with Cons.IH [of "states @ [?m]" "Suc n"] show ?case by (simp add: Let_def)
qed (simp add: nth_append)

lemma change_record_in:
  assumes "change_record uuid machine g ids now n c = Some e"
    and "\<forall>r. ic_after c = Some r \<or> ic_before c = Some r \<longrightarrow> ir_name r = ic_name c"
  shows "change_in e = Some (g, n, ic_name c, ic_after c)"
  using assms by (auto simp: change_record_def buildEvent_def change_in_def emit_def Let_def or_else_def split: option.splits if_splits)

text \<open>What a pass appends, and the numbers it takes, whether or not it runs to its end.\<close>

lemma publish_changes_leads:
  assumes "publish_changes on (change_record uuid machine g ids now) written n cs = (es, k, ok)" "length states = Suc n"
    and "\<forall>c\<in>set cs. \<forall>r. ic_after c = Some r \<or> ic_before c = Some r \<longrightarrow> ir_name r = ic_name c"
  shows "(if ok then k = n + length cs else n < k \<and> k \<le> n + length cs)
    \<and> (\<forall>e\<in>set es. leads g (states @ states_of (take (if ok then k - n else k - n - 1) cs) (states ! n)) e)"
  using assms
proof (induction cs arbitrary: n es k ok states)
  case (Cons c cs)
  let ?b = "change_record uuid machine g ids now" and ?m = "apply_change (ic_name c, ic_after c) (states ! n)"
  let ?states = "states @ [?m]"
  have len: "length ?states = Suc (Suc n)" and at: "?states ! Suc n = ?m"
    using Cons.prems(2) by (simp_all add: nth_append)
  have names: "\<forall>c\<in>set cs. \<forall>r. ic_after c = Some r \<or> ic_before c = Some r \<longrightarrow> ir_name r = ic_name c"
    using Cons.prems(3) by simp
  have rest: "(if ok' then k' = Suc n + length cs else Suc n < k' \<and> k' \<le> Suc n + length cs)
      \<and> (\<forall>e\<in>set es'. leads g (states @ states_of (take (if ok' then k' - n else k' - n - 1) (c # cs)) (states ! n)) e)"
    if r: "publish_changes on ?b written (Suc n) cs = (es', k', ok')" for es' k' ok'
  proof -
    note i = Cons.IH [OF r len names, unfolded at]
    have ih: "if ok' then k' = Suc n + length cs else Suc n < k' \<and> k' \<le> Suc n + length cs"
      "\<forall>e\<in>set es'. leads g (?states @ states_of (take (if ok' then k' - Suc n else k' - Suc n - 1) cs) ?m) e"
      using i by (auto split: if_splits)
    have "(if ok' then k' - n else k' - n - 1) = Suc (if ok' then k' - Suc n else k' - Suc n - 1)"
      using ih(1) by (auto split: if_splits)
    then have "states @ states_of (take (if ok' then k' - n else k' - n - 1) (c # cs)) (states ! n)
        = ?states @ states_of (take (if ok' then k' - Suc n else k' - Suc n - 1) cs) ?m"
      by (simp add: Let_def)
    with ih show ?thesis by (cases ok') simp_all
  qed
  show ?case
  proof (cases "\<not> on \<or> or_else (ic_after c) (ic_before c) = None")
    case True
    then have "publish_changes on ?b written (Suc n) cs = (es, k, ok)" using Cons.prems(1) by simp
    from rest [OF this] show ?thesis by auto
  next
    case False
    show ?thesis
    proof (cases "?b (Suc n) c")
      case None
      with False Cons.prems(1) show ?thesis by auto
    next
      case (Some e)
      obtain es' where r: "publish_changes on ?b written (Suc n) cs = (es', k, ok)"
        and es: "es = (if written e then [e] else []) @ es'"
        using Cons.prems(1) False Some by (auto split: prod.splits)
      have "\<forall>r. ic_after c = Some r \<or> ic_before c = Some r \<longrightarrow> ir_name r = ic_name c" using Cons.prems(3) by simp
      then have "change_in e = Some (g, Suc n, ic_name c, ic_after c)" by (rule change_record_in [OF Some])
      moreover have "(if ok then k - n else k - n - 1) = Suc (if ok then k - Suc n else k - Suc n - 1)"
        using rest [OF r] by (auto split: if_splits)
      ultimately have "leads g (states @ states_of (take (if ok then k - n else k - n - 1) (c # cs)) (states ! n)) e"
        using Cons.prems(2) by (simp add: leads_def Let_def nth_append)
      with rest [OF r] es show ?thesis by auto
    qed
  qed
qed simp

lemma change_names:
  assumes "pb_current p = rows_map rows" "c \<in> set (inventoryChanges le (pb_current p) pass)"
    and "ic_after c = Some r \<or> ic_before c = Some r"
  shows "ir_name r = ic_name c"
proof -
  have k: "ir_name q = n" if "map_of (rows_map rows) n = Some q \<or> (n, q) \<in> set (rows_map rows)" for n q
  proof -
    from that have "(n, q) \<in> set (rows_map rows)" by (auto dest: map_of_SomeD)
    then show ?thesis using rows_map_keys [of rows] by (auto simp: list_eq_iff_nth_eq in_set_conv_nth)
  qed
  from assms(2,3) k show ?thesis unfolding set_inventoryChanges assms(1)
    by (auto simp: changed_rows_def left_rows_def)
qed

lemma publish_inv:
  assumes "publisher_inv states p" "distinct (map ir_name (pe_pass v))" "publish_inventory le v p = (es, p')"
  shows "\<exists>rest. publisher_inv (states @ rest) p' \<and> (\<forall>e\<in>set es. leads (pb_generation p) (states @ rest) e)
    \<and> pb_generation p' = pb_generation p"
proof -
  let ?cs = "inventoryChanges le (pb_current p) (pe_pass v)" and ?n = "pb_sequence p"
  have inv: "length states = Suc ?n" "states ! ?n = map_of (pb_current p)" using assms(1) by (simp_all add: publisher_inv_def)
  have d: "distinct (map fst (pb_current p))" using assms(1) rows_map_keys by (auto simp: publisher_inv_def)
  obtain k ok where r: "publish_changes (pe_on v) (change_record (pe_uuid v) (pe_machine v) (pb_generation p) (pe_ids v) (pe_now v))
      (pe_written v) ?n ?cs = (es, k, ok)"
    and p': "p' = (if \<not> ok then p\<lparr>pb_sequence := k\<rparr>
       else let p' = p\<lparr>pb_sequence := k, pb_current := rows_map (pe_pass v)\<rparr>
         in if ?cs = [] \<and> pb_file p \<noteq> None then p' else p'\<lparr>pb_file := Some (inventory_snapshot_of p')\<rparr>)"
    using assms(3) by (auto simp: publish_inventory_def Let_def split: prod.splits)
  have "\<forall>c\<in>set ?cs. \<forall>r. ic_after c = Some r \<or> ic_before c = Some r \<longrightarrow> ir_name r = ic_name c"
    using assms(1) change_names by (fastforce simp: publisher_inv_def)
  from publish_changes_leads [OF r inv(1) this] have
    k: "if ok then k = ?n + length ?cs else ?n < k \<and> k \<le> ?n + length ?cs"
    and es: "\<forall>e\<in>set es. leads (pb_generation p) (states @ states_of (take (if ok then k - ?n else k - ?n - 1) ?cs) (states ! ?n)) e"
    by auto
  show ?thesis
  proof (cases ok)
    case False
    let ?rest = "states_of (take (k - ?n - 1) ?cs) (states ! ?n) @ [map_of (pb_current p)]"
    have "length (states @ ?rest) = Suc k" "(states @ ?rest) ! k = map_of (pb_current p)"
      using k False inv(1) by (auto simp: nth_append)
    then have "publisher_inv (states @ ?rest) p'"
      using assms(1) False by (auto simp: publisher_inv_def p' nth_append)
    moreover have "\<forall>e\<in>set es. leads (pb_generation p) (states @ ?rest) e"
      using es False leads_more [of _ "states @ states_of (take (k - ?n - 1) ?cs) (states ! ?n)" _ "[map_of (pb_current p)]"] by simp
    ultimately show ?thesis using False by (auto simp: p')
  next
    case True
    let ?rest = "states_of ?cs (states ! ?n)"
    have l: "length (states @ ?rest) = Suc k" using k True inv(1) by simp
    have e: "(states @ ?rest) ! k = map_of (rows_map (pe_pass v))"
      using k True nth_states_of [OF inv(1), of ?cs] by (simp add: inv(2) changes_exact [OF d assms(2)])
    have h: "hd_rows (hold (inventory_snapshot_of (p\<lparr>pb_sequence := k, pb_current := rows_map (pe_pass v)\<rparr>)))
        = map_of (rows_map (pe_pass v))"
      using hold_current [of "p\<lparr>pb_sequence := k, pb_current := rows_map (pe_pass v)\<rparr>" "pe_pass v"] by simp
    have "publisher_inv (states @ ?rest) p'"
      using assms(1) l e h True by (auto simp: publisher_inv_def p' nth_append Let_def inventory_snapshot_of_def split: if_splits)
    moreover have "\<forall>e\<in>set es. leads (pb_generation p) (states @ ?rest) e" using es k True by simp
    moreover have "pb_generation p' = pb_generation p" by (simp add: p' Let_def)
    ultimately show ?thesis by blast
  qed
qed

lemma publish_run_inv:
  assumes "publisher_inv states p" "\<forall>v\<in>set passes. distinct (map ir_name (pe_pass v))" "publish_run le passes p = (es, p')"
  shows "\<exists>rest. publisher_inv (states @ rest) p' \<and> (\<forall>e\<in>set es. leads (pb_generation p) (states @ rest) e)
    \<and> pb_generation p' = pb_generation p"
  using assms
proof (induction passes arbitrary: states p es)
  case (Cons v passes)
  obtain es1 p1 es2 where r: "publish_inventory le v p = (es1, p1)" "publish_run le passes p1 = (es2, p')" "es = es1 @ es2"
    using Cons.prems(3) by (auto simp: Let_def split: prod.splits)
  from publish_inv [OF Cons.prems(1) _ r(1)] Cons.prems(2) obtain a where
    a: "publisher_inv (states @ a) p1" "\<forall>e\<in>set es1. leads (pb_generation p) (states @ a) e" "pb_generation p1 = pb_generation p"
    by auto
  from Cons.IH [OF a(1) _ r(2)] Cons.prems(2) obtain b where
    b: "publisher_inv ((states @ a) @ b) p'" "\<forall>e\<in>set es2. leads (pb_generation p1) ((states @ a) @ b) e"
      "pb_generation p' = pb_generation p1" by auto
  have "\<forall>e\<in>set es. leads (pb_generation p) (states @ a @ b) e"
    using a(2,3) b(2) r(3) leads_more [of "pb_generation p" "states @ a" _ b] by auto
  with a(3) b(1,3) show ?case by (intro exI [of _ "a @ b"]) simp
qed (auto intro: exI [of _ "[]"])

text \<open>Whatever was lost, repeated or reordered on the way, a consumer that did not ask for a new snapshot holds
  the rows as they were after as many changes as it counts.\<close>

lemma receive_exact:
  assumes "\<forall>e\<in>set es. leads g states e" "hd_generation h = g" "hd_rows h = states ! hd_sequence h"
    and "hd_sequence h < length states" "receive_changes es h = Some h'"
  shows "hd_rows h' = states ! hd_sequence h' \<and> hd_sequence h' < length states"
  using assms
proof (induction es arbitrary: h)
  case (Cons e es)
  from Cons.prems(5) obtain h1 where h1: "receive_change e h = Some h1" "receive_changes es h1 = Some h'"
    by (auto simp: bind_eq_Some_conv)
  from Cons.prems(1) obtain n name row where
    e: "change_in e = Some (g, Suc n, name, row)" "Suc n < length states" "states ! Suc n = apply_change (name, row) (states ! n)"
    by (auto simp: leads_def)
  then have "hd_generation h1 = g \<and> hd_rows h1 = states ! hd_sequence h1 \<and> hd_sequence h1 < length states"
    using h1(1) Cons.prems(2-4) by (auto simp: receive_change_def split: if_splits)
  with Cons.IH [of h1] Cons.prems(1) h1(2) show ?case by simp
qed simp

end
