(* ===== verification/Monitoring.thy ===== *)
theory Monitoring
  imports Observe Inventory
begin

text \<open>
  The monitoring snapshot (\<open>src/monitoring\<close>): the state shown for a session, the bounded publisher, the
  liveness test of a reader and the shared read door of \<open>nativeRead.ts\<close>.
\<close>

datatype row_state = RowWorking | RowIdle | RowPrompt | RowStopped | RowBlocked | RowUnknown

definition native_shown :: "native_state \<Rightarrow> row_state" where
  "native_shown st = (if st = NsWorking then RowWorking else if st \<in> {NsIdle, NsWaitingApproval, NsWaitingInput} then RowIdle else RowBlocked)"

text \<open>The \<open>state\<close> of \<open>projectMonitoringRow\<close>; \<open>started\<close> says whether the session's terminal exists.\<close>

definition shown_state :: "observe_facts \<Rightarrow> bool \<Rightarrow> int option \<Rightarrow> row_state" where
  "shown_state f started paneMs =
     (let running = (started \<or> map_option rd_status (of_native f) = Some ReadLive);
          evidence = map_option (\<lambda>scan. pane_turn f scan (claimed_turn (of_lifecycle f)) paneMs) (of_pane f)
      in if of_block f \<noteq> None then RowBlocked
         else if \<not> running then RowStopped
         else case of_native f of
           Some r \<Rightarrow>
             (if rd_status r \<noteq> ReadLive \<or> map_option sn_state (rd_snapshot r) = Some NsUnknown then RowUnknown
              else if native_prompt r \<noteq> None then RowPrompt
              else native_shown (case rd_snapshot r of Some sn \<Rightarrow> sn_state sn | None \<Rightarrow> NsUnknown))
         | None \<Rightarrow> (case of_pane f of
             None \<Rightarrow> RowUnknown
           | Some scan \<Rightarrow>
             (if ps_atPrompt scan \<noteq> None then RowPrompt
              else if \<not> ps_ready scan \<and> ps_state scan = PaneUnknown then RowUnknown
              else (case resolveLiveState (ps_state scan) (of_lifecycle f) evidence of
                  LiveWorking \<Rightarrow> RowWorking | LiveIdle \<Rightarrow> RowIdle))))"

text \<open>A session shown at a prompt is one whose menu the feed announces.\<close>

lemma prompt_is_waiting:
  assumes "shown_state f started paneMs = RowPrompt" "of_running f"
  shows "ob_waitingAt (observe f d) \<noteq> None"
  using assms
  by (auto simp: shown_state_def observe_def Let_def native_shown_def split: if_splits option.splits live_state.splits)

subsection \<open>The publisher\<close>

definition STATUS_MAX_ITEMS :: nat where "STATUS_MAX_ITEMS = 256"
definition STATUS_MAX_BYTES :: nat where "STATUS_MAX_BYTES = 512 * 1024"
definition STATUS_MAX_AGE_MS :: int where "STATUS_MAX_AGE_MS = 10000"

record 'r monitor_pass =
  mp_rows :: "'r list"
  mp_bytes :: nat
  mp_omitted :: nat

definition begin_pass :: "'r monitor_pass" where
  "begin_pass = \<lparr>mp_rows = [], mp_bytes = 0, mp_omitted = 0\<rparr>"

text \<open>\<open>row\<close> is absent when the projected row fails its schema; \<open>bytes_of\<close> gives the length of its JSON.\<close>

definition sample :: "('r \<Rightarrow> nat) \<Rightarrow> 'r option \<Rightarrow> 'r monitor_pass \<Rightarrow> 'r option \<times> 'r monitor_pass" where
  "sample bytes_of row p =
     (if length (mp_rows p) \<ge> STATUS_MAX_ITEMS then (None, p\<lparr>mp_omitted := mp_omitted p + 1\<rparr>)
      else case row of
        None \<Rightarrow> (None, p\<lparr>mp_omitted := mp_omitted p + 1\<rparr>)
      | Some r \<Rightarrow> (let s = bytes_of r + 1
          in if mp_bytes p + s > STATUS_MAX_BYTES - 4096 then (Some r, p\<lparr>mp_omitted := mp_omitted p + 1\<rparr>)
             else (Some r, p\<lparr>mp_rows := mp_rows p @ [r], mp_bytes := mp_bytes p + s\<rparr>)))"

definition monitor_inv :: "('r \<Rightarrow> nat) \<Rightarrow> nat \<Rightarrow> 'r monitor_pass \<Rightarrow> bool" where
  "monitor_inv bytes_of n p = (length (mp_rows p) \<le> STATUS_MAX_ITEMS \<and> mp_bytes p = (\<Sum>r\<leftarrow>mp_rows p. bytes_of r + 1)
     \<and> mp_bytes p \<le> STATUS_MAX_BYTES - 4096 \<and> length (mp_rows p) + mp_omitted p = n)"

lemma begin_inv: "monitor_inv bytes_of 0 begin_pass"
  by (simp add: monitor_inv_def begin_pass_def)

lemma sample_inv: "monitor_inv bytes_of n p \<Longrightarrow> monitor_inv bytes_of (Suc n) (snd (sample bytes_of row p))"
  by (auto simp: monitor_inv_def sample_def Let_def split: option.split)

text \<open>Every session of a pass is shown or counted as omitted, and the rows leave room for the header.\<close>

lemma pass_bounded: "monitor_inv bytes_of (length rows) (fold (\<lambda>r p. snd (sample bytes_of r p)) rows begin_pass)"
proof (induction rows rule: rev_induct)
  case (snoc r rows)
  from sample_inv [OF snoc] show ?case by simp
qed (simp add: begin_inv)

subsection \<open>Liveness\<close>

record monitor_snapshot =
  mn_generation :: string
  mn_sequence :: nat
  mn_pid :: nat
  mn_rcPrefix :: string
  mn_observedAt :: stamp

datatype read_reason = Missing | Invalid | Oversized | ProducerStopped | Expired | ClockSkew | ReadFailed
  | Unauthorized | ConfigChanged | Cancelled | Deadline | Busy

datatype monitor_read = MonitorLive monitor_snapshot | MonitorStale read_reason | MonitorUnavailable read_reason

text \<open>The schema admits only readable times; a comparison with \<open>NaN\<close> is false, so an unreadable one would count
  as fresh.\<close>

definition validateLiveness :: "(nat \<Rightarrow> bool) \<Rightarrow> monitor_snapshot \<Rightarrow> int \<Rightarrow> monitor_read" where
  "validateLiveness alive s now =
     (if \<not> alive (mn_pid s) then MonitorUnavailable ProducerStopped
      else case date_parse (mn_observedAt s) of
        None \<Rightarrow> MonitorLive s
      | Some obs \<Rightarrow> (let age = now - obs in
          if age < 0 then MonitorStale ClockSkew
          else if age > STATUS_MAX_AGE_MS then MonitorStale Expired else MonitorLive s))"

definition validateSnapshot :: "(nat \<Rightarrow> bool) \<Rightarrow> monitor_snapshot option \<Rightarrow> string \<Rightarrow> int \<Rightarrow> monitor_read" where
  "validateSnapshot alive parsed rcPrefix now = (case parsed of
      None \<Rightarrow> MonitorUnavailable Invalid
    | Some s \<Rightarrow> if mn_rcPrefix s \<noteq> rcPrefix then MonitorUnavailable Invalid else validateLiveness alive s now)"

lemma live_is_fresh:
  assumes "validateLiveness alive s now = MonitorLive s'" "mn_observedAt s = Instant obs"
  shows "s' = s \<and> alive (mn_pid s) \<and> 0 \<le> now - obs \<and> now - obs \<le> STATUS_MAX_AGE_MS"
  using assms by (auto simp: validateLiveness_def Let_def split: if_splits)

text \<open>One read of the file between two reads of the configuration.\<close>

record file_reads =
  fr_config :: "read_reason + string"
  fr_bytes :: "read_reason + monitor_snapshot option"
  fr_after :: "read_reason + string"

definition readConfig :: "read_reason + string \<Rightarrow> read_reason + string" where
  "readConfig r = (case r of Inl Missing \<Rightarrow> Inr ''{}'' | _ \<Rightarrow> r)"

text \<open>\<open>locate\<close> resolves a configuration text to the state directory and the machine's name.\<close>

definition readOnce :: "(nat \<Rightarrow> bool) \<Rightarrow> (string \<Rightarrow> (string \<times> string) option) \<Rightarrow> bool \<Rightarrow> file_reads \<Rightarrow> int \<Rightarrow> monitor_read" where
  "readOnce alive locate samePath r now = (case readConfig (fr_config r) of
      Inl e \<Rightarrow> MonitorUnavailable e
    | Inr config \<Rightarrow> (case locate config of
        None \<Rightarrow> MonitorUnavailable Invalid
      | Some (dir, rc) \<Rightarrow> (case fr_bytes r of
          Inl e \<Rightarrow> MonitorUnavailable e
        | Inr parsed \<Rightarrow> (case readConfig (fr_after r) of
            Inl e \<Rightarrow> MonitorUnavailable e
          | Inr after \<Rightarrow> (case locate after of
              None \<Rightarrow> MonitorUnavailable Invalid
            | Some next' \<Rightarrow>
                (if \<not> samePath \<or> config \<noteq> after \<or> next' \<noteq> (dir, rc) then MonitorUnavailable ConfigChanged
                 else validateSnapshot alive parsed rc now))))))"

subsection \<open>The shared door\<close>

definition MONITORING_MAX_READERS :: nat where "MONITORING_MAX_READERS = 128"

text \<open>The callers that wait, whether a read is under way, and every answer in order.\<close>

record door =
  dr_pending :: "nat list"
  dr_active :: bool
  dr_answers :: "(nat \<times> monitor_read) list"

definition finish :: "nat \<Rightarrow> monitor_read \<Rightarrow> door \<Rightarrow> door" where
  "finish c r d = (if c \<in> set (dr_pending d)
     then d\<lparr>dr_pending := filter (\<lambda>x. x \<noteq> c) (dr_pending d), dr_answers := dr_answers d @ [(c, r)]\<rparr> else d)"

definition call_door :: "nat \<Rightarrow> bool \<Rightarrow> bool \<Rightarrow> door \<Rightarrow> door" where
  "call_door c valid gone d =
     (if \<not> valid then d\<lparr>dr_answers := dr_answers d @ [(c, MonitorUnavailable Invalid)]\<rparr>
      else if gone then d\<lparr>dr_answers := dr_answers d @ [(c, MonitorUnavailable Cancelled)]\<rparr>
      else if length (dr_pending d) \<ge> MONITORING_MAX_READERS
      then d\<lparr>dr_answers := dr_answers d @ [(c, MonitorUnavailable Busy)]\<rparr>
      else d\<lparr>dr_pending := dr_pending d @ [c], dr_active := True\<rparr>)"

text \<open>What a waiting caller gets from a finished read: \<open>gone\<close> and \<open>late\<close> are read again, and a snapshot is
  validated again at that moment.\<close>

definition delivered :: "(nat \<Rightarrow> bool) \<Rightarrow> monitor_read \<Rightarrow> bool \<Rightarrow> bool \<Rightarrow> bool \<Rightarrow> int \<Rightarrow> monitor_read" where
  "delivered alive result gone late later now =
     (if gone then MonitorUnavailable Cancelled
      else if late then MonitorUnavailable Deadline
      else if later then MonitorUnavailable Deadline
      else case result of MonitorLive s \<Rightarrow> validateLiveness alive s now | _ \<Rightarrow> result)"

inductive door_step :: "(nat \<Rightarrow> bool) \<Rightarrow> door \<Rightarrow> door \<Rightarrow> bool" for alive :: "nat \<Rightarrow> bool" where
  call: "c \<notin> set (dr_pending d) \<union> fst ` set (dr_answers d) \<Longrightarrow> door_step alive d (call_door c valid gone d)"
| cancel: "door_step alive d (finish c (MonitorUnavailable Cancelled) d)"
| timeout: "door_step alive d (finish c (MonitorUnavailable Deadline) d)"
| completes: "dr_active d \<Longrightarrow>
    door_step alive d (fold (\<lambda>c. finish c (delivered alive result (ab c) (late c) (later c) (now c))) (dr_pending d) (d\<lparr>dr_active := False\<rparr>))"

inductive door_reach :: "(nat \<Rightarrow> bool) \<Rightarrow> door \<Rightarrow> bool" for alive :: "nat \<Rightarrow> bool" where
  start: "door_reach alive \<lparr>dr_pending = [], dr_active = False, dr_answers = []\<rparr>"
| step: "door_reach alive d \<Longrightarrow> door_step alive d d' \<Longrightarrow> door_reach alive d'"

definition door_inv :: "door \<Rightarrow> bool" where
  "door_inv d = (distinct (dr_pending d @ map fst (dr_answers d)) \<and> length (dr_pending d) \<le> MONITORING_MAX_READERS)"

lemma finish_inv: "door_inv d \<Longrightarrow> door_inv (finish c r d)"
  by (auto simp: door_inv_def finish_def intro: order_trans [OF length_filter_le])

lemma finish_all_inv: "door_inv d \<Longrightarrow> door_inv (fold (\<lambda>c. finish c (f c)) cs d)"
  by (induction cs arbitrary: d) (simp_all add: finish_inv)

lemma call_inv: "door_inv d \<Longrightarrow> c \<notin> set (dr_pending d) \<union> fst ` set (dr_answers d) \<Longrightarrow> door_inv (call_door c valid gone d)"
  by (auto simp: door_inv_def call_door_def)

lemma door_step_inv: "door_step alive d d' \<Longrightarrow> door_inv d \<Longrightarrow> door_inv d'"
proof (induction rule: door_step.induct)
  case (completes d result ab late later now)
  have "door_inv (d\<lparr>dr_active := False\<rparr>)" using completes.prems by (simp add: door_inv_def)
  then show ?case by (rule finish_all_inv)
qed (simp_all add: call_inv finish_inv)

lemma door_reach_inv: "door_reach alive d \<Longrightarrow> door_inv d"
proof (induction rule: door_reach.induct)
  case start
  show ?case by (simp add: door_inv_def)
next
  case (step d d')
  then show ?case by (blast intro: door_step_inv)
qed

text \<open>A finished read leaves nobody waiting.\<close>

lemma finish_pending: "set (dr_pending (fold (\<lambda>c. finish c (f c)) cs d)) = set (dr_pending d) - set cs"
  by (induction cs arbitrary: d) (auto simp: finish_def)

lemma completion_answers_all:
  "dr_pending (fold (\<lambda>c. finish c (f c)) (dr_pending d) (d\<lparr>dr_active := False\<rparr>)) = []"
  using finish_pending [of f "dr_pending d" "d\<lparr>dr_active := False\<rparr>"] by simp

lemma delivered_live:
  assumes "delivered alive result gone late later now = MonitorLive s" "mn_observedAt s = Instant obs"
  shows "alive (mn_pid s) \<and> 0 \<le> now - obs \<and> now - obs \<le> STATUS_MAX_AGE_MS"
proof -
  from assms(1) obtain s' where "validateLiveness alive s' now = MonitorLive s"
    by (auto simp: delivered_def split: if_splits monitor_read.splits)
  moreover from this have "s' = s" by (auto simp: validateLiveness_def Let_def split: if_splits option.splits)
  ultimately show ?thesis using live_is_fresh [OF _ assms(2)] by blast
qed

end
