(* ===== verification/SupervisionProperties.thy ===== *)
theory SupervisionProperties
  imports Samples ObserveInv Monitoring
begin

text \<open>
  What a reader of the machine's own reports may rely on: the ends of turns and the menus the supervisor
  announces, the event feed, the inventory by changes and the shared monitoring read.
\<close>

subsection \<open>Events\<close>

text \<open>C13: While a session's turns follow each other in time, the end of a turn that no hook ended is announced
  at most once, over any passes of the supervisor.\<close>

theorem turn_end_announced_once:
  assumes "sorted (starts fs)"
  shows "length (filter (announces_end t) (session_passes enabled fs prev)) \<le> 1"
  by (rule ended_once [OF assms])

definition quiet_facts :: "int \<Rightarrow> pane_state \<Rightarrow> observe_facts" where
  "quiet_facts now state = \<lparr>of_running = True, of_native = None, of_nativeStarted = (\<lambda>_. Instant 0),
     of_pane = Some \<lparr>ps_state = state, ps_ready = True, ps_atPrompt = None\<rparr>, of_inspects = True,
     of_message = None, of_activity = Some 2000, of_block = None,
     of_lifecycle = Some \<lparr>lc_state = LiveWorking, lc_ts = 1000, lc_event = ''UserPromptSubmit''\<rparr>, of_now = now\<rparr>"

lemma quiet_starts: "start_of (quiet_facts now state) = Some 1000"
  by (simp add: start_of_def observe_def quiet_facts_def claimed_turn_def Let_def)

definition seen_turn :: "int option \<Rightarrow> observed" where
  "seen_turn over = \<lparr>ob_running = True, ob_waitingAt = None, ob_blocked = None, ob_turnStartedMs = Some 1000,
     ob_turnOverMs = over, ob_turnInterrupted = (over \<noteq> None), ob_paneWorkingMs = Some 3000, ob_turnClosedFor = None\<rparr>"

lemma working_seen: "observe (quiet_facts 3000 PaneWorking) None = seen_turn None"
  by (simp add: observe_def quiet_facts_def claimed_turn_def pane_turn_def turnState_def turn_def seen_turn_def Let_def)

lemma quiet_seen:
  "observe (quiet_facts 70000 PaneIdle) (Some 3000) = seen_turn (Some 2000)"
  "observe (quiet_facts 90000 PaneIdle) (Some 3000) = seen_turn (Some 2000)"
  by (simp_all add: observe_def quiet_facts_def claimed_turn_def pane_turn_def turnState_def turn_def seen_turn_def Let_def
      lastSignOfLife_def SETTLE_MS_def INTERRUPTED_MS_def assistantEndedCurrentTurn_def)

theorem turn_end_announced_once_witness:
  "let fs = [(quiet_facts 3000 PaneWorking, None), (quiet_facts 70000 PaneIdle, None), (quiet_facts 90000 PaneIdle, None)]
   in length (filter (announces_end 1000) (session_passes True fs UNSEEN)) \<le> 1
     \<and> map (announces_end 1000) (session_passes True fs UNSEEN) = [False, True, False]"
proof -
  let ?fs = "[(quiet_facts 3000 PaneWorking, None), (quiet_facts 70000 PaneIdle, None), (quiet_facts 90000 PaneIdle, None)]"
  have "sorted (starts ?fs)" by (simp add: starts_def map_filter_simps quiet_starts)
  moreover have "map (announces_end 1000) (session_passes True ?fs UNSEEN) = [False, True, False]"
    by (simp add: observe_session_def Let_def seen_turn_def working_seen quiet_seen announces_end_def transitions_def ends_turn_def
        shouldCloseTurn_def or_else_def)
  ultimately show ?thesis using turn_end_announced_once [of ?fs 1000 True UNSEEN] by (simp add: Let_def)
qed

text \<open>The menu a session waits at is at every moment what the events say: the last one announced with no
  resumption or stop after it, over any passes of a daemon that announces them.\<close>

lemma menu_state_is_tracked:
  "fold track_menu (concat (map os_events (session_passes True fs UNSEEN))) None
     = ob_waitingAt (last (UNSEEN # map os_memory (session_passes True fs UNSEEN)))"
  using menu_tracked [of UNSEEN fs] by (simp add: quiet_when_stopped_def)

text \<open>C40: Every event the supervisor announces for a registered session passes the schema of the feed, so none
  of them is lost for its shape.\<close>

theorem announced_events_are_typed:
  assumes "e \<in> set (os_events (observe_session enabled f onDisk prev))"
    and "uuid i" "uuid thread" "RC_PREFIX_RE machine" "SESSION_NAME_RE name"
  shows "\<exists>ev. buildEvent uuid machine (name, agent, thread) e i (Instant now) = Some ev \<and> ev_input ev = e"
proof -
  have "e \<in> set (transitions prev (observe f (or_else (ob_paneWorkingMs prev) onDisk)))"
    using assms(1) by (simp add: observe_session_def Let_def split: if_splits)
  then have "(case em_duration e of None \<Rightarrow> True | Some d \<Rightarrow> d \<ge> 0) \<and> em_row e = None"
    by (auto simp: transitions_def emit_def split: if_splits)
  with assms(2-) show ?thesis by (auto simp: buildEvent_def event_ok_def split: option.splits)
qed

theorem announced_events_are_typed_witness:
  "\<exists>ev. buildEvent (\<lambda>u. length u = 2) ''m1'' (''s1'', Claude, ''t1'') (emit SessionStop) ''e1'' (Instant 5) = Some ev
     \<and> ev_input ev = emit SessionStop"
proof -
  let ?f = "(quiet_facts 3000 PaneIdle)\<lparr>of_running := False\<rparr>" and ?p = "UNSEEN\<lparr>ob_running := True\<rparr>"
  have "emit SessionStop \<in> set (os_events (observe_session True ?f None ?p))"
    by (simp add: observe_session_def Let_def transitions_def observe_def)
  moreover have "RC_PREFIX_RE ''m1''" "SESSION_NAME_RE ''s1''" by code_simp+
  ultimately show ?thesis using announced_events_are_typed [of "emit SessionStop" True ?f None ?p "\<lambda>u. length u = 2" "''e1''" "''t1''"] by simp
qed

text \<open>The feed holds the newest records in the order they were appended, all of them until the first
  rotation, and no file of it exceeds the limit by more than one record.\<close>

lemma feed_keeps_the_newest:
  assumes "\<forall>e\<in>set es. bytes e \<le> b" "0 < b"
  shows "suffix (concat (feedFiles (fold (appendRecord bytes) es Map.empty))) es
    \<and> (file_size bytes es < MAX_BYTES \<longrightarrow> concat (feedFiles (fold (appendRecord bytes) es Map.empty)) = es)
    \<and> (\<forall>g xs. fold (appendRecord bytes) es Map.empty g = Some xs \<longrightarrow> file_size bytes xs < MAX_BYTES + b)"
  using feed_run_suffix [of bytes es] feed_run_bounded [OF assms] by (simp add: feed_run_def)


subsection \<open>Inventory\<close>

text \<open>C12: A consumer that reads the published snapshot at any moment and then applies the events of the feed by
  the rule of the module, however they were lost, repeated or reordered on the way and whatever pass broke
  off at an event that failed its schema, either is told to take a new snapshot or holds exactly the
  publisher's rows as soon as it counts as many changes.\<close>

theorem inventory_replay_is_exact:
  assumes "\<forall>v\<in>set (before @ afterwards). distinct (map ir_name (pe_pass v))"
    and "publish_run le before (new_publisher g pid) = (es, p)" "publish_run le afterwards p = (es', p')"
    and "pb_file p = Some s" "set received \<subseteq> set es \<union> set es'" "receive_changes received (hold s) = Some h"
  shows "hd_sequence h \<le> pb_sequence p' \<and> (hd_sequence h = pb_sequence p' \<longrightarrow> hd_rows h = map_of (pb_current p'))"
proof -
  have "publisher_inv [Map.empty] (new_publisher g pid)"
    by (auto simp: publisher_inv_def new_publisher_def rows_map_def intro: exI [of _ "[]"])
  then obtain a where a: "publisher_inv ([Map.empty] @ a) p" "\<forall>e\<in>set es. leads g ([Map.empty] @ a) e" "pb_generation p = g"
    using publish_run_inv [of "[Map.empty]" "new_publisher g pid" before le es p] assms(1,2) by (auto simp: new_publisher_def)
  then obtain b where b: "publisher_inv (([Map.empty] @ a) @ b) p'" "\<forall>e\<in>set es'. leads g (([Map.empty] @ a) @ b) e"
    using publish_run_inv [of "[Map.empty] @ a" p afterwards le es' p'] assms(1,3) by auto
  let ?states = "([Map.empty] @ a) @ b"
  have "\<forall>e\<in>set received. leads g ?states e" using a(2) b(2) assms(5) leads_more by blast
  moreover have "hd_generation (hold s) = g" "hd_rows (hold s) = ?states ! hd_sequence (hold s)" "hd_sequence (hold s) < length ?states"
    using a(1,3) assms(4) nth_append [of "[Map.empty] @ a" b "iv_sequence s"]
    by (auto simp: publisher_inv_def hold_def simp del: append_Cons)
  ultimately have "hd_rows h = ?states ! hd_sequence h \<and> hd_sequence h < length ?states"
    using assms(6) by (rule receive_exact)
  with b(1) show ?thesis by (auto simp: publisher_inv_def)
qed

definition a_row :: "string \<Rightarrow> string \<Rightarrow> inventory_row" where
  "a_row name state = \<lparr>ir_name = name, ir_agent = Claude, ir_uuid = ''u'', ir_address = ''a'', ir_archived = False,
     ir_running = True, ir_state = state, ir_model = None, ir_context = None, ir_startedAt = None,
     ir_turnStartedAt = None, ir_step = None\<rparr>"

definition a_pass :: "inventory_row list \<Rightarrow> publish_env" where
  "a_pass rows = \<lparr>pe_on = True, pe_uuid = (\<lambda>_. True), pe_machine = ''m1'', pe_ids = (\<lambda>_. ''e''), pe_now = Instant 0,
     pe_written = (\<lambda>_. True), pe_pass = rows\<rparr>"

theorem inventory_replay_is_exact_witness:
  "let (es, p) = publish_run (\<lambda>_ _. True) [a_pass [a_row ''s1'' ''idle'']] (new_publisher ''g'' 7);
       (es', p') = publish_run (\<lambda>_ _. True) [a_pass [a_row ''s1'' ''working'', a_row ''s2'' ''idle'']] p;
       h = receive_changes (es' @ es) (hold (the (pb_file p)))
   in h \<noteq> None \<and> hd_sequence (the h) = pb_sequence p' \<and> hd_rows (the h) = map_of (pb_current p')"
proof -
  let ?a = "[a_pass [a_row ''s1'' ''idle'']]" and ?b = "[a_pass [a_row ''s1'' ''working'', a_row ''s2'' ''idle'']]"
  define x y where "x = publish_run (\<lambda>_ _. True) ?a (new_publisher ''g'' 7)" and "y = publish_run (\<lambda>_ _. True) ?b (snd x)"
  have d: "\<forall>v\<in>set (?a @ ?b). distinct (map ir_name (pe_pass v))" by (simp add: a_row_def a_pass_def)
  have f: "pb_file (snd x) = Some (the (pb_file (snd x)))"
    unfolding x_def by code_simp
  have s: "map_option hd_sequence (receive_changes (fst y @ fst x) (hold (the (pb_file (snd x))))) = Some (pb_sequence (snd y))"
    unfolding x_def y_def by code_simp
  then obtain h where h: "receive_changes (fst y @ fst x) (hold (the (pb_file (snd x)))) = Some h"
    "hd_sequence h = pb_sequence (snd y)" by auto
  from inventory_replay_is_exact [OF d _ _ f _ h(1), of "\<lambda>_ _. True" "''g''" 7 "fst x" "fst y" "snd y"] h show ?thesis
    by (auto simp: Let_def x_def y_def split: prod.splits)
qed

subsection \<open>Monitoring\<close>

text \<open>A caller of the shared monitoring read is answered once: nobody gets a second answer or waits after
  one, at most as many wait as the door admits, and the end of a read leaves nobody waiting.\<close>

lemma reader_answered_once:
  assumes "door_reach alive d"
  shows "distinct (dr_pending d @ map fst (dr_answers d)) \<and> length (dr_pending d) \<le> MONITORING_MAX_READERS
    \<and> dr_pending (fold (\<lambda>c. finish c (delivered alive result (gone c) (late c) (late2 c) (now c))) (dr_pending d)
        (d\<lparr>dr_active := False\<rparr>)) = []"
  using door_reach_inv [OF assms] completion_answers_all by (simp add: door_inv_def)


end
