(* ===== verification/AppAuthority.thy ===== *)
theory AppAuthority
  imports Origin
begin

text \<open>
  The authority of an application's run (\<open>src/delegation/application.ts\<close>, \<open>applicationSchema.ts\<close>): a leased,
  renewable and revocable row that every child of the run depends on.  Times are milliseconds, \<open>iso_text\<close> gives
  their text; a path is the list of its segments; \<open>digest\<close>, \<open>fp\<close> and the canonical paths of the host are
  arguments.  Each locked operation is one step on the store of rows.
\<close>

datatype access = ReadOnly | WorkspaceWrite | FullAccess

type_synonym path = "string list"

record policy =
  po_access :: access
  po_workspace :: path

record issuer_binding =
  ib_attribution :: attribution
  ib_revision :: string

record authority_grant =
  ag_binding :: issuer_binding
  ag_policy :: policy
  ag_leaseMs :: int
  ag_lifetimeMs :: int

record app_parent =
  pa_machine :: string
  pa_application :: string
  pa_authority :: string

record app_selector =
  se_target :: app_parent
  se_generation :: string

record authority_open =
  oi_operation :: string
  oi_binding :: issuer_binding
  oi_conversation :: string
  oi_run :: string
  oi_sourceRef :: string
  oi_quote :: string

record authority_operation =
  ao_id :: string
  ao_fingerprint :: string
  ao_expiresAt :: int
  ao_closedAt :: "int option"
  ao_last :: string

record authority =
  ay_open :: authority_open
  ay_parent :: app_selector
  ay_caller :: string
  ay_digest :: string
  ay_policy :: policy
  ay_issuedAt :: int
  ay_expiresAt :: int
  ay_deadlineAt :: int
  ay_closedAt :: "int option"
  ay_last :: string
  ay_operations :: "authority_operation list"

record authority_update =
  ui_parent :: app_selector
  ui_operation :: string
  ui_expected :: "string option"

datatype delegation_error = DelegationRefused string | OriginRefused origin_refusal | IdentityMismatch | NotThere | CallAborted | StopTooLarge

record app_env =
  ae_prefix :: string
  ae_grants :: "authority_grant list"
  ae_applications :: "string \<rightharpoonup> app_binding"
  ae_digest :: "app_binding \<Rightarrow> string"
  ae_canonical :: "path \<Rightarrow> bool"
  ae_now :: int

type_synonym authorities = "string \<rightharpoonup> authority"

definition authority_receipt :: "authority \<Rightarrow> authority" where
  "authority_receipt row = row\<lparr>ay_operations := []\<rparr>"

definition issuer_grant :: "app_env \<Rightarrow> principal \<Rightarrow> issuer_binding \<Rightarrow> delegation_error + authority_grant \<times> string" where
  "issuer_grant e who b =
     (case admitMessageOrigin (ae_digest e) (ae_applications e) who (Some (ib_attribution b)) Conversation of
        Inl r \<Rightarrow> Inl (OriginRefused r)
      | Inr origin \<Rightarrow>
          (case List.find (\<lambda>g. ag_binding g = b) (ae_grants e) of
             None \<Rightarrow> Inl (DelegationRefused ''Application authority binding is unavailable'')
           | Some g \<Rightarrow>
               (if map_option as_revision (o_application origin) \<noteq> Some (ib_revision b)
                then Inl (DelegationRefused ''Application authority binding is unavailable'')
                else if \<not> ae_canonical e (po_workspace (ag_policy g))
                then Inl (DelegationRefused ''Application authority workspace must be canonical'')
                else Inr (g, as_digest (the (o_application origin))))))"

definition applicationAuthorityCapabilities :: "app_env \<Rightarrow> principal \<Rightarrow> authority_grant list" where
  "applicationAuthorityCapabilities e who =
     filter (\<lambda>g. case issuer_grant e who (ag_binding g) of Inl _ \<Rightarrow> False | Inr _ \<Rightarrow> True) (ae_grants e)"

definition issuer :: "app_env \<Rightarrow> principal \<Rightarrow> authority \<Rightarrow> delegation_error + authority_grant" where
  "issuer e who row = bind_result (issuer_grant e who (oi_binding (ay_open row))) (\<lambda>(g, digest).
     (case who of
        FromService machine _ \<Rightarrow>
          (if machine \<noteq> ay_caller row \<or> digest \<noteq> ay_digest row \<or> ag_policy g \<noteq> ay_policy row
           then Inl (DelegationRefused ''Application authority issuer changed'') else Inr g)
      | _ \<Rightarrow> Inl (DelegationRefused ''Application authority issuer changed'')))"

definition exact :: "app_env \<Rightarrow> app_selector \<Rightarrow> authorities \<Rightarrow> delegation_error + authority" where
  "exact e parent store = (case store (pa_authority (se_target parent)) of
      None \<Rightarrow> Inl (DelegationRefused ''Application parent authority is unavailable'')
    | Some row \<Rightarrow> if ay_parent row \<noteq> parent \<or> pa_machine (se_target parent) \<noteq> ae_prefix e
        then Inl (DelegationRefused ''Application parent authority is unavailable'') else Inr row)"

definition active :: "int \<Rightarrow> authority \<Rightarrow> bool" where
  "active now row = (ay_closedAt row = None \<and> now < ay_expiresAt row \<and> now < ay_deadlineAt row)"

definition require_active :: "int \<Rightarrow> authority \<Rightarrow> delegation_error + unit" where
  "require_active now row = (if active now row then Inr () else Inl (DelegationRefused ''Application parent authority has ended''))"

text \<open>The generation of a new row is a fresh one.\<close>

definition new_authority :: "app_env \<Rightarrow> string \<Rightarrow> authority_grant \<Rightarrow> string \<Rightarrow> string \<Rightarrow> authority_open \<Rightarrow> authority" where
  "new_authority e machine g digest gen input =
     \<lparr>ay_open = input,
        ay_parent = \<lparr>se_target = \<lparr>pa_machine = ae_prefix e, pa_application = at_application (ib_attribution (oi_binding input)),
        pa_authority = oi_operation input\<rparr>, se_generation = gen\<rparr>,
        ay_caller = machine, ay_digest = digest, ay_policy = ag_policy g, ay_issuedAt = ae_now e,
        ay_expiresAt = ae_now e + min (ag_leaseMs g) (ag_lifetimeMs g),
        ay_deadlineAt = ae_now e + ag_lifetimeMs g, ay_closedAt = None, ay_last = oi_operation input,
        ay_operations = []\<rparr>"

definition openApplicationAuthority ::
  "app_env \<Rightarrow> principal \<Rightarrow> authority_open \<Rightarrow> string \<Rightarrow> authorities \<Rightarrow> delegation_error + authority \<times> authorities" where
  "openApplicationAuthority e who input gen store = bind_result (issuer_grant e who (oi_binding input)) (\<lambda>(g, digest).
     (case who of
        FromService machine _ \<Rightarrow>
          (case store (oi_operation input) of
             Some prior \<Rightarrow> bind_result (issuer e who prior) (\<lambda>_.
               (if ay_open prior \<noteq> input then Inl (DelegationRefused ''Application authority operation conflicts'')
                else bind_result (require_active (ae_now e) prior) (\<lambda>_. Inr (authority_receipt prior, store))))
           | None \<Rightarrow>
               (let row = new_authority e machine g digest gen input
                in Inr (authority_receipt row, store(oi_operation input \<mapsto> row))))
      | _ \<Rightarrow> Inl (DelegationRefused ''Application issuer must be a service'')))"

definition record_operation :: "string \<Rightarrow> string \<Rightarrow> authority \<Rightarrow> authority" where
  "record_operation i fingerprint row = row\<lparr>ay_last := i,
     ay_operations := ay_operations row @ [\<lparr>ao_id = i, ao_fingerprint = fingerprint, ao_expiresAt = ay_expiresAt row,
       ao_closedAt = ay_closedAt row, ao_last = i\<rparr>]\<rparr>"

definition replayed :: "authority_operation \<Rightarrow> authority \<Rightarrow> authority" where
  "replayed p row = (authority_receipt row)\<lparr>ay_expiresAt := ao_expiresAt p, ay_closedAt := ao_closedAt p, ay_last := ao_last p\<rparr>"

definition updateApplicationAuthority ::
  "app_env \<Rightarrow> (authority_update \<times> bool \<Rightarrow> string) \<Rightarrow> (int \<Rightarrow> string) \<Rightarrow> principal \<Rightarrow> authority_update \<Rightarrow> bool \<Rightarrow> authorities
     \<Rightarrow> delegation_error + authority \<times> authorities" where
  "updateApplicationAuthority e fp iso_text who input close store =
     bind_result (exact e (ui_parent input) store) (\<lambda>row.
     bind_result (issuer e who row) (\<lambda>g.
       (if ui_operation input = oi_operation (ay_open row)
        then Inl (DelegationRefused ''Application authority operation conflicts with open'')
        else case List.find (\<lambda>p. ao_id p = ui_operation input) (ay_operations row) of
          Some p \<Rightarrow> (if ao_fingerprint p \<noteq> fp (input, close)
              then Inl (DelegationRefused ''Application authority operation conflicts'') else Inr (replayed p row, store))
        | None \<Rightarrow>
          (if length (ay_operations row) \<ge> 4097
           then Inl (DelegationRefused ''Application authority operation capacity reached'')
           else bind_result
             (if close then Inr (row\<lparr>ay_closedAt := Some (nullish (ay_closedAt row) (ae_now e))\<rparr>)
              else bind_result (require_active (ae_now e) row) (\<lambda>_.
                (if length (ay_operations row) \<ge> 4096
                 then Inl (DelegationRefused ''Application authority operation capacity reached'')
                 else if ui_expected input \<noteq> Some (iso_text (ay_expiresAt row))
                 then Inl (DelegationRefused ''Application authority renewal revision is stale'')
                 else Inr (row\<lparr>ay_expiresAt := min (ae_now e + ag_leaseMs g) (ay_deadlineAt row)\<rparr>))))
             (\<lambda>changed. let row' = record_operation (ui_operation input) (fp (input, close)) changed
                in Inr (authority_receipt row', store(pa_authority (se_target (ay_parent row)) \<mapsto> row')))))))"

definition requireApplicationAuthority ::
  "app_env \<Rightarrow> principal option \<Rightarrow> app_selector \<Rightarrow> bool \<Rightarrow> authorities \<Rightarrow> delegation_error + authority" where
  "requireApplicationAuthority e who parent allowEnded store =
     bind_result (exact e parent store) (\<lambda>row.
       (case who of None \<Rightarrow> Inl (DelegationRefused ''Application issuer is required'')
        | Some p \<Rightarrow> bind_result (issuer e p row) (\<lambda>_.
            bind_result (if allowEnded then Inr () else require_active (ae_now e) row) (\<lambda>_. Inr row))))"

definition applicationAuthorityEnded :: "app_env \<Rightarrow> app_selector \<Rightarrow> authorities \<Rightarrow> bool" where
  "applicationAuthorityEnded e parent store = (case store (pa_authority (se_target parent)) of
      None \<Rightarrow> True
    | Some row \<Rightarrow> if ay_parent row \<noteq> parent then True
        else (case issuer e (FromService (ay_caller row) TransportLocal) row of
            Inl _ \<Rightarrow> True | Inr _ \<Rightarrow> \<not> active (ae_now e) row))"

definition requireApplicationInput ::
  "app_env \<Rightarrow> principal \<Rightarrow> app_selector \<Rightarrow> attribution option \<Rightarrow> authorization option \<Rightarrow> authorities \<Rightarrow> delegation_error + unit" where
  "requireApplicationInput e who parent origin evidence store =
     bind_result (requireApplicationAuthority e (Some who) parent False store) (\<lambda>row.
       (if origin = Some (ib_attribution (oi_binding (ay_open row)))
          \<and> (case evidence of None \<Rightarrow> False | Some a \<Rightarrow> au_basis a = Some UserInstruction
               \<and> au_ref a = oi_sourceRef (ay_open row) \<and> au_quote a = Some (oi_quote (ay_open row)))
        then Inr () else Inl (DelegationRefused ''Application input does not match its attested human authorization'')))"

subsection \<open>The life of an authority\<close>

datatype authority_op =
  OpenAuthority app_env principal authority_open string
| UpdateAuthority app_env "authority_update \<times> bool \<Rightarrow> string" "int \<Rightarrow> string" principal authority_update bool

definition authority_step :: "authority_op \<Rightarrow> authorities \<Rightarrow> authorities" where
  "authority_step x store = (case (case x of
        OpenAuthority e who input gen \<Rightarrow> openApplicationAuthority e who input gen store
      | UpdateAuthority e fp iso_text who input close \<Rightarrow> updateApplicationAuthority e fp iso_text who input close store) of
     Inl _ \<Rightarrow> store | Inr (_, store') \<Rightarrow> store')"

text \<open>A later row of the same authority: what it grants never grows, a deadline never moves, a closing stays.\<close>

definition row_le :: "authority \<Rightarrow> authority \<Rightarrow> bool" where
  "row_le a b = (ay_open b = ay_open a \<and> ay_parent b = ay_parent a \<and> ay_caller b = ay_caller a \<and> ay_digest b = ay_digest a
     \<and> ay_policy b = ay_policy a \<and> ay_deadlineAt b = ay_deadlineAt a
     \<and> (\<forall>t. ay_closedAt a = Some t \<longrightarrow> ay_closedAt b = Some t \<and> ay_expiresAt b = ay_expiresAt a)
     \<and> prefix (ay_operations a) (ay_operations b))"

definition authorities_le :: "authorities \<Rightarrow> authorities \<Rightarrow> bool" where
  "authorities_le s t = (\<forall>i a. s i = Some a \<longrightarrow> (\<exists>b. t i = Some b \<and> row_le a b))"

lemma authority_le_refl [simp]: "row_le a a"
  by (simp add: row_le_def)

lemma row_le_trans: "row_le a b \<Longrightarrow> row_le b c \<Longrightarrow> row_le a c"
  by (auto simp: row_le_def intro: prefix_order.trans)

text \<open>What an operation does to the store.\<close>

lemma open_cases:
  assumes "openApplicationAuthority e who input gen store = Inr (r, store')"
  obtains (again) "store' = store" "store (oi_operation input) \<noteq> None"
  | (fresh) machine transport g digest where "who = FromService machine transport"
      "issuer_grant e who (oi_binding input) = Inr (g, digest)" "store (oi_operation input) = None"
      "store' = store(oi_operation input \<mapsto> new_authority e machine g digest gen input)"
      "r = authority_receipt (new_authority e machine g digest gen input)"
proof -
  obtain g digest where g: "issuer_grant e who (oi_binding input) = Inr (g, digest)"
    using assms by (auto simp: openApplicationAuthority_def bind_result_Inr_iff)
  show ?thesis
  proof (cases "store (oi_operation input)")
    case None
    with assms g fresh show ?thesis
      by (cases who) (auto simp: openApplicationAuthority_def Let_def)
  next
    case (Some prior)
    with assms g have "store' = store"
      by (cases who) (auto simp: openApplicationAuthority_def bind_result_Inr_iff split: if_splits)
    with Some again show ?thesis by blast
  qed
qed

lemma update_cases:
  assumes "updateApplicationAuthority e fp iso_text who input close store = Inr (r, store')"
  obtains (again) row p where "store' = store" "store (pa_authority (se_target (ui_parent input))) = Some row"
      "List.find (\<lambda>p. ao_id p = ui_operation input) (ay_operations row) = Some p" "ao_fingerprint p = fp (input, close)"
      "r = replayed p row"
  | (closes) row where "close" "store (pa_authority (se_target (ui_parent input))) = Some row" "ay_parent row = ui_parent input"
      "List.find (\<lambda>p. ao_id p = ui_operation input) (ay_operations row) = None" "length (ay_operations row) < 4097"
      "ui_operation input \<noteq> oi_operation (ay_open row)"
      "store' = store(pa_authority (se_target (ui_parent input)) \<mapsto> record_operation (ui_operation input) (fp (input, close))
         (row\<lparr>ay_closedAt := Some (nullish (ay_closedAt row) (ae_now e))\<rparr>))"
  | (renews) row g where "\<not> close" "store (pa_authority (se_target (ui_parent input))) = Some row" "ay_parent row = ui_parent input"
      "List.find (\<lambda>p. ao_id p = ui_operation input) (ay_operations row) = None" "length (ay_operations row) < 4096"
      "ui_operation input \<noteq> oi_operation (ay_open row)"
      "active (ae_now e) row" "issuer e who row = Inr g" "ui_expected input = Some (iso_text (ay_expiresAt row))"
      "store' = store(pa_authority (se_target (ui_parent input)) \<mapsto> record_operation (ui_operation input) (fp (input, close))
         (row\<lparr>ay_expiresAt := min (ae_now e + ag_leaseMs g) (ay_deadlineAt row)\<rparr>))"
proof -
  obtain row g where row: "store (pa_authority (se_target (ui_parent input))) = Some row" "ay_parent row = ui_parent input"
    "exact e (ui_parent input) store = Inr row" and g: "issuer e who row = Inr g"
    using assms by (auto simp: updateApplicationAuthority_def bind_result_Inr_iff exact_def split: option.splits if_splits)
  have fresh_id: "ui_operation input \<noteq> oi_operation (ay_open row)"
    using assms row g by (auto simp: updateApplicationAuthority_def)
  show ?thesis
  proof (cases "List.find (\<lambda>p. ao_id p = ui_operation input) (ay_operations row)")
    case (Some p)
    with assms row(3) g fresh_id have "store' = store" "ao_fingerprint p = fp (input, close)" "r = replayed p row"
      by (auto simp: updateApplicationAuthority_def split: if_splits)
    with again row(1) Some show ?thesis by blast
  next
    case None
    show ?thesis
    proof (cases close)
      case True
      with assms row g fresh_id None have "length (ay_operations row) < 4097"
        "store' = store(pa_authority (se_target (ui_parent input)) \<mapsto> record_operation (ui_operation input) (fp (input, close))
         (row\<lparr>ay_closedAt := Some (nullish (ay_closedAt row) (ae_now e))\<rparr>))"
        by (auto simp: updateApplicationAuthority_def Let_def split: if_splits)
      with closes True row(1,2) None fresh_id show ?thesis by blast
    next
      case False
      with assms row g fresh_id None have "length (ay_operations row) < 4096" "active (ae_now e) row"
        "ui_expected input = Some (iso_text (ay_expiresAt row))"
        "store' = store(pa_authority (se_target (ui_parent input)) \<mapsto> record_operation (ui_operation input) (fp (input, close))
         (row\<lparr>ay_expiresAt := min (ae_now e + ag_leaseMs g) (ay_deadlineAt row)\<rparr>))"
        by (auto simp: updateApplicationAuthority_def Let_def require_active_def bind_result_Inr_iff split: if_splits)
      with renews False row(1,2) None fresh_id g show ?thesis by blast
    qed
  qed
qed

lemma authority_step_le: "authorities_le store (authority_step x store)"
proof (cases x)
  case (OpenAuthority e who input gen)
  show ?thesis
  proof (cases "openApplicationAuthority e who input gen store")
    case (Inr y)
    obtain r store' where y: "y = (r, store')" by force
    have "authority_step x store = store'" by (simp add: authority_step_def OpenAuthority Inr y)
    with Inr [unfolded y] show ?thesis
      by (cases rule: open_cases) (auto simp: authorities_le_def)
  qed (auto simp: authority_step_def OpenAuthority authorities_le_def)
next
  case (UpdateAuthority e fp iso_text who input close)
  show ?thesis
  proof (cases "updateApplicationAuthority e fp iso_text who input close store")
    case (Inr y)
    obtain r store' where y: "y = (r, store')" by force
    have "authority_step x store = store'" by (simp add: authority_step_def UpdateAuthority Inr y)
    with Inr [unfolded y] show ?thesis
      by (cases rule: update_cases) (auto simp: authorities_le_def row_le_def record_operation_def active_def)
  qed (auto simp: authority_step_def UpdateAuthority authorities_le_def)
qed

lemma authorities_le_trans:
  assumes "authorities_le s t" "authorities_le t u"
  shows "authorities_le s u"
  unfolding authorities_le_def
proof (intro allI impI)
  fix i a
  assume "s i = Some a"
  with assms(1) obtain b where b: "t i = Some b" "row_le a b" by (auto simp: authorities_le_def)
  from assms(2) b(1) obtain c where "u i = Some c" "row_le b c" by (auto simp: authorities_le_def)
  with row_le_trans [OF b(2)] show "\<exists>c. u i = Some c \<and> row_le a c" by blast
qed

interpretation authority_machine: monotone_machine authority_step authorities_le
proof
  fix s t u :: authorities and x
  show "authorities_le s s" by (simp add: authorities_le_def)
  show "authorities_le s t \<Longrightarrow> authorities_le t u \<Longrightarrow> authorities_le s u"
    by (rule authorities_le_trans)
  show "authorities_le s (authority_step x s)" by (rule authority_step_le)
qed

text \<open>Revocation is final: a row that was closed once, or is past its deadline, ends every dependent for good,
  whatever is asked of the store and however the configuration changes.\<close>

lemma ended_for_good:
  assumes "store (pa_authority (se_target parent)) = Some row" "ay_closedAt row \<noteq> None \<or> ay_deadlineAt row \<le> ae_now e"
  shows "applicationAuthorityEnded e parent (fold authority_step xs store)"
proof -
  from authority_machine.run_le [of store xs] assms(1) obtain row' where
    r: "fold authority_step xs store (pa_authority (se_target parent)) = Some row'" "row_le row row'"
    by (auto simp: authorities_le_def)
  then have "\<not> active (ae_now e) row'" using assms(2) by (auto simp: row_le_def active_def)
  with r(1) show ?thesis by (auto simp: applicationAuthorityEnded_def split: sum.split)
qed

subsection \<open>Bounds of a row\<close>

definition authority_ok :: "authority \<Rightarrow> bool" where
  "authority_ok row = (ay_expiresAt row \<le> ay_deadlineAt row \<and> length (ay_operations row) \<le> 4097
     \<and> (ay_closedAt row = None \<longrightarrow> length (ay_operations row) \<le> 4096)
     \<and> distinct (oi_operation (ay_open row) # map ao_id (ay_operations row))
     \<and> pa_authority (se_target (ay_parent row)) = oi_operation (ay_open row))"

definition authorities_ok :: "authorities \<Rightarrow> bool" where
  "authorities_ok store = (\<forall>i row. store i = Some row \<longrightarrow> authority_ok row \<and> i = oi_operation (ay_open row))"

lemma new_authority_ok:
  "authority_ok (new_authority e machine g digest gen input)" "ay_open (new_authority e machine g digest gen input) = input"
  by (simp_all add: authority_ok_def new_authority_def)

lemma authority_step_ok:
  assumes "authorities_ok store"
  shows "authorities_ok (authority_step x store)"
proof (cases x)
  case (OpenAuthority e who input gen)
  show ?thesis
  proof (cases "openApplicationAuthority e who input gen store")
    case (Inr y)
    obtain r store' where y: "y = (r, store')" by force
    have "authority_step x store = store'" by (simp add: authority_step_def OpenAuthority Inr y)
    with Inr [unfolded y] assms show ?thesis
      by (cases rule: open_cases) (auto simp: authorities_ok_def new_authority_ok)
  qed (use assms in \<open>auto simp: authority_step_def OpenAuthority\<close>)
next
  case (UpdateAuthority e fp iso_text who input close)
  show ?thesis
  proof (cases "updateApplicationAuthority e fp iso_text who input close store")
    case (Inr y)
    obtain r store' where y: "y = (r, store')" by force
    have s: "authority_step x store = store'" by (simp add: authority_step_def UpdateAuthority Inr y)
    from Inr [unfolded y] show ?thesis
    proof (cases rule: update_cases)
      case again
      with s assms show ?thesis by simp
    next
      case (closes row)
      then have "authority_ok row" "pa_authority (se_target (ui_parent input)) = oi_operation (ay_open row)"
        using assms by (auto simp: authorities_ok_def)
      moreover from this have "authority_ok (record_operation (ui_operation input) (fp (input, close))
         (row\<lparr>ay_closedAt := Some (nullish (ay_closedAt row) (ae_now e))\<rparr>))"
        using closes(4-6) by (auto simp: authority_ok_def record_operation_def find_None_iff)
      ultimately show ?thesis using assms by (auto simp: s closes(7) authorities_ok_def record_operation_def)
    next
      case (renews row g)
      then have "authority_ok row" "pa_authority (se_target (ui_parent input)) = oi_operation (ay_open row)"
        using assms by (auto simp: authorities_ok_def)
      moreover from this have "authority_ok (record_operation (ui_operation input) (fp (input, close))
         (row\<lparr>ay_expiresAt := min (ae_now e + ag_leaseMs g) (ay_deadlineAt row)\<rparr>))"
        using renews(4-7) by (auto simp: authority_ok_def record_operation_def find_None_iff active_def)
      ultimately show ?thesis using assms by (auto simp: s renews(10) authorities_ok_def record_operation_def)
    qed
  qed (use assms in \<open>auto simp: authority_step_def UpdateAuthority\<close>)
qed

interpretation authority_bounds: state_machine authority_step authorities_ok
  by unfold_locales (rule authority_step_ok)

text \<open>There is always room for the operation that closes an authority.\<close>

lemma closing_is_never_full:
  assumes "authorities_ok store" "store (pa_authority (se_target (ui_parent input))) = Some row" "ay_parent row = ui_parent input"
    and "pa_machine (se_target (ui_parent input)) = ae_prefix e" "issuer e who row = Inr g" "ay_closedAt row = None"
    and "ui_operation input \<notin> set (oi_operation (ay_open row) # map ao_id (ay_operations row))"
  shows "\<exists>r store' row'. updateApplicationAuthority e fp iso_text who input True store = Inr (r, store')
    \<and> store' (pa_authority (se_target (ui_parent input))) = Some row' \<and> ay_closedAt row' = Some (ae_now e)"
proof -
  let ?row = "record_operation (ui_operation input) (fp (input, True)) (row\<lparr>ay_closedAt := Some (ae_now e)\<rparr>)"
  let ?store = "store(pa_authority (se_target (ui_parent input)) \<mapsto> ?row)"
  have "length (ay_operations row) \<le> 4096" using assms(1,2,6) by (auto simp: authorities_ok_def authority_ok_def)
  moreover have "List.find (\<lambda>p. ao_id p = ui_operation input) (ay_operations row) = None"
    using assms(7) by (auto simp: find_None_iff image_iff)
  moreover have "exact e (ui_parent input) store = Inr row" using assms(2-4) by (simp add: exact_def)
  ultimately have "updateApplicationAuthority e fp iso_text who input True store = Inr (authority_receipt ?row, ?store)"
    using assms(3,5-7) by (simp add: updateApplicationAuthority_def Let_def)
  moreover have "?store (pa_authority (se_target (ui_parent input))) = Some ?row" "ay_closedAt ?row = Some (ae_now e)"
    by (simp_all add: record_operation_def)
  ultimately show ?thesis by blast
qed

end
