(* ===== verification/Delegation.thy ===== *)
theory Delegation
  imports AppAuthority Registry Processes
begin

text \<open>
  Delegated children (\<open>src/delegation/resolve.ts\<close>, \<open>schema.ts\<close>, \<open>cancel.ts\<close>): the policy a child may run with,
  and its cancellation.  \<open>path.relative\<close> on two canonical absolute paths is written on their segments.
\<close>

definition delegationRefused :: "string \<Rightarrow> delegation_error + 'a" where
  "delegationRefused message = Inl (DelegationRefused message)"

fun relative :: "path \<Rightarrow> path \<Rightarrow> path" where
  "relative [] b = b"
| "relative (x # a) [] = replicate (Suc (length a)) ''..''"
| "relative (x # a) (y # b) = (if x = y then relative a b else replicate (Suc (length a)) ''..'' @ (y # b))"

text \<open>\<open>part === ''\<close>, or neither \<open>..\<close> nor below it; a relative path is never absolute.\<close>

definition withinWorkspace :: "path \<Rightarrow> path \<Rightarrow> bool" where
  "withinWorkspace root p = (let part = relative root p in part = [] \<or> hd part \<noteq> ''..'')"

definition canonical_path :: "path \<Rightarrow> bool" where "canonical_path p = (''..'' \<notin> set p)"

lemma relative_prefix [simp]: "relative a (a @ b) = b" "relative a a = []"
  by (induction a) simp_all

lemma relative_other: "\<not> prefix a b \<Longrightarrow> relative a b \<noteq> [] \<and> hd (relative a b) = ''..''"
  by (induction a b rule: relative.induct) auto

lemma withinWorkspace_iff:
  assumes "canonical_path p"
  shows "withinWorkspace root p \<longleftrightarrow> prefix root p"
proof
  assume "withinWorkspace root p"
  then show "prefix root p" using relative_other [of root p] by (auto simp: withinWorkspace_def Let_def)
next
  assume "prefix root p"
  then obtain b where b: "p = root @ b" by (auto elim: prefixE)
  then have "''..'' \<notin> set b" using assms by (simp add: canonical_path_def)
  then show "withinWorkspace root p" by (cases b) (auto simp: b withinWorkspace_def Let_def relative_prefix)
qed

fun access_rank :: "access \<Rightarrow> nat" where
  "access_rank ReadOnly = 0" | "access_rank WorkspaceWrite = 1" | "access_rank FullAccess = 2"

definition narrowPolicy :: "policy \<Rightarrow> policy \<Rightarrow> delegation_error + unit" where
  "narrowPolicy parent' child =
     (if access_rank (po_access child) > access_rank (po_access parent') \<or> \<not> withinWorkspace (po_workspace parent') (po_workspace child)
      then delegationRefused ''Child policy exceeds parent authority'' else Inr ())"

subsection \<open>Resolving a request\<close>

datatype delegation_target = ManagedParent managed_peer | ApplicationParent app_parent

record delegation_request =
  dq_target :: delegation_target
  dq_generation :: string
  dq_policy :: policy
  dq_deadlineAt :: "stamp option"

record delegation =
  dl_request :: delegation_request
  dl_requestId :: string
  dl_authority :: "app_selector option"
  dl_digest :: string

record delegated =
  de_generation :: "string option"
  de_archived :: bool
  de_native :: bool
  de_dir :: path
  de_delegation :: "delegation option"

text \<open>\<open>dw_sessions\<close> is \<open>controlTarget\<close>: the session a peer names exactly; \<open>dw_realpath\<close> fails on a missing path.\<close>

record delegation_world =
  dw_env :: app_env
  dw_store :: authorities
  dw_sessions :: "managed_peer \<rightharpoonup> delegated"
  dw_grants :: "delegation_request list"
  dw_realpath :: "path \<rightharpoonup> path"

type_synonym inherited = "policy \<times> stamp option \<times> app_selector option"

definition request_of :: "delegation \<Rightarrow> inherited" where
  "request_of d = (dq_policy (dl_request d), dq_deadlineAt (dl_request d), dl_authority d)"

definition host_grant :: "delegation_world \<Rightarrow> managed_peer \<Rightarrow> string \<Rightarrow> inherited option" where
  "host_grant w target generation = map_option (\<lambda>g. (dq_policy g, dq_deadlineAt g, None))
     (List.find (\<lambda>g. (case dq_target g of ManagedParent p \<Rightarrow> chatTargetKey (ToManaged p) = chatTargetKey (ToManaged target) | _ \<Rightarrow> False)
        \<and> dq_generation g = generation) (dw_grants w))"

definition is_principal :: "principal option \<Rightarrow> managed_peer \<Rightarrow> bool" where
  "is_principal who target = (case who of Some (FromManaged p) \<Rightarrow> chatTargetKey (ToManaged p) = chatTargetKey (ToManaged target) | _ \<Rightarrow> False)"

definition inherited_of ::
  "delegation_world \<Rightarrow> principal option \<Rightarrow> delegation_request \<Rightarrow> delegation_error + inherited option" where
  "inherited_of w who input = (case dq_target input of
      ApplicationParent t \<Rightarrow> (let parent' = \<lparr>se_target = t, se_generation = dq_generation input\<rparr>
        in bind_result (requireApplicationAuthority (dw_env w) who parent' False (dw_store w)) (\<lambda>row.
             Inr (Some (ay_policy row, Some (Instant (ay_deadlineAt row)), Some parent'))))
    | ManagedParent target \<Rightarrow> (case dw_sessions w target of
        None \<Rightarrow> Inl IdentityMismatch
      | Some parent' \<Rightarrow>
          (if de_archived parent' \<or> de_generation parent' \<noteq> Some (dq_generation input)
           then delegationRefused ''Parent registration is unavailable''
           else if \<not> de_native parent' then delegationRefused ''Parent has no owned native runtime''
           else let inherited = (case de_delegation parent' of Some d \<Rightarrow> Some (request_of d)
                      | None \<Rightarrow> host_grant w target (dq_generation input));
                    root = Option.bind (de_delegation parent') dl_authority
             in bind_result (case root of
                    Some r \<Rightarrow> if is_principal who target then Inr ()
                      else bind_result (requireApplicationAuthority (dw_env w) who r False (dw_store w)) (\<lambda>_. Inr ())
                  | None \<Rightarrow> Inr ()) (\<lambda>_.
                (case root of
                   Some r \<Rightarrow> if applicationAuthorityEnded (dw_env w) r (dw_store w)
                     then delegationRefused ''Parent application authority has ended'' else Inr inherited
                 | None \<Rightarrow> Inr inherited)))))"

definition expired :: "int \<Rightarrow> stamp option \<Rightarrow> bool" where
  "expired now d = (case Option.bind d date_parse of Some t \<Rightarrow> t \<le> now | None \<Rightarrow> False)"

text \<open>The sooner of two deadlines; a text that does not parse gives no instant (\<open>toISOString\<close> would throw; the
  schemas admit readable ones only).\<close>

definition sooner :: "stamp option \<Rightarrow> stamp option \<Rightarrow> stamp option" where
  "sooner parent' child = (case (parent', child) of
      (None, c) \<Rightarrow> c | (p, None) \<Rightarrow> p
    | (Some p, Some c) \<Rightarrow> (case (date_parse p, date_parse c) of
        (Some a, Some b) \<Rightarrow> Some (Instant (min a b)) | _ \<Rightarrow> Some (Unreadable ''Invalid Date'')))"

text \<open>The part of \<open>resolveDelegation\<close> after the parent's authority is known.\<close>

definition resolve_within ::
  "(policy \<Rightarrow> string) \<Rightarrow> delegation_world \<Rightarrow> string \<Rightarrow> path \<Rightarrow> string \<Rightarrow> delegation_request \<Rightarrow> inherited
     \<Rightarrow> delegation_error + delegation" where
  "resolve_within digest w runtime workspace requestId input i = (case i of (authority, parentDeadline, root) \<Rightarrow>
     (case dw_realpath w (po_workspace authority) of
        None \<Rightarrow> Inl NotThere
      | Some canonicalRoot \<Rightarrow>
          (if canonicalRoot \<noteq> po_workspace authority \<or> dw_realpath w (po_workspace (dq_policy input)) \<noteq> Some workspace
           then delegationRefused ''Policy workspace must be canonical and match the child''
           else let policy = (dq_policy input)\<lparr>po_workspace := workspace\<rparr>;
                    deadline = sooner parentDeadline (dq_deadlineAt input)
             in if expired (ae_now (dw_env w)) deadline then delegationRefused ''Parent delegation deadline has expired''
                else bind_result (narrowPolicy authority policy) (\<lambda>_.
                  (if po_access policy = FullAccess \<or> (runtime = ''claude'' \<and> po_access policy \<noteq> ReadOnly)
                   then delegationRefused ''This runtime cannot enforce the requested policy''
                   else Inr \<lparr>dl_request = input\<lparr>dq_policy := policy, dq_deadlineAt := deadline\<rparr>, dl_requestId = requestId,
                     dl_authority = root, dl_digest = digest policy\<rparr>)))))"

definition resolveDelegation ::
  "(policy \<Rightarrow> string) \<Rightarrow> delegation_world \<Rightarrow> string \<Rightarrow> string \<Rightarrow> path \<Rightarrow> string \<Rightarrow> delegation_request \<Rightarrow> principal option
     \<Rightarrow> delegation_error + delegation" where
  "resolveDelegation digest w runtime mode workspace requestId input who =
     (if runtime \<notin> {''codex'', ''claude''} \<or> mode \<notin> {''app-server'', ''native''}
      then delegationRefused ''Delegation requires an owned native runtime''
      else if expired (ae_now (dw_env w)) (dq_deadlineAt input) then delegationRefused ''Delegation deadline has expired''
      else bind_result (inherited_of w who input) (\<lambda>inherited. (case inherited of
        None \<Rightarrow> delegationRefused ''Parent authority is not declared by this host''
      | Some i \<Rightarrow> resolve_within digest w runtime workspace requestId input i)))"

definition verifyDelegatedSession :: "(policy \<Rightarrow> string) \<Rightarrow> (path \<rightharpoonup> path) \<Rightarrow> delegated \<Rightarrow> bool" where
  "verifyDelegatedSession digest realpath s = (case de_delegation s of
      None \<Rightarrow> True
    | Some d \<Rightarrow> Some (po_workspace (dq_policy (dl_request d))) = realpath (de_dir s)
        \<and> dl_digest d = digest (dq_policy (dl_request d)))"

text \<open>A run's other controls: its issuer may use them, and the exact session that the child was created by.\<close>

definition authorizeApplicationMutation ::
  "app_env \<Rightarrow> principal \<Rightarrow> managed_peer \<Rightarrow> bool \<Rightarrow> authorities \<Rightarrow> (managed_peer \<rightharpoonup> delegated) \<Rightarrow> delegation_error + unit" where
  "authorizeApplicationMutation e who target allowEnded store sessions = (case sessions target of
      None \<Rightarrow> Inl IdentityMismatch
    | Some child \<Rightarrow> (case Option.bind (de_delegation child) dl_authority of
        None \<Rightarrow> Inr ()
      | Some root \<Rightarrow> (case who of
          FromManaged p \<Rightarrow> (case sessions p of
              None \<Rightarrow> Inl IdentityMismatch
            | Some parent' \<Rightarrow> (let refused = delegationRefused ''Application mutation requires its issuer or exact managed parent'' in
                case map_option dl_request (de_delegation child) of
                  None \<Rightarrow> refused
                | Some request \<Rightarrow> (case dq_target request of
                    ApplicationParent _ \<Rightarrow> refused
                  | ManagedParent t \<Rightarrow>
                      (if chatTargetKey (ToManaged p) \<noteq> chatTargetKey (ToManaged t) \<or> de_generation parent' \<noteq> Some (dq_generation request)
                         \<or> Option.bind (de_delegation parent') dl_authority \<noteq> Some root
                         \<or> (\<not> allowEnded \<and> applicationAuthorityEnded e root store)
                       then refused else Inr ()))))
        | _ \<Rightarrow> bind_result (requireApplicationAuthority e (Some who) root allowEnded store) (\<lambda>_. Inr ()))))"

subsection \<open>Narrower and sooner\<close>

text \<open>What a child has is within what it was given: \<open>deadline_le\<close> has no deadline as its top.\<close>

definition deadline_le :: "stamp option \<Rightarrow> stamp option \<Rightarrow> bool" where
  "deadline_le a b = (case Option.bind b date_parse of None \<Rightarrow> True
     | Some t \<Rightarrow> (case Option.bind a date_parse of Some u \<Rightarrow> u \<le> t | None \<Rightarrow> False))"

definition readable :: "stamp option \<Rightarrow> bool" where
  "readable d = (case d of Some (Unreadable _) \<Rightarrow> False | _ \<Rightarrow> True)"

definition within_authority :: "inherited \<Rightarrow> inherited \<Rightarrow> bool" where
  "within_authority child parent' = (case (child, parent') of ((p, d, r), (p', d', r')) \<Rightarrow>
     access_rank (po_access p) \<le> access_rank (po_access p') \<and> prefix (po_workspace p') (po_workspace p)
     \<and> deadline_le d d' \<and> r = r')"

lemma deadline_le_refl: "deadline_le d d"
  by (auto simp: deadline_le_def split: option.split)

lemma within_refl: "within_authority a a"
  by (cases a) (simp add: within_authority_def deadline_le_refl)

lemma within_trans: "within_authority a b \<Longrightarrow> within_authority b c \<Longrightarrow> within_authority a c"
  by (cases a; cases b; cases c)
    (auto simp: within_authority_def deadline_le_def split: option.splits intro: prefix_order.trans)

lemma sooner_le: "readable p \<Longrightarrow> readable c \<Longrightarrow> deadline_le (sooner p c) p \<and> deadline_le (sooner p c) c \<and> readable (sooner p c)"
  by (cases p; cases c) (auto simp: sooner_def deadline_le_def readable_def split: stamp.splits option.splits)

text \<open>What a resolved request stands on.\<close>

lemma resolve_cases:
  assumes "resolveDelegation digest w runtime mode workspace requestId input who = Inr d"
    and "canonical_path workspace" "readable (dq_deadlineAt input)"
  obtains i where "inherited_of w who input = Inr (Some i)" "readable (fst (snd i)) \<Longrightarrow> within_authority (request_of d) i"
    "po_access (dq_policy (dl_request d)) \<noteq> FullAccess" "dl_digest d = digest (dq_policy (dl_request d))"
    "po_workspace (dq_policy (dl_request d)) = workspace"
    "readable (fst (snd i)) \<Longrightarrow> readable (dq_deadlineAt (dl_request d))"
proof -
  obtain p dl r where i: "inherited_of w who input = Inr (Some (p, dl, r))"
    and res: "resolve_within digest w runtime workspace requestId input (p, dl, r) = Inr d"
    using assms(1) by (auto simp: resolveDelegation_def delegationRefused_def bind_result_Inr_iff split: if_splits option.splits)
  let ?policy = "(dq_policy input)\<lparr>po_workspace := workspace\<rparr>"
  have n: "narrowPolicy p ?policy = Inr ()" and f: "po_access ?policy \<noteq> FullAccess"
    and d: "d = \<lparr>dl_request = input\<lparr>dq_policy := ?policy, dq_deadlineAt := sooner dl (dq_deadlineAt input)\<rparr>,
      dl_requestId = requestId, dl_authority = r, dl_digest = digest ?policy\<rparr>"
    using res by (auto simp: resolve_within_def Let_def delegationRefused_def bind_result_Inr_iff split: if_splits option.splits)
  have "access_rank (po_access ?policy) \<le> access_rank (po_access p)" "prefix (po_workspace p) workspace"
    using n withinWorkspace_iff [OF assms(2)] by (auto simp: narrowPolicy_def delegationRefused_def split: if_splits)
  then show ?thesis
    using that [OF i] sooner_le [OF _ assms(3), of dl] f by (auto simp: d request_of_def within_authority_def)
qed

subsection \<open>Cancellation\<close>

datatype stop_reason = StopCancelled | StopDeadline | StopAborted

record stop_record =
  st_operation :: string
  st_reason :: stop_reason
  st_at :: int
  st_processes :: "process_id list option"

text \<open>\<open>StopSchema\<close> admits at most 256 processes; a record with more throws before it is written.\<close>

definition STOP_PROCESSES :: nat where "STOP_PROCESSES = 256"

definition stopDelegationRequest ::
  "string \<Rightarrow> string \<Rightarrow> stop_reason \<Rightarrow> process_id list option \<Rightarrow> int \<Rightarrow> (string \<rightharpoonup> stop_record)
     \<Rightarrow> delegation_error + (string \<rightharpoonup> stop_record)" where
  "stopDelegationRequest requestId operation reason processes now stops =
     (let prior = stops requestId; ps = or_else processes (Option.bind prior st_processes)
      in if (case ps of Some xs \<Rightarrow> length xs > STOP_PROCESSES | None \<Rightarrow> False) then Inl StopTooLarge
         else Inr (stops(requestId \<mapsto> \<lparr>st_operation = operation, st_reason = reason,
           st_at = (case prior of Some p \<Rightarrow> st_at p | None \<Rightarrow> now), st_processes = ps\<rparr>)))"

definition delegationStopped :: "app_env \<Rightarrow> authorities \<Rightarrow> (string \<rightharpoonup> stop_record) \<Rightarrow> delegated \<Rightarrow> bool" where
  "delegationStopped e store stops s = (case de_delegation s of
      None \<Rightarrow> False
    | Some d \<Rightarrow> (case dl_authority d of Some r \<Rightarrow> applicationAuthorityEnded e r store | None \<Rightarrow> False)
        \<or> expired (ae_now e) (dq_deadlineAt (dl_request d)) \<or> stops (dl_requestId d) \<noteq> None)"

definition live_row :: "process_row list \<Rightarrow> process_row \<Rightarrow> bool" where
  "live_row rows p = (\<exists>r\<in>set rows. ps_pid r = ps_pid p \<and> ps_start r = ps_start p)"

definition current_processes :: "ownership option \<Rightarrow> process_row list option \<Rightarrow> process_row list" where
  "current_processes own rows = (case (own, rows) of
      (Some o', Some rs) \<Rightarrow> filter (\<lambda>r.
          (live_row rs (ow_owner o') \<and> (ps_pid r = ps_pid (ow_owner o') \<or> isDescendantProcess rs (ps_pid r) (ps_pid (ow_owner o'))))
          \<or> (live_row rs (ow_provider o') \<and> ps_group r = ps_group (ow_provider o'))) rs
    | _ \<Rightarrow> [])"

text \<open>The processes a cancellation waits for: the recorded ones, or those of the sleep proof, or the ownership's
  baseline, and the live tree; each once.\<close>

definition cancel_processes ::
  "stop_record option \<Rightarrow> process_id list option \<Rightarrow> ownership option \<Rightarrow> process_row list option \<Rightarrow> process_id list" where
  "cancel_processes prior asleep own rows =
     once ((case Option.bind prior st_processes of Some ps \<Rightarrow> ps
        | None \<Rightarrow> (case asleep of Some ps \<Rightarrow> ps
          | None \<Rightarrow> (case own of Some o' \<Rightarrow> map identity (ow_baseline o') | None \<Rightarrow> [])))
      @ map identity (current_processes own rows))"

text \<open>The polls of the process table until the deadline; \<open>PollRows None\<close> stands for a table that could not be
  read, \<open>PollAborted\<close> for the caller's signal.\<close>

datatype poll = PollAborted | PollRows "process_row list option"

fun await_gone :: "process_id list \<Rightarrow> poll list \<Rightarrow> delegation_error + unit" where
  "await_gone held [] = delegationRefused ''Cancellation pending; retry exact operation''"
| "await_gone held (PollAborted # rest) = Inl CallAborted"
| "await_gone held (PollRows rows # rest) =
     (if (case rows of Some rs \<Rightarrow> \<forall>p\<in>set held. p \<notin> identity ` set rs | None \<Rightarrow> False) then Inr () else await_gone held rest)"

definition cancel_request :: "managed_peer \<Rightarrow> string \<Rightarrow> delegation_target \<times> string \<Rightarrow> (managed_peer \<rightharpoonup> delegated) \<Rightarrow> delegation_error + string" where
  "cancel_request target registration parent' sessions = (case sessions target of
      None \<Rightarrow> Inl IdentityMismatch
    | Some s \<Rightarrow> (case de_delegation s of
        None \<Rightarrow> delegationRefused ''Exact parent and child registrations required''
      | Some d \<Rightarrow>
          (if de_generation s \<noteq> Some registration \<or> (dq_target (dl_request d), dq_generation (dl_request d)) \<noteq> parent'
           then delegationRefused ''Exact parent and child registrations required'' else Inr (dl_requestId d))))"

text \<open>The answer and the durable stops.\<close>

definition cancelDelegation ::
  "managed_peer \<Rightarrow> string \<Rightarrow> delegation_target \<times> string \<Rightarrow> (managed_peer \<rightharpoonup> delegated) \<Rightarrow> string \<Rightarrow> process_id list option
     \<Rightarrow> ownership option \<Rightarrow> process_row list option \<Rightarrow> poll list \<Rightarrow> int \<Rightarrow> (string \<rightharpoonup> stop_record)
     \<Rightarrow> (delegation_error + unit) \<times> (string \<rightharpoonup> stop_record)" where
  "cancelDelegation target registration parent' sessions operation asleep own rows polls now stops =
     (case cancel_request target registration parent' sessions of
        Inl e \<Rightarrow> (Inl e, stops)
      | Inr requestId \<Rightarrow>
          (let held = cancel_processes (stops requestId) asleep own rows
           in case stopDelegationRequest requestId operation StopCancelled (if held = [] then None else Some held) now stops of
             Inl e \<Rightarrow> (Inl e, stops)
           | Inr stops' \<Rightarrow>
               (if held = [] then delegationRefused ''Cancellation pending; owned process evidence is unavailable''
                else await_gone held polls, stops')))"

definition stopDelegatedSession :: "delegated \<Rightarrow> string \<Rightarrow> stop_reason \<Rightarrow> int \<Rightarrow> (string \<rightharpoonup> stop_record) \<Rightarrow> delegation_error + (string \<rightharpoonup> stop_record)" where
  "stopDelegatedSession s operation reason now stops = (case de_delegation s of
      None \<Rightarrow> delegationRefused ''Target is not a delegated child''
    | Some d \<Rightarrow> stopDelegationRequest (dl_requestId d) operation reason None now stops)"

lemma await_gone_seen: "await_gone held polls = Inr () \<Longrightarrow> \<exists>rs. PollRows (Some rs) \<in> set polls \<and> (\<forall>p\<in>set held. p \<notin> identity ` set rs)"
  by (induction held polls rule: await_gone.induct) (auto simp: delegationRefused_def split: option.splits if_splits)

text \<open>A cancellation is reported as done only after a process table without any process of the child's live
  tree and without any that was recorded for it; unless its record was too large, the stop is durable and a
  retry waits for at least what this attempt recorded.\<close>

lemma cancelled_is_gone:
  assumes "cancelDelegation target registration parent' sessions operation asleep own rows polls now stops = (answer, stops')"
    and "cancel_request target registration parent' sessions = Inr requestId"
    and "length (cancel_processes (stops requestId) asleep own rows) \<le> STOP_PROCESSES"
    and "\<forall>p ps. stops requestId = Some p \<longrightarrow> st_processes p = Some ps \<longrightarrow> length ps \<le> STOP_PROCESSES"
  shows "stops' requestId \<noteq> None"
    and "set (cancel_processes (stops requestId) asleep own rows) \<subseteq> set (cancel_processes (stops' requestId) asleep' own' rows')"
    and "answer = Inr () \<Longrightarrow> \<exists>rs. PollRows (Some rs) \<in> set polls
      \<and> (\<forall>r\<in>set (current_processes own rows). identity r \<notin> identity ` set rs)
      \<and> (\<forall>p ps. stops requestId = Some p \<longrightarrow> st_processes p = Some ps \<longrightarrow> (\<forall>x\<in>set ps. x \<notin> identity ` set rs))"
proof -
  let ?held = "cancel_processes (stops requestId) asleep own rows"
  let ?ps = "or_else (if ?held = [] then None else Some ?held) (Option.bind (stops requestId) st_processes)"
  let ?new = "stops(requestId \<mapsto> \<lparr>st_operation = operation, st_reason = StopCancelled,
    st_at = (case stops requestId of Some p \<Rightarrow> st_at p | None \<Rightarrow> now), st_processes = ?ps\<rparr>)"
  have "Option.bind (stops requestId) st_processes = Some ps \<Longrightarrow> length ps \<le> STOP_PROCESSES" for ps
    using assms(4) by (cases "stops requestId") auto
  then have "\<forall>ps. ?ps = Some ps \<longrightarrow> length ps \<le> STOP_PROCESSES"
    using assms(3) by (cases "?held = []") simp_all
  then have "\<not> (case ?ps of Some xs \<Rightarrow> length xs > STOP_PROCESSES | None \<Rightarrow> False)"
    by (auto split: option.split)
  then have "stopDelegationRequest requestId operation StopCancelled (if ?held = [] then None else Some ?held) now stops = Inr ?new"
    unfolding stopDelegationRequest_def Let_def by (simp only: if_False)
  moreover have "?held \<noteq> [] \<longrightarrow> Option.bind (?new requestId) st_processes = Some ?held" by simp
  ultimately obtain new where new: "stopDelegationRequest requestId operation StopCancelled (if ?held = [] then None else Some ?held) now stops
      = Inr new" "new requestId \<noteq> None" "?held \<noteq> [] \<longrightarrow> Option.bind (new requestId) st_processes = Some ?held"
    by (metis fun_upd_same option.distinct(1))
  have c: "stops' = new" "answer = (if ?held = [] then delegationRefused ''Cancellation pending; owned process evidence is unavailable''
      else await_gone ?held polls)"
    using assms(1) by (simp_all add: cancelDelegation_def assms(2) new(1) Let_def)
  show "stops' requestId \<noteq> None" using c(1) new(2) by simp
  show "set ?held \<subseteq> set (cancel_processes (stops' requestId) asleep' own' rows')"
    using c(1) new(3) by (cases "?held = []") (simp_all add: cancel_processes_def [of "new requestId"])
  assume "answer = Inr ()"
  then have "await_gone ?held polls = Inr ()" using c(2) by (auto simp: delegationRefused_def split: if_splits)
  from await_gone_seen [OF this] obtain rs where
    "PollRows (Some rs) \<in> set polls" "\<forall>p\<in>set ?held. p \<notin> identity ` set rs" by blast
  then show "\<exists>rs. PollRows (Some rs) \<in> set polls
      \<and> (\<forall>r\<in>set (current_processes own rows). identity r \<notin> identity ` set rs)
      \<and> (\<forall>p ps. stops requestId = Some p \<longrightarrow> st_processes p = Some ps \<longrightarrow> (\<forall>x\<in>set ps. x \<notin> identity ` set rs))"
    by (intro exI [of _ rs]) (auto simp: cancel_processes_def)
qed

end
