(* ===== verification/DelegationInv.thy ===== *)
theory DelegationInv
  imports Delegation
begin

text \<open>
  Every delegated session of a host is rooted: its policy and deadline are within those of a grant the host
  declared, or of the authority of an application's run, through however many generations of children.
\<close>

record delegation_state =
  ds_store :: authorities
  ds_sessions :: "managed_peer \<rightharpoonup> delegated"

text \<open>The configuration, the clock and the file system may differ at every step; \<open>granted\<close> holds every grant
  the host ever declared.\<close>

inductive delegation_step ::
  "(policy \<Rightarrow> string) \<Rightarrow> delegation_request set \<Rightarrow> delegation_state \<Rightarrow> delegation_state \<Rightarrow> bool"
  for digest :: "policy \<Rightarrow> string" and granted :: "delegation_request set" where
  authority: "delegation_step digest granted s (s\<lparr>ds_store := authority_step x (ds_store s)\<rparr>)"
| child: "dw_store w = ds_store s \<Longrightarrow> dw_sessions w = ds_sessions s \<Longrightarrow> set (dw_grants w) \<subseteq> granted \<Longrightarrow>
    resolveDelegation digest w runtime mode workspace requestId input who = Inr d \<Longrightarrow>
    canonical_path workspace \<Longrightarrow> readable (dq_deadlineAt input) \<Longrightarrow> de_delegation c = Some d \<Longrightarrow>
    delegation_step digest granted s (s\<lparr>ds_sessions := (ds_sessions s)(t \<mapsto> c)\<rparr>)"
| plain: "de_delegation c = None \<Longrightarrow> delegation_step digest granted s (s\<lparr>ds_sessions := (ds_sessions s)(t \<mapsto> c)\<rparr>)"
| changed: "ds_sessions s t = Some c \<Longrightarrow> de_delegation c' = de_delegation c \<Longrightarrow>
    delegation_step digest granted s (s\<lparr>ds_sessions := (ds_sessions s)(t \<mapsto> c')\<rparr>)"
| removed: "delegation_step digest granted s (s\<lparr>ds_sessions := (ds_sessions s)(t := None)\<rparr>)"

inductive delegation_reach :: "(policy \<Rightarrow> string) \<Rightarrow> delegation_request set \<Rightarrow> delegation_state \<Rightarrow> bool"
  for digest :: "policy \<Rightarrow> string" and granted :: "delegation_request set" where
  start: "delegation_reach digest granted \<lparr>ds_store = Map.empty, ds_sessions = Map.empty\<rparr>"
| step: "delegation_reach digest granted s \<Longrightarrow> delegation_step digest granted s s' \<Longrightarrow> delegation_reach digest granted s'"

definition rooted :: "delegation_request set \<Rightarrow> authorities \<Rightarrow> delegation \<Rightarrow> bool" where
  "rooted granted store d = (po_access (dq_policy (dl_request d)) \<noteq> FullAccess \<and> readable (dq_deadlineAt (dl_request d))
     \<and> (case dl_authority d of
          None \<Rightarrow> \<exists>g\<in>granted. within_authority (request_of d) (dq_policy g, dq_deadlineAt g, None)
        | Some r \<Rightarrow> \<exists>row. store (pa_authority (se_target r)) = Some row \<and> ay_parent row = r
            \<and> within_authority (request_of d) (ay_policy row, Some (Instant (ay_deadlineAt row)), Some r)))"

definition rooted_state :: "delegation_request set \<Rightarrow> delegation_state \<Rightarrow> bool" where
  "rooted_state granted s = (\<forall>t c d. ds_sessions s t = Some c \<longrightarrow> de_delegation c = Some d \<longrightarrow> rooted granted (ds_store s) d)"

lemma rooted_mono: "rooted granted store d \<Longrightarrow> authorities_le store store' \<Longrightarrow> rooted granted store' d"
  unfolding rooted_def authorities_le_def row_le_def by (fastforce split: option.splits)

text \<open>Whatever a request may inherit from is itself rooted.\<close>

definition inherits_rooted :: "delegation_request set \<Rightarrow> authorities \<Rightarrow> inherited \<Rightarrow> bool" where
  "inherits_rooted granted store i = (readable (fst (snd i)) \<and> (case snd (snd i) of
      None \<Rightarrow> \<exists>g\<in>granted. within_authority i (dq_policy g, dq_deadlineAt g, None)
    | Some r \<Rightarrow> \<exists>row. store (pa_authority (se_target r)) = Some row \<and> ay_parent row = r
        \<and> within_authority i (ay_policy row, Some (Instant (ay_deadlineAt row)), Some r)))"

lemma exact_row: "exact e parent' store = Inr row \<Longrightarrow> store (pa_authority (se_target parent')) = Some row \<and> ay_parent row = parent'"
  by (auto simp: exact_def split: option.splits if_splits)

lemma host_grant_rooted:
  assumes "set (dw_grants w) \<subseteq> granted" "\<forall>g\<in>granted. readable (dq_deadlineAt g)" "host_grant w target generation = Some i"
  shows "inherits_rooted granted store i"
proof -
  from assms(3) obtain g where "g \<in> set (dw_grants w)" "i = (dq_policy g, dq_deadlineAt g, None)"
    by (auto simp: host_grant_def dest: find_SomeD)
  with assms(1,2) show ?thesis by (auto simp: inherits_rooted_def intro!: bexI [of _ g] within_refl)
qed

lemma inherited_rooted:
  assumes inv: "rooted_state granted s" and w: "dw_store w = ds_store s" "dw_sessions w = ds_sessions s" "set (dw_grants w) \<subseteq> granted"
    and gs: "\<forall>g\<in>granted. readable (dq_deadlineAt g)" and i: "inherited_of w who input = Inr (Some i)"
  shows "inherits_rooted granted (ds_store s) i"
proof (cases "dq_target input")
  case (ApplicationParent t)
  let ?p = "\<lparr>se_target = t, se_generation = dq_generation input\<rparr>"
  from i ApplicationParent obtain row where
    "requireApplicationAuthority (dw_env w) who ?p False (dw_store w) = Inr row"
    and j: "i = (ay_policy row, Some (Instant (ay_deadlineAt row)), Some ?p)"
    by (auto simp: inherited_of_def Let_def bind_result_Inr_iff)
  then have "exact (dw_env w) ?p (ds_store s) = Inr row"
    by (auto simp: requireApplicationAuthority_def bind_result_Inr_iff w(1) split: option.splits)
  from exact_row [OF this] show ?thesis using within_refl by (auto simp: inherits_rooted_def j readable_def)
next
  case (ManagedParent target)
  from i ManagedParent obtain c where c: "ds_sessions s target = Some c"
    and src: "Some i = (case de_delegation c of Some d \<Rightarrow> Some (request_of d) | None \<Rightarrow> host_grant w target (dq_generation input))"
    by (auto simp: inherited_of_def Let_def bind_result_Inr_iff delegationRefused_def w(2) split: option.splits if_splits)
  show ?thesis
  proof (cases "de_delegation c")
    case None
    with src host_grant_rooted [OF w(3) gs] show ?thesis by simp
  next
    case (Some d)
    then have "rooted granted (ds_store s) d" using inv c by (auto simp: rooted_state_def)
    with src Some show ?thesis by (auto simp: inherits_rooted_def rooted_def request_of_def split: option.splits)
  qed
qed

lemma resolved_rooted:
  assumes "inherits_rooted granted store i" "within_authority (request_of d) i" "po_access (dq_policy (dl_request d)) \<noteq> FullAccess"
    and "readable (dq_deadlineAt (dl_request d))"
  shows "rooted granted store d"
proof -
  have r: "dl_authority d = snd (snd i)" using assms(2) by (cases i) (auto simp: within_authority_def request_of_def)
  show ?thesis
  proof (cases "snd (snd i)")
    case None
    then obtain g where "g \<in> granted" "within_authority i (dq_policy g, dq_deadlineAt g, None)"
      using assms(1) by (auto simp: inherits_rooted_def)
    with within_trans [OF assms(2)] None r assms(3,4) show ?thesis by (auto simp: rooted_def)
  next
    case (Some a)
    then obtain row where "store (pa_authority (se_target a)) = Some row" "ay_parent row = a"
      "within_authority i (ay_policy row, Some (Instant (ay_deadlineAt row)), Some a)"
      using assms(1) by (auto simp: inherits_rooted_def)
    with within_trans [OF assms(2)] Some r assms(3,4) show ?thesis by (auto simp: rooted_def)
  qed
qed

lemma delegation_step_rooted:
  assumes "delegation_step digest granted s s'" "rooted_state granted s" "\<forall>g\<in>granted. readable (dq_deadlineAt g)"
  shows "rooted_state granted s'"
  using assms(1)
proof (cases rule: delegation_step.cases)
  case (authority x)
  show ?thesis
    using assms(2) rooted_mono [OF _ authority_step_le] by (auto simp: rooted_state_def authority)
next
  case (child w runtime mode workspace requestId input who d c t)
  from resolve_cases [OF child(5,6,7)] obtain i where
    i: "inherited_of w who input = Inr (Some i)" "readable (fst (snd i)) \<Longrightarrow> within_authority (request_of d) i"
      "po_access (dq_policy (dl_request d)) \<noteq> FullAccess" "readable (fst (snd i)) \<Longrightarrow> readable (dq_deadlineAt (dl_request d))" by blast
  have "inherits_rooted granted (ds_store s) i" by (rule inherited_rooted [OF assms(2) child(2-4) assms(3) i(1)])
  then have "rooted granted (ds_store s) d" using i(2-4) by (intro resolved_rooted) (auto simp: inherits_rooted_def)
  with assms(2) child(1,8) show ?thesis by (auto simp: rooted_state_def)
qed (use assms(2) in \<open>auto simp: rooted_state_def\<close>)

lemma delegation_reach_rooted:
  assumes "delegation_reach digest granted s" "\<forall>g\<in>granted. readable (dq_deadlineAt g)"
  shows "rooted_state granted s"
  using assms(1)
proof (induction rule: delegation_reach.induct)
  case start
  show ?case by (simp add: rooted_state_def)
next
  case (step s s')
  with assms(2) show ?case by (blast intro: delegation_step_rooted)
qed

text \<open>When the run's authority ends, every session below it is stopped, at whatever depth.\<close>

lemma descendants_stop:
  assumes "ds_sessions s t = Some c" "de_delegation c = Some d" "dl_authority d = Some r"
    and "ds_store s (pa_authority (se_target r)) = Some row" "ay_closedAt row \<noteq> None \<or> ay_deadlineAt row \<le> ae_now e"
  shows "delegationStopped e (fold authority_step xs (ds_store s)) stops c"
  using ended_for_good [of "ds_store s" r row e xs] assms by (simp add: delegationStopped_def)

end
