(* ===== verification/Steering.thy ===== *)
theory Steering
  imports Registry Mailbox Settlement
begin

text \<open>
  Input to the turn that is running (\<open>src/steering\<close>): one journal per session, written before and after the
  call to the provider, and reconciled afterwards without ever repeating the call.  What the provider, the
  pane and the other stores answer is an argument.
\<close>

record steering_input =
  si_target :: managed_peer
  si_registration :: string
  si_operation :: string
  si_generation :: string
  si_turn :: string
  si_images :: nat

datatype steering_state = SubmittedState | UncertainState
datatype steering_phase = SgIntent | SgSubmitted | SgUncertain

record steering_receipt =
  sr_operation :: string
  sr_target :: managed_peer
  sr_registration :: string
  sr_generation :: string
  sr_turn :: string
  sr_clientId :: string
  sr_state :: steering_state
  sr_observedAt :: int

record steering_operation =
  sg_fingerprint :: string
  sg_principal :: string
  sg_phase :: steering_phase
  sg_receipt :: steering_receipt
  sg_reason :: "string option"

record steering_journal =
  sj_registration :: "string option"
  sj_thread :: string
  sj_operations :: "steering_operation list"

definition STEERING_OPERATIONS :: nat where "STEERING_OPERATIONS = 256"
definition STEERING_REQUEST_BYTES :: nat where "STEERING_REQUEST_BYTES = 32 * 1024"
definition STEERING_JOURNAL_BYTES :: nat where "STEERING_JOURNAL_BYTES = 256 * 1024"

definition steeringFailure :: "string \<Rightarrow> nat \<Rightarrow> app_error" where
  "steeringFailure code status = AppError code ''The native steering operation is unavailable'' status"

definition steering_unavailable :: app_error where "steering_unavailable = steeringFailure ''STEERING_UNAVAILABLE'' 503"

subsection \<open>The journal\<close>

text \<open>The refusal for a journal of another registration is thrown inside the block whose handler turns every
  error into \<open>STEERING_UNAVAILABLE\<close>; so is the one for a journal that is too large.  \<open>file\<close>: absent,
  unreadable (\<open>Some None\<close>), or a journal.\<close>

definition readSteeringJournal :: "session \<Rightarrow> steering_journal option option \<Rightarrow> app_error + steering_journal" where
  "readSteeringJournal s file =
     (case (case file of
          None \<Rightarrow> if s_generation s = None then None
            else Some \<lparr>sj_registration = s_generation s, sj_thread = s_uuid s, sj_operations = []\<rparr>
        | Some j \<Rightarrow> j) of
        None \<Rightarrow> Inl steering_unavailable
      | Some j \<Rightarrow> if sj_registration j \<noteq> s_generation s \<or> sj_thread j \<noteq> s_uuid s then Inl steering_unavailable else Inr j)"

definition journal_fits :: "(steering_journal \<Rightarrow> nat) \<Rightarrow> steering_journal \<Rightarrow> bool" where
  "journal_fits bytes j = (length (sj_operations j) \<le> STEERING_OPERATIONS \<and> bytes j \<le> STEERING_JOURNAL_BYTES)"

definition priorSteering ::
  "steering_journal \<Rightarrow> principal \<Rightarrow> string \<Rightarrow> string option \<Rightarrow> app_error + steering_operation option" where
  "priorSteering j who operationId fingerprint =
     (case List.find (\<lambda>o'. sr_operation (sg_receipt o') = operationId) (sj_operations j) of
        None \<Rightarrow> Inr None
      | Some prior \<Rightarrow>
          (if sg_principal prior \<noteq> chatPrincipalKey who \<or> (fingerprint \<noteq> None \<and> Some (sg_fingerprint prior) \<noteq> fingerprint)
           then Inl (steeringFailure ''IDEMPOTENCY_CONFLICT'' 409) else Inr (Some prior)))"

subsection \<open>Guards\<close>

definition steeringTarget :: "session option \<Rightarrow> (session \<Rightarrow> bool) \<Rightarrow> string \<Rightarrow> bool \<Rightarrow> app_error + session" where
  "steeringTarget target ownedCodex registration mutate = (case target of
      None \<Rightarrow> Inl (AppError ''IDENTITY_MISMATCH'' ''The exact managed session is unavailable'' 409)
    | Some s \<Rightarrow>
        (if s_generation s \<noteq> Some registration then Inl (steeringFailure ''IDENTITY_MISMATCH'' 409)
         else if \<not> ownedCodex s then Inl (steeringFailure ''UNSUPPORTED'' 409)
         else if mutate \<and> s_archived s then Inl (steeringFailure ''UNAVAILABLE'' 409) else Inr s))"

record steer_status =
  ss_live :: bool
  ss_connected :: bool
  ss_generation :: string
  ss_state :: native_state
  ss_turn :: "native_turn option"
  ss_pending :: nat

text \<open>\<open>free\<close> is \<open>assertNoContextMutation\<close>.\<close>

definition requireSteeringTurn ::
  "session option \<Rightarrow> (session \<Rightarrow> bool) \<Rightarrow> steering_input \<Rightarrow> app_error option \<Rightarrow> steer_status option \<Rightarrow> app_error + unit" where
  "requireSteeringTurn target owned input free state = bind_result (steeringTarget target owned (si_registration input) True) (\<lambda>_.
     (case free of Some e \<Rightarrow> Inl e
      | None \<Rightarrow> (case state of
          None \<Rightarrow> Inl (steeringFailure ''UNAVAILABLE'' 409)
        | Some st \<Rightarrow>
            (if \<not> ss_live st \<or> \<not> ss_connected st then Inl (steeringFailure ''UNAVAILABLE'' 409)
             else if ss_generation st \<noteq> si_generation input \<or> map_option nt_id (ss_turn st) \<noteq> Some (si_turn input)
             then Inl (steeringFailure ''IDENTITY_MISMATCH'' 409)
             else if ss_state st \<noteq> NsWorking \<or> map_option nt_status (ss_turn st) \<noteq> Some TsInProgress \<or> ss_pending st > 0
             then Inl (steeringFailure ''BUSY'' 409) else Inr ()))))"

text \<open>The direct read: the thread's id, whether it is active, and its flags.\<close>

definition requireNativeSteeringTurn :: "(string \<times> bool \<times> nat) option \<Rightarrow> steering_input \<Rightarrow> app_error + unit" where
  "requireNativeSteeringTurn thread input = (case thread of
      None \<Rightarrow> Inl steering_unavailable
    | Some (i, on, flags) \<Rightarrow>
        (if i \<noteq> mp_thread (si_target input) then Inl (steeringFailure ''IDENTITY_MISMATCH'' 409)
         else if \<not> on \<or> flags \<noteq> 0 then Inl (steeringFailure ''BUSY'' 409) else Inr ()))"

text \<open>Images need a turn that was started by a letter with turn options of its own; \<open>options\<close> is what
  \<open>validateTurnOptions\<close> says of them.\<close>

definition validateSteeringImages ::
  "steering_input \<Rightarrow> pickup option \<Rightarrow> ledger_slot list \<Rightarrow> app_error option \<Rightarrow> app_error option" where
  "validateSteeringImages input pickup ledger options =
     (let unsupported = Some (steeringFailure ''UNSUPPORTED'' 409) in
      if si_images input = 0 then None
      else case pickup of
        None \<Rightarrow> unsupported
      | Some p \<Rightarrow> (case pk_native p of
          None \<Rightarrow> unsupported
        | Some b \<Rightarrow>
            (if nb_phase b \<noteq> Accepted \<or> nb_turn b \<noteq> Some (si_turn input) then unsupported
             else case List.find (\<lambda>slot. map_option m_id slot = Some (pk_message p)) ledger of
               Some (Some msg) \<Rightarrow>
                 (if m_turnOptions msg = None then unsupported
                  else case m_to msg of
                    ToManaged t \<Rightarrow> if managedPeerKey t \<noteq> managedPeerKey (si_target input) then unsupported else options
                  | _ \<Rightarrow> unsupported)
             | _ \<Rightarrow> unsupported)))"

subsection \<open>Submitting\<close>

datatype steer_effect = SGate bool | SJournal steering_journal | SSteer string

text \<open>\<open>sv_accepts\<close> is the turn the provider answers with, if it answers.\<close>

record steer_env =
  sv_target :: "session option"
  sv_owned :: "session \<Rightarrow> bool"
  sv_application :: bool
  sv_bytes :: nat
  sv_aborted :: "app_error option"
  sv_file :: "steering_journal option option"
  sv_fingerprint :: string
  sv_mutation :: "app_error option"
  sv_status :: "steer_status option"
  sv_pickup :: "pickup option"
  sv_ledger :: "ledger_slot list"
  sv_options :: "app_error option"
  sv_typing :: bool
  sv_connects :: bool
  sv_gated :: bool
  sv_deliverable :: bool
  sv_thread :: "(string \<times> bool \<times> nat) option"
  sv_pins :: "app_error option"
  sv_statusLater :: "steer_status option"
  sv_abortedLater :: bool
  sv_accepts :: "string option"
  sv_now :: int
  sv_later :: int
  sv_fits :: "steering_journal \<Rightarrow> bool"
  sv_found :: "string \<rightharpoonup> string"

definition steering_intent :: "principal \<Rightarrow> steering_input \<Rightarrow> string \<Rightarrow> int \<Rightarrow> steering_operation" where
  "steering_intent who input fingerprint now =
     \<lparr>sg_fingerprint = fingerprint, sg_principal = chatPrincipalKey who, sg_phase = SgIntent,
      sg_receipt = \<lparr>sr_operation = si_operation input, sr_target = si_target input, sr_registration = si_registration input,
        sr_generation = si_generation input, sr_turn = si_turn input, sr_clientId = ''steer:'' @ si_operation input,
        sr_state = UncertainState, sr_observedAt = now\<rparr>, sg_reason = None\<rparr>"

definition resolved :: "bool \<Rightarrow> int \<Rightarrow> steering_operation \<Rightarrow> steering_operation" where
  "resolved accepted now o' = o'\<lparr>sg_phase := (if accepted then SgSubmitted else SgUncertain),
     sg_reason := (if accepted then None else Some ''native-acceptance-unresolved''),
     sg_receipt := (sg_receipt o')\<lparr>sr_state := (if accepted then SubmittedState else UncertainState), sr_observedAt := now\<rparr>\<rparr>"

definition with_operation :: "steering_journal \<Rightarrow> steering_operation \<Rightarrow> steering_journal" where
  "with_operation j o' = j\<lparr>sj_operations := sj_operations j @ [o']\<rparr>"

definition submit_guards :: "steer_env \<Rightarrow> steering_input \<Rightarrow> app_error + unit" where
  "submit_guards e input =
     (if \<not> sv_gated e \<or> \<not> sv_deliverable e then Inl (steeringFailure ''BUSY'' 409)
      else bind_result (requireNativeSteeringTurn (sv_thread e) input) (\<lambda>_.
        (case sv_pins e of Some x \<Rightarrow> Inl x
         | None \<Rightarrow> bind_result (requireSteeringTurn (sv_target e) (sv_owned e) input (sv_mutation e) (sv_statusLater e)) (\<lambda>_.
             (if sv_abortedLater e then Inl steering_unavailable else Inr ())))))"

definition submit :: "steer_env \<Rightarrow> principal \<Rightarrow> steering_input \<Rightarrow> steering_journal \<Rightarrow> steer_effect list \<times> (app_error + steering_receipt)" where
  "submit e who input journal =
     (if \<not> sv_connects e then ([], Inl steering_unavailable)
      else (let reopen = (if sv_gated e then [SGate True] else []) in (case submit_guards e input of
        Inl x \<Rightarrow> ([SGate False] @ reopen, Inl x)
      | Inr _ \<Rightarrow>
          (let op0 = steering_intent who input (sv_fingerprint e) (sv_now e); j0 = with_operation journal op0;
               op1 = resolved (sv_accepts e = Some (si_turn input)) (sv_later e) op0; j1 = with_operation journal op1
           in if \<not> sv_fits e j0 then ([SGate False] @ reopen, Inl steering_unavailable)
              else if \<not> sv_fits e j1 then ([SGate False, SJournal j0, SSteer (si_operation input)] @ reopen, Inl steering_unavailable)
              else ([SGate False, SJournal j0, SSteer (si_operation input), SJournal j1] @ reopen, Inr (sg_receipt op1))))))"

text \<open>A receipt that is not final is looked up by its own id; nothing is sent.\<close>

definition reconcileSteering :: "steer_env \<Rightarrow> steering_journal \<Rightarrow> steering_operation \<Rightarrow> steer_effect list \<times> (app_error + steering_receipt)" where
  "reconcileSteering e journal op =
     (if sg_phase op = SgSubmitted then ([], Inr (sg_receipt op))
      else (let accepted = (sv_connects e \<and> sv_found e (sr_clientId (sg_receipt op)) = Some (sr_turn (sg_receipt op)));
                op' = resolved accepted (sv_later e) op;
                j' = journal\<lparr>sj_operations := map (\<lambda>o'. if sr_operation (sg_receipt o') = sr_operation (sg_receipt op) then op' else o')
                       (sj_operations journal)\<rparr>
            in if sv_fits e j' then ([SJournal j'], Inr (sg_receipt op')) else ([], Inl steering_unavailable)))"

definition steerNativeTurn :: "steer_env \<Rightarrow> principal \<Rightarrow> steering_input \<Rightarrow> steer_effect list \<times> (app_error + steering_receipt)" where
  "steerNativeTurn e who input =
     (if sv_bytes e > STEERING_REQUEST_BYTES then ([], Inl (steeringFailure ''CAPACITY'' 409))
      else case steeringTarget (sv_target e) (sv_owned e) (si_registration input) False of
        Inl x \<Rightarrow> ([], Inl x)
      | Inr s \<Rightarrow>
          (if sv_application e
           then ([], Inl (AppError ''DELEGATION_REFUSED'' ''Application child input requires its attested message route'' 409))
           else case sv_aborted e of Some x \<Rightarrow> ([], Inl x)
           | None \<Rightarrow> (case readSteeringJournal s (sv_file e) of
               Inl x \<Rightarrow> ([], Inl x)
             | Inr journal \<Rightarrow> (case priorSteering journal who (si_operation input) (Some (sv_fingerprint e)) of
                 Inl x \<Rightarrow> ([], Inl x)
               | Inr (Some prior) \<Rightarrow> reconcileSteering e journal prior
               | Inr None \<Rightarrow>
                   (if length (sj_operations journal) \<ge> STEERING_OPERATIONS then ([], Inl (steeringFailure ''CAPACITY'' 409))
                    else case requireSteeringTurn (sv_target e) (sv_owned e) input (sv_mutation e) (sv_status e) of
                      Inl x \<Rightarrow> ([], Inl x)
                    | Inr _ \<Rightarrow> (case validateSteeringImages input (sv_pickup e) (sv_ledger e) (sv_options e) of Some x \<Rightarrow> ([], Inl x)
                      | None \<Rightarrow> if sv_typing e then ([], Inl (steeringFailure ''BUSY'' 409)) else submit e who input journal))))))"

definition readNativeSteering ::
  "steer_env \<Rightarrow> principal \<Rightarrow> string \<Rightarrow> string \<Rightarrow> steer_effect list \<times> (app_error + steering_receipt option)" where
  "readNativeSteering e who registration operationId =
     (case steeringTarget (sv_target e) (sv_owned e) registration False of
        Inl x \<Rightarrow> ([], Inl x)
      | Inr s \<Rightarrow> (case sv_aborted e of Some x \<Rightarrow> ([], Inl x)
        | None \<Rightarrow> (case readSteeringJournal s (sv_file e) of
            Inl x \<Rightarrow> ([], Inl x)
          | Inr journal \<Rightarrow> (case priorSteering journal who operationId None of
              Inl x \<Rightarrow> ([], Inl x)
            | Inr None \<Rightarrow> ([], Inr None)
            | Inr (Some prior) \<Rightarrow> (case reconcileSteering e journal prior of (es, r) \<Rightarrow> (es, map_sum id Some r))))))"

subsection \<open>Runs\<close>

text \<open>The stored journal, the calls the provider got and those it took into a turn.\<close>

record steer_world =
  sw_journal :: "steering_journal option"
  sw_sent :: "string list"
  sw_accepted :: "(string \<times> string) set"

fun steer_apply :: "(string \<times> string) set \<Rightarrow> steer_effect \<Rightarrow> steer_world \<Rightarrow> steer_world" where
  "steer_apply took (SGate b) w = w"
| "steer_apply took (SJournal j) w = w\<lparr>sw_journal := Some j\<rparr>"
| "steer_apply took (SSteer i) w = w\<lparr>sw_sent := sw_sent w @ [i], sw_accepted := sw_accepted w \<union> (took \<inter> {i} \<times> UNIV)\<rparr>"

text \<open>What is assumed of the provider: it answers a call with a turn only when it took the input into that turn,
  and it finds under an id only what it took.\<close>

definition honest :: "steer_world \<Rightarrow> (string \<times> string) set \<Rightarrow> steer_env \<Rightarrow> string \<Rightarrow> bool" where
  "honest w took e i = ((\<forall>t. sv_accepts e = Some t \<longrightarrow> (i, t) \<in> took)
     \<and> (\<forall>c t. sv_found e (''steer:'' @ c) = Some t \<longrightarrow> (c, t) \<in> sw_accepted w)
     \<and> (sv_file e = (case sw_journal w of None \<Rightarrow> None | Some j \<Rightarrow> Some (Some j))))"

inductive steer_step :: "steer_world \<Rightarrow> steer_world \<Rightarrow> bool" where
  steer: "honest w took e (si_operation input) \<Longrightarrow> steerNativeTurn e who input = (es, r) \<Longrightarrow>
    steer_step w (fold (steer_apply took) (take k es) w)"
| reads: "honest w took e operationId \<Longrightarrow> readNativeSteering e who registration operationId = (es, r) \<Longrightarrow>
    steer_step w (fold (steer_apply took) (take k es) w)"

inductive steer_reach :: "steer_world \<Rightarrow> bool" where
  start: "steer_reach \<lparr>sw_journal = None, sw_sent = [], sw_accepted = {}\<rparr>"
| step: "steer_reach w \<Longrightarrow> steer_step w w' \<Longrightarrow> steer_reach w'"

definition journal_ids :: "steering_journal \<Rightarrow> string list" where
  "journal_ids j = map (\<lambda>o'. sr_operation (sg_receipt o')) (sj_operations j)"

definition journal_true :: "(string \<times> string) set \<Rightarrow> steering_journal \<Rightarrow> bool" where
  "journal_true accepted j = (\<forall>o'\<in>set (sj_operations j). sr_clientId (sg_receipt o') = ''steer:'' @ sr_operation (sg_receipt o')
     \<and> (sg_phase o' = SgSubmitted \<longleftrightarrow> sr_state (sg_receipt o') = SubmittedState)
     \<and> (sr_state (sg_receipt o') = SubmittedState \<longrightarrow> (sr_operation (sg_receipt o'), sr_turn (sg_receipt o')) \<in> accepted))"

definition steer_inv :: "steer_world \<Rightarrow> bool" where
  "steer_inv w = (distinct (sw_sent w) \<and> (case sw_journal w of
      None \<Rightarrow> sw_sent w = []
    | Some j \<Rightarrow> distinct (journal_ids j) \<and> set (sw_sent w) \<subseteq> set (journal_ids j) \<and> journal_true (sw_accepted w) j))"

lemma journal_true_mono: "journal_true a j \<Longrightarrow> a \<subseteq> b \<Longrightarrow> journal_true b j"
  by (auto simp: journal_true_def)

lemma journal_ids_with [simp]: "journal_ids (with_operation j o') = journal_ids j @ [sr_operation (sg_receipt o')]"
  by (simp add: journal_ids_def with_operation_def)

lemma resolved_ids [simp]:
  "sr_operation (sg_receipt (resolved b now o')) = sr_operation (sg_receipt o')" "sr_turn (sg_receipt (resolved b now o')) = sr_turn (sg_receipt o')"
  "sr_clientId (sg_receipt (resolved b now o')) = sr_clientId (sg_receipt o')"
  by (simp_all add: resolved_def)

lemma intent_ids [simp]:
  "sr_operation (sg_receipt (steering_intent who input f now)) = si_operation input" "sr_turn (sg_receipt (steering_intent who input f now)) = si_turn input"
  "sr_clientId (sg_receipt (steering_intent who input f now)) = ''steer:'' @ si_operation input"
  by (simp_all add: steering_intent_def)

lemma true_with_intent: "journal_true a j \<Longrightarrow> journal_true a (with_operation j (steering_intent who input f now))"
  by (auto simp: journal_true_def with_operation_def steering_intent_def)

lemma true_with_resolved:
  assumes "journal_true a j" "b \<Longrightarrow> (si_operation input, si_turn input) \<in> a"
  shows "journal_true a (with_operation j (resolved b later (steering_intent who input f now)))"
  using assms by (auto simp: journal_true_def with_operation_def resolved_def steering_intent_def)

text \<open>The journal a call works with.\<close>

lemma journal_read:
  assumes "steer_inv w" "honest w took e i" "readSteeringJournal s (sv_file e) = Inr j"
  shows "distinct (journal_ids j) \<and> set (sw_sent w) \<subseteq> set (journal_ids j) \<and> journal_true (sw_accepted w) j"
  using assms by (auto simp: steer_inv_def honest_def readSteeringJournal_def journal_ids_def journal_true_def split: option.splits if_splits)

lemma priorSteering_None: "priorSteering j who i f = Inr None \<Longrightarrow> i \<notin> set (journal_ids j)"
  by (auto simp: priorSteering_def journal_ids_def find_None_iff split: option.splits if_splits)

lemma priorSteering_Some: "priorSteering j who i f = Inr (Some p) \<Longrightarrow> p \<in> set (sj_operations j)"
  by (auto simp: priorSteering_def dest: find_SomeD split: option.splits if_splits)

lemma steering_reconcile_inv:
  assumes inv: "steer_inv w" and h: "honest w took e i" and j: "readSteeringJournal s (sv_file e) = Inr j"
    and p: "p \<in> set (sj_operations j)" and r: "reconcileSteering e j p = (es, r)"
  shows "steer_inv (fold (steer_apply took) (take k es) w)"
proof -
  note J = journal_read [OF inv h j]
  let ?a = "sv_connects e \<and> sv_found e (sr_clientId (sg_receipt p)) = Some (sr_turn (sg_receipt p))"
  let ?j = "j\<lparr>sj_operations := map (\<lambda>o'. if sr_operation (sg_receipt o') = sr_operation (sg_receipt p) then resolved ?a (sv_later e) p else o')
      (sj_operations j)\<rparr>"
  have es: "es = [] \<or> es = [SJournal ?j]" using r by (auto simp: reconcileSteering_def Let_def split: if_splits)
  have ids: "journal_ids ?j = journal_ids j" by (simp add: journal_ids_def)
  have client: "sr_clientId (sg_receipt p) = ''steer:'' @ sr_operation (sg_receipt p)" using J p by (simp add: journal_true_def)
  have "?a \<Longrightarrow> (sr_operation (sg_receipt p), sr_turn (sg_receipt p)) \<in> sw_accepted w"
    using h unfolding client by (auto simp: honest_def)
  then have "journal_true (sw_accepted w) ?j"
    using J client by (auto simp: journal_true_def resolved_def)
  then have "steer_inv (w\<lparr>sw_journal := Some ?j\<rparr>)" using J inv by (simp add: steer_inv_def ids)
  with inv es show ?thesis by (cases k) auto
qed

lemma submit_effects:
  obtains (none) "\<forall>x\<in>set (fst (submit e who input j)). \<exists>b. x = SGate b"
  | (lost) g where "fst (submit e who input j) = [SGate False, SJournal (with_operation j (steering_intent who input (sv_fingerprint e) (sv_now e))),
      SSteer (si_operation input)] @ g" "\<forall>x\<in>set g. \<exists>b. x = SGate b"
  | (all) g where "fst (submit e who input j) = [SGate False, SJournal (with_operation j (steering_intent who input (sv_fingerprint e) (sv_now e))),
      SSteer (si_operation input), SJournal (with_operation j (resolved (sv_accepts e = Some (si_turn input)) (sv_later e)
        (steering_intent who input (sv_fingerprint e) (sv_now e))))] @ g" "\<forall>x\<in>set g. \<exists>b. x = SGate b"
proof -
  let ?op0 = "steering_intent who input (sv_fingerprint e) (sv_now e)"
  let ?op1 = "resolved (sv_accepts e = Some (si_turn input)) (sv_later e) ?op0"
  let ?g = "if sv_gated e then [SGate True] else []"
  have g: "\<forall>x\<in>set ?g. \<exists>b. x = SGate b" by (cases "sv_gated e") auto
  consider "fst (submit e who input j) = [] \<or> fst (submit e who input j) = [SGate False] @ ?g"
    | "fst (submit e who input j) = [SGate False, SJournal (with_operation j ?op0), SSteer (si_operation input)] @ ?g"
    | "fst (submit e who input j) = [SGate False, SJournal (with_operation j ?op0), SSteer (si_operation input),
        SJournal (with_operation j ?op1)] @ ?g"
    by (cases "sv_connects e"; cases "submit_guards e input"; cases "sv_fits e (with_operation j ?op0)";
        cases "sv_fits e (with_operation j ?op1)") (simp_all add: submit_def Let_def)
  then show ?thesis
  proof cases
    case 1
    with g have "\<forall>x\<in>set (fst (submit e who input j)). \<exists>b. x = SGate b" by auto
    then show ?thesis by (rule none)
  next
    case 2
    then show ?thesis using g by (rule lost)
  next
    case 3
    then show ?thesis using g by (rule all)
  qed
qed

lemma gates_only: "\<forall>x\<in>set es. \<exists>b. x = SGate b \<Longrightarrow> fold (steer_apply took) es w = w"
  by (induction es) auto

lemma submit_inv:
  assumes inv: "steer_inv w" and h: "honest w took e (si_operation input)" and j: "readSteeringJournal s (sv_file e) = Inr j"
    and new: "si_operation input \<notin> set (journal_ids j)"
  shows "steer_inv (fold (steer_apply took) (take k (fst (submit e who input j))) w)"
proof -
  note J = journal_read [OF inv h j]
  let ?i = "si_operation input" and ?f = "sv_fingerprint e"
  let ?j0 = "with_operation j (steering_intent who input ?f (sv_now e))"
  let ?j1 = "with_operation j (resolved (sv_accepts e = Some (si_turn input)) (sv_later e) (steering_intent who input ?f (sv_now e)))"
  let ?w0 = "w\<lparr>sw_journal := Some ?j0\<rparr>"
  let ?w1 = "?w0\<lparr>sw_sent := sw_sent w @ [?i], sw_accepted := sw_accepted w \<union> (took \<inter> {?i} \<times> UNIV)\<rparr>"
  have d: "distinct (sw_sent w)" "?i \<notin> set (sw_sent w)" using inv J new by (auto simp: steer_inv_def)
  have i0: "steer_inv ?w0" using J new d true_with_intent by (auto simp: steer_inv_def)
  have i1: "steer_inv ?w1"
    using J new d true_with_intent journal_true_mono [OF _ Un_upper1] by (auto simp: steer_inv_def)
  have "sv_accepts e = Some (si_turn input) \<Longrightarrow> (?i, si_turn input) \<in> sw_accepted w \<union> (took \<inter> {?i} \<times> UNIV)"
    using h by (auto simp: honest_def)
  then have i2: "steer_inv (?w1\<lparr>sw_journal := Some ?j1\<rparr>)"
    using J new d true_with_resolved journal_true_mono [OF _ Un_upper1, of "sw_accepted w" j] by (auto simp: steer_inv_def)
  show ?thesis
  proof (cases rule: submit_effects [of e who input j])
    case none
    then have "\<forall>x\<in>set (take k (fst (submit e who input j))). \<exists>b. x = SGate b" by (meson in_set_takeD)
    with inv show ?thesis by (simp add: gates_only)
  next
    case (lost g)
    have "\<forall>x\<in>set (take n g). \<exists>b. x = SGate b" for n using lost(2) by (meson in_set_takeD)
    then show ?thesis
      using inv i0 i1 by (auto simp: lost(1) take_Cons' gates_only split: nat.split)
  next
    case (all g)
    have "\<forall>x\<in>set (take n g). \<exists>b. x = SGate b" for n using all(2) by (meson in_set_takeD)
    then show ?thesis
      using inv i0 i1 i2 by (auto simp: all(1) take_Cons' gates_only split: nat.split)
  qed
qed

lemma steer_step_inv:
  assumes "steer_step w w'" "steer_inv w"
  shows "steer_inv w'"
  using assms(1)
proof cases
  case (steer took e input who es r k)
  show ?thesis
  proof (cases "\<exists>s j p. readSteeringJournal s (sv_file e) = Inr j \<and> p \<in> set (sj_operations j) \<and> reconcileSteering e j p = (es, r)")
    case True
    with steering_reconcile_inv [OF assms(2) steer(2)] steer(1) show ?thesis by blast
  next
    case False
    show ?thesis
    proof (cases "\<exists>s j. readSteeringJournal s (sv_file e) = Inr j \<and> si_operation input \<notin> set (journal_ids j) \<and> es = fst (submit e who input j)")
      case True
      with submit_inv [OF assms(2) steer(2)] steer(1) show ?thesis by blast
    next
      case f: False
      from steer(3) False f have "es = []"
        by (fastforce simp: steerNativeTurn_def dest: priorSteering_None priorSteering_Some split: if_splits sum.splits option.splits)
      with steer(1) assms(2) show ?thesis by simp
    qed
  qed
next
  case (reads took e operationId who registration es r k)
  show ?thesis
  proof (cases "\<exists>s j p r'. readSteeringJournal s (sv_file e) = Inr j \<and> p \<in> set (sj_operations j) \<and> reconcileSteering e j p = (es, r')")
    case True
    with steering_reconcile_inv [OF assms(2) reads(2)] reads(1) show ?thesis by blast
  next
    case False
    with reads(3) have "es = []"
      by (fastforce simp: readNativeSteering_def dest: priorSteering_Some split: if_splits sum.splits option.splits prod.splits)
    with reads(1) assms(2) show ?thesis by simp
  qed
qed

lemma steer_reach_inv: "steer_reach w \<Longrightarrow> steer_inv w"
proof (induction rule: steer_reach.induct)
  case start
  show ?case by (simp add: steer_inv_def)
next
  case (step w w')
  then show ?case by (blast intro: steer_step_inv)
qed

text \<open>Input to the pane is on again at the end of every call that turned it off.\<close>

lemma gate_reopened:
  assumes "SGate False \<in> set (fst (submit e who input j))" "sv_gated e"
  shows "last (fst (submit e who input j)) = SGate True"
  using assms by (auto simp: submit_def Let_def split: sum.splits if_splits)

end
