(* ===== verification/DelegationProperties.thy ===== *)
theory DelegationProperties
  imports Samples DelegationInv Steering
begin

text \<open>
  Authority and its limits: every delegated session is rooted in a grant, ends with the run it belongs to and
  is cancelled only on proof; input into a running turn is sent at most once.
\<close>

subsection \<open>Sample values\<close>

definition a_policy :: policy where "a_policy = \<lparr>po_access = ReadOnly, po_workspace = [''w'']\<rparr>"

definition a_grant :: delegation_request where
  "a_grant = \<lparr>dq_target = ManagedParent a_peer, dq_generation = ''g1'',
     dq_policy = \<lparr>po_access = WorkspaceWrite, po_workspace = [''w'']\<rparr>, dq_deadlineAt = Some (Instant 9000)\<rparr>"

definition a_request :: delegation_request where
  "a_request = \<lparr>dq_target = ManagedParent a_peer, dq_generation = ''g1'', dq_policy = a_policy, dq_deadlineAt = None\<rparr>"

definition a_parent :: delegated where
  "a_parent = \<lparr>de_generation = Some ''g1'', de_archived = False, de_native = True, de_dir = [''w''], de_delegation = None\<rparr>"

definition an_attribution :: attribution where
  "an_attribution = \<lparr>at_application = ''app'', at_channel = ''ch'', at_actor = Agent\<rparr>"

definition an_env :: app_env where
  "an_env = \<lparr>ae_prefix = ''m1'',
     ae_grants = [\<lparr>ag_binding = \<lparr>ib_attribution = an_attribution, ib_revision = ''r1''\<rparr>, ag_policy = a_policy,
       ag_leaseMs = 100, ag_lifetimeMs = 1000\<rparr>],
     ae_applications = [''app'' \<mapsto> \<lparr>ab_callers = [''m1''], ab_channels = [''ch''], ab_actors = [Agent],
       ab_ownerNotifications = False, ab_revision = ''r1''\<rparr>],
     ae_digest = (\<lambda>_. ''d''), ae_canonical = (\<lambda>_. True), ae_now = 0\<rparr>"

definition an_open :: authority_open where
  "an_open = \<lparr>oi_operation = ''o1'', oi_binding = \<lparr>ib_attribution = an_attribution, ib_revision = ''r1''\<rparr>,
     oi_conversation = ''c'', oi_run = ''r'', oi_sourceRef = ''s'', oi_quote = ''q''\<rparr>"

definition a_world :: delegation_world where
  "a_world = \<lparr>dw_env = an_env, dw_store = Map.empty, dw_sessions = [a_peer \<mapsto> a_parent], dw_grants = [a_grant], dw_realpath = Some\<rparr>"

definition a_service :: principal where "a_service = FromService ''m1'' TransportLocal"

definition a_delegation :: delegation where
  "a_delegation = \<lparr>dl_request = a_request\<lparr>dq_deadlineAt := Some (Instant 9000)\<rparr>, dl_requestId = ''q1'', dl_authority = None, dl_digest = ''x''\<rparr>"

subsection \<open>Delegation\<close>

text \<open>C10: Through however many generations of children, and whatever operations on authorities come between, a
  delegated session never has full access, and what it may do is within the grant of the host, or the
  authority of the application's run, that it is rooted in: at most its access, inside its workspace and not
  after its deadline.\<close>

theorem delegated_authority_is_rooted:
  assumes "delegation_reach digest granted s" "\<forall>g\<in>granted. readable (dq_deadlineAt g)"
    and "ds_sessions s t = Some c" "de_delegation c = Some d"
  shows "po_access (dq_policy (dl_request d)) \<noteq> FullAccess
    \<and> (case dl_authority d of
        None \<Rightarrow> \<exists>g\<in>granted. within_authority (request_of d) (dq_policy g, dq_deadlineAt g, None)
      | Some r \<Rightarrow> \<exists>row. ds_store s (pa_authority (se_target r)) = Some row \<and> ay_parent row = r
          \<and> within_authority (request_of d) (ay_policy row, Some (Instant (ay_deadlineAt row)), Some r))"
  using delegation_reach_rooted [OF assms(1,2)] assms(3,4) by (auto simp: rooted_state_def rooted_def)

lemma a_delegation_resolved:
  "resolveDelegation (\<lambda>_. ''x'') a_world ''codex'' ''native'' [''w''] ''q1'' a_request (Some a_service) = Inr a_delegation"
  by (simp add: resolveDelegation_def inherited_of_def host_grant_def resolve_within_def a_world_def a_request_def a_grant_def
      a_parent_def a_policy_def a_delegation_def expired_def sooner_def narrowPolicy_def withinWorkspace_def an_env_def)

theorem delegated_authority_is_rooted_witness:
  "within_authority (request_of a_delegation) (dq_policy a_grant, dq_deadlineAt a_grant, None)"
proof -
  let ?start = "\<lparr>ds_store = Map.empty, ds_sessions = Map.empty\<rparr>"
  let ?with = "?start\<lparr>ds_sessions := (ds_sessions ?start)(a_peer \<mapsto> a_parent)\<rparr>"
  let ?child = "a_parent\<lparr>de_delegation := Some a_delegation\<rparr>"
  let ?after = "?with\<lparr>ds_sessions := (ds_sessions ?with)(b_peer \<mapsto> ?child)\<rparr>"
  have "delegation_step (\<lambda>_. ''x'') {a_grant} ?start ?with" by (rule delegation_step.plain) (simp add: a_parent_def)
  moreover have "delegation_step (\<lambda>_. ''x'') {a_grant} ?with ?after"
    by (rule delegation_step.child [OF _ _ _ a_delegation_resolved])
      (simp_all add: a_world_def canonical_path_def a_request_def readable_def)
  ultimately have "delegation_reach (\<lambda>_. ''x'') {a_grant} ?after"
    by (blast intro: delegation_reach.start delegation_reach.step)
  from delegated_authority_is_rooted [OF this, of b_peer ?child a_delegation] show ?thesis
    by (auto simp: a_grant_def readable_def a_delegation_def)
qed


definition opened :: authority where
  "opened = new_authority an_env ''m1'' (hd (ae_grants an_env)) ''d'' ''g'' an_open"


text \<open>Whatever was done with an application's authority before, its issuer can close it: no number of renewals
  fills the journal of operations so that the closing one is refused.\<close>

lemma authority_can_be_closed:
  assumes "store = fold authority_step operations Map.empty"
    and "store (pa_authority (se_target (ui_parent input))) = Some row" "ay_parent row = ui_parent input"
    and "pa_machine (se_target (ui_parent input)) = ae_prefix e" "issuer e who row = Inr g" "ay_closedAt row = None"
    and "ui_operation input \<notin> set (oi_operation (ay_open row) # map ao_id (ay_operations row))"
  shows "\<exists>r store' row'. updateApplicationAuthority e fp iso_text who input True store = Inr (r, store')
    \<and> store' (pa_authority (se_target (ui_parent input))) = Some row' \<and> ay_closedAt row' = Some (ae_now e)"
proof -
  have "authorities_ok Map.empty" by (simp add: authorities_ok_def)
  then have "authorities_ok store" unfolding assms(1) by (rule authority_bounds.run_inv)
  then show ?thesis using assms(2-) by (rule closing_is_never_full)
qed

lemma opened_issuer:
  "issuer_grant an_env a_service (oi_binding an_open) = Inr (hd (ae_grants an_env), ''d'')"
  "issuer an_env a_service opened = Inr (hd (ae_grants an_env))"
  by (simp_all add: issuer_grant_def issuer_def opened_def new_authority_def admitMessageOrigin_def principalOrigin_def an_env_def
      a_service_def an_open_def an_attribution_def)



definition a_process :: process_row where
  "a_process = \<lparr>ps_pid = 5, ps_ppid = 1, ps_group = 5, ps_start = ''9''\<rparr>"

definition an_ownership :: ownership where
  "an_ownership = \<lparr>ow_generation = Some ''g1'', ow_owner = a_process, ow_provider = a_process, ow_baseline = []\<rparr>"

definition a_child :: delegated where "a_child = a_parent\<lparr>de_delegation := Some a_delegation\<rparr>"


subsection \<open>Steering\<close>

text \<open>C11: Input into a running turn reaches the provider at most once per operation, whatever crashes and is
  retried, and a receipt in the journal says that it was submitted only when the provider took it into the
  turn that was named.\<close>

theorem steering_sent_once:
  assumes "steer_reach w"
  shows "distinct (sw_sent w)
    \<and> (\<forall>j o'. sw_journal w = Some j \<longrightarrow> o' \<in> set (sj_operations j) \<longrightarrow> sr_state (sg_receipt o') = SubmittedState \<longrightarrow>
         (sr_operation (sg_receipt o'), sr_turn (sg_receipt o')) \<in> sw_accepted w)"
  using steer_reach_inv [OF assms] by (auto simp: steer_inv_def journal_true_def split: option.splits)

definition an_input :: steering_input where
  "an_input = \<lparr>si_target = a_peer, si_registration = ''g1'', si_operation = ''o1'', si_generation = ''n1'', si_turn = ''u1'', si_images = 0\<rparr>"

definition running_status :: steer_status where
  "running_status = \<lparr>ss_live = True, ss_connected = True, ss_generation = ''n1'', ss_state = NsWorking,
     ss_turn = Some \<lparr>nt_id = ''u1'', nt_status = TsInProgress\<rparr>, ss_pending = 0\<rparr>"

definition steer_sample :: steer_env where
  "steer_sample = \<lparr>sv_target = Some a_session, sv_owned = (\<lambda>_. True), sv_application = False, sv_bytes = 10, sv_aborted = None,
     sv_file = None, sv_fingerprint = ''f'', sv_mutation = None, sv_status = Some running_status, sv_pickup = None, sv_ledger = [], sv_options = None,
     sv_typing = False, sv_connects = True, sv_gated = True, sv_deliverable = True, sv_thread = Some (''t1'', True, 0),
     sv_pins = None, sv_statusLater = Some running_status, sv_abortedLater = False, sv_accepts = Some ''u1'',
     sv_now = 1, sv_later = 2, sv_fits = (\<lambda>_. True), sv_found = Map.empty\<rparr>"

theorem steering_sent_once_witness:
  "let w = fold (steer_apply {(''o1'', ''u1'')}) (fst (steerNativeTurn steer_sample a_service an_input))
         \<lparr>sw_journal = None, sw_sent = [], sw_accepted = {}\<rparr>
   in sw_sent w = [''o1''] \<and> (''o1'', ''u1'') \<in> sw_accepted w \<and> distinct (sw_sent w)"
proof -
  let ?start = "\<lparr>sw_journal = None, sw_sent = [], sw_accepted = {}\<rparr>"
  let ?r = "steerNativeTurn steer_sample a_service an_input"
  let ?w = "fold (steer_apply {(''o1'', ''u1'')}) (fst ?r) ?start"
  have read: "readSteeringJournal a_session None = Inr \<lparr>sj_registration = Some ''g1'', sj_thread = ''t1'', sj_operations = []\<rparr>"
    by (simp add: readSteeringJournal_def)
  have eff: "\<exists>j j'. fst ?r = [SGate False, SJournal j, SSteer ''o1'', SJournal j', SGate True]"
    by (simp add: steerNativeTurn_def steer_sample_def steeringTarget_def read priorSteering_def requireSteeringTurn_def submit_def
        submit_guards_def requireNativeSteeringTurn_def validateSteeringImages_def running_status_def an_input_def STEERING_REQUEST_BYTES_def
        STEERING_OPERATIONS_def Let_def a_peer_def)
  have "honest ?start {(''o1'', ''u1'')} steer_sample (si_operation an_input)"
    by (simp add: honest_def steer_sample_def an_input_def)
  then have step: "steer_step ?start (fold (steer_apply {(''o1'', ''u1'')}) (take 5 (fst ?r)) ?start)"
    by (rule steer_step.steer) (rule prod.collapse [symmetric])
  have five: "take 5 (fst ?r) = fst ?r" using eff by auto
  have "steer_reach ?w" using steer_reach.step [OF steer_reach.start step] unfolding five .
  from steering_sent_once [OF this] eff show ?thesis by (auto simp: Let_def)
qed

end
