(* ===== verification/Capabilities.thy ===== *)
theory Capabilities
  imports Registry Mailbox
begin

text \<open>
  Which modes an agent has and what a session of a mode can do (\<open>src/runtime/modes.ts\<close>, \<open>capabilities.ts\<close>,
  \<open>creation.ts\<close>).  A record of booleans is the set of its true fields.
\<close>

record runtime_modes =
  rm_native :: runtime_mode
  rm_interactive :: "runtime_mode option"
  rm_fallback :: runtime_mode
  rm_creatable :: "runtime_mode list"
  rm_keepsTerminal :: bool

fun runtimeModes :: "agent_kind \<Rightarrow> runtime_modes" where
  "runtimeModes Claude = \<lparr>rm_native = Native, rm_interactive = Some Tui, rm_fallback = Tui, rm_creatable = [Tui, Native],
     rm_keepsTerminal = False\<rparr>"
| "runtimeModes Codex = \<lparr>rm_native = AppServer, rm_interactive = Some Tui, rm_fallback = AppServer, rm_creatable = [AppServer],
     rm_keepsTerminal = True\<rparr>"
| "runtimeModes Opencode = \<lparr>rm_native = Native, rm_interactive = None, rm_fallback = Native, rm_creatable = [Native],
     rm_keepsTerminal = False\<rparr>"
| "runtimeModes Custom = \<lparr>rm_native = Native, rm_interactive = None, rm_fallback = Native, rm_creatable = [Native],
     rm_keepsTerminal = False\<rparr>"

definition hasNativeRuntime :: "agent_kind \<Rightarrow> runtime_mode option \<Rightarrow> bool" where
  "hasNativeRuntime a r = (r = Some (rm_native (runtimeModes a)))"

definition resolveRuntimeMode :: "agent_kind \<Rightarrow> runtime_mode option \<Rightarrow> runtime_mode" where
  "resolveRuntimeMode a requested =
     (let declared = runtimeModes a in
      case requested of
        None \<Rightarrow> rm_fallback declared
      | Some r \<Rightarrow> if length (rm_creatable declared) < 2 then rm_fallback declared
          else if r \<in> set (rm_creatable declared) then r else rm_fallback declared)"

definition hasNoComposer :: "agent_kind \<Rightarrow> runtime_mode option \<Rightarrow> bool" where
  "hasNoComposer a r = (hasNativeRuntime a r \<and> \<not> rm_keepsTerminal (runtimeModes a))"

definition runtimeModeIsValid :: "agent_kind \<Rightarrow> runtime_mode \<Rightarrow> bool" where
  "runtimeModeIsValid a r = (r = rm_native (runtimeModes a) \<or> Some r = rm_interactive (runtimeModes a))"

datatype capability = Structured | ModelCatalog | ModelSelection | Approval | InputCap | NativeStream | InterruptCap | Resume
  | ImageInput | SelectionDefaults | TurnOptions | TurnSteering | HistoryCap | ForkCap | Compaction | Rollback
  | ApplicationPolicy | CommandCatalog | PermissionModes | FileCheckpoints | McpControl | NoInference
  | DelegationCap | SleepCap

definition nativeOperations :: "capability list" where
  "nativeOperations = [ImageInput, SelectionDefaults, TurnOptions, HistoryCap, ForkCap, Compaction, ApplicationPolicy]"

definition structured_operations :: "capability list" where
  "structured_operations = [Structured, ModelCatalog, ModelSelection, Approval, InputCap, NativeStream, InterruptCap, Resume]"

text \<open>What each agent declares for its native mode.\<close>

fun declared_capabilities :: "agent_kind \<Rightarrow> capability set" where
  "declared_capabilities Claude = set (structured_operations @ [NoInference, SelectionDefaults, TurnOptions, ImageInput,
     CommandCatalog, PermissionModes, FileCheckpoints, McpControl, HistoryCap, ForkCap, Compaction])"
| "declared_capabilities Codex = set (structured_operations @ nativeOperations @ [TurnSteering])"
| "declared_capabilities Opencode = set (structured_operations @ nativeOperations)"
| "declared_capabilities Custom = set [Structured, ModelCatalog, ModelSelection, Approval, NativeStream, InterruptCap, Resume,
     SelectionDefaults, TurnOptions, HistoryCap, ImageInput]"

text \<open>The operations that \<open>unsupportedNativeOperations\<close> and the explicit fields of the degraded row take away.\<close>

definition native_only :: "capability set" where
  "native_only = {Structured, ModelCatalog, ModelSelection, Approval, InputCap, NativeStream, InterruptCap, CommandCatalog,
     PermissionModes, FileCheckpoints, McpControl, ImageInput, SelectionDefaults, TurnOptions, TurnSteering, HistoryCap,
     ForkCap, Compaction, Rollback, ApplicationPolicy, NoInference}"

text \<open>\<open>delegated\<close>: absent, or whether an application's run stands behind the delegation.\<close>

definition runtimeCapabilities :: "agent_kind \<Rightarrow> runtime_mode option \<Rightarrow> bool option \<Rightarrow> capability set" where
  "runtimeCapabilities a r delegated =
     (if \<not> hasNativeRuntime a r then declared_capabilities a - native_only
      else (declared_capabilities a - (if delegated = Some True then {TurnSteering, Approval, InputCap} else {}))
        \<union> (if a \<in> {Codex, Claude} then {DelegationCap} else {})
        \<union> (if a \<in> {Codex, Claude} \<and> delegated \<noteq> None then {SleepCap} else {}))"

text \<open>The reason a runtime gives for its creation.\<close>

fun creation_reason :: "agent_kind \<Rightarrow> runtime_mode option \<Rightarrow> string" where
  "creation_reason a r = (if \<not> hasNativeRuntime a r then ''provider-initialization-not-certified''
     else case a of Claude \<Rightarrow> ''delegated-input-only'' | Codex \<Rightarrow> ''native-rollout-requires-bootstrap''
       | _ \<Rightarrow> ''provider-initialization-not-certified'')"

text \<open>A model selection is its provider and model.\<close>

definition assertInferenceFreeCreate ::
  "agent_kind \<Rightarrow> runtime_mode option \<Rightarrow> bool \<Rightarrow> bool \<Rightarrow> (string \<times> string) option \<Rightarrow> app_error option" where
  "assertInferenceFreeCreate a r noInference delegated selection =
     (if \<not> noInference then None
      else if NoInference \<notin> runtimeCapabilities a r None
      then Some (AppError ''NO_INFERENCE_CREATE_UNSUPPORTED'' (''No-inference create is unsupported: '' @ creation_reason a r) 409)
      else if \<not> delegated \<or> (case selection of None \<Rightarrow> True | Some (provider, model) \<Rightarrow> provider \<noteq> ''claude'' \<or> model = ''default'')
      then Some (AppError ''NO_INFERENCE_CREATE_REQUIREMENTS''
        ''No-inference create requires immutable delegation and an explicit provider/model'' 409)
      else None)"

subsection \<open>The table is coherent\<close>

lemma resolved_mode_valid: "runtimeModeIsValid a (resolveRuntimeMode a requested) \<and> resolveRuntimeMode a requested \<in> set (rm_creatable (runtimeModes a))"
  by (cases a; cases requested) (auto simp: resolveRuntimeMode_def runtimeModeIsValid_def Let_def)

lemma resolve_again: "resolveRuntimeMode a (Some (resolveRuntimeMode a requested)) = resolveRuntimeMode a requested"
  by (cases a; cases requested) (auto simp: resolveRuntimeMode_def Let_def)

text \<open>A session without a native runtime can only be resumed; an application's child takes no input of its own.\<close>

lemma degraded_capabilities: "\<not> hasNativeRuntime a r \<Longrightarrow> runtimeCapabilities a r d \<subseteq> {Resume}"
  by (cases a) (auto simp: runtimeCapabilities_def native_only_def structured_operations_def nativeOperations_def)

lemma application_child_input: "runtimeCapabilities a r (Some True) \<inter> {TurnSteering, Approval, InputCap} = {}"
  by (cases a) (auto simp: runtimeCapabilities_def native_only_def structured_operations_def nativeOperations_def)

text \<open>A session that creates without inference is a delegated native Claude with a named model.\<close>

lemma inference_free:
  assumes "assertInferenceFreeCreate a r True delegated selection = None"
  shows "a = Claude \<and> r = Some Native \<and> delegated \<and> (\<exists>model. selection = Some (''claude'', model) \<and> model \<noteq> ''default'')"
proof -
  from assms have n: "NoInference \<in> runtimeCapabilities a r None" "delegated"
    "\<exists>model. selection = Some (''claude'', model) \<and> model \<noteq> ''default''"
    by (auto simp: assertInferenceFreeCreate_def split: if_splits option.splits)
  have "hasNativeRuntime a r" using n(1) degraded_capabilities [of a r None] by auto
  with n show ?thesis
    by (cases a) (auto simp: runtimeCapabilities_def hasNativeRuntime_def structured_operations_def nativeOperations_def)
qed

end
