(* ===== verification/ControlCreate.thy ===== *)
theory ControlCreate
  imports Capabilities
begin

text \<open>
  Creating a session on request (\<open>createControlSession\<close> of \<open>src/control/lifecycle.ts\<close>, \<open>createReceipts.ts\<close>): the
  checks of a request, the durable receipt and everything that follows under the lock of the request.
  The registry, pending rows, the process that is started and the policy stores are arguments.
\<close>

record create_input =
  ci_request :: string
  ci_runtime :: "agent_kind option"
  ci_mode :: "runtime_mode option"
  ci_name :: string
  ci_workspace :: string
  ci_flags :: "string list option"
  ci_recipe :: "string option"
  ci_model :: "(string \<times> string) option"
  ci_noInference :: bool
  ci_policy :: "string option"
  ci_delegation :: "string option"

text \<open>The part of a request that its fingerprint covers.\<close>

record create_canonical =
  cc_name :: string
  cc_workspace :: string
  cc_flags :: "string list"
  cc_runtime :: "agent_kind option"
  cc_envFile :: "string option"
  cc_recipe :: "string option"
  cc_model :: "(string \<times> string) option"
  cc_noInference :: bool
  cc_policy :: "string option"
  cc_delegation :: "string option"
  cc_mode :: "runtime_mode option"
  cc_fork :: "string option"

datatype create_status = CreatePending | CreateComplete | CreateFailed

record create_row =
  cw_request :: string
  cw_fingerprint :: string
  cw_generation :: string
  cw_canonical :: create_canonical
  cw_status :: create_status
  cw_thread :: "string option"
  cw_error :: "string option"

definition CREATE_ROWS :: nat where "CREATE_ROWS = 256"

text \<open>The created session as \<open>matchingSession\<close> finds it.\<close>

record created =
  cs_uuid :: string
  cs_canonical :: create_canonical
  cs_agent :: agent_kind

subsection \<open>Checks before the lock\<close>

text \<open>\<open>workspace\<close> is the canonical directory, or none; \<open>recipe\<close>, \<open>custom\<close> and \<open>policy\<close> are what
  \<open>resolveControlLaunchRecipe\<close>, \<open>customModel\<close> and \<open>resolveApplicationPolicy\<close> answer; \<open>fork\<close> is the admitted source
  with its own launch; \<open>authority\<close> answers \<open>requireApplicationAuthority\<close> before and after the delegation.\<close>

record resolved_launch =
  rl_flags :: "string list"
  rl_envFile :: "string option"
  rl_recipe :: "string option"

record create_checks =
  ck_workspace :: "string option"
  ck_fork :: "(string \<times> resolved_launch \<times> string option) option"
  ck_recipe :: "app_error + resolved_launch"
  ck_custom :: "app_error + (string \<times> string)"
  ck_policy :: "app_error + string"
  ck_authorityBefore :: "app_error option"
  ck_delegation :: "app_error + string"
  ck_authorityAfter :: "app_error option"
  ck_modelFlags :: "(string \<times> string) option \<Rightarrow> string list"

definition guard_result :: "bool \<Rightarrow> app_error \<Rightarrow> app_error + unit" where
  "guard_result b e = (if b then Inl e else Inr ())"

definition none_result :: "app_error option \<Rightarrow> app_error + unit" where
  "none_result x = (case x of Some e \<Rightarrow> Inl e | None \<Rightarrow> Inr ())"

definition create_guards :: "create_input \<Rightarrow> create_checks \<Rightarrow> app_error + string" where
  "create_guards i k =
     (let runtime = nullish (ci_runtime i) Codex; mode = resolveRuntimeMode runtime (ci_mode i); flagged = (nullish (ci_flags i) [] \<noteq> [])
      in bind_result (none_result (assertInferenceFreeCreate runtime (Some mode) (ci_noInference i) (ci_delegation i \<noteq> None) (ci_model i))) (\<lambda>_.
         (case ck_workspace k of
            None \<Rightarrow> Inl (AppError ''INVALID_WORKSPACE'' ''Workspace does not exist'' 400)
          | Some w \<Rightarrow>
            bind_result (guard_result (runtime \<noteq> Codex \<and> runtime \<noteq> Custom \<and> ci_recipe i \<noteq> None)
              (AppError ''UNSUPPORTED'' ''This runtime does not accept a Codex launch recipe'' 409)) (\<lambda>_.
            bind_result (guard_result (runtime \<noteq> Codex \<and> flagged)
              (AppError ''INVALID_INPUT'' ''This runtime requires typed configuration without caller flags'' 400)) (\<lambda>_.
            bind_result (guard_result (ci_model i \<noteq> None \<and> ModelSelection \<notin> runtimeCapabilities runtime (Some mode) None)
              (AppError ''UNSUPPORTED'' ''Model selection is provider-owned for this runtime'' 409)) (\<lambda>_.
            bind_result (guard_result (ci_model i \<noteq> None \<and> flagged)
              (AppError ''INVALID_INPUT'' ''Typed model selection cannot carry caller flags'' 400)) (\<lambda>_. Inr w)))))))"

text \<open>A new delegated Claude conversation is pinned to the provider's default; a custom one takes its recipe's model.\<close>

definition create_model :: "create_input \<Rightarrow> create_checks \<Rightarrow> app_error + (string \<times> string) option" where
  "create_model i k =
     (let runtime = nullish (ci_runtime i) Codex;
          pinned = (if runtime = Claude \<and> ci_delegation i \<noteq> None \<and> ci_model i = None then Some (''claude'', ''default'') else ci_model i)
      in if runtime \<noteq> Custom then Inr pinned
         else if ci_policy i \<noteq> None then Inl (AppError ''UNSUPPORTED'' ''Custom composition is owned by its launch recipe'' 409)
         else (case ck_custom k of
             Inl _ \<Rightarrow> Inl (AppError ''LAUNCH_RECIPE_UNAVAILABLE'' ''Launch recipe is unavailable'' 409)
           | Inr s \<Rightarrow> Inr (Some s)))"

text \<open>\<open>ci_delegation\<close> names the requested delegation, \<open>ck_delegation\<close> its resolution (or the one of the stored row);
  \<open>application\<close>: its parent is an application's run, \<open>managed\<close>: the caller is a managed session.\<close>

definition create_request :: "bool \<Rightarrow> bool \<Rightarrow> create_input \<Rightarrow> create_checks \<Rightarrow> app_error + create_canonical" where
  "create_request application managed i k =
     bind_result (create_guards i k) (\<lambda>w.
     bind_result (case ck_fork k of Some (_, l, _) \<Rightarrow> Inr l | None \<Rightarrow> ck_recipe k) (\<lambda>l.
     bind_result (create_model i k) (\<lambda>model.
     bind_result (case Option.bind (ck_fork k) (\<lambda>(_, _, p). p) of Some p \<Rightarrow> Inr (Some p)
         | None \<Rightarrow> (case ci_policy i of None \<Rightarrow> Inr None | Some _ \<Rightarrow> map_sum id Some (ck_policy k))) (\<lambda>policy.
     bind_result (if application then none_result (ck_authorityBefore k) else Inr ()) (\<lambda>_.
     bind_result (case ci_delegation i of None \<Rightarrow> Inr None | Some _ \<Rightarrow> map_sum id Some (ck_delegation k)) (\<lambda>delegation.
     bind_result (if delegation \<noteq> None \<and> \<not> managed then none_result (ck_authorityAfter k) else Inr ()) (\<lambda>_.
     bind_result (guard_result (delegation \<noteq> None \<and> (ci_recipe i \<noteq> None \<or> nullish (ci_flags i) [] \<noteq> [] \<or> ci_policy i \<noteq> None))
       (AppError ''DELEGATION_REFUSED'' ''Delegated create requires typed execution policy without launch overrides'' 409)) (\<lambda>_.
     (let runtime = nullish (ci_runtime i) Codex in
       Inr \<lparr>cc_name = ci_name i, cc_workspace = w,
         cc_flags = rl_flags l @ (if runtime = Codex then ck_modelFlags k (ci_model i) else []),
         cc_runtime = (if runtime = Codex then None else Some runtime), cc_envFile = rl_envFile l, cc_recipe = rl_recipe l,
         cc_model = model, cc_noInference = ci_noInference i, cc_policy = policy, cc_delegation = delegation,
         cc_mode = ci_mode i, cc_fork = map_option fst (ck_fork k)\<rparr>)))))))))"

subsection \<open>Under the lock of the request\<close>

text \<open>The receipts are read and written under a lock of their own, so each effect changes the rows it finds.
  \<open>CreateCall\<close> starts the session of a generation; \<open>StopRequest\<close> marks a delegated request as aborted.\<close>

datatype create_effect =
  AcceptRow create_row | ForkPrepare string | StopRequest string | CreateCall string
| FailRow string string | InheritPins string | CompleteRow string string

definition update_row :: "string \<Rightarrow> (create_row \<Rightarrow> create_row) \<Rightarrow> create_row list \<Rightarrow> create_row list" where
  "update_row rid f rows = map (\<lambda>r. if cw_request r = rid then f r else r) rows"

fun create_rows :: "create_effect \<Rightarrow> create_row list \<Rightarrow> create_row list" where
  "create_rows (AcceptRow row) rows = rows @ [row]"
| "create_rows (FailRow rid message) rows = update_row rid (\<lambda>r. r\<lparr>cw_status := CreateFailed, cw_error := Some message\<rparr>) rows"
| "create_rows (CompleteRow rid thread) rows =
     update_row rid (\<lambda>r. r\<lparr>cw_status := CreateComplete, cw_thread := Some thread\<rparr>) rows"
| "create_rows _ rows = rows"

text \<open>What the call finds: the receipts, the caller's signal at its three checks and during the start, the session of
  the row's generation at once (\<open>cv_session\<close>), the pending row, the outcome of preparing a fork and of the create,
  the session found after a create that threw, the one the wait finds, and the source of a fork at the end.\<close>

record create_env =
  cv_rows :: "app_error + create_row list"
  cv_generation :: string
  cv_aborted :: bool
  cv_abortedStart :: bool
  cv_session :: "created option"
  cv_pending :: bool
  cv_fork :: "string option"
  cv_created :: "string + created"
  cv_afterThrow :: "created option"
  cv_waited :: "bool + created option"
  cv_abortedLate :: bool
  cv_source :: "app_error option"

record create_answer =
  ca_duplicate :: bool
  ca_generation :: string
  ca_thread :: string

definition aborted_error :: app_error where "aborted_error = AppError ''ABORTED'' '''' 0"

text \<open>The receipt of a request: the stored one, or a new one.\<close>

definition accept_row :: "create_env \<Rightarrow> string \<Rightarrow> string \<Rightarrow> create_canonical \<Rightarrow> create_effect list \<times> (app_error + bool \<times> create_row)" where
  "accept_row e rid digest canonical = (case cv_rows e of
      Inl x \<Rightarrow> ([], Inl x)
    | Inr rows \<Rightarrow> (case List.find (\<lambda>r. cw_request r = rid) rows of
        Some found \<Rightarrow>
          (if cw_fingerprint found \<noteq> digest then ([], Inl (AppError ''IDEMPOTENCY_CONFLICT'' ''Create request payload changed'' 409))
           else ([], Inr (True, found)))
      | None \<Rightarrow>
          (if length rows \<ge> CREATE_ROWS then ([], Inl (AppError ''CREATE_CAPACITY'' ''Managed create receipt capacity reached'' 409))
           else let row = \<lparr>cw_request = rid, cw_fingerprint = digest, cw_generation = cv_generation e, cw_canonical = canonical,
                  cw_status = CreatePending, cw_thread = None, cw_error = None\<rparr>
             in ([AcceptRow row], Inr (False, row)))))"

text \<open>The session of a receipt: found, or created unless its pending row exists.\<close>

definition obtain_session :: "create_env \<Rightarrow> create_row \<Rightarrow> create_effect list \<times> (app_error + created option)" where
  "obtain_session e row =
     (if cv_session e \<noteq> None \<or> cv_pending e then ([], Inr (cv_session e))
      else (let fork = cc_fork (cw_canonical row); prepare = (case fork of Some s \<Rightarrow> [ForkPrepare s] | None \<Rightarrow> []);
                stop = (if cv_abortedStart e \<and> cc_delegation (cw_canonical row) \<noteq> None then [StopRequest (cw_request row)] else []);
                called = (cv_fork e = None);
                es = prepare @ (if called then stop @ [CreateCall (cw_generation row)] else []);
                outcome = (case cv_fork e of Some m \<Rightarrow> Inl m | None \<Rightarrow> cv_created e)
            in case outcome of
              Inr s \<Rightarrow> (es, Inr (Some s))
            | Inl message \<Rightarrow> (case cv_afterThrow e of
                Some s \<Rightarrow> (es, Inr (Some s))
              | None \<Rightarrow>
                  (if fork \<noteq> None then (es, Inl (AppError ''FORK_PENDING'' ''Native fork is unresolved; retry the same request'' 503))
                   else (es @ [FailRow (cw_request row) message], Inl (AppError ''CREATE_FAILED'' ''Managed session create failed'' 409))))))"

definition session_matches :: "create_row \<Rightarrow> created \<Rightarrow> bool" where
  "session_matches row s =
     (let c = cw_canonical row; d = cs_canonical s
      in cc_noInference d = cc_noInference c \<and> cs_agent s = nullish (cc_runtime c) Codex \<and> cc_workspace d = cc_workspace c
         \<and> (cw_thread row = None \<or> cw_thread row = Some (cs_uuid s)) \<and> cc_flags d = cc_flags c
         \<and> cc_delegation d = cc_delegation c \<and> cc_envFile d = cc_envFile c \<and> cc_recipe d = cc_recipe c
         \<and> cc_model d = cc_model c \<and> cc_policy d = cc_policy c)"

definition finish_create :: "create_env \<Rightarrow> bool \<Rightarrow> create_row \<Rightarrow> created \<Rightarrow> create_effect list \<times> (app_error + create_answer)" where
  "finish_create e duplicate row s =
     (if \<not> session_matches row s then ([], Inl (AppError ''CORRUPT_STATE'' ''Managed create identity does not match its receipt'' 503))
      else if cv_abortedLate e then ([], Inl aborted_error)
      else (let done = [CompleteRow (cw_request row) (cs_uuid s)];
                answer = \<lparr>ca_duplicate = duplicate, ca_generation = cw_generation row, ca_thread = cs_uuid s\<rparr>
            in case cc_fork (cw_canonical row) of
              None \<Rightarrow> (done, Inr answer)
            | Some source \<Rightarrow> (case cv_source e of Some x \<Rightarrow> ([], Inl x) | None \<Rightarrow> ([InheritPins source] @ done, Inr answer))))"

definition create_locked ::
  "create_env \<Rightarrow> string \<Rightarrow> string \<Rightarrow> create_canonical \<Rightarrow> create_effect list \<times> (app_error + create_answer)" where
  "create_locked e rid digest canonical = (case accept_row e rid digest canonical of
      (es, Inl x) \<Rightarrow> (es, Inl x)
    | (es, Inr (duplicate, row)) \<Rightarrow>
        (if cv_aborted e then (es, Inl aborted_error)
         else if cw_status row = CreateFailed then (es, Inl (AppError ''CREATE_FAILED'' ''Managed session create failed'' 409))
         else if cw_status row = CreateComplete \<and> cv_session e = None
         then (es, Inl (AppError ''IDENTITY_MISMATCH'' ''The accepted managed registration no longer exists'' 409))
         else case obtain_session e row of
           (es1, Inl x) \<Rightarrow> (es @ es1, Inl x)
         | (es1, Inr found) \<Rightarrow>
             (case (case found of Some s \<Rightarrow> Inr (Some s) | None \<Rightarrow> cv_waited e) of
                Inl _ \<Rightarrow> (es @ es1, Inl aborted_error)
              | Inr None \<Rightarrow> (es @ es1, Inl (AppError ''CREATE_PENDING'' ''Create is still reconciling; retry the same request'' 503))
              | Inr (Some s) \<Rightarrow> (case finish_create e duplicate row s of (es2, r) \<Rightarrow> (es @ es1 @ es2, r)))))"

definition settledCreateRequest :: "create_row list \<Rightarrow> string \<Rightarrow> bool" where
  "settledCreateRequest rows rid = (\<exists>r\<in>set rows. cw_request r = rid \<and> cw_status r = CreateComplete)"

subsection \<open>Runs\<close>

text \<open>The receipts, the generations a session was started for, and the answers that callers got.  Calls of one
  request exclude each other; calls of different requests touch different rows, so a call is one step.\<close>

record create_world =
  cq_rows :: "create_row list"
  cq_calls :: "string list"
  cq_answers :: "(string \<times> string \<times> create_answer) list"

definition create_apply :: "create_effect \<Rightarrow> create_world \<Rightarrow> create_world" where
  "create_apply x w = w\<lparr>cq_rows := create_rows x (cq_rows w),
     cq_calls := cq_calls w @ (case x of CreateCall g \<Rightarrow> [g] | _ \<Rightarrow> [])\<rparr>"

definition answer_of :: "string \<Rightarrow> string \<Rightarrow> app_error + create_answer \<Rightarrow> (string \<times> string \<times> create_answer) list" where
  "answer_of rid digest r = (case r of Inr a \<Rightarrow> [(rid, digest, a)] | Inl _ \<Rightarrow> [])"

inductive create_step :: "create_world \<Rightarrow> create_world \<Rightarrow> bool" where
  call: "create_locked e rid digest canonical = (es, r) \<Longrightarrow> cv_rows e = Inr (cq_rows w) \<Longrightarrow>
    cv_generation e \<notin> cw_generation ` set (cq_rows w) \<Longrightarrow>
    create_step w ((fold create_apply es w)\<lparr>cq_answers := cq_answers w @ answer_of rid digest r\<rparr>)"
| dies: "create_locked e rid digest canonical = (es, r) \<Longrightarrow> cv_rows e = Inr (cq_rows w) \<Longrightarrow>
    cv_generation e \<notin> cw_generation ` set (cq_rows w) \<Longrightarrow> create_step w (fold create_apply (take k es) w)"

inductive create_reach :: "create_world \<Rightarrow> bool" where
  start: "create_reach \<lparr>cq_rows = [], cq_calls = [], cq_answers = []\<rparr>"
| step: "create_reach w \<Longrightarrow> create_step w w' \<Longrightarrow> create_reach w'"

definition receipt_ok :: "create_row \<Rightarrow> bool" where
  "receipt_ok r = (cw_status r = CreateComplete \<longleftrightarrow> cw_thread r \<noteq> None)"

definition create_inv :: "create_world \<Rightarrow> bool" where
  "create_inv w = (distinct (map cw_request (cq_rows w)) \<and> distinct (map cw_generation (cq_rows w))
     \<and> length (cq_rows w) \<le> CREATE_ROWS \<and> (\<forall>r\<in>set (cq_rows w). receipt_ok r)
     \<and> set (cq_calls w) \<subseteq> cw_generation ` set (cq_rows w)
     \<and> (\<forall>(i, d, a)\<in>set (cq_answers w). \<exists>r\<in>set (cq_rows w). cw_request r = i \<and> cw_fingerprint r = d
          \<and> cw_generation r = ca_generation a \<and> cw_thread r = Some (ca_thread a)))"

lemma update_row_keys [simp]:
  assumes "\<And>r. cw_request (f r) = cw_request r" "\<And>r. cw_generation (f r) = cw_generation r"
  shows "map cw_request (update_row i f rows) = map cw_request rows" "map cw_generation (update_row i f rows) = map cw_generation rows"
    "length (update_row i f rows) = length rows"
  by (simp_all add: update_row_def comp_def assms if_distrib cong: if_cong)

text \<open>The effects of a call: the receipt, then effects that leave the receipts alone, then at most one that settles
  it.  A session is started, and a failure recorded, only for a receipt that is pending.\<close>

definition silent :: "create_row \<Rightarrow> create_effect \<Rightarrow> bool" where
  "silent row x = (case x of ForkPrepare _ \<Rightarrow> True | StopRequest _ \<Rightarrow> True | InheritPins _ \<Rightarrow> True
     | CreateCall g \<Rightarrow> g = cw_generation row \<and> cw_status row = CreatePending | _ \<Rightarrow> False)"

lemma obtain_effects:
  assumes "obtain_session e row = (es, r)" "cw_status row \<noteq> CreateFailed" "cw_status row = CreateComplete \<longrightarrow> cv_session e \<noteq> None"
  obtains (found) "\<forall>x\<in>set es. silent row x"
  | (failed) q m x where "es = q @ [FailRow (cw_request row) m]" "\<forall>x\<in>set q. silent row x" "cw_status row = CreatePending" "r = Inl x"
proof (cases "cv_session e \<noteq> None \<or> cv_pending e")
  case True
  then have "es = []" using assms(1) by (simp add: obtain_session_def)
  then show ?thesis by (intro found) simp
next
  case False
  then have p: "cw_status row = CreatePending" using assms(2,3) by (cases "cw_status row") auto
  let ?prepare = "case cc_fork (cw_canonical row) of Some s \<Rightarrow> [ForkPrepare s] | None \<Rightarrow> []"
  let ?stop = "if cv_abortedStart e \<and> cc_delegation (cw_canonical row) \<noteq> None then [StopRequest (cw_request row)] else []"
  let ?es = "?prepare @ (if cv_fork e = None then ?stop @ [CreateCall (cw_generation row)] else [])"
  have q: "\<forall>x\<in>set ?es. silent row x" using p by (auto simp: silent_def split: option.split)
  have "es = ?es \<or> (\<exists>m x. es = ?es @ [FailRow (cw_request row) m] \<and> r = Inl x)"
    using assms(1) False by (auto simp: obtain_session_def Let_def split: option.splits sum.splits if_splits)
  then show ?thesis using q p found failed by blast
qed

lemma finish_effects:
  assumes "finish_create e duplicate row s = (es, r)"
  obtains (refused) x where "es = []" "r = Inl x"
  | (settles) q where "es = q @ [CompleteRow (cw_request row) (cs_uuid s)]" "\<forall>x\<in>set q. silent row x" "session_matches row s"
      "r = Inr \<lparr>ca_duplicate = duplicate, ca_generation = cw_generation row, ca_thread = cs_uuid s\<rparr>"
  using assms by (cases "cc_fork (cw_canonical row)")
    (auto simp: finish_create_def silent_def split: if_splits option.splits)

lemma locked_effects:
  assumes "create_locked e rid digest canonical = (es, r)"
  obtains (refused) x where "es = []" "r = Inl x"
  | (accepted) pre duplicate row q where "accept_row e rid digest canonical = (pre, Inr (duplicate, row))"
      "es = pre @ q" "\<forall>x\<in>set q. silent row x" "\<exists>x. r = Inl x"
  | (failed) pre duplicate row q m where "accept_row e rid digest canonical = (pre, Inr (duplicate, row))"
      "es = pre @ q @ [FailRow (cw_request row) m]" "\<forall>x\<in>set q. silent row x" "\<exists>x. r = Inl x" "cw_status row = CreatePending"
  | (settles) pre duplicate row q s where "accept_row e rid digest canonical = (pre, Inr (duplicate, row))"
      "es = pre @ q @ [CompleteRow (cw_request row) (cs_uuid s)]" "\<forall>x\<in>set q. silent row x" "session_matches row s"
      "r = Inr \<lparr>ca_duplicate = duplicate, ca_generation = cw_generation row, ca_thread = cs_uuid s\<rparr>"
      "cw_status row \<noteq> CreateFailed"
proof (cases "accept_row e rid digest canonical")
  case (Pair pre a)
  show ?thesis
  proof (cases a)
    case (Inl x)
    then have "pre = []" using Pair by (auto simp: accept_row_def Let_def split: sum.splits option.splits if_splits)
    with assms Pair Inl show ?thesis by (intro refused [of x]) (simp_all add: create_locked_def)
  next
    case (Inr y)
    obtain duplicate row where y: "y = (duplicate, row)" by force
    note acc = Pair [unfolded Inr y]
    show ?thesis
    proof (cases "cv_aborted e \<or> cw_status row = CreateFailed \<or> (cw_status row = CreateComplete \<and> cv_session e = None)")
      case True
      then have "es = pre \<and> (\<exists>x. r = Inl x)" using assms acc by (auto simp: create_locked_def split: if_splits)
      then show ?thesis by (intro accepted [OF acc, of "[]"]) auto
    next
      case False
      obtain es1 r1 where o: "obtain_session e row = (es1, r1)" by force
      have ok: "cw_status row \<noteq> CreateFailed" "cw_status row = CreateComplete \<longrightarrow> cv_session e \<noteq> None" using False by auto
      show ?thesis
      proof (cases rule: obtain_effects [OF o ok])
        case (2 q m x)
        then show ?thesis using assms acc False o by (intro failed [OF acc, of q m]) (auto simp: create_locked_def)
      next
        case 1
        show ?thesis
        proof (cases "\<exists>s. r1 = Inr (Some s) \<or> (r1 = Inr None \<and> cv_waited e = Inr (Some s))")
          case no: False
          then have "es = pre @ es1 \<and> (\<exists>x. r = Inl x)"
            using assms acc False o by (auto simp: create_locked_def split: sum.splits option.splits if_splits)
          then show ?thesis by (intro accepted [OF acc, of es1]) (use 1 in auto)
        next
          case True
          then obtain s where s: "r1 = Inr (Some s) \<or> (r1 = Inr None \<and> cv_waited e = Inr (Some s))" by blast
          obtain es2 r2 where f: "finish_create e duplicate row s = (es2, r2)" by force
          have es: "es = pre @ es1 @ es2" "r = r2"
            using assms acc False o s f by (auto simp: create_locked_def split: if_splits)
          show ?thesis
          proof (cases rule: finish_effects [OF f])
            case 1
            with es \<open>\<forall>x\<in>set es1. silent row x\<close> show ?thesis by (intro accepted [OF acc, of es1]) auto
          next
            case (2 q)
            with es \<open>\<forall>x\<in>set es1. silent row x\<close> ok show ?thesis by (intro settles [OF acc, of "es1 @ q" s]) auto
          qed
        qed
      qed
    qed
  qed
qed

lemma silent_run:
  assumes "\<forall>x\<in>set q. silent row x"
  shows "cq_rows (fold create_apply q w) = cq_rows w \<and> cq_answers (fold create_apply q w) = cq_answers w
    \<and> set (cq_calls (fold create_apply q w)) \<subseteq> insert (cw_generation row) (set (cq_calls w))"
  using assms
proof (induction q arbitrary: w)
  case (Cons x q)
  then have x: "silent row x" and ih: "cq_rows (fold create_apply q (create_apply x w)) = cq_rows (create_apply x w)
      \<and> cq_answers (fold create_apply q (create_apply x w)) = cq_answers (create_apply x w)
      \<and> set (cq_calls (fold create_apply q (create_apply x w))) \<subseteq> insert (cw_generation row) (set (cq_calls (create_apply x w)))"
    by auto
  have "cq_rows (create_apply x w) = cq_rows w \<and> cq_answers (create_apply x w) = cq_answers w
      \<and> set (cq_calls (create_apply x w)) \<subseteq> insert (cw_generation row) (set (cq_calls w))"
    using x by (cases x) (auto simp: silent_def create_apply_def)
  with ih show ?case by auto
qed auto

lemma silent_inv:
  assumes "create_inv w" "row \<in> set (cq_rows w)" "\<forall>x\<in>set q. silent row x"
  shows "create_inv (fold create_apply q w)"
  using assms(1,2) silent_run [OF assms(3), of w] by (auto simp: create_inv_def)

lemma accept_inv:
  assumes "accept_row e rid digest canonical = (pre, Inr (duplicate, row))" "cv_rows e = Inr (cq_rows w)"
    and "cv_generation e \<notin> cw_generation ` set (cq_rows w)" "create_inv w"
  shows "create_inv (fold create_apply pre w) \<and> row \<in> set (cq_rows (fold create_apply pre w)) \<and> cw_request row = rid
    \<and> cw_fingerprint row = digest \<and> cq_answers (fold create_apply pre w) = cq_answers w \<and> length pre \<le> 1"
proof (cases "List.find (\<lambda>r. cw_request r = rid) (cq_rows w)")
  case (Some found)
  then have "pre = [] \<and> row = found \<and> cw_fingerprint found = digest"
    using assms(1,2) by (auto simp: accept_row_def split: if_splits)
  with find_SomeD [OF Some] assms(4) show ?thesis by simp
next
  case None
  then have row: "row = \<lparr>cw_request = rid, cw_fingerprint = digest, cw_generation = cv_generation e, cw_canonical = canonical,
      cw_status = CreatePending, cw_thread = None, cw_error = None\<rparr>" "pre = [AcceptRow row]" "length (cq_rows w) < CREATE_ROWS"
    using assms(1,2) by (auto simp: accept_row_def Let_def split: if_splits)
  have "rid \<notin> cw_request ` set (cq_rows w)" using None by (auto simp: find_None_iff)
  moreover have r: "cw_request row = rid" "cw_generation row = cv_generation e" "receipt_ok row"
    by (simp_all add: row(1) receipt_ok_def)
  moreover have "cq_rows (create_apply (AcceptRow row) w) = cq_rows w @ [row]" "cq_calls (create_apply (AcceptRow row) w) = cq_calls w"
    "cq_answers (create_apply (AcceptRow row) w) = cq_answers w" by (simp_all add: create_apply_def)
  ultimately have "create_inv (create_apply (AcceptRow row) w)"
    using assms(3,4) row(3) unfolding create_inv_def by auto
  with row show ?thesis by (simp add: create_apply_def)
qed

lemma update_row_mem:
  assumes "r' \<in> set (update_row i f rows)"
  obtains r where "r \<in> set rows" "r' = (if cw_request r = i then f r else r)"
  using assms by (auto simp: update_row_def)

lemma update_row_others: "r \<in> set rows \<Longrightarrow> cw_request r \<noteq> i \<Longrightarrow> r \<in> set (update_row i f rows)"
  by (force simp: update_row_def)

lemma same_row: "create_inv w \<Longrightarrow> r \<in> set (cq_rows w) \<Longrightarrow> r' \<in> set (cq_rows w) \<Longrightarrow> cw_request r = cw_request r' \<Longrightarrow> r = r'"
  by (rule distinct_map_keyD [of cw_request "cq_rows w"]) (simp_all add: create_inv_def)

lemma fail_inv:
  assumes inv: "create_inv w" and row: "row \<in> set (cq_rows w)" and p: "cw_status row = CreatePending"
  shows "create_inv (create_apply (FailRow (cw_request row) m) w)"
proof -
  let ?f = "\<lambda>r. r\<lparr>cw_status := CreateFailed, cw_error := Some m\<rparr>" and ?i = "cw_request row"
  let ?rows = "update_row ?i ?f (cq_rows w)"
  have "receipt_ok row" using inv row by (simp add: create_inv_def)
  then have none: "cw_thread row = None" using p by (auto simp: receipt_ok_def)
  have ok: "receipt_ok r'" if "r' \<in> set ?rows" for r'
    using that
  proof (rule update_row_mem)
    fix r assume r: "r \<in> set (cq_rows w)" "r' = (if cw_request r = ?i then ?f r else r)"
    with same_row [OF inv r(1) row] none inv show "receipt_ok r'" by (auto simp: receipt_ok_def create_inv_def)
  qed
  have answers: "\<exists>r\<in>set ?rows. cw_request r = i \<and> cw_fingerprint r = d \<and> cw_generation r = ca_generation a \<and> cw_thread r = Some (ca_thread a)"
    if "(i, d, a) \<in> set (cq_answers w)" for i d a
  proof -
    from that inv obtain r where r: "r \<in> set (cq_rows w)" "cw_request r = i" "cw_fingerprint r = d" "cw_generation r = ca_generation a"
      "cw_thread r = Some (ca_thread a)" by (fastforce simp: create_inv_def)
    with same_row [OF inv r(1) row] none have "cw_request r \<noteq> ?i" by auto
    from update_row_others [OF r(1) this] r show ?thesis by blast
  qed
  have keys: "map cw_request ?rows = map cw_request (cq_rows w)" "map cw_generation ?rows = map cw_generation (cq_rows w)"
    "length ?rows = length (cq_rows w)" by simp_all
  then have "cw_generation ` set ?rows = cw_generation ` set (cq_rows w)" by (metis set_map)
  with inv ok answers keys show ?thesis by (auto simp: create_inv_def create_apply_def)
qed

lemma complete_inv:
  assumes inv: "create_inv w" and row: "row \<in> set (cq_rows w)" and t: "cw_thread row = None \<or> cw_thread row = Some t"
  shows "create_inv (create_apply (CompleteRow (cw_request row) t) w)"
    and "\<exists>r\<in>set (cq_rows (create_apply (CompleteRow (cw_request row) t) w)). cw_request r = cw_request row
      \<and> cw_fingerprint r = cw_fingerprint row \<and> cw_generation r = cw_generation row \<and> cw_thread r = Some t"
proof -
  let ?f = "\<lambda>r. r\<lparr>cw_status := CreateComplete, cw_thread := Some t\<rparr>" and ?i = "cw_request row"
  let ?rows = "update_row ?i ?f (cq_rows w)"
  have mine: "?f row \<in> set ?rows" using row by (force simp: update_row_def)
  then show "\<exists>r\<in>set (cq_rows (create_apply (CompleteRow (cw_request row) t) w)). cw_request r = cw_request row
      \<and> cw_fingerprint r = cw_fingerprint row \<and> cw_generation r = cw_generation row \<and> cw_thread r = Some t"
    by (intro bexI [of _ "?f row"]) (simp_all add: create_apply_def)
  have ok: "receipt_ok r'" if "r' \<in> set ?rows" for r'
    using that by (rule update_row_mem) (use inv in \<open>auto simp: receipt_ok_def create_inv_def\<close>)
  have answers: "\<exists>r\<in>set ?rows. cw_request r = i \<and> cw_fingerprint r = d \<and> cw_generation r = ca_generation a \<and> cw_thread r = Some (ca_thread a)"
    if "(i, d, a) \<in> set (cq_answers w)" for i d a
  proof -
    from that inv obtain r where r: "r \<in> set (cq_rows w)" "cw_request r = i" "cw_fingerprint r = d" "cw_generation r = ca_generation a"
      "cw_thread r = Some (ca_thread a)" by (fastforce simp: create_inv_def)
    show ?thesis
    proof (cases "cw_request r = ?i")
      case True
      from same_row [OF inv r(1) row True] r t mine show ?thesis by (intro bexI [of _ "?f row"]) auto
    next
      case False
      from update_row_others [OF r(1) this] r show ?thesis by blast
    qed
  qed
  have keys: "map cw_request ?rows = map cw_request (cq_rows w)" "map cw_generation ?rows = map cw_generation (cq_rows w)"
    "length ?rows = length (cq_rows w)" by simp_all
  then have "cw_generation ` set ?rows = cw_generation ` set (cq_rows w)" by (metis set_map)
  with inv ok answers keys show "create_inv (create_apply (CompleteRow (cw_request row) t) w)"
    by (auto simp: create_inv_def create_apply_def)
qed

text \<open>Every prefix of the effects keeps the invariant, and an answer is what the receipts then say.\<close>

lemma create_locked_inv:
  assumes l: "create_locked e rid digest canonical = (es, r)" and e: "cv_rows e = Inr (cq_rows w)"
    "cv_generation e \<notin> cw_generation ` set (cq_rows w)" and inv: "create_inv w"
  shows "create_inv (fold create_apply (take k es) w)"
    and "r = Inr a \<Longrightarrow> create_inv ((fold create_apply es w)\<lparr>cq_answers := cq_answers w @ [(rid, digest, a)]\<rparr>)"
    and "r = Inl x \<Longrightarrow> cq_answers (fold create_apply es w) = cq_answers w"
proof -
  have pre_q: "create_inv (fold create_apply (take k (pre @ q)) w)"
    if acc: "accept_row e rid digest canonical = (pre, Inr (duplicate, row))" and q: "\<forall>x\<in>set q. silent row x" for pre duplicate row q k
  proof (cases "k < length pre")
    case True
    with accept_inv [OF acc e inv] inv show ?thesis by (cases k) auto
  next
    case False
    from accept_inv [OF acc e inv] have "create_inv (fold create_apply pre w)" "row \<in> set (cq_rows (fold create_apply pre w))" by auto
    then have "create_inv (fold create_apply (take (k - length pre) q) (fold create_apply pre w))"
      by (rule silent_inv) (use q in \<open>auto dest: in_set_takeD\<close>)
    with False show ?thesis by simp
  qed
  have cut: "take k (xs @ [x]) = take k xs \<or> take k (xs @ [x]) = xs @ [x]" for k and xs :: "create_effect list" and x
    by (cases "k \<le> length xs") auto
  have whole: "create_inv (fold create_apply (pre @ q) w) \<and> row \<in> set (cq_rows (fold create_apply (pre @ q) w))
      \<and> cq_answers (fold create_apply (pre @ q) w) = cq_answers w \<and> cw_request row = rid \<and> cw_fingerprint row = digest"
    if acc: "accept_row e rid digest canonical = (pre, Inr (duplicate, row))" and q: "\<forall>x\<in>set q. silent row x" for pre duplicate row q
    using accept_inv [OF acc e inv] silent_run [OF q, of "fold create_apply pre w"] pre_q [OF acc q, of "length (pre @ q)"] by simp
  have answers: "cq_answers (create_apply x w) = cq_answers w" for x w by (simp add: create_apply_def)
  show "create_inv (fold create_apply (take k es) w)"
    using l
  proof (cases rule: locked_effects)
    case refused
    with inv show ?thesis by simp
  next
    case accepted
    with pre_q show ?thesis by simp
  next
    case (failed pre duplicate row q m)
    note A = whole [OF failed(1,3)]
    have "create_inv (create_apply (FailRow (cw_request row) m) (fold create_apply (pre @ q) w))"
      using fail_inv A failed(5) by blast
    moreover have "take k es = take k (pre @ q) \<or> take k es = (pre @ q) @ [FailRow (cw_request row) m]"
      using cut [of k "pre @ q"] by (simp only: failed(2) append_assoc)
    ultimately show ?thesis using pre_q [OF failed(1,3), of k] by (elim disjE) (simp_all del: take_append)
  next
    case (settles pre duplicate row q s)
    note A = whole [OF settles(1,3)]
    have "create_inv (create_apply (CompleteRow (cw_request row) (cs_uuid s)) (fold create_apply (pre @ q) w))"
      using complete_inv(1) A settles(4) unfolding session_matches_def Let_def by blast
    moreover have "take k es = take k (pre @ q) \<or> take k es = (pre @ q) @ [CompleteRow (cw_request row) (cs_uuid s)]"
      using cut [of k "pre @ q"] by (simp only: settles(2) append_assoc)
    ultimately show ?thesis using pre_q [OF settles(1,3), of k] by (elim disjE) (simp_all del: take_append)
  qed
  show "create_inv ((fold create_apply es w)\<lparr>cq_answers := cq_answers w @ [(rid, digest, a)]\<rparr>)" if r: "r = Inr a"
    using l
  proof (cases rule: locked_effects)
    case (settles pre duplicate row q s)
    let ?w = "fold create_apply (pre @ q) w"
    note A = whole [OF settles(1,3)]
    have t: "cw_thread row = None \<or> cw_thread row = Some (cs_uuid s)" using settles(4) by (simp add: session_matches_def Let_def)
    have "create_inv (create_apply (CompleteRow (cw_request row) (cs_uuid s)) ?w)"
      "\<exists>r\<in>set (cq_rows (create_apply (CompleteRow (cw_request row) (cs_uuid s)) ?w)). cw_request r = cw_request row
        \<and> cw_fingerprint r = cw_fingerprint row \<and> cw_generation r = cw_generation row \<and> cw_thread r = Some (cs_uuid s)"
      using complete_inv [OF _ _ t] A by blast+
    moreover have "fold create_apply es w = create_apply (CompleteRow (cw_request row) (cs_uuid s)) ?w" by (simp add: settles(2))
    moreover have "cq_answers (fold create_apply es w) = cq_answers w" using A by (simp add: settles(2) answers)
    ultimately show ?thesis using A r settles(5) by (auto simp: create_inv_def)
  qed (use r in auto)
  show "cq_answers (fold create_apply es w) = cq_answers w" if "r = Inl x"
    using l
  proof (cases rule: locked_effects)
    case (failed pre duplicate row q m)
    with whole [OF failed(1,3)] show ?thesis by (simp add: answers)
  next
    case (accepted pre duplicate row q)
    with whole [OF accepted(1,3)] show ?thesis by simp
  qed (use that in auto)
qed

lemma create_step_inv: "create_step w w' \<Longrightarrow> create_inv w \<Longrightarrow> create_inv w'"
proof (induction rule: create_step.induct)
  case (call e rid digest canonical es r w)
  show ?case
  proof (cases r)
    case (Inr a)
    with create_locked_inv(2) [OF call] show ?thesis by (simp add: answer_of_def)
  next
    case (Inl x)
    from create_locked_inv(3) [OF call(1-4) Inl] have "(fold create_apply es w)\<lparr>cq_answers := cq_answers w @ answer_of rid digest r\<rparr>
        = fold create_apply (take (length es) es) w" by (simp add: answer_of_def Inl)
    with create_locked_inv(1) [OF call(1-4), of "length es"] show ?thesis by simp
  qed
qed (rule create_locked_inv(1))

lemma create_reach_inv: "create_reach w \<Longrightarrow> create_inv w"
proof (induction rule: create_reach.induct)
  case start
  show ?case by (simp add: create_inv_def)
next
  case (step w w')
  then show ?case by (blast intro: create_step_inv)
qed

text \<open>Receipts are never given up: when the store is full, no new request is accepted any more.\<close>

lemma full_forever:
  assumes "length rows \<ge> CREATE_ROWS" "cv_rows e = Inr rows" "rid \<notin> cw_request ` set rows"
  shows "create_locked e rid digest canonical = ([], Inl (AppError ''CREATE_CAPACITY'' ''Managed create receipt capacity reached'' 409))"
    and "length (create_rows x rows) \<ge> CREATE_ROWS"
proof -
  have "List.find (\<lambda>r. cw_request r = rid) rows = None" using assms(3) by (auto simp: find_None_iff)
  then show "create_locked e rid digest canonical = ([], Inl (AppError ''CREATE_CAPACITY'' ''Managed create receipt capacity reached'' 409))"
    using assms(1,2) by (simp add: create_locked_def accept_row_def)
  show "length (create_rows x rows) \<ge> CREATE_ROWS" using assms(1) by (cases x) (simp_all add: update_row_def)
qed

end
