(* ===== verification/ControlMessage.thy ===== *)
theory ControlMessage
  imports Capabilities Basis Delegation MessageOps StatusFiles Sleep ChatStore
begin

text \<open>
  The door for letters to a managed session (\<open>src/control/message.ts\<close>), the withdrawal of an accepted one
  (\<open>messageCancel.ts\<close>) and the bounded read of its operation (\<open>messageOperation.ts\<close>).  Provider catalogs,
  pinned images and the digests are arguments; the ledger, the receipt journal and the ack log are the state.
\<close>

text \<open>\<open>mq_images\<close> is \<open>None\<close> for an empty array; a body, an instant or an options object is its canonical text.\<close>

record message_request =
  mq_id :: string
  mq_target :: managed_peer
  mq_authorization :: "authorization option"
  mq_origin :: "attribution option"
  mq_notification :: "audience option"
  mq_registration :: "string option"
  mq_body :: string
  mq_images :: "string option"
  mq_options :: "string option"
  mq_defer :: bool
  mq_notBefore :: "stamp option"
  mq_task :: "string option"

datatype accept_error = ControlError app_error | OriginError origin_refusal | BasisError basis_error
  | DelegationError delegation_error | OperationError op_error | LedgerError admit_error | EnvelopeInvalid

text \<open>What one call reads besides the two files it writes: \<open>me_view\<close> is a session's delegation, \<open>me_sleep\<close>
  \<open>readSleep\<close>, \<open>me_context\<close> \<open>assertNoContextMutation\<close>, \<open>me_selection\<close> \<open>currentSelection\<close>, \<open>me_validate\<close>
  \<open>validateTurnOptions\<close>, \<open>me_turn\<close> the text of the accepted turn options, \<open>me_pin\<close> the outcome of pinning the
  images before the letter is appended, \<open>me_now\<close> and \<open>me_ts\<close> the clock.\<close>

record message_env =
  me_machine :: string
  me_uuid :: "string \<Rightarrow> bool"
  me_digest :: "app_binding \<Rightarrow> string"
  me_applications :: "string \<rightharpoonup> app_binding"
  me_lookup :: "string \<rightharpoonup> local_record"
  me_fingerprint :: "message_request \<Rightarrow> string"
  me_hash :: "string \<Rightarrow> string"
  me_fits :: "op_journal \<Rightarrow> bool"
  me_sessions :: "session list"
  me_chatDefault :: bool
  me_inspects :: "agent_kind \<Rightarrow> bool"
  me_app :: app_env
  me_store :: authorities
  me_stops :: "string \<rightharpoonup> stop_record"
  me_view :: "session \<Rightarrow> delegated"
  me_sleep :: "session \<Rightarrow> sleep_phase option"
  me_context :: "session \<Rightarrow> app_error option"
  me_selection :: "session \<Rightarrow> app_error + (nat \<times> string)"
  me_turn :: "nat \<Rightarrow> string \<Rightarrow> string"
  me_validate :: "session \<Rightarrow> string \<Rightarrow> bool \<Rightarrow> app_error option"
  me_pin :: "app_error option"
  me_select :: "chat_message \<Rightarrow> admit_error + string option"
  me_valid :: "chat_message \<Rightarrow> bool"
  me_abortedFirst :: bool
  me_abortedLast :: bool
  me_now :: int
  me_ts :: stamp

definition machine_of :: "principal \<Rightarrow> string" where
  "machine_of who = (case who of FromManaged p \<Rightarrow> mp_machine p | FromCodexApp p \<Rightarrow> ap_machine p
     | FromCli machine \<Rightarrow> machine | FromService machine _ \<Rightarrow> machine)"

definition identity_error :: "string \<Rightarrow> accept_error" where
  "identity_error message = ControlError (AppError ''IDENTITY_MISMATCH'' message 409)"

definition call_aborted :: accept_error where "call_aborted = ControlError (AppError ''ABORTED'' '''' 0)"

definition require :: "bool \<Rightarrow> 'e \<Rightarrow> 'e + unit" where
  "require b e = (if b then Inr () else Inl e)"

definition controlTarget :: "string \<Rightarrow> session list \<Rightarrow> managed_peer \<Rightarrow> session option" where
  "controlTarget machine rows p = (case find_session rows (mp_session p) of
      None \<Rightarrow> None
    | Some s \<Rightarrow> if machine \<noteq> mp_machine p \<or> s_uuid s \<noteq> mp_thread p \<or> s_agent s \<noteq> mp_agent p then None else Some s)"

definition target_session :: "message_env \<Rightarrow> managed_peer \<Rightarrow> accept_error + session" where
  "target_session e p = (case controlTarget (me_machine e) (me_sessions e) p of
      None \<Rightarrow> Inl (identity_error ''The exact managed session is unavailable'') | Some s \<Rightarrow> Inr s)"

definition is_native :: "session \<Rightarrow> bool" where
  "is_native s = hasNativeRuntime (s_agent s) (sb_runtime (s_body s))"

definition supportsManagedInput :: "message_env \<Rightarrow> session \<Rightarrow> bool" where
  "supportsManagedInput e s = (is_native s \<or> me_inspects e (s_agent s))"

definition nativeId :: "session \<Rightarrow> string option" where
  "nativeId s = (if s_agent s = Codex then Some (s_uuid s) else map_option ns_id (s_native s))"

text \<open>The journal is kept under the registration and the native conversation of its session; without them neither a
  stored journal nor a new one passes.\<close>

definition op_identity :: "session \<Rightarrow> accept_error + op_session" where
  "op_identity s = (case (s_generation s, nativeId s) of
      (Some g, Some n) \<Rightarrow> Inr \<lparr>os_registrationGeneration = g, os_runtime = s_agent s, os_nativeId = n\<rparr>
    | _ \<Rightarrow> Inl (OperationError EvidenceUnavailable))"

text \<open>Whether a session is delegated, and if so whether an application's run stands behind it.\<close>

definition delegated_flag :: "delegated \<Rightarrow> bool option" where
  "delegated_flag v = map_option (\<lambda>d. dl_authority d \<noteq> None) (de_delegation v)"

subsection \<open>The checks\<close>

text \<open>Before the lock: who writes, on what basis, and to whom.\<close>

definition accept_basis ::
  "message_env \<Rightarrow> principal \<Rightarrow> message_request \<Rightarrow> accept_error + basis_result option" where
  "accept_basis e from input =
     bind_result (map_sum OriginError id (admitMessageOrigin (me_digest e) (me_applications e) from (mq_origin input)
       (nullish (mq_notification input) Conversation))) (\<lambda>origin.
     bind_result (map_sum BasisError id (requireCommunicationAuthorization (me_uuid e) from origin (mq_authorization input))) (\<lambda>_.
     bind_result (map_sum BasisError id (requireOriginatingBasis (me_uuid e) from (ToManaged (mq_target input)) (mq_authorization input)
       (if machine_of from = me_machine e then Some (me_lookup e) else None) (mq_task input))) (\<lambda>basis.
     bind_result (target_session e (mq_target input)) (\<lambda>_. Inr basis))))"

text \<open>Under the registry lock: the registration, the origin once more, and whether the target takes letters.\<close>

definition accept_target ::
  "message_env \<Rightarrow> principal \<Rightarrow> message_request \<Rightarrow> accept_error + session \<times> message_origin" where
  "accept_target e from input =
     bind_result (require (\<not> me_abortedFirst e) call_aborted) (\<lambda>_.
     bind_result (target_session e (mq_target input)) (\<lambda>s.
     bind_result (require (mq_registration input = None \<or> mq_registration input = s_generation s)
       (identity_error ''The exact managed registration is unavailable'')) (\<lambda>_.
     bind_result (require (mq_origin input = None \<or> s_generation s = None \<or> mq_registration input \<noteq> None)
       (ControlError (AppError ''VALIDATION_ERROR'' ''Attributed input requires registration generation'' 400))) (\<lambda>_.
     bind_result (map_sum OriginError id (admitMessageOrigin (me_digest e) (me_applications e) from (mq_origin input)
       (nullish (mq_notification input) Conversation))) (\<lambda>origin.
     bind_result (require (chatEnabledFor s (me_chatDefault e) \<and> supportsManagedInput e s)
       (ControlError (AppError ''CHAT_DISABLED'' ''Target cannot receive managed messages'' 409))) (\<lambda>_.
     Inr (s, origin)))))))"

text \<open>Whether a letter under the requested id is the answer to this very request.\<close>

definition same_request :: "principal \<Rightarrow> message_request \<Rightarrow> message_origin \<Rightarrow> string \<Rightarrow> chat_message \<Rightarrow> bool" where
  "same_request from input origin fingerprint prior =
     (samePrincipal (m_from prior) from \<and> sameTarget (m_to prior) (ToManaged (mq_target input)) \<and> m_body prior = mq_body input
      \<and> m_defer prior = mq_defer input \<and> m_notBefore prior = mq_notBefore input \<and> m_task prior = mq_task input
      \<and> m_authorization prior = mq_authorization input \<and> m_onBehalfOf prior = None
      \<and> (m_origin prior = None \<or> m_origin prior = Some origin)
      \<and> (m_notification prior = None \<or> m_notification prior = Some (nullish (mq_notification input) Conversation))
      \<and> (case m_fingerprint prior of Some f \<Rightarrow> f = fingerprint
         | None \<Rightarrow> mq_images input = None \<and> mq_options input = None))"

record message_receipt =
  rc_messageId :: string
  rc_origin :: message_origin
  rc_notification :: audience
  rc_registration :: "string option"
  rc_duplicate :: bool
  rc_turnOptions :: "string option"

text \<open>An application's child takes input from its issuer, with the human's own words, or from the exact parent.\<close>

definition parent_admits :: "message_env \<Rightarrow> managed_peer \<Rightarrow> delegation \<Rightarrow> session \<Rightarrow> bool" where
  "parent_admits e p d parent' =
     (let view = me_view e parent' in
      (case dq_target (dl_request d) of
         ManagedParent q \<Rightarrow> sameTarget (ToManaged p) (ToManaged q) \<and> s_generation parent' = Some (dq_generation (dl_request d))
       | _ \<Rightarrow> False)
      \<and> Option.bind (de_delegation view) dl_authority = dl_authority d
      \<and> \<not> delegationStopped (me_app e) (me_store e) (me_stops e) view)"

definition accept_delegation :: "message_env \<Rightarrow> principal \<Rightarrow> message_request \<Rightarrow> session \<Rightarrow> accept_error + unit" where
  "accept_delegation e from input s = (case de_delegation (me_view e s) of
      None \<Rightarrow> Inr ()
    | Some d \<Rightarrow> (case dl_authority d of
        None \<Rightarrow> Inr ()
      | Some root \<Rightarrow> (case from of
          FromManaged p \<Rightarrow>
            bind_result (target_session e p) (\<lambda>parent'.
              require (parent_admits e p d parent')
                (DelegationError (delegation_error.DelegationRefused ''Managed input requires the exact active application descendant parent'')))
        | _ \<Rightarrow> map_sum DelegationError id
            (requireApplicationInput (me_app e) from root (mq_origin input) (mq_authorization input) (me_store e)))))"

definition accept_state :: "message_env \<Rightarrow> message_request \<Rightarrow> session \<Rightarrow> accept_error + unit" where
  "accept_state e input s =
     bind_result (require (case me_sleep e s of None \<Rightarrow> True | Some ph \<Rightarrow> ph = SlAwake)
       (ControlError (AppError ''SESSION_SLEEPING'' ''Session must wake before input admission'' 409))) (\<lambda>_.
     bind_result (require (is_native s \<or> (mq_images input = None \<and> mq_options input = None))
       (ControlError (AppError ''UNSUPPORTED'' ''This runtime cannot accept structured turn input'' 409))) (\<lambda>_.
     bind_result (require (mq_images input = None \<or> ImageInput \<in> runtimeCapabilities (s_agent s) (sb_runtime (s_body s)) (delegated_flag (me_view e s)))
       (ControlError (AppError ''UNSUPPORTED'' ''This runtime cannot accept image input'' 409))) (\<lambda>_.
     bind_result (require (\<not> delegationStopped (me_app e) (me_store e) (me_stops e) (me_view e s))
       (DelegationError (delegation_error.DelegationRefused ''Delegated work has ended''))) (\<lambda>_.
     (case (if is_native s then me_context e s else None) of Some x \<Rightarrow> Inl (ControlError x) | None \<Rightarrow> Inr ())))))"

text \<open>The options a turn will run with: the requested ones, or the session's own at their revision.\<close>

definition accept_options :: "message_env \<Rightarrow> message_request \<Rightarrow> session \<Rightarrow> accept_error + string option" where
  "accept_options e input s =
     (if \<not> is_native s then Inr None
      else (case me_selection e s of
          Inl x \<Rightarrow> Inl (ControlError x)
        | Inr (revision, own) \<Rightarrow>
            (let options = nullish (mq_options input) own in
             case me_validate e s options (mq_images input \<noteq> None) of
               Some x \<Rightarrow> Inl (ControlError x) | None \<Rightarrow> Inr (Some (me_turn e revision options)))))"

definition accept_envelope ::
  "message_env \<Rightarrow> principal \<Rightarrow> message_request \<Rightarrow> basis_result option \<Rightarrow> session \<Rightarrow> message_origin \<Rightarrow> string option
     \<Rightarrow> accept_error + chat_message" where
  "accept_envelope e from input basis s origin options =
     (case buildEnvelope (me_valid e) (mq_id input) (me_ts e) from (ToManaged (mq_target input)) (mq_body input)
        \<lparr>eo_task = mq_task input, eo_defer = Some (mq_defer input), eo_onBehalfOf = None, eo_notBefore = mq_notBefore input,
         eo_authorization = mq_authorization input, eo_receipt = None\<rparr> of
        None \<Rightarrow> Inl EnvelopeInvalid
      | Some msg \<Rightarrow> Inr (msg\<lparr>
          m_receipt := map_option (\<lambda>b. \<lparr>ro_root = nullish (og_root b) (mq_id input), ro_authorization = og_authorization b,
            ro_letter = og_letter b\<rparr>) basis,
          m_origin := Some origin, m_notification := Some (nullish (mq_notification input) Conversation),
          m_registration := s_generation s, m_fingerprint := Some (me_fingerprint e input),
          m_turnOptions := options, m_images := mq_images input\<rparr>))"

definition accept_new ::
  "message_env \<Rightarrow> principal \<Rightarrow> message_request \<Rightarrow> basis_result option \<Rightarrow> session \<Rightarrow> message_origin
     \<Rightarrow> accept_error + chat_message" where
  "accept_new e from input basis s origin =
     bind_result (accept_delegation e from input s) (\<lambda>_.
     bind_result (accept_state e input s) (\<lambda>_.
     bind_result (accept_options e input s) (\<lambda>options.
     bind_result (accept_envelope e from input basis s origin options) (\<lambda>msg.
     bind_result (require (\<not> me_abortedLast e) call_aborted) (\<lambda>_.
     bind_result (case (mq_images input, me_pin e) of (Some _, Some x) \<Rightarrow> Inl (ControlError x) | _ \<Rightarrow> Inr ()) (\<lambda>_.
     Inr msg))))))"

subsection \<open>Under the locks\<close>

text \<open>What is written, in order.  An error inside the pinning of images is answered as an unavailable attachment.\<close>

datatype accept_effect = WriteJournal "op_journal option" | AppendSlot ledger_slot

type_synonym accept_files = "ledger_slot list \<times> op_journal option"

fun accept_write :: "accept_effect \<Rightarrow> accept_files \<Rightarrow> accept_files" where
  "accept_write (WriteJournal j) (ledger, journal) = (ledger, j)"
| "accept_write (AppendSlot slot) (ledger, journal) = (ledger @ [slot], journal)"

definition op_result :: "op_error + 'a \<Rightarrow> accept_error + 'a" where
  "op_result r = map_sum OperationError id r"

text \<open>\<open>ledger\<close> is the one that the append finds, after whatever other writers appended in between.\<close>

definition accept_append ::
  "message_env \<Rightarrow> principal \<Rightarrow> session \<Rightarrow> chat_message \<Rightarrow> string \<Rightarrow> accept_files
     \<Rightarrow> accept_effect list \<times> (accept_error + bool)" where
  "accept_append e from s msg fingerprint files =
     (let prepared = (if is_native s
            then bind_result (op_identity s) (\<lambda>o'. op_result
              (prepareMessageOperation (me_hash e) (me_fits e) o' from (m_id msg) fingerprint (me_now e) (snd files)))
            else Inr (snd files));
          wrote = (\<lambda>j. if is_native s then [WriteJournal j] else [])
      in case prepared of
        Inl x \<Rightarrow> ([], Inl x)
      | Inr journal \<Rightarrow> (case admitOnce (me_select e) msg (fst files) of
          Inl x \<Rightarrow> (wrote journal, Inl (LedgerError x))
        | Inr (False, _) \<Rightarrow> (wrote journal, Inr False)
        | Inr (True, ledger') \<Rightarrow>
            (case (if is_native s
               then bind_result (op_identity s) (\<lambda>o'. op_result
                 (advanceMessageOperation (me_fits e) o' (m_id msg) Queued None (me_now e) journal)) else Inr journal) of
               Inl x \<Rightarrow> (wrote journal @ [AppendSlot (last ledger')], Inl x)
             | Inr journal' \<Rightarrow> (wrote journal @ [AppendSlot (last ledger')] @ wrote journal', Inr True))))"

definition attachment_refused :: accept_error where
  "attachment_refused = ControlError (AppError ''ATTACHMENT_UNAVAILABLE'' ''The image attachment is unavailable'' 409)"

definition pinned_result :: "message_request \<Rightarrow> accept_error + 'a \<Rightarrow> accept_error + 'a" where
  "pinned_result input r = (if mq_images input = None then r else map_sum (\<lambda>_. attachment_refused) id r)"

definition letter_receipt :: "bool \<Rightarrow> chat_message \<Rightarrow> message_receipt" where
  "letter_receipt duplicate msg = \<lparr>rc_messageId = m_id msg, rc_origin = nullish (m_origin msg) unknownMessageOrigin,
     rc_notification = nullish (m_notification msg) Conversation, rc_registration = m_registration msg,
     rc_duplicate = duplicate, rc_turnOptions = m_turnOptions msg\<rparr>"

definition accept_locked ::
  "message_env \<Rightarrow> principal \<Rightarrow> message_request \<Rightarrow> basis_result option \<Rightarrow> ledger_slot list \<Rightarrow> accept_files
     \<Rightarrow> accept_effect list \<times> (accept_error + message_receipt)" where
  "accept_locked e from input basis ext files =
     (case accept_target e from input of
        Inl x \<Rightarrow> ([], Inl x)
      | Inr (s, origin) \<Rightarrow>
          (case prior_of (fst files) (mq_id input) of
             Some prior \<Rightarrow>
               (if \<not> same_request from input origin (me_fingerprint e input) prior then ([], Inl (LedgerError IdempotencyConflict))
                else if \<not> is_native s then ([], Inr (letter_receipt True prior))
                else case bind_result (op_identity s) (\<lambda>o'. op_result
                    (advanceMessageOperation (me_fits e) o' (m_id prior) Queued None (me_now e) (snd files))) of
                    Inl x \<Rightarrow> ([], Inl x)
                  | Inr journal \<Rightarrow> ([WriteJournal journal], Inr (letter_receipt True prior)))
           | None \<Rightarrow>
               (case accept_new e from input basis s origin of
                  Inl x \<Rightarrow> ([], Inl x)
                | Inr msg \<Rightarrow>
                    (case accept_append e from s msg (me_fingerprint e input) (fst files @ ext, snd files) of
                       (es, r) \<Rightarrow> (es, bind_result (pinned_result input r) (\<lambda>appended.
                         if appended then Inr (letter_receipt False msg) else Inl (LedgerError IdempotencyConflict)))))))"

text \<open>A call to a native session whose answer is that it sleeps wakes the session and tries again: the answers of the
  attempts, each with the outcome of the wake after it.\<close>

fun accept_attempts ::
  "bool \<Rightarrow> ((accept_error + message_receipt) \<times> accept_error option) list \<Rightarrow> (accept_error + message_receipt) option" where
  "accept_attempts native [] = None"
| "accept_attempts native ((r, wake) # rest) =
     (case r of
        Inl (ControlError (AppError code _ _)) \<Rightarrow>
          (if native \<and> code = ''SESSION_SLEEPING'' then (case wake of Some x \<Rightarrow> Some (Inl x) | None \<Rightarrow> accept_attempts native rest)
           else Some r)
      | _ \<Rightarrow> Some r)"

subsection \<open>Withdrawing a letter\<close>

datatype cancel_outcome = CoCancelled | CoDelivered | CoUndeliverable | CoUnknown | CoNotYours

definition cancelControlMessage ::
  "ledger_slot list \<Rightarrow> string \<Rightarrow> principal \<Rightarrow> ack_line list \<Rightarrow> ack_line list \<times> cancel_outcome" where
  "cancelControlMessage ledger i who acks = (case prior_of ledger i of
      None \<Rightarrow> (acks, CoUnknown)
    | Some msg \<Rightarrow>
        (if \<not> samePrincipal (m_from msg) who then (acks, CoNotYours)
         else (case loadAcks acks (m_id msg) of
             Some AckCancelled \<Rightarrow> (acks, CoCancelled)
           | Some AckUndeliverable \<Rightarrow> (acks, CoUndeliverable)
           | Some AckDelivered \<Rightarrow> (acks, CoDelivered)
           | None \<Rightarrow> if \<not> isConditional msg then (acks, CoDelivered)
               else (appendAck acks (m_id msg) ByCancel, CoCancelled))))"

subsection \<open>Reading an operation\<close>

record operation_evidence =
  oe_state :: op_phase
  oe_turnId :: "string option"
  oe_continuations :: "continuation list"
  oe_approvals :: "pending_approval list"
  oe_observedAt :: int
  oe_expiresAt :: "int option"
  oe_hold :: "(chat_hold_kind \<times> string \<times> int) option"

datatype operation_read = OpAvailable operation_evidence | OpUnavailable | OpExpired

definition readMessageOperation ::
  "string \<Rightarrow> session list \<Rightarrow> (string \<Rightarrow> string) \<Rightarrow> principal \<Rightarrow> managed_peer \<Rightarrow> string \<Rightarrow> string \<Rightarrow> int
     \<Rightarrow> (session \<Rightarrow> op_journal option) \<Rightarrow> hold_view option \<Rightarrow> operation_read" where
  "readMessageOperation machine rows hash who target registration i now journal hold =
     (case controlTarget machine rows target of
        None \<Rightarrow> OpUnavailable
      | Some s \<Rightarrow>
          (if \<not> is_native s \<or> s_generation s \<noteq> Some registration then OpUnavailable
           else (case bind_result (op_identity s) (\<lambda>o'. op_result (readMessageJournal o' (journal s))) of
               Inr (Some j) \<Rightarrow>
                 (case List.find (\<lambda>r. mr_messageId r = i \<and> mr_principal r = messagePrincipal hash who) (mj_records j) of
                    None \<Rightarrow> OpUnavailable
                  | Some r \<Rightarrow>
                      (if \<not> unexpired now r then OpExpired
                       else OpAvailable \<lparr>oe_state = (if mr_phase r = Preparing then Uncertain else mr_phase r),
                         oe_turnId = mr_turnId r, oe_continuations = mr_continuations r, oe_approvals = mr_approvals r,
                         oe_observedAt = mr_observedAt r, oe_expiresAt = mr_expiresAt r,
                         oe_hold = (case hold of
                             Some h \<Rightarrow> if hv_msgId h = Some i then Some (hv_kind h, take 512 (hv_reason h), hv_heldForMs h) else None
                           | None \<Rightarrow> None)\<rparr>))
             | _ \<Rightarrow> OpUnavailable)))"

end
