(* ===== verification/MessageDoor.thy ===== *)
theory MessageDoor
  imports ControlMessage
begin

text \<open>
  What the door for letters keeps over any calls, crashes and other writers: one letter per accepted id, and a
  call that died half-way ends in the same state when it is repeated.
\<close>

subsection \<open>The receipt of a repeated call\<close>

lemma read_again:
  assumes "journal_ok j" "mj_registrationGeneration j = os_registrationGeneration s" "mj_runtime j = os_runtime s"
    "mj_nativeId j = os_nativeId s"
  shows "readMessageJournal s (Some j) = Inr (Some j)"
  using assms by (simp add: readMessageJournal_def)

lemma prepare_reads:
  assumes "prepareMessageOperation hash fits s from i fp now stored = Inr st"
  obtains j where "st = Some j" "readMessageJournal s st = Inr (Some j)"
proof -
  obtain found where found: "readMessageJournal s stored = Inr found"
    using assms by (auto simp: prepareMessageOperation_def bind_result_Inr_iff)
  let ?j = "nullish found (empty_journal s)"
  show ?thesis
  proof (cases "List.find (\<lambda>r. mr_messageId r = i) (mj_records ?j)")
    case (Some r)
    then obtain j where "found = Some j" by (cases found) (auto simp: empty_journal_def)
    moreover have "st = stored" using assms found Some by (auto simp: prepareMessageOperation_def Let_def split: if_splits)
    ultimately show ?thesis using found readMessageJournal_SomeD that by blast
  next
    case None
    with assms found obtain rs where st: "st = Some (?j\<lparr>mj_records := rs\<rparr>)" "journal_ok (?j\<lparr>mj_records := rs\<rparr>)"
      by (auto simp: prepareMessageOperation_def Let_def dest!: write_journal_InrD split: option.splits if_splits)
    have "mj_registrationGeneration ?j = os_registrationGeneration s" "mj_runtime ?j = os_runtime s" "mj_nativeId ?j = os_nativeId s"
      using found by (cases found; cases stored; auto simp: empty_journal_def readMessageJournal_def split: if_splits)+
    with st that show ?thesis by (simp add: read_again)
  qed
qed

lemma prepare_again:
  assumes "prepareMessageOperation hash fits s from i fp now stored = Inr st"
  shows "prepareMessageOperation hash fits s from i fp now' st = Inr st"
proof -
  from prepare_reads [OF assms] obtain j where j: "st = Some j" "readMessageJournal s st = Inr (Some j)" .
  from prepare_present [OF assms] j(1) obtain r where r: "r \<in> set (mj_records j)" "mr_messageId r = i"
    "mr_principal r = messagePrincipal hash from" "mr_fingerprint r = fp" by auto
  have "distinct (map mr_messageId (mj_records j))" using readMessageJournal_SomeD [OF j(2)] by (simp add: journal_ok_def)
  from find_unique [OF this r(1)] r j show ?thesis by (simp add: prepareMessageOperation_def)
qed

lemma advance_queued:
  "advanceMessageOperation fits s i Queued None now stored =
     bind_result (readMessageJournal s stored) (\<lambda>found. case found of None \<Rightarrow> Inr stored
       | Some j \<Rightarrow> (case List.find (\<lambda>r. mr_messageId r = i) (mj_records j) of None \<Rightarrow> Inr stored
         | Some r \<Rightarrow> if mr_expiresAt r \<noteq> None \<or> mr_phase r \<noteq> Preparing then Inr stored
             else write_journal fits (update_record i (advanced Queued None now) j)))"
  unfolding advanceMessageOperation_def by (intro arg_cong [where f = "bind_result _"] ext)
    (simp add: terminal_phase_def split: option.split)

lemma find_update:
  assumes "\<And>x. mr_messageId (f x) = mr_messageId x"
  shows "List.find (\<lambda>r. mr_messageId r = i) (map (\<lambda>r. if mr_messageId r = i then f r else r) rs)
    = map_option f (List.find (\<lambda>r. mr_messageId r = i) rs)"
  by (induction rs) (simp_all add: assms)

lemma advance_again:
  assumes a: "advanceMessageOperation fits s i Queued None now stored = Inr st"
  shows "advanceMessageOperation fits s i Queued None now' st = Inr st"
proof -
  from a obtain found where f: "readMessageJournal s stored = Inr found" by (auto simp: advance_queued bind_result_Inr_iff)
  show ?thesis
  proof (cases "\<exists>j r. found = Some j \<and> List.find (\<lambda>r. mr_messageId r = i) (mj_records j) = Some r
      \<and> mr_expiresAt r = None \<and> mr_phase r = Preparing")
    case False
    with a f have "st = stored" by (auto simp: advance_queued split: option.splits if_splits)
    with False f show ?thesis by (auto simp: advance_queued split: option.splits)
  next
    case True
    then obtain j r where j: "found = Some j" "List.find (\<lambda>r. mr_messageId r = i) (mj_records j) = Some r"
      "mr_expiresAt r = None" "mr_phase r = Preparing" by blast
    let ?j = "update_record i (advanced Queued None now) j"
    from a f j have st: "st = Some ?j" "journal_ok ?j" by (auto simp: advance_queued dest: write_journal_InrD)
    have "stored = Some j" using f j(1) readMessageJournal_SomeD by blast
    with f j(1) st(2) have "readMessageJournal s (Some ?j) = Inr (Some ?j)"
      by (auto simp: readMessageJournal_def update_record_def split: if_splits)
    moreover have "List.find (\<lambda>r. mr_messageId r = i) (mj_records ?j) = Some (advanced Queued None now r)"
      using j(2) by (simp add: update_record_def find_update advanced_def)
    ultimately show ?thesis using st(1) by (simp add: advance_queued) (simp add: advanced_def)
  qed
qed

subsection \<open>What one call writes\<close>

definition appended :: "accept_effect list \<Rightarrow> ledger_slot list" where
  "appended es = List.map_filter (\<lambda>x. case x of AppendSlot slot \<Rightarrow> Some slot | WriteJournal _ \<Rightarrow> None) es"

lemma appended_simps [simp]:
  "appended [] = []" "appended (AppendSlot slot # es) = slot # appended es" "appended (WriteJournal j # es) = appended es"
  "appended (xs @ ys) = appended xs @ appended ys"
  by (simp_all add: appended_def map_filter_simps List.map_filter_def)

lemma written_ledger: "fst (fold accept_write es files) = fst files @ appended es"
proof (induction es arbitrary: files)
  case (Cons x es)
  then show ?case by (cases x; cases files) simp_all
qed simp

lemma append_writes:
  assumes "accept_append e from s msg f files = (es, r)"
  obtains (nothing) "appended es = []" "r \<noteq> Inr True"
  | (letter) o' where "appended es = [Some (msg\<lparr>m_turnOptions := o'\<rparr>)]" "prior_of (fst files) (m_id msg) = None"
      "m_turnOptions msg \<noteq> None \<longrightarrow> o' = m_turnOptions msg"
proof (cases "admitOnce (me_select e) msg (fst files)")
  case (Inl x)
  then have "appended es = []" "r \<noteq> Inr True" using assms
    by (auto simp: accept_append_def Let_def split: sum.splits if_splits)
  then show ?thesis by (rule nothing)
next
  case (Inr y)
  obtain b ledger' where y: "y = (b, ledger')" by force
  show ?thesis
  proof (cases b)
    case False
    then have "appended es = []" "r \<noteq> Inr True" using assms Inr y
      by (auto simp: accept_append_def Let_def split: sum.splits if_splits)
    then show ?thesis by (rule nothing)
  next
    case True
    with Inr y obtain o' where l: "prior_of (fst files) (m_id msg) = None" "ledger' = fst files @ [Some (msg\<lparr>m_turnOptions := o'\<rparr>)]"
      "m_turnOptions msg \<noteq> None \<longrightarrow> o' = m_turnOptions msg"
      by (auto simp: admitOnce_def bind_result_Inr_iff dest!: appendMessage_id split: option.splits if_splits)
    have "appended es = [] \<and> r \<noteq> Inr True \<or> appended es = [last ledger']" using assms Inr y True
      by (auto simp: accept_append_def Let_def split: sum.splits if_splits)
    then show ?thesis
    proof (elim disjE)
      assume "appended es = [] \<and> r \<noteq> Inr True"
      then show ?thesis by (elim conjE) (rule nothing)
    next
      assume "appended es = [last ledger']"
      with l show ?thesis by (intro letter [of o']) simp_all
    qed
  qed
qed

text \<open>The letter of an accepted request answers that request.\<close>

lemma envelope_fields:
  assumes "buildEnvelope ok i ts who to body opts = Some msg"
  shows "m_id msg = i" "m_from msg = who" "m_to msg = to" "m_body msg = body" "m_task msg = eo_task opts"
    "m_defer msg = nullish (eo_defer opts) True" "m_notBefore msg = eo_notBefore opts"
    "m_authorization msg = eo_authorization opts" "m_onBehalfOf msg = eo_onBehalfOf opts"
  using assms by (simp_all add: buildEnvelope_def Let_def split: if_splits) auto

lemma new_letter:
  assumes "accept_new e from input basis s origin = Inr msg"
  shows "m_id msg = mq_id input" "same_request from input origin (me_fingerprint e input) (msg\<lparr>m_turnOptions := o'\<rparr>)"
    "m_origin msg = Some origin" "is_native s \<Longrightarrow> m_turnOptions msg \<noteq> None"
proof -
  from assms obtain options where o: "accept_options e input s = Inr options"
    and m: "accept_envelope e from input basis s origin options = Inr msg"
    by (auto simp: accept_new_def bind_result_Inr_iff)
  let ?opts = "\<lparr>eo_task = mq_task input, eo_defer = Some (mq_defer input), eo_onBehalfOf = None, eo_notBefore = mq_notBefore input,
     eo_authorization = mq_authorization input, eo_receipt = None\<rparr>"
  obtain m0 where b: "buildEnvelope (me_valid e) (mq_id input) (me_ts e) from (ToManaged (mq_target input)) (mq_body input) ?opts = Some m0"
    using m by (cases "buildEnvelope (me_valid e) (mq_id input) (me_ts e) from (ToManaged (mq_target input)) (mq_body input) ?opts")
      (simp_all add: accept_envelope_def)
  note f = envelope_fields [OF b]
  from m have e: "msg = m0\<lparr>
          m_receipt := map_option (\<lambda>b. \<lparr>ro_root = nullish (og_root b) (mq_id input), ro_authorization = og_authorization b,
            ro_letter = og_letter b\<rparr>) basis,
          m_origin := Some origin, m_notification := Some (nullish (mq_notification input) Conversation),
          m_registration := s_generation s, m_fingerprint := Some (me_fingerprint e input),
          m_turnOptions := options, m_images := mq_images input\<rparr>"
    by (simp add: accept_envelope_def b)
  have v: "m_id msg = m_id m0" "m_from msg = m_from m0" "m_to msg = m_to m0" "m_body msg = m_body m0"
    "m_task msg = m_task m0" "m_defer msg = m_defer m0" "m_notBefore msg = m_notBefore m0" "m_authorization msg = m_authorization m0"
    "m_onBehalfOf msg = m_onBehalfOf m0" "m_origin msg = Some origin" "m_fingerprint msg = Some (me_fingerprint e input)"
    "m_notification msg = Some (nullish (mq_notification input) Conversation)" "m_turnOptions msg = options"
    unfolding e by simp_all
  show "m_id msg = mq_id input" "m_origin msg = Some origin" using f v by simp_all
  show "same_request from input origin (me_fingerprint e input) (msg\<lparr>m_turnOptions := o'\<rparr>)"
    by (simp add: same_request_def samePrincipal_def sameTarget_def v f)
  show "m_turnOptions msg \<noteq> None" if "is_native s"
    unfolding v(13) using o that by (auto simp: accept_options_def Let_def split: sum.splits option.splits)
qed

subsection \<open>One call\<close>

lemma locked_cases:
  assumes "accept_locked e from input basis ext files = (es, r)"
  obtains (refused) x where "es = []" "r = Inl x"
  | (known) s origin prior j where "accept_target e from input = Inr (s, origin)" "prior_of (fst files) (mq_id input) = Some prior"
      "same_request from input origin (me_fingerprint e input) prior" "appended es = []" "r = Inr (letter_receipt True prior)"
      "es = (if is_native s then [WriteJournal j] else [])"
  | (offered) s origin msg q where "accept_target e from input = Inr (s, origin)" "prior_of (fst files) (mq_id input) = None"
      "accept_new e from input basis s origin = Inr msg"
      "accept_append e from s msg (me_fingerprint e input) (fst files @ ext, snd files) = (es, q)"
      "r = Inr (letter_receipt False msg) \<and> q = Inr True \<or> (\<exists>x. r = Inl x)"
proof (cases "accept_target e from input")
  case (Inl x)
  with assms refused show ?thesis by (auto simp: accept_locked_def)
next
  case (Inr y)
  obtain s origin where y: "y = (s, origin)" by force
  note t = Inr [unfolded y]
  show ?thesis
  proof (cases "prior_of (fst files) (mq_id input)")
    case (Some prior)
    with assms t have "(\<exists>x. es = [] \<and> r = Inl x) \<or> (same_request from input origin (me_fingerprint e input) prior
        \<and> appended es = [] \<and> r = Inr (letter_receipt True prior) \<and> (\<exists>j. es = (if is_native s then [WriteJournal j] else [])))"
      by (auto simp: accept_locked_def split: sum.splits if_splits)
    with t Some refused known show ?thesis by blast
  next
    case None
    show ?thesis
    proof (cases "accept_new e from input basis s origin")
      case (Inl x)
      with assms t None refused show ?thesis by (auto simp: accept_locked_def)
    next
      case (Inr msg)
      obtain es' q where q: "accept_append e from s msg (me_fingerprint e input) (fst files @ ext, snd files) = (es', q)" by force
      with assms t None Inr have "es = es'" "r = bind_result (pinned_result input q) (\<lambda>appended.
          if appended then Inr (letter_receipt False msg) else Inl (LedgerError IdempotencyConflict))"
        by (simp_all add: accept_locked_def)
      then show ?thesis using offered [OF t None Inr] q
        by (cases q) (auto simp: pinned_result_def split: if_splits)
    qed
  qed
qed

subsection \<open>Any calls, crashes and other writers\<close>

text \<open>The ledger, the journals by registry name and thread, and the answers given: who asked for what, the
  fingerprint of the request and the receipt.  \<open>ext\<close> is what other writers append meanwhile.\<close>

record message_world =
  mw_ledger :: "ledger_slot list"
  mw_journals :: "string \<times> string \<Rightarrow> op_journal option"
  mw_answers :: "(principal \<times> message_request \<times> string \<times> message_receipt) list"

definition journal_key :: "message_request \<Rightarrow> string \<times> string" where
  "journal_key input = (mp_session (mq_target input), mp_thread (mq_target input))"

definition files_of :: "message_world \<Rightarrow> message_request \<Rightarrow> accept_files" where
  "files_of w input = (mw_ledger w, mw_journals w (journal_key input))"

definition wrote :: "message_world \<Rightarrow> message_request \<Rightarrow> ledger_slot list \<Rightarrow> accept_effect list \<Rightarrow> message_world" where
  "wrote w input ext es =
     (let files = fold accept_write es (mw_ledger w @ ext, mw_journals w (journal_key input))
      in w\<lparr>mw_ledger := fst files, mw_journals := (mw_journals w)(journal_key input := snd files)\<rparr>)"

inductive message_step :: "message_world \<Rightarrow> message_world \<Rightarrow> bool" where
  answers: "accept_basis e from input = Inr basis \<Longrightarrow>
    accept_locked e from input basis ext (files_of w input) = (es, r) \<Longrightarrow> distinct (ledger_ids (mw_ledger w @ ext)) \<Longrightarrow>
    message_step w ((wrote w input ext es)\<lparr>mw_answers := mw_answers w
      @ (case r of Inr rc \<Rightarrow> [(from, input, me_fingerprint e input, rc)] | Inl _ \<Rightarrow> [])\<rparr>)"
| dies: "accept_basis e from input = Inr basis \<Longrightarrow>
    accept_locked e from input basis ext (files_of w input) = (es, r) \<Longrightarrow> distinct (ledger_ids (mw_ledger w @ ext)) \<Longrightarrow>
    message_step w (wrote w input ext (take n es))"
| others: "distinct (ledger_ids (mw_ledger w @ ext)) \<Longrightarrow>
    message_step w (w\<lparr>mw_ledger := mw_ledger w @ ext, mw_journals := journals\<rparr>)"

inductive message_reach :: "message_world \<Rightarrow> bool" where
  start: "message_reach \<lparr>mw_ledger = [], mw_journals = journals, mw_answers = []\<rparr>"
| step: "message_reach w \<Longrightarrow> message_step w w' \<Longrightarrow> message_reach w'"

text \<open>What an answer stands for: one letter of the ledger, by its sender, with the request's own content.\<close>

definition answered_by :: "ledger_slot list \<Rightarrow> principal \<times> message_request \<times> string \<times> message_receipt \<Rightarrow> bool" where
  "answered_by ledger a = (case a of (from, input, f, rc) \<Rightarrow> rc_messageId rc = mq_id input
     \<and> (\<exists>msg origin. prior_of ledger (mq_id input) = Some msg \<and> same_request from input origin f msg))"

definition first_ids :: "(principal \<times> message_request \<times> string \<times> message_receipt) list \<Rightarrow> string list" where
  "first_ids as = map (\<lambda>(_, input, _, _). mq_id input) (filter (\<lambda>(_, _, _, rc). \<not> rc_duplicate rc) as)"

definition message_inv :: "message_world \<Rightarrow> bool" where
  "message_inv w = (distinct (ledger_ids (mw_ledger w)) \<and> (\<forall>a\<in>set (mw_answers w). answered_by (mw_ledger w) a)
     \<and> distinct (first_ids (mw_answers w)))"

lemma answered_append: "answered_by ledger a \<Longrightarrow> answered_by (ledger @ ext) a"
  by (cases a) (force simp: answered_by_def prior_of_append)

lemma first_ids_append:
  "first_ids (as @ [(from, input, f, rc)]) = first_ids as @ (if rc_duplicate rc then [] else [mq_id input])"
  by (simp add: first_ids_def)

lemma first_ids_known: "\<forall>a\<in>set as. answered_by ledger a \<Longrightarrow> set (first_ids as) \<subseteq> set (ledger_ids ledger)"
proof
  fix i assume known: "\<forall>a\<in>set as. answered_by ledger a" and "i \<in> set (first_ids as)"
  then obtain who input f rc where a: "(who, input, f, rc) \<in> set as" "i = mq_id input" by (auto simp: first_ids_def)
  with known have "prior_of ledger i \<noteq> None" by (force simp: answered_by_def)
  then show "i \<in> set (ledger_ids ledger)" using prior_of_None [of ledger i] by simp
qed

lemma wrote_sel [simp]:
  "mw_ledger (wrote w input ext es) = mw_ledger w @ ext @ appended es" "mw_answers (wrote w input ext es) = mw_answers w"
  by (simp_all add: wrote_def Let_def written_ledger)

lemma appended_take: "appended es = [] \<or> (\<exists>x. appended es = [x]) \<Longrightarrow> appended (take n es) = [] \<or> appended (take n es) = appended es"
  using appended_simps(4) [of "take n es" "drop n es"] by (auto simp: Cons_eq_append_conv append_eq_Cons_conv)

lemma locked_ledger:
  assumes l: "accept_locked e from input basis ext (files_of w input) = (es, r)"
    and d: "distinct (ledger_ids (mw_ledger w @ ext))"
  shows "appended es = [] \<or> (\<exists>x. appended es = [x])" "distinct (ledger_ids (mw_ledger w @ ext @ appended es))"
    "r = Inr rc \<Longrightarrow> answered_by (mw_ledger w @ ext @ appended es) (from, input, me_fingerprint e input, rc)
      \<and> (\<not> rc_duplicate rc \<longrightarrow> mq_id input \<notin> set (ledger_ids (mw_ledger w)))"
proof -
  have "(appended es = [] \<or> (\<exists>x. appended es = [x])) \<and> distinct (ledger_ids (mw_ledger w @ ext @ appended es))
    \<and> (r = Inr rc \<longrightarrow> answered_by (mw_ledger w @ ext @ appended es) (from, input, me_fingerprint e input, rc)
      \<and> (\<not> rc_duplicate rc \<longrightarrow> mq_id input \<notin> set (ledger_ids (mw_ledger w))))"
    using l
  proof (cases rule: locked_cases)
    case refused
    with d show ?thesis by simp
  next
    case (known s origin prior j)
    then have p: "prior_of (mw_ledger w) (mq_id input) = Some prior" by (simp add: files_of_def)
    from prior_of_SomeD [OF p] have "answered_by (mw_ledger w) (from, input, me_fingerprint e input, letter_receipt True prior)"
      using known(3) p by (auto simp: answered_by_def letter_receipt_def)
    from answered_append [OF this, of ext] show ?thesis using d known by (auto simp: letter_receipt_def)
  next
    case (offered s origin msg q)
    note new = new_letter [OF offered(3)]
    from offered(4) show ?thesis
    proof (cases rule: append_writes)
      case nothing
      with d offered(5) show ?thesis by auto
    next
      case (letter o')
      then have none: "mq_id input \<notin> set (ledger_ids (mw_ledger w @ ext))"
        by (simp add: files_of_def prior_of_None new(1))
      have "prior_of (mw_ledger w @ ext @ appended es) (mq_id input) = Some (msg\<lparr>m_turnOptions := o'\<rparr>)"
        using letter(1) none by (simp add: prior_of_append prior_of_None [THEN iffD2] ledger_ids_append new(1))
      then have "answered_by (mw_ledger w @ ext @ appended es) (from, input, me_fingerprint e input, letter_receipt False msg)"
        using new(2) [of o'] by (auto simp: answered_by_def letter_receipt_def new(1))
      moreover have "distinct (ledger_ids (mw_ledger w @ ext @ appended es))"
        using d letter(1) none by (simp add: ledger_ids_append new(1))
      ultimately show ?thesis using letter(1) none offered(5) by (auto simp: ledger_ids_append)
    qed
  qed
  then show "appended es = [] \<or> (\<exists>x. appended es = [x])" "distinct (ledger_ids (mw_ledger w @ ext @ appended es))"
    "r = Inr rc \<Longrightarrow> answered_by (mw_ledger w @ ext @ appended es) (from, input, me_fingerprint e input, rc)
      \<and> (\<not> rc_duplicate rc \<longrightarrow> mq_id input \<notin> set (ledger_ids (mw_ledger w)))" by blast+
qed

lemma message_step_inv: "message_step w w' \<Longrightarrow> message_inv w \<Longrightarrow> message_inv w'"
proof (induction rule: message_step.induct)
  case (answers e who input basis ext w es r)
  note l = locked_ledger [OF answers(2,3)]
  have old: "\<forall>a\<in>set (mw_answers w). answered_by (mw_ledger w @ ext @ appended es) a"
    using answers(4) by (auto simp: message_inv_def intro: answered_append)
  show ?case
  proof (cases r)
    case (Inl x)
    with l(2) old answers(4) show ?thesis by (simp add: message_inv_def)
  next
    case (Inr rc)
    have "mq_id input \<notin> set (first_ids (mw_answers w))" if "\<not> rc_duplicate rc"
      using l(3) [OF Inr] that first_ids_known [of "mw_answers w" "mw_ledger w"] answers(4) by (auto simp: message_inv_def)
    with Inr l(2,3) old answers(4) show ?thesis by (auto simp: message_inv_def first_ids_append)
  qed
next
  case (dies e who input basis ext w es r n)
  note l = locked_ledger [OF dies(2,3)]
  have "\<forall>a\<in>set (mw_answers w). answered_by (mw_ledger w @ ext @ appended (take n es)) a"
    using dies(4) by (auto simp: message_inv_def intro: answered_append)
  with l(2) dies(3,4) appended_take [OF l(1), of n] show ?case by (auto simp: message_inv_def)
next
  case (others w ext journals)
  then show ?case by (auto simp: message_inv_def intro: answered_append)
qed

lemma message_reach_inv: "message_reach w \<Longrightarrow> message_inv w"
proof (induction rule: message_reach.induct)
  case (start journals)
  show ?case by (simp add: message_inv_def first_ids_def)
next
  case (step w w')
  then show ?case by (blast intro: message_step_inv)
qed

subsection \<open>A repeated call\<close>

lemma append_full:
  assumes "accept_append e from s msg f files = (es, Inr True)"
  obtains o' where "admitOnce (me_select e) msg (fst files) = Inr (True, fst files @ [Some (msg\<lparr>m_turnOptions := o'\<rparr>)])"
      "\<not> is_native s" "es = [AppendSlot (Some (msg\<lparr>m_turnOptions := o'\<rparr>))]"
  | o' i j1 j2 where "admitOnce (me_select e) msg (fst files) = Inr (True, fst files @ [Some (msg\<lparr>m_turnOptions := o'\<rparr>)])"
      "is_native s" "op_identity s = Inr i"
      "prepareMessageOperation (me_hash e) (me_fits e) i from (m_id msg) f (me_now e) (snd files) = Inr j1"
      "advanceMessageOperation (me_fits e) i (m_id msg) Queued None (me_now e) j1 = Inr j2"
      "es = [WriteJournal j1, AppendSlot (Some (msg\<lparr>m_turnOptions := o'\<rparr>)), WriteJournal j2]"
proof -
  from assms obtain ledger' where a: "admitOnce (me_select e) msg (fst files) = Inr (True, ledger')"
    by (auto simp: accept_append_def Let_def split: sum.splits if_splits bool.splits)
  then obtain o' where l: "ledger' = fst files @ [Some (msg\<lparr>m_turnOptions := o'\<rparr>)]"
    by (auto simp: admitOnce_def bind_result_Inr_iff dest!: appendMessage_id split: option.splits if_splits)
  show ?thesis
  proof (cases "is_native s")
    case False
    then have "es = [AppendSlot (Some (msg\<lparr>m_turnOptions := o'\<rparr>))]" using assms a l by (simp add: accept_append_def)
    with that(1) a l False show ?thesis by blast
  next
    case True
    then obtain i where i: "op_identity s = Inr i"
      using assms by (cases "op_identity s") (simp_all add: accept_append_def)
    obtain j1 where j1: "prepareMessageOperation (me_hash e) (me_fits e) i from (m_id msg) f (me_now e) (snd files) = Inr j1"
      using assms True i by (cases "prepareMessageOperation (me_hash e) (me_fits e) i from (m_id msg) f (me_now e) (snd files)")
        (simp_all add: accept_append_def op_result_def)
    obtain j2 where j2: "advanceMessageOperation (me_fits e) i (m_id msg) Queued None (me_now e) j1 = Inr j2"
      using assms True i a j1 by (cases "advanceMessageOperation (me_fits e) i (m_id msg) Queued None (me_now e) j1")
        (simp_all add: accept_append_def op_result_def)
    have "es = [WriteJournal j1, AppendSlot (Some (msg\<lparr>m_turnOptions := o'\<rparr>)), WriteJournal j2]"
      using assms True i a l j1 j2 by (simp add: accept_append_def op_result_def)
    with that(2) a l True i j1 j2 show ?thesis by blast
  qed
qed

lemma known_letter:
  assumes "accept_target e from input = Inr (s, origin)" "prior_of (fst files) (mq_id input) = Some prior"
    "same_request from input origin (me_fingerprint e input) prior"
    "is_native s \<Longrightarrow> op_identity s = Inr i \<and> advanceMessageOperation (me_fits e) i (m_id prior) Queued None (me_now e) (snd files) = Inr j"
  shows "accept_locked e from input basis ext files = (if is_native s then [WriteJournal j] else [], Inr (letter_receipt True prior))"
  using assms by (simp add: accept_locked_def op_result_def)

definition same_receipt :: "message_receipt \<Rightarrow> message_receipt \<Rightarrow> bool" where
  "same_receipt a b = (rc_messageId a = rc_messageId b \<and> rc_origin a = rc_origin b \<and> rc_notification a = rc_notification b
     \<and> rc_registration a = rc_registration b)"

text \<open>A call that died after any of its writes ends, when it is repeated, where it would have ended.\<close>

lemma interrupted_call:
  assumes l: "accept_locked e from input basis [] (ledger, journal) = (es, Inr rc)"
    and none: "prior_of ledger (mq_id input) = None"
  shows "\<exists>es' rc'. accept_locked e from input basis [] (fold accept_write (take n es) (ledger, journal)) = (es', Inr rc')
    \<and> fold accept_write es' (fold accept_write (take n es) (ledger, journal)) = fold accept_write es (ledger, journal)
    \<and> same_receipt rc' rc
    \<and> (rc_duplicate rc' \<longleftrightarrow> prior_of (fst (fold accept_write (take n es) (ledger, journal))) (mq_id input) \<noteq> None)"
  (is "\<exists>es' rc'. ?ends es' rc' (fold accept_write (take n es) (ledger, journal))")
  using l
proof (cases rule: locked_cases)
  case (offered s origin msg q)
  then have q: "q = Inr True" and rc: "rc = letter_receipt False msg" by auto
  note t = offered(1) and new = new_letter [OF offered(3)]
  have a: "accept_append e from s msg (me_fingerprint e input) (ledger, journal) = (es, Inr True)" using offered(4) q by simp
  have again: "?ends es rc (ledger, journal)" using l none by (simp add: same_receipt_def rc letter_receipt_def)
  have dup: "same_receipt (letter_receipt True (msg\<lparr>m_turnOptions := o'\<rparr>)) rc" for o'
    by (simp add: same_receipt_def rc letter_receipt_def)
  have prior: "prior_of (ledger @ [Some (msg\<lparr>m_turnOptions := o'\<rparr>)]) (mq_id input) = Some (msg\<lparr>m_turnOptions := o'\<rparr>)" for o'
    using none by (simp add: prior_of_append new(1))
  from a show ?thesis
  proof (cases rule: append_full)
    case (1 o')
    have "?ends [] (letter_receipt True (msg\<lparr>m_turnOptions := o'\<rparr>)) (ledger @ [Some (msg\<lparr>m_turnOptions := o'\<rparr>)], journal)"
      using known_letter [of e "from" input s origin "(ledger @ [Some (msg\<lparr>m_turnOptions := o'\<rparr>)], journal)"] t new(2) prior 1 dup
      by (simp add: letter_receipt_def)
    then show ?thesis using again 1 by (cases n) auto
  next
    case (2 o' i j1 j2)
    let ?msg = "msg\<lparr>m_turnOptions := o'\<rparr>"
    have o': "?msg = msg" using 2(1) new(4) [OF 2(2)]
      by (auto simp: admitOnce_def bind_result_Inr_iff dest!: appendMessage_id split: option.splits if_splits)
    have p: "prepareMessageOperation (me_hash e) (me_fits e) i from (m_id msg) (me_fingerprint e input) (me_now e) j1 = Inr j1"
      using prepare_again 2(4) by blast
    have "accept_append e from s msg (me_fingerprint e input) (ledger, j1) = (es, Inr True)"
      using 2 p by (simp add: accept_append_def op_result_def)
    then have first: "?ends es rc (ledger, j1)"
      using t none offered(3) rc 2 by (simp add: accept_locked_def pinned_result_def same_receipt_def letter_receipt_def)
    have known: "?ends [WriteJournal j2] (letter_receipt True ?msg) (ledger @ [Some ?msg], j)"
      if "advanceMessageOperation (me_fits e) i (m_id msg) Queued None (me_now e) j = Inr j2" for j
      using known_letter [of e "from" input s origin "(ledger @ [Some ?msg], j)" ?msg i j2] t new(2) prior 2 dup that
      by (simp add: letter_receipt_def)
    have "?ends [WriteJournal j2] (letter_receipt True ?msg) (ledger @ [Some ?msg], j2)" using known advance_again [OF 2(5)] by blast
    moreover have "take n es = [] \<or> take n es = [WriteJournal j1] \<or> take n es = [WriteJournal j1, AppendSlot (Some ?msg)] \<or> take n es = es"
      using 2(6) by (cases n; cases "n - 1"; cases "n - 2") auto
    ultimately show ?thesis using again first known [OF 2(5)] 2(6) by auto
  qed
qed (use none in auto)

end
