(* ===== verification/ControlProperties.thy ===== *)
theory ControlProperties
  imports FleetProperties ControlCreate MessageDoor
begin

text \<open>
  What a caller of the control service may rely on: a letter is accepted once, an acceptance that died is
  finished by its repetition, a withdrawn letter is never offered, and a request to create has one session.
\<close>

subsection \<open>Sample calls\<close>

definition door_env :: message_env where
  "door_env = \<lparr>me_machine = ''m1'', me_uuid = (\<lambda>_. True), me_digest = (\<lambda>_. ''d''), me_applications = Map.empty,
     me_lookup = Map.empty, me_fingerprint = (\<lambda>input. mq_id input @ mq_body input), me_hash = id, me_fits = (\<lambda>_. True),
     me_sessions = [a_session], me_chatDefault = True, me_inspects = (\<lambda>_. True),
     me_app = \<lparr>ae_prefix = ''m1'', ae_grants = [], ae_applications = Map.empty, ae_digest = (\<lambda>_. ''d''),
       ae_canonical = (\<lambda>_. True), ae_now = 0\<rparr>,
     me_store = Map.empty, me_stops = Map.empty,
     me_view = (\<lambda>_. \<lparr>de_generation = Some ''g1'', de_archived = False, de_native = True, de_dir = [], de_delegation = None\<rparr>),
     me_sleep = (\<lambda>_. None), me_context = (\<lambda>_. None), me_selection = (\<lambda>_. Inr (0, ''default'')),
     me_turn = (\<lambda>_ options. options), me_validate = (\<lambda>_ _ _. None), me_pin = None, me_select = (\<lambda>_. Inr None),
     me_valid = (\<lambda>_. True), me_abortedFirst = False, me_abortedLast = False, me_now = 5, me_ts = Instant 5\<rparr>"

definition door_request :: message_request where
  "door_request = \<lparr>mq_id = ''i1'', mq_target = a_peer, mq_authorization = Some opening_basis, mq_origin = None,
     mq_notification = None, mq_registration = Some ''g1'', mq_body = ''hello'', mq_images = None, mq_options = None,
     mq_defer = True, mq_notBefore = None, mq_task = None\<rparr>"

definition door_letter :: chat_message where
  "door_letter = (letter ''i1'' True)\<lparr>m_ts := Instant 5, m_origin := Some (principalOrigin (FromManaged b_peer)),
     m_authorization := Some opening_basis, m_notification := Some Conversation, m_registration := Some ''g1'',
     m_receipt := Some \<lparr>ro_root = ''i1'', ro_authorization = opening_basis, ro_letter = None\<rparr>,
     m_fingerprint := Some ''i1hello'', m_turnOptions := Some ''default''\<rparr>"

definition door_record :: "op_phase \<Rightarrow> op_record" where
  "door_record ph = (fresh_record ''i1'' (chatPrincipalKey (FromManaged b_peer)) ''i1hello'' 5)\<lparr>mr_phase := ph\<rparr>"

definition door_journal :: "op_phase \<Rightarrow> op_journal" where
  "door_journal ph = \<lparr>mj_registrationGeneration = ''g1'', mj_runtime = Claude, mj_nativeId = ''n1'', mj_records = [door_record ph]\<rparr>"

lemma door_native:
  "is_native a_session"
  "op_identity a_session = Inr \<lparr>os_registrationGeneration = ''g1'', os_runtime = Claude, os_nativeId = ''n1''\<rparr>"
  by (simp_all add: is_native_def hasNativeRuntime_def op_identity_def nativeId_def a_session_def a_body_def)

lemma door_basis:
  "accept_basis door_env (FromManaged b_peer) door_request
     = Inr (Some \<lparr>og_root = None, og_authorization = opening_basis, og_letter = None\<rparr>)"
  by (simp add: accept_basis_def door_env_def door_request_def admitMessageOrigin_def requireCommunicationAuthorization_def
      basis_ok requireOriginatingBasis_def resolveCommunicationBasis_def opening_sel machine_of_def b_peer_def target_session_def
      controlTarget_def find_session_def a_peer_def a_session_def a_body_def)

lemma door_target:
  "accept_target door_env (FromManaged b_peer) door_request = Inr (a_session, principalOrigin (FromManaged b_peer))"
  by (simp add: accept_target_def door_env_def door_request_def admitMessageOrigin_def require_def target_session_def
      controlTarget_def find_session_def a_peer_def a_session_def a_body_def chatEnabledFor_def supportsManagedInput_def)

lemma door_new:
  "accept_new door_env (FromManaged b_peer) door_request (Some \<lparr>og_root = None, og_authorization = opening_basis, og_letter = None\<rparr>)
     a_session (principalOrigin (FromManaged b_peer)) = Inr door_letter"
  by (simp add: accept_new_def accept_delegation_def accept_state_def accept_options_def accept_envelope_def buildEnvelope_def
      door_env_def door_request_def door_letter_def letter_def require_def delegationStopped_def door_native Let_def)

lemma door_ops:
  "prepareMessageOperation id (\<lambda>_. True) \<lparr>os_registrationGeneration = ''g1'', os_runtime = Claude, os_nativeId = ''n1''\<rparr>
     (FromManaged b_peer) ''i1'' ''i1hello'' 5 None = Inr (Some (door_journal Preparing))"
  "advanceMessageOperation (\<lambda>_. True) \<lparr>os_registrationGeneration = ''g1'', os_runtime = Claude, os_nativeId = ''n1''\<rparr>
     ''i1'' Queued None 5 (Some (door_journal Preparing)) = Inr (Some (door_journal Queued))"
  by (simp_all add: prepareMessageOperation_def advance_queued readMessageJournal_def write_journal_def empty_journal_def Let_def
      door_journal_def door_record_def fresh_record_def journal_ok_def record_ok_def turn_ids_def messagePrincipal_def
      update_record_def advanced_def terminal_phase_def MAX_RECORDS_def map_filter_simps)

lemma door_sel:
  "me_hash door_env = id" "me_fits door_env = (\<lambda>_. True)" "me_now door_env = 5" "me_fingerprint door_env door_request = ''i1hello''"
  "mq_id door_request = ''i1''" "mq_images door_request = None" "m_id door_letter = ''i1''"
  by (simp_all add: door_env_def door_request_def door_letter_def)

lemma door_accepts:
  "accept_locked door_env (FromManaged b_peer) door_request (Some \<lparr>og_root = None, og_authorization = opening_basis, og_letter = None\<rparr>)
     [] ([], None)
   = ([WriteJournal (Some (door_journal Preparing)), AppendSlot (Some door_letter), WriteJournal (Some (door_journal Queued))],
      Inr (letter_receipt False door_letter))"
proof -
  have "admitOnce (me_select door_env) door_letter [] = Inr (True, [Some door_letter])"
    by (simp add: admitOnce_def appendMessage_def door_letter_def)
  then show ?thesis
    by (simp add: accept_locked_def door_target door_new accept_append_def door_native op_result_def pinned_result_def door_sel door_ops)
qed

subsection \<open>Letters\<close>





text \<open>C23: A waiting letter that was withdrawn is settled for good, whatever is written to the ack log afterwards; a
  withdrawal by anybody but its sender changes nothing.\<close>

theorem withdrawn_letter_stays_settled:
  assumes "cancelControlMessage ledger i who acks = (acks', outcome)"
  shows "(outcome = CoCancelled \<longrightarrow> (\<exists>msg. prior_of ledger i = Some msg \<and> samePrincipal (m_from msg) who
            \<and> loadAcks acks' i = Some AckCancelled
            \<and> (isConditional msg \<longrightarrow> (\<forall>rows index cs. letterState msg index (loadAcks (acks' @ rows)) cs \<noteq> Pending))))
    \<and> (acks' \<noteq> acks \<longrightarrow> outcome = CoCancelled)"
proof -
  have kept: "loadAcks (acks' @ rows) i \<noteq> None" if "loadAcks acks' i \<noteq> None" for rows
    using that by (auto simp: loadAcks_def List.map_filter_def map_add_def split: option.splits)
  have "acks' \<noteq> acks \<longrightarrow> outcome = CoCancelled"
    using assms by (auto simp: cancelControlMessage_def split: option.splits if_splits ack_outcome.splits)
  moreover have "\<exists>msg. prior_of ledger i = Some msg \<and> samePrincipal (m_from msg) who \<and> loadAcks acks' i = Some AckCancelled \<and> m_id msg = i"
    if "outcome = CoCancelled"
    using assms that by (cases "prior_of ledger i") (auto simp: cancelControlMessage_def dest: prior_of_SomeD
        split: option.splits if_splits ack_outcome.splits)
  ultimately show ?thesis using kept by (fastforce simp: letterState_def split: option.splits)
qed

theorem withdrawn_letter_stays_settled_witness:
  "\<forall>rows. letterState (letter ''i2'' True) 2 (loadAcks ([AckRow ''i2'' ByCancel] @ rows)) (cursors_at 0) \<noteq> Pending"
proof -
  have "cancelControlMessage two_letters ''i2'' (FromManaged b_peer) [] = ([AckRow ''i2'' ByCancel], CoCancelled)"
    by (simp add: cancelControlMessage_def two_letters_def samePrincipal_def loadAcks_def appendAck_def map_filter_simps)
  from withdrawn_letter_stays_settled [OF this] show ?thesis by (auto simp: two_letters_def)
qed

subsection \<open>Sessions\<close>

text \<open>C9: However often a request to create a session is repeated, cut off or interleaved with others, all its answers
  name one thread and one generation, and no generation is started that no receipt names.\<close>

theorem one_session_per_request:
  assumes "create_reach w"
  shows "(\<forall>i d a d' b. (i, d, a) \<in> set (cq_answers w) \<and> (i, d', b) \<in> set (cq_answers w) \<longrightarrow>
            d = d' \<and> ca_generation a = ca_generation b \<and> ca_thread a = ca_thread b)
    \<and> set (cq_calls w) \<subseteq> cw_generation ` set (cq_rows w) \<and> distinct (map cw_request (cq_rows w)) \<and> length (cq_rows w) \<le> CREATE_ROWS"
proof -
  note inv = create_reach_inv [OF assms]
  have row: "\<exists>r\<in>set (cq_rows w). cw_request r = i \<and> cw_fingerprint r = d \<and> cw_generation r = ca_generation a \<and> cw_thread r = Some (ca_thread a)"
    if "(i, d, a) \<in> set (cq_answers w)" for i d a using inv that by (auto simp: create_inv_def)
  have agree: "d = d' \<and> ca_generation a = ca_generation b \<and> ca_thread a = ca_thread b"
    if "(i, d, a) \<in> set (cq_answers w)" "(i, d', b) \<in> set (cq_answers w)" for i d a d' b
  proof -
    from row [OF that(1)] obtain r where r: "r \<in> set (cq_rows w)" "cw_request r = i" "cw_fingerprint r = d"
      "cw_generation r = ca_generation a" "cw_thread r = Some (ca_thread a)" by blast
    from row [OF that(2)] obtain q where q: "q \<in> set (cq_rows w)" "cw_request q = i" "cw_fingerprint q = d'"
      "cw_generation q = ca_generation b" "cw_thread q = Some (ca_thread b)" by blast
    have "r = q" using same_row [OF inv r(1) q(1)] r(2) q(2) by simp
    with r q show ?thesis by simp
  qed
  have rest: "set (cq_calls w) \<subseteq> cw_generation ` set (cq_rows w)" "distinct (map cw_request (cq_rows w))"
    "length (cq_rows w) \<le> CREATE_ROWS" using inv by (simp_all add: create_inv_def)
  show ?thesis by (intro conjI allI impI rest; elim conjE; rule agree [THEN conjunct1] agree [THEN conjunct2, THEN conjunct1]
      agree [THEN conjunct2, THEN conjunct2])
qed

definition create_spec :: create_canonical where
  "create_spec = \<lparr>cc_name = ''s1'', cc_workspace = ''/w'', cc_flags = [], cc_runtime = Some Claude, cc_envFile = None, cc_recipe = None,
     cc_model = None, cc_noInference = False, cc_policy = None, cc_delegation = None, cc_mode = None, cc_fork = None\<rparr>"

definition create_found :: create_env where
  "create_found = \<lparr>cv_rows = Inr [], cv_generation = ''g1'', cv_aborted = False, cv_abortedStart = False, cv_session = None,
     cv_pending = False, cv_fork = None, cv_created = Inr \<lparr>cs_uuid = ''t1'', cs_canonical = create_spec, cs_agent = Claude\<rparr>,
     cv_afterThrow = None, cv_waited = Inr None, cv_abortedLate = False, cv_source = None\<rparr>"

definition create_receipt :: create_row where
  "create_receipt = \<lparr>cw_request = ''q1'', cw_fingerprint = ''f1'', cw_generation = ''g1'', cw_canonical = create_spec,
     cw_status = CreatePending, cw_thread = None, cw_error = None\<rparr>"

lemma create_runs:
  "create_locked create_found ''q1'' ''f1'' create_spec = ([AcceptRow create_receipt, CreateCall ''g1'', CompleteRow ''q1'' ''t1''],
     Inr \<lparr>ca_duplicate = False, ca_generation = ''g1'', ca_thread = ''t1''\<rparr>)"
  by (simp add: create_locked_def accept_row_def obtain_session_def finish_create_def session_matches_def create_found_def
      create_receipt_def create_spec_def CREATE_ROWS_def Let_def)

theorem one_session_per_request_witness:
  "let w = (fold create_apply [AcceptRow create_receipt, CreateCall ''g1'', CompleteRow ''q1'' ''t1'']
       \<lparr>cq_rows = [], cq_calls = [], cq_answers = []\<rparr>)\<lparr>cq_answers := [(''q1'', ''f1'', \<lparr>ca_duplicate = False, ca_generation = ''g1'', ca_thread = ''t1''\<rparr>)]\<rparr>
   in cq_calls w = [''g1''] \<and> set (cq_calls w) \<subseteq> cw_generation ` set (cq_rows w)"
proof -
  let ?w = "\<lparr>cq_rows = [], cq_calls = [], cq_answers = []\<rparr> :: create_world"
  have "create_step ?w ((fold create_apply [AcceptRow create_receipt, CreateCall ''g1'', CompleteRow ''q1'' ''t1''] ?w)
      \<lparr>cq_answers := cq_answers ?w @ answer_of ''q1'' ''f1'' (Inr \<lparr>ca_duplicate = False, ca_generation = ''g1'', ca_thread = ''t1''\<rparr>)\<rparr>)"
    by (rule create_step.call [OF create_runs]) (simp_all add: create_found_def)
  then have "create_reach ((fold create_apply [AcceptRow create_receipt, CreateCall ''g1'', CompleteRow ''q1'' ''t1''] ?w)
      \<lparr>cq_answers := cq_answers ?w @ answer_of ''q1'' ''f1'' (Inr \<lparr>ca_duplicate = False, ca_generation = ''g1'', ca_thread = ''t1''\<rparr>)\<rparr>)"
    using create_reach.start create_reach.step by blast
  from one_session_per_request [OF this] show ?thesis by (simp add: answer_of_def create_apply_def Let_def)
qed

end
