(* ===== verification/Attachments.thy ===== *)
theory Attachments
  imports ControlMessage
begin

text \<open>
  Images that callers upload and letters carry (\<open>src/attachments\<close>: \<open>store.ts\<close>, \<open>upload.ts\<close>, \<open>service.ts\<close>,
  \<open>finalize.ts\<close>, \<open>pins.ts\<close>, \<open>identity.ts\<close>, \<open>preview.ts\<close>).  The index and the files are the state; a transaction
  under the lock of the store is a function to its effects in order and its answer.  A byte is a \<open>char\<close>; the digest,
  the byte limit of the index and the image decoder are arguments, and the modes of files are not modelled.
\<close>

type_synonym bytes = string

datatype media_type = Png | Jpeg

record att_reference =
  ar_id :: string
  ar_digest :: string
  ar_media :: media_type
  ar_bytes :: nat
  ar_width :: nat
  ar_height :: nat

datatype att_phase = Uploading | Verified | Retained

record att_record =
  ad_id :: string
  ad_target :: managed_peer
  ad_principal :: principal
  ad_registration :: string
  ad_media :: media_type
  ad_bytes :: nat
  ad_digest :: string
  ad_received :: nat
  ad_phase :: att_phase
  ad_createdAt :: int
  ad_expiresAt :: int
  ad_reference :: "att_reference option"

record att_pin =
  an_message :: string
  an_target :: managed_peer
  an_registration :: string
  an_principal :: principal
  an_references :: "att_reference list"

record att_cancellation =
  ac_id :: string
  ac_target :: managed_peer
  ac_registration :: string
  ac_principal :: principal
  ac_expiresAt :: int

record att_store =
  ax_records :: "att_record list"
  ax_pins :: "att_pin list"
  ax_cancelled :: "att_cancellation list"

subsection \<open>Limits\<close>

definition imageBytes :: nat where "imageBytes = 8 * 1024 * 1024"
definition messageBytes :: nat where "messageBytes = 16 * 1024 * 1024"
definition imagesPerMessage :: nat where "imagesPerMessage = 4"
definition chunkBytes :: nat where "chunkBytes = 24 * 1024"
definition uploadTtlMs :: int where "uploadTtlMs = 30 * 60 * 1000"
definition unretainedTtlMs :: int where "unretainedTtlMs = 24 * 60 * 60 * 1000"
definition hostBytes :: nat where "hostBytes = 256 * 1024 * 1024"
definition hostUploads :: nat where "hostUploads = 32"
definition targetUploads :: nat where "targetUploads = 8"
definition att_records :: nat where "att_records = 1024"
definition att_pins :: nat where "att_pins = 4096"

subsection \<open>Files and effects\<close>

type_synonym att_path = "string \<times> media_type"
type_synonym att_files = "att_path \<rightharpoonup> bytes"

definition attachmentPath :: "att_record \<Rightarrow> att_path" where
  "attachmentPath row = (ad_id row, ad_media row)"

text \<open>\<open>WriteAt\<close> writes into an existing file; a write beyond its end does not happen here.\<close>

datatype att_effect =
  RemoveFile att_path | CreateFile att_path | TruncateFile att_path nat | WriteAt att_path nat bytes | PutIndex att_store

definition write_at :: "nat \<Rightarrow> bytes \<Rightarrow> bytes \<Rightarrow> bytes" where
  "write_at offset data file = take offset file @ data @ drop (offset + length data) file"

type_synonym att_disk = "att_store \<times> att_files"

fun att_apply :: "att_effect \<Rightarrow> att_disk \<Rightarrow> att_disk" where
  "att_apply (RemoveFile p) (s, f) = (s, f(p := None))"
| "att_apply (CreateFile p) (s, f) = (s, f(p \<mapsto> []))"
| "att_apply (TruncateFile p n) (s, f) = (s, f(p := map_option (take n) (f p)))"
| "att_apply (WriteAt p offset data) (s, f) = (s, f(p := map_option (write_at offset data) (f p)))"
| "att_apply (PutIndex s') (s, f) = (s', f)"

record att_env =
  ae_time :: int
  ae_sha :: "bytes \<Rightarrow> string"
  ae_fits :: "att_store \<Rightarrow> bool"
  ae_machine :: string
  ae_sessions :: "session list"

text \<open>A transaction: what it wrote, and its answer or the reason of its fault.\<close>

type_synonym 'a att_tx = "att_effect list \<times> (string + 'a)"

definition att_fault :: "string \<Rightarrow> 'a att_tx" where "att_fault reason = ([], Inl reason)"
definition att_return :: "'a \<Rightarrow> 'a att_tx" where "att_return x = ([], Inr x)"

definition att_bind :: "'a att_tx \<Rightarrow> ('a \<Rightarrow> 'b att_tx) \<Rightarrow> 'b att_tx" where
  "att_bind t k = (case t of (es, Inl reason) \<Rightarrow> (es, Inl reason)
     | (es, Inr x) \<Rightarrow> (case k x of (es', r) \<Rightarrow> (es @ es', r)))"

definition assertAttachment :: "bool \<Rightarrow> string \<Rightarrow> unit att_tx" where
  "assertAttachment b reason = (if b then att_return () else att_fault reason)"

definition att_do :: "att_effect \<Rightarrow> unit att_tx" where "att_do x = ([x], Inr ())"

lemma att_bind_simps [simp]:
  "att_bind (att_fault r) k = att_fault r" "att_bind (att_return x) k = k x"
  "att_bind (assertAttachment b r) k = (if b then k () else att_fault r)"
  "att_bind (att_do e) k = (e # fst (k ()), snd (k ()))"
  by (simp_all add: att_bind_def att_fault_def att_return_def assertAttachment_def att_do_def split: prod.splits)

lemma att_tx_simps [simp]:
  "fst (att_fault r) = []" "snd (att_fault r) = Inl r" "fst (att_return x) = []" "snd (att_return x) = Inr x"
  "fst (assertAttachment b r) = []" "snd (assertAttachment b r) = (if b then Inr () else Inl r)"
  "fst (att_do e) = [e]" "snd (att_do e) = Inr ()"
  by (simp_all add: att_fault_def att_return_def assertAttachment_def att_do_def)

lemma fst_att_bind: "fst (att_bind t k) = fst t @ (case snd t of Inl _ \<Rightarrow> [] | Inr x \<Rightarrow> fst (k x))"
  by (cases t; cases "snd t") (auto simp: att_bind_def split: prod.splits)

lemma snd_att_bind: "snd (att_bind t k) = (case snd t of Inl r \<Rightarrow> Inl r | Inr x \<Rightarrow> snd (k x))"
  by (cases t; cases "snd t") (auto simp: att_bind_def split: prod.splits)

subsection \<open>The index\<close>

definition reference_ok :: "att_reference \<Rightarrow> bool" where
  "reference_ok r = (0 < ar_bytes r \<and> ar_bytes r \<le> imageBytes \<and> 0 < ar_width r \<and> ar_width r \<le> 8192
     \<and> 0 < ar_height r \<and> ar_height r \<le> 8192 \<and> ar_width r * ar_height r \<le> 16 * 1024 * 1024)"

definition references_ok :: "att_reference list \<Rightarrow> bool" where
  "references_ok rs = (length rs \<le> imagesPerMessage \<and> (\<forall>r\<in>set rs. reference_ok r) \<and> sum_list (map ar_bytes rs) \<le> messageBytes)"

definition att_record_ok :: "att_record \<Rightarrow> bool" where
  "att_record_ok row = (0 < ad_bytes row \<and> ad_bytes row \<le> imageBytes \<and> ad_received row \<le> ad_bytes row
     \<and> (if ad_phase row = Uploading then ad_reference row = None
        else ad_received row = ad_bytes row \<and> (case ad_reference row of None \<Rightarrow> False
          | Some r \<Rightarrow> reference_ok r \<and> ar_id r = ad_id row \<and> ar_digest r = ad_digest row \<and> ar_bytes r = ad_bytes row \<and> ar_media r = ad_media row)))"

definition att_store_ok :: "att_store \<Rightarrow> bool" where
  "att_store_ok s = (length (ax_records s) \<le> att_records \<and> (\<forall>row\<in>set (ax_records s). att_record_ok row)
     \<and> length (ax_pins s) \<le> att_pins \<and> (\<forall>pin\<in>set (ax_pins s). references_ok (an_references pin))
     \<and> length (ax_cancelled s) \<le> att_records)"

definition att_persist :: "att_env \<Rightarrow> att_store \<Rightarrow> unit att_tx" where
  "att_persist e s = (if \<not> att_store_ok s then att_fault ''ZodError''
     else if \<not> ae_fits e s then att_fault ''attachment-index-quota'' else att_do (PutIndex s))"

definition protected_ids :: "att_store \<Rightarrow> string set" where
  "protected_ids s = {ar_id r |r pin. pin \<in> set (ax_pins s) \<and> r \<in> set (an_references pin)}"

definition is_protected :: "att_store \<Rightarrow> string \<Rightarrow> bool" where
  "is_protected s i = (\<exists>pin\<in>set (ax_pins s). \<exists>r\<in>set (an_references pin). ar_id r = i)"

definition reapable :: "int \<Rightarrow> att_store \<Rightarrow> att_record \<Rightarrow> bool" where
  "reapable now s row = (ad_phase row \<noteq> Retained \<and> ad_expiresAt row \<le> now \<and> \<not> is_protected s (ad_id row))"

definition reapExpired :: "att_env \<Rightarrow> att_store \<Rightarrow> att_store att_tx" where
  "reapExpired e s =
     (let now = ae_time e; expired = filter (reapable now s) (ax_records s);
          cancelled = filter (\<lambda>c. ac_expiresAt c > now) (ax_cancelled s)
      in if expired = [] \<and> length cancelled = length (ax_cancelled s) then att_return s
         else (let s' = s\<lparr>ax_records := filter (\<lambda>row. ad_id row \<notin> ad_id ` set expired) (ax_records s), ax_cancelled := cancelled\<rparr>
           in att_bind (map (\<lambda>row. RemoveFile (attachmentPath row)) expired, Inr ())
                (\<lambda>_. att_bind (att_persist e s') (\<lambda>_. att_return s'))))"

text \<open>A transaction reads the index, drops what has expired and runs on what is left; \<open>None\<close> is the refusal.\<close>

definition withAttachmentStore :: "att_env \<Rightarrow> (att_store \<Rightarrow> att_files \<Rightarrow> 'a att_tx) \<Rightarrow> att_disk \<Rightarrow> att_effect list \<times> 'a option" where
  "withAttachmentStore e run disk =
     (case reapExpired e (fst disk) of
        (es, Inl _) \<Rightarrow> (es, None)
      | (es, Inr s) \<Rightarrow> (case run s (snd (fold att_apply es disk)) of
          (es', Inl _) \<Rightarrow> (es @ es', None) | (es', Inr x) \<Rightarrow> (es @ es', Some x)))"

subsection \<open>Whose attachment it is\<close>

definition attachmentSession :: "att_env \<Rightarrow> managed_peer \<Rightarrow> bool \<Rightarrow> string att_tx" where
  "attachmentSession e target write = (case controlTarget (ae_machine e) (ae_sessions e) target of
      None \<Rightarrow> att_fault ''AppError''
    | Some s \<Rightarrow> att_bind (assertAttachment (is_native s) ''unsupported-runtime'') (\<lambda>_.
        (case s_generation s of
           None \<Rightarrow> att_fault ''registration-required''
         | Some g \<Rightarrow> att_bind (assertAttachment (\<not> write \<or> \<not> s_archived s) ''archived-target'') (\<lambda>_. att_return g))))"

definition owns :: "string \<Rightarrow> managed_peer \<Rightarrow> principal \<Rightarrow> string \<Rightarrow> managed_peer \<Rightarrow> principal \<Rightarrow> bool" where
  "owns g target who g' target' who' = (g' = g \<and> sameTarget (ToManaged target') (ToManaged target) \<and> samePrincipal who' who)"

definition ownedAttachment :: "att_store \<Rightarrow> string \<Rightarrow> managed_peer \<Rightarrow> principal \<Rightarrow> string \<Rightarrow> att_record att_tx" where
  "ownedAttachment s g target who i = (case List.find (\<lambda>row. ad_id row = i) (ax_records s) of
      None \<Rightarrow> att_fault ''attachment-scope''
    | Some row \<Rightarrow> att_bind (assertAttachment (owns g target who (ad_registration row) (ad_target row) (ad_principal row)) ''attachment-scope'')
        (\<lambda>_. att_return row))"

definition verifiedReference :: "att_record \<Rightarrow> att_reference option \<Rightarrow> att_reference att_tx" where
  "verifiedReference row r = (case (ad_phase row, ad_reference row) of
      (Uploading, _) \<Rightarrow> att_fault ''attachment-incomplete''
    | (_, None) \<Rightarrow> att_fault ''attachment-incomplete''
    | (_, Some own) \<Rightarrow> att_bind (assertAttachment (r = None \<or> r = Some own) ''attachment-reference-changed'') (\<lambda>_. att_return own))"

definition readableAttachment ::
  "att_store \<Rightarrow> string \<Rightarrow> managed_peer \<Rightarrow> principal \<Rightarrow> att_reference \<Rightarrow> att_record att_tx" where
  "readableAttachment s g target who r = (case List.find (\<lambda>row. ad_id row = ar_id r) (ax_records s) of
      None \<Rightarrow> att_fault ''attachment-scope''
    | Some row \<Rightarrow>
        att_bind (assertAttachment (owns g target who (ad_registration row) (ad_target row) (ad_principal row)
          \<or> (\<exists>pin\<in>set (ax_pins s). owns g target who (an_registration pin) (an_target pin) (an_principal pin) \<and> r \<in> set (an_references pin)))
          ''attachment-scope'') (\<lambda>_.
        att_bind (verifiedReference row (Some r)) (\<lambda>_. att_return row)))"

end
