(* ===== verification/AttachmentOps.thy ===== *)
theory AttachmentOps
  imports Attachments
begin

text \<open>
  The operations on uploaded images: begin, chunk, cancel, finalize and read (\<open>upload.ts\<close>, \<open>service.ts\<close>,
  \<open>finalize.ts\<close>, \<open>preview.ts\<close>) and the pins that letters and forks hold on them (\<open>pins.ts\<close>).
\<close>

subsection \<open>Uploads\<close>

record upload_receipt =
  ur_id :: string
  ur_received :: nat
  ur_total :: nat
  ur_expiresAt :: int
  ur_phase :: att_phase

definition uploadReceipt :: "att_record \<Rightarrow> upload_receipt" where
  "uploadReceipt row = \<lparr>ur_id = ad_id row, ur_received = ad_received row, ur_total = ad_bytes row,
     ur_expiresAt = ad_expiresAt row, ur_phase = ad_phase row\<rparr>"

definition ensureUploadFile :: "att_files \<Rightarrow> att_record \<Rightarrow> unit att_tx" where
  "ensureUploadFile files row =
     (if files (attachmentPath row) \<noteq> None then att_return ()
      else att_bind (assertAttachment (ad_received row = 0 \<and> ad_phase row = Uploading) ''attachment-bytes-missing'')
        (\<lambda>_. att_do (CreateFile (attachmentPath row))))"

definition uploading :: "att_store \<Rightarrow> att_record list" where
  "uploading s = filter (\<lambda>row. ad_phase row = Uploading) (ax_records s)"

definition checkQuota :: "att_store \<Rightarrow> managed_peer \<Rightarrow> nat \<Rightarrow> unit att_tx" where
  "checkQuota s target amount =
     att_bind (assertAttachment (length (ax_records s) < att_records) ''attachment-record-quota'') (\<lambda>_.
     att_bind (assertAttachment (sum_list (map ad_bytes (ax_records s)) + amount \<le> hostBytes) ''attachment-disk-quota'') (\<lambda>_.
     assertAttachment (length (uploading s) < hostUploads
       \<and> length (filter (\<lambda>row. sameTarget (ToManaged (ad_target row)) (ToManaged target)) (uploading s)) < targetUploads)
       ''attachment-upload-quota''))"

record begin_input =
  bi_id :: string
  bi_target :: managed_peer
  bi_media :: media_type
  bi_bytes :: nat
  bi_digest :: string

definition new_upload :: "att_env \<Rightarrow> string \<Rightarrow> principal \<Rightarrow> begin_input \<Rightarrow> att_record" where
  "new_upload e g who input = \<lparr>ad_id = bi_id input, ad_target = bi_target input, ad_principal = who, ad_registration = g,
     ad_media = bi_media input, ad_bytes = bi_bytes input, ad_digest = bi_digest input, ad_received = 0, ad_phase = Uploading,
     ad_createdAt = ae_time e, ad_expiresAt = ae_time e + uploadTtlMs, ad_reference = None\<rparr>"

definition beginUpload :: "att_env \<Rightarrow> string \<Rightarrow> principal \<Rightarrow> begin_input \<Rightarrow> att_store \<Rightarrow> att_files \<Rightarrow> upload_receipt att_tx" where
  "beginUpload e g who input s files =
     att_bind (assertAttachment (\<forall>c\<in>set (ax_cancelled s). ac_id c \<noteq> bi_id input) ''attachment-upload-cancelled'') (\<lambda>_.
     if bi_id input \<in> ad_id ` set (ax_records s)
     then att_bind (ownedAttachment s g (bi_target input) who (bi_id input)) (\<lambda>row.
       att_bind (assertAttachment (ad_media row = bi_media input \<and> ad_bytes row = bi_bytes input \<and> ad_digest row = bi_digest input)
         ''upload-idempotency-conflict'') (\<lambda>_.
       att_bind (ensureUploadFile files row) (\<lambda>_. att_return (uploadReceipt row))))
     else att_bind (checkQuota s (bi_target input) (bi_bytes input)) (\<lambda>_.
       let row = new_upload e g who input in
       att_bind (att_persist e (s\<lparr>ax_records := ax_records s @ [row]\<rparr>)) (\<lambda>_.
       att_bind (ensureUploadFile files row) (\<lambda>_. att_return (uploadReceipt row)))))"

definition beginAttachmentUpload :: "att_env \<Rightarrow> principal \<Rightarrow> begin_input \<Rightarrow> att_disk \<Rightarrow> att_effect list \<times> upload_receipt option" where
  "beginAttachmentUpload e who input = withAttachmentStore e (\<lambda>s files.
     att_bind (attachmentSession e (bi_target input) True) (\<lambda>g. beginUpload e g who input s files))"

definition with_row :: "string \<Rightarrow> (att_record \<Rightarrow> att_record) \<Rightarrow> att_store \<Rightarrow> att_store" where
  "with_row i f s = s\<lparr>ax_records := map (\<lambda>row. if ad_id row = i then f row else row) (ax_records s)\<rparr>"

text \<open>\<open>ci_data\<close> is the decoded chunk, or none where the text is not the canonical base64 of at most a chunk.\<close>

record chunk_input =
  ci_id :: string
  ci_target :: managed_peer
  ci_offset :: nat
  ci_data :: "bytes option"

definition appendUpload :: "att_env \<Rightarrow> att_record \<Rightarrow> chunk_input \<Rightarrow> att_store \<Rightarrow> att_files \<Rightarrow> upload_receipt att_tx" where
  "appendUpload e row input s files = (case ci_data input of
      None \<Rightarrow> att_fault ''attachment-chunk-encoding''
    | Some data \<Rightarrow>
        att_bind (assertAttachment (0 < length data \<and> length data \<le> chunkBytes) ''attachment-chunk-encoding'') (\<lambda>_.
        let final = ci_offset input + length data; path = attachmentPath row in
        att_bind (assertAttachment (final \<le> ad_bytes row \<and> ci_offset input \<le> ad_received row) ''attachment-chunk-order'') (\<lambda>_.
        att_bind (ensureUploadFile files row) (\<lambda>_.
        let file = (case files path of Some file \<Rightarrow> file | None \<Rightarrow> []) in
        att_bind (assertAttachment (ad_received row \<le> length file \<and> length file \<le> ad_bytes row) ''attachment-byte-state'') (\<lambda>_.
        if ci_offset input < ad_received row
        then att_bind (assertAttachment (final \<le> ad_received row) ''attachment-chunk-overlap'') (\<lambda>_.
             att_bind (assertAttachment (take (length data) (drop (ci_offset input) file) = data) ''attachment-chunk-conflict'') (\<lambda>_.
             att_return (uploadReceipt row)))
        else att_bind (assertAttachment (ad_phase row = Uploading) ''attachment-immutable'') (\<lambda>_.
             att_bind (if ad_received row < length file then att_do (TruncateFile path (ad_received row)) else att_return ()) (\<lambda>_.
             att_bind (att_do (WriteAt path (ci_offset input) data)) (\<lambda>_.
             let row' = row\<lparr>ad_received := final\<rparr> in
             att_bind (att_persist e (with_row (ad_id row) (\<lambda>_. row') s)) (\<lambda>_. att_return (uploadReceipt row'))))))))))"

definition appendAttachmentChunk :: "att_env \<Rightarrow> principal \<Rightarrow> chunk_input \<Rightarrow> att_disk \<Rightarrow> att_effect list \<times> upload_receipt option" where
  "appendAttachmentChunk e who input = withAttachmentStore e (\<lambda>s files.
     att_bind (attachmentSession e (ci_target input) True) (\<lambda>g.
     att_bind (ownedAttachment s g (ci_target input) who (ci_id input)) (\<lambda>row. appendUpload e row input s files)))"

definition cancel_upload :: "att_env \<Rightarrow> string \<Rightarrow> principal \<Rightarrow> managed_peer \<Rightarrow> string \<Rightarrow> att_store \<Rightarrow> att_files \<Rightarrow> string att_tx" where
  "cancel_upload e g who target i s files = (case List.find (\<lambda>c. ac_id c = i) (ax_cancelled s) of
      Some c \<Rightarrow> att_bind (assertAttachment (owns g target who (ac_registration c) (ac_target c) (ac_principal c)) ''attachment-cancel-scope'')
        (\<lambda>_. att_return i)
    | None \<Rightarrow> att_bind (ownedAttachment s g target who i) (\<lambda>row.
        att_bind (assertAttachment (ad_phase row \<noteq> Retained \<and> \<not> is_protected s (ad_id row)) ''attachment-retained'') (\<lambda>_.
        att_bind (assertAttachment (length (ax_cancelled s) < att_records) ''attachment-cancellation-quota'') (\<lambda>_.
        att_bind (att_do (RemoveFile (attachmentPath row))) (\<lambda>_.
        att_bind (att_persist e (s\<lparr>ax_cancelled := ax_cancelled s @ [\<lparr>ac_id = ad_id row, ac_target = ad_target row,
              ac_registration = ad_registration row, ac_principal = ad_principal row, ac_expiresAt = ae_time e + uploadTtlMs\<rparr>],
            ax_records := filter (\<lambda>x. ad_id x \<noteq> ad_id row) (ax_records s)\<rparr>)) (\<lambda>_. att_return i))))))"

definition cancelAttachmentUpload ::
  "att_env \<Rightarrow> principal \<Rightarrow> managed_peer \<Rightarrow> string \<Rightarrow> att_disk \<Rightarrow> att_effect list \<times> string option" where
  "cancelAttachmentUpload e who target i = withAttachmentStore e (\<lambda>s files.
     att_bind (attachmentSession e target True) (\<lambda>g. cancel_upload e g who target i s files))"

subsection \<open>Finishing an upload\<close>

text \<open>Two transactions with the decoder between them: the first gives the reference of a finished upload or the bytes
  to decode, the second stores what the decoder found.\<close>

definition finalize_read :: "att_env \<Rightarrow> string \<Rightarrow> principal \<Rightarrow> managed_peer \<Rightarrow> string \<Rightarrow> att_store \<Rightarrow> att_files \<Rightarrow> (att_reference + bytes) att_tx" where
  "finalize_read e g who target i s files =
     att_bind (ownedAttachment s g target who i) (\<lambda>row.
     if ad_phase row \<noteq> Uploading then att_bind (verifiedReference row None) (\<lambda>r. att_return (Inl r))
     else att_bind (assertAttachment (ad_received row = ad_bytes row) ''attachment-incomplete'') (\<lambda>_.
       case files (attachmentPath row) of
         None \<Rightarrow> att_fault ''ENOENT''
       | Some file \<Rightarrow> att_bind (assertAttachment (length file \<le> imageBytes) ''private-file-limit'') (\<lambda>_.
           att_bind (assertAttachment (length file = ad_bytes row \<and> ae_sha e file = ad_digest row) ''attachment-digest'') (\<lambda>_.
           att_return (Inr file)))))"

record decoded_image =
  di_media :: media_type
  di_width :: nat
  di_height :: nat

definition image_reference :: "att_record \<Rightarrow> decoded_image \<Rightarrow> att_reference" where
  "image_reference row shot = \<lparr>ar_id = ad_id row, ar_digest = ad_digest row, ar_media = di_media shot, ar_bytes = ad_bytes row,
     ar_width = di_width shot, ar_height = di_height shot\<rparr>"

definition finalize_commit ::
  "att_env \<Rightarrow> string \<Rightarrow> principal \<Rightarrow> managed_peer \<Rightarrow> string \<Rightarrow> bytes \<Rightarrow> decoded_image \<Rightarrow> att_store \<Rightarrow> att_files \<Rightarrow> att_reference att_tx" where
  "finalize_commit e g who target i prepared shot s files =
     att_bind (ownedAttachment s g target who i) (\<lambda>row.
     att_bind (assertAttachment (ad_phase row = Uploading \<and> ad_received row = ad_bytes row) ''attachment-finalize-state'') (\<lambda>_.
     case files (attachmentPath row) of
       None \<Rightarrow> att_fault ''ENOENT''
     | Some current \<Rightarrow> att_bind (assertAttachment (length current \<le> imageBytes) ''private-file-limit'') (\<lambda>_.
         att_bind (assertAttachment (current = prepared \<and> di_media shot = ad_media row) ''attachment-finalize-changed'') (\<lambda>_.
         let r = image_reference row shot in
         if \<not> reference_ok r then att_fault ''ZodError''
         else (let row' = row\<lparr>ad_reference := Some r, ad_phase := Verified, ad_expiresAt := ae_time e + unretainedTtlMs\<rparr> in
           att_bind (att_persist e (with_row (ad_id row) (\<lambda>_. row') s)) (\<lambda>_. att_return r))))))"

definition finalize_reads :: "att_env \<Rightarrow> principal \<Rightarrow> managed_peer \<Rightarrow> string \<Rightarrow> att_disk \<Rightarrow> att_effect list \<times> (att_reference + bytes) option" where
  "finalize_reads e who target i = withAttachmentStore e (\<lambda>s files.
     att_bind (attachmentSession e target True) (\<lambda>g. finalize_read e g who target i s files))"

definition finalize_commits ::
  "att_env \<Rightarrow> principal \<Rightarrow> managed_peer \<Rightarrow> string \<Rightarrow> bytes \<Rightarrow> decoded_image \<Rightarrow> att_disk \<Rightarrow> att_effect list \<times> att_reference option" where
  "finalize_commits e who target i prepared shot = withAttachmentStore e (\<lambda>s files.
     att_bind (attachmentSession e target True) (\<lambda>g. finalize_commit e g who target i prepared shot s files))"

subsection \<open>Pins\<close>

definition exactBytes :: "att_env \<Rightarrow> att_files \<Rightarrow> att_record \<Rightarrow> att_reference \<Rightarrow> bytes att_tx" where
  "exactBytes e files row r = (case files (attachmentPath row) of
      None \<Rightarrow> att_fault ''ENOENT''
    | Some file \<Rightarrow> att_bind (assertAttachment (length file \<le> imageBytes) ''private-file-limit'') (\<lambda>_.
        att_bind (assertAttachment (length file = ar_bytes r \<and> ae_sha e file = ar_digest r) ''attachment-digest'') (\<lambda>_.
        att_return file)))"

fun att_each :: "('a \<Rightarrow> 'b att_tx) \<Rightarrow> 'a list \<Rightarrow> 'b list att_tx" where
  "att_each f [] = att_return []"
| "att_each f (x # xs) = att_bind (f x) (\<lambda>y. att_bind (att_each f xs) (\<lambda>ys. att_return (y # ys)))"

definition retain :: "string set \<Rightarrow> att_store \<Rightarrow> att_store" where
  "retain is s = s\<lparr>ax_records := map (\<lambda>row. if ad_id row \<in> is then row\<lparr>ad_phase := Retained\<rparr> else row) (ax_records s)\<rparr>"

definition find_pin :: "string \<Rightarrow> managed_peer \<Rightarrow> att_store \<Rightarrow> att_pin option" where
  "find_pin message target s =
     List.find (\<lambda>pin. an_message pin = message \<and> sameTarget (ToManaged (an_target pin)) (ToManaged target)) (ax_pins s)"

definition pin_images ::
  "att_env \<Rightarrow> string \<Rightarrow> principal \<Rightarrow> managed_peer \<Rightarrow> string \<Rightarrow> att_reference list \<Rightarrow> att_store \<Rightarrow> att_files \<Rightarrow> unit att_tx" where
  "pin_images e g who target message rs s files = (case find_pin message target s of
      Some pin \<Rightarrow> assertAttachment (an_registration pin = g \<and> samePrincipal (an_principal pin) who \<and> an_references pin = rs)
        ''attachment-pin-conflict''
    | None \<Rightarrow>
        att_bind (assertAttachment (length (ax_pins s) < att_pins) ''attachment-pin-quota'') (\<lambda>_.
        att_bind (att_each (\<lambda>r. readableAttachment s g target who r) rs) (\<lambda>rows.
        att_bind (att_each (\<lambda>(row, r). exactBytes e files row r) (zip rows rs)) (\<lambda>_.
        att_persist e ((retain (ar_id ` set rs) s)\<lparr>ax_pins := ax_pins s @ [\<lparr>an_message = message, an_target = target,
          an_registration = g, an_principal = who, an_references = rs\<rparr>]\<rparr>)))))"

text \<open>The callback that accepts the letter runs after this, in the same transaction.\<close>

definition withPinnedAttachments ::
  "att_env \<Rightarrow> principal \<Rightarrow> managed_peer \<Rightarrow> string \<Rightarrow> att_reference list \<Rightarrow> att_disk \<Rightarrow> att_effect list \<times> unit option" where
  "withPinnedAttachments e who target message rs =
     (if \<not> references_ok rs then (\<lambda>disk. ([], None))
      else withAttachmentStore e (\<lambda>s files.
        att_bind (attachmentSession e target True) (\<lambda>g. pin_images e g who target message rs s files)))"

definition resolve_images ::
  "att_env \<Rightarrow> string \<Rightarrow> managed_peer \<Rightarrow> string \<Rightarrow> att_reference list \<Rightarrow> att_store \<Rightarrow> att_files \<Rightarrow> (att_reference \<times> bytes) list att_tx" where
  "resolve_images e g target message rs s files =
     (case List.find (\<lambda>pin. an_message pin = message \<and> an_registration pin = g
        \<and> sameTarget (ToManaged (an_target pin)) (ToManaged target)) (ax_pins s) of
        None \<Rightarrow> att_fault ''attachment-pin-required''
      | Some pin \<Rightarrow>
          att_bind (assertAttachment (an_references pin = rs) ''attachment-pin-required'') (\<lambda>_.
          att_each (\<lambda>r. att_bind (readableAttachment s g target (an_principal pin) r) (\<lambda>row.
            att_bind (assertAttachment (ad_phase row = Retained) ''attachment-not-retained'') (\<lambda>_.
            att_bind (exactBytes e files row r) (\<lambda>file. att_return (r, file))))) rs))"

definition resolveMessageAttachments ::
  "att_env \<Rightarrow> managed_peer \<Rightarrow> string \<Rightarrow> att_reference list \<Rightarrow> att_disk \<Rightarrow> att_effect list \<times> (att_reference \<times> bytes) list option" where
  "resolveMessageAttachments e target message rs =
     (if \<not> references_ok rs then (\<lambda>disk. ([], None))
      else if rs = [] then (\<lambda>disk. ([], Some []))
      else withAttachmentStore e (\<lambda>s files.
        att_bind (attachmentSession e target True) (\<lambda>g. resolve_images e g target message rs s files)))"

text \<open>A fork extends each pin of its source to itself; \<open>inherit_pin\<close> adds one of them to the index in memory.\<close>

definition inherit_pin ::
  "string \<times> managed_peer \<Rightarrow> string \<times> managed_peer \<Rightarrow> att_pin \<Rightarrow> att_store \<Rightarrow> att_store att_tx" where
  "inherit_pin source destination pin s = (case find_pin (an_message pin) (snd destination) s of
      Some known \<Rightarrow> att_bind (assertAttachment (an_registration known = fst destination
          \<and> samePrincipal (an_principal known) (an_principal pin) \<and> an_references known = an_references pin) ''fork-pin-conflict'')
        (\<lambda>_. att_return s)
    | None \<Rightarrow>
        att_bind (assertAttachment (length (ax_pins s) < att_pins) ''attachment-pin-quota'') (\<lambda>_.
        att_bind (att_each (\<lambda>r. att_bind (readableAttachment s (fst source) (snd source) (an_principal pin) r) (\<lambda>row.
            assertAttachment (ad_phase row = Retained) ''fork-pin-not-retained'')) (an_references pin)) (\<lambda>_.
        att_return (s\<lparr>ax_pins := ax_pins s @ [pin\<lparr>an_target := snd destination, an_registration := fst destination\<rparr>]\<rparr>))))"

fun inherit_pins ::
  "string \<times> managed_peer \<Rightarrow> string \<times> managed_peer \<Rightarrow> att_pin list \<Rightarrow> att_store \<Rightarrow> att_store att_tx" where
  "inherit_pins source destination [] s = att_return s"
| "inherit_pins source destination (pin # pins) s =
     att_bind (inherit_pin source destination pin s) (inherit_pins source destination pins)"

definition inheritAttachmentPins :: "att_env \<Rightarrow> managed_peer \<Rightarrow> managed_peer \<Rightarrow> att_disk \<Rightarrow> att_effect list \<times> unit option" where
  "inheritAttachmentPins e source destination = withAttachmentStore e (\<lambda>s files.
     att_bind (attachmentSession e source False) (\<lambda>g.
     att_bind (attachmentSession e destination False) (\<lambda>g'.
     att_bind (inherit_pins (g, source) (g', destination)
       (filter (\<lambda>pin. an_registration pin = g \<and> sameTarget (ToManaged (an_target pin)) (ToManaged source)) (ax_pins s)) s)
       (\<lambda>s'. att_persist e s'))))"

subsection \<open>Reading back\<close>

record read_receipt =
  rd_offset :: nat
  rd_data :: bytes
  rd_next :: nat
  rd_complete :: bool

text \<open>The digest of a file is kept with the stamp of its inode, for at most 64 files; \<open>stamps\<close> gives the stamp before
  the digest, after it and after the read.\<close>

type_synonym digest_cache = "(att_path \<times> string \<times> string) list"

definition MAX_VERIFIED_FILES :: nat where "MAX_VERIFIED_FILES = 64"

definition remember_digest :: "att_path \<Rightarrow> string \<times> string \<Rightarrow> digest_cache \<Rightarrow> digest_cache" where
  "remember_digest p v cache =
     (let rest = filter (\<lambda>x. fst x \<noteq> p) cache
      in (if length rest \<ge> MAX_VERIFIED_FILES then tl rest else rest) @ [(p, v)])"

definition previewBytes ::
  "att_env \<Rightarrow> string \<times> string \<times> string \<Rightarrow> att_files \<Rightarrow> att_path \<Rightarrow> att_reference \<Rightarrow> nat \<Rightarrow> digest_cache \<Rightarrow> (string + bytes) \<times> digest_cache" where
  "previewBytes e stamps files p r offset cache = (case files p of
      None \<Rightarrow> (Inl ''ENOENT'', cache)
    | Some file \<Rightarrow> (case stamps of (before, hashed, after) \<Rightarrow>
        (if length file \<noteq> ar_bytes r \<or> offset > ar_bytes r then (Inl ''attachment-preview-size'', cache)
         else (let known = (map_of cache p = Some (before, ar_digest r));
                   ok = (known \<or> (ae_sha e file = ar_digest r \<and> before = hashed));
                   cache' = (if known then cache else if ok then remember_digest p (before, ar_digest r) cache else cache)
               in if \<not> ok then (Inl ''attachment-digest'', cache')
                  else if before \<noteq> after then (Inl ''attachment-preview-changed'', cache')
                  else (Inr (take (min chunkBytes (ar_bytes r - offset)) (drop offset file)), cache')))))"

text \<open>A refused read leaves the cache as \<open>previewBytes\<close> says; only an answer carries it here.\<close>

definition read_chunk ::
  "att_env \<Rightarrow> string \<times> string \<times> string \<Rightarrow> string \<Rightarrow> principal \<Rightarrow> managed_peer \<Rightarrow> att_reference \<Rightarrow> nat \<Rightarrow> digest_cache
     \<Rightarrow> att_store \<Rightarrow> att_files \<Rightarrow> (read_receipt \<times> digest_cache) att_tx" where
  "read_chunk e stamps g who target r offset cache s files =
     att_bind (readableAttachment s g target who r) (\<lambda>row.
     att_bind (verifiedReference row (Some r)) (\<lambda>own.
     att_bind (assertAttachment (offset \<le> ar_bytes own) ''attachment-read-offset'') (\<lambda>_.
     case previewBytes e stamps files (attachmentPath row) own offset cache of
       (Inl reason, _) \<Rightarrow> att_fault reason
     | (Inr data, cache') \<Rightarrow> att_return (\<lparr>rd_offset = offset, rd_data = data, rd_next = offset + length data,
         rd_complete = (offset + length data = ar_bytes own)\<rparr>, cache'))))"

definition readAttachmentChunk ::
  "att_env \<Rightarrow> string \<times> string \<times> string \<Rightarrow> principal \<Rightarrow> managed_peer \<Rightarrow> att_reference \<Rightarrow> nat \<Rightarrow> digest_cache \<Rightarrow> att_disk
     \<Rightarrow> att_effect list \<times> (read_receipt \<times> digest_cache) option" where
  "readAttachmentChunk e stamps who target r offset cache = withAttachmentStore e (\<lambda>s files.
     att_bind (attachmentSession e target False) (\<lambda>g. read_chunk e stamps g who target r offset cache s files))"

end
