(* ===== verification/AttachmentInv.thy ===== *)
theory AttachmentInv
  imports AttachmentOps
begin

text \<open>
  What the store of images keeps over any transactions, each cut off after any write or in the middle of one:
  quotas on the index and on the disk, the bytes of every acknowledged chunk, and every pinned image intact.
\<close>

subsection \<open>The invariant\<close>

definition paths :: "att_store \<Rightarrow> att_path set" where
  "paths s = attachmentPath ` set (ax_records s)"

definition quota_ok :: "att_store \<Rightarrow> bool" where
  "quota_ok s = (sum_list (map ad_bytes (ax_records s)) \<le> hostBytes \<and> length (uploading s) \<le> hostUploads
     \<and> (\<forall>t. length (filter (\<lambda>row. sameTarget (ToManaged (ad_target row)) (ToManaged t)) (uploading s)) \<le> targetUploads))"

definition pins_ok :: "att_store \<Rightarrow> bool" where
  "pins_ok s = (\<forall>pin\<in>set (ax_pins s). \<forall>r\<in>set (an_references pin).
     \<exists>row\<in>set (ax_records s). ad_phase row = Retained \<and> ad_reference row = Some r)"

definition index_inv :: "att_store \<Rightarrow> bool" where
  "index_inv s = (att_store_ok s \<and> distinct (map ad_id (ax_records s)) \<and> quota_ok s \<and> pins_ok s)"

definition intact :: "(bytes \<Rightarrow> string) \<Rightarrow> att_files \<Rightarrow> att_record \<Rightarrow> bool" where
  "intact sha f row = (\<exists>file. f (attachmentPath row) = Some file \<and> length file = ad_bytes row \<and> sha file = ad_digest row)"

definition files_inv :: "(bytes \<Rightarrow> string) \<Rightarrow> att_store \<Rightarrow> att_files \<Rightarrow> bool" where
  "files_inv sha s f = (dom f \<subseteq> paths s
     \<and> (\<forall>row\<in>set (ax_records s). \<forall>file. f (attachmentPath row) = Some file \<longrightarrow> length file \<le> ad_bytes row)
     \<and> (\<forall>row\<in>set (ax_records s). ad_phase row = Retained \<longrightarrow> intact sha f row))"

text \<open>An acknowledged chunk: the file, where it starts and its bytes; removing the file ends it.\<close>

type_synonym chunk_ack = "att_path \<times> nat \<times> bytes"

definition ack_ok :: "att_store \<Rightarrow> att_files \<Rightarrow> chunk_ack \<Rightarrow> bool" where
  "ack_ok s f a = (case a of (p, offset, data) \<Rightarrow>
     (\<exists>row\<in>set (ax_records s). attachmentPath row = p \<and> offset + length data \<le> ad_received row)
     \<and> (\<exists>file. f p = Some file \<and> take (length data) (drop offset file) = data))"

definition att_inv :: "(bytes \<Rightarrow> string) \<Rightarrow> chunk_ack list \<Rightarrow> att_disk \<Rightarrow> bool" where
  "att_inv sha acks d = (index_inv (fst d) \<and> files_inv sha (fst d) (snd d) \<and> (\<forall>a\<in>set acks. ack_ok (fst d) (snd d) a))"

fun kept_acks :: "att_effect \<Rightarrow> chunk_ack list \<Rightarrow> chunk_ack list" where
  "kept_acks (RemoveFile p) acks = filter (\<lambda>a. fst a \<noteq> p) acks"
| "kept_acks _ acks = acks"

fun torn :: "att_effect \<Rightarrow> att_effect set" where
  "torn (WriteAt p offset data) = (\<lambda>k. WriteAt p offset (take k data)) ` UNIV"
| "torn _ = {}"

fun att_safe :: "(bytes \<Rightarrow> string) \<Rightarrow> att_effect list \<Rightarrow> chunk_ack list \<Rightarrow> att_disk \<Rightarrow> bool" where
  "att_safe sha [] acks d = att_inv sha acks d"
| "att_safe sha (x # es) acks d = (att_inv sha acks d \<and> (\<forall>y\<in>torn x. att_inv sha acks (att_apply y d))
     \<and> att_safe sha es (kept_acks x acks) (att_apply x d))"

lemma safe_inv: "att_safe sha es acks d \<Longrightarrow> att_inv sha acks d"
  by (cases es) simp_all

lemma safe_append:
  "att_safe sha (es @ es') acks d \<longleftrightarrow> att_safe sha es acks d \<and> att_safe sha es' (fold kept_acks es acks) (fold att_apply es d)"
proof (induction es arbitrary: acks d)
  case Nil
  then show ?case by (auto dest: safe_inv)
next
  case (Cons x es)
  then show ?case by auto
qed

lemma safe_cut:
  assumes "att_safe sha es acks d"
  shows "att_inv sha (fold kept_acks (take n es) acks) (fold att_apply (take n es) d)"
    and "n < length es \<Longrightarrow> y \<in> torn (es ! n) \<Longrightarrow>
      att_inv sha (fold kept_acks (take n es) acks) (att_apply y (fold att_apply (take n es) d))"
  using assms
proof (induction es arbitrary: acks d n)
  case (Cons x es)
  {
    case 1
    with Cons.IH(1) show ?case by (cases n) (auto dest: safe_inv)
  next
    case 2
    with Cons.IH(2) show ?case by (cases n) auto
  }
qed (auto dest: safe_inv)

subsection \<open>Rows by their id\<close>

lemma same_path: "distinct (map ad_id (ax_records s)) \<Longrightarrow> row \<in> set (ax_records s) \<Longrightarrow> row' \<in> set (ax_records s) \<Longrightarrow>
    attachmentPath row = attachmentPath row' \<Longrightarrow> row = row'"
  by (rule distinct_map_keyD [of ad_id "ax_records s"]) (simp_all add: attachmentPath_def)

lemma owned_row:
  "fst (ownedAttachment s g target who i) = []"
  "snd (ownedAttachment s g target who i) = Inr row \<Longrightarrow> row \<in> set (ax_records s) \<and> ad_id row = i"
  by (auto simp: ownedAttachment_def dest: find_SomeD split: option.splits if_splits)

lemma verified_reference:
  "fst (verifiedReference row r) = []"
  "snd (verifiedReference row r) = Inr own \<Longrightarrow> ad_reference row = Some own \<and> ad_phase row \<noteq> Uploading \<and> (r = None \<or> r = Some own)"
  by (auto simp: verifiedReference_def split: option.splits if_splits att_phase.splits)

lemma readable_row:
  "fst (readableAttachment s g target who r) = []"
  "snd (readableAttachment s g target who r) = Inr row \<Longrightarrow> row \<in> set (ax_records s) \<and> ad_id row = ar_id r
     \<and> ad_reference row = Some r \<and> ad_phase row \<noteq> Uploading"
  by (auto simp: readableAttachment_def fst_att_bind snd_att_bind verified_reference(1)
      dest: find_SomeD verified_reference(2) split: option.splits if_splits sum.splits)

lemma protected_iff: "is_protected s i \<longleftrightarrow> i \<in> protected_ids s"
  by (auto simp: is_protected_def protected_ids_def)

text \<open>What a pin needs: a retained row under its id.\<close>

lemma pinned_retained:
  assumes "index_inv s" "row \<in> set (ax_records s)" "is_protected s (ad_id row)"
  shows "ad_phase row = Retained"
proof -
  from assms(3) obtain pin r where p: "pin \<in> set (ax_pins s)" "r \<in> set (an_references pin)" "ar_id r = ad_id row"
    by (auto simp: is_protected_def)
  with assms(1) obtain row' where r: "row' \<in> set (ax_records s)" "ad_phase row' = Retained" "ad_reference row' = Some r"
    by (auto simp: index_inv_def pins_ok_def)
  with assms(1) have "ad_id row' = ar_id r" by (auto simp: index_inv_def att_store_ok_def att_record_ok_def)
  then have "row' = row" using p(3) r(1) assms(1,2) by (auto simp: index_inv_def dest: distinct_map_keyD)
  with r(2) show ?thesis by simp
qed

subsection \<open>Effects that keep the invariant\<close>

lemma att_invI:
  assumes "index_inv s" "files_inv sha s f" "\<And>a. a \<in> set acks \<Longrightarrow> ack_ok s f a"
  shows "att_inv sha acks (s, f)"
  using assms by (simp add: att_inv_def)

lemma att_invD:
  assumes "att_inv sha acks (s, f)"
  shows "index_inv s" "files_inv sha s f" "a \<in> set acks \<Longrightarrow> ack_ok s f a"
  using assms by (auto simp: att_inv_def)

lemma remove_inv:
  assumes i: "att_inv sha acks (s, f)" and u: "\<forall>row\<in>set (ax_records s). attachmentPath row = p \<longrightarrow> ad_phase row \<noteq> Retained"
  shows "att_inv sha (filter (\<lambda>a. fst a \<noteq> p) acks) (s, f(p := None))"
proof (rule att_invI)
  show "index_inv s" using i by (rule att_invD)
  show "files_inv sha s (f(p := None))" using att_invD(2) [OF i] u by (auto simp: files_inv_def intact_def)
  show "ack_ok s (f(p := None)) a" if "a \<in> set (filter (\<lambda>a. fst a \<noteq> p) acks)" for a
    using att_invD(3) [OF i, of a] that by (auto simp: ack_ok_def)
qed

lemma create_inv':
  assumes i: "att_inv sha acks (s, f)" and p: "p \<in> paths s" "f p = None"
  shows "att_inv sha acks (s, f(p \<mapsto> []))"
proof (rule att_invI)
  show "index_inv s" using i by (rule att_invD)
  show "files_inv sha s (f(p \<mapsto> []))" using att_invD(2) [OF i] p
    by (auto simp: files_inv_def intact_def split: if_splits)
  show "ack_ok s (f(p \<mapsto> [])) a" if "a \<in> set acks" for a
    using att_invD(3) [OF i that] p(2) by (auto simp: ack_ok_def)
qed

text \<open>A file changes only behind what its upload has received.\<close>

lemma change_inv:
  assumes i: "att_inv sha acks (s, f)" and row: "row \<in> set (ax_records s)" "ad_phase row = Uploading"
    and content: "f (attachmentPath row) = Some file" "length file' \<le> ad_bytes row" "take (ad_received row) file' = take (ad_received row) file"
    and long: "ad_received row \<le> length file"
  shows "att_inv sha acks (s, f(attachmentPath row \<mapsto> file'))"
proof (rule att_invI)
  note inv = att_invD [OF i]
  show "index_inv s" by (rule inv(1))
  have only: "row' = row" if "row' \<in> set (ax_records s)" "attachmentPath row' = attachmentPath row" for row'
    using same_path [of s row' row] that row inv(1) by (simp add: index_inv_def)
  show "files_inv sha s (f(attachmentPath row \<mapsto> file'))"
    unfolding files_inv_def
  proof (intro conjI ballI allI impI)
    show "dom (f(attachmentPath row \<mapsto> file')) \<subseteq> paths s" using inv(2) row(1) by (auto simp: files_inv_def paths_def)
  next
    fix row' file0 assume r: "row' \<in> set (ax_records s)" "(f(attachmentPath row \<mapsto> file')) (attachmentPath row') = Some file0"
    show "length file0 \<le> ad_bytes row'"
    proof (cases "attachmentPath row' = attachmentPath row")
      case True
      with only r content(2) show ?thesis by auto
    next
      case False
      with r inv(2) show ?thesis by (simp add: files_inv_def)
    qed
  next
    fix row' assume r: "row' \<in> set (ax_records s)" "ad_phase row' = Retained"
    with only [OF r(1)] row(2) have "attachmentPath row' \<noteq> attachmentPath row" by auto
    with r inv(2) show "intact sha (f(attachmentPath row \<mapsto> file')) row'" by (simp add: files_inv_def intact_def)
  qed
  show "ack_ok s (f(attachmentPath row \<mapsto> file')) a" if a: "a \<in> set acks" for a
  proof -
    obtain p offset data where s: "a = (p, offset, data)" by (rule prod_cases3)
    from inv(3) [OF a] obtain row' file0 where r: "row' \<in> set (ax_records s)" "attachmentPath row' = p" "offset + length data \<le> ad_received row'"
      "f p = Some file0" "take (length data) (drop offset file0) = data" by (auto simp: ack_ok_def s)
    show ?thesis
    proof (cases "p = attachmentPath row")
      case False
      with r show ?thesis by (auto simp: ack_ok_def s)
    next
      case True
      then have e: "row' = row" "file0 = file" using only r content by auto
      have cut: "take (length data) (drop offset x) = take (length data) (drop offset (take (ad_received row) x))" for x :: bytes
        using r(3) e by (simp add: drop_take min_def)
      from cut [of "file"] cut [of "file'"] r(5) content(3) e have "take (length data) (drop offset file') = data" by simp
      with r(1-3) True show ?thesis by (auto simp: ack_ok_def s)
    qed
  qed
qed

subsection \<open>Changes of the index\<close>

lemma length_filter_map_le: "(\<And>x. P (g x) \<Longrightarrow> P x) \<Longrightarrow> length (filter P (map g xs)) \<le> length (filter P xs)"
  by (induction xs) (auto intro: le_SucI)

lemma sum_filter_le: "sum_list (map f (filter P xs)) \<le> sum_list (map f xs)" for f :: "'a \<Rightarrow> nat"
  by (induction xs) auto

lemma length_filter_mono: "(\<And>x. x \<in> set xs \<Longrightarrow> P x \<Longrightarrow> Q x) \<Longrightarrow> length (filter P xs) \<le> length (filter Q xs)"
  by (induction xs) (auto intro: le_SucI)

lemma drop_rows_inv:
  assumes i: "att_inv sha acks (s, f)" and ok: "att_store_ok s'" and s': "ax_records s' = filter (\<lambda>row. ad_id row \<notin> D) (ax_records s)"
    "ax_pins s' = ax_pins s"
    and gone: "\<And>row. row \<in> set (ax_records s) \<Longrightarrow> ad_id row \<in> D \<Longrightarrow> ad_phase row \<noteq> Retained \<and> f (attachmentPath row) = None"
  shows "att_inv sha acks (s', f)"
proof (rule att_invI)
  note inv = att_invD [OF i]
  have "quota_ok s'"
    unfolding quota_ok_def
  proof (intro conjI allI)
    show "sum_list (map ad_bytes (ax_records s')) \<le> hostBytes"
      using inv(1) sum_filter_le [of ad_bytes "\<lambda>row. ad_id row \<notin> D" "ax_records s"] by (simp add: s' index_inv_def quota_ok_def)
    show "length (uploading s') \<le> hostUploads"
      using inv(1) length_filter_mono [of "ax_records s" "\<lambda>row. ad_phase row = Uploading \<and> ad_id row \<notin> D" "\<lambda>row. ad_phase row = Uploading"]
      by (simp add: s' index_inv_def quota_ok_def uploading_def conj_commute)
    fix t
    let ?here = "\<lambda>row. sameTarget (ToManaged (ad_target row)) (ToManaged t)"
    have "length (filter ?here (uploading s')) \<le> length (filter ?here (uploading s))"
      unfolding uploading_def s' filter_filter by (rule length_filter_mono) simp
    with inv(1) show "length (filter ?here (uploading s')) \<le> targetUploads"
      unfolding index_inv_def quota_ok_def by (meson order_trans)
  qed
  moreover have "pins_ok s'"
    unfolding pins_ok_def s'
  proof (intro ballI)
    fix pin r assume "pin \<in> set (ax_pins s)" "r \<in> set (an_references pin)"
    with inv(1) obtain row where "row \<in> set (ax_records s)" "ad_phase row = Retained" "ad_reference row = Some r"
      by (auto simp: index_inv_def pins_ok_def)
    with gone show "\<exists>row\<in>set (filter (\<lambda>row. ad_id row \<notin> D) (ax_records s)). ad_phase row = Retained \<and> ad_reference row = Some r"
      by auto
  qed
  moreover have "distinct (map ad_id (ax_records s'))" using inv(1) by (simp add: s' index_inv_def distinct_map_filter)
  ultimately show "index_inv s'" using ok by (simp add: index_inv_def)
  have kept: "row \<in> set (ax_records s')" if "row \<in> set (ax_records s)" "f (attachmentPath row) \<noteq> None" for row
    using that gone by (auto simp: s')
  show "files_inv sha s' f"
    unfolding files_inv_def
  proof (intro conjI)
    show "dom f \<subseteq> paths s'"
    proof
      fix p assume p: "p \<in> dom f"
      then obtain row where "row \<in> set (ax_records s)" "p = attachmentPath row" using inv(2) by (auto simp: files_inv_def paths_def)
      with p kept [of row] show "p \<in> paths s'" by (auto simp: paths_def)
    qed
  qed (use inv(2) in \<open>simp_all add: files_inv_def s'\<close>)
  show "ack_ok s' f a" if a: "a \<in> set acks" for a
  proof -
    obtain p offset data where e: "a = (p, offset, data)" by (rule prod_cases3)
    from inv(3) [OF a] obtain row where "row \<in> set (ax_records s)" "attachmentPath row = p" "offset + length data \<le> ad_received row"
      "\<exists>file. f p = Some file \<and> take (length data) (drop offset file) = data" by (auto simp: ack_ok_def e)
    with kept [of row] show ?thesis by (auto simp: ack_ok_def e)
  qed
qed

lemma row_set: "distinct (map ad_id (ax_records s)) \<Longrightarrow> row \<in> set (ax_records s) \<Longrightarrow>
    set (ax_records (with_row (ad_id row) (\<lambda>_. row') s)) = insert row' (set (ax_records s) - {row})"
  by (auto simp: with_row_def dest: distinct_map_keyD)

lemma row_inv:
  assumes i: "att_inv sha acks (s, f)" and row: "row \<in> set (ax_records s)" "ad_phase row = Uploading"
    and row': "ad_id row' = ad_id row" "ad_media row' = ad_media row" "ad_bytes row' = ad_bytes row" "ad_target row' = ad_target row"
      "ad_phase row' \<noteq> Retained" "ad_received row \<le> ad_received row'"
    and ok: "att_store_ok (with_row (ad_id row) (\<lambda>_. row') s)"
  shows "att_inv sha acks (with_row (ad_id row) (\<lambda>_. row') s, f)" (is "att_inv sha acks (?s, f)")
proof (rule att_invI)
  note inv = att_invD [OF i]
  have d: "distinct (map ad_id (ax_records s))" using inv(1) by (simp add: index_inv_def)
  note rows = row_set [OF d row(1), of row']
  have one: "r = row" if "r \<in> set (ax_records s)" "ad_id r = ad_id row" for r using distinct_map_keyD [OF d that(1) row(1)] that(2) by simp
  have recs: "ax_records ?s = map (\<lambda>r. if r = row then row' else r) (ax_records s)"
    using one by (auto simp: with_row_def intro!: map_cong)
  have same: "map ad_id (ax_records ?s) = map ad_id (ax_records s)" "map ad_bytes (ax_records ?s) = map ad_bytes (ax_records s)"
    using row' by (auto simp: recs)
  have path: "attachmentPath row' = attachmentPath row" using row' by (simp add: attachmentPath_def)
  have "quota_ok ?s"
    unfolding quota_ok_def
  proof (intro conjI allI)
    show "sum_list (map ad_bytes (ax_records ?s)) \<le> hostBytes" using inv(1) by (simp add: same index_inv_def quota_ok_def)
    have up: "length (filter P (ax_records ?s)) \<le> length (filter P (ax_records s))" if "P row' \<Longrightarrow> P row" for P
      unfolding recs by (rule length_filter_map_le) (use that in \<open>simp split: if_splits\<close>)
    show "length (uploading ?s) \<le> hostUploads"
      using up [of "\<lambda>r. ad_phase r = Uploading"] row(2) inv(1) by (simp add: uploading_def index_inv_def quota_ok_def)
    fix t
    let ?here = "\<lambda>r. sameTarget (ToManaged (ad_target r)) (ToManaged t)"
    have "length (filter ?here (uploading ?s)) \<le> length (filter ?here (uploading s))"
      using up [of "\<lambda>r. ad_phase r = Uploading \<and> ?here r"] row(2) row'(4) by (simp add: uploading_def conj_commute)
    with inv(1) show "length (filter ?here (uploading ?s)) \<le> targetUploads"
      unfolding index_inv_def quota_ok_def by (meson order_trans)
  qed
  moreover have "pins_ok ?s" using inv(1) row(2) unfolding index_inv_def pins_ok_def rows by (fastforce simp: with_row_def)
  ultimately show "index_inv ?s" using ok d by (simp add: index_inv_def same)
  have "paths ?s = paths s" using path row(1) by (auto simp: paths_def rows)
  then show "files_inv sha ?s f" using inv(2) row' path row(1) by (auto simp: files_inv_def rows)
  show "ack_ok ?s f a" if a: "a \<in> set acks" for a
    using inv(3) [OF a] row' path by (fastforce simp: ack_ok_def rows)
qed

lemma begin_upload_inv:
  assumes i: "att_inv sha acks (s, f)" and new: "ad_id row \<notin> ad_id ` set (ax_records s)" "ad_phase row = Uploading"
    and q: "sum_list (map ad_bytes (ax_records s)) + ad_bytes row \<le> hostBytes" "length (uploading s) < hostUploads"
      "length (filter (\<lambda>r. sameTarget (ToManaged (ad_target r)) (ToManaged (ad_target row))) (uploading s)) < targetUploads"
    and ok: "att_store_ok (s\<lparr>ax_records := ax_records s @ [row]\<rparr>)"
  shows "att_inv sha acks (s\<lparr>ax_records := ax_records s @ [row]\<rparr>, f)" "f (attachmentPath row) = None"
proof -
  note inv = att_invD [OF i]
  show none: "f (attachmentPath row) = None" using inv(2) new(1) by (fastforce simp: files_inv_def paths_def attachmentPath_def image_iff)
  let ?s = "s\<lparr>ax_records := ax_records s @ [row]\<rparr>"
  have same: "sameTarget (ToManaged (ad_target row)) (ToManaged t) \<Longrightarrow>
      filter (\<lambda>r. sameTarget (ToManaged (ad_target r)) (ToManaged t)) xs
        = filter (\<lambda>r. sameTarget (ToManaged (ad_target r)) (ToManaged (ad_target row))) xs" for t xs
    by (simp add: sameTarget_def)
  have "quota_ok ?s"
    unfolding quota_ok_def
  proof (intro conjI allI)
    show "sum_list (map ad_bytes (ax_records ?s)) \<le> hostBytes" using q(1) by simp
    show "length (uploading ?s) \<le> hostUploads" using q(2) new(2) by (simp add: uploading_def)
    fix t
    let ?here = "\<lambda>r. sameTarget (ToManaged (ad_target r)) (ToManaged t)"
    have "length (filter ?here (uploading s)) \<le> targetUploads" using inv(1) by (simp add: index_inv_def quota_ok_def)
    then show "length (filter ?here (uploading ?s)) \<le> targetUploads"
    proof (cases "?here row")
      case True
      with q(3) same [OF True, of "uploading s"] new(2) show ?thesis by (simp add: uploading_def)
    qed (simp add: uploading_def)
  qed
  moreover have "pins_ok ?s" using inv(1) by (fastforce simp: index_inv_def pins_ok_def)
  ultimately have "index_inv ?s" using inv(1) new(1) ok by (simp add: index_inv_def)
  moreover have "files_inv sha ?s f" using inv(2) none new(2) by (auto simp: files_inv_def paths_def)
  moreover have "ack_ok ?s f a" if "a \<in> set acks" for a using inv(3) [OF that] by (fastforce simp: ack_ok_def)
  ultimately show "att_inv sha acks (?s, f)" by (rule att_invI)
qed

lemma pins_inv:
  assumes i: "att_inv sha acks (s, f)" and s': "ax_records s' = ax_records s" "pins_ok s'" "att_store_ok s'"
  shows "att_inv sha acks (s', f)"
  using i s' by (auto simp: att_inv_def index_inv_def quota_ok_def uploading_def files_inv_def paths_def ack_ok_def)

lemma retain_inv:
  assumes i: "att_inv sha acks (s, f)" and ok: "att_store_ok (retain is s)"
    and rows: "\<And>row. row \<in> set (ax_records s) \<Longrightarrow> ad_id row \<in> is \<Longrightarrow> ad_phase row \<noteq> Uploading \<and> intact sha f row"
  shows "att_inv sha acks (retain is s, f)"
proof (rule att_invI)
  note inv = att_invD [OF i]
  let ?g = "\<lambda>row. if ad_id row \<in> is then row\<lparr>ad_phase := Retained\<rparr> else row"
  have r: "ax_records (retain is s) = map ?g (ax_records s)" "ax_pins (retain is s) = ax_pins s" by (simp_all add: retain_def)
  have same: "map ad_id (map ?g (ax_records s)) = map ad_id (ax_records s)" "map ad_bytes (map ?g (ax_records s)) = map ad_bytes (ax_records s)"
    by auto
  have "attachmentPath (?g row) = attachmentPath row" for row by (simp add: attachmentPath_def)
  then have paths: "paths (retain is s) = paths s" by (simp only: paths_def r set_map image_image)
  have up: "length (filter P (map ?g (ax_records s))) \<le> length (filter P (ax_records s))"
    if "\<And>row. P (row\<lparr>ad_phase := Retained\<rparr>) \<Longrightarrow> P row" for P
    by (rule length_filter_map_le) (use that in \<open>simp split: if_splits\<close>)
  have "quota_ok (retain is s)"
    unfolding quota_ok_def
  proof (intro conjI allI)
    show "sum_list (map ad_bytes (ax_records (retain is s))) \<le> hostBytes"
      using inv(1) unfolding r same by (simp add: index_inv_def quota_ok_def)
    show "length (uploading (retain is s)) \<le> hostUploads"
      using up [of "\<lambda>r. ad_phase r = Uploading"] inv(1) by (simp add: uploading_def r index_inv_def quota_ok_def)
    fix t
    let ?here = "\<lambda>r. sameTarget (ToManaged (ad_target r)) (ToManaged t)"
    have "length (filter ?here (uploading (retain is s))) \<le> length (filter ?here (uploading s))"
      using up [of "\<lambda>r. ad_phase r = Uploading \<and> ?here r"] by (simp add: uploading_def r conj_commute)
    with inv(1) show "length (filter ?here (uploading (retain is s))) \<le> targetUploads"
      unfolding index_inv_def quota_ok_def by (meson order_trans)
  qed
  moreover have "pins_ok (retain is s)"
    unfolding pins_ok_def r
  proof (intro ballI)
    fix pin ref assume "pin \<in> set (ax_pins s)" "ref \<in> set (an_references pin)"
    with inv(1) obtain row where row: "row \<in> set (ax_records s)" "ad_phase row = Retained" "ad_reference row = Some ref"
      by (auto simp: index_inv_def pins_ok_def)
    have "?g row = row" using row(2) by (cases row) simp
    from image_eqI [of row ?g row, OF this [symmetric] row(1)] have "row \<in> set (map ?g (ax_records s))" by (simp only: set_map)
    with row show "\<exists>row\<in>set (map ?g (ax_records s)). ad_phase row = Retained \<and> ad_reference row = Some ref" by blast
  qed
  ultimately show "index_inv (retain is s)" using ok inv(1) unfolding index_inv_def r same by simp
  show "files_inv sha (retain is s) f"
    using inv(2) rows unfolding files_inv_def paths r by (auto simp: intact_def attachmentPath_def)
  show "ack_ok (retain is s) f a" if a: "a \<in> set acks" for a
  proof -
    obtain p offset data where e: "a = (p, offset, data)" by (rule prod_cases3)
    from inv(3) [OF a] obtain row where row: "row \<in> set (ax_records s)" "attachmentPath row = p" "offset + length data \<le> ad_received row"
      and bytes: "\<exists>file. f p = Some file \<and> take (length data) (drop offset file) = data" by (auto simp: ack_ok_def e)
    have "?g row \<in> set (ax_records (retain is s))" "attachmentPath (?g row) = p" "offset + length data \<le> ad_received (?g row)"
      using row by (simp_all add: r attachmentPath_def)
    with bytes show ?thesis unfolding ack_ok_def e by blast
  qed
qed

end
