(* ===== verification/AttachmentRun.thy ===== *)
theory AttachmentRun
  imports AttachmentInv
begin

text \<open>
  Every transaction on the store of images keeps the invariant at each of its writes, and so does any run of them.
\<close>

subsection \<open>Reading parts write nothing\<close>

lemma session_reads: "fst (attachmentSession e target write) = []"
  by (auto simp: attachmentSession_def fst_att_bind snd_att_bind split: option.split sum.split)

lemma each_reads: "(\<And>x. x \<in> set xs \<Longrightarrow> fst (f x) = []) \<Longrightarrow> fst (att_each f xs) = []"
  by (induction xs) (auto simp: fst_att_bind snd_att_bind split: sum.split)

lemma each_rows:
  "snd (att_each f xs) = Inr ys \<Longrightarrow> length ys = length xs \<and> (\<forall>i<length xs. snd (f (xs ! i)) = Inr (ys ! i))"
proof (induction xs arbitrary: ys)
  case (Cons x xs)
  then obtain z zs where z: "snd (f x) = Inr z" "snd (att_each f xs) = Inr zs" "ys = z # zs"
    by (auto simp: snd_att_bind split: sum.splits)
  from Cons.IH [OF z(2)] z show ?case by (auto simp: nth_Cons split: nat.split)
qed simp

lemma exact_reads:
  "fst (exactBytes e files row r) = []"
  "snd (exactBytes e files row r) = Inr file \<Longrightarrow> files (attachmentPath row) = Some file \<and> length file = ar_bytes r \<and> ae_sha e file = ar_digest r"
  by (auto simp: exactBytes_def fst_att_bind snd_att_bind split: option.splits sum.splits if_splits)

subsection \<open>The index is written whole\<close>

lemma persist_safe:
  assumes "att_inv sha acks (s, f)" "att_store_ok s' \<Longrightarrow> att_inv sha acks (s', f)"
  shows "att_safe sha (fst (att_persist e s')) acks (s, f)"
  using assms by (simp add: att_persist_def)

lemma persist_done: "snd (att_persist e s') = Inr u \<Longrightarrow> att_store_ok s' \<and> fst (att_persist e s') = [PutIndex s']"
  by (simp add: att_persist_def split: if_splits)

lemma persist_effects: "fst (att_persist e s') = [] \<or> (att_store_ok s' \<and> fst (att_persist e s') = [PutIndex s'])"
  by (simp add: att_persist_def)

subsection \<open>What has expired\<close>

lemma removed_files:
  "fold att_apply (map (\<lambda>row. RemoveFile (attachmentPath row)) rows) (s, f)
     = (s, \<lambda>p. if p \<in> attachmentPath ` set rows then None else f p)"
  by (induction rows arbitrary: f) auto

lemma remove_safe:
  assumes "att_inv sha acks (s, f)" "\<forall>row\<in>set rows. row \<in> set (ax_records s) \<and> ad_phase row \<noteq> Retained"
  shows "att_safe sha (map (\<lambda>row. RemoveFile (attachmentPath row)) rows) acks (s, f)"
  using assms
proof (induction rows arbitrary: acks f)
  case (Cons row rows)
  then have i: "index_inv s" by (auto dest: att_invD)
  have "\<forall>r\<in>set (ax_records s). attachmentPath r = attachmentPath row \<longrightarrow> ad_phase r \<noteq> Retained"
    using same_path [of s _ row] i Cons.prems(2) by (auto simp: index_inv_def)
  from remove_inv [OF Cons.prems(1) this] Cons.IH Cons.prems show ?case by simp
qed simp

lemma reap_safe:
  assumes i: "att_inv sha acks (s, f)"
  shows "att_safe sha (fst (reapExpired e s)) acks (s, f)"
    and "snd (reapExpired e s) = Inr s' \<Longrightarrow> fst (fold att_apply (fst (reapExpired e s)) (s, f)) = s'"
proof -
  let ?rows = "filter (reapable (ae_time e) s) (ax_records s)"
  let ?cancelled = "filter (\<lambda>c. ac_expiresAt c > ae_time e) (ax_cancelled s)"
  let ?s = "s\<lparr>ax_records := filter (\<lambda>row. ad_id row \<notin> ad_id ` set ?rows) (ax_records s), ax_cancelled := ?cancelled\<rparr>"
  let ?rm = "map (\<lambda>row. RemoveFile (attachmentPath row)) ?rows"
  let ?f = "\<lambda>p. if p \<in> attachmentPath ` set ?rows then None else f p"
  have rm: "att_safe sha ?rm acks (s, f)" using i by (intro remove_safe) (auto simp: reapable_def)
  then have after: "att_inv sha (fold kept_acks ?rm acks) (s, ?f)"
    using safe_cut(1) [of sha ?rm acks "(s, f)" "length ?rm"] by (simp add: removed_files)
  have put: "att_inv sha (fold kept_acks ?rm acks) (?s, ?f)" if "att_store_ok ?s"
  proof (rule drop_rows_inv [OF after that])
    fix row assume row: "row \<in> set (ax_records s)" "ad_id row \<in> ad_id ` set ?rows"
    then obtain r where r: "r \<in> set ?rows" "ad_id r = ad_id row" by auto
    have "r = row" using att_invD(1) [OF i] r row(1) by (auto simp: index_inv_def dest: distinct_map_keyD)
    with r(1) show "ad_phase row \<noteq> Retained \<and> ?f (attachmentPath row) = None" by (auto simp: reapable_def)
  qed simp_all
  let ?idle = "?rows = [] \<and> length ?cancelled = length (ax_cancelled s)"
  have effects: "fst (reapExpired e s) = (if ?idle then [] else ?rm @ fst (att_persist e ?s))"
    by (simp add: reapExpired_def Let_def fst_att_bind snd_att_bind split: sum.split)
  show "att_safe sha (fst (reapExpired e s)) acks (s, f)"
    using rm persist_safe [OF after put] i by (simp add: effects safe_append removed_files)
  show "fst (fold att_apply (fst (reapExpired e s)) (s, f)) = s'" if r: "snd (reapExpired e s) = Inr s'"
  proof (cases ?idle)
    case True
    with r show ?thesis by (simp add: reapExpired_def Let_def)
  next
    case False
    with r have s': "s' = ?s" and put: "fst (att_persist e ?s) = [PutIndex ?s]"
      by (auto simp: reapExpired_def Let_def snd_att_bind dest: persist_done split: sum.splits if_splits)
    have "fst (reapExpired e s) = ?rm @ [PutIndex ?s]" unfolding effects if_not_P [OF False] put ..
    then show ?thesis unfolding s' by (simp add: removed_files)
  qed
qed

lemma store_safe:
  assumes i: "att_inv sha acks d" and run: "\<And>s f acks. att_inv sha acks (s, f) \<Longrightarrow> att_safe sha (fst (run s f)) acks (s, f)"
  shows "att_safe sha (fst (withAttachmentStore e run d)) acks d"
proof -
  obtain s f where d: "d = (s, f)" by force
  note reap = reap_safe [OF i [unfolded d], of e]
  obtain es r where rd: "reapExpired e s = (es, r)" by force
  show ?thesis
  proof (cases r)
    case (Inl x)
    with rd reap(1) show ?thesis by (simp add: withAttachmentStore_def d)
  next
    case (Inr s')
    let ?d = "fold att_apply es (s, f)"
    have s': "fst ?d = s'" using reap(2) rd Inr by simp
    have "att_inv sha (fold kept_acks es acks) ?d" using safe_cut(1) [OF reap(1), of "length es"] rd by simp
    then have "att_inv sha (fold kept_acks es acks) (s', snd ?d)" using s' by (metis prod.collapse)
    from run [OF this] have "att_safe sha (fst (run s' (snd ?d))) (fold kept_acks es acks) ?d" using s' by (metis prod.collapse)
    moreover have "fst (withAttachmentStore e run d) = es @ fst (run s' (snd ?d))"
      using rd Inr by (simp add: withAttachmentStore_def d split: prod.split sum.split)
    ultimately show ?thesis using reap(1) rd by (simp add: safe_append d)
  qed
qed

subsection \<open>Uploads\<close>

lemma ensure_safe:
  assumes i: "att_inv sha acks (s, f)" and row: "attachmentPath row \<in> paths s"
  shows "att_safe sha (fst (ensureUploadFile f row)) acks (s, f)"
    and "snd (ensureUploadFile f row) = Inr u \<Longrightarrow>
      fold att_apply (fst (ensureUploadFile f row)) (s, f) = (s, f(attachmentPath row := Some (nullish (f (attachmentPath row)) [])))
      \<and> fold kept_acks (fst (ensureUploadFile f row)) acks = acks
      \<and> (f (attachmentPath row) = None \<longrightarrow> ad_received row = 0 \<and> ad_phase row = Uploading)"
  using i create_inv' [OF i row] by (auto simp: ensureUploadFile_def fst_att_bind snd_att_bind fun_upd_idem_iff split: if_splits)

lemma begin_safe:
  assumes i: "att_inv sha acks (s, f)"
  shows "att_safe sha (fst (beginUpload e g who input s f)) acks (s, f)"
proof -
  let ?row = "new_upload e g who input" and ?cancelled = "\<exists>c\<in>set (ax_cancelled s). ac_id c = bi_id input"
  let ?s = "s\<lparr>ax_records := ax_records s @ [?row]\<rparr>"
  consider "?cancelled" | "\<not> ?cancelled" "bi_id input \<in> ad_id ` set (ax_records s)" | "\<not> ?cancelled" "bi_id input \<notin> ad_id ` set (ax_records s)" by blast
  then show ?thesis
  proof cases
    case 1
    with i show ?thesis by (auto simp: beginUpload_def fst_att_bind)
  next
    case 2
    show ?thesis
    proof (cases "snd (ownedAttachment s g (bi_target input) who (bi_id input))")
      case (Inl x)
      with 2 i show ?thesis by (simp add: beginUpload_def fst_att_bind snd_att_bind owned_row(1))
    next
      case (Inr row)
      from owned_row(2) [OF Inr] have "attachmentPath row \<in> paths s" by (simp add: paths_def)
      from ensure_safe(1) [OF i this] i 2 Inr show ?thesis
        by (auto simp: beginUpload_def fst_att_bind snd_att_bind owned_row(1) split: sum.split)
    qed
  next
    case 3
    show ?thesis
    proof (cases "snd (checkQuota s (bi_target input) (bi_bytes input))")
      case (Inl x)
      with 3 i show ?thesis by (simp add: beginUpload_def fst_att_bind snd_att_bind) (simp add: checkQuota_def fst_att_bind)
    next
      case (Inr u)
      then have q: "sum_list (map ad_bytes (ax_records s)) + ad_bytes ?row \<le> hostBytes" "length (uploading s) < hostUploads"
        "length (filter (\<lambda>r. sameTarget (ToManaged (ad_target r)) (ToManaged (ad_target ?row))) (uploading s)) < targetUploads"
        by (auto simp: checkQuota_def snd_att_bind new_upload_def split: sum.splits if_splits)
      have new: "ad_id ?row \<notin> ad_id ` set (ax_records s)" "ad_phase ?row = Uploading" using 3 by (simp_all add: new_upload_def)
      note b = begin_upload_inv [OF i new q]
      have none: "fst (checkQuota s (bi_target input) (bi_bytes input)) = []" by (simp add: checkQuota_def fst_att_bind split: sum.split)
      have "fst (beginUpload e g who input s f) = fst (att_persist e ?s)
          @ (case snd (att_persist e ?s) of Inl _ \<Rightarrow> [] | Inr _ \<Rightarrow> fst (ensureUploadFile f ?row))"
        using 3 Inr none by (auto simp: beginUpload_def fst_att_bind snd_att_bind Let_def split: sum.split)
      moreover have "att_safe sha (fst (ensureUploadFile f ?row)) (fold kept_acks (fst (att_persist e ?s)) acks)
          (fold att_apply (fst (att_persist e ?s)) (s, f))" if "snd (att_persist e ?s) = Inr ()"
        using persist_done [OF that] ensure_safe(1) [OF b(1), of ?row] by (simp add: paths_def)
      moreover have "att_inv sha (fold kept_acks (fst (att_persist e ?s)) acks) (fold att_apply (fst (att_persist e ?s)) (s, f))"
        using persist_effects [of e ?s] i b(1) by auto
      ultimately show ?thesis using persist_safe [OF i b(1), of e] by (auto simp: safe_append split: sum.split)
    qed
  qed
qed

text \<open>The part of a chunk that changes the file: cut to what was received, extended by the bytes.\<close>

lemma extend_safe:
  assumes i: "att_inv sha acks (s, f)" and row: "row \<in> set (ax_records s)" "ad_phase row = Uploading"
    and content: "f (attachmentPath row) = Some file" "ad_received row \<le> length file" "length file \<le> ad_bytes row"
    and fits: "ad_received row + length data \<le> ad_bytes row"
    and ok: "att_store_ok s'" "s' = with_row (ad_id row) (\<lambda>_. row\<lparr>ad_received := ad_received row + length data\<rparr>) s \<or> s' = s"
    and es: "es = (if ad_received row < length file then [TruncateFile (attachmentPath row) (ad_received row)] else [])
      @ [WriteAt (attachmentPath row) (ad_received row) data] @ (if s' = s then [] else [PutIndex s'])"
  shows "att_safe sha es acks (s, f)"
    and "fold att_apply es (s, f) = (s', f(attachmentPath row \<mapsto> take (ad_received row) file @ data))"
proof -
  let ?p = "attachmentPath row" and ?n = "ad_received row"
  let ?file = "take ?n file"
  have len: "length ?file = ?n" using content(2) by simp
  have w: "write_at ?n d ?file = ?file @ d" for d by (simp add: write_at_def len)
  have i2: "att_inv sha acks (s, f(?p \<mapsto> ?file))"
    by (rule change_inv [OF i row content(1) _ _ content(2)]) (use content in simp_all)
  have i3: "att_inv sha acks (s, f(?p \<mapsto> ?file @ take k data))" for k
  proof -
    have "att_inv sha acks (s, (f(?p \<mapsto> ?file))(?p \<mapsto> ?file @ take k data))"
      by (rule change_inv [OF i2 row, of "?file"]) (use content fits in \<open>simp_all add: min_def\<close>)
    then show ?thesis by simp
  qed
  from i3 [of "length data"] have i4: "att_inv sha acks (s, f(?p \<mapsto> ?file @ data))" by simp
  have i5: "att_inv sha acks (s', f(?p \<mapsto> ?file @ data))"
    using ok(2)
  proof
    assume s': "s' = with_row (ad_id row) (\<lambda>_. row\<lparr>ad_received := ad_received row + length data\<rparr>) s"
    show ?thesis unfolding s' by (rule row_inv [OF i4 row]) (use row(2) ok(1) s' in simp_all)
  qed (use i4 in simp)
  have whole: "ad_received row < length file \<or> file = ?file" using content(2) by (cases "?n = length file") auto
  have w0: "write_at ?n d file = file @ d" if "\<not> ?n < length file" for d using that content(2) by (simp add: write_at_def)
  have idem: "file = ?file \<Longrightarrow> f(?p \<mapsto> ?file) = f" using content(1) by (simp add: fun_upd_idem_iff)
  show "att_safe sha es acks (s, f)"
    unfolding es using i i2 i3 i4 i5 content(1) whole idem by (auto simp: w w0 image_iff split: if_splits)
  show "fold att_apply es (s, f) = (s', f(?p \<mapsto> ?file @ data))"
    unfolding es using content(1) whole by (auto simp: w w0 split: if_splits)
qed

lemma append_safe:
  assumes i: "att_inv sha acks (s, f)" and row: "row \<in> set (ax_records s)"
  shows "att_safe sha (fst (appendUpload e row input s f)) acks (s, f)"
    and "snd (appendUpload e row input s f) = Inr rc \<Longrightarrow> ci_data input = Some data \<Longrightarrow>
      ack_ok (fst (fold att_apply (fst (appendUpload e row input s f)) (s, f))) (snd (fold att_apply (fst (appendUpload e row input s f)) (s, f)))
        (attachmentPath row, ci_offset input, data) \<and> fold kept_acks (fst (appendUpload e row input s f)) acks = acks"
proof -
  let ?t = "appendUpload e row input s f" and ?p = "attachmentPath row" and ?n = "ad_received row"
  let ?good = "\<lambda>t. att_safe sha (fst t) acks (s, f) \<and> (\<forall>rc data. snd t = Inr rc \<and> ci_data input = Some data \<longrightarrow>
    ack_ok (fst (fold att_apply (fst t) (s, f))) (snd (fold att_apply (fst t) (s, f))) (?p, ci_offset input, data)
    \<and> fold kept_acks (fst t) acks = acks)"
  have path: "?p \<in> paths s" using row by (simp add: paths_def)
  note ensure = ensure_safe [OF i path]
  let ?file = "nullish (f ?p) []"
  have same: "(case f ?p of Some file \<Rightarrow> file | None \<Rightarrow> []) = ?file" by (cases "f ?p") simp_all
  have "?good ?t"
  proof (cases "ci_data input")
    case None
    with i show ?thesis by (simp add: appendUpload_def)
  next
    case (Some data)
    let ?final = "ci_offset input + length data"
    show ?thesis
    proof (cases "0 < length data \<and> length data \<le> chunkBytes \<and> ?final \<le> ad_bytes row \<and> ci_offset input \<le> ?n")
      case False
      then have "fst ?t = [] \<and> (\<exists>x. snd ?t = Inl x)" by (auto simp: appendUpload_def Some Let_def)
      with i show ?thesis by auto
    next
      case c: True
      show ?thesis
      proof (cases "snd (ensureUploadFile f row)")
        case (Inl x)
        then have "fst ?t = fst (ensureUploadFile f row) \<and> (\<exists>x. snd ?t = Inl x)"
          using c by (auto simp: appendUpload_def Some Let_def fst_att_bind snd_att_bind)
        with ensure(1) show ?thesis by auto
      next
        case (Inr u)
        note made = ensure(2) [OF Inr]
        let ?es0 = "fst (ensureUploadFile f row)" and ?f = "f(?p := Some ?file)"
        have i1: "att_inv sha acks (s, ?f)" using safe_cut(1) [OF ensure(1), of "length ?es0"] made by simp
        show ?thesis
        proof (cases "?n \<le> length ?file \<and> length ?file \<le> ad_bytes row \<and>
            (if ci_offset input < ?n then ?final \<le> ?n \<and> take (length data) (drop (ci_offset input) ?file) = data else ad_phase row = Uploading)")
          case False
          then have "fst ?t = ?es0 \<and> (\<exists>x. snd ?t = Inl x)"
            using c Inr by (auto simp: appendUpload_def Some Let_def fst_att_bind snd_att_bind same split: if_splits)
          with ensure(1) show ?thesis by auto
        next
          case b: True
          show ?thesis
          proof (cases "ci_offset input < ?n")
            case True
            then have t: "fst ?t = ?es0" using c b Inr by (auto simp: appendUpload_def Some Let_def fst_att_bind snd_att_bind same)
            have "ack_ok s ?f (?p, ci_offset input, data)" using row b True by (auto simp: ack_ok_def)
            then show ?thesis using ensure(1) made by (simp add: t Some)
          next
            case False
            then have off: "ci_offset input = ?n" and up: "ad_phase row = Uploading" using c b by auto
            let ?row = "row\<lparr>ad_received := ?final\<rparr>"
            let ?s = "with_row (ad_id row) (\<lambda>_. ?row) s"
            let ?tr = "if ?n < length ?file then [TruncateFile ?p ?n] else []"
            let ?put = "fst (att_persist e ?s)"
            have t: "fst ?t = ?es0 @ ?tr @ [WriteAt ?p ?n data] @ ?put"
              using c b Inr False off by (auto simp: appendUpload_def Some Let_def fst_att_bind snd_att_bind same split: sum.split)
            define s' where "s' = (if ?put = [] then s else ?s)"
            have mem: "?row \<in> set (ax_records ?s)" using row by (force simp: with_row_def)
            have ne: "?s \<noteq> s"
            proof
              assume "?s = s"
              with mem have "?row \<in> set (ax_records s)" by simp
              then have "?row = row" using att_invD(1) [OF i] row
                by (intro distinct_map_keyD [of ad_id "ax_records s"]) (simp_all add: index_inv_def)
              then have "?final = ?n" by (metis att_record.select_convs(8) att_record.surjective att_record.update_convs(8))
              then show False using c off by simp
            qed
            have put: "?put = (if s' = s then [] else [PutIndex s'])" "att_store_ok s'" "s' = ?s \<or> s' = s"
              using persist_effects [of e ?s] ne att_invD(1) [OF i] by (auto simp: s'_def index_inv_def)
            note ext = extend_safe [OF i1 row up, of ?file data s' "?tr @ [WriteAt ?p ?n data] @ ?put"]
            have x: "att_safe sha (?tr @ [WriteAt ?p ?n data] @ ?put) acks (s, ?f)"
              "fold att_apply (?tr @ [WriteAt ?p ?n data] @ ?put) (s, ?f) = (s', ?f(?p \<mapsto> take ?n ?file @ data))"
              using b c off put by (intro ext; simp)+
            have finished: "?put = [PutIndex ?s]" "s' = ?s" if "snd ?t = Inr rc" for rc
            proof -
              have "\<exists>u. snd (att_persist e ?s) = Inr u" using that c b Inr False off
                by (auto simp: appendUpload_def Some Let_def fst_att_bind snd_att_bind same split: sum.splits if_splits)
              then show "?put = [PutIndex ?s]" using persist_done by blast
              then show "s' = ?s" by (simp add: s'_def)
            qed
            have "attachmentPath ?row = ?p" "take (length data) (drop ?n (take ?n ?file @ data)) = data"
              using b by (simp_all add: attachmentPath_def)
            then have "ack_ok ?s (?f(?p \<mapsto> take ?n ?file @ data)) (?p, ?n, data)"
              unfolding ack_ok_def prod.case using off by (intro conjI bexI [OF _ mem]) simp_all
            with ensure(1) made x finished show ?thesis by (auto simp: t safe_append Some off)
          qed
        qed
      qed
    qed
  qed
  then show "att_safe sha (fst ?t) acks (s, f)"
    "snd ?t = Inr rc \<Longrightarrow> ci_data input = Some data \<Longrightarrow>
      ack_ok (fst (fold att_apply (fst ?t) (s, f))) (snd (fold att_apply (fst ?t) (s, f))) (?p, ci_offset input, data)
      \<and> fold kept_acks (fst ?t) acks = acks" by blast+
qed

lemma cancel_safe:
  assumes i: "att_inv sha acks (s, f)"
  shows "att_safe sha (fst (cancel_upload e g who target i' s f)) acks (s, f)"
proof (cases "List.find (\<lambda>c. ac_id c = i') (ax_cancelled s)")
  case (Some c)
  with i show ?thesis by (simp add: cancel_upload_def fst_att_bind snd_att_bind)
next
  case None
  show ?thesis
  proof (cases "snd (ownedAttachment s g target who i')")
    case (Inl x)
    with i None show ?thesis by (simp add: cancel_upload_def fst_att_bind snd_att_bind owned_row(1))
  next
    case (Inr row)
    then have row: "row \<in> set (ax_records s)" using owned_row(2) by blast
    show ?thesis
    proof (cases "ad_phase row \<noteq> Retained \<and> \<not> is_protected s (ad_id row) \<and> length (ax_cancelled s) < att_records")
      case False
      with i None Inr show ?thesis by (auto simp: cancel_upload_def fst_att_bind snd_att_bind owned_row(1))
    next
      case True
      define s' where "s' = s\<lparr>ax_cancelled := ax_cancelled s @ [\<lparr>ac_id = ad_id row, ac_target = ad_target row,
          ac_registration = ad_registration row, ac_principal = ad_principal row, ac_expiresAt = ae_time e + uploadTtlMs\<rparr>],
        ax_records := filter (\<lambda>x. ad_id x \<noteq> ad_id row) (ax_records s)\<rparr>"
      have es: "fst (cancel_upload e g who target i' s f) = RemoveFile (attachmentPath row) # fst (att_persist e s')"
        using None Inr True by (auto simp: cancel_upload_def fst_att_bind snd_att_bind owned_row(1) s'_def split: sum.split)
      have only: "r = row" if "r \<in> set (ax_records s)" "ad_id r = ad_id row" for r
        using distinct_map_keyD [of ad_id "ax_records s" r row] att_invD(1) [OF i] that row by (simp add: index_inv_def)
      have r: "att_inv sha (kept_acks (RemoveFile (attachmentPath row)) acks) (s, f(attachmentPath row := None))"
        using remove_inv [OF i, of "attachmentPath row"] same_path [of s _ row] att_invD(1) [OF i] row True
        by (auto simp: index_inv_def)
      have "att_inv sha (kept_acks (RemoveFile (attachmentPath row)) acks) (s', f(attachmentPath row := None))" if "att_store_ok s'"
        by (rule drop_rows_inv [OF r that, of "{ad_id row}"]) (use only True in \<open>auto simp: s'_def\<close>)
      from persist_safe [OF r this] i show ?thesis by (simp add: es)
    qed
  qed
qed

subsection \<open>Finished images and pins\<close>

lemma finalize_safe:
  assumes i: "att_inv sha acks (s, f)"
  shows "fst (finalize_read e g who target i' s f) = []"
    and "att_safe sha (fst (finalize_commit e g who target i' prepared shot s f)) acks (s, f)"
proof -
  show "fst (finalize_read e g who target i' s f) = []"
    by (auto simp: finalize_read_def fst_att_bind snd_att_bind owned_row(1) verified_reference(1) split: sum.split option.split)
  show "att_safe sha (fst (finalize_commit e g who target i' prepared shot s f)) acks (s, f)"
  proof (cases "snd (ownedAttachment s g target who i')")
    case (Inl x)
    with i show ?thesis by (simp add: finalize_commit_def fst_att_bind snd_att_bind owned_row(1))
  next
    case (Inr row)
    then have row: "row \<in> set (ax_records s)" using owned_row(2) by blast
    let ?row = "row\<lparr>ad_reference := Some (image_reference row shot), ad_phase := Verified, ad_expiresAt := ae_time e + unretainedTtlMs\<rparr>"
    let ?s = "with_row (ad_id row) (\<lambda>_. ?row) s"
    have put: "att_inv sha acks (?s, f)" if "att_store_ok ?s" "ad_phase row = Uploading"
      by (rule row_inv [OF i row that(2) _ _ _ _ _ _ that(1)]) simp_all
    have "fst (finalize_commit e g who target i' prepared shot s f) = []
      \<or> (ad_phase row = Uploading \<and> fst (finalize_commit e g who target i' prepared shot s f) = fst (att_persist e ?s))"
      using Inr by (auto simp: finalize_commit_def Let_def fst_att_bind snd_att_bind owned_row(1) split: sum.split option.split)
    then show ?thesis using i persist_safe [OF i put] by auto
  qed
qed

lemma pin_safe:
  assumes i: "att_inv (ae_sha e) acks (s, f)"
  shows "att_safe (ae_sha e) (fst (pin_images e g who target message rs s f)) acks (s, f)"
proof -
  let ?t = "pin_images e g who target message rs s f"
  let ?read = "att_each (readableAttachment s g target who) rs"
  let ?pin = "\<lparr>an_message = message, an_target = target, an_registration = g, an_principal = who, an_references = rs\<rparr>"
  let ?s = "(retain (ar_id ` set rs) s)\<lparr>ax_pins := ax_pins s @ [?pin]\<rparr>"
  note inv = att_invD [OF i]
  have reads: "fst ?read = []" by (rule each_reads) (rule readable_row(1))
  have exact: "fst (att_each (\<lambda>(row, r). exactBytes e f row r) xs) = []" for xs
    by (rule each_reads) (auto simp: exact_reads(1))
  have "fst ?t = [] \<or> (\<exists>rows. snd ?read = Inr rows \<and> (\<exists>ys. snd (att_each (\<lambda>(row, r). exactBytes e f row r) (zip rows rs)) = Inr ys)
      \<and> fst ?t = fst (att_persist e ?s))"
    by (auto simp: pin_images_def fst_att_bind snd_att_bind reads exact split: option.split sum.splits)
  then show ?thesis
  proof
    assume "fst ?t = []"
    with i show ?thesis by simp
  next
    assume "\<exists>rows. snd ?read = Inr rows \<and> (\<exists>ys. snd (att_each (\<lambda>(row, r). exactBytes e f row r) (zip rows rs)) = Inr ys)
      \<and> fst ?t = fst (att_persist e ?s)"
    then obtain rows ys where rows: "snd ?read = Inr rows" and ys: "snd (att_each (\<lambda>(row, r). exactBytes e f row r) (zip rows rs)) = Inr ys"
      and t: "fst ?t = fst (att_persist e ?s)" by blast
    have known: "\<exists>row\<in>set (ax_records s). ad_id row = ar_id r \<and> ad_reference row = Some r \<and> ad_phase row \<noteq> Uploading \<and> intact (ae_sha e) f row"
      if "r \<in> set rs" for r
    proof -
      from that obtain n where n: "n < length rs" "rs ! n = r" by (auto simp: in_set_conv_nth)
      from each_rows [OF rows] n have len: "length rows = length rs" and "snd (readableAttachment s g target who r) = Inr (rows ! n)" by auto
      from readable_row(2) [OF this(2)] have row: "rows ! n \<in> set (ax_records s)" "ad_id (rows ! n) = ar_id r" "ad_reference (rows ! n) = Some r"
        "ad_phase (rows ! n) \<noteq> Uploading" by auto
      from each_rows [OF ys] n len obtain x where "snd (exactBytes e f (rows ! n) r) = Inr x" by auto
      from exact_reads(2) [OF this] have "f (attachmentPath (rows ! n)) = Some x" "length x = ar_bytes r" "ae_sha e x = ar_digest r" by auto
      moreover have "ar_bytes r = ad_bytes (rows ! n)" "ar_digest r = ad_digest (rows ! n)"
        using inv(1) row by (auto simp: index_inv_def att_store_ok_def att_record_ok_def)
      ultimately show ?thesis using row by (intro bexI [of _ "rows ! n"]) (auto simp: intact_def)
    qed
    have put: "att_inv (ae_sha e) acks (?s, f)" if ok: "att_store_ok ?s"
    proof -
      have recs: "ax_records ?s = ax_records (retain (ar_id ` set rs) s)" by simp
      have "att_store_ok (retain (ar_id ` set rs) s)" using ok inv(1)
        by (simp add: att_store_ok_def index_inv_def retain_def)
      moreover have "ad_phase row \<noteq> Uploading \<and> intact (ae_sha e) f row" if row: "row \<in> set (ax_records s)" "ad_id row \<in> ar_id ` set rs" for row
      proof -
        from row(2) obtain r where r: "r \<in> set rs" "ad_id row = ar_id r" by auto
        from known [OF r(1)] obtain row' where row': "row' \<in> set (ax_records s)" "ad_id row' = ar_id r" "ad_phase row' \<noteq> Uploading"
          "intact (ae_sha e) f row'" by blast
        have "row' = row" using distinct_map_keyD [of ad_id "ax_records s" row' row] inv(1) row(1) row'(1,2) r(2) by (simp add: index_inv_def)
        with row' show ?thesis by simp
      qed
      ultimately have ret: "att_inv (ae_sha e) acks (retain (ar_id ` set rs) s, f)" by (rule retain_inv [OF i])
      have "pins_ok ?s"
        unfolding pins_ok_def
      proof (intro ballI)
        fix pin r assume pin: "pin \<in> set (ax_pins ?s)" and r: "r \<in> set (an_references pin)"
        show "\<exists>row\<in>set (ax_records ?s). ad_phase row = Retained \<and> ad_reference row = Some r"
        proof (cases "pin \<in> set (ax_pins s)")
          case True
          with att_invD(1) [OF ret] r show ?thesis by (auto simp: index_inv_def pins_ok_def retain_def)
        next
          case False
          with pin r have r: "r \<in> set rs" by simp
          from known [OF r] obtain row where row: "row \<in> set (ax_records s)" "ad_id row = ar_id r" "ad_reference row = Some r" by blast
          have "row\<lparr>ad_phase := Retained\<rparr> \<in> set (ax_records ?s)" using row r by (auto simp: retain_def image_iff intro!: bexI [of _ row])
          with row(3) show ?thesis by (intro bexI [of _ "row\<lparr>ad_phase := Retained\<rparr>"]) simp_all
        qed
      qed
      from pins_inv [OF ret recs this ok] show ?thesis .
    qed
    from persist_safe [OF i put] show ?thesis by (simp add: t)
  qed
qed

lemma inherit_one:
  "fst (inherit_pin source destination pin s) = []"
  "snd (inherit_pin source destination pin s) = Inr s' \<Longrightarrow> ax_records s' = ax_records s \<and> (pins_ok s \<longrightarrow> pins_ok s')"
proof -
  let ?check = "\<lambda>r. att_bind (readableAttachment s (fst source) (snd source) (an_principal pin) r)
     (\<lambda>row. assertAttachment (ad_phase row = Retained) ''fork-pin-not-retained'')"
  have reads: "fst (att_each ?check (an_references pin)) = []"
    by (rule each_reads) (auto simp: fst_att_bind snd_att_bind readable_row(1) split: sum.split)
  then show "fst (inherit_pin source destination pin s) = []"
    by (auto simp: inherit_pin_def fst_att_bind snd_att_bind split: option.split sum.split)
  assume r: "snd (inherit_pin source destination pin s) = Inr s'"
  show "ax_records s' = ax_records s \<and> (pins_ok s \<longrightarrow> pins_ok s')"
  proof (cases "find_pin (an_message pin) (snd destination) s")
    case (Some known)
    with r show ?thesis by (auto simp: inherit_pin_def snd_att_bind split: if_splits)
  next
    case None
    with r obtain ys where ys: "snd (att_each ?check (an_references pin)) = Inr ys"
      and s': "s' = s\<lparr>ax_pins := ax_pins s @ [pin\<lparr>an_target := snd destination, an_registration := fst destination\<rparr>]\<rparr>"
      by (auto simp: inherit_pin_def snd_att_bind split: sum.splits if_splits)
    have "\<exists>row\<in>set (ax_records s). ad_phase row = Retained \<and> ad_reference row = Some r" if "r \<in> set (an_references pin)" for r
    proof -
      from that obtain n where "n < length (an_references pin)" "an_references pin ! n = r" by (auto simp: in_set_conv_nth)
      with each_rows [OF ys] have "\<exists>y. snd (?check r) = Inr y" by auto
      then obtain row where "snd (readableAttachment s (fst source) (snd source) (an_principal pin) r) = Inr row" "ad_phase row = Retained"
        by (auto simp: snd_att_bind split: sum.splits if_splits)
      with readable_row(2) show ?thesis by blast
    qed
    then show ?thesis by (auto simp: s' pins_ok_def)
  qed
qed

lemma inherit_all:
  "fst (inherit_pins source destination pins s) = []"
  "snd (inherit_pins source destination pins s) = Inr s' \<Longrightarrow> ax_records s' = ax_records s \<and> (pins_ok s \<longrightarrow> pins_ok s')"
proof (induction pins arbitrary: s)
  case (Cons pin pins)
  {
    case 1
    from Cons.IH(1) show ?case by (simp add: fst_att_bind inherit_one(1) split: sum.split)
  next
    case 2
    then obtain s1 where "snd (inherit_pin source destination pin s) = Inr s1" "snd (inherit_pins source destination pins s1) = Inr s'"
      by (auto simp: snd_att_bind split: sum.splits)
    with Cons.IH(2) inherit_one(2) show ?case by metis
  }
qed auto

subsection \<open>Any run of transactions\<close>

datatype att_request =
  BeginUpload principal begin_input | AppendChunk principal chunk_input | CancelUpload principal managed_peer string
| FinishRead principal managed_peer string | FinishCommit principal managed_peer string bytes decoded_image
| PinImages principal managed_peer string "att_reference list" | ResolveImages managed_peer string "att_reference list"
| InheritImages managed_peer managed_peer | ReadImage "string \<times> string \<times> string" principal managed_peer att_reference nat digest_cache

fun att_effects :: "att_env \<Rightarrow> att_request \<Rightarrow> att_disk \<Rightarrow> att_effect list" where
  "att_effects e (BeginUpload who input) d = fst (beginAttachmentUpload e who input d)"
| "att_effects e (AppendChunk who input) d = fst (appendAttachmentChunk e who input d)"
| "att_effects e (CancelUpload who target i) d = fst (cancelAttachmentUpload e who target i d)"
| "att_effects e (FinishRead who target i) d = fst (finalize_reads e who target i d)"
| "att_effects e (FinishCommit who target i prepared shot) d = fst (finalize_commits e who target i prepared shot d)"
| "att_effects e (PinImages who target message rs) d = fst (withPinnedAttachments e who target message rs d)"
| "att_effects e (ResolveImages target message rs) d = fst (resolveMessageAttachments e target message rs d)"
| "att_effects e (InheritImages source destination) d = fst (inheritAttachmentPins e source destination d)"
| "att_effects e (ReadImage stamps who target r offset cache) d = fst (readAttachmentChunk e stamps who target r offset cache d)"

text \<open>The chunk that an answer acknowledges.\<close>

fun new_acks :: "att_env \<Rightarrow> att_request \<Rightarrow> att_disk \<Rightarrow> chunk_ack list" where
  "new_acks e (AppendChunk who input) d = (case (snd (appendAttachmentChunk e who input d), ci_data input,
       List.find (\<lambda>row. ad_id row = ci_id input) (ax_records (fst d))) of
     (Some _, Some data, Some row) \<Rightarrow> [(attachmentPath row, ci_offset input, data)] | _ \<Rightarrow> [])"
| "new_acks e _ d = []"

record att_world =
  aw_disk :: att_disk
  aw_acks :: "chunk_ack list"

definition att_after :: "att_effect list \<Rightarrow> chunk_ack list \<Rightarrow> att_world \<Rightarrow> att_world" where
  "att_after es acks w = \<lparr>aw_disk = fold att_apply es (aw_disk w), aw_acks = fold kept_acks es (aw_acks w) @ acks\<rparr>"

inductive att_step :: "(bytes \<Rightarrow> string) \<Rightarrow> att_world \<Rightarrow> att_world \<Rightarrow> bool" for sha where
  answers: "ae_sha e = sha \<Longrightarrow> att_step sha w (att_after (att_effects e req (aw_disk w)) (new_acks e req (aw_disk w)) w)"
| dies: "ae_sha e = sha \<Longrightarrow> att_step sha w (att_after (take n (att_effects e req (aw_disk w))) [] w)"
| tears: "ae_sha e = sha \<Longrightarrow> n < length (att_effects e req (aw_disk w)) \<Longrightarrow> y \<in> torn (att_effects e req (aw_disk w) ! n) \<Longrightarrow>
    att_step sha w (att_after (take n (att_effects e req (aw_disk w)) @ [y]) [] w)"

inductive att_reach :: "(bytes \<Rightarrow> string) \<Rightarrow> att_world \<Rightarrow> bool" for sha where
  start: "att_reach sha \<lparr>aw_disk = (\<lparr>ax_records = [], ax_pins = [], ax_cancelled = []\<rparr>, Map.empty), aw_acks = []\<rparr>"
| step: "att_reach sha w \<Longrightarrow> att_step sha w w' \<Longrightarrow> att_reach sha w'"

lemma effects_safe:
  assumes i: "att_inv (ae_sha e) acks d"
  shows "att_safe (ae_sha e) (att_effects e req d) acks d"
proof -
  have reads: "att_safe (ae_sha e) (fst t) acks' (s, f)" if "fst t = []" "att_inv (ae_sha e) acks' (s, f)" for t :: "'x att_tx" and acks' s f
    using that by simp
  have tx: "att_safe (ae_sha e) (fst (withAttachmentStore e run d)) acks d"
    if "\<And>s f acks. att_inv (ae_sha e) acks (s, f) \<Longrightarrow> att_safe (ae_sha e) (fst (run s f)) acks (s, f)" for run :: "att_store \<Rightarrow> att_files \<Rightarrow> 'x att_tx"
    by (rule store_safe [OF i that])
  have first: "att_safe sha (fst (att_bind t k)) acks (s, f)"
    if "fst t = []" "\<And>x. snd t = Inr x \<Longrightarrow> att_safe sha (fst (k x)) acks (s, f)" "att_inv sha acks (s, f)" for t :: "'x att_tx" and k :: "'x \<Rightarrow> 'y att_tx" and sha acks s f
    using that by (simp add: fst_att_bind split: sum.split)
  show ?thesis
  proof (cases req)
    case (BeginUpload who input)
    show ?thesis unfolding BeginUpload att_effects.simps beginAttachmentUpload_def
      by (intro store_safe [OF i] first session_reads begin_safe)
  next
    case (AppendChunk who input)
    show ?thesis unfolding AppendChunk att_effects.simps appendAttachmentChunk_def
      by (intro store_safe [OF i] first session_reads owned_row(1)) (auto intro: append_safe(1) dest: owned_row(2))
  next
    case (CancelUpload who target i')
    show ?thesis unfolding CancelUpload att_effects.simps cancelAttachmentUpload_def
      by (intro store_safe [OF i] first session_reads cancel_safe)
  next
    case (FinishRead who target i')
    show ?thesis unfolding FinishRead att_effects.simps finalize_reads_def
      by (intro store_safe [OF i] first session_reads) (simp add: finalize_safe(1))
  next
    case (FinishCommit who target i' prepared shot)
    show ?thesis unfolding FinishCommit att_effects.simps finalize_commits_def
      by (intro store_safe [OF i] first session_reads finalize_safe(2))
  next
    case (PinImages who target message rs)
    show ?thesis
    proof (cases "references_ok rs")
      case True
      then show ?thesis unfolding PinImages att_effects.simps withPinnedAttachments_def
        by (simp, intro store_safe [OF i] first session_reads pin_safe)
    qed (use i in \<open>simp add: PinImages withPinnedAttachments_def\<close>)
  next
    case (ResolveImages target message rs)
    have none: "fst (resolve_images e g target message rs s f) = []" for g s f
      by (auto simp: resolve_images_def fst_att_bind snd_att_bind split: option.split intro!: each_reads)
        (auto simp: fst_att_bind snd_att_bind readable_row(1) exact_reads(1) split: sum.split)
    show ?thesis
    proof (cases "references_ok rs \<and> rs \<noteq> []")
      case True
      then show ?thesis unfolding ResolveImages att_effects.simps resolveMessageAttachments_def
        by (simp, intro store_safe [OF i] first session_reads) (simp add: none)
    qed (use i in \<open>auto simp: ResolveImages resolveMessageAttachments_def\<close>)
  next
    case (InheritImages source destination)
    have put: "att_safe (ae_sha e) (fst (att_persist e s')) acks (s, f)"
      if "snd (inherit_pins a b pins s) = Inr s'" "att_inv (ae_sha e) acks (s, f)" for a b pins s s' f acks
      using inherit_all(2) [OF that(1)] that(2) att_invD(1) [OF that(2)]
      by (intro persist_safe [OF that(2)] pins_inv [OF that(2)]) (auto simp: index_inv_def)
    show ?thesis unfolding InheritImages att_effects.simps inheritAttachmentPins_def
      by (intro store_safe [OF i] first session_reads inherit_all(1)) (auto intro: put)
  next
    case (ReadImage stamps who target r offset cache)
    have none: "fst (read_chunk e stamps g who target r offset cache s f) = []" for g s f
      by (auto simp: read_chunk_def fst_att_bind snd_att_bind readable_row(1) verified_reference(1) split: sum.split prod.split)
    show ?thesis unfolding ReadImage att_effects.simps readAttachmentChunk_def
      by (intro store_safe [OF i] first session_reads) (simp add: none)
  qed
qed

lemma reap_subset: "snd (reapExpired e s) = Inr s' \<Longrightarrow> set (ax_records s') \<subseteq> set (ax_records s)"
  by (auto simp: reapExpired_def Let_def snd_att_bind split: if_splits sum.splits)

lemma acknowledged:
  assumes i: "att_inv (ae_sha e) acks d" and a: "a \<in> set (new_acks e (AppendChunk who input) d)"
  shows "ack_ok (fst (fold att_apply (att_effects e (AppendChunk who input) d) d))
    (snd (fold att_apply (att_effects e (AppendChunk who input) d) d)) a"
proof -
  obtain s f where d: "d = (s, f)" by force
  from a obtain rc data row0 where rc: "snd (appendAttachmentChunk e who input d) = Some rc" and data: "ci_data input = Some data"
    and row0: "List.find (\<lambda>row. ad_id row = ci_id input) (ax_records s) = Some row0" and e': "a = (attachmentPath row0, ci_offset input, data)"
    by (cases "snd (appendAttachmentChunk e who input d)"; cases "ci_data input";
      cases "List.find (\<lambda>row. ad_id row = ci_id input) (ax_records s)") (auto simp: d)
  note reap = reap_safe [OF i [unfolded d], of e]
  obtain es r where rd: "reapExpired e s = (es, r)" by force
  from rc obtain s' where r: "r = Inr s'" by (cases r) (auto simp: appendAttachmentChunk_def withAttachmentStore_def d rd)
  let ?d = "fold att_apply es (s, f)"
  have fst: "fst ?d = s'" using reap(2) rd r by simp
  obtain f' where d': "?d = (s', f')" using fst by (metis prod.collapse)
  have i': "att_inv (ae_sha e) (fold kept_acks es acks) (s', f')" using safe_cut(1) [OF reap(1), of "length es"] rd d' by simp
  let ?run = "\<lambda>s files. att_bind (attachmentSession e (ci_target input) True) (\<lambda>g.
     att_bind (ownedAttachment s g (ci_target input) who (ci_id input)) (\<lambda>row. appendUpload e row input s files))"
  have answer: "snd (?run s' f') = Inr rc"
    using rc by (auto simp: appendAttachmentChunk_def withAttachmentStore_def d rd r d' split: prod.splits sum.splits)
  then obtain g row where own: "snd (ownedAttachment s' g (ci_target input) who (ci_id input)) = Inr row"
    and app: "snd (appendUpload e row input s' f') = Inr rc" and es': "fst (?run s' f') = fst (appendUpload e row input s' f')"
    by (auto simp: snd_att_bind fst_att_bind session_reads owned_row(1) split: sum.splits)
  from owned_row(2) [OF own] have row: "row \<in> set (ax_records s')" "ad_id row = ci_id input" by auto
  have "row \<in> set (ax_records s)" using row(1) reap_subset [of e s s'] rd r by auto
  with row0 row(2) att_invD(1) [OF i [unfolded d]] have same: "row0 = row"
    by (auto simp: index_inv_def dest!: find_SomeD dest: distinct_map_keyD)
  have "fst (appendAttachmentChunk e who input d) = es @ fst (?run s' f')"
    by (simp add: appendAttachmentChunk_def withAttachmentStore_def d rd r d' split: prod.split sum.split)
  then have "fold att_apply (att_effects e (AppendChunk who input) d) d = fold att_apply (fst (appendUpload e row input s' f')) (s', f')"
    using d' es' by (simp add: d)
  with append_safe(2) [OF i' row(1) app data] show ?thesis by (simp add: e' same)
qed

lemma att_step_inv:
  assumes "att_step sha w w'" "att_inv sha (aw_acks w) (aw_disk w)"
  shows "att_inv sha (aw_acks w') (aw_disk w')"
  using assms
proof (induction rule: att_step.induct)
  case (answers e w req)
  let ?es = "att_effects e req (aw_disk w)"
  have i: "att_inv (ae_sha e) (aw_acks w) (aw_disk w)" using answers by simp
  have full: "att_inv sha (fold kept_acks ?es (aw_acks w)) (fold att_apply ?es (aw_disk w))"
    using safe_cut(1) [OF effects_safe [OF i, of req], of "length ?es"] answers(1) by simp
  have "ack_ok (fst (fold att_apply ?es (aw_disk w))) (snd (fold att_apply ?es (aw_disk w))) a" if "a \<in> set (new_acks e req (aw_disk w))" for a
    using that acknowledged [OF i, of a] by (cases req) auto
  with full show ?case by (auto simp: att_after_def att_inv_def)
next
  case (dies e w n req)
  then show ?case using safe_cut(1) [OF effects_safe, of e "aw_acks w" "aw_disk w" n req] by (simp add: att_after_def)
next
  case (tears e n req w y)
  have "kept_acks y acks = acks" for acks using tears(3) by (cases "att_effects e req (aw_disk w) ! n") auto
  with tears safe_cut(2) [OF effects_safe, of e "aw_acks w" "aw_disk w" n req y] show ?case by (simp add: att_after_def)
qed

lemma att_reach_inv: "att_reach sha w \<Longrightarrow> att_inv sha (aw_acks w) (aw_disk w)"
proof (induction rule: att_reach.induct)
  case start
  show ?case
    by (simp add: att_inv_def index_inv_def att_store_ok_def quota_ok_def pins_ok_def uploading_def files_inv_def paths_def)
next
  case (step w w')
  then show ?case by (blast intro: att_step_inv)
qed

subsection \<open>The size of the disk\<close>

definition disk_bytes :: "att_files \<Rightarrow> nat" where
  "disk_bytes f = (\<Sum>p\<in>dom f. length (the (f p)))"

lemma disk_within:
  assumes "index_inv s" "files_inv sha s f"
  shows "finite (dom f)" "disk_bytes f \<le> hostBytes" "card (dom f) \<le> att_records"
proof -
  have sub: "dom f \<subseteq> attachmentPath ` set (ax_records s)" using assms(2) by (simp add: files_inv_def paths_def)
  then show "finite (dom f)" by (rule finite_subset) simp
  have inj: "inj_on attachmentPath (set (ax_records s))" using same_path [of s] assms(1) by (auto simp: inj_on_def index_inv_def)
  let ?len = "\<lambda>p. case f p of Some file \<Rightarrow> length file | None \<Rightarrow> 0"
  have "disk_bytes f = (\<Sum>p\<in>dom f. ?len p)" unfolding disk_bytes_def by (rule sum.cong) auto
  also have "\<dots> \<le> (\<Sum>p\<in>attachmentPath ` set (ax_records s). ?len p)" by (rule sum_mono2 [OF _ sub]) simp_all
  also have "\<dots> = (\<Sum>row\<in>set (ax_records s). ?len (attachmentPath row))" by (simp add: sum.reindex [OF inj])
  also have "\<dots> \<le> (\<Sum>row\<in>set (ax_records s). ad_bytes row)"
    by (rule sum_mono) (use assms(2) in \<open>auto simp: files_inv_def split: option.split\<close>)
  also have "\<dots> = sum_list (map ad_bytes (ax_records s))"
    using assms(1) by (simp add: index_inv_def distinct_map sum_list_distinct_conv_sum_set)
  also have "\<dots> \<le> hostBytes" using assms(1) by (simp add: index_inv_def quota_ok_def)
  finally show "disk_bytes f \<le> hostBytes" .
  have "card (dom f) \<le> card (attachmentPath ` set (ax_records s))" by (rule card_mono [OF _ sub]) simp
  also have "\<dots> \<le> length (ax_records s)" using card_image_le card_length order_trans by blast
  also have "\<dots> \<le> att_records" using assms(1) by (simp add: index_inv_def att_store_ok_def)
  finally show "card (dom f) \<le> att_records" .
qed

end
