(* ===== verification/ExternalMessage.thy ===== *)
theory ExternalMessage
  imports Jsonl Capabilities
begin

text \<open>
  Reading one message out of the history of a thread that this machine does not manage (\<open>src/external/message.ts\<close>,
  \<open>messageSchema.ts\<close>, \<open>authorizeExternalRead\<close> of \<open>source.ts\<close>).  A history is the bytes of its file in the chunks it
  was read in.  What a line parses to under the schemas of the reader is an argument (\<open>native_view\<close>), and so are the
  file system and the digest.
\<close>

subsection \<open>Lines out of chunks\<close>

text \<open>
  A scanner takes each chunk apart at its newlines: \<open>piece\<close> takes what lies between them, \<open>eol\<close> ends a line.  The
  locale \<open>line_reader\<close> says when the cuts between chunks do not matter.
\<close>

definition upto_nl :: "byte list \<Rightarrow> byte list" where "upto_nl = takeWhile (\<lambda>b. b \<noteq> NL)"
definition from_nl :: "byte list \<Rightarrow> byte list" where "from_nl = dropWhile (\<lambda>b. b \<noteq> NL)"

lemma nl_split:
  "NL \<notin> set p \<Longrightarrow> upto_nl (p @ NL # q) = p" "NL \<notin> set p \<Longrightarrow> from_nl (p @ NL # q) = NL # q"
  "NL \<notin> set p \<Longrightarrow> upto_nl p = p" "NL \<notin> set p \<Longrightarrow> from_nl p = []"
  by (induction p) (auto simp: upto_nl_def from_nl_def)

function consume :: "(byte list \<Rightarrow> 's \<Rightarrow> 's) \<Rightarrow> ('s \<Rightarrow> 's) \<Rightarrow> byte list \<Rightarrow> 's \<Rightarrow> 's" where
  "consume piece eol chunk s = (case from_nl chunk of
      [] \<Rightarrow> piece (upto_nl chunk) s
    | nl # rest \<Rightarrow> consume piece eol rest (eol (piece (upto_nl chunk) s)))"
  by pat_completeness auto

termination
proof (relation "measure (\<lambda>(_, _, chunk, _). length chunk)")
  fix piece :: "byte list \<Rightarrow> 's \<Rightarrow> 's" and eol chunk s nl rest
  assume "from_nl chunk = nl # rest"
  then have "length rest < length (dropWhile (\<lambda>b. b \<noteq> NL) chunk)" by (simp add: from_nl_def)
  then show "((piece, eol, rest, eol (piece (upto_nl chunk) s)), piece, eol, chunk, s) \<in> measure (\<lambda>(_, _, chunk, _). length chunk)"
    using length_dropWhile_le [of "\<lambda>b. b \<noteq> NL" chunk] by simp
qed simp

declare consume.simps [simp del]

lemma consume_one: "NL \<notin> set p \<Longrightarrow> consume piece eol p s = piece p s"
  by (simp add: consume.simps nl_split)

lemma consume_nl: "NL \<notin> set p \<Longrightarrow> consume piece eol (p @ NL # q) s = consume piece eol q (eol (piece p s))"
  by (subst consume.simps) (simp add: nl_split)

lemma bytes_induct [case_names one nl]:
  assumes "\<And>p. NL \<notin> set p \<Longrightarrow> P p" "\<And>p q. NL \<notin> set p \<Longrightarrow> P q \<Longrightarrow> P (p @ NL # q)"
  shows "P bs"
proof (induction "length bs" arbitrary: bs rule: less_induct)
  case less
  show ?case
  proof (cases "NL \<in> set bs")
    case True
    then obtain p q where pq: "bs = p @ NL # q" "NL \<notin> set p" by (meson split_list_first)
    then show ?thesis using assms(2) [OF pq(2) less] by simp
  next
    case False
    then show ?thesis by (rule assms(1))
  qed
qed

text \<open>Whole lines, and what follows the last newline.\<close>

definition whole_lines :: "byte list \<Rightarrow> byte list list" where "whole_lines bs = butlast (split_lines bs)"
definition open_line :: "byte list \<Rightarrow> byte list" where "open_line bs = last (split_lines bs)"

lemma split_one: "NL \<notin> set p \<Longrightarrow> split_lines p = [p]"
  by (induction p) auto

lemma lines_simps:
  "NL \<notin> set p \<Longrightarrow> whole_lines p = []" "NL \<notin> set p \<Longrightarrow> open_line p = p"
  "NL \<notin> set p \<Longrightarrow> whole_lines (p @ NL # q) = p # whole_lines q" "NL \<notin> set p \<Longrightarrow> open_line (p @ NL # q) = open_line q"
  by (simp_all add: whole_lines_def open_line_def split_lines_append split_one)

lemma consume_lines:
  "consume piece eol bs s = piece (open_line bs) (fold (\<lambda>l s. eol (piece l s)) (whole_lines bs) s)"
  by (induction bs arbitrary: s rule: bytes_induct) (simp_all add: consume_one consume_nl lines_simps)

locale line_reader =
  fixes piece :: "byte list \<Rightarrow> 's \<Rightarrow> 's"
    and eol :: "'s \<Rightarrow> 's"
    and same :: "'s \<Rightarrow> 's \<Rightarrow> bool"
    and good :: "'s \<Rightarrow> byte list \<Rightarrow> bool"
    and width :: nat
  assumes same_refl: "same s s"
    and piece_same: "good s p \<Longrightarrow> same (piece (p @ q) s) (piece q (piece p s))"
    and piece_exact: "good s p \<Longrightarrow> good (piece p s) q \<Longrightarrow> piece (p @ q) s = piece q (piece p s)"
    and same_eol: "same s t \<Longrightarrow> eol s = eol t"
    and eol_good: "good (eol s) p"
    and wide_good: "width \<le> length p \<Longrightarrow> good s p"
begin

abbreviation "eat \<equiv> consume piece eol"

lemma eat_split:
  assumes "good s c"
  shows "same (eat (c @ d) s) (eat d (eat c s))"
    and "width \<le> length d \<Longrightarrow> eat (c @ d) s = eat d (eat c s)"
proof -
  have "same (eat (c @ d) s) (eat d (eat c s)) \<and> (width \<le> length d \<longrightarrow> eat (c @ d) s = eat d (eat c s))"
    using assms
  proof (induction c arbitrary: s rule: bytes_induct)
    case (one c)
    show ?case
    proof (cases "NL \<in> set d")
      case True
      then obtain p q where pq: "d = p @ NL # q" "NL \<notin> set p" by (meson split_list_first)
      have "eat (c @ d) s = eat q (eol (piece (c @ p) s))"
        using consume_nl [of "c @ p" piece eol q s] one.hyps pq by simp
      also have "\<dots> = eat q (eol (piece p (piece c s)))" using same_eol [OF piece_same [OF one.prems]] by simp
      also have "\<dots> = eat d (eat c s)" using one.hyps pq by (simp add: consume_one consume_nl)
      finally show ?thesis by (simp add: same_refl)
    next
      case False
      then show ?thesis
        using one piece_same [OF one.prems, of d] piece_exact [OF one.prems wide_good, of d] by (simp add: consume_one)
    qed
  next
    case (nl p q)
    then show ?case by (simp add: consume_nl eol_good)
  qed
  then show "same (eat (c @ d) s) (eat d (eat c s))" "width \<le> length d \<Longrightarrow> eat (c @ d) s = eat d (eat c s)" by simp_all
qed

lemma eat_wide:
  assumes "\<forall>c\<in>set cs. width \<le> length c" "cs \<noteq> []"
  shows "fold eat cs s = eat (concat cs) s"
  using assms(2,1)
proof (induction cs rule: rev_nonempty_induct)
  case (snoc c cs)
  have "width \<le> length (concat cs)" using snoc.hyps snoc.prems by (cases cs) auto
  then show ?case using snoc eat_split(2) [OF wide_good, of "concat cs" c s] by simp
qed simp

text \<open>All chunks but the last must be at least \<open>width\<close> long.\<close>

lemma eat_chunks:
  assumes "\<forall>c\<in>set (butlast cs). width \<le> length c" "cs \<noteq> []"
  shows "same (eat (concat cs) s) (fold eat cs s)"
proof (cases "butlast cs")
  case Nil
  then obtain c where "cs = [c]" using assms(2) by (cases cs) (auto split: if_splits)
  then show ?thesis by (simp add: same_refl)
next
  case (Cons b bs)
  let ?ini = "butlast cs"
  have cs: "cs = ?ini @ [last cs]" using assms(2) by simp
  have w: "width \<le> length (concat ?ini)" using assms(1) Cons by (cases ?ini) auto
  have "concat cs = concat ?ini @ last cs" using cs by (metis append.right_neutral concat.simps concat_append)
  moreover have "fold eat cs s = eat (last cs) (fold eat ?ini s)" by (subst cs) simp
  moreover have "fold eat ?ini s = eat (concat ?ini) s" using eat_wide [OF assms(1)] Cons by simp
  ultimately show ?thesis using eat_split(1) [OF wide_good [OF w], of "last cs" s] by simp
qed

end

subsection \<open>Who submitted an input\<close>

datatype author_verdict = ByPerson | NotByPerson | Unverifiable
datatype input_position = TurnOpening | MidTurn

record authorship =
  au_verdict :: author_verdict
  au_trigger :: "string option"
  au_position :: input_position
  au_reason :: string

definition PERSON_TRIGGERS :: "string list" where
  "PERSON_TRIGGERS = [''composer'', ''edit_user_message'', ''remote_android'', ''remote_ios'']"

definition NON_PERSON_TRIGGERS :: "string list" where
  "NON_PERSON_TRIGGERS = [''app_tool_send_message'', ''automation_heartbeat_scheduled'', ''goal'', ''app_update_resume'',
     ''resume_interrupted_task'']"

definition attributeAuthorship :: "string option \<Rightarrow> input_position \<Rightarrow> authorship" where
  "attributeAuthorship trigger position =
     (let says = (\<lambda>v why. \<lparr>au_verdict = v, au_trigger = trigger, au_position = position, au_reason = why\<rparr>) in
      if position = MidTurn then says Unverifiable ''input added to a running turn carries no attribution of its own''
      else (case trigger of
          None \<Rightarrow> says Unverifiable ''the turn has no recorded trigger''
        | Some t \<Rightarrow> if t \<in> set PERSON_TRIGGERS then says ByPerson ''a person started the turn it opened''
            else if t \<in> set NON_PERSON_TRIGGERS then says NotByPerson ''an agent, an automation or the client started the turn''
            else says Unverifiable ''the turn trigger does not identify who submitted the input''))"

subsection \<open>Records of a history\<close>

datatype content_part = TextPart string | ImagePart | ForeignPart

record native_item =
  ni_thread :: string
  ni_turn :: string
  ni_type :: string
  ni_id :: string
  ni_client :: "string option"
  ni_parts :: "content_part list"
  ni_at :: "string option"

text \<open>What the schemas find in a line: the thread of a \<open>session_meta\<close>, the turn and trigger of a \<open>task_started\<close>,
  the item of an \<open>item_completed\<close>, and the first turn id in its head.\<close>

record native_view =
  nv_meta :: "byte list \<Rightarrow> string option"
  nv_start :: "byte list \<Rightarrow> (string \<times> string option) option"
  nv_item :: "byte list \<Rightarrow> native_item option"
  nv_turn :: "byte list \<Rightarrow> string option"

definition bytes_of :: "string \<Rightarrow> byte list" where "bytes_of s = map of_char s"

fun has_bytes :: "byte list \<Rightarrow> byte list \<Rightarrow> bool" where
  "has_bytes n [] = (n = [])"
| "has_bytes n (b # bs) = (take (length n) (b # bs) = n \<or> has_bytes n bs)"

record found_message =
  fm_id :: string
  fm_client :: "string option"
  fm_turn :: string
  fm_at :: "string option"
  fm_text :: string
  fm_images :: nat
  fm_foreign :: bool
  fm_author :: authorship

definition part_text :: "content_part \<Rightarrow> string" where
  "part_text p = (case p of TextPart t \<Rightarrow> t | _ \<Rightarrow> [])"

datatype scan_meta = MetaUnseen | MetaThread | MetaOther

record scan_state =
  sc_meta :: scan_meta
  sc_items :: bool
  sc_found :: "found_message option"
  sc_ambiguous :: bool
  sc_notUser :: bool
  sc_huge :: bool
  sc_turns :: "(string \<times> string option) list"
  sc_inputs :: "string list"
  sc_line :: "byte list"
  sc_over :: bool
  sc_tail :: "byte list"

definition scan_start :: scan_state where
  "scan_start = \<lparr>sc_meta = MetaUnseen, sc_items = False, sc_found = None, sc_ambiguous = False, sc_notUser = False,
     sc_huge = False, sc_turns = [], sc_inputs = [], sc_line = [], sc_over = False, sc_tail = []\<rparr>"

definition max_turns :: nat where "max_turns = 100000"
definition message_recordBytes :: nat where "message_recordBytes = 4 * 1024 * 1024"
definition message_sourceBytes :: nat where "message_sourceBytes = 2 * 1024 * 1024 * 1024"
definition message_textBytes :: nat where "message_textBytes = 256 * 1024"

definition found_of :: "scan_state \<Rightarrow> native_item \<Rightarrow> found_message" where
  "found_of st x = \<lparr>fm_id = ni_id x, fm_client = ni_client x, fm_turn = ni_turn x, fm_at = ni_at x,
     fm_text = concat (map part_text (ni_parts x)), fm_images = length (filter (\<lambda>p. p = ImagePart) (ni_parts x)),
     fm_foreign = (ForeignPart \<in> set (ni_parts x)),
     fm_author = attributeAuthorship (case map_of (sc_turns st) (ni_turn x) of None \<Rightarrow> None | Some g \<Rightarrow> g)
       (if ni_turn x \<in> set (sc_inputs st) then MidTurn else TurnOpening)\<rparr>"

definition add_input :: "string \<Rightarrow> scan_state \<Rightarrow> scan_state" where
  "add_input t st = st\<lparr>sc_inputs := (if t \<in> set (sc_inputs st) then sc_inputs st else sc_inputs st @ [t])\<rparr>"

definition record_item :: "string \<Rightarrow> string \<Rightarrow> native_item \<Rightarrow> scan_state \<Rightarrow> scan_state" where
  "record_item thread message x st =
     (if ni_id x \<noteq> message then (if ni_type x = ''UserMessage'' then add_input (ni_turn x) st else st)
      else if ni_thread x \<noteq> thread then st
      else if ni_type x \<noteq> ''UserMessage'' then st\<lparr>sc_notUser := True\<rparr>
      else (let c = found_of st x; st' = add_input (ni_turn x) st in
        case sc_found st of
          None \<Rightarrow> st'\<lparr>sc_found := Some c\<rparr>
        | Some f \<Rightarrow> if fm_text f \<noteq> fm_text c \<or> fm_turn f \<noteq> fm_turn c then st'\<lparr>sc_ambiguous := True\<rparr> else st'))"

definition record_line :: "native_view \<Rightarrow> string \<Rightarrow> string \<Rightarrow> byte list \<Rightarrow> scan_state \<Rightarrow> scan_state" where
  "record_line v thread message line st =
     (if sc_meta st = MetaUnseen then st\<lparr>sc_meta := (if nv_meta v line = Some thread then MetaThread else MetaOther)\<rparr>
      else if has_bytes (bytes_of ''\"task_started\"'') line
      then (case nv_start v line of
          Some (t, g) \<Rightarrow> if length (sc_turns st) < max_turns then st\<lparr>sc_turns := AList.update t g (sc_turns st)\<rparr> else st
        | None \<Rightarrow> st)
      else if \<not> has_bytes (bytes_of ''\"item_completed\"'') line then st
      else (let st' = st\<lparr>sc_items := True\<rparr> in
        if \<not> has_bytes (bytes_of message) line
        then (case (if has_bytes (bytes_of ''\"UserMessage\"'') line then nv_turn v (take 1024 line) else None) of
            Some t \<Rightarrow> add_input t st' | None \<Rightarrow> st')
        else (case nv_item v line of None \<Rightarrow> st' | Some x \<Rightarrow> record_item thread message x st')))"

text \<open>A line beyond the limit is not kept; only the last bytes of it are, to find the id across chunks.\<close>

definition scan_piece :: "nat \<Rightarrow> string \<Rightarrow> byte list \<Rightarrow> scan_state \<Rightarrow> scan_state" where
  "scan_piece limit message p st =
     (let needle = bytes_of message in
      if sc_over st
      then st\<lparr>sc_huge := (sc_huge st \<or> has_bytes needle (sc_tail st @ p)), sc_tail := last_bytes (length needle) p\<rparr>
      else (let held = sc_line st @ p in
        if length held > limit
        then st\<lparr>sc_over := True, sc_huge := (sc_huge st \<or> has_bytes needle held), sc_tail := last_bytes (length needle) held,
               sc_line := []\<rparr>
        else st\<lparr>sc_line := held\<rparr>))"

definition scan_eol :: "native_view \<Rightarrow> string \<Rightarrow> string \<Rightarrow> scan_state \<Rightarrow> scan_state" where
  "scan_eol v thread message st =
     (if sc_over st then st else record_line v thread message (sc_line st) st)\<lparr>sc_line := [], sc_over := False, sc_tail := []\<rparr>"

definition scan_chunk :: "nat \<Rightarrow> native_view \<Rightarrow> string \<Rightarrow> string \<Rightarrow> byte list \<Rightarrow> scan_state \<Rightarrow> scan_state" where
  "scan_chunk limit v thread message = consume (scan_piece limit message) (scan_eol v thread message)"

subsection \<open>Which file holds a message\<close>

record codex_segment =
  sg_path :: string
  sg_start :: "nat option"
  sg_compressed :: bool

definition hex_value :: "char \<Rightarrow> nat option" where
  "hex_value c = find_index (\<lambda>x. x = c) ''0123456789abcdef''"

definition uuidV7Time :: "string \<Rightarrow> nat option" where
  "uuidV7Time i = (let hex = filter (\<lambda>c. c \<noteq> CHR ''-'') i in
     if length hex \<noteq> 32 \<or> hex ! 12 \<noteq> CHR ''7'' then None
     else fold (\<lambda>c n. case (n, hex_value c) of (Some k, Some d) \<Rightarrow> Some (16 * k + d) | _ \<Rightarrow> None) (take 12 hex) (Some 0))"

definition segmentHolding :: "codex_segment list \<Rightarrow> string \<Rightarrow> codex_segment option" where
  "segmentHolding segments message = (case segments of
      [s] \<Rightarrow> Some s
    | _ \<Rightarrow> (case uuidV7Time message of
        None \<Rightarrow> None
      | Some at \<Rightarrow> if \<exists>s\<in>set segments. sg_start s = None then None
          else fold (\<lambda>s holding. if nullish (sg_start s) 0 \<le> at then Some s else holding) segments None))"

subsection \<open>The read\<close>

datatype external_provider = CodexThread | ClaudeThread

record external_target =
  xt_provider :: external_provider
  xt_machine :: string
  xt_thread :: string

definition provider_agent :: "external_provider \<Rightarrow> agent_kind" where
  "provider_agent p = (case p of CodexThread \<Rightarrow> Codex | ClaudeThread \<Rightarrow> Claude)"

definition authorizeExternalRead :: "string \<Rightarrow> bool \<Rightarrow> session list \<Rightarrow> external_target \<Rightarrow> app_error option" where
  "authorizeExternalRead machine inventory sessions t =
     (if xt_machine t \<noteq> machine then Some (AppError ''IDENTITY_MISMATCH'' ''External identity does not belong to this host'' 409)
      else if \<not> inventory then Some (AppError ''PERMISSION_DENIED'' ''External content access is disabled'' 403)
      else if \<exists>s\<in>set sessions. s_agent s = provider_agent (xt_provider t) \<and> s_uuid s = xt_thread t
      then Some (AppError ''IDENTITY_MISMATCH'' ''Use the managed history contract for this identity'' 409)
      else None)"

datatype read_outcome = Resolved | NotFound | NotUserInput | AmbiguousMessage | TooLarge | UnsupportedHistory | HistoryAbsent | HistoryUnavailable

record message_result =
  mr_outcome :: read_outcome
  mr_revision :: "string option"
  mr_message :: "found_message option"

text \<open>A step outside this file throws an \<open>AppError\<close>, which the caller gets, or anything else, which is \<open>unavailable\<close>.\<close>

datatype read_fault = Refused app_error | Broken

datatype opened = Moved | Opened nat "byte list list"

record message_facts =
  mx_machine :: string
  mx_inventory :: bool
  mx_sessions :: "session list"
  mx_root :: bool
  mx_segments :: "read_fault + codex_segment list option"
  mx_open :: "codex_segment \<Rightarrow> read_fault + opened"
  mx_busy :: bool
  mx_after :: "read_fault option"
  mx_later :: "session list"
  mx_same :: bool
  mx_sha :: "byte list \<Rightarrow> string"
  mx_view :: native_view

text \<open>\<open>Opened size chunks\<close> is the size at the open and the chunks read up to it (decompressed where the file is); a
  read that gave nothing before the size was reached has fewer bytes.\<close>

definition scan_source :: "message_facts \<Rightarrow> bool \<Rightarrow> nat \<Rightarrow> byte list list \<Rightarrow> read_fault + read_outcome option" where
  "scan_source f compressed sz chunks =
     (let total = length (concat chunks) in
      if \<not> compressed \<and> sz > message_sourceBytes
      then Inl (Refused (AppError ''RESOURCE_EXHAUSTED'' ''External history source exceeds the read budget'' 413))
      else if mx_busy f then Inl (Refused (AppError ''RESOURCE_EXHAUSTED'' ''External history reader capacity is busy'' 429))
      else if compressed then Inr (if total > message_sourceBytes then Some TooLarge else None)
      else Inr (if total < sz then Some HistoryUnavailable else None))"

definition message_answer :: "scan_state \<Rightarrow> read_outcome \<times> found_message option" where
  "message_answer st =
     (if sc_ambiguous st then (AmbiguousMessage, None)
      else if sc_huge st then (TooLarge, None)
      else (case sc_found st of
          None \<Rightarrow> (if sc_notUser st then NotUserInput else if sc_items st then NotFound else UnsupportedHistory, None)
        | Some x \<Rightarrow>
            if fm_foreign x then (UnsupportedHistory, None)
            else if length (fm_text x) > message_textBytes then (TooLarge, None)
            else if length (fm_turn x) > 128 \<or> (case fm_client x of None \<Rightarrow> False | Some c \<Rightarrow> length c > 128)
            then (HistoryUnavailable, None)
            else (Resolved, Some x)))"

definition read_unavailable :: message_result where
  "read_unavailable = \<lparr>mr_outcome = HistoryUnavailable, mr_revision = None, mr_message = None\<rparr>"

definition readExternalMessage :: "message_facts \<Rightarrow> external_target \<Rightarrow> string \<Rightarrow> app_error + message_result" where
  "readExternalMessage f t message =
     (let plain = (\<lambda>out. Inr (\<lparr>mr_outcome = out, mr_revision = None, mr_message = None\<rparr>));
          fault = (\<lambda>x. case x of Refused e \<Rightarrow> Inl e | Broken \<Rightarrow> Inr read_unavailable) in
      case authorizeExternalRead (mx_machine f) (mx_inventory f) (mx_sessions f) t of Some e \<Rightarrow> Inl e | None \<Rightarrow>
      if xt_provider t \<noteq> CodexThread then plain UnsupportedHistory
      else if \<not> mx_root f then plain HistoryAbsent
      else (case mx_segments f of Inl x \<Rightarrow> fault x | Inr None \<Rightarrow> plain HistoryAbsent | Inr (Some segments) \<Rightarrow>
        (case segmentHolding segments message of None \<Rightarrow> plain UnsupportedHistory | Some segment \<Rightarrow>
          (case mx_open f segment of Inl x \<Rightarrow> fault x | Inr Moved \<Rightarrow> plain HistoryUnavailable
           | Inr (Opened sz chunks) \<Rightarrow>
            (case scan_source f (sg_compressed segment) sz chunks of Inl x \<Rightarrow> fault x | Inr (Some out) \<Rightarrow> plain out | Inr None \<Rightarrow>
              (let st = fold (scan_chunk message_recordBytes (mx_view f) (xt_thread t) message) chunks scan_start in
               case mx_after f of Some x \<Rightarrow> fault x | None \<Rightarrow>
               (case authorizeExternalRead (mx_machine f) (mx_inventory f) (mx_later f) t of Some e \<Rightarrow> Inl e | None \<Rightarrow>
                if \<not> mx_same f \<or> sc_meta st \<noteq> MetaThread then plain HistoryUnavailable
                else (let (out, x) = message_answer st in
                  if out = HistoryUnavailable then Inr read_unavailable
                  else Inr (\<lparr>mr_outcome = out, mr_revision = Some (mx_sha f (concat chunks)), mr_message = x\<rparr>)))))))))"

end
