(* ===== verification/ExternalScan.thy ===== *)
theory ExternalScan
  imports ExternalMessage
begin

text \<open>
  The scan of a history reads the same from any chunks that are at least as long as the id it looks for, and what it
  finds is what the records of the file say, one line at a time.
\<close>

subsection \<open>Looking for bytes\<close>

lemma has_bytes_iff: "has_bytes n bs \<longleftrightarrow> sublist n bs"
proof (induction bs)
  case (Cons b bs)
  have "take (length n) (b # bs) = n \<longleftrightarrow> prefix n (b # bs)" by (metis append_eq_conv_conj append_take_drop_id prefixI prefixE take_is_prefix)
  with Cons show ?case by (auto simp: sublist_Cons_right)
qed auto

lemma suffix_last_bytes: "suffix xs ys \<Longrightarrow> length xs \<le> n \<Longrightarrow> suffix xs (last_bytes n ys)"
proof -
  assume "suffix xs ys" "length xs \<le> n"
  then obtain zs where "ys = zs @ xs" by (auto simp: suffix_def)
  with \<open>length xs \<le> n\<close> have "last_bytes n ys = drop (length ys - n) zs @ xs" by (simp add: last_bytes_def)
  then show ?thesis by (simp add: suffix_def)
qed

lemma last_bytes_sublist: "sublist (last_bytes n p) p"
  by (simp add: last_bytes_def)

lemma has_bytes_split: "has_bytes n (p @ q) \<longleftrightarrow> has_bytes n p \<or> has_bytes n (last_bytes (length n) p @ q)"
proof
  assume "has_bytes n (p @ q)"
  then consider "sublist n p" | "sublist n q" | a b where "n = a @ b" "suffix a p" "prefix b q"
    by (auto simp: has_bytes_iff sublist_append)
  then show "has_bytes n p \<or> has_bytes n (last_bytes (length n) p @ q)"
  proof cases
    case 3
    then have "suffix a (last_bytes (length n) p)" by (simp add: suffix_last_bytes)
    with 3 show ?thesis by (auto simp: has_bytes_iff sublist_append)
  qed (auto simp: has_bytes_iff sublist_append)
next
  have "suffix (last_bytes (length n) p) p" by (simp add: last_bytes_def suffix_drop)
  moreover assume "has_bytes n p \<or> has_bytes n (last_bytes (length n) p @ q)"
  ultimately show "has_bytes n (p @ q)"
    by (auto simp: has_bytes_iff sublist_append intro: suffix_order.trans dest: sublist_order.order.trans suffix_imp_sublist)
qed

lemma last_bytes_wide: "n \<le> length q \<Longrightarrow> last_bytes n (p @ q) = last_bytes n q"
  by (simp add: last_bytes_def)

subsection \<open>The cuts between chunks\<close>

definition same_scan :: "scan_state \<Rightarrow> scan_state \<Rightarrow> bool" where
  "same_scan s t = (s\<lparr>sc_tail := []\<rparr> = t\<lparr>sc_tail := []\<rparr>)"

definition scan_good :: "string \<Rightarrow> scan_state \<Rightarrow> byte list \<Rightarrow> bool" where
  "scan_good message s p = (sc_over s \<longrightarrow> length message \<le> length p)"

lemma found_frame [simp]:
  "found_of (st\<lparr>sc_tail := x\<rparr>) = found_of st" "found_of (st\<lparr>sc_huge := h\<rparr>) = found_of st" "found_of (st\<lparr>sc_line := y\<rparr>) = found_of st"
  by (simp_all add: found_of_def fun_eq_iff)

lemma input_frame [simp]:
  "add_input t (st\<lparr>sc_tail := x\<rparr>) = (add_input t st)\<lparr>sc_tail := x\<rparr>"
  "add_input t (st\<lparr>sc_huge := h\<rparr>) = (add_input t st)\<lparr>sc_huge := h\<rparr>"
  "add_input t (st\<lparr>sc_line := y\<rparr>) = (add_input t st)\<lparr>sc_line := y\<rparr>"
  "sc_found (add_input t st) = sc_found st" "sc_tail (add_input t st) = sc_tail st" "sc_huge (add_input t st) = sc_huge st"
  "sc_over (add_input t st) = sc_over st" "sc_line (add_input t st) = sc_line st"
  by (simp_all add: add_input_def)

lemma item_frame [simp]:
  "record_item thread message x (st\<lparr>sc_tail := y\<rparr>) = (record_item thread message x st)\<lparr>sc_tail := y\<rparr>"
  "record_item thread message x (st\<lparr>sc_huge := h\<rparr>) = (record_item thread message x st)\<lparr>sc_huge := h\<rparr>"
  "record_item thread message x (st\<lparr>sc_line := y\<rparr>) = (record_item thread message x st)\<lparr>sc_line := y\<rparr>"
  "sc_tail (record_item thread message x st) = sc_tail st" "sc_huge (record_item thread message x st) = sc_huge st"
  "sc_over (record_item thread message x st) = sc_over st" "sc_line (record_item thread message x st) = sc_line st"
  by (simp_all add: record_item_def Let_def split: option.split)

lemma input_items [simp]:
  "add_input t (st\<lparr>sc_items := z\<rparr>) = (add_input t st)\<lparr>sc_items := z\<rparr>" by (simp add: add_input_def)

lemma record_line_frame:
  "record_line v thread message line (st\<lparr>sc_tail := x\<rparr>) = (record_line v thread message line st)\<lparr>sc_tail := x\<rparr>"
  "record_line v thread message line (st\<lparr>sc_huge := h\<rparr>) = (record_line v thread message line st)\<lparr>sc_huge := h\<rparr>"
  "record_line v thread message line (st\<lparr>sc_line := y\<rparr>) = (record_line v thread message line st)\<lparr>sc_line := y\<rparr>"
proof -
  have items: "(st\<lparr>sc_tail := x\<rparr>)\<lparr>sc_items := True\<rparr> = (st\<lparr>sc_items := True\<rparr>)\<lparr>sc_tail := x\<rparr>"
    "(st\<lparr>sc_huge := h\<rparr>)\<lparr>sc_items := True\<rparr> = (st\<lparr>sc_items := True\<rparr>)\<lparr>sc_huge := h\<rparr>"
    "(st\<lparr>sc_line := y\<rparr>)\<lparr>sc_items := True\<rparr> = (st\<lparr>sc_items := True\<rparr>)\<lparr>sc_line := y\<rparr>" by simp_all
  show "record_line v thread message line (st\<lparr>sc_tail := x\<rparr>) = (record_line v thread message line st)\<lparr>sc_tail := x\<rparr>"
    unfolding record_line_def Let_def items by (simp del: input_items split: option.split)
  show "record_line v thread message line (st\<lparr>sc_huge := h\<rparr>) = (record_line v thread message line st)\<lparr>sc_huge := h\<rparr>"
    unfolding record_line_def Let_def items by (simp del: input_items split: option.split)
  show "record_line v thread message line (st\<lparr>sc_line := y\<rparr>) = (record_line v thread message line st)\<lparr>sc_line := y\<rparr>"
    unfolding record_line_def Let_def items by (simp del: input_items split: option.split)
qed

lemma record_line_keeps [simp]:
  "sc_tail (record_line v thread message line st) = sc_tail st" "sc_huge (record_line v thread message line st) = sc_huge st"
  "sc_over (record_line v thread message line st) = sc_over st" "sc_line (record_line v thread message line st) = sc_line st"
  unfolding record_line_def Let_def by (simp_all split: option.split)

lemma piece_over:
  assumes "sc_over s"
  shows "scan_piece limit message p s = s\<lparr>sc_huge := (sc_huge s \<or> has_bytes (bytes_of message) (sc_tail s @ p)),
    sc_tail := last_bytes (length message) p\<rparr>"
  using assms by (simp add: scan_piece_def Let_def bytes_of_def)

lemma piece_long:
  assumes "\<not> sc_over s" "limit < length (sc_line s) + length p"
  shows "scan_piece limit message p s = s\<lparr>sc_over := True, sc_huge := (sc_huge s \<or> has_bytes (bytes_of message) (sc_line s @ p)),
    sc_tail := last_bytes (length message) (sc_line s @ p), sc_line := []\<rparr>"
  using assms by (simp add: scan_piece_def Let_def bytes_of_def)

lemma piece_short:
  assumes "\<not> sc_over s" "length (sc_line s) + length p \<le> limit"
  shows "scan_piece limit message p s = s\<lparr>sc_line := sc_line s @ p\<rparr>"
  using assms by (simp add: scan_piece_def Let_def)

lemma piece_append:
  assumes "scan_good message s p"
  shows "\<exists>x. scan_piece limit message (p @ q) s = (scan_piece limit message q (scan_piece limit message p s))\<lparr>sc_tail := x\<rparr>
    \<and> (scan_good message (scan_piece limit message p s) q \<longrightarrow> scan_piece limit message (p @ q) s = scan_piece limit message q (scan_piece limit message p s))"
proof -
  have n: "length (bytes_of message) = length message" by (simp add: bytes_of_def)
  consider "sc_over s" | "\<not> sc_over s" "limit < length (sc_line s) + length p"
    | "\<not> sc_over s" "length (sc_line s) + length p \<le> limit" by linarith
  then show ?thesis
  proof cases
    case 1
    with assms have "last_bytes (length message) (sc_tail s @ p) = last_bytes (length message) p"
      by (simp add: scan_good_def last_bytes_wide)
    with has_bytes_split [of "bytes_of message" "sc_tail s @ p" q] n
    have "has_bytes (bytes_of message) (sc_tail s @ p @ q) \<longleftrightarrow> has_bytes (bytes_of message) (sc_tail s @ p)
      \<or> has_bytes (bytes_of message) (last_bytes (length message) p @ q)" by simp
    with 1 show ?thesis
      by (intro exI [of _ "last_bytes (length message) (p @ q)"]) (simp add: piece_over scan_good_def last_bytes_wide)
  next
    case 2
    from has_bytes_split [of "bytes_of message" "sc_line s @ p" q] n
    have "has_bytes (bytes_of message) (sc_line s @ p @ q) \<longleftrightarrow> has_bytes (bytes_of message) (sc_line s @ p)
      \<or> has_bytes (bytes_of message) (last_bytes (length message) (sc_line s @ p) @ q)" by simp
    moreover have "last_bytes (length message) (sc_line s @ p @ q) = last_bytes (length message) q" if "length message \<le> length q"
      using last_bytes_wide [OF that, of "sc_line s @ p"] by simp
    ultimately show ?thesis using 2
      by (intro exI [of _ "last_bytes (length message) (sc_line s @ p @ q)"]) (simp add: piece_long piece_over scan_good_def)
  next
    case 3
    show ?thesis
      by (intro exI [of _ "sc_tail (scan_piece limit message (p @ q) s)"])
        (use 3 in \<open>simp add: piece_short, simp add: scan_piece_def Let_def\<close>)
  qed
qed

interpretation sc: line_reader "scan_piece limit message" "scan_eol v thread message" same_scan "scan_good message" "length message"
  for limit v thread message
proof
  show "same_scan s s" for s by (simp add: same_scan_def)
  show "same_scan (scan_piece limit message (p @ q) s) (scan_piece limit message q (scan_piece limit message p s))"
    if "scan_good message s p" for s p q
    using piece_append [OF that, of limit q] by (auto simp: same_scan_def)
  show "scan_piece limit message (p @ q) s = scan_piece limit message q (scan_piece limit message p s)"
    if "scan_good message s p" "scan_good message (scan_piece limit message p s) q" for s p q
    using piece_append [OF that(1), of limit q] that(2) by blast
  show "scan_eol v thread message s = scan_eol v thread message t" if "same_scan s t" for s t
  proof -
    have "s = t\<lparr>sc_tail := sc_tail s\<rparr>" using that by (simp add: same_scan_def) (metis scan_state.surjective scan_state.update_convs(11))
    then obtain x where "s = t\<lparr>sc_tail := x\<rparr>" by blast
    then show ?thesis by (simp add: scan_eol_def record_line_frame)
  qed
  show "scan_good message (scan_eol v thread message s) p" for s p by (simp add: scan_good_def scan_eol_def)
  show "scan_good message s p" if "length message \<le> length p" for s p using that by (simp add: scan_good_def)
qed

subsection \<open>Line by line\<close>

definition scan_line :: "nat \<Rightarrow> native_view \<Rightarrow> string \<Rightarrow> string \<Rightarrow> byte list \<Rightarrow> scan_state \<Rightarrow> scan_state" where
  "scan_line limit v thread message l s = scan_eol v thread message (scan_piece limit message l s)"

definition at_line :: "scan_state \<Rightarrow> bool" where
  "at_line s = (sc_line s = [] \<and> \<not> sc_over s \<and> sc_tail s = [])"

lemma scan_line_at:
  assumes "at_line s"
  shows "scan_line limit v thread message l s =
    (if length l > limit then s\<lparr>sc_huge := (sc_huge s \<or> has_bytes (bytes_of message) l)\<rparr> else record_line v thread message l s)"
    and "at_line (scan_line limit v thread message l s)"
  using assms record_line_frame(3) [of v thread message l l s]
  by (auto simp: at_line_def scan_line_def scan_piece_def scan_eol_def Let_def)

definition readable :: "nat \<Rightarrow> byte list \<Rightarrow> byte list list" where
  "readable limit bs = filter (\<lambda>l. length l \<le> limit) (whole_lines bs)"

definition unreadable :: "nat \<Rightarrow> string \<Rightarrow> byte list \<Rightarrow> bool" where
  "unreadable limit message l = (limit < length l \<and> has_bytes (bytes_of message) l)"

lemma fold_record_keeps [simp]:
  "sc_huge (fold (record_line v thread message) ls s) = sc_huge s"
  by (induction ls arbitrary: s) simp_all

lemma scan_lines:
  assumes "at_line s"
  shows "fold (scan_line limit v thread message) ls s =
    (fold (record_line v thread message) (filter (\<lambda>l. length l \<le> limit) ls) s)
      \<lparr>sc_huge := (sc_huge s \<or> (\<exists>l\<in>set ls. unreadable limit message l))\<rparr>"
  using assms
proof (induction ls arbitrary: s)
  case (Cons l ls)
  have frame: "fold (record_line v thread message) xs (s\<lparr>sc_huge := h\<rparr>) = (fold (record_line v thread message) xs s)\<lparr>sc_huge := h\<rparr>" for xs h
    by (induction xs arbitrary: s) (simp_all add: record_line_frame)
  show ?case
    using Cons.IH [OF scan_line_at(2) [OF Cons.prems, of limit v thread message l]] Cons.prems
    by (simp add: scan_line_at(1) [OF Cons.prems] frame unreadable_def)
qed simp

lemma at_start [simp]: "at_line scan_start"
  by (simp add: at_line_def scan_start_def)

lemma piece_fields:
  "sc_meta (scan_piece limit message p s) = sc_meta s" "sc_items (scan_piece limit message p s) = sc_items s"
  "sc_found (scan_piece limit message p s) = sc_found s" "sc_ambiguous (scan_piece limit message p s) = sc_ambiguous s"
  "sc_notUser (scan_piece limit message p s) = sc_notUser s"
  by (simp_all add: scan_piece_def Let_def)

lemma piece_huge: "at_line s \<Longrightarrow> sc_huge (scan_piece limit message p s) = (sc_huge s \<or> unreadable limit message p)"
  by (auto simp: scan_piece_def Let_def at_line_def unreadable_def)

text \<open>What the scan of a file knows at its end.\<close>

lemma scan_result:
  fixes chunks limit v thread message
  defines "st \<equiv> fold (scan_chunk limit v thread message) chunks scan_start"
    and "st' \<equiv> fold (record_line v thread message) (readable limit (concat chunks)) scan_start"
  assumes "\<forall>c\<in>set (butlast chunks). length message \<le> length c"
  shows "sc_meta st = sc_meta st'" "sc_items st = sc_items st'" "sc_found st = sc_found st'"
    "sc_ambiguous st = sc_ambiguous st'" "sc_notUser st = sc_notUser st'"
    "sc_huge st = (\<exists>l\<in>set (open_line (concat chunks) # whole_lines (concat chunks)). unreadable limit message l)"
proof -
  have c: "scan_chunk limit v thread message = consume (scan_piece limit message) (scan_eol v thread message)" by (simp add: fun_eq_iff scan_chunk_def)
  let ?all = "consume (scan_piece limit message) (scan_eol v thread message) (concat chunks) scan_start"
  have empty: "consume (scan_piece limit message) (scan_eol v thread message) [] scan_start = scan_start"
    by (simp add: consume_one scan_piece_def scan_start_def)
  have "same_scan ?all st"
    using sc.eat_chunks [OF assms(3), of limit v thread scan_start] empty by (cases "chunks = []") (simp_all add: st_def c same_scan_def)
  then have s: "st\<lparr>sc_tail := []\<rparr> = ?all\<lparr>sc_tail := []\<rparr>" by (simp add: same_scan_def)
  let ?whole = "fold (scan_line limit v thread message) (whole_lines (concat chunks)) scan_start"
  have "?all = scan_piece limit message (open_line (concat chunks)) ?whole"
    by (simp add: consume_lines scan_line_def [abs_def])
  moreover have w: "?whole = st'\<lparr>sc_huge := (\<exists>l\<in>set (whole_lines (concat chunks)). unreadable limit message l)\<rparr>"
    using scan_lines [OF at_start, of limit v thread message "whole_lines (concat chunks)"]
    by (simp add: st'_def readable_def) (simp add: scan_start_def)
  moreover have at: "at_line ?whole"
    by (rule fold_invariant [where Q = "\<lambda>_. True"]) (simp_all add: scan_line_at(2))
  ultimately have all: "?all = scan_piece limit message (open_line (concat chunks)) ?whole" by simp
  have fields: "sc_meta st = sc_meta ?all" "sc_items st = sc_items ?all" "sc_found st = sc_found ?all"
    "sc_ambiguous st = sc_ambiguous ?all" "sc_notUser st = sc_notUser ?all" "sc_huge st = sc_huge ?all"
    using arg_cong [OF s, of sc_meta] arg_cong [OF s, of sc_items] arg_cong [OF s, of sc_found]
      arg_cong [OF s, of sc_ambiguous] arg_cong [OF s, of sc_notUser] arg_cong [OF s, of sc_huge] by simp_all
  show "sc_meta st = sc_meta st'" "sc_items st = sc_items st'" "sc_found st = sc_found st'"
    "sc_ambiguous st = sc_ambiguous st'" "sc_notUser st = sc_notUser st'"
    by (simp_all add: fields all piece_fields w)
  show "sc_huge st = (\<exists>l\<in>set (open_line (concat chunks) # whole_lines (concat chunks)). unreadable limit message l)"
    using piece_huge [OF at, of limit message "open_line (concat chunks)"] by (auto simp: fields all w)
qed

subsection \<open>What the records say of the message\<close>

lemma authorship_fields [simp]:
  "au_trigger (attributeAuthorship trigger position) = trigger" "au_position (attributeAuthorship trigger position) = position"
  "au_verdict (attributeAuthorship trigger position) = ByPerson \<longleftrightarrow> position = TurnOpening \<and> (\<exists>t\<in>set PERSON_TRIGGERS. trigger = Some t)"
  by (simp_all add: attributeAuthorship_def Let_def split: option.split) (cases position; auto)

text \<open>The turn in which the scanner takes a line for input.\<close>

definition line_input :: "native_view \<Rightarrow> string \<Rightarrow> string \<Rightarrow> byte list \<Rightarrow> string option" where
  "line_input v thread message l =
     (if has_bytes (bytes_of ''\"task_started\"'') l \<or> \<not> has_bytes (bytes_of ''\"item_completed\"'') l then None
      else if \<not> has_bytes (bytes_of message) l
      then (if has_bytes (bytes_of ''\"UserMessage\"'') l then nv_turn v (take 1024 l) else None)
      else (case nv_item v l of None \<Rightarrow> None
        | Some x \<Rightarrow> if ni_type x = ''UserMessage'' \<and> (ni_id x = message \<longrightarrow> ni_thread x = thread) then Some (ni_turn x) else None))"

definition is_message :: "native_view \<Rightarrow> string \<Rightarrow> string \<Rightarrow> byte list \<Rightarrow> native_item \<Rightarrow> bool" where
  "is_message v thread message l x = (nv_item v l = Some x \<and> ni_id x = message \<and> ni_thread x = thread \<and> ni_type x = ''UserMessage'')"

lemma input_set [simp]: "set (sc_inputs (add_input t st)) = insert t (set (sc_inputs st))" "sc_meta (add_input t st) = sc_meta st"
    "sc_turns (add_input t st) = sc_turns st"
  by (auto simp: add_input_def)

lemma item_step:
  "sc_meta (record_item thread message x st) = sc_meta st" "sc_turns (record_item thread message x st) = sc_turns st"
  "set (sc_inputs (record_item thread message x st)) = set (sc_inputs st)
     \<union> (if ni_type x = ''UserMessage'' \<and> (ni_id x = message \<longrightarrow> ni_thread x = thread) then {ni_turn x} else {})"
  by (simp_all add: record_item_def Let_def split: option.split)

lemma item_found:
  assumes "sc_found (record_item thread message x st) = Some f"
  shows "sc_found st = Some f \<or> (ni_id x = message \<and> ni_thread x = thread \<and> ni_type x = ''UserMessage'' \<and> f = found_of st x)"
proof (cases "ni_id x = message \<and> ni_thread x = thread \<and> ni_type x = ''UserMessage''")
  case True
  with assms show ?thesis by (cases "sc_found st") (simp_all add: record_item_def Let_def split: if_splits)
next
  case False
  with assms show ?thesis by (simp add: record_item_def split: if_splits)
qed

text \<open>A line is a start of a turn, an item that may add input, or neither.\<close>

lemma record_cases:
  assumes "sc_meta st \<noteq> MetaUnseen"
  obtains (start) t g where "nv_start v l = Some (t, g)" "line_input v thread message l = None"
      "record_line v thread message l st = st\<lparr>sc_turns := AList.update t g (sc_turns st)\<rparr>"
  | (same) "line_input v thread message l = None"
      "record_line v thread message l st = st \<or> record_line v thread message l st = st\<lparr>sc_items := True\<rparr>"
  | (input) t where "line_input v thread message l = Some t" "record_line v thread message l st = add_input t (st\<lparr>sc_items := True\<rparr>)"
  | (item) x where "nv_item v l = Some x" "record_line v thread message l st = record_item thread message x (st\<lparr>sc_items := True\<rparr>)"
      "line_input v thread message l = (if ni_type x = ''UserMessage'' \<and> (ni_id x = message \<longrightarrow> ni_thread x = thread) then Some (ni_turn x) else None)"
proof -
  consider "has_bytes (bytes_of ''\"task_started\"'') l"
    | "\<not> has_bytes (bytes_of ''\"task_started\"'') l" "\<not> has_bytes (bytes_of ''\"item_completed\"'') l"
    | "\<not> has_bytes (bytes_of ''\"task_started\"'') l" "has_bytes (bytes_of ''\"item_completed\"'') l" "\<not> has_bytes (bytes_of message) l"
    | "\<not> has_bytes (bytes_of ''\"task_started\"'') l" "has_bytes (bytes_of ''\"item_completed\"'') l" "has_bytes (bytes_of message) l"
    by blast
  then show ?thesis
  proof cases
    case 1
    then have none: "line_input v thread message l = None" by (simp add: line_input_def)
    show ?thesis
    proof (cases "nv_start v l")
      case None
      with 1 assms show ?thesis by (intro same [OF none]) (simp add: record_line_def)
    next
      case (Some r)
      obtain t g where r: "r = (t, g)" by (cases r)
      show ?thesis
      proof (cases "length (sc_turns st) < max_turns")
        case True
        with 1 assms Some r show ?thesis by (intro start [OF _ none]) (simp_all add: record_line_def)
      next
        case False
        with 1 assms Some r show ?thesis by (intro same [OF none]) (simp add: record_line_def)
      qed
    qed
  next
    case 2
    then show ?thesis using assms same by (simp add: record_line_def line_input_def)
  next
    case 3
    then show ?thesis using assms same input
      by (cases "if has_bytes (bytes_of ''\"UserMessage\"'') l then nv_turn v (take 1024 l) else None")
        (simp_all add: record_line_def line_input_def Let_def)
  next
    case 4
    then show ?thesis using assms same item by (cases "nv_item v l") (simp_all add: record_line_def line_input_def Let_def)
  qed
qed

lemma found_items [simp]: "found_of (st\<lparr>sc_items := z\<rparr>) x = found_of st x" by (simp add: found_of_def)

lemma inputs_step:
  assumes "sc_meta st \<noteq> MetaUnseen"
  shows "set (sc_inputs (record_line v thread message l st)) = set (sc_inputs st) \<union> set_option (line_input v thread message l)"
    and "sc_meta (record_line v thread message l st) = sc_meta st"
  using assms by (cases rule: record_cases [of st v l thread message]; auto simp: item_step)+

lemma turns_step:
  assumes "sc_meta st \<noteq> MetaUnseen" "map_of (sc_turns (record_line v thread message l st)) t = Some g"
  shows "map_of (sc_turns st) t = Some g \<or> nv_start v l = Some (t, g)"
  using assms(1) by (cases rule: record_cases [of st v l thread message])
    (use assms(2) in \<open>auto simp: item_step update_conv' split: if_splits\<close>)

lemma found_step:
  assumes "sc_meta st \<noteq> MetaUnseen" "sc_found (record_line v thread message l st) = Some f"
  shows "sc_found st = Some f \<or> (\<exists>x. is_message v thread message l x \<and> f = found_of st x)"
  using assms(1)
proof (cases rule: record_cases [of st v l thread message])
  case (item x)
  with assms(2) item_found [of thread message x "st\<lparr>sc_items := True\<rparr>" f] show ?thesis by (auto simp: is_message_def)
qed (use assms(2) in auto)

definition found_from :: "native_view \<Rightarrow> string \<Rightarrow> string \<Rightarrow> byte list list \<Rightarrow> found_message \<Rightarrow> bool" where
  "found_from v thread message ls f =
     (\<exists>a l b x. ls = a @ l # b \<and> is_message v thread message l x \<and> fm_id f = message \<and> fm_turn f = ni_turn x
        \<and> fm_text f = concat (map part_text (ni_parts x))
        \<and> (\<forall>g. au_trigger (fm_author f) = Some g \<longrightarrow> (\<exists>k\<in>set a. nv_start v k = Some (ni_turn x, Some g)))
        \<and> (au_position (fm_author f) = TurnOpening \<longrightarrow> (\<forall>k\<in>set a. line_input v thread message k \<noteq> Some (ni_turn x)))
        \<and> (au_verdict (fm_author f) = ByPerson \<longrightarrow> au_position (fm_author f) = TurnOpening
             \<and> (\<exists>g\<in>set PERSON_TRIGGERS. au_trigger (fm_author f) = Some g)))"

lemma found_from_snoc: "found_from v thread message ls f \<Longrightarrow> found_from v thread message (ls @ [l]) f"
  unfolding found_from_def by (metis append.assoc append_Cons)

definition scan_inv :: "native_view \<Rightarrow> string \<Rightarrow> string \<Rightarrow> byte list list \<Rightarrow> scan_state \<Rightarrow> bool" where
  "scan_inv v thread message ls st =
     (sc_meta st \<noteq> MetaUnseen \<and> set (sc_inputs st) = {t. \<exists>l\<in>set ls. line_input v thread message l = Some t}
      \<and> (\<forall>t g. map_of (sc_turns st) t = Some g \<longrightarrow> (\<exists>l\<in>set ls. nv_start v l = Some (t, g)))
      \<and> (\<forall>f. sc_found st = Some f \<longrightarrow> found_from v thread message ls f))"

lemma scan_inv_step:
  assumes "scan_inv v thread message ls st"
  shows "scan_inv v thread message (ls @ [l]) (record_line v thread message l st)"
proof -
  have m: "sc_meta st \<noteq> MetaUnseen" using assms by (simp add: scan_inv_def)
  have new: "found_from v thread message (ls @ [l]) (found_of st x)" if "is_message v thread message l x" for x
  proof -
    have "\<forall>g. (case map_of (sc_turns st) (ni_turn x) of None \<Rightarrow> None | Some g \<Rightarrow> g) = Some g
        \<longrightarrow> (\<exists>k\<in>set ls. nv_start v k = Some (ni_turn x, Some g))"
      using assms by (auto simp: scan_inv_def split: option.splits)
    moreover have "ni_turn x \<notin> set (sc_inputs st) \<longrightarrow> (\<forall>k\<in>set ls. line_input v thread message k \<noteq> Some (ni_turn x))"
      using assms by (auto simp: scan_inv_def)
    ultimately show ?thesis using that unfolding found_from_def
      by (intro exI [of _ ls] exI [of _ l] exI [of _ "[]"] exI [of _ x]) (simp add: found_of_def is_message_def)
  qed
  have "\<exists>k\<in>set (ls @ [l]). nv_start v k = Some (t, g)" if "map_of (sc_turns (record_line v thread message l st)) t = Some g" for t g
    using turns_step [OF m that] assms by (auto simp: scan_inv_def)
  moreover have "found_from v thread message (ls @ [l]) f" if "sc_found (record_line v thread message l st) = Some f" for f
    using found_step [OF m that] new found_from_snoc assms by (auto simp: scan_inv_def)
  moreover have "set (sc_inputs (record_line v thread message l st)) = {t. \<exists>k\<in>set (ls @ [l]). line_input v thread message k = Some t}"
    using inputs_step(1) [OF m, of v thread message l] assms by (auto simp: scan_inv_def)
  ultimately show ?thesis using inputs_step(2) [OF m] m unfolding scan_inv_def by simp
qed

lemma scan_inv_fold:
  "scan_inv v thread message pre st \<Longrightarrow> scan_inv v thread message (pre @ ls) (fold (record_line v thread message) ls st)"
  by (induction ls arbitrary: pre st) (use scan_inv_step in force)+

lemma scan_found:
  assumes "sc_found (fold (record_line v thread message) ls scan_start) = Some f"
  shows "\<exists>meta rest. ls = meta # rest \<and> found_from v thread message rest f"
    and "sc_meta (fold (record_line v thread message) ls scan_start) = MetaThread \<Longrightarrow> nv_meta v (hd ls) = Some thread"
proof -
  from assms obtain meta rest where ls: "ls = meta # rest" by (cases ls) (auto simp: scan_start_def)
  let ?st = "record_line v thread message meta scan_start"
  have "scan_inv v thread message [] ?st" by (simp add: scan_inv_def record_line_def scan_start_def)
  from scan_inv_fold [OF this, of rest] have i: "scan_inv v thread message rest (fold (record_line v thread message) rest ?st)" by simp
  then show "\<exists>meta rest. ls = meta # rest \<and> found_from v thread message rest f" using assms ls by (simp add: scan_inv_def)
  have "sc_meta (fold (record_line v thread message) xs s) = sc_meta s" if "sc_meta s \<noteq> MetaUnseen" for xs s
    using that by (induction xs arbitrary: s) (simp_all add: inputs_step(2))
  moreover have "sc_meta ?st = (if nv_meta v meta = Some thread then MetaThread else MetaOther)"
    by (simp add: record_line_def scan_start_def)
  ultimately show "nv_meta v (hd ls) = Some thread" if "sc_meta (fold (record_line v thread message) ls scan_start) = MetaThread"
    using that ls by (auto split: if_splits)
qed

subsection \<open>What a resolved read rests on\<close>

lemma answer_found:
  assumes "snd (message_answer st) = Some x"
  shows "sc_found st = Some x" "\<not> sc_huge st" "\<not> sc_ambiguous st"
  using assms by (auto simp: message_answer_def split: if_splits option.splits)

lemma read_resolved:
  assumes "readExternalMessage f t message = Inr r" "mr_message r = Some x"
  shows "\<exists>sg sz chunks. mx_open f sg = Inr (Opened sz chunks)
    \<and> sc_meta (fold (scan_chunk message_recordBytes (mx_view f) (xt_thread t) message) chunks scan_start) = MetaThread
    \<and> snd (message_answer (fold (scan_chunk message_recordBytes (mx_view f) (xt_thread t) message) chunks scan_start)) = Some x"
  using assms unfolding readExternalMessage_def Let_def
  by (auto simp: read_unavailable_def intro!: exI split: option.splits sum.splits if_splits read_fault.splits opened.splits prod.splits)

end
