(* ===== verification/EdgeProperties.thy ===== *)
theory EdgeProperties
  imports Samples AttachmentRun ExternalScan
begin

text \<open>
  What is promised about data from outside.  The store of images: to those who upload, pin and read them, over any
  transactions that may be cut off after any of their writes or in the middle of one.  The reader of foreign histories:
  the message it returns and who it says submitted it.
\<close>

subsection \<open>Images\<close>

definition img_env :: "int \<Rightarrow> att_env" where
  "img_env now = \<lparr>ae_time = now, ae_sha = id, ae_fits = (\<lambda>_. True), ae_machine = ''m1'', ae_sessions = [a_session]\<rparr>"

definition img_begin :: begin_input where
  "img_begin = \<lparr>bi_id = ''u1'', bi_target = a_peer, bi_media = Png, bi_bytes = 2, bi_digest = ''ab''\<rparr>"

definition img_row :: att_record where
  "img_row = new_upload (img_env 0) ''g1'' (FromManaged b_peer) img_begin"

definition img_chunk :: chunk_input where
  "img_chunk = \<lparr>ci_id = ''u1'', ci_target = a_peer, ci_offset = 0, ci_data = Some ''ab''\<rparr>"

definition img_shot :: decoded_image where "img_shot = \<lparr>di_media = Png, di_width = 1, di_height = 1\<rparr>"

definition img_ref :: att_reference where "img_ref = image_reference img_row img_shot"

definition img_store :: "att_record list \<Rightarrow> att_pin list \<Rightarrow> att_store" where
  "img_store rows pins = \<lparr>ax_records = rows, ax_pins = pins, ax_cancelled = []\<rparr>"

definition img_verified :: att_record where
  "img_verified = img_row\<lparr>ad_received := 2, ad_reference := Some img_ref, ad_phase := Verified, ad_expiresAt := unretainedTtlMs\<rparr>"

definition img_pin :: att_pin where
  "img_pin = \<lparr>an_message = ''i1'', an_target = a_peer, an_registration = ''g1'', an_principal = FromManaged b_peer, an_references = [img_ref]\<rparr>"

lemma img_session: "attachmentSession (img_env now) a_peer write = att_return ''g1''"
  by (simp add: attachmentSession_def img_env_def controlTarget_def find_session_def is_native_def hasNativeRuntime_def
      a_session_def a_body_def a_peer_def)

lemmas img_defs = withAttachmentStore_def reapExpired_def reapable_def is_protected_def Let_def fst_att_bind snd_att_bind att_bind_def
  att_return_def att_do_def att_fault_def assertAttachment_def img_store_def ownedAttachment_def owns_def sameTarget_def samePrincipal_def
  att_persist_def att_store_ok_def att_record_ok_def attachmentPath_def with_row_def

lemma img_rows:
  "ad_id img_row = ''u1''" "ad_media img_row = Png" "ad_bytes img_row = 2" "ad_received img_row = 0" "ad_phase img_row = Uploading"
  "ad_digest img_row = ''ab''" "ad_reference img_row = None" "ad_expiresAt img_row = uploadTtlMs" "ad_target img_row = a_peer"
  "ad_registration img_row = ''g1''" "ad_principal img_row = FromManaged b_peer"
  by (simp_all add: img_row_def new_upload_def img_begin_def img_env_def)

lemma img_begins:
  "att_effects (img_env 0) (BeginUpload (FromManaged b_peer) img_begin) (img_store [] [], Map.empty)
     = [PutIndex (img_store [img_row] []), CreateFile (''u1'', Png)]"
proof -
  have "beginUpload (img_env 0) ''g1'' (FromManaged b_peer) img_begin (img_store [] []) Map.empty
      = ([PutIndex (img_store [img_row] []), CreateFile (''u1'', Png)], Inr (uploadReceipt img_row))"
    unfolding beginUpload_def img_row_def [symmetric] Let_def
    by (simp add: img_begin_def checkQuota_def uploading_def hostBytes_def hostUploads_def targetUploads_def att_records_def
        att_pins_def imageBytes_def ensureUploadFile_def img_rows img_env_def img_defs)
  then show ?thesis
    by (simp add: beginAttachmentUpload_def withAttachmentStore_def reapExpired_def img_store_def img_begin_def img_session)
      (simp add: att_return_def att_bind_def)
qed

lemma img_appends:
  "att_effects (img_env 0) (AppendChunk (FromManaged b_peer) img_chunk) (img_store [img_row] [], [(''u1'', Png) \<mapsto> []])
     = [WriteAt (''u1'', Png) 0 ''ab'', PutIndex (img_store [img_row\<lparr>ad_received := 2\<rparr>] [])]"
  "new_acks (img_env 0) (AppendChunk (FromManaged b_peer) img_chunk) (img_store [img_row] [], [(''u1'', Png) \<mapsto> []])
     = [((''u1'', Png), 0, ''ab'')]"
  by (simp_all add: appendAttachmentChunk_def img_chunk_def img_session appendUpload_def ensureUploadFile_def img_rows chunkBytes_def
      uploadTtlMs_def imageBytes_def att_records_def att_pins_def img_defs) (simp_all add: img_env_def uploadTtlMs_def)

lemma img_commits:
  "att_effects (img_env 0) (FinishCommit (FromManaged b_peer) a_peer ''u1'' ''ab'' img_shot)
     (img_store [img_row\<lparr>ad_received := 2\<rparr>] [], [(''u1'', Png) \<mapsto> ''ab'']) = [PutIndex (img_store [img_verified] [])]"
  by (simp add: finalize_commits_def img_session finalize_commit_def img_rows uploadTtlMs_def imageBytes_def att_records_def
      att_pins_def reference_ok_def image_reference_def img_verified_def img_ref_def img_shot_def img_defs)
    (simp add: img_env_def uploadTtlMs_def)

lemma img_ref_sel: "ar_id img_ref = ''u1''" "ar_bytes img_ref = 2" "ar_digest img_ref = ''ab''" "ar_media img_ref = Png"
    "ar_width img_ref = 1" "ar_height img_ref = 1"
  by (simp_all add: img_ref_def image_reference_def img_shot_def img_rows)

lemma img_pins:
  "att_effects (img_env 0) (PinImages (FromManaged b_peer) a_peer ''i1'' [img_ref])
     (img_store [img_verified] [], [(''u1'', Png) \<mapsto> ''ab''])
     = [PutIndex (img_store [img_verified\<lparr>ad_phase := Retained\<rparr>] [img_pin])]"
  by (simp add: withPinnedAttachments_def references_ok_def reference_ok_def img_ref_sel imageBytes_def messageBytes_def
      imagesPerMessage_def img_session pin_images_def find_pin_def readableAttachment_def verifiedReference_def exactBytes_def
      retain_def img_verified_def img_rows img_pin_def att_records_def att_pins_def unretainedTtlMs_def img_defs)
    (simp add: img_env_def unretainedTtlMs_def)

lemma img_reach:
  defines "d2 \<equiv> \<lparr>aw_disk = (img_store [img_row\<lparr>ad_received := 2\<rparr>] [], [(''u1'', Png) \<mapsto> ''ab'']), aw_acks = [((''u1'', Png), 0, ''ab'')]\<rparr>"
    and "d4 \<equiv> \<lparr>aw_disk = (img_store [img_verified\<lparr>ad_phase := Retained\<rparr>] [img_pin], [(''u1'', Png) \<mapsto> ''ab'']),
      aw_acks = [((''u1'', Png), 0, ''ab'')]\<rparr>"
  shows "att_reach id d2" "att_reach id d4"
proof -
  let ?d0 = "\<lparr>aw_disk = (img_store [] [], Map.empty), aw_acks = []\<rparr> :: att_world"
  have sha: "ae_sha (img_env 0) = id" by (simp add: img_env_def)
  have go: "att_reach id (att_after es acks w)" if "att_reach id w" "es = att_effects (img_env 0) req (aw_disk w)"
    "acks = new_acks (img_env 0) req (aw_disk w)" for w es acks req
    using att_reach.step [OF that(1) att_step.answers [OF sha]] that(2,3) by simp
  have 0: "att_reach id ?d0" using att_reach.start by (simp add: img_store_def)
  have 1: "att_reach id \<lparr>aw_disk = (img_store [img_row] [], [(''u1'', Png) \<mapsto> []]), aw_acks = []\<rparr>"
    using go [OF 0, of _ "BeginUpload (FromManaged b_peer) img_begin", OF _ refl] img_begins by (simp add: att_after_def)
  from go [OF 1, of _ "AppendChunk (FromManaged b_peer) img_chunk", OF _ refl] have "att_reach id (att_after
      [WriteAt (''u1'', Png) 0 ''ab'', PutIndex (img_store [img_row\<lparr>ad_received := 2\<rparr>] [])] [((''u1'', Png), 0, ''ab'')]
      \<lparr>aw_disk = (img_store [img_row] [], [(''u1'', Png) \<mapsto> []]), aw_acks = []\<rparr>)"
    using img_appends by simp
  then show 2: "att_reach id d2" by (simp add: att_after_def d2_def write_at_def)
  from go [OF 2, of _ "FinishCommit (FromManaged b_peer) a_peer ''u1'' ''ab'' img_shot", OF _ refl]
  have 3: "att_reach id \<lparr>aw_disk = (img_store [img_verified] [], [(''u1'', Png) \<mapsto> ''ab'']), aw_acks = [((''u1'', Png), 0, ''ab'')]\<rparr>"
    using img_commits by (simp add: d2_def att_after_def)
  from go [OF 3, of _ "PinImages (FromManaged b_peer) a_peer ''i1'' [img_ref]", OF _ refl]
  show "att_reach id d4" using img_pins by (simp add: d4_def att_after_def)
qed





subsection \<open>Foreign histories\<close>

definition ext_item :: native_item where
  "ext_item = \<lparr>ni_thread = ''th'', ni_turn = ''t1'', ni_type = ''UserMessage'', ni_id = ''i'', ni_client = None,
     ni_parts = [TextPart ''do it'', ImagePart], ni_at = None\<rparr>"

definition ext_view :: native_view where
  "ext_view = \<lparr>nv_meta = (\<lambda>_. Some ''th''), nv_start = (\<lambda>_. Some (''t1'', Some ''composer'')), nv_item = (\<lambda>_. Some ext_item), nv_turn = (\<lambda>_. None)\<rparr>"

definition ext_bytes :: "byte list" where
  "ext_bytes = bytes_of ''meta'' @ [NL] @ bytes_of ''\"task_started\"'' @ [NL] @ bytes_of ''\"item_completed\"'' @ [NL]"

definition ext_facts :: message_facts where
  "ext_facts = \<lparr>mx_machine = ''m1'', mx_inventory = True, mx_sessions = [], mx_root = True,
     mx_segments = Inr (Some [\<lparr>sg_path = ''f'', sg_start = None, sg_compressed = False\<rparr>]),
     mx_open = (\<lambda>_. Inr (Opened 37 [ext_bytes])), mx_busy = False, mx_after = None, mx_later = [], mx_same = True,
     mx_sha = (\<lambda>_. ''h''), mx_view = ext_view\<rparr>"

definition ext_target :: external_target where
  "ext_target = \<lparr>xt_provider = CodexThread, xt_machine = ''m1'', xt_thread = ''th''\<rparr>"

definition ext_start :: "byte list" where "ext_start = bytes_of ''\"task_started\"''"
definition ext_line :: "byte list" where "ext_line = bytes_of ''\"item_completed\"''"

definition ext_found :: found_message where
  "ext_found = \<lparr>fm_id = ''i'', fm_client = None, fm_turn = ''t1'', fm_at = None, fm_text = ''do it'', fm_images = 1, fm_foreign = False,
     fm_author = attributeAuthorship (Some ''composer'') TurnOpening\<rparr>"

lemma ext_has:
  "has_bytes (bytes_of ''\"task_started\"'') ext_start" "\<not> has_bytes (bytes_of ''\"task_started\"'') ext_line"
  "has_bytes (bytes_of ''\"item_completed\"'') ext_line" "has_bytes (bytes_of ''i'') ext_line"
  by code_simp+

lemma ext_lines: "whole_lines ext_bytes = [bytes_of ''meta'', ext_start, ext_line]" "open_line ext_bytes = []" "length ext_bytes = 37"
  by code_simp+

lemma ext_readable: "readable message_recordBytes ext_bytes = [bytes_of ''meta'', ext_start, ext_line]"
  by (simp add: readable_def ext_lines message_recordBytes_def) (simp add: bytes_of_def ext_start_def ext_line_def)

lemma ext_not_long: "\<not> unreadable message_recordBytes ''i'' l" if "l \<in> set [bytes_of ''meta'', ext_start, ext_line, []]"
  using that by (auto simp: unreadable_def message_recordBytes_def bytes_of_def ext_start_def ext_line_def)

lemma ext_scan:
  "fold (record_line ext_view ''th'' ''i'') [bytes_of ''meta'', ext_start, ext_line] scan_start
     = scan_start\<lparr>sc_meta := MetaThread, sc_items := True, sc_found := Some ext_found,
         sc_turns := [(''t1'', Some ''composer'')], sc_inputs := [''t1'']\<rparr>"
  by (simp add: record_line_def ext_has record_item_def found_of_def add_input_def Let_def scan_start_def ext_view_def ext_item_def
      max_turns_def part_text_def ext_found_def)

lemma ext_reads:
  "readExternalMessage ext_facts ext_target ''i'' = Inr \<lparr>mr_outcome = Resolved, mr_revision = Some ''h'', mr_message = Some ext_found\<rparr>"
proof -
  have "\<forall>c\<in>set (butlast [ext_bytes]). length ''i'' \<le> length c" by simp
  note r = scan_result [OF this, of message_recordBytes ext_view "''th''", simplified ext_readable ext_scan ext_lines concat.simps append_Nil2]
  have "sc_huge (fold (scan_chunk message_recordBytes ext_view ''th'' ''i'') [ext_bytes] scan_start) = False"
    unfolding r(6) using ext_not_long by auto
  with r show ?thesis
    by (simp add: readExternalMessage_def Let_def authorizeExternalRead_def ext_facts_def ext_target_def segmentHolding_def scan_source_def
        message_sourceBytes_def ext_lines message_answer_def message_textBytes_def scan_start_def ext_found_def)
qed

text \<open>Where chunks are shorter than the id, the tail that is kept across them is too short to find it: the line that
  holds the id of the message is not noticed.\<close>

lemma short_chunks_lose_the_id:
  "\<not> sc_huge (fold (scan_chunk 3 ext_view ''th'' ''abc'') [bytes_of ''xxxa'', bytes_of ''b'', bytes_of ''c'' @ [NL]] scan_start)"
  "unreadable 3 ''abc'' (bytes_of ''xxxabc'')"
  by code_simp+



text \<open>C33: However the reads cut a history into chunks, as long as none but the last is shorter than the id, the scan
  answers what its lines say one by one: the records short enough to be read, and whether a longer line holds the id.\<close>

theorem scan_reads_whole_lines:
  assumes "\<forall>c\<in>set (butlast chunks). length message \<le> length c"
  shows "let st = fold (scan_chunk limit v thread message) chunks scan_start;
      st' = fold (record_line v thread message) (readable limit (concat chunks)) scan_start
    in sc_meta st = sc_meta st'
      \<and> message_answer st = message_answer (st'\<lparr>sc_huge := (unreadable limit message (open_line (concat chunks))
          \<or> (\<exists>l\<in>set (whole_lines (concat chunks)). unreadable limit message l))\<rparr>)"
  using scan_result [OF assms, of limit v thread] by (simp add: Let_def message_answer_def)

theorem scan_reads_whole_lines_witness:
  "let st = fold (scan_chunk 3 ext_view ''th'' ''abc'') [bytes_of ''xxxa'', bytes_of ''bc'' @ [NL]] scan_start in message_answer st = (TooLarge, None)"
proof -
  have "unreadable 3 ''abc'' (bytes_of ''xxxabc'')" by code_simp
  moreover have "whole_lines (concat [bytes_of ''xxxa'', bytes_of ''bc'' @ [NL]]) = [bytes_of ''xxxabc'']"
    "open_line (concat [bytes_of ''xxxa'', bytes_of ''bc'' @ [NL]]) = []" "readable 3 (concat [bytes_of ''xxxa'', bytes_of ''bc'' @ [NL]]) = []"
    by code_simp+
  moreover have "message_answer (scan_start\<lparr>sc_huge := True\<rparr>) = (TooLarge, None)" by (simp add: message_answer_def scan_start_def)
  ultimately show ?thesis
    using scan_reads_whole_lines [of "[bytes_of ''xxxa'', bytes_of ''bc'' @ [NL]]" "''abc''" 3 ext_view "''th''"]
    by (simp add: bytes_of_def Let_def)
qed

end
