(* ===== verification/HoldReason.thy ===== *)
theory HoldReason
  imports ChatStore
begin

text \<open>
  The honest reason a letter has not landed yet (\<open>src/chat/holdReason.ts\<close>), the duration it names
  (\<open>src/util/duration.ts\<close>), and which waiting mail keeps \<open>ccmux wait\<close> from settling
  (\<open>mailBlocksSettle\<close> of \<open>src/chat/inboundHold.ts\<close>).
\<close>

definition humanizeDuration :: "int \<Rightarrow> string" where
  "humanizeDuration s =
     (if s \<le> 0 then em_dash
      else let d = s div 86400; h = (s mod 86400) div 3600; m = (s mod 3600) div 60
      in if d > 0 then (if h > 0 then string_of_int d @ ''d'' @ string_of_int h @ ''h''
                        else string_of_int d @ ''d'')
         else if h > 0 then (if m > 0 then string_of_int h @ ''h'' @ string_of_int m @ ''m''
                             else string_of_int h @ ''h'')
         else if m > 0 then string_of_int m @ ''m''
         else string_of_int s @ ''s'')"

datatype hold_kind = RecipientUnknown | RecipientStopped | ChatOff | AgentUnsupported | HoldOwner
  | NotDue | AwaitingTurnEnd | Live | HoldPending

record hold_reason =
  hr_kind :: hold_kind
  hr_text :: string

record daemon_hold =
  dh_reason :: string
  dh_msgId :: "string option"
  dh_heldForMs :: "int option"

text \<open>The recipient is represented by its runtime, the one field of the session that is read.\<close>

record hold_context =
  hc_recipient :: "agent_kind option"
  hc_chatEnabled :: bool
  hc_running :: bool
  hc_nowMs :: int
  hc_chatDeliverable :: "bool option"
  hc_isOwner :: "bool option"
  hc_daemonHold :: "daemon_hold option"

definition STALLED_HOLD_MS :: int where "STALLED_HOLD_MS = 10 * 60000"

definition hold :: "hold_kind \<Rightarrow> string \<Rightarrow> hold_reason" where
  "hold k t = \<lparr>hr_kind = k, hr_text = t\<rparr>"

text \<open>\<open>Math.round(ms / 1000)\<close> rounds halves up.\<close>

definition round_seconds :: "int \<Rightarrow> int" where
  "round_seconds ms = (ms + 500) div 1000"

definition live_hold :: "daemon_hold \<Rightarrow> string \<Rightarrow> hold_reason" where
  "live_hold h msgId =
     (let held = nullish (dh_heldForMs h) 0;
          mine = (dh_msgId h = None \<or> dh_msgId h = Some msgId);
          reason = (if mine then dh_reason h else ''ahead of it: '' @ dh_reason h)
      in if held < STALLED_HOLD_MS then hold Live reason
         else hold Live (''held for '' @ humanizeDuration (round_seconds held) @ '' '' @ em_dash @ '' '' @ reason))"

text \<open>
  The text of an instant, as the \<open>not-due\<close> reason quotes it, is a parameter: it is the stored
  \<open>notBefore\<close> text itself.
\<close>

definition holdReason :: "(stamp \<Rightarrow> string) \<Rightarrow> chat_message \<Rightarrow> hold_context \<Rightarrow> hold_reason" where
  "holdReason stamp_text msg ctx =
     (let sessionName = (case m_to msg of ToManaged p \<Rightarrow> mp_session p | _ \<Rightarrow> ''owner'')
      in if hc_isOwner ctx = Some True
      then hold HoldOwner (''addressed to you '' @ em_dash @ '' there is no pane to deliver to; it surfaces via the Telegram mirror if configured'')
      else case hc_recipient ctx of
        None \<Rightarrow> hold RecipientUnknown
          (''no exact session '' @ [CHR 0x27] @ targetLabel (m_to msg) @ [CHR 0x27] @ '' on this machine '' @ em_dash
            @ '' it may belong to another fleet machine or have been replaced'')
      | Some agent \<Rightarrow>
      if \<not> hc_chatEnabled ctx
      then hold ChatOff (''recipient has chat disabled (ccmux chat on '' @ sessionName @ '', then restart it)'')
      else if hc_chatDeliverable ctx = Some False
      then hold AgentUnsupported (''recipient runs '' @ agent_name agent @ '', which cannot receive chat '' @ em_dash
            @ '' this will never be delivered'')
      else if \<not> hc_running ctx
      then hold RecipientStopped (''recipient is not running (ccmux start '' @ sessionName @ '')'')
      else case (case m_notBefore msg of None \<Rightarrow> None
                 | Some nb \<Rightarrow> (case date_parse nb of None \<Rightarrow> None
                     | Some due \<Rightarrow> if hc_nowMs ctx < due then Some (nb, due) else None)) of
        Some (nb, due) \<Rightarrow> hold NotDue (''scheduled '' @ em_dash @ '' not before '' @ stamp_text nb @ '' (''
            @ string_of_int (ceil_div (due - hc_nowMs ctx) 1000) @ ''s)'')
      | None \<Rightarrow>
      case (case hc_daemonHold ctx of None \<Rightarrow> None
            | Some h \<Rightarrow> if dh_reason h \<noteq> [] then Some h else None) of
        Some h \<Rightarrow> live_hold h (m_id msg)
      | None \<Rightarrow>
      if m_defer msg
      then hold AwaitingTurnEnd (''deferred '' @ em_dash @ '' delivered at the recipient'' @ [CHR 0x27]
            @ ''s next turn boundary; no live reason on record (the daemon has not picked it up yet, or is not running)'')
      else hold HoldPending (''queued '' @ em_dash @ '' the daemon delivers it (if nothing appears, check the daemon is running: ccmux doctor)''))"

definition mailBlocksSettle :: "chat_message list \<Rightarrow> bool \<Rightarrow> bool \<Rightarrow> int \<Rightarrow> chat_message list" where
  "mailBlocksSettle unread chatEnabled canReceiveChat nowMs =
     (if \<not> chatEnabled \<or> \<not> canReceiveChat then [] else filter (\<lambda>msg. isDue msg nowMs) unread)"

subsection \<open>What each reason says about the letter\<close>

lemma hold_sel [simp]: "hr_kind (hold k t) = k" "hr_text (hold k t) = t"
  by (simp_all add: hold_def)

lemma live_hold_kind [simp]: "hr_kind (live_hold h i) = Live"
  by (simp add: live_hold_def Let_def)

text \<open>
  A letter reported as merely queued, deferred or held live can really be delivered: chat is on, the
  recipient exists, runs, can receive chat, and the letter is due.
\<close>

lemma holdReason_transient_iff:
  "hr_kind (holdReason st msg ctx) \<in> {AwaitingTurnEnd, Live, HoldPending} \<longleftrightarrow>
     hc_isOwner ctx \<noteq> Some True \<and> hc_recipient ctx \<noteq> None \<and> hc_chatEnabled ctx
     \<and> hc_chatDeliverable ctx \<noteq> Some False \<and> hc_running ctx \<and> isDue msg (hc_nowMs ctx)"
  by (auto simp: holdReason_def Let_def isDue_def split: option.splits if_splits)

text \<open>The daemon's recorded reason is the answer for every letter that is on its way.\<close>

lemma holdReason_live_iff:
  assumes "hc_isOwner ctx \<noteq> Some True" "hc_recipient ctx \<noteq> None" "hc_chatEnabled ctx"
    "hc_chatDeliverable ctx \<noteq> Some False" "hc_running ctx" "isDue msg (hc_nowMs ctx)"
  shows "hr_kind (holdReason st msg ctx) = Live
     \<longleftrightarrow> (\<exists>h. hc_daemonHold ctx = Some h \<and> dh_reason h \<noteq> [])"
  using assms by (auto simp: holdReason_def Let_def isDue_def split: option.splits if_splits)

text \<open>\<open>wait\<close> and \<open>inbox\<close> agree: mail that blocks a wait is never reported as permanent or not due.\<close>

lemma blocking_is_transient:
  assumes "msg \<in> set (mailBlocksSettle unread chatEnabled canReceive nowMs)"
  shows "hr_kind (holdReason st msg
      \<lparr>hc_recipient = Some agent, hc_chatEnabled = chatEnabled, hc_running = True, hc_nowMs = nowMs,
       hc_chatDeliverable = Some canReceive, hc_isOwner = None, hc_daemonHold = h\<rparr>)
    \<in> {AwaitingTurnEnd, Live, HoldPending}"
  using assms by (subst holdReason_transient_iff)
    (auto simp: mailBlocksSettle_def split: if_splits)

end
