(* ===== verification/Spec2Isabelle.thy ===== *)
theory Spec2Isabelle
  imports ChatProperties SessionProperties RuntimeProperties ContentProperties DeliveryProperties FleetProperties SupervisionProperties
    DelegationProperties ControlProperties EdgeProperties HoldReason TurnState
begin

text \<open>
  A model of ccmux (the TypeScript sources under \<open>src/\<close>), a daemon that runs a fleet of coding agents
  and carries letters between them.  A session is an agent in a directory, either in a terminal pane
  or \<^emph>\<open>native\<close> (a runtime process that takes turns over a protocol).  Letters go into one append-only
  ledger; passes of the daemon hand them over; files between the daemon, the commands and the runtime
  processes carry requests, receipts, content and status.  Any of these processes may die at any
  moment, so every store is written in an order that lets the next reader finish or repair the work.

  \<^bold>\<open>How the model reads the code.\<close>  A TypeScript object is a record, a discriminated union a datatype,
  an \<open>undefined\<close> field an \<open>option\<close>, an object used as a dictionary a map (an association list where its
  order matters), a thrown error the left of a sum.  A file is the value its schema parses to.  Code
  that reads, decides and writes is a function from what it read to the list of its effects in order
  and its result; an \<open>apply\<close> function gives each effect its meaning on the stored state, and a crash is
  a \<open>take\<close> of that list.  Times are milliseconds (\<open>Prelude.stamp\<close> keeps texts that do not parse apart),
  texts that are cut by size are UTF-16 code units.  Functions of the platform (digests, JSON sizes, the
  clock, parsers of provider formats, the process table) are arguments.

  \<^bold>\<open>Letters\<close> (\<open>src/chat\<close>).
  \<^item> \<open>Identity\<close>: \<open>identity.ts\<close>, \<open>identitySchema.ts\<close>: addresses, keys and their injectivity.
  \<^item> \<open>Settlement\<close>, \<open>ChatStore\<close>, \<open>Cursors\<close>: \<open>settlement.ts\<close>, \<open>messageSchema.ts\<close>, \<open>ackLog.ts\<close>, \<open>store.ts\<close>,
    \<open>cursors.ts\<close>: the state of each letter, which is next, the cursor file and its merge on save.
  \<^item> \<open>Jsonl\<close>, \<open>Ledger\<close>: \<open>util/jsonl.ts\<close>, \<open>util/readLines.ts\<close>, \<open>ledger.ts\<close>, \<open>external.ts\<close>: reading a file
    that grows, record generations, idempotent admission, letters to owners outside the fleet.
  \<^item> \<open>Format\<close>, \<open>Coalesce\<close>, \<open>HoldReason\<close>, \<open>TurnState\<close>, \<open>TurnProgress\<close>, \<open>StatusFiles\<close>: the framing of a
    letter, batches, the reasons for a delay and the evidence that a turn took a letter up.
  \<^item> \<open>NativeDelivery\<close>, \<open>RuntimeInput\<close>, \<open>NativeInv\<close>: \<open>nativeRuntime.ts\<close> and \<open>runtime/input.ts\<close>: one pass
    over a native session as its effects, and the step relation \<open>native_step\<close> of daemon, owner and other
    writers with its invariant.
  \<^item> \<open>Deliver\<close>, \<open>DeliverPass\<close>, \<open>AppInv\<close>: \<open>deliver.ts\<close>, \<open>deliverApp.ts\<close>, \<open>codexApp.ts\<close>: the pass over panes
    and App threads; \<open>gated\<close> states when input may be off, \<open>app_step\<close> is the step relation of an App thread.
  \<^item> \<open>Authorization\<close>, \<open>Origin\<close>, \<open>Basis\<close>, \<open>Correspondence\<close>: \<open>communicationAuthorizationSchema.ts\<close>,
    \<open>communicationAuthorization.ts\<close>, \<open>communicationBasis.ts\<close>, \<open>localMessages.ts\<close>, \<open>origin.ts\<close>, \<open>compose.ts\<close>:
    what a letter may claim, when it owes a justification, how that is resolved against the letters the
    machine holds; \<open>host_step\<close> writes and stores letters and \<open>traced\<close> is its invariant.
  \<^item> \<open>LogFeed\<close>: \<open>fleetLog.ts\<close>, \<open>letters.ts\<close>, \<open>logFeed.ts\<close>: rows, the merged log, the resumable feed.
  \<^item> \<open>Undeliverable\<close>: \<open>undeliverable.ts\<close>.  \<open>MessageOps\<close>: \<open>messageOperationStore.ts\<close>, the receipt journal.

  \<^bold>\<open>Other machines\<close> (\<open>src/fleet\<close>).
  \<^item> \<open>Fleet\<close>, \<open>Outbox\<close>: \<open>address.ts\<close>, \<open>remoteAdapter.ts\<close>, \<open>transport.ts\<close>, \<open>routeState.ts\<close>, \<open>outbox.ts\<close>,
    \<open>flush.ts\<close> and \<open>commands/receiveChat.ts\<close>: routes, the two ways of a call, retries, the receiving side.
  \<^item> \<open>Transit\<close>: the outbox here and the ledger there under lost, repeated and unrecorded calls.
  \<^item> \<open>PeerDelta\<close>: \<open>peerDelta.ts\<close>.  \<open>Caches\<close>: \<open>util/mtimeCache.ts\<close>, \<open>util/bootGuard.ts\<close>.

  \<^bold>\<open>Sessions\<close> (\<open>src/session\<close>).
  \<^item> \<open>Registry\<close>, \<open>RegistryInv\<close>: \<open>registry.ts\<close>, \<open>promotion.ts\<close>, \<open>pending.ts\<close>: the rows, each locked operation,
    and promotion as a journal of three writes with its recovery.
  \<^item> \<open>Version\<close>, \<open>Lifecycle\<close>: \<open>util/version.ts\<close>, \<open>lifecycleBlocks.ts\<close>, \<open>heal.ts\<close>, \<open>conversationGuard.ts\<close>.
  \<^item> \<open>Processes\<close>, \<open>Sleep\<close>: \<open>external/processes.ts\<close>, \<open>runtime/ownership.ts\<close>, \<open>session/sleep\<close>.

  \<^bold>\<open>Runtimes\<close> (\<open>src/runtime\<close>, \<open>src/agent/claude/native\<close>, \<open>src/agent/codex/owned\<close>).
  \<^item> \<open>Response\<close>, \<open>Mailbox\<close>: the callers' half of answers, interrupts, modes, MCP and rewind requests; the locale
    \<open>mailbox_contract\<close> is interpreted for all four.  \<open>MailboxOwner\<close>: the owner's half.
  \<^item> \<open>Pickup\<close>, \<open>NativeTurn\<close>: the owner's half of delivery and the fold that keeps the turn.
  \<^item> \<open>CodexOwned\<close>, \<open>CodexInv\<close>: \<open>input.ts\<close>, \<open>receipt.ts\<close>, \<open>backlog.ts\<close>: the same half for a Codex process; \<open>codex_step\<close>
    cuts its calls among the turns the provider starts by itself.

  \<^bold>\<open>Content\<close> (\<open>src/content\<close>).
  \<^item> \<open>ContentText\<close>, \<open>ContentBuffer\<close>, \<open>ContentInv\<close>, \<open>ContentWriter\<close>: chunking, the bounded buffer, its invariant,
    and the writer that publishes it.

  \<^bold>\<open>Supervision\<close> (\<open>src/events\<close>, \<open>src/monitoring\<close>).
  \<^item> \<open>EventFeed\<close>: \<open>feed.ts\<close>, \<open>schema.ts\<close>, \<open>rotateBySize\<close>: events, the file and its generations, reads.
  \<^item> \<open>Observe\<close>, \<open>ObserveInv\<close>: \<open>observe.ts\<close>: what a session looks like from outside, what a pass announces and
    which turns it closes; the facts of a pass (pane, transcript, runtime status) are a record of arguments.
  \<^item> \<open>Inventory\<close>: \<open>inventory.ts\<close>: the publisher of changes and its consumer.  \<open>Monitoring\<close>: \<open>project.ts\<close>,
    \<open>publish.ts\<close>, \<open>validate.ts\<close>, \<open>nativeRead.ts\<close>: the shown state, the bounded pass, the shared read.

  \<^bold>\<open>Authority\<close> (\<open>src/delegation\<close>, \<open>src/steering\<close>).
  \<^item> \<open>AppAuthority\<close>: \<open>application.ts\<close>: the leased rows of application runs and their two operations.
  \<^item> \<open>Delegation\<close>, \<open>DelegationInv\<close>: \<open>resolve.ts\<close>, \<open>cancel.ts\<close>: the policy of a child, and \<open>delegation_step\<close>, which
    creates generations of children between operations on the rows.
  \<^item> \<open>Steering\<close>: \<open>src/steering\<close>: input into a running turn as its effects; \<open>steer_step\<close> cuts a call anywhere.

  \<^bold>\<open>The control service\<close> (\<open>src/control\<close>).
  \<^item> \<open>Capabilities\<close>: \<open>runtime/modes.ts\<close>, \<open>runtime/capabilities.ts\<close>, \<open>runtime/creation.ts\<close>: the modes of an agent and
    what a session of a mode can do.
  \<^item> \<open>ControlCreate\<close>: \<open>lifecycle.ts\<close>, \<open>createReceipts.ts\<close>: a request to create a session, its receipt and what
    follows; \<open>create_step\<close> runs calls that may die, \<open>create_inv\<close> says what receipts and answers agree on.
  \<^item> \<open>ControlMessage\<close>, \<open>MessageDoor\<close>: \<open>message.ts\<close>, \<open>messageCancel.ts\<close>, \<open>messageOperation.ts\<close>: the checks of a letter,
    the writes to the receipt journal and the ledger in order, its withdrawal and the read of its operation;
    \<open>message_step\<close> runs calls that may die between other writers.

  \<^bold>\<open>Images\<close> (\<open>src/attachments\<close>).
  \<^item> \<open>Attachments\<close>, \<open>AttachmentOps\<close>: \<open>store.ts\<close>, \<open>schema.ts\<close>, \<open>reference.ts\<close>, \<open>identity.ts\<close>, \<open>upload.ts\<close>, \<open>service.ts\<close>,
    \<open>finalize.ts\<close>, \<open>pins.ts\<close>, \<open>preview.ts\<close>: the index and the files, and each transaction as its effects.
  \<^item> \<open>AttachmentInv\<close>, \<open>AttachmentRun\<close>: the invariant \<open>att_inv\<close> of index, files and acknowledged chunks; \<open>att_step\<close> runs
    transactions that stop after any write or in the middle of one.

  \<^bold>\<open>Foreign histories\<close> (\<open>src/external\<close>).
  \<^item> \<open>ExternalMessage\<close>, \<open>ExternalScan\<close>: \<open>message.ts\<close>, \<open>messageSchema.ts\<close>, \<open>source.ts\<close>: one message out of a thread's file
    and who submitted it; the locale \<open>line_reader\<close> says when the cuts between chunks do not matter, and the scan over
    chunks equals the records of the file line by line.

  \<^bold>\<open>Interfaces.\<close>  \<open>Prelude\<close> declares three locales: \<open>state_machine\<close> (an invariant every step keeps),
  \<open>monotone_machine\<close> (a preorder every step climbs) and \<open>fifo_queue\<close> (peek and serve of an index list).
  The components interpret them: the registry, the prompt queue, the turn, the content buffer and the
  sleep store as state machines, the cursor file and the receipt journal as monotone ones, the
  immediate inbox as a queue, the authority rows as both.  The scanner of foreign histories is a \<open>line_reader\<close>.

  \<^bold>\<open>Properties.\<close>  \<open>ChatProperties\<close>, \<open>DeliveryProperties\<close> and \<open>FleetProperties\<close> (letters and other machines),
  \<open>SessionProperties\<close>, \<open>RuntimeProperties\<close>, \<open>ContentProperties\<close>, \<open>SupervisionProperties\<close>,
  \<open>DelegationProperties\<close>, \<open>ControlProperties\<close> and \<open>EdgeProperties\<close> (images and foreign histories)
  state what the components guarantee, each property with an instance at concrete values where it has
  hypotheses; values that several of them use are in \<open>Samples\<close>.

  \<^bold>\<open>Bounds.\<close>  No model runs on fuel.  Loops that the code bounds itself are recursions over the list they
  walk; the climb through a process table is a \<open>function\<close> whose measure is the number of processes not
  seen yet; the replay loop of the content buffer, which the code does not bound, is a
  \<open>partial_function (option)\<close>, and \<open>content_operations_end\<close> shows that it always returns.

  \<^bold>\<open>Not modelled.\<close>  File locks (each locked operation is one step), atomic replacement of files (a file
  is its last written value), modes of files, the image decoder, logging, process and terminal control, HTTP, the provider SDKs, the
  terminal interface, installation and release.
\<close>

end
